(* ===== verification/Prelude.thy ===== *)
theory Prelude
  imports Main "HOL-Library.Sublist" "HOL-Library.Multiset"
begin

section \<open>Shared vocabulary and automation\<close>

text \<open>
  Generic facts the components share. A Go \<open>string\<close> (and a \<open>[]byte\<close>) is a HOL
  \<^typ>\<open>string\<close>: both are finite sequences of bytes, and \<open>len\<close> counts bytes on
  both sides. A Go map is a HOL map. Facts that many proofs share are collected in
  \<open>alva_inv\<close> (preservation of component invariants) and \<open>alva_simps\<close> (rewriting).
\<close>

named_theorems alva_inv \<open>preservation of component invariants\<close>
named_theorems alva_simps \<open>rewriting facts of the components\<close>

subsection \<open>Lists updated by position\<close>

text \<open>\<open>append(xs[:i], xs[i+1:]...)\<close> of the source.\<close>

definition remove_at :: "nat \<Rightarrow> 'a list \<Rightarrow> 'a list" where
  "remove_at i xs = take i xs @ drop (Suc i) xs"

lemma length_remove_at [simp]: "i < length xs \<Longrightarrow> length (remove_at i xs) = length xs - 1"
  by (simp add: remove_at_def min_def)

lemma nth_remove_at:
  "i < length xs \<Longrightarrow> j < length xs - 1 \<Longrightarrow> remove_at i xs ! j = (if j < i then xs ! j else xs ! Suc j)"
  by (auto simp: remove_at_def nth_append min_def)

lemma mset_remove_at: "i < length xs \<Longrightarrow> mset (remove_at i xs) = mset xs - {#xs ! i#}"
proof -
  assume i: "i < length xs"
  have "mset xs = mset (take i xs @ xs ! i # drop (Suc i) xs)"
    using i by (simp add: id_take_nth_drop [symmetric])
  then show ?thesis by (simp add: remove_at_def)
qed

lemma set_remove_at_subset: "set (remove_at i xs) \<subseteq> set xs"
  by (auto simp: remove_at_def dest: in_set_takeD in_set_dropD)

lemma subseq_remove_at: "subseq (remove_at i xs) xs"
proof (cases "i < length xs")
  case True
  then have "subseq (drop (Suc i) xs) (drop i xs)"
    by (simp add: Cons_nth_drop_Suc [symmetric] list_emb_Cons)
  then have "subseq (take i xs @ drop (Suc i) xs) (take i xs @ drop i xs)"
    by (intro list_emb_append_mono) auto
  then show ?thesis by (simp add: remove_at_def)
qed (simp add: remove_at_def)

text \<open>Removing the first element that satisfies a test (a loop with \<open>break\<close>/\<open>return\<close>).\<close>

fun remove_first :: "('a \<Rightarrow> bool) \<Rightarrow> 'a list \<Rightarrow> 'a list" where
  "remove_first p [] = []"
| "remove_first p (x # xs) = (if p x then xs else x # remove_first p xs)"

lemma set_remove_first_subset: "set (remove_first p xs) \<subseteq> set xs"
  by (induction xs) auto

lemma in_set_remove_firstD: "x \<in> set (remove_first p xs) \<Longrightarrow> x \<in> set xs"
  using set_remove_first_subset by fastforce

lemma subseq_remove_first: "subseq (remove_first p xs) xs"
  by (induction xs) auto

lemma remove_first_eq_filter:
  "distinct (map f xs) \<Longrightarrow> remove_first (\<lambda>x. f x = k) xs = filter (\<lambda>x. f x \<noteq> k) xs"
  by (induction xs) (auto simp: image_iff intro!: filter_True [symmetric])

lemma distinct_map_filterI: "distinct (map f xs) \<Longrightarrow> distinct (map f (filter p xs))"
  by (rule distinct_map_filter)

lemma length_filter_bound: "int (length xs) \<le> m \<Longrightarrow> int (length (filter p xs)) \<le> m"
  using length_filter_le [of p xs] by linarith

subsection \<open>Options\<close>

lemma not_Some_conv: "(\<forall>y. x \<noteq> Some y) \<longleftrightarrow> x = None"
  by (cases x) auto

end
