(* ===== verification/Go_Errors.thy ===== *)
theory Go_Errors
  imports Prelude
begin

section \<open>Error values\<close>

text \<open>
  Go errors as a tree, as \<open>errors.Is\<close> and the classifiers of the kernel see them:
  leaves made by \<open>errors.New\<close>, the two context errors, the kernel's typed errors
  (\<open>SessionError\<close>, \<open>ToolBlockedError\<close> of sdk/kernel/abi), \<open>fmt.Errorf\<close> with one
  \<open>%w\<close> (\<open>Wrapf\<close>) and \<open>errors.Join\<close> (\<open>Joined\<close>). A nil error is \<^term>\<open>None\<close>.
  Two leaves with the same text are the same value here; Go tells them apart by address.
\<close>

datatype go_error =
    ErrNew string
  | Canceled
  | DeadlineExceeded
  | SessionError (operation: string) (session_id: string) (session_err: go_error)
  | ToolBlockedError (reason: string)
  | Wrapf string go_error
  | Joined "go_error list"

type_synonym 'a result = "go_error + 'a"

abbreviation is_err :: "'a result \<Rightarrow> bool" where
  "is_err r \<equiv> isl r"

definition from_err :: "go_error option \<Rightarrow> 'a \<Rightarrow> 'a result" where
  "from_err e x = (case e of None \<Rightarrow> Inr x | Some err \<Rightarrow> Inl err)"

subsection \<open>The standard library's operations on errors\<close>

text \<open>\<open>errors.Join\<close>: nil entries are dropped, nothing left is nil, one entry is still wrapped.\<close>

definition errors_join :: "go_error option list \<Rightarrow> go_error option" where
  "errors_join es = (case List.map_filter id es of [] \<Rightarrow> None | xs \<Rightarrow> Some (Joined xs))"

text \<open>\<open>errors.Is\<close>: some node of the tree is the target.\<close>

fun err_is :: "go_error \<Rightarrow> go_error \<Rightarrow> bool" where
  "err_is (SessionError a b e) t = (SessionError a b e = t \<or> err_is e t)"
| "err_is (Wrapf p e) t = (Wrapf p e = t \<or> err_is e t)"
| "err_is (Joined es) t = (Joined es = t \<or> (\<exists>e \<in> set es. err_is e t))"
| "err_is e t = (e = t)"

definition errors_is :: "go_error option \<Rightarrow> go_error \<Rightarrow> bool" where
  "errors_is e t = (case e of None \<Rightarrow> False | Some x \<Rightarrow> err_is x t)"

text \<open>\<open>strings.Join\<close>, for the message of a joined error (one line per child).\<close>

fun str_join :: "string \<Rightarrow> string list \<Rightarrow> string" where
  "str_join sep [] = []"
| "str_join sep [x] = x"
| "str_join sep (x # y # ys) = x @ sep @ str_join sep (y # ys)"

fun err_text :: "go_error \<Rightarrow> string" where
  "err_text (ErrNew t) = t"
| "err_text Canceled = ''context canceled''"
| "err_text DeadlineExceeded = ''context deadline exceeded''"
| "err_text (SessionError a b e) = ''session '' @ CHR 0x22 # b @ CHR 0x22 # CHR 0x20 # a @ '': '' @ err_text e"
| "err_text (ToolBlockedError r) = r"
| "err_text (Wrapf p e) = p @ err_text e"
| "err_text (Joined es) = str_join [CHR 0x0A] (map err_text es)"

subsection \<open>Classification (sdk/kernel/abi/errors.go, sdk/kernel/core)\<close>

text \<open>\<open>OnlyCancellation\<close>: the cases in the code's order; a \<open>SessionError\<close> is refused first.\<close>

fun only_cancellation :: "go_error \<Rightarrow> bool" where
  "only_cancellation (SessionError a b e) = False"
| "only_cancellation (Joined es) = (es \<noteq> [] \<and> (\<forall>e \<in> set es. only_cancellation e))"
| "only_cancellation (Wrapf p e) = only_cancellation e"
| "only_cancellation e = (e = Canceled \<or> e = DeadlineExceeded)"

definition OnlyCancellation :: "go_error option \<Rightarrow> bool" where
  "OnlyCancellation err = (case err of None \<Rightarrow> False | Some e \<Rightarrow> only_cancellation e)"

fun tool_blocked_only :: "go_error \<Rightarrow> bool" where
  "tool_blocked_only (ToolBlockedError r) = True"
| "tool_blocked_only (SessionError a b e) = False"
| "tool_blocked_only (Joined es) = (es \<noteq> [] \<and> (\<forall>e \<in> set es. tool_blocked_only e))"
| "tool_blocked_only (Wrapf p e) = tool_blocked_only e"
| "tool_blocked_only e = False"

definition onlyToolBlocked :: "go_error option \<Rightarrow> bool" where
  "onlyToolBlocked err = (case err of None \<Rightarrow> False | Some e \<Rightarrow> tool_blocked_only e)"

datatype outcome_status = OutcomeSucceeded | OutcomeFailed | OutcomeCancelled

definition statusFor :: "go_error option \<Rightarrow> outcome_status" where
  "statusFor err = (if OnlyCancellation err then OutcomeCancelled else OutcomeFailed)"

text \<open>\<open>mergeInvocationErrors\<close> keeps one containing tree when one error wraps the other.\<close>

definition mergeInvocationErrors :: "go_error option \<Rightarrow> go_error option \<Rightarrow> go_error option" where
  "mergeInvocationErrors current nxt =
     (case current of
        None \<Rightarrow> nxt
      | Some c \<Rightarrow>
          (case nxt of
             None \<Rightarrow> current
           | Some n \<Rightarrow>
               if err_is c n then current
               else if err_is n c then nxt
               else errors_join [current, nxt]))"

text \<open>\<open>joinCancellation\<close> of sdk/agent/graph: the context error is read first.\<close>

definition joinCancellation :: "go_error option \<Rightarrow> go_error option \<Rightarrow> go_error option" where
  "joinCancellation canceled err =
     (case canceled of
        None \<Rightarrow> err
      | Some c \<Rightarrow> (case err of None \<Rightarrow> Some c | Some e \<Rightarrow> errors_join [Some e, Some c]))"

subsection \<open>Facts about error trees\<close>

text \<open>The leaves of an error: what is left after every wrapper is opened; a session error is one.\<close>

fun leaves :: "go_error \<Rightarrow> go_error list" where
  "leaves (Joined es) = (if es = [] then [Joined []] else concat (map leaves es))"
| "leaves (Wrapf p e) = leaves e"
| "leaves e = [e]"

lemma leaves_nonempty [simp]: "leaves e \<noteq> []"
proof (induction e)
  case (Joined es)
  then show ?case by (cases es) auto
qed auto

lemma leaf_is_in_tree: "l \<in> set (leaves e) \<Longrightarrow> err_is e l"
proof (induction e)
  case (Joined es)
  then show ?case by (auto split: if_splits)
qed auto

lemma only_cancellation_leaves:
  "only_cancellation e \<longleftrightarrow> set (leaves e) \<subseteq> {Canceled, DeadlineExceeded}"
proof (induction e)
  case (Joined es)
  then show ?case by auto
qed auto

lemma tool_blocked_leaves:
  "tool_blocked_only e \<longleftrightarrow> (\<forall>l \<in> set (leaves e). \<exists>r. l = ToolBlockedError r)"
proof (induction e)
  case (Joined es)
  then show ?case by (auto split: if_splits)
qed auto

lemma map_filter_id_Nil_iff: "List.map_filter id es = [] \<longleftrightarrow> (\<forall>e \<in> set es. e = None)"
  by (induction es) (auto simp: List.map_filter_simps split: option.splits)

lemma errors_join_None_iff: "errors_join es = None \<longleftrightarrow> (\<forall>e \<in> set es. e = None)"
  by (simp add: errors_join_def map_filter_id_Nil_iff [symmetric] split: list.splits)

lemma errors_join_Some: "errors_join es = Some e \<Longrightarrow> e = Joined (List.map_filter id es) \<and> List.map_filter id es \<noteq> []"
  by (auto simp: errors_join_def split: list.splits)

lemma errors_join_two [simp]:
  "errors_join [None] = None" "errors_join [None, None] = None"
  "errors_join [Some a, None] = Some (Joined [a])" "errors_join [None, Some b] = Some (Joined [b])"
  "errors_join [Some a, Some b] = Some (Joined [a, b])"
  by (simp_all add: errors_join_def List.map_filter_simps)

lemma joinCancellation_None_iff [simp]:
  "joinCancellation c e = None \<longleftrightarrow> c = None \<and> e = None"
  by (auto simp: joinCancellation_def split: option.splits)

lemma mergeInvocationErrors_None_iff [simp]:
  "mergeInvocationErrors a b = None \<longleftrightarrow> a = None \<and> b = None"
  by (auto simp: mergeInvocationErrors_def split: option.splits)

lemma err_is_refl [simp]: "err_is e e"
  by (cases e) auto

lemma err_is_trans: "err_is a b \<Longrightarrow> err_is b c \<Longrightarrow> err_is a c"
  by (induction a b rule: err_is.induct) auto

lemma errors_is_join_left: "errors_is e x \<Longrightarrow> errors_is (errors_join [e, v]) x"
  by (cases e; cases v) (auto simp: errors_is_def)

lemma errors_is_join_right: "errors_is v x \<Longrightarrow> errors_is (errors_join [e, v]) x"
  by (cases e; cases v) (auto simp: errors_is_def)

lemma errors_is_trans: "errors_is e f \<Longrightarrow> err_is f x \<Longrightarrow> errors_is e x"
  by (cases e) (auto simp: errors_is_def intro: err_is_trans)

lemma merge_keeps_left: "errors_is a x \<Longrightarrow> errors_is (mergeInvocationErrors a b) x"
  by (cases a; cases b)
    (auto simp: mergeInvocationErrors_def errors_is_def intro: err_is_trans)

lemma merge_keeps_right: "errors_is b x \<Longrightarrow> errors_is (mergeInvocationErrors a b) x"
  by (cases a; cases b)
    (auto simp: mergeInvocationErrors_def errors_is_def intro: err_is_trans)

text \<open>
  The outcome recorded for a failure is "cancelled" exactly when every leaf of the error
  tree, however it was wrapped and joined, is one of the two context errors: a storage failure
  or any other error joined to a cancellation is recorded as failed, and a session error is
  never opened up to look for a cancellation inside it.
\<close>

theorem statusFor_cancelled_iff:
  "statusFor err = OutcomeCancelled \<longleftrightarrow>
     (\<exists>e. err = Some e \<and> set (leaves e) \<subseteq> {Canceled, DeadlineExceeded})"
  by (auto simp: statusFor_def OnlyCancellation_def only_cancellation_leaves split: option.splits)

text \<open>
  Merging two failures of a model invocation loses neither: the merged error contains both
  (in the sense of errors.Is), and it is nil only if both were nil.
\<close>

theorem mergeInvocationErrors_keeps:
  "(mergeInvocationErrors a b = None \<longleftrightarrow> a = None \<and> b = None) \<and>
   (\<forall>e. a = Some e \<longrightarrow> errors_is (mergeInvocationErrors a b) e) \<and>
   (\<forall>e. b = Some e \<longrightarrow> errors_is (mergeInvocationErrors a b) e)"
  by (cases a; cases b) (auto simp: mergeInvocationErrors_def errors_is_def)

text \<open>A witness: a cancellation joined to a storage failure.\<close>

theorem mergeInvocationErrors_keeps_witness:
  "errors_is (mergeInvocationErrors (Some Canceled) (Some (ErrNew ''disk''))) Canceled \<and>
   errors_is (mergeInvocationErrors (Some Canceled) (Some (ErrNew ''disk''))) (ErrNew ''disk'')"
  using mergeInvocationErrors_keeps [of "Some Canceled" "Some (ErrNew ''disk'')"] by blast

end
