(* ===== verification/Go_Text.thy ===== *)
theory Go_Text
  imports Prelude
begin

section \<open>What the code uses of Go's string, path, UTF-8 and JSON libraries\<close>

text \<open>
  Models of the standard library functions the components call: \<open>strings\<close> and \<open>path\<close>
  operations on byte strings, \<open>utf8.ValidString\<close>, and \<open>json.Valid\<close> as the scanner of
  encoding/json: one state per scanner function and a stack of open containers, at most
  10000 deep. Each is executable.
\<close>

definition byte_of :: "char \<Rightarrow> nat" where
  "byte_of c = of_char c"

subsection \<open>strings\<close>

definition HasPrefix :: "string \<Rightarrow> string \<Rightarrow> bool" where
  "HasPrefix s p = (take (length p) s = p)"

definition HasSuffix :: "string \<Rightarrow> string \<Rightarrow> bool" where
  "HasSuffix s p = (length p \<le> length s \<and> drop (length s - length p) s = p)"

text \<open>\<open>strings.Index\<close>: the first position of a substring.\<close>

fun str_index :: "string \<Rightarrow> string \<Rightarrow> nat option" where
  "str_index [] p = (if p = [] then Some 0 else None)"
| "str_index (c # s) p = (if HasPrefix (c # s) p then Some 0 else map_option Suc (str_index s p))"

definition str_contains :: "string \<Rightarrow> string \<Rightarrow> bool" where
  "str_contains s p = (str_index s p \<noteq> None)"

text \<open>\<open>strings.Split\<close> with a one-byte separator: never empty.\<close>

fun split_on :: "char \<Rightarrow> string \<Rightarrow> string list" where
  "split_on sep [] = [[]]"
| "split_on sep (c # s) =
     (if c = sep then [] # split_on sep s
      else (case split_on sep s of [] \<Rightarrow> [[c]] | p # ps \<Rightarrow> (c # p) # ps))"

fun join_with :: "char \<Rightarrow> string list \<Rightarrow> string" where
  "join_with sep [] = []"
| "join_with sep [x] = x"
| "join_with sep (x # y # ys) = x @ sep # join_with sep (y # ys)"

lemma HasPrefix_prefix: "HasPrefix s p \<longleftrightarrow> prefix p s"
  by (metis HasPrefix_def append_eq_conv_conj append_take_drop_id prefix_def)

lemma HasPrefix_iff: "HasPrefix s p \<longleftrightarrow> (\<exists>r. s = p @ r)"
  by (auto simp: HasPrefix_prefix prefix_def)

lemma HasSuffix_iff: "HasSuffix s p \<longleftrightarrow> (\<exists>r. s = r @ p)"
  unfolding HasSuffix_def
proof
  assume "length p \<le> length s \<and> drop (length s - length p) s = p"
  then have "s = take (length s - length p) s @ p" by (metis append_take_drop_id)
  then show "\<exists>r. s = r @ p" by blast
qed auto

lemma split_on_nonempty [simp]: "split_on sep s \<noteq> []"
  by (induction s) (auto split: list.splits)

lemma join_split [simp]: "join_with sep (split_on sep s) = s"
proof (induction s)
  case (Cons c s)
  then show ?case
    by (cases "split_on sep s"; cases "tl (split_on sep s)") (auto split: list.splits)
qed simp

lemma split_no_sep: "sep \<notin> set s \<Longrightarrow> split_on sep s = [s]"
  by (induction s) auto

lemma split_on_append: "sep \<notin> set x \<Longrightarrow> split_on sep (x @ sep # s) = x # split_on sep s"
  by (induction x) auto

lemma split_join:
  "xs \<noteq> [] \<Longrightarrow> \<forall>x \<in> set xs. sep \<notin> set x \<Longrightarrow> split_on sep (join_with sep xs) = xs"
  by (induction sep xs rule: join_with.induct) (auto simp: split_no_sep split_on_append)

lemma split_parts_no_sep: "x \<in> set (split_on sep s) \<Longrightarrow> sep \<notin> set x"
  by (induction s arbitrary: x) (auto split: list.splits if_splits)

lemma str_index_SomeD:
  "str_index s p = Some i \<Longrightarrow> s = take i s @ p @ drop (i + length p) s"
proof (induction s arbitrary: i)
  case (Cons c s)
  show ?case
  proof (cases "HasPrefix (c # s) p")
    case True
    with Cons.prems have "i = 0" by simp
    with True show ?thesis by (auto simp: HasPrefix_iff)
  next
    case False
    with Cons.prems obtain j where "str_index s p = Some j" "i = Suc j" by auto
    with Cons.IH show ?thesis by simp
  qed
qed (auto split: if_splits)

lemma str_index_None: "str_index s p = None \<longleftrightarrow> (\<nexists>a b. s = a @ p @ b)"
proof (induction s)
  case (Cons c s)
  show ?case
  proof (cases "HasPrefix (c # s) p")
    case True
    then have "\<exists>a b. c # s = a @ p @ b" by (metis HasPrefix_iff append_Nil)
    with True show ?thesis by simp
  next
    case False
    then have "(\<exists>a b. c # s = a @ p @ b) \<longleftrightarrow> (\<exists>a b. s = a @ p @ b)"
      by (metis HasPrefix_iff append_Cons append_Nil list.inject neq_Nil_conv)
    with False Cons.IH show ?thesis by simp
  qed
qed auto

text \<open>The index is the leftmost: any other occurrence starts at or after it.\<close>

lemma str_index_least: "str_index s p = Some i \<Longrightarrow> s = a @ p @ b \<Longrightarrow> i \<le> length a"
proof (induction s arbitrary: i a)
  case (Cons c s)
  show ?case
  proof (cases "HasPrefix (c # s) p")
    case True
    with Cons.prems(1) have "i = 0" by simp
    then show ?thesis by simp
  next
    case False
    with Cons.prems(1) obtain j where j: "str_index s p = Some j" "i = Suc j" by auto
    from False Cons.prems(2) obtain a' where "a = c # a'" "s = a' @ p @ b"
      by (metis HasPrefix_iff append_Cons append_Nil list.inject neq_Nil_conv)
    with Cons.IH [OF j(1)] j(2) show ?thesis by simp
  qed
qed (auto split: if_splits)

subsection \<open>path\<close>

text \<open>\<open>path.Clean\<close>, by components: empty ones and dots go, a double dot eats its parent.\<close>

abbreviation slash :: char where "slash \<equiv> CHR 0x2F"

definition clean_step :: "bool \<Rightarrow> string list \<Rightarrow> string \<Rightarrow> string list" where
  "clean_step rooted acc c =
     (if c = [] \<or> c = ''.'' then acc
      else if c = ''..'' then
        (if acc \<noteq> [] \<and> last acc \<noteq> ''..'' then butlast acc
         else if rooted then acc else acc @ [c])
      else acc @ [c])"

definition path_rooted :: "string \<Rightarrow> bool" where
  "path_rooted s = (s \<noteq> [] \<and> hd s = slash)"

definition path_clean :: "string \<Rightarrow> string" where
  "path_clean s =
     (let comps = foldl (clean_step (path_rooted s)) [] (split_on slash s)
      in if path_rooted s then slash # join_with slash comps
         else if comps = [] then ''.'' else join_with slash comps)"

text \<open>\<open>path.Join(workspace, resource)\<close> where the workspace is not empty.\<close>

definition path_join2 :: "string \<Rightarrow> string \<Rightarrow> string" where
  "path_join2 w r = path_clean (w @ slash # r)"

text \<open>What cleaning leaves: leading double dots (none under a root), then ordinary names.\<close>

definition plain_name :: "string \<Rightarrow> bool" where
  "plain_name c = (c \<noteq> [] \<and> c \<noteq> ''.'' \<and> c \<noteq> ''..'' \<and> slash \<notin> set c)"

definition clean_form :: "bool \<Rightarrow> string list \<Rightarrow> bool" where
  "clean_form rooted cs = (\<exists>k ns. cs = replicate k ''..'' @ ns \<and> (rooted \<longrightarrow> k = 0) \<and> (\<forall>n \<in> set ns. plain_name n))"

lemma clean_step_form:
  assumes "clean_form r acc" "slash \<notin> set c"
  shows "clean_form r (clean_step r acc c)"
proof -
  from assms(1) obtain k ns where acc: "acc = replicate k ''..'' @ ns" "r \<longrightarrow> k = 0" "\<forall>n \<in> set ns. plain_name n"
    by (auto simp: clean_form_def)
  show ?thesis
  proof (cases "c = ''..''")
    case True
    show ?thesis
    proof (cases "ns = []")
      case True
      then have "acc \<noteq> [] \<Longrightarrow> last acc = ''..''" using acc by (cases k) auto
      moreover have "clean_form r (replicate (Suc k) ''..'')" if "\<not> r"
        unfolding clean_form_def using that by (intro exI [of _ "Suc k"] exI [of _ "[]"]) simp
      ultimately show ?thesis
        using True \<open>c = ''..''\<close> acc assms(1)
        by (auto simp: clean_step_def replicate_append_same)
    next
      case False
      then have "last acc = last ns" "butlast acc = replicate k ''..'' @ butlast ns" "plain_name (last ns)"
        using acc by (auto simp: butlast_append)
      then have "clean_step r acc c = replicate k ''..'' @ butlast ns"
        using \<open>c = ''..''\<close> False acc(1) by (auto simp: clean_step_def plain_name_def)
      moreover have "\<forall>n \<in> set (butlast ns). plain_name n"
        using acc(3) by (auto dest: in_set_butlastD)
      ultimately show ?thesis unfolding clean_form_def using acc(2) by blast
    qed
  next
    case False
    show ?thesis
    proof (cases "c = [] \<or> c = ''.''")
      case True
      then show ?thesis using assms(1) by (simp add: clean_step_def)
    next
      case False
      then have "clean_step r acc c = replicate k ''..'' @ (ns @ [c])" "plain_name c"
        using \<open>c \<noteq> ''..''\<close> acc assms(2) by (auto simp: clean_step_def plain_name_def)
      then show ?thesis unfolding clean_form_def using acc(2,3)
        by (intro exI [of _ k] exI [of _ "ns @ [c]"]) auto
    qed
  qed
qed

lemma foldl_clean_form:
  "clean_form r acc \<Longrightarrow> \<forall>c \<in> set cs. slash \<notin> set c \<Longrightarrow> clean_form r (foldl (clean_step r) acc cs)"
  by (induction cs arbitrary: acc) (auto intro: clean_step_form)

lemma foldl_clean_names:
  "\<forall>n \<in> set ns. plain_name n \<Longrightarrow> foldl (clean_step r) acc ns = acc @ ns"
  by (induction ns arbitrary: acc) (auto simp: clean_step_def plain_name_def)

lemma foldl_clean_dots: "foldl (clean_step False) (replicate j ''..'') (replicate k ''..'') = replicate (j + k) ''..''"
proof (induction k arbitrary: j)
  case (Suc k)
  have "clean_step False (replicate j ''..'') ''..'' = replicate (Suc j) ''..''"
    by (cases j) (auto simp: clean_step_def replicate_append_same)
  then show ?case using Suc.IH [of "Suc j"] by simp
qed simp

lemma foldl_clean_form_id:
  assumes "clean_form r cs" shows "foldl (clean_step r) [] cs = cs"
proof -
  from assms obtain k ns where *: "cs = replicate k ''..'' @ ns" "r \<longrightarrow> k = 0" "\<forall>n \<in> set ns. plain_name n"
    by (auto simp: clean_form_def)
  have "foldl (clean_step r) [] (replicate k ''..'') = replicate k ''..''"
    using *(2) foldl_clean_dots [of 0 k] by (cases r) auto
  then show ?thesis using * by (simp add: foldl_clean_names)
qed

lemma clean_form_parts: "clean_form r cs \<Longrightarrow> c \<in> set cs \<Longrightarrow> c \<noteq> [] \<and> slash \<notin> set c"
proof -
  assume "clean_form r cs" and c: "c \<in> set cs"
  then obtain k ns where *: "cs = replicate k ''..'' @ ns" "\<forall>n \<in> set ns. plain_name n"
    by (auto simp: clean_form_def)
  with c have "c = ''..'' \<or> c \<in> set ns" by (metis Un_iff in_set_replicate set_append)
  then show ?thesis
  proof
    assume "c = ''..''" then show ?thesis by simp
  next
    assume "c \<in> set ns" with *(2) show ?thesis by (simp add: plain_name_def)
  qed
qed

definition clean_comps :: "string \<Rightarrow> string list" where
  "clean_comps s = foldl (clean_step (path_rooted s)) [] (split_on slash s)"

lemma clean_comps_form: "clean_form (path_rooted s) (clean_comps s)"
  unfolding clean_comps_def
  by (rule foldl_clean_form) (auto simp: clean_form_def dest: split_parts_no_sep)

lemma path_clean_comps:
  "path_clean s = (if path_rooted s then slash # join_with slash (clean_comps s)
     else if clean_comps s = [] then ''.'' else join_with slash (clean_comps s))"
  by (simp add: path_clean_def clean_comps_def Let_def)

lemma clean_comps_join:
  assumes "clean_form r cs" "cs \<noteq> []"
  shows "clean_comps (if r then slash # join_with slash cs else join_with slash cs) = cs"
    and "path_rooted (if r then slash # join_with slash cs else join_with slash cs) = r"
proof -
  have parts: "\<forall>x \<in> set cs. slash \<notin> set x" using assms clean_form_parts by blast
  obtain x xs where cs: "cs = x # xs" using assms(2) by (cases cs) auto
  have x: "x \<noteq> []" "slash \<notin> set x" using clean_form_parts [OF assms(1)] cs by auto
  then have hd: "join_with slash cs \<noteq> []" "hd (join_with slash cs) \<noteq> slash"
    unfolding cs by (cases xs; cases x; auto)+
  then show rooted: "path_rooted (if r then slash # join_with slash cs else join_with slash cs) = r"
    by (simp add: path_rooted_def)
  have "foldl (clean_step r) [] ([] # cs) = cs"
    using foldl_clean_form_id [OF assms(1)] by (simp add: clean_step_def)
  then show "clean_comps (if r then slash # join_with slash cs else join_with slash cs) = cs"
    unfolding clean_comps_def rooted
    using foldl_clean_form_id [OF assms(1)] split_join [OF assms(2) parts] by (cases r) simp_all
qed

lemma path_clean_nonempty [simp]: "path_clean s \<noteq> []"
proof -
  have "join_with slash (x # xs) \<noteq> []" if "x \<noteq> []" for x xs using that by (cases xs) auto
  then show ?thesis
    using clean_form_parts [OF clean_comps_form [of s]]
    by (cases "clean_comps s") (auto simp: path_clean_comps)
qed

lemma path_clean_idem [simp]: "path_clean (path_clean s) = path_clean s"
proof (cases "clean_comps s = []")
  case True
  then show ?thesis
    by (auto simp: path_clean_comps clean_comps_def path_rooted_def clean_step_def)
next
  case False
  have eq: "path_clean s = (if path_rooted s then slash # join_with slash (clean_comps s) else join_with slash (clean_comps s))"
    using False by (simp add: path_clean_comps)
  show ?thesis
    unfolding eq using clean_comps_join [OF clean_comps_form False] False
    by (cases "path_rooted s") (simp_all add: path_clean_comps)
qed

text \<open>A cleaned path has no empty component inside, so it never looks like a URI.\<close>

lemma no_double_slash:
  "\<forall>c \<in> set cs. c \<noteq> [] \<and> slash \<notin> set c \<Longrightarrow> join_with slash cs \<noteq> a @ slash # slash # b"
proof
  assume *: "\<forall>c \<in> set cs. c \<noteq> [] \<and> slash \<notin> set c" "join_with slash cs = a @ slash # slash # b"
  then have "cs \<noteq> []" by auto
  have "[] \<in> set (tl (split_on slash (a @ slash # slash # b)))"
    by (induction a) (auto split: list.splits dest: list.set_sel(2))
  then have split2: "[] \<in> set (split_on slash (a @ slash # slash # b))"
    by (meson list.set_sel(2) split_on_nonempty)
  have "split_on slash (join_with slash cs) = cs" using * \<open>cs \<noteq> []\<close> by (intro split_join) auto
  with *(2) split2 have "[] \<in> set cs" by simp
  with *(1) show False by blast
qed

subsection \<open>fmt: decimal numbers and length-prefixed keys\<close>

text \<open>Decimal digits, as \<open>%d\<close> prints a natural number.\<close>

fun dec :: "nat \<Rightarrow> string" where
  "dec n = (if n < 10 then [char_of (48 + n)] else dec (n div 10) @ [char_of (48 + n mod 10)])"

declare dec.simps [simp del]

text \<open>\<open>fmt.Sprintf("%d:%s%s", len(a), a, b)\<close>, the key format of several maps.\<close>

definition length_key :: "string \<Rightarrow> string \<Rightarrow> string" where
  "length_key a b = dec (length a) @ '':'' @ a @ b"

lemma dec_digits: "c \<in> set (dec n) \<Longrightarrow> c \<noteq> CHR '':''"
proof (induction n rule: dec.induct)
  case (1 n)
  have digit: "char_of (48 + d) \<noteq> CHR '':''" if "d < 10" for d :: nat
  proof
    assume "char_of (48 + d) = CHR '':''"
    then have "of_char (char_of (48 + d) :: char) = (of_char (CHR '':'') :: nat)" by simp
    with that show False by (simp add: of_char_of)
  qed
  show ?case
  proof (cases "n < 10")
    case True
    with 1(2) digit show ?thesis by (subst (asm) dec.simps) auto
  next
    case False
    with 1(2) have "c \<in> set (dec (n div 10)) \<or> c = char_of (48 + n mod 10)" by (subst (asm) dec.simps) auto
    with 1(1) [OF False] digit [of "n mod 10"] show ?thesis by auto
  qed
qed

fun undec :: "string \<Rightarrow> nat" where
  "undec s = foldl (\<lambda>n c. 10 * n + (of_char c - 48)) 0 s"

lemma undec_dec: "undec (dec n) = n"
proof (induction n rule: dec.induct)
  case (1 n)
  show ?case
  proof (cases "n < 10")
    case True
    then show ?thesis by (subst dec.simps) (simp add: of_char_of)
  next
    case False
    then have "undec (dec n) = 10 * undec (dec (n div 10)) + (of_char (char_of (48 + n mod 10) :: char) - 48)"
      by (subst dec.simps) simp
    also have "of_char (char_of (48 + n mod 10) :: char) = 48 + n mod 10" by (simp add: of_char_of)
    finally show ?thesis using 1 [OF False] by simp
  qed
qed

lemma split_at_colon:
  "CHR '':'' \<notin> set a \<Longrightarrow> CHR '':'' \<notin> set b \<Longrightarrow> a @ '':'' @ x = b @ '':'' @ y \<Longrightarrow> a = b \<and> x = y"
proof (induction a arbitrary: b)
  case Nil
  then show ?case by (cases b) auto
next
  case (Cons c a)
  then show ?case by (cases b) auto
qed

lemma length_key_prefix: "(\<exists>r. length_key a b = dec (length a') @ '':'' @ a' @ r) \<longleftrightarrow> (\<exists>r. a @ b = a' @ r) \<and> length a = length a'"
proof
  assume "\<exists>r. length_key a b = dec (length a') @ '':'' @ a' @ r"
  then obtain r where "dec (length a) @ '':'' @ (a @ b) = dec (length a') @ '':'' @ (a' @ r)" by (auto simp: length_key_def)
  then have "dec (length a) = dec (length a')" "a @ b = a' @ r" using split_at_colon dec_digits by blast+
  then show "(\<exists>r. a @ b = a' @ r) \<and> length a = length a'" by (metis undec_dec)
qed (auto simp: length_key_def)

lemma length_key_eq: "length_key a b = length_key a' b' \<longleftrightarrow> a = a' \<and> b = b'"
proof
  assume eq: "length_key a b = length_key a' b'"
  then have "dec (length a) @ '':'' @ (a @ b) = dec (length a') @ '':'' @ (a' @ b')" by (simp add: length_key_def)
  then have "dec (length a) = dec (length a')" and ab: "a @ b = a' @ b'"
    using split_at_colon dec_digits by blast+
  then have "length a = length a'" by (metis undec_dec)
  with ab show "a = a' \<and> b = b'" by simp
qed simp

end
