(* ===== verification/Scheduling.thy ===== *)
theory Scheduling
  imports Go_Errors Go_Text "HOL-Library.List_Lexorder" "HOL-Library.Char_ord"
begin

section \<open>Tool scheduling: resource claims and conflicts\<close>

text \<open>
  sdk/kernel/abi/scheduling.go and the scheduling types of contracts.go: a tool call declares
  whether it may run beside others, an execution mode and the resources it reads or writes.
  Two calls conflict when they cannot run at the same time. The locale \<open>conflict\<close> is
  the interface the wave planner (Tool_Wave) and the lock registry (Tool_Lock) rely on.
\<close>

datatype access = AccessRead | AccessWrite | AccessOther string

record resource_claim =
  rc_resource :: string
  rc_access :: access

datatype execution_mode = ModeUnset | Parallel | SerialGlobal | Coordinator | ModeOther string

record scheduling =
  ConcurrentSafe :: bool
  Resources :: "resource_claim list"
  ExecutionMode :: execution_mode
  ManagesOwnTimeout :: bool

definition scheduling_validate :: "scheduling \<Rightarrow> go_error option" where
  "scheduling_validate s =
     (case ExecutionMode s of
        ModeOther _ \<Rightarrow> Some (ErrNew ''unknown tool execution mode'')
      | _ \<Rightarrow>
          if list_ex (\<lambda>c. rc_resource c = [] \<or> (rc_access c \<noteq> AccessRead \<and> rc_access c \<noteq> AccessWrite)) (Resources s)
          then Some (ErrNew ''invalid tool resource claim'')
          else None)"

definition NormalizeResource :: "string \<Rightarrow> string \<Rightarrow> string" where
  "NormalizeResource resource workspace =
     (if str_contains resource ''://'' then resource
      else path_clean
        (if workspace \<noteq> [] \<and> \<not> HasPrefix resource [slash] then path_join2 workspace resource else resource))"

definition claims_conflict :: "string \<Rightarrow> resource_claim \<Rightarrow> resource_claim \<Rightarrow> bool" where
  "claims_conflict workspace a b =
     (NormalizeResource (rc_resource a) workspace = NormalizeResource (rc_resource b) workspace \<and>
      (rc_access a = AccessWrite \<or> rc_access b = AccessWrite))"

definition SchedulingConflicts :: "string \<Rightarrow> scheduling \<Rightarrow> scheduling \<Rightarrow> bool" where
  "SchedulingConflicts workspace left right =
     (if scheduling_validate left \<noteq> None \<or> scheduling_validate right \<noteq> None then True
      else if ExecutionMode left = SerialGlobal \<or> ExecutionMode right = SerialGlobal then True
      else list_ex (\<lambda>a. list_ex (claims_conflict workspace a) (Resources right)) (Resources left))"

subsection \<open>The conflict interface\<close>

text \<open>A list in which no two positions conflict: what may run at the same time.\<close>

fun pairwise_ok :: "('s \<Rightarrow> 's \<Rightarrow> bool) \<Rightarrow> 's list \<Rightarrow> bool" where
  "pairwise_ok C [] = True"
| "pairwise_ok C (x # xs) = ((\<forall>y \<in> set xs. \<not> C x y) \<and> pairwise_ok C xs)"

locale conflict =
  fixes C :: "'s \<Rightarrow> 's \<Rightarrow> bool"
  assumes conflict_sym: "C a b \<Longrightarrow> C b a"
begin

lemma pairwise_ok_append:
  "pairwise_ok C (xs @ ys) \<longleftrightarrow> pairwise_ok C xs \<and> pairwise_ok C ys \<and> (\<forall>x \<in> set xs. \<forall>y \<in> set ys. \<not> C x y)"
  by (induction xs) auto

lemma pairwise_ok_snoc:
  "pairwise_ok C xs \<Longrightarrow> (\<forall>x \<in> set xs. \<not> C x y) \<Longrightarrow> pairwise_ok C (xs @ [y])"
  by (simp add: pairwise_ok_append)

lemma pairwise_ok_subseq: "subseq ys xs \<Longrightarrow> pairwise_ok C xs \<Longrightarrow> pairwise_ok C ys"
proof (induction rule: list_emb.induct)
  case (list_emb_Cons2 x y xs ys)
  then show ?case by (auto dest: list_emb_set)
qed auto

lemma pairwise_ok_nth:
  assumes "pairwise_ok C xs" "i < length xs" "j < length xs" "i \<noteq> j"
  shows "\<not> C (xs ! i) (xs ! j)"
proof -
  have less: "\<not> C (xs ! i) (xs ! j)" if "pairwise_ok C xs" "i < j" "j < length xs" for i j
    using that
  proof (induction xs arbitrary: i j)
    case (Cons x xs)
    then show ?case by (cases i; cases j) auto
  qed simp
  show ?thesis
    using less [OF assms(1), of i j] less [OF assms(1), of j i] assms conflict_sym
    by (cases "i < j") auto
qed

end

lemma claims_conflict_sym: "claims_conflict w a b \<Longrightarrow> claims_conflict w b a"
  by (auto simp: claims_conflict_def)

lemma SchedulingConflicts_sym: "SchedulingConflicts w a b \<Longrightarrow> SchedulingConflicts w b a"
  by (auto simp: SchedulingConflicts_def list_ex_iff split: if_splits dest: claims_conflict_sym)

interpretation sched: conflict "SchedulingConflicts w" for w
  by unfold_locales (rule SchedulingConflicts_sym)

subsection \<open>Normal forms of resource names\<close>

lemma clean_is_no_uri: "\<not> str_contains (path_clean s) ''://''"
proof
  assume "str_contains (path_clean s) ''://''"
  then obtain a b where ab: "path_clean s = a @ ''://'' @ b"
    by (auto simp: str_contains_def str_index_None)
  have parts: "\<forall>c \<in> set (clean_comps s). c \<noteq> [] \<and> slash \<notin> set c"
    using clean_form_parts [OF clean_comps_form] by blast
  show False
  proof (cases "path_rooted s")
    case True
    with ab have "slash # join_with slash (clean_comps s) = a @ CHR '':'' # slash # slash # b"
      by (simp add: path_clean_comps)
    then have "join_with slash (clean_comps s) = (tl a @ [CHR '':'']) @ slash # slash # b"
      by (cases a) simp_all
    then show False using no_double_slash [OF parts] by blast
  next
    case False
    show False
    proof (cases "clean_comps s = []")
      case True
      with ab False have "''.'' = a @ ''://'' @ b" by (simp add: path_clean_comps)
      then have "length (''.'') = length (a @ ''://'' @ b)" by (rule arg_cong)
      then show False by simp
    next
      case False
      with ab \<open>\<not> path_rooted s\<close>
      have "join_with slash (clean_comps s) = (a @ [CHR '':'']) @ slash # slash # b"
        by (simp add: path_clean_comps)
      then show False using no_double_slash [OF parts] by blast
    qed
  qed
qed

text \<open>Normalizing twice changes nothing, whatever the second workspace is, once the name is absolute or a URI.\<close>

lemma NormalizeResource_idem: "NormalizeResource (NormalizeResource r w) [] = NormalizeResource r w"
  using clean_is_no_uri by (auto simp: NormalizeResource_def path_join2_def)

lemma NormalizeResource_nonempty: "r \<noteq> [] \<Longrightarrow> NormalizeResource r w \<noteq> []"
  by (auto simp: NormalizeResource_def)

end
