(* ===== verification/Tool_Lock.thy ===== *)
theory Tool_Lock
  imports Scheduling
begin

section \<open>Resource locks shared by agents\<close>

text \<open>
  sdk/agent/core/tool_lock.go. \<open>Acquire\<close> queues a request and then polls: each pass of
  its loop either leaves with the context's error, or takes the lock, or waits for the
  \<open>changed\<close> channel. The two halves are \<open>acquire_begin\<close> and \<open>acquire_poll\<close>; the closure
  it returns is \<open>lock_release\<close>. \<open>lk_gen\<close> counts the channels \<open>notify\<close> has closed, so a
  step that leaves it unchanged wakes no waiter. \<open>lock_step\<close> interleaves any number of
  callers, each critical section of the mutex being one step.
\<close>

record lock_request =
  lr_id :: nat
  lr_scheduling :: scheduling

record lock_registry =
  lk_next :: nat
  lk_active :: "lock_request list"
  lk_waiting :: "lock_request list"
  lk_gen :: nat
  lk_max :: int

definition NewToolLockRegistry :: "int \<Rightarrow> lock_registry result" where
  "NewToolLockRegistry maxWaiters =
     (if maxWaiters < 1 then Inl (ErrNew ''positive lock waiter budget required'')
      else Inr \<lparr>lk_next = 0, lk_active = [], lk_waiting = [], lk_gen = 0, lk_max = maxWaiters\<rparr>)"

definition normalize_claim :: "string \<Rightarrow> resource_claim \<Rightarrow> resource_claim" where
  "normalize_claim workspace c = c\<lparr>rc_resource := NormalizeResource (rc_resource c) workspace\<rparr>"

text \<open>An undeclared tool is serialized globally; resource names are normalized and sorted.\<close>

definition owned_scheduling :: "string \<Rightarrow> scheduling \<Rightarrow> scheduling" where
  "owned_scheduling workspace s =
     (let s1 = (if ConcurrentSafe s then s else s\<lparr>ExecutionMode := SerialGlobal\<rparr>)
      in s1\<lparr>Resources := sort_key rc_resource (map (normalize_claim workspace) (Resources s))\<rparr>)"

datatype acquire_start = Refused go_error | Bypass | Queued lock_request

definition acquire_begin :: "go_error option \<Rightarrow> lock_registry \<Rightarrow> scheduling \<Rightarrow> string \<Rightarrow> acquire_start \<times> lock_registry" where
  "acquire_begin ctx reg s workspace =
     (case scheduling_validate s of
        Some e \<Rightarrow> (Refused e, reg)
      | None \<Rightarrow>
          (case ctx of
             Some e \<Rightarrow> (Refused e, reg)
           | None \<Rightarrow>
               if ExecutionMode s = Coordinator then (Bypass, reg)
               else if int (length (lk_waiting reg)) \<ge> lk_max reg
                 then (Refused (ErrNew ''resource lock waiter budget exceeded''), reg)
               else
                 (let n = lk_next reg + 1;
                      r = \<lparr>lr_id = n, lr_scheduling = owned_scheduling workspace s\<rparr>
                  in (Queued r, reg\<lparr>lk_next := n, lk_waiting := lk_waiting reg @ [r]\<rparr>))))"

abbreviation lock_conflict :: "lock_request \<Rightarrow> lock_request \<Rightarrow> bool" where
  "lock_conflict a b \<equiv> SchedulingConflicts [] (lr_scheduling a) (lr_scheduling b)"

definition canAcquire :: "lock_registry \<Rightarrow> lock_request \<Rightarrow> bool" where
  "canAcquire reg request =
     (list_all (\<lambda>a. \<not> lock_conflict a request) (lk_active reg) \<and>
      list_all (\<lambda>p. \<not> lock_conflict p request) (takeWhile (\<lambda>p. lr_id p \<noteq> lr_id request) (lk_waiting reg)))"

definition removeWaiting :: "nat \<Rightarrow> lock_registry \<Rightarrow> lock_registry" where
  "removeWaiting i reg = reg\<lparr>lk_waiting := remove_first (\<lambda>r. lr_id r = i) (lk_waiting reg)\<rparr>"

definition notify :: "lock_registry \<Rightarrow> lock_registry" where
  "notify reg = reg\<lparr>lk_gen := lk_gen reg + 1\<rparr>"

datatype acquire_poll_result = PollCancelled go_error | PollGranted | PollWait

definition acquire_poll :: "go_error option \<Rightarrow> lock_registry \<Rightarrow> lock_request \<Rightarrow> acquire_poll_result \<times> lock_registry" where
  "acquire_poll ctx reg request =
     (case ctx of
        Some e \<Rightarrow> (PollCancelled e, notify (removeWaiting (lr_id request) reg))
      | None \<Rightarrow>
          if canAcquire reg request
          then (let reg1 = removeWaiting (lr_id request) reg
                in (PollGranted, reg1\<lparr>lk_active := lk_active reg1 @ [request]\<rparr>))
          else (PollWait, reg))"

definition lock_release :: "lock_request \<Rightarrow> lock_registry \<Rightarrow> lock_registry" where
  "lock_release request reg =
     notify (reg\<lparr>lk_active := remove_first (\<lambda>a. lr_id a = lr_id request) (lk_active reg)\<rparr>)"

subsection \<open>Callers as a step relation\<close>

inductive lock_step :: "lock_registry \<Rightarrow> lock_registry \<Rightarrow> bool" where
  begin_step: "acquire_begin ctx reg s w = (out, reg') \<Longrightarrow> lock_step reg reg'"
| poll_step: "r \<in> set (lk_waiting reg) \<Longrightarrow> acquire_poll ctx reg r = (out, reg') \<Longrightarrow> lock_step reg reg'"
| release_step: "r \<in> set (lk_active reg) \<Longrightarrow> reg' = lock_release r reg \<Longrightarrow> lock_step reg reg'"

inductive lock_reachable :: "lock_registry \<Rightarrow> bool" where
  lock_start: "NewToolLockRegistry n = Inr reg \<Longrightarrow> lock_reachable reg"
| lock_next: "lock_reachable reg \<Longrightarrow> lock_step reg reg' \<Longrightarrow> lock_reachable reg'"

subsection \<open>The invariant\<close>

definition lock_inv :: "lock_registry \<Rightarrow> bool" where
  "lock_inv reg \<longleftrightarrow>
     sorted_wrt (<) (map lr_id (lk_waiting reg)) \<and>
     distinct (map lr_id (lk_active reg @ lk_waiting reg)) \<and>
     (\<forall>r \<in> set (lk_active reg @ lk_waiting reg). lr_id r \<le> lk_next reg) \<and>
     pairwise_ok (SchedulingConflicts []) (map lr_scheduling (lk_active reg)) \<and>
     int (length (lk_waiting reg)) \<le> lk_max reg"

text \<open>Who stands in the way of a queued request.\<close>

definition blockers :: "lock_registry \<Rightarrow> lock_request \<Rightarrow> nat set" where
  "blockers reg r =
     lr_id ` {q \<in> set (lk_active reg) \<union> {p \<in> set (lk_waiting reg). lr_id p < lr_id r}. lock_conflict q r}"

lemma takeWhile_sorted_less:
  assumes "sorted_wrt (<) (map f xs)" "(r::'a) \<in> set xs"
  shows "set (takeWhile (\<lambda>p. f p \<noteq> (f r::nat)) xs) = {p \<in> set xs. f p < f r}"
  using assms
proof (induction xs)
  case (Cons x xs)
  show ?case
  proof (cases "f x = f r")
    case True
    with Cons.prems(1) show ?thesis by (auto simp: not_less)
  next
    case False
    with Cons.prems have "r \<in> set xs" "f x < f r" by auto
    with Cons False show ?thesis by auto
  qed
qed simp

lemma canAcquire_iff:
  assumes "lock_inv reg" "r \<in> set (lk_waiting reg)"
  shows "canAcquire reg r \<longleftrightarrow> blockers reg r = {}"
  using takeWhile_sorted_less [of lr_id "lk_waiting reg" r] assms
  by (auto simp: canAcquire_def blockers_def lock_inv_def list_all_iff)

lemma remove_first_id:
  assumes "lock_inv reg"
  shows "remove_first (\<lambda>r. lr_id r = i) (lk_waiting reg) = filter (\<lambda>r. lr_id r \<noteq> i) (lk_waiting reg)"
    and "remove_first (\<lambda>r. lr_id r = i) (lk_active reg) = filter (\<lambda>r. lr_id r \<noteq> i) (lk_active reg)"
  using assms by (auto simp: lock_inv_def intro!: remove_first_eq_filter)

lemma pairwise_ok_filter_map:
  "pairwise_ok C (map f xs) \<Longrightarrow> pairwise_ok C (map f (filter p xs))"
  by (induction xs) auto

lemma sorted_wrt_map_filter: "sorted_wrt R (map f xs) \<Longrightarrow> sorted_wrt R (map f (filter p xs))"
  by (induction xs) auto

lemma lock_inv_waiting_filter:
  "lock_inv reg \<Longrightarrow> lock_inv (reg\<lparr>lk_waiting := filter p (lk_waiting reg), lk_gen := g\<rparr>)"
  by (auto simp: lock_inv_def distinct_map_filter sorted_wrt_map_filter intro: length_filter_bound)

lemma lock_inv_active_filter:
  "lock_inv reg \<Longrightarrow> lock_inv (reg\<lparr>lk_active := filter p (lk_active reg), lk_gen := g\<rparr>)"
  by (auto simp: lock_inv_def distinct_map_filter pairwise_ok_filter_map)

lemma lock_inv_enqueue:
  assumes "lock_inv reg" "lr_id r = lk_next reg + 1" "int (length (lk_waiting reg)) < lk_max reg"
  shows "lock_inv (reg\<lparr>lk_next := lk_next reg + 1, lk_waiting := lk_waiting reg @ [r]\<rparr>)"
proof -
  have less: "lr_id q < lr_id r" if "q \<in> set (lk_active reg) \<or> q \<in> set (lk_waiting reg)" for q
  proof -
    from assms(1) that have "lr_id q \<le> lk_next reg" by (auto simp: lock_inv_def)
    with assms(2) show ?thesis by simp
  qed
  have fresh: "lr_id r \<notin> lr_id ` (set (lk_active reg) \<union> set (lk_waiting reg))"
  proof -
    have "lr_id q \<noteq> lr_id r" if "q \<in> set (lk_active reg) \<or> q \<in> set (lk_waiting reg)" for q
      using less [OF that] by simp
    then show ?thesis by force
  qed
  have "sorted_wrt (<) (map lr_id (lk_waiting reg @ [r]))"
    using assms(1) by (auto simp: lock_inv_def sorted_wrt_append intro: less)
  moreover have "distinct (map lr_id (lk_active reg @ lk_waiting reg @ [r]))"
    using assms(1) fresh by (auto simp: lock_inv_def)
  moreover have "lr_id q \<le> lk_next reg + 1" if "q \<in> set (lk_active reg @ lk_waiting reg @ [r])" for q
    using that less [of q] assms(2) by (cases "q = r") auto
  ultimately show ?thesis using assms by (simp add: lock_inv_def)
qed

lemma lock_inv_grant:
  assumes inv: "lock_inv reg" and r: "r \<in> set (lk_waiting reg)" and can: "canAcquire reg r"
  shows "lock_inv (reg\<lparr>lk_waiting := filter (\<lambda>q. lr_id q \<noteq> lr_id r) (lk_waiting reg), lk_active := lk_active reg @ [r]\<rparr>)"
proof -
  have "pairwise_ok (SchedulingConflicts []) (map lr_scheduling (lk_active reg) @ [lr_scheduling r])"
    using inv can by (intro sched.pairwise_ok_snoc) (auto simp: lock_inv_def canAcquire_def list_all_iff)
  then show ?thesis
    using inv r
    by (auto simp: lock_inv_def distinct_map_filter sorted_wrt_map_filter image_iff intro: length_filter_bound)
qed

lemma acquire_begin_cases:
  assumes "acquire_begin ctx reg s w = (out, reg')"
  obtains "reg' = reg"
  | r where "int (length (lk_waiting reg)) < lk_max reg" "lr_id r = lk_next reg + 1" "out = Queued r"
      "lr_scheduling r = owned_scheduling w s"
      "reg' = reg\<lparr>lk_next := lk_next reg + 1, lk_waiting := lk_waiting reg @ [r]\<rparr>"
proof (cases "scheduling_validate s = None \<and> ctx = None \<and> ExecutionMode s \<noteq> Coordinator \<and>
    int (length (lk_waiting reg)) < lk_max reg")
  case True
  define r where "r = \<lparr>lr_id = lk_next reg + 1, lr_scheduling = owned_scheduling w s\<rparr>"
  show ?thesis
    by (rule that(2) [of r]) (use True assms in \<open>simp_all add: acquire_begin_def r_def Let_def\<close>)
next
  case False
  show ?thesis
    by (rule that(1)) (use False assms in \<open>auto simp: acquire_begin_def split: option.splits if_splits\<close>)
qed

lemma acquire_poll_cases:
  assumes "acquire_poll ctx reg r = (out, reg')" "lock_inv reg"
  obtains "reg' = reg"
  | (cancelled) "reg' = reg\<lparr>lk_waiting := filter (\<lambda>q. lr_id q \<noteq> lr_id r) (lk_waiting reg), lk_gen := lk_gen reg + 1\<rparr>"
  | (granted) "canAcquire reg r"
      "reg' = reg\<lparr>lk_waiting := filter (\<lambda>q. lr_id q \<noteq> lr_id r) (lk_waiting reg), lk_active := lk_active reg @ [r]\<rparr>"
proof (cases ctx)
  case (Some e)
  with assms show ?thesis
    by (intro cancelled) (simp add: acquire_poll_def removeWaiting_def notify_def remove_first_id)
next
  case None
  show ?thesis
  proof (cases "canAcquire reg r")
    case True
    with assms None show ?thesis
      by (intro granted) (simp_all add: acquire_poll_def removeWaiting_def remove_first_id Let_def)
  next
    case False
    with assms None show ?thesis by (intro that(1)) (simp add: acquire_poll_def)
  qed
qed

lemma lock_release_eq:
  "lock_inv reg \<Longrightarrow> lock_release r reg =
     reg\<lparr>lk_active := filter (\<lambda>q. lr_id q \<noteq> lr_id r) (lk_active reg), lk_gen := lk_gen reg + 1\<rparr>"
  by (simp add: lock_release_def notify_def remove_first_id)

lemma lock_step_inv [alva_inv]: "lock_step reg reg' \<Longrightarrow> lock_inv reg \<Longrightarrow> lock_inv reg'"
proof (induction rule: lock_step.induct)
  case (begin_step ctx reg s w out reg')
  then show ?case by (auto elim!: acquire_begin_cases intro: lock_inv_enqueue)
next
  case (poll_step r reg ctx out reg')
  show ?case
    using poll_step(2,3)
    by (rule acquire_poll_cases) (use poll_step in \<open>auto intro: lock_inv_waiting_filter lock_inv_grant\<close>)
next
  case (release_step r reg reg')
  then show ?case by (simp add: lock_release_eq lock_inv_active_filter)
qed

lemma lock_reachable_inv: "lock_reachable reg \<Longrightarrow> lock_inv reg"
proof (induction rule: lock_reachable.induct)
  case (lock_start n reg)
  then show ?case by (auto simp: NewToolLockRegistry_def lock_inv_def split: if_splits)
next
  case (lock_next reg reg')
  then show ?case by (blast intro: lock_step_inv)
qed

subsection \<open>How the set of blockers evolves\<close>

lemma blockers_enqueue:
  assumes "lock_inv reg" "r \<in> set (lk_waiting reg)" "lr_id q = lk_next reg + 1"
  shows "blockers (reg\<lparr>lk_next := n, lk_waiting := lk_waiting reg @ [q]\<rparr>) r = blockers reg r"
proof -
  have "lr_id r \<le> lk_next reg" using assms by (auto simp: lock_inv_def)
  with assms(3) show ?thesis by (auto simp: blockers_def)
qed

lemma blockers_cancel:
  "blockers (reg\<lparr>lk_waiting := filter p (lk_waiting reg), lk_gen := g\<rparr>) r \<subseteq> blockers reg r"
  by (auto simp: blockers_def)

lemma blockers_release:
  "blockers (reg\<lparr>lk_active := filter p (lk_active reg), lk_gen := g\<rparr>) r \<subseteq> blockers reg r"
  by (auto simp: blockers_def)

lemma lock_id_inj:
  assumes "lock_inv reg" "a \<in> set (lk_waiting reg)" "b \<in> set (lk_waiting reg)" "lr_id a = lr_id b"
  shows "a = b"
  using assms by (auto simp: lock_inv_def distinct_map dest: inj_onD)

lemma blockers_grant:
  assumes inv: "lock_inv reg" and r: "r \<in> set (lk_waiting reg)" and q: "q \<in> set (lk_waiting reg)"
    and can: "canAcquire reg q" and ne: "lr_id r \<noteq> lr_id q"
  shows "blockers (reg\<lparr>lk_waiting := filter (\<lambda>p. lr_id p \<noteq> lr_id q) (lk_waiting reg), lk_active := lk_active reg @ [q]\<rparr>) r
    = blockers reg r"
proof (cases "lr_id q < lr_id r")
  case True
  have "p = q" if "p \<in> set (lk_waiting reg)" "lr_id p = lr_id q" for p
    using lock_id_inj [OF inv that(1) q that(2)] .
  with True q show ?thesis by (auto simp: blockers_def)
next
  case False
  with ne have "lr_id r < lr_id q" by simp
  with r can canAcquire_iff [OF inv q] have "\<not> lock_conflict r q" by (auto simp: blockers_def)
  then have "\<not> lock_conflict q r" using SchedulingConflicts_sym by blast
  with False show ?thesis by (auto simp: blockers_def)
qed

lemma lock_step_blockers:
  assumes "lock_step reg reg'" "lock_inv reg" "r \<in> set (lk_waiting reg)" "r \<in> set (lk_waiting reg')"
  shows "blockers reg' r \<subseteq> blockers reg r \<and> (lk_gen reg' = lk_gen reg \<longrightarrow> blockers reg' r = blockers reg r)"
  using assms
proof (induction rule: lock_step.induct)
  case (begin_step ctx reg s w out reg')
  from begin_step(1) show ?case
    by (rule acquire_begin_cases) (use begin_step blockers_enqueue in auto)
next
  case (poll_step q reg ctx out reg')
  from poll_step(2,3) show ?case
  proof (rule acquire_poll_cases)
    assume "reg' = reg" then show ?thesis by simp
  next
    assume *: "reg' = reg\<lparr>lk_waiting := filter (\<lambda>p. lr_id p \<noteq> lr_id q) (lk_waiting reg), lk_gen := lk_gen reg + 1\<rparr>"
    show ?thesis unfolding * using blockers_cancel by auto
  next
    assume can: "canAcquire reg q" and *: "reg' = reg\<lparr>lk_waiting := filter (\<lambda>p. lr_id p \<noteq> lr_id q) (lk_waiting reg), lk_active := lk_active reg @ [q]\<rparr>"
    from poll_step(5) * have "lr_id r \<noteq> lr_id q" by auto
    with blockers_grant [OF poll_step(3,4,1) can] show ?thesis unfolding * by simp
  qed
next
  case (release_step q reg reg')
  then have *: "reg' = reg\<lparr>lk_active := filter (\<lambda>p. lr_id p \<noteq> lr_id q) (lk_active reg), lk_gen := lk_gen reg + 1\<rparr>"
    by (simp add: lock_release_eq)
  show ?case unfolding * using blockers_release by auto
qed

subsection \<open>The registry agrees with the wave planner\<close>

lemma validate_owned: "scheduling_validate s = None \<Longrightarrow> scheduling_validate (owned_scheduling w s) = None"
  using NormalizeResource_nonempty
  by (auto simp: scheduling_validate_def owned_scheduling_def normalize_claim_def Let_def list_ex_iff
      split: execution_mode.splits if_splits)

lemma claims_conflict_normalize:
  "claims_conflict [] (normalize_claim w a) (normalize_claim w b) = claims_conflict w a b"
  by (simp add: claims_conflict_def normalize_claim_def NormalizeResource_idem)

lemma owned_conflicts:
  assumes "scheduling_validate a = None" "scheduling_validate b = None" "ConcurrentSafe a" "ConcurrentSafe b"
  shows "SchedulingConflicts [] (owned_scheduling w a) (owned_scheduling w b) = SchedulingConflicts w a b"
  using assms validate_owned [of a w] validate_owned [of b w]
  by (auto simp: SchedulingConflicts_def owned_scheduling_def Let_def list_ex_iff claims_conflict_normalize)

subsection \<open>What the registry guarantees\<close>

text \<open>
  C25. In every state that any interleaving of Acquire, cancellation and release can reach, no two
  calls that hold a lock conflict: two writers, or a reader and a writer, of the same normalized
  resource never run together, nothing runs beside a globally serialized call, and the queue never
  grows past the waiter budget.
\<close>

theorem tool_lock_exclusion:
  assumes "lock_reachable reg"
  shows "(\<forall>i < length (lk_active reg). \<forall>j < length (lk_active reg). i \<noteq> j \<longrightarrow>
            \<not> lock_conflict (lk_active reg ! i) (lk_active reg ! j)) \<and>
         int (length (lk_waiting reg)) \<le> lk_max reg"
proof -
  have inv: "lock_inv reg" using assms by (rule lock_reachable_inv)
  then have "pairwise_ok (SchedulingConflicts []) (map lr_scheduling (lk_active reg))"
    by (simp add: lock_inv_def)
  from sched.pairwise_ok_nth [OF this] inv show ?thesis by (simp add: lock_inv_def)
qed

definition example_write :: scheduling where
  "example_write = \<lparr>ConcurrentSafe = True, Resources = [\<lparr>rc_resource = ''/a'', rc_access = AccessWrite\<rparr>],
     ExecutionMode = Parallel, ManagesOwnTimeout = False\<rparr>"

definition example_registry :: lock_registry where
  "example_registry =
     snd (acquire_poll None (snd (acquire_begin None
       \<lparr>lk_next = 0, lk_active = [], lk_waiting = [], lk_gen = 0, lk_max = 2\<rparr> example_write ''/w''))
       \<lparr>lr_id = 1, lr_scheduling = owned_scheduling ''/w'' example_write\<rparr>)"

lemma example_registry_value:
  "example_registry = \<lparr>lk_next = 1, lk_active = [\<lparr>lr_id = 1, lr_scheduling = example_write\<rparr>],
     lk_waiting = [], lk_gen = 0, lk_max = 2\<rparr>"
  by code_simp

lemma example_registry_reachable: "lock_reachable example_registry"
proof -
  let ?r0 = "\<lparr>lk_next = 0, lk_active = [], lk_waiting = [], lk_gen = 0, lk_max = 2\<rparr>"
  let ?q = "\<lparr>lr_id = 1, lr_scheduling = owned_scheduling ''/w'' example_write\<rparr>"
  let ?r1 = "snd (acquire_begin None ?r0 example_write ''/w'')"
  have "lock_reachable ?r0" by (rule lock_start [of 2]) (simp add: NewToolLockRegistry_def)
  moreover have "lock_step ?r0 ?r1"
    by (rule begin_step [of None _ example_write "''/w''" "fst (acquire_begin None ?r0 example_write ''/w'')"]) simp
  ultimately have r1: "lock_reachable ?r1" by (rule lock_next)
  have "lock_step ?r1 example_registry"
  proof (rule poll_step [of ?q _ None "fst (acquire_poll None ?r1 ?q)"])
    have "lk_waiting ?r1 = [?q]" by code_simp
    then show "?q \<in> set (lk_waiting ?r1)" by simp
  qed (simp add: example_registry_def)
  with r1 show ?thesis by (rule lock_next)
qed

theorem tool_lock_exclusion_witness:
  "lock_reachable example_registry \<and> int (length (lk_waiting example_registry)) \<le> lk_max example_registry"
  using tool_lock_exclusion [OF example_registry_reachable] example_registry_reachable by blast

text \<open>
  First come, first served, with no lost wakeup. While a request waits, no step of any caller
  adds a call that stands in its way: the set of blockers only shrinks, so no later arrival can
  overtake it. And whenever it does shrink, the step has closed the channel the waiters sleep on,
  so a request that becomes grantable is always woken.
\<close>

theorem tool_lock_fifo_wakeup:
  assumes "lock_reachable reg" "lock_step reg reg'"
    and "r \<in> set (lk_waiting reg)" "r \<in> set (lk_waiting reg')"
  shows "blockers reg' r \<subseteq> blockers reg r \<and>
         (\<not> canAcquire reg r \<and> canAcquire reg' r \<longrightarrow> lk_gen reg' \<noteq> lk_gen reg)"
proof -
  have inv: "lock_inv reg" "lock_inv reg'"
    using assms lock_reachable_inv lock_next by blast+
  from lock_step_blockers [OF assms(2) inv(1) assms(3,4)] show ?thesis
    using canAcquire_iff [OF inv(1) assms(3)] canAcquire_iff [OF inv(2) assms(4)] by auto
qed

definition example_waiting :: lock_registry where
  "example_waiting = snd (acquire_begin None example_registry example_write ''/w'')"

lemma example_waiting_reachable: "lock_reachable example_waiting"
proof (rule lock_next [OF example_registry_reachable])
  show "lock_step example_registry example_waiting"
    by (rule begin_step [of None _ example_write "''/w''" "fst (acquire_begin None example_registry example_write ''/w'')"])
      (simp add: example_waiting_def)
qed

theorem tool_lock_fifo_wakeup_witness:
  "\<exists>r reg'. lock_step example_waiting reg' \<and> r \<in> set (lk_waiting reg') \<and>
     \<not> canAcquire example_waiting r \<and> canAcquire reg' r \<and> lk_gen reg' \<noteq> lk_gen example_waiting"
proof -
  let ?h = "\<lparr>lr_id = 1, lr_scheduling = example_write\<rparr>" and ?r = "\<lparr>lr_id = 2, lr_scheduling = example_write\<rparr>"
  let ?reg' = "lock_release ?h example_waiting"
  have w: "example_waiting = \<lparr>lk_next = 2, lk_active = [?h], lk_waiting = [?r], lk_gen = 0, lk_max = 2\<rparr>"
    by code_simp
  note reach = example_waiting_reachable
  have step: "lock_step example_waiting ?reg'" by (rule release_step [of ?h]) (simp_all add: w)
  have in1: "?r \<in> set (lk_waiting example_waiting)" "?r \<in> set (lk_waiting ?reg')"
    by (simp_all add: w lock_release_def notify_def)
  have can: "\<not> canAcquire example_waiting ?r" "canAcquire ?reg' ?r" unfolding w by code_simp+
  from tool_lock_fifo_wakeup [OF reach step in1] can step in1 show ?thesis by blast
qed

text \<open>
  The queue cannot deadlock: when nothing is running, the request at its head is granted by its
  next poll, whatever the other requests are.
\<close>

theorem tool_lock_progress:
  assumes "lock_reachable reg" "lk_active reg = []" "lk_waiting reg = r # rest"
  shows "\<exists>reg'. acquire_poll None reg r = (PollGranted, reg') \<and> lk_active reg' = [r] \<and> lk_waiting reg' = rest"
proof -
  have "canAcquire reg r" using assms by (simp add: canAcquire_def)
  then show ?thesis using assms by (simp add: acquire_poll_def removeWaiting_def Let_def)
qed

theorem tool_lock_progress_witness:
  "\<exists>reg r reg'. acquire_poll None reg r = (PollGranted, reg') \<and> lk_active reg' = [r]"
proof -
  let ?h = "\<lparr>lr_id = 1, lr_scheduling = example_write\<rparr>" and ?r = "\<lparr>lr_id = 2, lr_scheduling = example_write\<rparr>"
  let ?reg = "lock_release ?h example_waiting"
  have w: "example_waiting = \<lparr>lk_next = 2, lk_active = [?h], lk_waiting = [?r], lk_gen = 0, lk_max = 2\<rparr>"
    by code_simp
  note reach = example_waiting_reachable
  have "lock_reachable ?reg"
    by (rule lock_next [OF reach], rule release_step [of ?h]) (simp_all add: w)
  from tool_lock_progress [OF this, of ?r "[]"] show ?thesis
    by (auto simp: w lock_release_def notify_def)
qed

text \<open>
  The lock registry and the wave planner decide conflicts alike: after a request has taken over
  its resources (normalized against its workspace, and compared later with an empty workspace), two
  concurrency-safe calls conflict exactly when the planner, which normalizes against the workspace
  each time, says so.
\<close>

theorem registry_agrees_with_planner:
  assumes "scheduling_validate a = None" "scheduling_validate b = None" "ConcurrentSafe a" "ConcurrentSafe b"
  shows "SchedulingConflicts [] (owned_scheduling w a) (owned_scheduling w b) = SchedulingConflicts w a b"
  using assms by (rule owned_conflicts)

theorem registry_agrees_with_planner_witness:
  "SchedulingConflicts [] (owned_scheduling ''/w'' (example_write\<lparr>Resources := [\<lparr>rc_resource = ''x/../a'', rc_access = AccessWrite\<rparr>]\<rparr>))
     (owned_scheduling ''/w'' (example_write\<lparr>Resources := [\<lparr>rc_resource = ''/w//a'', rc_access = AccessRead\<rparr>]\<rparr>))"
proof -
  let ?a = "example_write\<lparr>Resources := [\<lparr>rc_resource = ''x/../a'', rc_access = AccessWrite\<rparr>]\<rparr>"
  let ?b = "example_write\<lparr>Resources := [\<lparr>rc_resource = ''/w//a'', rc_access = AccessRead\<rparr>]\<rparr>"
  have "scheduling_validate ?a = None" "scheduling_validate ?b = None" "ConcurrentSafe ?a" "ConcurrentSafe ?b"
    by code_simp+
  note registry_agrees_with_planner [OF this, of "''/w''"]
  moreover have "SchedulingConflicts ''/w'' ?a ?b" by code_simp
  ultimately show ?thesis by simp
qed

end
