(* ===== verification/Bus.thy ===== *)
theory Bus
  imports Go_Errors
begin

section \<open>Capability registry and broadcast topics\<close>

text \<open>
  sdk/kernel/bus: \<open>bus.go\<close> (typed capabilities, registered once and sealed) and
  \<open>events.go\<close> (a bounded broadcast in which a slow subscriber is told how many events it
  missed). A Go type used as a key is an abstract identity \<open>'k\<close>; a handle or writer without a
  registry is \<^term>\<open>None\<close>.
\<close>

subsection \<open>Capabilities\<close>

record ('k, 'v) registry =
  sealed :: bool
  reg_values :: "'k \<rightharpoonup> 'v"

definition bus_new :: "('k, 'v) registry" where
  "bus_new = \<lparr>sealed = False, reg_values = Map.empty\<rparr>"

definition bus_seal :: "('k, 'v) registry option \<Rightarrow> ('k, 'v) registry option" where
  "bus_seal w = (case w of None \<Rightarrow> None | Some r \<Rightarrow> Some (r\<lparr>sealed := True\<rparr>))"

text \<open>\<open>nilv\<close> says which values are nil pointers, interfaces, maps, functions, slices or channels.\<close>

definition bus_provide :: "('v \<Rightarrow> bool) \<Rightarrow> ('k, 'v) registry option \<Rightarrow> 'k \<Rightarrow> 'v \<Rightarrow> go_error option \<times> ('k, 'v) registry option" where
  "bus_provide nilv w k v =
     (case w of
        None \<Rightarrow> (Some (ErrNew ''uninitialized bus writer''), None)
      | Some r \<Rightarrow>
          if nilv v then (Some (ErrNew ''nil capability''), Some r)
          else if sealed r then (Some (ErrNew ''bus registration sealed''), Some r)
          else if reg_values r k \<noteq> None then (Some (ErrNew ''capability already registered''), Some r)
          else (None, Some (r\<lparr>reg_values := (reg_values r)(k \<mapsto> v)\<rparr>)))"

definition bus_resolve :: "('k, 'v) registry option \<Rightarrow> 'k \<Rightarrow> 'v option" where
  "bus_resolve h k = (case h of None \<Rightarrow> None | Some r \<Rightarrow> reg_values r k)"

datatype ('k, 'v) bus_op = OpProvide 'k 'v | OpSeal

fun bus_apply :: "('v \<Rightarrow> bool) \<Rightarrow> ('k, 'v) registry option \<Rightarrow> ('k, 'v) bus_op \<Rightarrow> ('k, 'v) registry option" where
  "bus_apply nilv w (OpProvide k v) = snd (bus_provide nilv w k v)"
| "bus_apply nilv w OpSeal = bus_seal w"

definition bus_sealed :: "('k, 'v) registry option \<Rightarrow> bool" where
  "bus_sealed w = (case w of None \<Rightarrow> True | Some r \<Rightarrow> sealed r)"

lemma bus_apply_keeps: "bus_resolve w k = Some v \<Longrightarrow> bus_resolve (bus_apply nilv w p) k = Some v"
  by (cases p) (auto simp: bus_resolve_def bus_provide_def bus_seal_def split: option.splits)

lemma bus_apply_sealed:
  "bus_sealed w \<Longrightarrow> bus_resolve (bus_apply nilv w p) = bus_resolve w \<and> bus_sealed (bus_apply nilv w p)"
  by (cases p) (auto simp: bus_sealed_def bus_resolve_def bus_provide_def bus_seal_def fun_eq_iff split: option.splits)

lemma bus_run_keeps: "bus_resolve w k = Some v \<Longrightarrow> bus_resolve (foldl (bus_apply nilv) w ops) k = Some v"
  by (induction ops arbitrary: w) (auto simp: bus_apply_keeps)

lemma bus_run_sealed: "bus_sealed w \<Longrightarrow> bus_resolve (foldl (bus_apply nilv) w ops) = bus_resolve w"
  by (induction ops arbitrary: w) (auto simp: bus_apply_sealed)

subsection \<open>Topics\<close>

text \<open>
  \<open>t_events\<close> is the ring of \<open>capacity\<close> slots, first filled with the type's zero value;
  \<open>t_first\<close> and \<open>t_next\<close> are the sequence numbers of the oldest kept and of the next event.
  The counters are natural numbers: 2^64 publications are out of reach.
\<close>

record 'a topic =
  t_capacity :: nat
  t_zero :: 'a
  t_events :: "'a list"
  t_first :: nat
  t_next :: nat
  t_subscribers :: nat

record subscription =
  s_cursor :: nat
  s_closed :: bool

definition NewTopic :: "'a \<Rightarrow> int \<Rightarrow> 'a topic result" where
  "NewTopic zero capacity =
     (if capacity < 1 then Inl (ErrNew ''topic capacity must be positive'')
      else Inr \<lparr>t_capacity = nat capacity, t_zero = zero, t_events = replicate (nat capacity) zero,
                t_first = 0, t_next = 0, t_subscribers = 0\<rparr>)"

text \<open>The part of \<open>Publish\<close> under the lock, with the value already copied.\<close>

definition publish_commit :: "'a topic \<Rightarrow> 'a \<Rightarrow> 'a topic" where
  "publish_commit t value =
     (if t_subscribers t = 0 then t
      else
        (let t1 = t\<lparr>t_events := (t_events t)[t_next t mod t_capacity t := value]\<rparr>;
             t2 = (if t_next t1 - t_first t1 \<ge> t_capacity t1 then t1\<lparr>t_first := t_first t1 + 1\<rparr> else t1)
         in t2\<lparr>t_next := t_next t2 + 1\<rparr>))"

definition topic_publish :: "('a \<Rightarrow> 'a) \<Rightarrow> 'a topic \<Rightarrow> 'a \<Rightarrow> 'a topic" where
  "topic_publish clone t value =
     (if t_subscribers t = 0 then t else publish_commit t (clone value))"

definition HasSubscribers :: "'a topic \<Rightarrow> bool" where
  "HasSubscribers t = (t_subscribers t > 0)"

definition topic_subscribe :: "'a topic \<Rightarrow> subscription \<times> 'a topic" where
  "topic_subscribe t =
     (\<lparr>s_cursor = t_next t, s_closed = False\<rparr>, t\<lparr>t_subscribers := t_subscribers t + 1\<rparr>)"

definition subscription_close :: "'a topic \<Rightarrow> subscription \<Rightarrow> 'a topic \<times> subscription" where
  "subscription_close t s =
     (if s_closed s then (t, s)
      else
        (let t1 = t\<lparr>t_subscribers := t_subscribers t - 1\<rparr>;
             t2 = (if t_subscribers t1 = 0
                   then t1\<lparr>t_events := map (\<lambda>_. t_zero t1) (t_events t1), t_first := t_next t1\<rparr>
                   else t1)
         in (t2, s\<lparr>s_closed := True\<rparr>)))"

datatype 'a recv = RecvErr go_error | RecvClosed | RecvLagged nat | RecvValue 'a | RecvWait

text \<open>One pass of the loop in \<open>Recv\<close>; \<open>RecvWait\<close> is the select on the changed channel.\<close>

definition recv_pass :: "('a \<Rightarrow> 'a) \<Rightarrow> go_error option \<Rightarrow> 'a topic \<Rightarrow> subscription \<Rightarrow> 'a recv \<times> subscription" where
  "recv_pass clone ctx t s =
     (case ctx of
        Some e \<Rightarrow> (RecvErr e, s)
      | None \<Rightarrow>
          if s_closed s then (RecvClosed, s)
          else if s_cursor s < t_first t
            then (RecvLagged (t_first t - s_cursor s), s\<lparr>s_cursor := t_first t\<rparr>)
          else if s_cursor s < t_next t
            then (RecvValue (clone (t_events t ! (s_cursor s mod t_capacity t))), s\<lparr>s_cursor := s_cursor s + 1\<rparr>)
          else (RecvWait, s))"

subsection \<open>A topic with its subscribers, and what each has been told\<close>

text \<open>
  \<open>bs_hist\<close> is the list of accepted events and \<open>bs_log i\<close> what subscriber \<open>i\<close> received, oldest
  first: an event, or the count of a lag. Both are ghost state.
\<close>

datatype 'a told = Told 'a | Missed nat

record 'a bus_sys =
  bs_topic :: "'a topic"
  bs_subs :: "subscription list"
  bs_hist :: "'a list"
  bs_start :: "nat list"
  bs_log :: "'a told list list"

definition bus_sys_new :: "'a topic \<Rightarrow> 'a bus_sys" where
  "bus_sys_new t = \<lparr>bs_topic = t, bs_subs = [], bs_hist = [], bs_start = [], bs_log = []\<rparr>"

fun tell :: "'a recv \<Rightarrow> 'a told list" where
  "tell (RecvLagged n) = [Missed n]"
| "tell (RecvValue v) = [Told v]"
| "tell _ = []"

inductive bus_step :: "('a \<Rightarrow> 'a) \<Rightarrow> 'a bus_sys \<Rightarrow> 'a bus_sys \<Rightarrow> bool" for clone where
  publish_step: "t = bs_topic s \<Longrightarrow>
     bus_step clone s (s\<lparr>bs_topic := publish_commit t v,
       bs_hist := (if t_subscribers t = 0 then bs_hist s else bs_hist s @ [v])\<rparr>)"
| subscribe_step: "topic_subscribe (bs_topic s) = (u, t) \<Longrightarrow>
     bus_step clone s (s\<lparr>bs_topic := t, bs_subs := bs_subs s @ [u],
       bs_start := bs_start s @ [s_cursor u], bs_log := bs_log s @ [[]]\<rparr>)"
| recv_step: "i < length (bs_subs s) \<Longrightarrow> recv_pass clone ctx (bs_topic s) (bs_subs s ! i) = (r, u) \<Longrightarrow>
     bus_step clone s (s\<lparr>bs_subs := (bs_subs s)[i := u],
       bs_log := (bs_log s)[i := bs_log s ! i @ tell r]\<rparr>)"
| close_step: "i < length (bs_subs s) \<Longrightarrow> subscription_close (bs_topic s) (bs_subs s ! i) = (t, u) \<Longrightarrow>
     bus_step clone s (s\<lparr>bs_topic := t, bs_subs := (bs_subs s)[i := u]\<rparr>)"

inductive bus_reachable :: "('a \<Rightarrow> 'a) \<Rightarrow> 'a bus_sys \<Rightarrow> bool" for clone where
  bus_start: "NewTopic zero capacity = Inr t \<Longrightarrow> bus_reachable clone (bus_sys_new t)"
| bus_next: "bus_reachable clone s \<Longrightarrow> bus_step clone s s' \<Longrightarrow> bus_reachable clone s'"

text \<open>
  \<open>accounts clone hist a log b\<close>: the log tells, in order and without a gap, every event of the
  history from position \<open>a\<close> up to \<open>b\<close>, each either delivered (as a copy) or counted as missed.
\<close>

fun accounts :: "('a \<Rightarrow> 'a) \<Rightarrow> 'a list \<Rightarrow> nat \<Rightarrow> 'a told list \<Rightarrow> nat \<Rightarrow> bool" where
  "accounts clone hist a [] b = (a = b)"
| "accounts clone hist a (Told v # l) b = (a < length hist \<and> v = clone (hist ! a) \<and> accounts clone hist (Suc a) l b)"
| "accounts clone hist a (Missed n # l) b = (0 < n \<and> a + n \<le> length hist \<and> accounts clone hist (a + n) l b)"

lemma accounts_snoc_told:
  "accounts clone hist a l b \<Longrightarrow> b < length hist \<Longrightarrow> accounts clone hist a (l @ [Told (clone (hist ! b))]) (Suc b)"
  by (induction clone hist a l b rule: accounts.induct) auto

lemma accounts_snoc_missed:
  "accounts clone hist a l b \<Longrightarrow> 0 < n \<Longrightarrow> b + n \<le> length hist \<Longrightarrow> accounts clone hist a (l @ [Missed n]) (b + n)"
  by (induction clone hist a l b rule: accounts.induct) auto

lemma accounts_extend: "accounts clone hist a l b \<Longrightarrow> accounts clone (hist @ rest) a l b"
  by (induction clone hist a l b rule: accounts.induct) (auto simp: nth_append)

definition ring_ok :: "'a topic \<Rightarrow> 'a list \<Rightarrow> bool" where
  "ring_ok t hist \<longleftrightarrow>
     0 < t_capacity t \<and> length (t_events t) = t_capacity t \<and>
     t_first t \<le> t_next t \<and> t_next t - t_first t \<le> t_capacity t \<and> t_next t = length hist \<and>
     (\<forall>i. t_first t \<le> i \<and> i < t_next t \<longrightarrow> t_events t ! (i mod t_capacity t) = hist ! i)"

definition open_subs :: "subscription list \<Rightarrow> nat" where
  "open_subs us = length (filter (\<lambda>u. \<not> s_closed u) us)"

definition bus_inv :: "('a \<Rightarrow> 'a) \<Rightarrow> 'a bus_sys \<Rightarrow> bool" where
  "bus_inv clone s \<longleftrightarrow>
     ring_ok (bs_topic s) (bs_hist s) \<and>
     t_subscribers (bs_topic s) = open_subs (bs_subs s) \<and>
     length (bs_start s) = length (bs_subs s) \<and> length (bs_log s) = length (bs_subs s) \<and>
     (\<forall>i < length (bs_subs s). s_cursor (bs_subs s ! i) \<le> length (bs_hist s) \<and>
        (s_closed (bs_subs s ! i) \<or> t_first (bs_topic s) \<le> s_cursor (bs_subs s ! i) \<or>
           t_next (bs_topic s) - t_first (bs_topic s) = t_capacity (bs_topic s)) \<and>
        accounts clone (bs_hist s) (bs_start s ! i) (bs_log s ! i) (s_cursor (bs_subs s ! i)))"

lemma mod_neq_in_window:
  assumes "i < j" "j - i < (c::nat)" shows "i mod c \<noteq> j mod c"
proof
  assume "i mod c = j mod c"
  then have "c dvd j - i" using assms(1) mod_eq_dvd_iff_nat [of i j c] by simp
  with assms show False by (auto dest: dvd_imp_le)
qed

lemma ring_ok_publish:
  assumes "ring_ok t hist" "t_subscribers t \<noteq> 0"
  shows "ring_ok (publish_commit t v) (hist @ [v])"
proof -
  let ?f = "if t_next t - t_first t \<ge> t_capacity t then t_first t + 1 else t_first t"
  have eq: "publish_commit t v = t\<lparr>t_events := (t_events t)[t_next t mod t_capacity t := v], t_first := ?f, t_next := t_next t + 1\<rparr>"
    using assms(2) by (simp add: publish_commit_def Let_def)
  have slot: "(t_events t)[t_next t mod t_capacity t := v] ! (i mod t_capacity t) = (hist @ [v]) ! i"
    if "?f \<le> i" "i \<le> t_next t" for i
  proof (cases "i = t_next t")
    case True
    then show ?thesis using assms(1) by (auto simp: ring_ok_def nth_append)
  next
    case False
    with that assms(1) have "i < t_next t" "t_next t - i < t_capacity t" "t_first t \<le> i"
      by (auto simp: ring_ok_def split: if_splits)
    moreover from this have "i mod t_capacity t \<noteq> t_next t mod t_capacity t"
      by (intro mod_neq_in_window) auto
    ultimately show ?thesis using assms(1) by (simp add: ring_ok_def nth_append)
  qed
  show ?thesis
    unfolding eq using assms(1) slot by (auto simp: ring_ok_def less_Suc_eq_le)
qed

lemma open_subs_close:
  "i < length us \<Longrightarrow> \<not> s_closed (us ! i) \<Longrightarrow> open_subs (us[i := (us ! i)\<lparr>s_closed := True\<rparr>]) = open_subs us - 1 \<and> 0 < open_subs us"
proof (induction us arbitrary: i)
  case (Cons u us)
  show ?case
  proof (cases i)
    case 0
    then show ?thesis using Cons.prems by (simp add: open_subs_def)
  next
    case (Suc j)
    then show ?thesis using Cons.IH [of j] Cons.prems by (auto simp: open_subs_def)
  qed
qed simp

lemma open_subs_same: "i < length us \<Longrightarrow> s_closed u = s_closed (us ! i) \<Longrightarrow> open_subs (us[i := u]) = open_subs us"
proof (induction us arbitrary: i)
  case (Cons w us)
  then show ?case by (cases i) (auto simp: open_subs_def)
qed simp

lemma recv_pass_inv:
  assumes ring: "ring_ok t hist" and cur: "s_cursor u \<le> length hist"
    and acc: "accounts clone hist a l (s_cursor u)"
    and pass: "recv_pass clone ctx t u = (r, u')"
  shows "s_cursor u' \<le> length hist \<and> s_closed u' = s_closed u \<and> accounts clone hist a (l @ tell r) (s_cursor u')"
proof -
  consider (err) e where "ctx = Some e" | (closed) "ctx = None" "s_closed u"
    | (lag) "ctx = None" "\<not> s_closed u" "s_cursor u < t_first t"
    | (val) "ctx = None" "\<not> s_closed u" "\<not> s_cursor u < t_first t" "s_cursor u < t_next t"
    | (wait) "ctx = None" "\<not> s_closed u" "\<not> s_cursor u < t_first t" "\<not> s_cursor u < t_next t"
    by (cases ctx) auto
  then show ?thesis
  proof cases
    case lag
    then have "r = RecvLagged (t_first t - s_cursor u)" "u' = u\<lparr>s_cursor := t_first t\<rparr>"
      using pass by (auto simp: recv_pass_def)
    then show ?thesis
      using lag ring accounts_snoc_missed [OF acc, of "t_first t - s_cursor u"] by (simp add: ring_ok_def)
  next
    case val
    then have "r = RecvValue (clone (t_events t ! (s_cursor u mod t_capacity t)))" "u' = u\<lparr>s_cursor := s_cursor u + 1\<rparr>"
      using pass by (auto simp: recv_pass_def)
    then show ?thesis
      using val ring accounts_snoc_told [OF acc] by (simp add: ring_ok_def)
  qed (use pass cur acc in \<open>auto simp: recv_pass_def\<close>)
qed

lemma recv_pass_cursor: "recv_pass clone ctx t u = (r, u') \<Longrightarrow> s_cursor u \<le> s_cursor u'"
  by (auto simp: recv_pass_def split: option.splits if_splits)

lemma open_subs_zero: "open_subs us = 0 \<Longrightarrow> i < length us \<Longrightarrow> s_closed (us ! i)"
  by (auto simp: open_subs_def filter_empty_conv)

lemma publish_commit_window:
  assumes "ring_ok t hist" "t_first t \<le> c \<or> t_next t - t_first t = t_capacity t" "c \<le> t_next t"
  shows "t_first (publish_commit t v) \<le> c \<or>
    t_next (publish_commit t v) - t_first (publish_commit t v) = t_capacity (publish_commit t v)"
  using assms by (auto simp: publish_commit_def ring_ok_def Let_def)

lemma bus_step_inv [alva_inv]: "bus_step clone s s' \<Longrightarrow> bus_inv clone s \<Longrightarrow> bus_inv clone s'"
proof (induction rule: bus_step.induct)
  case (publish_step t s v)
  show ?case
  proof (cases "t_subscribers t = 0")
    case True
    then show ?thesis using publish_step by (simp add: publish_commit_def bus_inv_def)
  next
    case False
    have "t_subscribers (publish_commit t v) = t_subscribers t"
      by (simp add: publish_commit_def Let_def)
    then show ?thesis
      using publish_step False ring_ok_publish [of t "bs_hist s" v]
        publish_commit_window [of t "bs_hist s" _ v]
      by (auto simp: bus_inv_def accounts_extend ring_ok_def intro: le_SucI)
  qed
next
  case (subscribe_step s u t)
  then show ?case
    by (auto simp: topic_subscribe_def bus_inv_def ring_ok_def open_subs_def nth_append less_Suc_eq)
next
  case (recv_step i s ctx r u)
  then have ring: "ring_ok (bs_topic s) (bs_hist s)"
    and "s_cursor (bs_subs s ! i) \<le> length (bs_hist s)"
    and "accounts clone (bs_hist s) (bs_start s ! i) (bs_log s ! i) (s_cursor (bs_subs s ! i))"
    by (auto simp: bus_inv_def)
  from recv_pass_inv [OF this recv_step(2)] show ?case
    using recv_step recv_pass_cursor [OF recv_step(2)]
    by (auto simp: bus_inv_def nth_list_update open_subs_same dest: order_trans)
next
  case (close_step i s t u)
  show ?case
  proof (cases "s_closed (bs_subs s ! i)")
    case True
    then have "t = bs_topic s" "u = bs_subs s ! i" using close_step(2) by (auto simp: subscription_close_def)
    moreover have "s\<lparr>bs_topic := bs_topic s, bs_subs := bs_subs s\<rparr> = s" by simp
    ultimately show ?thesis using close_step(3) by simp
  next
    case False
    let ?t1 = "(bs_topic s)\<lparr>t_subscribers := t_subscribers (bs_topic s) - 1\<rparr>"
    have u: "u = (bs_subs s ! i)\<lparr>s_closed := True\<rparr>"
      and t: "t = (if t_subscribers ?t1 = 0 then ?t1\<lparr>t_events := map (\<lambda>_. t_zero ?t1) (t_events ?t1), t_first := t_next ?t1\<rparr> else ?t1)"
      using close_step(2) False by (auto simp: subscription_close_def Let_def)
    have "ring_ok t (bs_hist s)"
      using close_step(3) unfolding t bus_inv_def ring_ok_def by auto
    moreover have "t_subscribers t = open_subs ((bs_subs s)[i := u])"
      using close_step(1,3) open_subs_close [OF close_step(1) False] unfolding t u bus_inv_def by simp
    moreover have "t_first t = t_first (bs_topic s) \<and> t_next t = t_next (bs_topic s) \<and> t_capacity t = t_capacity (bs_topic s)"
      if "j < length (bs_subs s)" "i \<noteq> j" "\<not> s_closed (bs_subs s ! j)" for j
    proof -
      have "open_subs ((bs_subs s)[i := u]) \<noteq> 0"
        using that open_subs_zero [of "(bs_subs s)[i := u]" j] by auto
      then have "t_subscribers ?t1 \<noteq> 0"
        using close_step(1,3) open_subs_close [OF close_step(1) False] unfolding u bus_inv_def by simp
      then show ?thesis unfolding t by simp
    qed
    ultimately show ?thesis
      using close_step(1,3) u by (auto simp: bus_inv_def nth_list_update)
  qed
qed

lemma bus_reachable_inv: "bus_reachable clone s \<Longrightarrow> bus_inv clone s"
proof (induction rule: bus_reachable.induct)
  case (bus_start zero capacity t)
  then show ?case
    by (auto simp: NewTopic_def bus_sys_new_def bus_inv_def ring_ok_def open_subs_def split: if_splits)
next
  case (bus_next s s')
  then show ?case by (blast intro: bus_step_inv)
qed

subsection \<open>What subscribers and clients can rely on\<close>


lemma bus_example:
  fixes zero :: nat and f :: "nat \<Rightarrow> nat"
  defines "t0 \<equiv> \<lparr>t_capacity = 1, t_zero = zero, t_events = [zero], t_first = 0, t_next = 0, t_subscribers = 0\<rparr>"
  shows "\<exists>s. bus_reachable f s \<and> length (bs_subs s) = 1 \<and> bs_hist s = [7, 8] \<and>
    bs_subs s = [\<lparr>s_cursor = 0, s_closed = False\<rparr>] \<and> t_first (bs_topic s) = 1 \<and> t_capacity (bs_topic s) = 1"
proof -
  let ?s0 = "bus_sys_new t0"
  let ?t1 = "t0\<lparr>t_subscribers := 1\<rparr>"
  let ?s1 = "?s0\<lparr>bs_topic := ?t1, bs_subs := [\<lparr>s_cursor = 0, s_closed = False\<rparr>], bs_start := [0], bs_log := [[]]\<rparr>"
  let ?s2 = "?s1\<lparr>bs_topic := publish_commit ?t1 7, bs_hist := [7]\<rparr>"
  let ?t2 = "publish_commit ?t1 7"
  let ?s3 = "?s2\<lparr>bs_topic := publish_commit ?t2 8, bs_hist := [7, 8]\<rparr>"
  have "bus_reachable f ?s0" by (rule bus_start [of zero 1]) (simp add: NewTopic_def t0_def)
  moreover have "bus_step f ?s0 ?s1"
    using bus_step.subscribe_step [of ?s0 "\<lparr>s_cursor = 0, s_closed = False\<rparr>" ?t1 f]
    by (simp add: topic_subscribe_def bus_sys_new_def t0_def)
  ultimately have s1: "bus_reachable f ?s1" by (rule bus_next)
  have "bus_step f ?s1 ?s2" using bus_step.publish_step [of ?t1 ?s1 f 7] by (simp add: t0_def bus_sys_new_def)
  with s1 have s2: "bus_reachable f ?s2" by (rule bus_next)
  have "bus_step f ?s2 ?s3"
    using bus_step.publish_step [of ?t2 ?s2 f 8] by (simp add: t0_def bus_sys_new_def publish_commit_def)
  with s2 have "bus_reachable f ?s3" by (rule bus_next)
  then show ?thesis
    by (intro exI [of _ ?s3]) (simp add: t0_def bus_sys_new_def publish_commit_def)
qed


text \<open>
  A capability is registered once: whatever is provided or sealed afterwards, resolving its type
  keeps returning the first value, and after sealing no operation changes what any type resolves to.
\<close>

theorem capability_write_once:
  "(bus_resolve w k = Some v \<longrightarrow> bus_resolve (foldl (bus_apply nilv) w ops) k = Some v) \<and>
   bus_resolve (foldl (bus_apply nilv) (bus_seal w) ops) = bus_resolve w"
proof -
  have "bus_sealed (bus_seal w)" "bus_resolve (bus_seal w) = bus_resolve w"
    by (auto simp: bus_sealed_def bus_seal_def bus_resolve_def fun_eq_iff split: option.splits)
  with bus_run_sealed [of "bus_seal w" nilv ops] show ?thesis by (simp add: bus_run_keeps)
qed

theorem capability_write_once_witness:
  "bus_resolve (foldl (bus_apply (\<lambda>_. False)) (Some (bus_new\<lparr>reg_values := [''a'' \<mapsto> (1::nat)]\<rparr>))
     [OpProvide ''a'' 2, OpSeal, OpProvide ''b'' 3]) ''a'' = Some 1"
  using capability_write_once [of "Some (bus_new\<lparr>reg_values := [''a'' \<mapsto> (1::nat)]\<rparr>)" "''a''" 1 "\<lambda>_. False"
      "[OpProvide ''a'' 2, OpSeal, OpProvide ''b'' 3]"]
  by (simp add: bus_resolve_def)

end
