(* ===== verification/Wire_Json.thy ===== *)
theory Wire_Json
  imports Go_Errors Go_Text "HOL-Library.Word"
begin

section \<open>JSON accepted without normalization\<close>

text \<open>
  \<open>ValidJSON\<close> of sdk/llm/wire/validate.go and the two library functions it calls.
  \<open>utf8_valid\<close> is \<open>utf8.Valid\<close>; \<open>json_valid\<close> is \<open>json.Valid\<close>, the byte-at-a-time scanner
  of encoding/json with its stack of open containers. The code then walks the bytes again
  and indexes \<open>data[i]\<close> and \<open>data[i+1:i+5]\<close> without a bounds check of its own: here an index
  out of range is the outcome \<open>Panic\<close>.
\<close>

subsection \<open>utf8.Valid\<close>

definition in_range :: "nat \<Rightarrow> nat \<Rightarrow> char \<Rightarrow> bool" where
  "in_range lo hi c = (lo \<le> byte_of c \<and> byte_of c \<le> hi)"

text \<open>How many continuation bytes a first byte needs, and the range of the first of them.\<close>

definition utf8_lead :: "char \<Rightarrow> (nat \<times> nat \<times> nat) option" where
  "utf8_lead c =
     (let b = byte_of c in
      if b < 0x80 then Some (0, 0, 0)
      else if 0xC2 \<le> b \<and> b \<le> 0xDF then Some (1, 0x80, 0xBF)
      else if b = 0xE0 then Some (2, 0xA0, 0xBF)
      else if b = 0xED then Some (2, 0x80, 0x9F)
      else if 0xE1 \<le> b \<and> b \<le> 0xEF then Some (2, 0x80, 0xBF)
      else if b = 0xF0 then Some (3, 0x90, 0xBF)
      else if 0xF1 \<le> b \<and> b \<le> 0xF3 then Some (3, 0x80, 0xBF)
      else if b = 0xF4 then Some (3, 0x80, 0x8F)
      else None)"

text \<open>\<open>utf8_more n lo hi s\<close>: \<open>n\<close> continuation bytes are due, the next one within the range.\<close>

fun utf8_more :: "nat \<Rightarrow> nat \<Rightarrow> nat \<Rightarrow> string \<Rightarrow> bool" where
  "utf8_more n lo hi [] = (n = 0)"
| "utf8_more n lo hi (c # s) =
     (if n = 0 then (case utf8_lead c of None \<Rightarrow> False | Some (m, l, h) \<Rightarrow> utf8_more m l h s)
      else in_range lo hi c \<and> utf8_more (n - 1) 0x80 0xBF s)"

definition utf8_valid :: "string \<Rightarrow> bool" where
  "utf8_valid s = utf8_more 0 0 0 s"

lemma utf8_more_0: "utf8_more 0 lo hi s = utf8_valid s"
  by (cases s) (simp_all add: utf8_valid_def)

lemma utf8_more_append: "utf8_more n lo hi s \<Longrightarrow> utf8_valid t \<Longrightarrow> utf8_more n lo hi (s @ t)"
  by (induction n lo hi s rule: utf8_more.induct) (auto simp: utf8_more_0 split: option.splits if_splits)

lemma utf8_valid_append: "utf8_valid s \<Longrightarrow> utf8_valid t \<Longrightarrow> utf8_valid (s @ t)"
  by (simp add: utf8_valid_def utf8_more_append)

lemma utf8_more_append_iff: "utf8_more n lo hi s \<Longrightarrow> utf8_more n lo hi (s @ t) = utf8_valid t"
  by (induction n lo hi s rule: utf8_more.induct) (auto simp: utf8_more_0 split: option.splits if_splits)

lemma utf8_valid_append_iff: "utf8_valid s \<Longrightarrow> utf8_valid (s @ t) = utf8_valid t"
  by (simp add: utf8_valid_def utf8_more_append_iff)

definition validStrings :: "string list \<Rightarrow> bool" where
  "validStrings values = list_all utf8_valid values"

subsection \<open>json.Valid\<close>

datatype container = ObjectKey | ObjectValue | ArrayValue

datatype jstate =
    BeginValue | BeginValueOrEmpty | BeginString | BeginStringOrEmpty | EndValue | EndTop
  | InStr | InEsc | InEscU nat
  | NegNum | IntDigits | ZeroNum | DotNum | FracDigits | ExpNum | ExpSign | ExpDigits
  | Literal string

definition is_space :: "char \<Rightarrow> bool" where
  "is_space c = (c = CHR 0x20 \<or> c = CHR 0x09 \<or> c = CHR 0x0D \<or> c = CHR 0x0A)"

definition is_digit :: "char \<Rightarrow> bool" where
  "is_digit c = in_range 0x30 0x39 c"

definition is_hex :: "char \<Rightarrow> bool" where
  "is_hex c = (in_range 0x30 0x39 c \<or> in_range 0x61 0x66 c \<or> in_range 0x41 0x46 c)"

definition max_nesting :: nat where "max_nesting = 10000"

definition json_push :: "container \<Rightarrow> jstate \<Rightarrow> container list \<Rightarrow> (jstate \<times> container list) option" where
  "json_push k st stack = (if length stack + 1 \<le> max_nesting then Some (st, k # stack) else None)"

definition json_pop :: "container list \<Rightarrow> (jstate \<times> container list)" where
  "json_pop rest = (if rest = [] then (EndTop, []) else (EndValue, rest))"

definition end_value :: "char \<Rightarrow> container list \<Rightarrow> (jstate \<times> container list) option" where
  "end_value c stack =
     (case stack of
        [] \<Rightarrow> if is_space c then Some (EndTop, []) else None
      | k # rest \<Rightarrow>
          if is_space c then Some (EndValue, stack)
          else (case k of
              ObjectKey \<Rightarrow> if c = CHR '':'' then Some (BeginValue, ObjectValue # rest) else None
            | ObjectValue \<Rightarrow>
                if c = CHR '','' then Some (BeginString, ObjectKey # rest)
                else if c = CHR 0x7D then Some (json_pop rest) else None
            | ArrayValue \<Rightarrow>
                if c = CHR '','' then Some (BeginValue, stack)
                else if c = CHR 0x5D then Some (json_pop rest) else None))"

definition begin_value :: "char \<Rightarrow> container list \<Rightarrow> (jstate \<times> container list) option" where
  "begin_value c stack =
     (if is_space c then Some (BeginValue, stack)
      else if c = CHR 0x7B then json_push ObjectKey BeginStringOrEmpty stack
      else if c = CHR 0x5B then json_push ArrayValue BeginValueOrEmpty stack
      else if c = CHR 0x22 then Some (InStr, stack)
      else if c = CHR ''-'' then Some (NegNum, stack)
      else if c = CHR ''0'' then Some (ZeroNum, stack)
      else if is_digit c then Some (IntDigits, stack)
      else if c = CHR ''t'' then Some (Literal ''rue'', stack)
      else if c = CHR ''f'' then Some (Literal ''alse'', stack)
      else if c = CHR ''n'' then Some (Literal ''ull'', stack)
      else None)"

definition begin_string :: "char \<Rightarrow> container list \<Rightarrow> (jstate \<times> container list) option" where
  "begin_string c stack =
     (if is_space c then Some (BeginString, stack)
      else if c = CHR 0x22 then Some (InStr, stack) else None)"

text \<open>One step of the scanner on one byte; \<open>None\<close> is a syntax error.\<close>

fun json_step :: "jstate \<Rightarrow> container list \<Rightarrow> char \<Rightarrow> (jstate \<times> container list) option" where
  "json_step BeginValue stack c = begin_value c stack"
| "json_step BeginValueOrEmpty stack c =
     (if is_space c then Some (BeginValueOrEmpty, stack)
      else if c = CHR 0x5D then end_value c stack else begin_value c stack)"
| "json_step BeginString stack c = begin_string c stack"
| "json_step BeginStringOrEmpty stack c =
     (if is_space c then Some (BeginStringOrEmpty, stack)
      else if c = CHR 0x7D then end_value c (ObjectValue # tl stack) else begin_string c stack)"
| "json_step EndValue stack c = end_value c stack"
| "json_step EndTop stack c = (if is_space c then Some (EndTop, stack) else None)"
| "json_step InStr stack c =
     (if c = CHR 0x22 then Some (EndValue, stack)
      else if c = CHR 0x5C then Some (InEsc, stack)
      else if byte_of c < 0x20 then None else Some (InStr, stack))"
| "json_step InEsc stack c =
     (if c \<in> set [CHR ''b'', CHR ''f'', CHR ''n'', CHR ''r'', CHR ''t'', CHR 0x5C, CHR 0x2F, CHR 0x22] then Some (InStr, stack)
      else if c = CHR ''u'' then Some (InEscU 3, stack) else None)"
| "json_step (InEscU n) stack c =
     (if is_hex c then Some (case n of 0 \<Rightarrow> InStr | Suc m \<Rightarrow> InEscU m, stack) else None)"
| "json_step NegNum stack c =
     (if c = CHR ''0'' then Some (ZeroNum, stack) else if is_digit c then Some (IntDigits, stack) else None)"
| "json_step IntDigits stack c =
     (if is_digit c then Some (IntDigits, stack)
      else if c = CHR ''.'' then Some (DotNum, stack)
      else if c = CHR ''e'' \<or> c = CHR ''E'' then Some (ExpNum, stack) else end_value c stack)"
| "json_step ZeroNum stack c =
     (if c = CHR ''.'' then Some (DotNum, stack)
      else if c = CHR ''e'' \<or> c = CHR ''E'' then Some (ExpNum, stack) else end_value c stack)"
| "json_step DotNum stack c = (if is_digit c then Some (FracDigits, stack) else None)"
| "json_step FracDigits stack c =
     (if is_digit c then Some (FracDigits, stack)
      else if c = CHR ''e'' \<or> c = CHR ''E'' then Some (ExpNum, stack) else end_value c stack)"
| "json_step ExpNum stack c =
     (if c = CHR ''+'' \<or> c = CHR ''-'' then Some (ExpSign, stack)
      else if is_digit c then Some (ExpDigits, stack) else None)"
| "json_step ExpSign stack c = (if is_digit c then Some (ExpDigits, stack) else None)"
| "json_step ExpDigits stack c = (if is_digit c then Some (ExpDigits, stack) else end_value c stack)"
| "json_step (Literal w) stack c =
     (case w of [] \<Rightarrow> None
      | x # xs \<Rightarrow> if c = x then Some (if xs = [] then EndValue else Literal xs, stack) else None)"

text \<open>At the end of input one space is fed, unless the top-level value is already closed.\<close>

fun json_run :: "jstate \<Rightarrow> container list \<Rightarrow> string \<Rightarrow> bool" where
  "json_run st stack [] =
     (st = EndTop \<or> (case json_step st stack (CHR 0x20) of Some (EndTop, _) \<Rightarrow> True | _ \<Rightarrow> False))"
| "json_run st stack (c # s) =
     (case json_step st stack c of None \<Rightarrow> False | Some (st', stack') \<Rightarrow> json_run st' stack' s)"

definition json_valid :: "string \<Rightarrow> bool" where
  "json_valid data = json_run BeginValue [] data"

subsection \<open>The surrogate scan\<close>

definition hex_digit :: "char \<Rightarrow> 16 word" where
  "hex_digit c =
     (if in_range 0x30 0x39 c then of_nat (byte_of c - 0x30)
      else if in_range 0x61 0x66 c then of_nat (byte_of c - 0x61 + 10)
      else if in_range 0x41 0x46 c then of_nat (byte_of c - 0x41 + 10)
      else 0)"

definition hexQuad :: "string \<Rightarrow> 16 word" where
  "hexQuad raw = foldl (\<lambda>value c. value * 16 + hex_digit c) 0 raw"

datatype scan_result = Panic | Rejected | Accepted

text \<open>
  The loop of \<open>ValidJSON\<close>, on the bytes from \<open>i\<close> on. After a backslash the code reads
  \<open>data[i]\<close>, after \<open>u\<close> the four bytes \<open>data[i+1:i+5]\<close>; for a high surrogate it checks
  \<open>i+6 >= len(data)\<close> itself before it reads the low one.
\<close>

function surrogate_scan :: "bool \<Rightarrow> string \<Rightarrow> scan_result" where
  "surrogate_scan inString data =
     (case data of
        [] \<Rightarrow> Accepted
      | c # s \<Rightarrow>
          if \<not> inString then surrogate_scan (c = CHR 0x22) s
          else if c = CHR 0x22 then surrogate_scan False s
          else if c \<noteq> CHR 0x5C then surrogate_scan True s
          else (case s of
              [] \<Rightarrow> Panic
            | e # r \<Rightarrow>
                if e \<noteq> CHR ''u'' then surrogate_scan True r
                else if length r < 4 then Panic
                else (let value = hexQuad (take 4 r); r4 = drop 4 r in
                  if 0xD800 \<le> value \<and> value \<le> 0xDBFF then
                    (if length r4 < 6 \<or> r4 ! 0 \<noteq> CHR 0x5C \<or> r4 ! 1 \<noteq> CHR ''u'' then Rejected
                     else (let low = hexQuad (take 4 (drop 2 r4)) in
                       if low < 0xDC00 \<or> low > 0xDFFF then Rejected
                       else surrogate_scan True (drop 6 r4)))
                  else if 0xDC00 \<le> value \<and> value \<le> 0xDFFF then Rejected
                  else surrogate_scan True r4)))"
  by pat_completeness auto
termination by (relation "measure (\<lambda>(b, d). length d)") auto

declare surrogate_scan.simps [simp del]

definition ValidJSON_scan :: "string \<Rightarrow> scan_result" where
  "ValidJSON_scan data =
     (if \<not> utf8_valid data \<or> \<not> json_valid data then Rejected else surrogate_scan False data)"

definition ValidJSON :: "string \<Rightarrow> bool" where
  "ValidJSON data = (ValidJSON_scan data = Accepted)"

subsection \<open>The scan never reads out of range\<close>

text \<open>The scan's flag says whether the scanner of encoding/json is inside a string.\<close>

fun in_string :: "jstate \<Rightarrow> bool" where
  "in_string InStr = True"
| "in_string InEsc = True"
| "in_string (InEscU n) = True"
| "in_string _ = False"

text \<open>States outside a string; what is left of a literal holds no quote.\<close>

fun outside :: "jstate \<Rightarrow> bool" where
  "outside (Literal w) = (CHR 0x22 \<notin> set w)"
| "outside st = (\<not> in_string st)"

lemma json_step_outside:
  "json_step st stack c = Some (st', stack') \<Longrightarrow> outside st \<Longrightarrow>
     (if c = CHR 0x22 then st' = InStr else outside st')"
  by (cases "(st, stack, c)" rule: json_step.cases)
    (auto simp: begin_value_def begin_string_def end_value_def json_push_def json_pop_def is_space_def is_digit_def
       in_range_def byte_of_def split: if_splits list.splits container.splits)

lemma surrogate_scan_Cons:
  "surrogate_scan b (c # s) =
     (if \<not> b then surrogate_scan (c = CHR 0x22) s
      else if c = CHR 0x22 then surrogate_scan False s
      else if c \<noteq> CHR 0x5C then surrogate_scan True s
      else (case s of
          [] \<Rightarrow> Panic
        | e # r \<Rightarrow>
            if e \<noteq> CHR ''u'' then surrogate_scan True r
            else if length r < 4 then Panic
            else (let value = hexQuad (take 4 r); r4 = drop 4 r in
              if 0xD800 \<le> value \<and> value \<le> 0xDBFF then
                (if length r4 < 6 \<or> r4 ! 0 \<noteq> CHR 0x5C \<or> r4 ! 1 \<noteq> CHR ''u'' then Rejected
                 else (let low = hexQuad (take 4 (drop 2 r4)) in
                   if low < 0xDC00 \<or> low > 0xDFFF then Rejected
                   else surrogate_scan True (drop 6 r4)))
              else if 0xDC00 \<le> value \<and> value \<le> 0xDFFF then Rejected
              else surrogate_scan True r4)))"
  by (subst surrogate_scan.simps) (simp only: list.case)

lemma json_run_eof_in_string: "in_string st \<Longrightarrow> \<not> json_run st stack []"
  by (cases st) (auto simp: is_hex_def in_range_def byte_of_def split: option.splits nat.splits)

lemma json_run_escu:
  assumes "json_run (InEscU n) stack s"
  shows "n < length s \<and> json_run InStr stack (drop (Suc n) s)"
  using assms
proof (induction n arbitrary: s)
  case 0
  then show ?case by (cases s) (auto simp: json_run_eof_in_string split: if_splits)
next
  case (Suc n)
  then show ?case by (cases s) (auto simp: json_run_eof_in_string split: if_splits)
qed

lemma json_run_escape:
  assumes "json_run InStr stack (CHR 0x5C # s)"
  obtains e r where "s = e # r" "e \<noteq> CHR ''u''" "json_run InStr stack r"
  | r where "s = CHR ''u'' # r" "4 \<le> length r" "json_run InStr stack (drop 4 r)"
proof (cases s)
  case Nil
  with assms show ?thesis by (simp add: json_run_eof_in_string)
next
  case (Cons e r)
  with assms have run: "json_run InEsc stack (e # r)" by simp
  show ?thesis
  proof (cases "e = CHR ''u''")
    case True
    with run have "json_run (InEscU 3) stack r" by simp
    from json_run_escu [OF this] show ?thesis using Cons True that(2) by (simp add: numeral_eq_Suc)
  next
    case False
    with run have "json_run InStr stack r" by (auto split: if_splits)
    with Cons False show ?thesis using that(1) by blast
  qed
qed

lemma surrogate_scan_safe:
  "json_run st stack data \<Longrightarrow> st = InStr \<or> outside st \<Longrightarrow> surrogate_scan (st = InStr) data \<noteq> Panic"
proof (induction "length data" arbitrary: st stack data rule: less_induct)
  case less
  show ?case
  proof (cases data)
    case Nil
    then show ?thesis by (simp add: surrogate_scan.simps)
  next
    case (Cons c s)
    show ?thesis
    proof (cases "st = InStr")
      case False
      with less.prems Cons obtain st' stack' where step: "json_step st stack c = Some (st', stack')"
        and run: "json_run st' stack' s" by (auto split: option.splits)
      have st': "if c = CHR 0x22 then st' = InStr else outside st'"
        using json_step_outside [OF step] False less.prems(2) by blast
      have "surrogate_scan (st' = InStr) s \<noteq> Panic"
        by (rule less.hyps [OF _ run]) (use Cons st' in \<open>auto split: if_splits\<close>)
      moreover have "(st' = InStr) = (c = CHR 0x22)" using st' by (auto split: if_splits)
      ultimately show ?thesis using Cons False by (simp add: surrogate_scan_Cons)
    next
      case True
      show ?thesis
      proof (cases "c = CHR 0x5C")
        case False
        have "json_run (if c = CHR 0x22 then EndValue else InStr) stack s"
          using less.prems(1) Cons True False by (auto split: if_splits)
        from less.hyps [OF _ this] show ?thesis
          using Cons True False by (auto simp: surrogate_scan_Cons split: if_splits)
      next
        case esc: True
        from less.prems(1) Cons True esc have "json_run InStr stack (CHR 0x5C # s)" by simp
        then show ?thesis
        proof (cases rule: json_run_escape)
          case (1 e r)
          from less.hyps [OF _ 1(3)] show ?thesis
            using Cons True esc 1 by (simp add: surrogate_scan_Cons)
        next
          case (2 r)
          have r4: "surrogate_scan True (drop 4 r) \<noteq> Panic"
            using less.hyps [OF _ 2(3)] Cons 2(1) by simp
          have low: "surrogate_scan True (drop 6 (drop 4 r)) \<noteq> Panic"
            if "6 \<le> length (drop 4 r)" "drop 4 r ! 0 = CHR 0x5C" "drop 4 r ! 1 = CHR ''u''"
          proof -
            have "\<exists>a b t. q = a # b # t" if "6 \<le> length q" for q :: string
              using that by (cases q; cases "tl q") auto
            from this [OF that(1)] obtain a b r6 where "drop 4 r = a # b # r6" by blast
            with that(2,3) have r6: "drop 4 r = CHR 0x5C # CHR ''u'' # r6" by simp
            have "length r6 \<le> length (drop 4 r)" unfolding r6 by simp
            then have len: "length r6 \<le> length r" by simp
            with 2(3) r6 have "json_run InStr stack (CHR 0x5C # CHR ''u'' # r6)" by simp
            then have "json_run InStr stack (drop 4 r6)"
              by (rule json_run_escape) auto
            then have "surrogate_scan (InStr = InStr) (drop 4 r6) \<noteq> Panic"
              using Cons 2(1) len by (intro less.hyps) auto
            then show ?thesis using r6 by simp
          qed
          show ?thesis
            using Cons True esc 2(1,2) r4 low
            by (auto simp: surrogate_scan_Cons Let_def not_less)
        qed
      qed
    qed
  qed
qed

text \<open>
  ValidJSON never indexes its input out of range: whatever the bytes are, the checks it makes
  first (UTF-8, and the JSON scanner's acceptance) guarantee that a byte follows every backslash
  and four bytes follow every unicode escape, so the function returns an answer and does not panic.
\<close>

theorem ValidJSON_no_panic: "ValidJSON_scan data \<noteq> Panic"
  using surrogate_scan_safe [of BeginValue "[]" data]
  by (simp add: ValidJSON_scan_def json_valid_def)

lemma ValidJSON_imp_json_valid: "ValidJSON data \<Longrightarrow> json_valid data \<and> utf8_valid data"
  by (auto simp: ValidJSON_def ValidJSON_scan_def split: if_splits)

end
