(* ===== verification/Wire.thy ===== *)
theory Wire
  imports Wire_Json
begin

section \<open>Messages, content blocks and their validation\<close>

text \<open>
  sdk/llm/wire: \<open>message.go\<close>, \<open>media.go\<close>, \<open>config.go\<close> and \<open>tool.go\<close>. A Go pointer field is an
  option, a slice a list. The clone functions of the package copy values deeply; values are
  immutable here, so a clone is the value itself and has no definition. \<open>url.Parse\<close> is the
  argument \<open>url\<close>: scheme and host of a URL it accepts.
\<close>

subsection \<open>Media\<close>

record ref_data =
  ref_uri :: string
  ref_media_type :: string
  ref_sha256 :: string
  ref_bytes :: int
  ref_processing :: string

record media_operation =
  mo_kind :: string
  mo_description :: string
  mo_input_sha256 :: string
  mo_output_sha256 :: string
  mo_frame_times :: "int list"
  mo_parameters :: string

record media_provenance =
  pv_original :: ref_data
  pv_operations :: "media_operation list"
  pv_description :: string

record media_payload =
  mp_media_type :: string
  mp_data :: string
  mp_url :: string
  mp_provenance :: "media_provenance option"

record image =
  im_payload :: media_payload
  im_detail :: string
  im_width :: int
  im_height :: int

record audio =
  au_payload :: media_payload
  au_duration :: int
  au_transcript :: string

record video_frame =
  vf_timestamp :: int
  vf_image :: image

record video =
  vi_payload :: "media_payload option"
  vi_duration :: int
  vi_frames :: "video_frame list"

type_synonym url_parser = "string \<Rightarrow> (string \<times> string) option"

text \<open>The first error of a loop that returns it.\<close>

fun first_err :: "('a \<Rightarrow> go_error option) \<Rightarrow> 'a list \<Rightarrow> go_error option" where
  "first_err f [] = None"
| "first_err f (x # xs) = (case f x of Some e \<Rightarrow> Some e | None \<Rightarrow> first_err f xs)"

lemma first_err_cong [fundef_cong]:
  "xs = ys \<Longrightarrow> (\<And>x. x \<in> set ys \<Longrightarrow> f x = g x) \<Longrightarrow> first_err f xs = first_err g ys"
  by (induction ys arbitrary: xs) (auto split: option.splits)

lemma first_err_None [simp]: "first_err f xs = None \<longleftrightarrow> (\<forall>x \<in> set xs. f x = None)"
  by (induction xs) (auto split: option.splits)

definition reference_validate :: "ref_data \<Rightarrow> go_error option" where
  "reference_validate r =
     (if ref_uri r = [] \<or> ref_bytes r < 0 \<or>
         \<not> validStrings [ref_uri r, ref_media_type r, ref_sha256 r, ref_processing r]
      then Some (ErrNew ''invalid reference metadata'') else None)"

definition operation_validate :: "media_operation \<Rightarrow> go_error option" where
  "operation_validate m =
     (if mo_kind m = [] \<or> mo_description m = [] \<or>
         \<not> validStrings [mo_kind m, mo_description m, mo_input_sha256 m, mo_output_sha256 m] \<or>
         (mo_parameters m \<noteq> [] \<and> \<not> ValidJSON (mo_parameters m))
      then Some (ErrNew ''invalid media operation'')
      else if list_ex (\<lambda>t. t < 0) (mo_frame_times m)
      then Some (ErrNew ''negative extracted frame time'') else None)"

definition payload_validate :: "url_parser \<Rightarrow> media_payload \<Rightarrow> go_error option" where
  "payload_validate url p =
     (if \<not> validStrings [mp_media_type p, mp_url p] then Some (ErrNew ''media metadata is not valid UTF-8'')
      else if mp_media_type p = [] \<or> (mp_data p = []) = (mp_url p = [])
      then Some (ErrNew ''media requires media type and exactly one explicit bytes or URL delivery source'')
      else if mp_url p \<noteq> [] \<and>
        (case url (mp_url p) of None \<Rightarrow> True | Some (scheme, host) \<Rightarrow> host = [] \<or> (scheme \<noteq> ''http'' \<and> scheme \<noteq> ''https''))
      then Some (ErrNew ''media URL must be explicit HTTP(S)'')
      else (case mp_provenance p of
          None \<Rightarrow> None
        | Some pv \<Rightarrow>
            if reference_validate (pv_original pv) \<noteq> None \<or> pv_description pv = [] \<or> \<not> validStrings [pv_description pv]
            then Some (ErrNew ''media provenance requires original reference and honest description'')
            else first_err operation_validate (pv_operations pv)))"

definition image_validate :: "url_parser \<Rightarrow> image \<Rightarrow> go_error option" where
  "image_validate url i =
     (if \<not> HasPrefix (mp_media_type (im_payload i)) ''image/'' then Some (ErrNew ''image media type required'')
      else if im_width i < 0 \<or> im_height i < 0 then Some (ErrNew ''negative image dimensions'')
      else if im_detail i \<notin> set [[], ''auto'', ''low'', ''high'', ''original''] then Some (ErrNew ''unknown image detail'')
      else payload_validate url (im_payload i))"

definition audio_validate :: "url_parser \<Rightarrow> audio \<Rightarrow> go_error option" where
  "audio_validate url a =
     (if \<not> validStrings [au_transcript a] then Some (ErrNew ''audio transcript is not valid UTF-8'')
      else if \<not> HasPrefix (mp_media_type (au_payload a)) ''audio/'' then Some (ErrNew ''audio media type required'')
      else if au_duration a < 0 then Some (ErrNew ''negative audio duration'')
      else payload_validate url (au_payload a))"

text \<open>The frame loop of \<open>Video.Validate\<close>, with \<open>previous\<close> carried along.\<close>

fun frames_validate :: "url_parser \<Rightarrow> int \<Rightarrow> int \<Rightarrow> video_frame list \<Rightarrow> go_error option" where
  "frames_validate url duration previous [] = None"
| "frames_validate url duration previous (f # fs) =
     (if vf_timestamp f < 0 \<or> vf_timestamp f < previous \<or> (duration > 0 \<and> vf_timestamp f > duration)
      then Some (ErrNew ''video frames must be ordered within source duration'')
      else (case image_validate url (vf_image f) of
          Some e \<Rightarrow> Some e
        | None \<Rightarrow> frames_validate url duration (vf_timestamp f) fs))"

definition video_validate :: "url_parser \<Rightarrow> video \<Rightarrow> go_error option" where
  "video_validate url v =
     (if vi_duration v < 0 then Some (ErrNew ''negative video duration'')
      else if (vi_payload v = None) = (vi_frames v = [])
      then Some (ErrNew ''video requires exactly one explicit video payload or extracted frames'')
      else (case vi_payload v of
          Some p \<Rightarrow>
            if \<not> HasPrefix (mp_media_type p) ''video/'' then Some (ErrNew ''video media type required'')
            else payload_validate url p
        | None \<Rightarrow> frames_validate url (vi_duration v) (-1) (vi_frames v)))"

subsection \<open>Content blocks\<close>

datatype role = RoleSystem | RoleUser | RoleAssistant | RoleTool | RoleOther string

datatype content_kind =
    ContentText | ContentToolCall | ContentToolResult | ContentReference | ContentReasoning
  | ContentProviderState | ContentRefusal | ContentImage | ContentAudio | ContentVideo
  | ContentOther string

record provider_state =
  ps_provider :: string
  ps_tool_call_id :: string
  ps_data :: string

record tool_call =
  tc_id :: string
  tc_name :: string
  tc_arguments :: string
  tc_provider_state :: "provider_state list"

record reasoning =
  rs_text :: string
  rs_signature :: string
  rs_redacted :: string

datatype content_block =
    ContentBlock (cb_kind: content_kind) (cb_text: string)
      (cb_tool_call: "tool_call option") (cb_tool_result: "tool_result option")
      (cb_reference: "ref_data option") (cb_reasoning: "reasoning option")
      (cb_provider_state: "provider_state option") (cb_refusal: "string option")
      (cb_image: "image option") (cb_audio: "audio option") (cb_video: "video option")
and tool_result = ToolResult (tr_call_id: string) (tr_content: "content_block list") (tr_is_error: bool)

text \<open>Composite literals of the source: every field that is not named is its zero value.\<close>

definition text_block :: "string \<Rightarrow> content_block" where
  "text_block t = ContentBlock ContentText t None None None None None None None None None"

definition tool_call_block :: "tool_call option \<Rightarrow> content_block" where
  "tool_call_block c = ContentBlock ContentToolCall [] c None None None None None None None None"

definition tool_result_block :: "tool_result \<Rightarrow> content_block" where
  "tool_result_block r = ContentBlock ContentToolResult [] None (Some r) None None None None None None None"

fun with_text :: "string \<Rightarrow> content_block \<Rightarrow> content_block" where
  "with_text t (ContentBlock k _ c r rf rs ps rfu im au vi) = ContentBlock k t c r rf rs ps rfu im au vi"

fun with_call_id :: "string \<Rightarrow> tool_result \<Rightarrow> tool_result" where
  "with_call_id i (ToolResult _ c e) = ToolResult i c e"

definition provider_state_validate :: "provider_state \<Rightarrow> go_error option" where
  "provider_state_validate s =
     (if ps_provider s = [] \<or> \<not> validStrings [ps_provider s, ps_tool_call_id s] \<or> \<not> ValidJSON (ps_data s)
      then Some (ErrNew ''invalid provider state'') else None)"

definition some_count :: "bool list \<Rightarrow> nat" where
  "some_count bs = length (filter id bs)"

definition payloads :: "content_block \<Rightarrow> nat" where
  "payloads b = some_count
     [cb_tool_call b \<noteq> None, cb_tool_result b \<noteq> None, cb_reference b \<noteq> None, cb_reasoning b \<noteq> None,
      cb_provider_state b \<noteq> None, cb_refusal b \<noteq> None, cb_image b \<noteq> None, cb_audio b \<noteq> None, cb_video b \<noteq> None]"

text \<open>\<open>validate_tool_call\<close>: the checks of the tool-call case, on the call itself.\<close>

definition validate_tool_call :: "tool_call \<Rightarrow> go_error option" where
  "validate_tool_call c =
     (if tc_id c = [] \<or> tc_name c = [] \<or> \<not> validStrings [tc_id c, tc_name c] \<or> \<not> ValidJSON (tc_arguments c)
      then Some (ErrNew ''invalid tool call block'')
      else first_err provider_state_validate (tc_provider_state c))"

text \<open>
  \<open>ContentBlock.Validate\<close>. A block whose kind selects a payload has exactly that payload and no
  text; \<open>one\<close> is the part of that check every payload kind shares.
\<close>

fun block_validate :: "url_parser \<Rightarrow> content_block \<Rightarrow> go_error option" where
  "block_validate url (ContentBlock k t c r rf rs ps rfu im au vi) =
     (if \<not> validStrings [t] then Some (ErrNew ''content text is not valid UTF-8'')
      else
       (let n = payloads (ContentBlock k t c r rf rs ps rfu im au vi); one = (n = 1 \<and> t = []) in
        case k of
          ContentText \<Rightarrow>
            if n \<noteq> 0 then Some (ErrNew ''text block contains a non-text payload'') else None
        | ContentToolCall \<Rightarrow>
            (case c of
               Some call \<Rightarrow> if one then validate_tool_call call else Some (ErrNew ''invalid tool call block'')
             | None \<Rightarrow> Some (ErrNew ''invalid tool call block''))
        | ContentToolResult \<Rightarrow>
            (case r of
               Some (ToolResult cid content e) \<Rightarrow>
                 if \<not> one \<or> cid = [] \<or> \<not> validStrings [cid] then Some (ErrNew ''invalid tool result block'')
                 else first_err (\<lambda>child.
                   if cb_kind child = ContentToolCall \<or> cb_kind child = ContentToolResult
                   then Some (ErrNew ''nested tool protocol blocks are not allowed'')
                   else block_validate url child) content
             | None \<Rightarrow> Some (ErrNew ''invalid tool result block''))
        | ContentReference \<Rightarrow>
            (case rf of
               Some x \<Rightarrow> if \<not> one \<or> ref_uri x = [] \<or> ref_bytes x < 0 then Some (ErrNew ''invalid reference block'')
                         else reference_validate x
             | None \<Rightarrow> Some (ErrNew ''invalid reference block''))
        | ContentReasoning \<Rightarrow>
            (case rs of
               Some x \<Rightarrow>
                 if \<not> one \<or> (rs_redacted x \<noteq> [] \<and> (rs_text x \<noteq> [] \<or> rs_signature x \<noteq> []))
                 then Some (ErrNew ''invalid reasoning block'')
                 else if \<not> validStrings [rs_text x, rs_signature x, rs_redacted x]
                 then Some (ErrNew ''reasoning is not valid UTF-8'') else None
             | None \<Rightarrow> Some (ErrNew ''invalid reasoning block''))
        | ContentProviderState \<Rightarrow>
            (case ps of
               Some x \<Rightarrow> if one then provider_state_validate x else Some (ErrNew ''invalid provider state block'')
             | None \<Rightarrow> Some (ErrNew ''invalid provider state block''))
        | ContentRefusal \<Rightarrow>
            (case rfu of
               Some x \<Rightarrow>
                 if \<not> one then Some (ErrNew ''invalid refusal block'')
                 else if \<not> validStrings [x] then Some (ErrNew ''refusal is not valid UTF-8'') else None
             | None \<Rightarrow> Some (ErrNew ''invalid refusal block''))
        | ContentImage \<Rightarrow>
            (case im of
               Some x \<Rightarrow> if one then image_validate url x else Some (ErrNew ''invalid image block'')
             | None \<Rightarrow> Some (ErrNew ''invalid image block''))
        | ContentAudio \<Rightarrow>
            (case au of
               Some x \<Rightarrow> if one then audio_validate url x else Some (ErrNew ''invalid audio block'')
             | None \<Rightarrow> Some (ErrNew ''invalid audio block''))
        | ContentVideo \<Rightarrow>
            (case vi of
               Some x \<Rightarrow> if one then video_validate url x else Some (ErrNew ''invalid video block'')
             | None \<Rightarrow> Some (ErrNew ''invalid video block''))
        | ContentOther _ \<Rightarrow> Some (ErrNew ''invalid content kind'')))"

subsection \<open>Messages\<close>

record usage =
  us_input :: nat
  us_output :: nat
  us_cached :: "nat option"
  us_total :: nat
  us_cache_write :: "nat option"
  us_reasoning :: nat

record message =
  m_id :: string
  m_role :: role
  m_content :: "content_block list"
  m_usage :: "usage option"
  m_response_id :: string
  m_finish_reason :: string

definition TextMessage :: "role \<Rightarrow> string \<Rightarrow> message" where
  "TextMessage r t = \<lparr>m_id = [], m_role = r, m_content = [text_block t], m_usage = None,
     m_response_id = [], m_finish_reason = []\<rparr>"

definition message_text :: "message \<Rightarrow> string" where
  "message_text m = concat (map cb_text (filter (\<lambda>b. cb_kind b = ContentText) (m_content m)))"

definition message_validate :: "url_parser \<Rightarrow> message \<Rightarrow> go_error option" where
  "message_validate url m =
     (if \<not> validStrings [m_id m, m_response_id m, m_finish_reason m]
      then Some (ErrNew ''message metadata is not valid UTF-8'')
      else (case m_role m of
          RoleOther _ \<Rightarrow> Some (ErrNew ''invalid message role'')
        | _ \<Rightarrow> first_err (block_validate url) (m_content m)))"

subsection \<open>Tool definitions and which tools a request may name\<close>

record tool_definition =
  td_name :: string
  td_description :: string
  td_parameters :: string

text \<open>A nil allow-list is unrestricted; an empty one permits nothing.\<close>

definition AllowsTool :: "bool \<Rightarrow> string list option \<Rightarrow> string \<Rightarrow> bool" where
  "AllowsTool disable allowed name =
     (if disable then False
      else (case allowed of None \<Rightarrow> True | Some names \<Rightarrow> name \<in> set names))"

datatype reasoning_effort = EffortNone | EffortMinimal | EffortLow | EffortMedium | EffortHigh | EffortXHigh | EffortMax | EffortOther string

fun SuggestedTokenBudget :: "reasoning_effort \<Rightarrow> nat \<times> bool" where
  "SuggestedTokenBudget EffortNone = (0, False)"
| "SuggestedTokenBudget EffortMinimal = (1024, True)"
| "SuggestedTokenBudget EffortLow = (2048, True)"
| "SuggestedTokenBudget EffortMedium = (8192, True)"
| "SuggestedTokenBudget EffortHigh = (16384, True)"
| "SuggestedTokenBudget EffortXHigh = (24576, True)"
| "SuggestedTokenBudget EffortMax = (32768, True)"
| "SuggestedTokenBudget (EffortOther s) = (0, False)"

end
