(* ===== verification/Accumulator.thy ===== *)
theory Accumulator
  imports Wire "HOL-Library.AList"
begin

section \<open>Assembling a model response from its stream\<close>

text \<open>
  sdk/llm/wire/accumulate.go. \<open>Push\<close> consumes one chunk; the first error is kept and returned
  by every later call. \<open>json.Marshal\<close> of a block is the argument \<open>marshal\<close>: every fact here
  holds whatever bytes it produces. The content is either in arrival order (mode 1) or in slots
  keyed by the provider's index (mode 2, an association list for the Go map).
\<close>

datatype chunk_kind = ChunkText | ChunkToolCall | ChunkUsage | ChunkFinish | ChunkContentBlock | ChunkReasoning | ChunkOther string

record stream_chunk =
  ck_kind :: chunk_kind
  ck_index :: "int option"
  ck_text :: string
  ck_tool_call :: "tool_call option"
  ck_usage :: "usage option"
  ck_finish_reason :: string
  ck_block :: "content_block option"
  ck_response_id :: string

definition MaxStreamContentIndex :: int where "MaxStreamContentIndex = 1048576"
definition MaxStreamContentBlocks :: nat where "MaxStreamContentBlocks = 4096"

datatype content_mode = ModeUnknown | ModeArrival | ModeIndexed

record indexed_content =
  ic_block :: content_block
  ic_complete :: bool

record accumulator =
  ac_message :: message
  ac_max :: int
  ac_bytes :: int
  ac_finished :: bool
  ac_calls :: "string list"
  ac_failure :: "go_error option"
  ac_mode :: content_mode
  ac_indexed :: "(int \<times> indexed_content) list"

definition NewStreamAccumulator :: "int \<Rightarrow> accumulator" where
  "NewStreamAccumulator maxBytes =
     \<lparr>ac_message = \<lparr>m_id = [], m_role = RoleAssistant, m_content = [], m_usage = None, m_response_id = [], m_finish_reason = []\<rparr>,
      ac_max = (if maxBytes \<le> 0 then 4194304 else maxBytes), ac_bytes = 0, ac_finished = False,
      ac_calls = [], ac_failure = None, ac_mode = ModeUnknown, ac_indexed = []\<rparr>"

abbreviation limit_err :: "go_error" where
  "limit_err \<equiv> ErrNew ''model response byte limit exceeded''"

definition chunk_mismatch :: "stream_chunk \<Rightarrow> bool" where
  "chunk_mismatch ck =
     ((ck_text ck \<noteq> [] \<and> ck_kind ck \<noteq> ChunkText \<and> ck_kind ck \<noteq> ChunkReasoning) \<or>
      (ck_tool_call ck \<noteq> None \<and> ck_kind ck \<noteq> ChunkToolCall) \<or>
      (ck_block ck \<noteq> None \<and> ck_kind ck \<noteq> ChunkContentBlock) \<or>
      (ck_usage ck \<noteq> None \<and> ck_kind ck \<noteq> ChunkUsage) \<or>
      ((ck_response_id ck \<noteq> [] \<or> ck_finish_reason ck \<noteq> []) \<and> ck_kind ck \<noteq> ChunkFinish))"

text \<open>The switch on the kind: the updated accumulator and the block to store, if any.\<close>

definition select_block :: "accumulator \<Rightarrow> stream_chunk \<Rightarrow> (accumulator \<times> content_block option) result" where
  "select_block a ck =
     (case ck_kind ck of
        ChunkText \<Rightarrow> Inr (a, Some (text_block (ck_text ck)))
      | ChunkToolCall \<Rightarrow> Inr (a, Some (tool_call_block (ck_tool_call ck)))
      | ChunkContentBlock \<Rightarrow>
          (case ck_block ck of
             None \<Rightarrow> Inl (ErrNew ''model content block missing'')
           | Some b \<Rightarrow> Inr (a, Some b))
      | ChunkReasoning \<Rightarrow>
          if int (length (ck_text ck)) > ac_max a - ac_bytes a then Inl limit_err
          else Inr (a\<lparr>ac_bytes := ac_bytes a + int (length (ck_text ck))\<rparr>, None)
      | ChunkUsage \<Rightarrow>
          (case ck_usage ck of
             None \<Rightarrow> Inl (ErrNew ''model usage payload missing'')
           | Some u \<Rightarrow> Inr (a\<lparr>ac_message := (ac_message a)\<lparr>m_usage := Some u\<rparr>\<rparr>, None))
      | ChunkFinish \<Rightarrow>
          (let n = int (length (ck_response_id ck)) + int (length (ck_finish_reason ck)) in
           if n > ac_max a - ac_bytes a then Inl limit_err
           else Inr (a\<lparr>ac_bytes := ac_bytes a + n, ac_finished := True,
                       ac_message := (ac_message a)\<lparr>m_finish_reason := ck_finish_reason ck, m_response_id := ck_response_id ck\<rparr>\<rparr>, None))
      | ChunkOther _ \<Rightarrow> Inl (ErrNew ''unknown stream chunk''))"

text \<open>Slot checks: a response is either indexed or not, and a slot is completed once.\<close>

definition check_slot :: "accumulator \<Rightarrow> stream_chunk \<Rightarrow> accumulator \<times> int option result" where
  "check_slot a ck =
     (case ck_index ck of
        Some index \<Rightarrow>
          if index < 0 \<or> index \<ge> MaxStreamContentIndex then (a, Inl (ErrNew ''stream content index exceeds bounds''))
          else if ac_mode a = ModeArrival then (a, Inl (ErrNew ''model mixed indexed and unindexed content''))
          else (a\<lparr>ac_mode := ModeIndexed\<rparr>,
            (case map_of (ac_indexed a) index of
              Some existing \<Rightarrow>
                if ck_kind ck \<noteq> ChunkText \<or> cb_kind (ic_block existing) \<noteq> ContentText \<or> ic_complete existing
                then Inl (ErrNew ''duplicate or incompatible completed stream content slot'')
                else Inr (Some index)
            | None \<Rightarrow>
                if length (ac_indexed a) \<ge> MaxStreamContentBlocks
                then Inl (ErrNew ''model content block count limit exceeded'')
                else Inr (Some index)))
      | None \<Rightarrow>
          if ac_mode a = ModeIndexed then (a, Inl (ErrNew ''model mixed indexed and unindexed content''))
          else (a\<lparr>ac_mode := ModeArrival\<rparr>, Inr None))"

definition raw_too_large :: "int \<Rightarrow> content_block \<Rightarrow> bool" where
  "raw_too_large remaining b =
     (int (length (cb_text b)) > remaining \<or>
      (case cb_tool_call b of None \<Rightarrow> False | Some c \<Rightarrow> int (length (tc_arguments c)) > remaining) \<or>
      (case cb_reasoning b of None \<Rightarrow> False | Some r \<Rightarrow>
         int (length (rs_text r)) > remaining \<or> int (length (rs_signature r)) > remaining \<or> int (length (rs_redacted r)) > remaining) \<or>
      (case cb_provider_state b of None \<Rightarrow> False | Some s \<Rightarrow> int (length (ps_data s)) > remaining) \<or>
      (case cb_refusal b of None \<Rightarrow> False | Some t \<Rightarrow> int (length t) > remaining))"

definition append_text :: "string \<Rightarrow> content_block \<Rightarrow> content_block" where
  "append_text t b = with_text (cb_text b @ t) b"

definition record_call :: "accumulator \<Rightarrow> content_block \<Rightarrow> accumulator \<times> go_error option" where
  "record_call a b =
     (case cb_tool_call b of
        None \<Rightarrow> (a, None)
      | Some c \<Rightarrow>
          if tc_id c \<in> set (ac_calls a) then (a, Some (ErrNew ''duplicate model tool call''))
          else (a\<lparr>ac_calls := tc_id c # ac_calls a\<rparr>, None))"

definition store_block :: "accumulator \<Rightarrow> chunk_kind \<Rightarrow> int option \<Rightarrow> content_block \<Rightarrow> accumulator \<times> go_error option" where
  "store_block a k slot b =
     (case slot of
        Some index \<Rightarrow>
          (case map_of (ac_indexed a) index of
             Some existing \<Rightarrow>
               (a\<lparr>ac_indexed := AList.update index (existing\<lparr>ic_block := append_text (cb_text b) (ic_block existing)\<rparr>) (ac_indexed a)\<rparr>, None)
           | None \<Rightarrow>
               (a\<lparr>ac_indexed := AList.update index \<lparr>ic_block = b, ic_complete = (k \<noteq> ChunkText)\<rparr> (ac_indexed a)\<rparr>, None))
      | None \<Rightarrow>
          (let content = m_content (ac_message a) in
           if k = ChunkText \<and> content \<noteq> [] \<and> cb_kind (last content) = ContentText
           then (a\<lparr>ac_message := (ac_message a)\<lparr>m_content := butlast content @ [append_text (cb_text b) (last content)]\<rparr>\<rparr>, None)
           else if length content \<ge> MaxStreamContentBlocks
           then (a, Some (ErrNew ''model content block count limit exceeded''))
           else (a\<lparr>ac_message := (ac_message a)\<lparr>m_content := content @ [b]\<rparr>\<rparr>, None)))"

definition push_block :: "url_parser \<Rightarrow> (content_block \<Rightarrow> string result) \<Rightarrow> accumulator \<Rightarrow> stream_chunk \<Rightarrow> content_block \<Rightarrow> accumulator \<times> go_error option" where
  "push_block url marshal a ck b =
     (case block_validate url b of
        Some e \<Rightarrow> (a, Some e)
      | None \<Rightarrow>
          if cb_kind b = ContentToolResult then (a, Some (ErrNew ''model cannot emit tool result''))
          else (case check_slot a ck of
              (a1, Inl e) \<Rightarrow> (a1, Some e)
            | (a1, Inr slot) \<Rightarrow>
                (let remaining = ac_max a1 - ac_bytes a1 in
                 if raw_too_large remaining b then (a1, Some limit_err)
                 else (case record_call a1 b of
                     (a2, Some e) \<Rightarrow> (a2, Some e)
                   | (a2, None) \<Rightarrow>
                       (case marshal b of
                          Inl e \<Rightarrow> (a2, Some e)
                        | Inr encoded \<Rightarrow>
                            if int (length encoded) > remaining then (a2, Some limit_err)
                            else store_block (a2\<lparr>ac_bytes := ac_bytes a2 + int (length encoded)\<rparr>) (ck_kind ck) slot b)))))"

definition push_body :: "url_parser \<Rightarrow> (content_block \<Rightarrow> string result) \<Rightarrow> accumulator \<Rightarrow> stream_chunk \<Rightarrow> accumulator \<times> go_error option" where
  "push_body url marshal a ck =
     (if \<not> validStrings [ck_text ck, ck_response_id ck, ck_finish_reason ck]
      then (a, Some (ErrNew ''stream chunk text is not valid UTF-8''))
      else if chunk_mismatch ck then (a, Some (ErrNew ''stream chunk payload does not match kind''))
      else if ac_finished a \<and> ck_kind ck \<noteq> ChunkUsage then (a, Some (ErrNew ''model emitted content after finish''))
      else (case select_block a ck of
          Inl e \<Rightarrow> (a, Some e)
        | Inr (a1, sel) \<Rightarrow>
            (case (case sel of None \<Rightarrow> (a1, None) | Some b \<Rightarrow> push_block url marshal a1 ck b) of
               (a2, Some e) \<Rightarrow> (a2, Some e)
             | (a2, None) \<Rightarrow> (a2, if ac_bytes a2 > ac_max a2 then Some limit_err else None))))"

definition acc_push :: "url_parser \<Rightarrow> (content_block \<Rightarrow> string result) \<Rightarrow> accumulator \<Rightarrow> stream_chunk \<Rightarrow> accumulator \<times> go_error option" where
  "acc_push url marshal a ck =
     (if ac_failure a \<noteq> None then (a, ac_failure a)
      else (case push_body url marshal a ck of
          (a1, None) \<Rightarrow> (a1, None)
        | (a1, Some e) \<Rightarrow> (a1\<lparr>ac_failure := Some e\<rparr>, Some e)))"

definition acc_snapshot :: "accumulator \<Rightarrow> message" where
  "acc_snapshot a =
     (if ac_mode a = ModeIndexed
      then (ac_message a)\<lparr>m_content := map (ic_block \<circ> snd) (sort_key fst (ac_indexed a))\<rparr>
      else ac_message a)"

definition acc_finish :: "accumulator \<Rightarrow> message \<times> go_error option" where
  "acc_finish a =
     (if ac_failure a \<noteq> None then (acc_snapshot a, ac_failure a)
      else if \<not> ac_finished a then (acc_snapshot a, Some (ErrNew ''model stream ended without finish''))
      else (acc_snapshot a, None))"

definition acc_run :: "url_parser \<Rightarrow> (content_block \<Rightarrow> string result) \<Rightarrow> int \<Rightarrow> stream_chunk list \<Rightarrow> accumulator" where
  "acc_run url marshal maxBytes chunks =
     foldl (\<lambda>a ck. fst (acc_push url marshal a ck)) (NewStreamAccumulator maxBytes) chunks"

subsection \<open>The loop's own check of the response (responseCalls of sdk/kernel/core/loop.go)\<close>

fun collect_calls :: "string list \<Rightarrow> content_block list \<Rightarrow> tool_call list result" where
  "collect_calls seen [] = Inr []"
| "collect_calls seen (b # bs) =
     (case (cb_kind b, cb_tool_call b) of
        (ContentToolCall, Some c) \<Rightarrow>
          if tc_id c \<in> set seen then Inl (ErrNew ''duplicate modified tool call'')
          else (case collect_calls (tc_id c # seen) bs of Inl e \<Rightarrow> Inl e | Inr cs \<Rightarrow> Inr (c # cs))
      | _ \<Rightarrow> collect_calls seen bs)"

definition responseCalls :: "url_parser \<Rightarrow> message \<Rightarrow> tool_call list result" where
  "responseCalls url m =
     (if m_role m \<noteq> RoleAssistant then Inl (ErrNew ''model response role must be assistant'')
      else if length (m_content m) > MaxStreamContentBlocks
      then Inl (ErrNew ''modified model content block count limit exceeded'')
      else (case message_validate url m of
          Some e \<Rightarrow> Inl e
        | None \<Rightarrow> collect_calls [] (m_content m)))"

subsection \<open>Facts about single blocks\<close>

text \<open>A block that validates carries exactly the payload its kind names.\<close>

lemma some_count_0: "some_count bs = 0 \<longleftrightarrow> True \<notin> set bs"
  by (auto simp: some_count_def filter_empty_conv)

lemma valid_text_block: "block_validate url b = None \<Longrightarrow> cb_kind b = ContentText \<Longrightarrow> payloads b = 0"
  by (cases b) (auto simp: Let_def split: if_splits)

lemma payloads_0_no_call: "payloads b = 0 \<Longrightarrow> cb_tool_call b = None"
  by (auto simp: payloads_def some_count_0)

lemma valid_call_kind:
  assumes "block_validate url b = None" "cb_tool_call b = Some c"
  shows "cb_kind b = ContentToolCall"
proof (rule ccontr)
  assume k: "cb_kind b \<noteq> ContentToolCall"
  have one: "payloads b = 1" if "cb_kind b \<noteq> ContentText"
    using assms(1) that by (cases b) (auto simp: Let_def split: content_kind.splits option.splits tool_result.splits if_splits)
  have other: "cb_tool_result b \<noteq> None \<or> cb_reference b \<noteq> None \<or> cb_reasoning b \<noteq> None \<or> cb_provider_state b \<noteq> None \<or>
      cb_refusal b \<noteq> None \<or> cb_image b \<noteq> None \<or> cb_audio b \<noteq> None \<or> cb_video b \<noteq> None" if "cb_kind b \<noteq> ContentText"
    using assms(1) that k by (cases b) (auto simp: Let_def split: content_kind.splits option.splits tool_result.splits if_splits)
  show False
  proof (cases "cb_kind b = ContentText")
    case True
    with valid_text_block [OF assms(1)] payloads_0_no_call assms(2) show False by auto
  next
    case False
    with one other assms(2) show False by (auto simp: payloads_def some_count_def split: if_splits)
  qed
qed

lemma append_text_fields [simp]:
  "cb_kind (append_text t b) = cb_kind b" "cb_tool_call (append_text t b) = cb_tool_call b"
  by (cases b; simp add: append_text_def)+

lemma valid_append_text:
  "block_validate url b = None \<Longrightarrow> cb_kind b = ContentText \<Longrightarrow> utf8_valid t \<Longrightarrow> block_validate url (append_text t b) = None"
  by (cases b) (auto simp: append_text_def Let_def validStrings_def payloads_def utf8_valid_append split: if_splits)

subsection \<open>The accumulator's invariant\<close>

definition block_ok :: "url_parser \<Rightarrow> content_block \<Rightarrow> bool" where
  "block_ok url b = (block_validate url b = None \<and> cb_kind b \<noteq> ContentToolResult)"

definition call_ids :: "content_block list \<Rightarrow> string list" where
  "call_ids bs = List.map_filter (\<lambda>b. map_option tc_id (cb_tool_call b)) bs"

definition slots :: "(int \<times> indexed_content) list \<Rightarrow> content_block list" where
  "slots = map (ic_block \<circ> snd)"

definition stored :: "accumulator \<Rightarrow> content_block list" where
  "stored a = m_content (ac_message a) @ slots (ac_indexed a)"

definition acc_inv :: "url_parser \<Rightarrow> accumulator \<Rightarrow> bool" where
  "acc_inv url a =
     (0 \<le> ac_bytes a \<and> ac_bytes a \<le> ac_max a \<and>
      m_role (ac_message a) = RoleAssistant \<and> m_id (ac_message a) = [] \<and>
      validStrings [m_response_id (ac_message a), m_finish_reason (ac_message a)] \<and>
      (ac_mode a = ModeIndexed \<or> ac_indexed a = []) \<and>
      (ac_mode a = ModeArrival \<or> m_content (ac_message a) = []) \<and>
      length (m_content (ac_message a)) \<le> MaxStreamContentBlocks \<and>
      length (ac_indexed a) \<le> MaxStreamContentBlocks \<and>
      distinct (map fst (ac_indexed a)) \<and>
      (\<forall>b \<in> set (stored a). block_ok url b) \<and>
      distinct (call_ids (stored a)) \<and> set (call_ids (stored a)) \<subseteq> set (ac_calls a))"

lemma call_ids_simps [simp]:
  "call_ids [] = []" "call_ids (xs @ ys) = call_ids xs @ call_ids ys"
  "call_ids (b # bs) = (case cb_tool_call b of None \<Rightarrow> call_ids bs | Some c \<Rightarrow> tc_id c # call_ids bs)"
  by (auto simp: call_ids_def List.map_filter_def split: option.splits)

lemma slots_simps [simp]: "slots [] = []" "slots (xs @ ys) = slots xs @ slots ys" "slots (x # xs) = ic_block (snd x) # slots xs"
  by (simp_all add: slots_def)

lemma mset_call_ids: "mset xs = mset ys \<Longrightarrow> mset (call_ids xs) = mset (call_ids ys)"
proof (induction xs arbitrary: ys)
  case (Cons x xs)
  then have "x \<in> set ys" by (metis list.set_intros(1) mset_eq_setD)
  then obtain as bs where ys: "ys = as @ x # bs" by (auto dest: split_list)
  with Cons.prems have "mset xs = mset (as @ bs)" by simp
  from Cons.IH [OF this] ys show ?case by (simp split: option.splits)
qed simp

lemma update_fresh: "map_of al k = None \<Longrightarrow> AList.update k v al = al @ [(k, v)]"
  by (induction al) (auto split: if_splits)

lemma slots_update:
  "map_of al k = Some e \<Longrightarrow> cb_tool_call (ic_block v) = cb_tool_call (ic_block e) \<Longrightarrow>
     call_ids (slots (AList.update k v al)) = call_ids (slots al)"
  by (induction al) (auto split: if_splits option.splits)

lemma length_update_old: "map_of al k = Some e \<Longrightarrow> length (AList.update k v al) = length al"
  by (induction al) auto

lemma set_slots_update: "b \<in> set (slots (AList.update k v al)) \<Longrightarrow> b = ic_block v \<or> b \<in> set (slots al)"
  by (induction al) (auto split: if_splits)

lemma map_of_slots: "map_of al k = Some e \<Longrightarrow> ic_block e \<in> set (slots al)"
  by (induction al) (auto split: if_splits)

lemma acc_inv_new: "acc_inv url (NewStreamAccumulator n)"
  by (simp add: acc_inv_def NewStreamAccumulator_def stored_def MaxStreamContentBlocks_def validStrings_def utf8_valid_def)

lemma select_block_inv:
  assumes "acc_inv url a" "select_block a ck = Inr (a1, sel)"
    and "validStrings [ck_text ck, ck_response_id ck, ck_finish_reason ck]"
  shows "acc_inv url a1"
proof (cases "ck_kind ck")
  case ChunkFinish
  with assms show ?thesis
    by (simp add: select_block_def Let_def acc_inv_def stored_def validStrings_def split: if_splits) auto
next
  case ChunkReasoning
  with assms show ?thesis
    by (simp add: select_block_def acc_inv_def stored_def split: if_splits) auto
next
  case ChunkUsage
  with assms show ?thesis
    by (simp add: select_block_def acc_inv_def stored_def split: option.splits) auto
qed (use assms in \<open>auto simp: select_block_def split: option.splits\<close>)

lemma check_slot_modes:
  assumes "check_slot a ck = (a1, r)"
  shows "a1 = a \<or> (a1 = a\<lparr>ac_mode := ModeIndexed\<rparr> \<and> ac_mode a \<noteq> ModeArrival) \<or>
     (a1 = a\<lparr>ac_mode := ModeArrival\<rparr> \<and> ac_mode a \<noteq> ModeIndexed)"
  using assms by (simp add: check_slot_def split: option.splits if_splits)

lemma check_slot_inv:
  assumes "acc_inv url a" "check_slot a ck = (a1, r)"
  shows "acc_inv url a1"
  using check_slot_modes [OF assms(2)] assms(1)
  by (elim disjE) (simp_all add: acc_inv_def stored_def)

lemma check_slot_ok:
  assumes "acc_inv url a" "check_slot a ck = (a1, Inr slot)"
  shows "case slot of None \<Rightarrow> ac_mode a1 = ModeArrival
    | Some i \<Rightarrow> ac_mode a1 = ModeIndexed \<and>
        (case map_of (ac_indexed a1) i of
           None \<Rightarrow> length (ac_indexed a1) < MaxStreamContentBlocks
         | Some e \<Rightarrow> ck_kind ck = ChunkText \<and> cb_kind (ic_block e) = ContentText)"
  using assms(2) by (auto simp: check_slot_def split: option.splits if_splits)

lemma record_call_inv:
  assumes "acc_inv url a" "record_call a b = (a1, e)"
  shows "acc_inv url a1 \<and> ac_mode a1 = ac_mode a \<and> ac_indexed a1 = ac_indexed a \<and> ac_max a1 = ac_max a \<and> ac_bytes a1 = ac_bytes a"
  using assms by (auto simp: record_call_def acc_inv_def stored_def split: option.splits if_splits)

text \<open>After \<open>record_call\<close> the identifier of the new block is registered and stored nowhere.\<close>

lemma record_call_fresh:
  assumes "acc_inv url a" "record_call a b = (a1, None)"
  shows "\<forall>c. cb_tool_call b = Some c \<longrightarrow> tc_id c \<in> set (ac_calls a1) \<and> tc_id c \<notin> set (call_ids (stored a1))"
  using assms by (auto simp: record_call_def acc_inv_def stored_def split: option.splits if_splits)

text \<open>Storing a block: its own block must be valid, its call identifier new.\<close>

lemma acc_inv_store:
  assumes "acc_inv url a" "block_ok url b"
    and "\<forall>c. cb_tool_call b = Some c \<longrightarrow> tc_id c \<in> set (ac_calls a) \<and> tc_id c \<notin> set (call_ids (stored a))"
  shows "ac_mode a = ModeArrival \<Longrightarrow> length (m_content (ac_message a)) < MaxStreamContentBlocks \<Longrightarrow>
      acc_inv url (a\<lparr>ac_message := (ac_message a)\<lparr>m_content := m_content (ac_message a) @ [b]\<rparr>\<rparr>)"
    and "ac_mode a = ModeIndexed \<Longrightarrow> map_of (ac_indexed a) i = None \<Longrightarrow> length (ac_indexed a) < MaxStreamContentBlocks \<Longrightarrow>
      acc_inv url (a\<lparr>ac_indexed := AList.update i \<lparr>ic_block = b, ic_complete = cpl\<rparr> (ac_indexed a)\<rparr>)"
proof -
  show "acc_inv url (a\<lparr>ac_message := (ac_message a)\<lparr>m_content := m_content (ac_message a) @ [b]\<rparr>\<rparr>)"
    if "ac_mode a = ModeArrival" "length (m_content (ac_message a)) < MaxStreamContentBlocks"
    using assms that by (cases "cb_tool_call b") (auto simp: acc_inv_def stored_def)
next
  assume i: "ac_mode a = ModeIndexed" "map_of (ac_indexed a) i = None" "length (ac_indexed a) < MaxStreamContentBlocks"
  then have "i \<notin> set (map fst (ac_indexed a))" by (simp add: map_of_eq_None_iff)
  with assms i show "acc_inv url (a\<lparr>ac_indexed := AList.update i \<lparr>ic_block = b, ic_complete = cpl\<rparr> (ac_indexed a)\<rparr>)"
    by (cases "cb_tool_call b") (auto simp: acc_inv_def stored_def update_fresh)
qed

lemma block_ok_append:
  assumes "block_ok url b" "cb_kind b = ContentText" "utf8_valid t"
  shows "block_ok url (append_text t b)"
  using assms by (simp add: block_ok_def valid_append_text)

lemma acc_inv_append_slot:
  assumes inv: "acc_inv url a" and m: "ac_mode a = ModeIndexed"
    and e: "map_of (ac_indexed a) i = Some e" "cb_kind (ic_block e) = ContentText" and t: "utf8_valid t"
  shows "acc_inv url (a\<lparr>ac_indexed := AList.update i (e\<lparr>ic_block := append_text t (ic_block e)\<rparr>) (ac_indexed a)\<rparr>)"
proof -
  have ok: "block_ok url (append_text t (ic_block e))"
    using inv e t map_of_slots [OF e(1)] by (intro block_ok_append) (auto simp: acc_inv_def stored_def)
  have keys: "map fst (AList.update i v (ac_indexed a)) = map fst (ac_indexed a)" for v
    using e(1) map_of_eq_None_iff [of "ac_indexed a" i] by (simp add: update_keys)
  have "call_ids (slots (AList.update i (e\<lparr>ic_block := append_text t (ic_block e)\<rparr>) (ac_indexed a))) = call_ids (slots (ac_indexed a))"
    by (rule slots_update [OF e(1)]) simp
  then show ?thesis
    using inv ok m length_update_old [OF e(1)] keys
    unfolding acc_inv_def stored_def
    by (auto dest!: set_slots_update)
qed

lemma acc_inv_append_last:
  assumes inv: "acc_inv url a" and m: "ac_mode a = ModeArrival"
    and ne: "m_content (ac_message a) \<noteq> []" "cb_kind (last (m_content (ac_message a))) = ContentText" and t: "utf8_valid t"
  shows "acc_inv url (a\<lparr>ac_message := (ac_message a)\<lparr>m_content :=
     butlast (m_content (ac_message a)) @ [append_text t (last (m_content (ac_message a)))]\<rparr>\<rparr>)"
proof -
  obtain xs b where c: "m_content (ac_message a) = xs @ [b]" using ne(1) by (cases "m_content (ac_message a)" rule: rev_cases) auto
  have b: "block_ok url b" "cb_kind b = ContentText" using inv ne c by (auto simp: acc_inv_def stored_def)
  show ?thesis
    using inv m c block_ok_append [OF b t] by (cases "cb_tool_call b") (auto simp: acc_inv_def stored_def)
qed

lemma store_block_inv:
  assumes inv: "acc_inv url a" and ok: "block_ok url b"
    and fresh: "\<forall>c. cb_tool_call b = Some c \<longrightarrow> tc_id c \<in> set (ac_calls a) \<and> tc_id c \<notin> set (call_ids (stored a))"
    and slot: "case slot of None \<Rightarrow> ac_mode a = ModeArrival
      | Some i \<Rightarrow> ac_mode a = ModeIndexed \<and>
          (case map_of (ac_indexed a) i of
             None \<Rightarrow> length (ac_indexed a) < MaxStreamContentBlocks
           | Some e \<Rightarrow> k = ChunkText \<and> cb_kind (ic_block e) = ContentText)"
  shows "acc_inv url (fst (store_block a k slot b))"
proof -
  have t: "utf8_valid (cb_text b)"
    using ok by (cases b) (auto simp: block_ok_def validStrings_def split: if_splits)
  show ?thesis
  proof (cases slot)
    case None
    then show ?thesis
      using slot inv acc_inv_store(1) [OF inv ok fresh] acc_inv_append_last [OF inv _ _ _ t]
      by (auto simp: store_block_def Let_def not_le)
  next
    case (Some i)
    then show ?thesis
      using slot acc_inv_store(2) [OF inv ok fresh] acc_inv_append_slot [OF inv _ _ _ t]
      by (cases "map_of (ac_indexed a) i") (auto simp: store_block_def)
  qed
qed

lemma acc_inv_bytes:
  "acc_inv url a \<Longrightarrow> 0 \<le> k \<Longrightarrow> k \<le> ac_max a - ac_bytes a \<Longrightarrow> acc_inv url (a\<lparr>ac_bytes := ac_bytes a + k\<rparr>)"
  by (simp add: acc_inv_def stored_def)

lemma acc_inv_failure [simp]: "acc_inv url (a\<lparr>ac_failure := e\<rparr>) = acc_inv url a"
  by (simp add: acc_inv_def stored_def)

lemma push_block_inv:
  assumes inv: "acc_inv url a"
  shows "acc_inv url (fst (push_block url marshal a ck b))"
proof (cases "block_validate url b = None \<and> cb_kind b \<noteq> ContentToolResult")
  case False
  with inv show ?thesis by (auto simp: push_block_def split: option.splits)
next
  case ok: True
  then have bok: "block_ok url b" by (simp add: block_ok_def)
  obtain a1 r where cs: "check_slot a ck = (a1, r)" by fastforce
  note inv1 = check_slot_inv [OF inv cs]
  show ?thesis
  proof (cases "(\<exists>slot. r = Inr slot) \<and> \<not> raw_too_large (ac_max a1 - ac_bytes a1) b")
    case False
    with ok cs inv1 show ?thesis by (cases r) (auto simp: push_block_def Let_def)
  next
    case True
    then obtain slot where r: "r = Inr slot" and raw: "\<not> raw_too_large (ac_max a1 - ac_bytes a1) b" by blast
    obtain a2 e where rc: "record_call a1 b = (a2, e)" by fastforce
    note inv2 = record_call_inv [OF inv1 rc]
    show ?thesis
    proof (cases "e = None \<and> (\<exists>enc. marshal b = Inr enc \<and> int (length enc) \<le> ac_max a1 - ac_bytes a1)")
      case False
      with ok cs r raw rc inv2 show ?thesis
        by (cases e; cases "marshal b") (auto simp: push_block_def Let_def)
    next
      case True
      then obtain enc where e: "e = None" and enc: "marshal b = Inr enc" "int (length enc) \<le> ac_max a1 - ac_bytes a1" by blast
      define a3 where "a3 = a2\<lparr>ac_bytes := ac_bytes a2 + int (length enc)\<rparr>"
      have inv3: "acc_inv url a3" using inv2 enc(2) unfolding a3_def by (intro acc_inv_bytes) simp_all
      have same: "stored a3 = stored a2" "ac_calls a3 = ac_calls a2" "ac_mode a3 = ac_mode a1" "ac_indexed a3 = ac_indexed a1"
        using inv2 by (simp_all add: a3_def stored_def)
      have "acc_inv url (fst (store_block a3 (ck_kind ck) slot b))"
        using record_call_fresh [OF inv1 rc [unfolded e]] check_slot_ok [OF inv cs [unfolded r]]
        by (intro store_block_inv [OF inv3 bok]) (simp_all only: same)
      moreover have "push_block url marshal a ck b = store_block a3 (ck_kind ck) slot b"
        using ok cs r raw rc e enc by (simp add: push_block_def Let_def a3_def)
      ultimately show ?thesis by simp
    qed
  qed
qed

lemma push_body_inv: "acc_inv url a \<Longrightarrow> acc_inv url (fst (push_body url marshal a ck))"
proof (cases "validStrings [ck_text ck, ck_response_id ck, ck_finish_reason ck] \<and> \<not> chunk_mismatch ck \<and> \<not> (ac_finished a \<and> ck_kind ck \<noteq> ChunkUsage)")
  case False
  moreover assume "acc_inv url a"
  ultimately show ?thesis by (auto simp: push_body_def)
next
  case ok: True
  assume inv: "acc_inv url a"
  show ?thesis
  proof (cases "select_block a ck")
    case (Inl e)
    with ok inv show ?thesis by (simp add: push_body_def)
  next
    case (Inr p)
    obtain a1 sel where p: "p = (a1, sel)" by fastforce
    have inv1: "acc_inv url a1"
      by (rule select_block_inv [OF inv Inr [unfolded p] conjunct1 [OF ok]])
    then have "acc_inv url (fst (case sel of None \<Rightarrow> (a1, None) | Some b \<Rightarrow> push_block url marshal a1 ck b))"
      using push_block_inv by (cases sel) auto
    moreover obtain a2 e where "(case sel of None \<Rightarrow> (a1, None) | Some b \<Rightarrow> push_block url marshal a1 ck b) = (a2, e)"
      by (cases "case sel of None \<Rightarrow> (a1, None) | Some b \<Rightarrow> push_block url marshal a1 ck b")
    ultimately show ?thesis using ok Inr p inv by (cases e) (simp_all add: push_body_def)
  qed
qed

lemma acc_push_inv [alva_inv]: "acc_inv url a \<Longrightarrow> acc_inv url (fst (acc_push url marshal a ck))"
proof (cases "ac_failure a")
  case None
  assume "acc_inv url a"
  then have "acc_inv url (fst (push_body url marshal a ck))" by (rule push_body_inv)
  with None show ?thesis
    by (cases "push_body url marshal a ck"; cases "snd (push_body url marshal a ck)") (simp_all add: acc_push_def)
qed (simp add: acc_push_def)

lemma acc_fold_inv: "acc_inv url a \<Longrightarrow> acc_inv url (foldl (\<lambda>a ck. fst (acc_push url marshal a ck)) a chunks)"
  by (induction chunks arbitrary: a) (auto intro: acc_push_inv)

lemma acc_run_inv: "acc_inv url (acc_run url marshal n chunks)"
  unfolding acc_run_def by (intro acc_fold_inv acc_inv_new)

text \<open>The snapshot holds the stored blocks, in slot order when the response is indexed.\<close>

lemma snapshot_stored:
  assumes "acc_inv url a"
  shows "mset (m_content (acc_snapshot a)) = mset (stored a)"
  using assms by (auto simp: acc_snapshot_def acc_inv_def stored_def slots_def)

lemma snapshot_length: "acc_inv url a \<Longrightarrow> length (m_content (acc_snapshot a)) \<le> MaxStreamContentBlocks"
  by (auto simp: acc_snapshot_def acc_inv_def)

lemma snapshot_blocks: "acc_inv url a \<Longrightarrow> list_all (block_ok url) (m_content (acc_snapshot a))"
  using mset_eq_setD [OF snapshot_stored] by (fastforce simp: acc_inv_def list_all_iff)

lemma snapshot_calls: "acc_inv url a \<Longrightarrow> distinct (call_ids (m_content (acc_snapshot a)))"
  using mset_call_ids [OF snapshot_stored [of url a]] mset_eq_imp_distinct_iff by (auto simp: acc_inv_def)

lemma snapshot_meta:
  "m_role (acc_snapshot a) = m_role (ac_message a)" "m_id (acc_snapshot a) = m_id (ac_message a)"
  "m_response_id (acc_snapshot a) = m_response_id (ac_message a)" "m_finish_reason (acc_snapshot a) = m_finish_reason (ac_message a)"
  by (simp_all add: acc_snapshot_def)

lemma snapshot_valid: "acc_inv url a \<Longrightarrow> message_validate url (acc_snapshot a) = None"
  using snapshot_blocks [of url a]
  by (auto simp: message_validate_def snapshot_meta acc_inv_def validStrings_def list_all_iff block_ok_def utf8_valid_def)

lemma collect_calls_ok:
  "list_all (block_ok url) bs \<Longrightarrow> distinct (call_ids bs) \<Longrightarrow> set (call_ids bs) \<inter> set seen = {} \<Longrightarrow>
     \<exists>cs. collect_calls seen bs = Inr cs \<and> map tc_id cs = call_ids bs"
proof (induction bs arbitrary: seen)
  case (Cons b bs)
  show ?case
  proof (cases "cb_tool_call b")
    case None
    with Cons.prems have "\<exists>cs. collect_calls seen bs = Inr cs \<and> map tc_id cs = call_ids bs"
      by (intro Cons.IH) auto
    with None show ?thesis by (auto split: content_kind.splits)
  next
    case (Some c)
    then have k: "cb_kind b = ContentToolCall" using Cons.prems(1) valid_call_kind by (auto simp: block_ok_def)
    have "\<exists>cs. collect_calls (tc_id c # seen) bs = Inr cs \<and> map tc_id cs = call_ids bs"
      using Cons.prems Some by (intro Cons.IH) auto
    with k Some Cons.prems(3) show ?thesis by auto
  qed
qed simp

text \<open>
  Whatever chunks a provider streams, in whatever order, the assembled message stays within
  the byte budget and the 4096-block limit, is an assistant message that passes its own
  validation, contains no tool result, and never repeats a tool-call identifier. This holds for
  partial responses and after a failure too, and whatever json.Marshal returns for a block.
\<close>

theorem stream_snapshot_bounded:
  "let a = acc_run url marshal n chunks; m = acc_snapshot a in
     0 \<le> ac_bytes a \<and> ac_bytes a \<le> ac_max a \<and> length (m_content m) \<le> 4096 \<and>
     m_role m = RoleAssistant \<and> message_validate url m = None \<and>
     list_all (\<lambda>b. cb_kind b \<noteq> ContentToolResult) (m_content m) \<and> distinct (call_ids (m_content m))"
proof -
  note inv = acc_run_inv [of url marshal n chunks]
  have "list_all (\<lambda>b. cb_kind b \<noteq> ContentToolResult) (m_content (acc_snapshot (acc_run url marshal n chunks)))"
    using snapshot_blocks [OF inv] by (auto simp: list_all_iff block_ok_def)
  with inv snapshot_length [OF inv] snapshot_valid [OF inv] snapshot_calls [OF inv] show ?thesis
    by (simp add: Let_def snapshot_meta acc_inv_def MaxStreamContentBlocks_def)
qed


text \<open>A witness: a text chunk, then the finish chunk.\<close>

definition text_chunk :: "string \<Rightarrow> stream_chunk" where
  "text_chunk t = \<lparr>ck_kind = ChunkText, ck_index = None, ck_text = t, ck_tool_call = None, ck_usage = None,
     ck_finish_reason = [], ck_block = None, ck_response_id = []\<rparr>"

definition finish_chunk :: "string \<Rightarrow> stream_chunk" where
  "finish_chunk r = \<lparr>ck_kind = ChunkFinish, ck_index = None, ck_text = [], ck_tool_call = None, ck_usage = None,
     ck_finish_reason = r, ck_block = None, ck_response_id = []\<rparr>"

lemma acc_example:
  "acc_finish (acc_run (\<lambda>_. None) (\<lambda>_. Inr ''{}'') 100 [text_chunk ''hi'', text_chunk ''!'', finish_chunk ''stop'']) =
     (\<lparr>m_id = [], m_role = RoleAssistant, m_content = [text_block ''hi!''], m_usage = None,
        m_response_id = [], m_finish_reason = ''stop''\<rparr>, None)"
  by code_simp


end
