(* ===== verification/Records.thy ===== *)
theory Records
  imports Wire Scheduling
begin

section \<open>Session records: intents, outcomes and their validation\<close>

text \<open>
  sdk/kernel/abi/contracts.go (record types) and records.go. A record carries exactly one
  payload, chosen by its kind; \<open>sr_sequence\<close>, \<open>sr_id\<close> and \<open>sr_time\<close> belong to the store.
  Sequence and schema version are naturals for the unsigned integers of the source, and the
  time is the integer of its instant. \<open>CloneRecords\<close> copies deeply and has no counterpart.
\<close>

datatype effect_kind = EffectRead | EffectWrite | EffectExecute | EffectNetwork | EffectUnknown | EffectOther string

record effect =
  ef_kind :: effect_kind
  ef_description :: string
  ef_resources :: "resource_claim list"

datatype record_kind =
    RecordConversation | RecordModelIntent | RecordModelOutcome | RecordToolIntent | RecordToolOutcome
  | RecordExtension | RecordOther string

text \<open>\<open>string(kind)\<close>\<close>

fun kind_name :: "record_kind \<Rightarrow> string" where
  "kind_name RecordConversation = ''conversation''"
| "kind_name RecordModelIntent = ''model_intent''"
| "kind_name RecordModelOutcome = ''model_outcome''"
| "kind_name RecordToolIntent = ''tool_intent''"
| "kind_name RecordToolOutcome = ''tool_outcome''"
| "kind_name RecordExtension = ''extension''"
| "kind_name (RecordOther s) = s"

record model_intent =
  mi_request_id :: string

record model_outcome =
  mo_request_id :: string
  mo_status :: outcome_status
  mo_error :: string
  mo_usage :: "usage option"

record tool_intent =
  ti_run_id :: string
  ti_call :: tool_call
  ti_declared_call :: "tool_call option"
  ti_no_side_effect :: bool
  ti_effect :: effect
  ti_scheduling :: scheduling
  ti_read_only :: bool

record tool_outcome =
  to_run_id :: string
  to_call_id :: string
  to_status :: outcome_status
  to_result :: tool_result
  to_error :: string

record record_reference =
  rf_session_id :: string
  rf_record_id :: string
  rf_sequence :: nat

record session_record =
  sr_sequence :: nat
  sr_id :: string
  sr_time :: int
  sr_namespace :: string
  sr_type :: string
  sr_schema_version :: nat
  sr_parent :: "record_reference option"
  sr_kind :: record_kind
  sr_payload :: string
  sr_message :: "message option"
  sr_model_intent :: "model_intent option"
  sr_model_outcome :: "model_outcome option"
  sr_tool_intent :: "tool_intent option"
  sr_tool_outcome :: "tool_outcome option"

text \<open>The zero value a composite literal starts from.\<close>

definition blank_record :: "record_kind \<Rightarrow> session_record" where
  "blank_record k = \<lparr>sr_sequence = 0, sr_id = [], sr_time = 0, sr_namespace = [], sr_type = [], sr_schema_version = 0,
     sr_parent = None, sr_kind = k, sr_payload = [], sr_message = None, sr_model_intent = None,
     sr_model_outcome = None, sr_tool_intent = None, sr_tool_outcome = None\<rparr>"

definition conversation_record :: "message \<Rightarrow> session_record" where
  "conversation_record m = (blank_record RecordConversation)\<lparr>sr_message := Some m\<rparr>"

definition tool_intent_record :: "tool_intent \<Rightarrow> session_record" where
  "tool_intent_record i = (blank_record RecordToolIntent)\<lparr>sr_tool_intent := Some i\<rparr>"

definition tool_outcome_record :: "tool_outcome \<Rightarrow> session_record" where
  "tool_outcome_record t = (blank_record RecordToolOutcome)\<lparr>sr_tool_outcome := Some t\<rparr>"

definition model_intent_record :: "model_intent \<Rightarrow> session_record" where
  "model_intent_record i = (blank_record RecordModelIntent)\<lparr>sr_model_intent := Some i\<rparr>"

definition model_outcome_record :: "model_outcome \<Rightarrow> session_record" where
  "model_outcome_record t = (blank_record RecordModelOutcome)\<lparr>sr_model_outcome := Some t\<rparr>"

definition kernel_namespace :: string where "kernel_namespace = ''alva.kernel''"

definition BuiltinRecord :: "session_record \<Rightarrow> session_record" where
  "BuiltinRecord r =
     (if sr_kind r \<noteq> RecordExtension
      then r\<lparr>sr_namespace := kernel_namespace, sr_type := kind_name (sr_kind r), sr_schema_version := 1\<rparr>
      else r)"

definition record_payloads :: "session_record \<Rightarrow> nat" where
  "record_payloads r = some_count
     [sr_message r \<noteq> None, sr_model_intent r \<noteq> None, sr_model_outcome r \<noteq> None, sr_tool_intent r \<noteq> None,
      sr_tool_outcome r \<noteq> None, sr_payload r \<noteq> []]"

text \<open>The tool-intent case: the effective call, then the declared one if preparation changed it.\<close>

definition validate_intent :: "url_parser \<Rightarrow> tool_intent \<Rightarrow> go_error option" where
  "validate_intent url i =
     (if ti_run_id i = [] \<or> tc_id (ti_call i) = [] \<or> tc_name (ti_call i) = [] \<or> \<not> json_valid (tc_arguments (ti_call i))
      then Some (ErrNew ''tool intent call invalid'')
      else (case block_validate url (tool_call_block (Some (ti_call i))) of
          Some e \<Rightarrow> Some e
        | None \<Rightarrow>
            (case (case ti_declared_call i of
                None \<Rightarrow> None
              | Some d \<Rightarrow>
                  if tc_id d \<noteq> tc_id (ti_call i) \<or> tc_name d \<noteq> tc_name (ti_call i)
                  then Some (ErrNew ''prepared tool identity differs from model declaration'')
                  else block_validate url (tool_call_block (Some d))) of
               Some e \<Rightarrow> Some e
             | None \<Rightarrow> scheduling_validate (ti_scheduling i))))"

definition record_validate :: "url_parser \<Rightarrow> session_record \<Rightarrow> go_error option" where
  "record_validate url r =
     (if sr_namespace r = [] \<or> sr_type r = [] \<or> sr_schema_version r = 0
      then Some (ErrNew ''record envelope metadata missing'')
      else if \<not> utf8_valid (sr_namespace r) \<or> \<not> utf8_valid (sr_type r)
      then Some (ErrNew ''record envelope metadata must be valid UTF-8'')
      else if sr_kind r \<noteq> RecordExtension \<and>
        (sr_namespace r \<noteq> kernel_namespace \<or> sr_type r \<noteq> kind_name (sr_kind r) \<or> sr_schema_version r \<noteq> 1)
      then Some (ErrNew ''unsupported built-in record envelope'')
      else if record_payloads r \<noteq> 1 then Some (ErrNew ''session record must contain exactly one payload'')
      else (case sr_kind r of
          RecordConversation \<Rightarrow>
            (case sr_message r of None \<Rightarrow> Some (ErrNew ''conversation payload missing'') | Some m \<Rightarrow> message_validate url m)
        | RecordModelIntent \<Rightarrow>
            (case sr_model_intent r of
               None \<Rightarrow> Some (ErrNew ''model intent identity missing'')
             | Some i \<Rightarrow> if mi_request_id i = [] then Some (ErrNew ''model intent identity missing'') else None)
        | RecordModelOutcome \<Rightarrow>
            (case sr_model_outcome r of
               None \<Rightarrow> Some (ErrNew ''model outcome identity/status missing'')
             | Some t \<Rightarrow> if mo_request_id t = [] then Some (ErrNew ''model outcome identity/status missing'') else None)
        | RecordToolIntent \<Rightarrow>
            (case sr_tool_intent r of
               None \<Rightarrow> Some (ErrNew ''tool intent call invalid'')
             | Some i \<Rightarrow> validate_intent url i)
        | RecordToolOutcome \<Rightarrow>
            (case sr_tool_outcome r of
               None \<Rightarrow> Some (ErrNew ''tool outcome identity/status invalid'')
             | Some t \<Rightarrow>
                 if to_run_id t = [] \<or> to_call_id t = [] \<or> tr_call_id (to_result t) \<noteq> to_call_id t
                 then Some (ErrNew ''tool outcome identity/status invalid'')
                 else block_validate url (tool_result_block (to_result t)))
        | RecordExtension \<Rightarrow>
            if sr_namespace r = kernel_namespace \<or> \<not> ValidJSON (sr_payload r)
            then Some (ErrNew ''extension requires its own namespace and valid JSON'') else None
        | RecordOther _ \<Rightarrow> Some (ErrNew ''unknown session record kind'')))"

definition record_reference_of :: "string \<Rightarrow> session_record \<Rightarrow> record_reference" where
  "record_reference_of session r = \<lparr>rf_session_id = session, rf_record_id = sr_id r, rf_sequence = sr_sequence r\<rparr>"

subsection \<open>Facts\<close>

lemma BuiltinRecord_idem [simp]: "BuiltinRecord (BuiltinRecord r) = BuiltinRecord r"
  by (simp add: BuiltinRecord_def)

lemma BuiltinRecord_fields [simp]:
  "sr_kind (BuiltinRecord r) = sr_kind r" "sr_message (BuiltinRecord r) = sr_message r"
  "sr_tool_intent (BuiltinRecord r) = sr_tool_intent r" "sr_tool_outcome (BuiltinRecord r) = sr_tool_outcome r"
  "sr_model_intent (BuiltinRecord r) = sr_model_intent r" "sr_model_outcome (BuiltinRecord r) = sr_model_outcome r"
  by (simp_all add: BuiltinRecord_def)

lemma record_constructors [simp]:
  "sr_kind (conversation_record m) = RecordConversation" "sr_message (conversation_record m) = Some m"
  "sr_kind (tool_outcome_record t) = RecordToolOutcome" "sr_tool_outcome (tool_outcome_record t) = Some t"
  "sr_kind (tool_intent_record i) = RecordToolIntent" "sr_tool_intent (tool_intent_record i) = Some i"
  "sr_tool_outcome (conversation_record m) = None" "sr_message (tool_outcome_record t) = None"
  "sr_tool_outcome (tool_intent_record i) = None" "sr_tool_intent (conversation_record m) = None"
  "sr_tool_outcome (model_outcome_record x) = None" "sr_tool_outcome (model_intent_record y) = None"
  by (simp_all add: conversation_record_def tool_outcome_record_def tool_intent_record_def blank_record_def
    model_outcome_record_def model_intent_record_def)

lemma envelope_valid [simp]:
  "utf8_valid ''alva.kernel''" "utf8_valid ''conversation''" "utf8_valid ''tool_outcome''" "utf8_valid ''tool_intent''"
  "utf8_valid ''model_outcome''" "utf8_valid ''model_intent''"
  by code_simp+

text \<open>Each payload kind with a valid envelope: what \<open>Validate\<close> then asks of the payload.\<close>

lemma validate_conversation: "record_validate url (BuiltinRecord (conversation_record m)) = message_validate url m"
  by (simp add: record_validate_def BuiltinRecord_def conversation_record_def blank_record_def record_payloads_def
      some_count_def kernel_namespace_def)

lemma validate_tool_outcome:
  "record_validate url (BuiltinRecord (tool_outcome_record t)) = None \<longleftrightarrow>
     to_run_id t \<noteq> [] \<and> to_call_id t \<noteq> [] \<and> tr_call_id (to_result t) = to_call_id t \<and>
     block_validate url (tool_result_block (to_result t)) = None"
  by (simp add: record_validate_def BuiltinRecord_def tool_outcome_record_def blank_record_def record_payloads_def
      some_count_def kernel_namespace_def)

text \<open>A text result block is valid exactly when its call id is set and both texts are UTF-8.\<close>

lemma text_result_valid:
  "block_validate url (tool_result_block (ToolResult cid [text_block t] e)) = None \<longleftrightarrow>
     cid \<noteq> [] \<and> utf8_valid cid \<and> utf8_valid t"
  by (auto simp: tool_result_block_def text_block_def payloads_def some_count_def validStrings_def utf8_valid_def)

text \<open>
  C31. A record that passes validation carries exactly the payload its kind names, and no other:
  a reader that switches on the kind can rely on that field, and built-in kinds always carry the
  kernel's namespace, their own kind as type, and schema version 1.
\<close>

theorem valid_record_payload:
  assumes "record_validate url r = None"
  shows "(case sr_kind r of
       RecordConversation \<Rightarrow> sr_message r \<noteq> None
     | RecordModelIntent \<Rightarrow> sr_model_intent r \<noteq> None
     | RecordModelOutcome \<Rightarrow> sr_model_outcome r \<noteq> None
     | RecordToolIntent \<Rightarrow> sr_tool_intent r \<noteq> None
     | RecordToolOutcome \<Rightarrow> sr_tool_outcome r \<noteq> None
     | RecordExtension \<Rightarrow> sr_payload r \<noteq> []
     | RecordOther _ \<Rightarrow> False) \<and> record_payloads r = 1 \<and>
     (sr_kind r = RecordExtension \<longleftrightarrow> sr_namespace r \<noteq> kernel_namespace) \<and>
     (sr_kind r \<noteq> RecordExtension \<longrightarrow> BuiltinRecord r = r)"
proof -
  have json: "\<not> ValidJSON []" by code_simp
  have one: "record_payloads r = 1" using assms by (simp add: record_validate_def split: if_splits)
  have ext: "sr_kind r = RecordExtension \<Longrightarrow> sr_namespace r \<noteq> kernel_namespace \<and> sr_payload r \<noteq> []"
    using assms json by (auto simp: record_validate_def split: if_splits)
  have built: "sr_kind r \<noteq> RecordExtension \<Longrightarrow>
      sr_namespace r = kernel_namespace \<and> sr_type r = kind_name (sr_kind r) \<and> sr_schema_version r = 1"
    using assms by (simp add: record_validate_def split: if_splits)
  then have "sr_kind r \<noteq> RecordExtension \<Longrightarrow> BuiltinRecord r = r" by (simp add: BuiltinRecord_def)
  moreover have "case sr_kind r of
       RecordConversation \<Rightarrow> sr_message r \<noteq> None
     | RecordModelIntent \<Rightarrow> sr_model_intent r \<noteq> None
     | RecordModelOutcome \<Rightarrow> sr_model_outcome r \<noteq> None
     | RecordToolIntent \<Rightarrow> sr_tool_intent r \<noteq> None
     | RecordToolOutcome \<Rightarrow> sr_tool_outcome r \<noteq> None
     | RecordExtension \<Rightarrow> sr_payload r \<noteq> []
     | RecordOther _ \<Rightarrow> False"
    using assms ext by (cases "sr_kind r") (auto simp: record_validate_def split: if_splits option.splits)
  ultimately show ?thesis using one ext built by blast
qed

theorem valid_record_payload_witness:
  "sr_message (BuiltinRecord (conversation_record (TextMessage RoleUser ''hi''))) \<noteq> None"
proof -
  have "record_validate (\<lambda>_. None) (BuiltinRecord (conversation_record (TextMessage RoleUser ''hi''))) = None"
    by code_simp
  from valid_record_payload [OF this] show ?thesis by simp
qed

end
