(* ===== verification/Tool_Registry.thy ===== *)
theory Tool_Registry
  imports Wire
begin

section \<open>The mutable tool registry, extensions and agent state\<close>

text \<open>
  sdk/kernel/abi/state.go. A tool is an interface value: what its methods \<open>Name\<close>,
  \<open>Description\<close> and \<open>ParametersSchema\<close> return, and an identity \<open>tl_impl\<close> for the value
  itself; \<^term>\<open>None\<close> is a nil (or typed nil) implementation. The registry keeps the ordered
  slice and a map from names to positions in it, under one mutex, so each operation is one step.
\<close>

record tool =
  tl_name :: string
  tl_description :: string
  tl_schema :: string
  tl_impl :: nat

record tool_registry =
  tr_tools :: "tool list"
  tr_indices :: "string \<Rightarrow> nat option"
  tr_version :: nat

definition tool_valid :: "tool option \<Rightarrow> bool" where
  "tool_valid t = (case t of None \<Rightarrow> False
     | Some t \<Rightarrow> tl_name t \<noteq> [] \<and> utf8_valid (tl_name t) \<and> utf8_valid (tl_description t) \<and> ValidJSON (tl_schema t))"

definition validateTool :: "tool option \<Rightarrow> go_error option" where
  "validateTool t = (if tool_valid t then None else Some (ErrNew ''tool identity or schema invalid''))"

definition empty_registry :: tool_registry where
  "empty_registry = \<lparr>tr_tools = [], tr_indices = Map.empty, tr_version = 0\<rparr>"

definition registry_register :: "tool_registry \<Rightarrow> tool option \<Rightarrow> tool_registry \<times> go_error option" where
  "registry_register r tool =
     (case validateTool tool of
        Some e \<Rightarrow> (r, Some e)
      | None \<Rightarrow>
          (let t = the tool; name = tl_name t in
           if tr_indices r name \<noteq> None then (r, Some (ErrNew ''duplicate tool''))
           else (r\<lparr>tr_indices := (tr_indices r)(name \<mapsto> length (tr_tools r)), tr_tools := tr_tools r @ [t],
                   tr_version := tr_version r + 1\<rparr>, None)))"

definition registry_replace :: "tool_registry \<Rightarrow> tool option \<Rightarrow> tool_registry \<times> tool result" where
  "registry_replace r tool =
     (case validateTool tool of
        Some e \<Rightarrow> (r, Inl e)
      | None \<Rightarrow>
          (let t = the tool in
           case tr_indices r (tl_name t) of
             None \<Rightarrow> (r, Inl (ErrNew ''tool is not registered''))
           | Some index \<Rightarrow>
               (r\<lparr>tr_tools := (tr_tools r)[index := t], tr_version := tr_version r + 1\<rparr>, Inr (tr_tools r ! index))))"

text \<open>\<open>Remove\<close>: the loop over \<open>indices\<close> shifts every later position, in any map order.\<close>

definition registry_remove :: "tool_registry \<Rightarrow> string \<Rightarrow> tool_registry \<times> bool" where
  "registry_remove r name =
     (case tr_indices r name of
        None \<Rightarrow> (r, False)
      | Some index \<Rightarrow>
          (r\<lparr>tr_tools := remove_at index (tr_tools r),
             tr_indices := (\<lambda>key. if key = name then None
               else map_option (\<lambda>position. if position > index then position - 1 else position) (tr_indices r key)),
             tr_version := tr_version r + 1\<rparr>, True))"

definition registry_get :: "tool_registry \<Rightarrow> string \<Rightarrow> tool option" where
  "registry_get r name = (case tr_indices r name of None \<Rightarrow> None | Some index \<Rightarrow> Some (tr_tools r ! index))"

record tool_registry_snapshot =
  ts_version :: nat
  ts_tools :: "tool list"
  ts_definitions :: "tool_definition list"

definition registry_snapshot :: "tool_registry \<Rightarrow> tool_registry_snapshot" where
  "registry_snapshot r =
     \<lparr>ts_version = tr_version r, ts_tools = tr_tools r,
      ts_definitions = map (\<lambda>t. \<lparr>td_name = tl_name t, td_description = tl_description t, td_parameters = tl_schema t\<rparr>) (tr_tools r)\<rparr>"

fun register_all :: "tool_registry \<Rightarrow> tool option list \<Rightarrow> tool_registry result" where
  "register_all r [] = Inr r"
| "register_all r (t # ts) =
     (case registry_register r t of (r', None) \<Rightarrow> register_all r' ts | (_, Some e) \<Rightarrow> Inl e)"

definition NewToolRegistry :: "tool option list \<Rightarrow> tool_registry result" where
  "NewToolRegistry tools = register_all empty_registry tools"

subsection \<open>Extensions and the agent state\<close>

text \<open>
  Extensions: one value per Go type. \<open>reflect.TypeFor[T]\<close> is the key; \<open>Put\<close> stores values of
  that type only, so the type assertion of \<open>Get\<close> cannot fail.
\<close>

type_synonym 'v extensions = "string \<Rightarrow> 'v option"

definition PutExtension :: "string \<Rightarrow> 'v \<Rightarrow> 'v extensions \<Rightarrow> 'v extensions" where
  "PutExtension ty v ext = ext(ty \<mapsto> v)"

definition GetExtension :: "string \<Rightarrow> 'v extensions \<Rightarrow> 'v option" where
  "GetExtension ty ext = ext ty"

definition DeleteExtension :: "string \<Rightarrow> 'v extensions \<Rightarrow> 'v extensions" where
  "DeleteExtension ty ext = ext(ty := None)"

text \<open>A conversation log and a model as the state sees them: an identity, and for a log its id.\<close>

record log_ref =
  lr_id :: string
  lr_impl :: nat

record 'v agent_state =
  as_model :: nat
  as_session :: log_ref
  as_tools :: tool_registry
  as_extensions :: "'v extensions"

definition NewAgentState :: "nat option \<Rightarrow> log_ref option \<Rightarrow> tool option list \<Rightarrow> 'v agent_state result" where
  "NewAgentState model session tools =
     (case (model, session) of
        (Some m, Some s) \<Rightarrow>
          if lr_id s = [] then Inl (ErrNew ''model and identified conversation log required'')
          else (case NewToolRegistry tools of
              Inl e \<Rightarrow> Inl e
            | Inr r \<Rightarrow> Inr \<lparr>as_model = m, as_session = s, as_tools = r, as_extensions = Map.empty\<rparr>)
      | _ \<Rightarrow> Inl (ErrNew ''model and identified conversation log required''))"

definition SetModel :: "nat option \<Rightarrow> 'v agent_state \<Rightarrow> 'v agent_state \<times> go_error option" where
  "SetModel model st = (case model of None \<Rightarrow> (st, Some (ErrNew ''model required'')) | Some m \<Rightarrow> (st\<lparr>as_model := m\<rparr>, None))"

definition SetSession :: "log_ref option \<Rightarrow> 'v agent_state \<Rightarrow> 'v agent_state \<times> go_error option" where
  "SetSession session st =
     (case session of
        None \<Rightarrow> (st, Some (ErrNew ''identified conversation log required''))
      | Some s \<Rightarrow> if lr_id s = [] then (st, Some (ErrNew ''identified conversation log required''))
                  else (st\<lparr>as_session := s\<rparr>, None))"

subsection \<open>The interface clients rely on: a directory of named tools\<close>

text \<open>
  What the loop, preparation and execution use of the registry: the laws of lookup after each
  operation, over the states the provider reaches.
\<close>

locale named_directory =
  fixes ok :: "'s \<Rightarrow> bool"
    and get :: "'s \<Rightarrow> string \<Rightarrow> 'v option"
    and put :: "'s \<Rightarrow> 'v \<Rightarrow> 's option"
    and del :: "'s \<Rightarrow> string \<Rightarrow> 's"
    and name :: "'v \<Rightarrow> string"
  assumes put_free: "ok s \<Longrightarrow> put s v = Some s' \<Longrightarrow> get s (name v) = None"
    and put_ok: "ok s \<Longrightarrow> put s v = Some s' \<Longrightarrow> ok s'"
    and get_put: "ok s \<Longrightarrow> put s v = Some s' \<Longrightarrow> get s' n = (if n = name v then Some v else get s n)"
    and del_ok: "ok s \<Longrightarrow> ok (del s n)"
    and get_del: "ok s \<Longrightarrow> get (del s n) m = (if m = n then None else get s m)"
    and get_name: "ok s \<Longrightarrow> get s n = Some v \<Longrightarrow> name v = n"
begin

lemma put_no_overwrite: "ok s \<Longrightarrow> put s v = Some s' \<Longrightarrow> get s n = Some w \<Longrightarrow> get s' n = Some w"
  using put_free get_put by (cases "n = name v") auto

lemma del_put_cancel: "ok s \<Longrightarrow> put s v = Some s' \<Longrightarrow> get (del s' (name v)) = get s"
  by (rule ext) (simp add: get_del [OF put_ok] get_put put_free)

lemma del_twice: "ok s \<Longrightarrow> get (del (del s n) n) = get (del s n)"
  by (rule ext) (simp add: get_del del_ok)

lemma lookup_injective: "ok s \<Longrightarrow> get s n = Some v \<Longrightarrow> get s m = Some v \<Longrightarrow> n = m"
  using get_name by blast

end

subsection \<open>The registry's invariant\<close>

text \<open>The map and the slice describe the same thing: each position has its name's entry.\<close>

definition registry_inv :: "tool_registry \<Rightarrow> bool" where
  "registry_inv r = (\<forall>n i. tr_indices r n = Some i \<longleftrightarrow> i < length (tr_tools r) \<and> tl_name (tr_tools r ! i) = n)"

lemma registry_inv_empty [alva_inv]: "registry_inv empty_registry"
  by (simp add: registry_inv_def empty_registry_def)

lemma registry_inv_distinct: "registry_inv r \<Longrightarrow> distinct (map tl_name (tr_tools r))"
  by (auto simp: registry_inv_def distinct_conv_nth) (metis option.inject)

lemma registry_indices:
  "registry_inv r \<Longrightarrow> tr_indices r n = None \<longleftrightarrow> n \<notin> set (map tl_name (tr_tools r))"
proof -
  assume inv: "registry_inv r"
  have "(\<exists>i. tr_indices r n = Some i) \<longleftrightarrow> n \<in> set (map tl_name (tr_tools r))"
    using inv unfolding registry_inv_def in_set_conv_nth by auto
  then show ?thesis by (cases "tr_indices r n") auto
qed

lemma registry_get_find:
  assumes "registry_inv r"
  shows "registry_get r n = find (\<lambda>t. tl_name t = n) (tr_tools r)"
proof (cases "tr_indices r n")
  case None
  then have "n \<notin> set (map tl_name (tr_tools r))" using assms registry_indices by blast
  then have "find (\<lambda>t. tl_name t = n) (tr_tools r) = None" by (auto simp: find_None_iff)
  with None show ?thesis by (simp add: registry_get_def)
next
  case (Some i)
  then have i: "i < length (tr_tools r)" "tl_name (tr_tools r ! i) = n" using assms by (auto simp: registry_inv_def)
  have "\<forall>j < i. tl_name (tr_tools r ! j) \<noteq> n"
    using assms Some i by (auto simp: registry_inv_def) (metis less_trans nat_neq_iff option.inject)
  with i have "find (\<lambda>t. tl_name t = n) (tr_tools r) = Some (tr_tools r ! i)"
    by (auto simp: find_Some_iff)
  with Some show ?thesis by (simp add: registry_get_def)
qed

lemma registry_register_inv [alva_inv]: "registry_inv r \<Longrightarrow> registry_inv (fst (registry_register r t))"
  by (auto simp: registry_register_def registry_inv_def Let_def nth_append less_Suc_eq split: option.splits)

lemma registry_replace_inv [alva_inv]: "registry_inv r \<Longrightarrow> registry_inv (fst (registry_replace r t))"
  by (auto simp: registry_replace_def registry_inv_def Let_def nth_list_update split: option.splits)

lemma registry_remove_inv [alva_inv]:
  assumes "registry_inv r" shows "registry_inv (fst (registry_remove r name))"
proof (cases "tr_indices r name")
  case (Some i)
  then have i: "i < length (tr_tools r)" "tl_name (tr_tools r ! i) = name" using assms by (auto simp: registry_inv_def)
  let ?ts = "remove_at i (tr_tools r)"
  have "(if n = name then None else map_option (\<lambda>p. if p > i then p - 1 else p) (tr_indices r n)) = Some j \<longleftrightarrow>
     j < length ?ts \<and> tl_name (?ts ! j) = n" for n j
  proof
    assume *: "(if n = name then None else map_option (\<lambda>p. if p > i then p - 1 else p) (tr_indices r n)) = Some j"
    then obtain p where p: "n \<noteq> name" "tr_indices r n = Some p" "j = (if p > i then p - 1 else p)"
      by (cases "tr_indices r n") (auto split: if_splits)
    then have "p < length (tr_tools r)" "tl_name (tr_tools r ! p) = n" "p \<noteq> i"
      using assms i by (auto simp: registry_inv_def)
    with p(3) i show "j < length ?ts \<and> tl_name (?ts ! j) = n" by (auto simp: nth_remove_at)
  next
    assume j: "j < length ?ts \<and> tl_name (?ts ! j) = n"
    define p where "p = (if j < i then j else Suc j)"
    have p: "p < length (tr_tools r)" "tl_name (tr_tools r ! p) = n" "p \<noteq> i"
      using j i by (auto simp: p_def nth_remove_at split: if_splits)
    then have "tr_indices r n = Some p" using assms by (auto simp: registry_inv_def)
    moreover have "n \<noteq> name" using p i Some assms calculation by auto
    ultimately show "(if n = name then None else map_option (\<lambda>p. if p > i then p - 1 else p) (tr_indices r n)) = Some j"
      by (auto simp: p_def)
  qed
  with Some show ?thesis by (simp add: registry_remove_def registry_inv_def)
qed (use assms in \<open>simp add: registry_remove_def\<close>)

lemma registry_get_update:
  assumes "registry_inv r"
  shows "snd (registry_register r (Some t)) = None \<Longrightarrow>
      registry_get (fst (registry_register r (Some t))) n = (if n = tl_name t then Some t else registry_get r n)"
    and "registry_get (fst (registry_remove r name)) n = (if n = name then None else registry_get r n)"
proof -
  assume ok: "snd (registry_register r (Some t)) = None"
  show "registry_get (fst (registry_register r (Some t))) n = (if n = tl_name t then Some t else registry_get r n)"
  proof (cases "tr_indices r n")
    case None
    with ok show ?thesis
      by (auto simp: registry_register_def registry_get_def Let_def split: option.splits if_splits)
  next
    case (Some i)
    with assms have i: "i < length (tr_tools r)" by (auto simp: registry_inv_def)
    have "validateTool (Some t) = None" "tr_indices r (tl_name t) = None"
      using ok by (auto simp: registry_register_def Let_def split: option.splits if_splits)
    with Some i show ?thesis
      by (auto simp: registry_register_def registry_get_def Let_def nth_append)
  qed
next
  show "registry_get (fst (registry_remove r name)) n = (if n = name then None else registry_get r n)"
  proof (cases "tr_indices r name")
    case None
    then show ?thesis by (auto simp: registry_remove_def registry_get_def)
  next
    case (Some i)
    then have i: "i < length (tr_tools r)" "tl_name (tr_tools r ! i) = name" using assms by (auto simp: registry_inv_def)
    show ?thesis
    proof (cases "tr_indices r n")
      case (Some p)
      then have "p < length (tr_tools r)" "tl_name (tr_tools r ! p) = n" using assms by (auto simp: registry_inv_def)
      then have "n \<noteq> name \<Longrightarrow> p \<noteq> i" using i by auto
      with Some \<open>tr_indices r name = Some i\<close> i \<open>p < length (tr_tools r)\<close> show ?thesis
        by (auto simp: registry_remove_def registry_get_def nth_remove_at)
    qed (use Some in \<open>auto simp: registry_remove_def registry_get_def\<close>)
  qed
qed

interpretation reg: named_directory registry_inv registry_get
  "\<lambda>r t. case registry_register r (Some t) of (r', None) \<Rightarrow> Some r' | _ \<Rightarrow> None"
  "\<lambda>r n. fst (registry_remove r n)" tl_name
proof (unfold_locales, goal_cases)
  case (1 s v s')
  then show ?case
    by (auto simp: registry_register_def registry_get_def Let_def split: option.splits if_splits prod.splits)
next
  case (2 s v s')
  then show ?case
    using registry_register_inv [of s "Some v"] by (auto split: option.splits prod.splits)
next
  case (3 s v s' n)
  then show ?case
    using registry_get_update(1) [of s v n] by (auto split: option.splits prod.splits)
next
  case (4 s n) then show ?case by (rule registry_remove_inv)
next
  case (5 s n m) then show ?case by (simp add: registry_get_update(2))
next
  case (6 s n v)
  then show ?case by (auto simp: registry_get_def registry_inv_def split: option.splits)
qed

subsection \<open>Refinement: the registry is an ordered list of uniquely named tools\<close>

datatype registry_op = OpRegister "tool option" | OpReplace "tool option" | OpRemove string

fun registry_apply :: "tool_registry \<Rightarrow> registry_op \<Rightarrow> tool_registry" where
  "registry_apply r (OpRegister t) = fst (registry_register r t)"
| "registry_apply r (OpReplace t) = fst (registry_replace r t)"
| "registry_apply r (OpRemove n) = fst (registry_remove r n)"

text \<open>The specification: no index map, only the list; the second component counts changes.\<close>

fun spec_apply :: "tool list \<times> nat \<Rightarrow> registry_op \<Rightarrow> tool list \<times> nat" where
  "spec_apply (ts, v) (OpRegister t) =
     (if tool_valid t \<and> tl_name (the t) \<notin> set (map tl_name ts) then (ts @ [the t], v + 1) else (ts, v))"
| "spec_apply (ts, v) (OpReplace t) =
     (if tool_valid t \<and> tl_name (the t) \<in> set (map tl_name ts)
      then (map (\<lambda>x. if tl_name x = tl_name (the t) then the t else x) ts, v + 1) else (ts, v))"
| "spec_apply (ts, v) (OpRemove n) =
     (if n \<in> set (map tl_name ts) then (filter (\<lambda>x. tl_name x \<noteq> n) ts, v + 1) else (ts, v))"

lemma registry_apply_inv: "registry_inv r \<Longrightarrow> registry_inv (registry_apply r op)"
  by (cases op) (simp_all add: alva_inv)

lemma update_as_map:
  "distinct (map f xs) \<Longrightarrow> i < length xs \<Longrightarrow> f (xs ! i) = f y \<Longrightarrow> xs[i := y] = map (\<lambda>x. if f x = f y then y else x) xs"
  by (rule nth_equalityI) (simp_all add: nth_list_update distinct_conv_nth, metis)

lemma remove_at_as_filter:
  assumes "distinct (map f xs)" "i < length xs"
  shows "remove_at i xs = filter (\<lambda>x. f x \<noteq> f (xs ! i)) xs"
proof -
  have xs: "xs = take i xs @ xs ! i # drop (Suc i) xs" using assms(2) by (simp add: id_take_nth_drop [symmetric])
  have "distinct (map f (take i xs @ xs ! i # drop (Suc i) xs))" using assms(1) xs by simp
  then have "\<forall>x \<in> set (take i xs). f x \<noteq> f (xs ! i)" "\<forall>x \<in> set (drop (Suc i) xs). f x \<noteq> f (xs ! i)"
    by (auto simp: image_iff)
  then have "filter (\<lambda>x. f x \<noteq> f (xs ! i)) (take i xs @ xs ! i # drop (Suc i) xs) = take i xs @ drop (Suc i) xs"
    by (simp add: filter_id_conv [THEN iffD2])
  then show ?thesis using xs by (simp add: remove_at_def)
qed

lemma registry_apply_spec:
  assumes inv: "registry_inv r"
  shows "(tr_tools (registry_apply r op), tr_version (registry_apply r op)) = spec_apply (tr_tools r, tr_version r) op"
proof (cases op)
  case (OpRegister t)
  then show ?thesis using registry_indices [OF inv] by (auto simp: registry_register_def validateTool_def Let_def)
next
  case (OpReplace t)
  show ?thesis
  proof (cases "tool_valid t \<and> tl_name (the t) \<in> set (map tl_name (tr_tools r))")
    case True
    then obtain i where i: "tr_indices r (tl_name (the t)) = Some i" using registry_indices [OF inv] by fastforce
    then have "i < length (tr_tools r)" "tl_name (tr_tools r ! i) = tl_name (the t)" using inv by (auto simp: registry_inv_def)
    with True i OpReplace show ?thesis
      using update_as_map [OF registry_inv_distinct [OF inv]] by (simp add: registry_replace_def validateTool_def Let_def)
  next
    case False
    then have "tool_valid t \<Longrightarrow> tr_indices r (tl_name (the t)) = None" using registry_indices [OF inv] by blast
    with False OpReplace show ?thesis by (auto simp: registry_replace_def validateTool_def Let_def)
  qed
next
  case (OpRemove n)
  show ?thesis
  proof (cases "tr_indices r n")
    case None
    then have "n \<notin> set (map tl_name (tr_tools r))" using registry_indices [OF inv] by blast
    with None OpRemove show ?thesis by (simp add: registry_remove_def)
  next
    case (Some i)
    then have "i < length (tr_tools r)" "tl_name (tr_tools r ! i) = n" using inv by (auto simp: registry_inv_def)
    with Some OpRemove show ?thesis
      using remove_at_as_filter [OF registry_inv_distinct [OF inv]] registry_indices [OF inv, of n]
      by (auto simp: registry_remove_def)
  qed
qed

lemma registry_run:
  "registry_inv r \<Longrightarrow>
     registry_inv (foldl registry_apply r ops) \<and>
     (tr_tools (foldl registry_apply r ops), tr_version (foldl registry_apply r ops)) = foldl spec_apply (tr_tools r, tr_version r) ops"
proof (induction ops arbitrary: r)
  case (Cons op ops)
  then show ?case using registry_apply_inv [OF Cons.prems, of op] registry_apply_spec [OF Cons.prems, of op] by simp
qed simp

text \<open>
  After any sequence of registrations, replacements and removals, the registry is the
  ordered list the specification computes: order of first registration, one tool per name,
  a replacement keeps its place, the version counts exactly the operations that changed it.
  Lookup through the index map agrees with a search of that list for every name.
\<close>

theorem registry_refines_list:
  "let r = foldl registry_apply empty_registry ops; (ts, v) = foldl spec_apply ([], 0) ops in
     tr_tools r = ts \<and> tr_version r = v \<and> distinct (map tl_name ts) \<and>
     registry_get r n = find (\<lambda>t. tl_name t = n) ts \<and>
     map td_name (ts_definitions (registry_snapshot r)) = map tl_name ts"
proof -
  define r where "r = foldl registry_apply empty_registry ops"
  have inv: "registry_inv r" and spec: "foldl spec_apply ([], 0) ops = (tr_tools r, tr_version r)"
    using registry_run [OF registry_inv_empty, of ops] by (simp_all add: r_def empty_registry_def)
  show ?thesis
    unfolding r_def [symmetric] spec
    using registry_inv_distinct [OF inv] registry_get_find [OF inv]
    by (simp add: Let_def registry_snapshot_def comp_def)
qed

text \<open>
  Registering a tool under a fresh name and removing that name again leaves every lookup as
  it was, whatever was registered before: removal shifts the later positions correctly.
\<close>

theorem register_remove_roundtrip:
  assumes "registry_register (foldl registry_apply empty_registry ops) (Some t) = (r, None)"
  shows "registry_get (fst (registry_remove r (tl_name t))) = registry_get (foldl registry_apply empty_registry ops)"
  using registry_run [OF registry_inv_empty, of ops] assms by (intro reg.del_put_cancel) auto

definition sample_tool :: "string \<Rightarrow> tool" where
  "sample_tool n = \<lparr>tl_name = n, tl_description = [], tl_schema = ''{}'', tl_impl = 0\<rparr>"

theorem register_remove_roundtrip_witness:
  "registry_get (fst (registry_remove (fst (registry_register (foldl registry_apply empty_registry
      [OpRegister (Some (sample_tool ''a''))]) (Some (sample_tool ''b'')))) ''b''))
   = registry_get (foldl registry_apply empty_registry [OpRegister (Some (sample_tool ''a''))])"
proof -
  have "snd (registry_register (foldl registry_apply empty_registry [OpRegister (Some (sample_tool ''a''))])
      (Some (sample_tool ''b''))) = None" by code_simp
  from register_remove_roundtrip [OF prod_eqI [of _ "(_, None)", simplified], OF refl this]
  show ?thesis by (simp add: sample_tool_def)
qed

end
