(* ===== verification/Tool_Batch.thy ===== *)
theory Tool_Batch
  imports Records Tool_Registry
begin

section \<open>Executing a batch of tool calls in waves\<close>

text \<open>
  sdk/kernel/core/tool_batch.go, tool_prepare.go and the record helpers of loop.go. The code runs
  against a context, a conversation log, an event callback and tools; those are the
  \<open>host\<close>: functions over an external state \<open>'w\<close> that may fail at any time. The world adds what
  is observable: the records the log acknowledged, the events handed to the callback and the
  calls whose execution started. \<open>host.commit\<close> is \<open>ConversationLog.AppendRecords\<close> (atomic: the
  whole batch or an error); its first argument tells the detached settlement context from the
  run's own. \<open>host.poll\<close> is \<open>ctx.Err()\<close>. The goroutines of a wave are run one after another in
  an order the host chooses; each is one step, so interleavings inside a tool are the host's.
\<close>

datatype event =
    EventRunStarted
  | EventTextDelta string
  | EventReasoningDelta string
  | EventContentBlock content_block
  | EventMessageCommitted message record_reference
  | EventToolStarted tool_call record_reference
  | EventToolCompleted tool_result record_reference
  | EventUsage usage
  | EventRunCompleted
  | EventRunFailed string

record 'w host =
  h_session :: string
  h_poll :: "'w \<Rightarrow> go_error option \<times> 'w"
  h_commit :: "bool \<Rightarrow> session_record list \<Rightarrow> 'w \<Rightarrow> session_record list result \<times> 'w"
  h_emit :: "event \<Rightarrow> 'w \<Rightarrow> go_error option \<times> 'w"
  h_execute :: "scheduling \<Rightarrow> tool option \<Rightarrow> tool_call \<Rightarrow> 'w \<Rightarrow> (tool_result \<times> go_error option) \<times> 'w"
  h_on_message :: "message \<Rightarrow> 'w \<Rightarrow> go_error option \<times> 'w"
  h_observe :: "tool_call \<Rightarrow> 'w \<Rightarrow> 'w"
  h_order :: "'w \<Rightarrow> nat list"

record 'w world =
  w_log :: "session_record list"
  w_events :: "event list"
  w_executed :: "tool_call list"
  w_ext :: 'w

definition do_poll :: "'w host \<Rightarrow> 'w world \<Rightarrow> go_error option \<times> 'w world" where
  "do_poll h w = (case h_poll h (w_ext w) of (e, x) \<Rightarrow> (e, w\<lparr>w_ext := x\<rparr>))"

definition do_emit :: "'w host \<Rightarrow> event \<Rightarrow> 'w world \<Rightarrow> go_error option \<times> 'w world" where
  "do_emit h ev w = (case h_emit h ev (w_ext w) of (e, x) \<Rightarrow> (e, w\<lparr>w_events := w_events w @ [ev], w_ext := x\<rparr>))"

text \<open>\<open>appendRecords\<close>: built-in envelopes, one atomic append, a failure named after the session.\<close>

definition appendRecords :: "'w host \<Rightarrow> bool \<Rightarrow> session_record list \<Rightarrow> 'w world \<Rightarrow> session_record list result \<times> 'w world" where
  "appendRecords h detached rs w =
     (case h_commit h detached (map BuiltinRecord rs) (w_ext w) of
        (Inl e, x) \<Rightarrow> (Inl (SessionError ''append_records'' (h_session h) e), w\<lparr>w_ext := x\<rparr>)
      | (Inr committed, x) \<Rightarrow> (Inr committed, w\<lparr>w_log := w_log w @ map BuiltinRecord rs, w_ext := x\<rparr>))"

definition err_of :: "'a result \<Rightarrow> go_error option" where
  "err_of r = (case r of Inl e \<Rightarrow> Some e | Inr _ \<Rightarrow> None)"

definition tool_message :: "tool_result \<Rightarrow> message" where
  "tool_message r = \<lparr>m_id = [], m_role = RoleTool, m_content = [tool_result_block r], m_usage = None,
     m_response_id = [], m_finish_reason = []\<rparr>"

text \<open>The two records that settle a call: its outcome and the tool message of the transcript.\<close>

definition settle_records :: "tool_outcome \<Rightarrow> session_record list" where
  "settle_records t = [tool_outcome_record t, conversation_record (tool_message (to_result t))]"

subsection \<open>Calls that are not executed\<close>

definition unexecuted_outcome :: "string \<Rightarrow> string \<Rightarrow> outcome_status \<Rightarrow> go_error \<Rightarrow> tool_call \<Rightarrow> tool_outcome" where
  "unexecuted_outcome lead runID status cause call =
     \<lparr>to_run_id = runID, to_call_id = tc_id call, to_status = status,
      to_result = ToolResult (tc_id call) [text_block (lead @ err_text cause)] True, to_error = err_text cause\<rparr>"

definition settleUnexecuted :: "'w host \<Rightarrow> string \<Rightarrow> tool_call list \<Rightarrow> go_error \<Rightarrow> 'w world \<Rightarrow> go_error option \<times> 'w world" where
  "settleUnexecuted h runID calls cause w =
     (let batch = concat (map (\<lambda>c. settle_records (unexecuted_outcome ''Not executed: '' runID OutcomeCancelled cause c)) calls) in
      if batch = [] then (None, w)
      else (case appendRecords h True batch w of (r, w') \<Rightarrow> (err_of r, w')))"

definition finishUnstarted :: "'w host \<Rightarrow> string \<Rightarrow> tool_call list \<Rightarrow> go_error \<Rightarrow> 'w world \<Rightarrow> go_error option \<times> 'w world" where
  "finishUnstarted h runID calls cause w =
     (case settleUnexecuted h runID calls cause w of (e, w') \<Rightarrow> (errors_join [Some cause, e], w'))"

text \<open>\<open>failedPreparationRecords\<close>: only the failing call is failed, its siblings are cancelled.\<close>

definition failedPreparationRecords :: "string \<Rightarrow> tool_call list \<Rightarrow> nat option \<Rightarrow> go_error \<Rightarrow> session_record list" where
  "failedPreparationRecords runID calls failed cause =
     concat (map (\<lambda>(i, c). settle_records (unexecuted_outcome ''Not executed: tool preparation failed: '' runID
        (if failed = Some i then statusFor (Some cause) else OutcomeCancelled) cause c)) (enumerate 0 calls))"

subsection \<open>Waves\<close>

definition joins_wave :: "scheduling \<Rightarrow> bool" where
  "joins_wave s = (ConcurrentSafe s \<and> ExecutionMode s \<noteq> SerialGlobal)"

text \<open>The loop of \<open>waveLength\<close>: \<open>taken\<close> are the calls already in the wave.\<close>

fun wave_grow :: "string \<Rightarrow> int \<Rightarrow> scheduling list \<Rightarrow> scheduling list \<Rightarrow> nat" where
  "wave_grow workspace limit taken [] = length taken"
| "wave_grow workspace limit taken (nxt # rest) =
     (if int (length taken) \<ge> limit then length taken
      else if \<not> joins_wave nxt then length taken
      else if list_ex (\<lambda>prior. SchedulingConflicts workspace prior nxt) taken then length taken
      else wave_grow workspace limit (taken @ [nxt]) rest)"

text \<open>\<open>waveLength\<close> indexes the first intent: the loop calls it with at least one call left.\<close>

fun waveLength :: "scheduling list \<Rightarrow> int \<Rightarrow> string \<Rightarrow> nat" where
  "waveLength [] limit workspace = 1"
| "waveLength (first # rest) limit workspace =
     (if \<not> joins_wave first then 1 else wave_grow workspace limit [first] rest)"

lemma wave_grow_bounds: "length taken \<le> wave_grow ws l taken rest \<and> wave_grow ws l taken rest \<le> length taken + length rest"
  by (induction ws l taken rest rule: wave_grow.induct) auto

lemma waveLength_pos: "1 \<le> waveLength ss l ws"
proof (cases ss)
  case (Cons a list)
  then show ?thesis using wave_grow_bounds [of "[a]" ws l list] by auto
qed simp

lemma waveLength_le: "ss \<noteq> [] \<Longrightarrow> waveLength ss l ws \<le> length ss"
proof (cases ss)
  case (Cons a list)
  then show ?thesis using wave_grow_bounds [of "[a]" ws l list] by auto
qed simp

lemma wave_grow_ok:
  fixes rest
  assumes "pairwise_ok (SchedulingConflicts ws) taken" "list_all joins_wave taken" "int (length taken) \<le> max 1 l"
  defines "n \<equiv> wave_grow ws l taken rest"
  shows "pairwise_ok (SchedulingConflicts ws) (take n (taken @ rest)) \<and> list_all joins_wave (take n (taken @ rest)) \<and>
     int n \<le> max 1 l \<and>
     (n < length taken + length rest \<longrightarrow> int n \<ge> l \<or> \<not> joins_wave ((taken @ rest) ! n) \<or>
        \<not> pairwise_ok (SchedulingConflicts ws) (take (Suc n) (taken @ rest)))"
  using assms(1-3) unfolding n_def
proof (induction ws l taken rest rule: wave_grow.induct)
  case (2 ws limit taken nxt rest)
  show ?case
  proof (cases "int (length taken) \<ge> limit \<or> \<not> joins_wave nxt")
    case True
    with 2(2-4) show ?thesis by auto
  next
    case no: False
    show ?thesis
    proof (cases "list_ex (\<lambda>prior. SchedulingConflicts ws prior nxt) taken")
      case True
      then have "\<not> pairwise_ok (SchedulingConflicts ws) (take (Suc (length taken)) (taken @ nxt # rest))"
        by (auto simp: list_ex_iff sched.pairwise_ok_append)
      with True no 2(2-4) show ?thesis by simp
    next
      case False
      have "pairwise_ok (SchedulingConflicts ws) (taken @ [nxt])"
        using False 2(2) by (auto simp: list_ex_iff sched.pairwise_ok_append)
      with 2(1) [OF _ _ False] no False 2(3) show ?thesis by auto
    qed
  qed
qed auto

subsection \<open>One wave\<close>

record executed_call =
  ec_result :: tool_result
  ec_err :: "go_error option"
  ec_started :: bool

definition blank_executed :: executed_call where
  "blank_executed = \<lparr>ec_result = ToolResult [] [] False, ec_err = None, ec_started = False\<rparr>"

record batch_config =
  bc_workspace :: string
  bc_limit :: int
  bc_prepared :: "string \<Rightarrow> tool_result option"
  bc_tools :: "string \<Rightarrow> tool option"
  bc_runtime :: bool

text \<open>The goroutine of one call.\<close>

definition run_call :: "'w host \<Rightarrow> batch_config \<Rightarrow> tool_call \<Rightarrow> tool_intent \<Rightarrow> 'w world \<Rightarrow> executed_call \<times> 'w world" where
  "run_call h cfg call intent w =
     (case do_poll h w of
        (Some e, w1) \<Rightarrow> (blank_executed\<lparr>ec_err := Some e\<rparr>, w1)
      | (None, w1) \<Rightarrow>
          (case bc_prepared cfg (tc_id call) of
             Some result \<Rightarrow>
               if \<not> ti_no_side_effect intent
               then (blank_executed\<lparr>ec_err := Some (ErrNew ''prepared result requires committed no-tool-execution intent'')\<rparr>, w1)
               else (blank_executed\<lparr>ec_result := result\<rparr>, w1)
           | None \<Rightarrow>
               if ti_no_side_effect intent
               then (blank_executed\<lparr>ec_err := Some (ErrNew ''no-tool-execution intent missing prepared result'')\<rparr>, w1)
               else (case h_execute h (ti_scheduling intent) (bc_tools cfg (tc_name call)) call (w_ext w1) of
                   ((result, e), x) \<Rightarrow>
                     (\<lparr>ec_result = result, ec_err = e, ec_started = True\<rparr>,
                      w1\<lparr>w_executed := w_executed w1 @ [call], w_ext := x\<rparr>))))"

text \<open>The order the goroutines take: the host's, completed so that each one runs once.\<close>

definition wave_order :: "nat list \<Rightarrow> nat \<Rightarrow> nat list" where
  "wave_order wish n = (let chosen = remdups (filter (\<lambda>i. i < n) wish) in chosen @ filter (\<lambda>i. i \<notin> set chosen) [0..<n])"

fun run_wave :: "'w host \<Rightarrow> batch_config \<Rightarrow> (tool_call \<times> tool_intent) list \<Rightarrow> nat list \<Rightarrow>
    executed_call list \<Rightarrow> 'w world \<Rightarrow> executed_call list \<times> 'w world" where
  "run_wave h cfg jobs [] outcomes w = (outcomes, w)"
| "run_wave h cfg jobs (i # order) outcomes w =
     (case run_call h cfg (fst (jobs ! i)) (snd (jobs ! i)) w of
        (out, w') \<Rightarrow> run_wave h cfg jobs order (outcomes[i := out]) w')"

text \<open>Settling one outcome: identity and shape checks, status, and the record of what happened.\<close>

definition checked_err :: "url_parser \<Rightarrow> tool_call \<Rightarrow> executed_call \<Rightarrow> go_error option" where
  "checked_err url call out =
     (let mismatch = (if tr_call_id (ec_result out) \<noteq> [] \<and> tr_call_id (ec_result out) \<noteq> tc_id call
                      then errors_join [ec_err out, Some (ErrNew ''tool returned a mismatched call ID'')] else ec_err out) in
      case block_validate url (tool_result_block (with_call_id (tc_id call) (ec_result out))) of
        None \<Rightarrow> mismatch
      | Some e \<Rightarrow> errors_join [mismatch, Some (Wrapf ''invalid tool result: '' e)])"

definition call_outcome :: "string \<Rightarrow> tool_call \<Rightarrow> executed_call \<Rightarrow> outcome_status \<Rightarrow> go_error option \<Rightarrow> tool_outcome" where
  "call_outcome runID call out status execution_err =
     (let result = with_call_id (tc_id call) (ec_result out) in
      \<lparr>to_run_id = runID, to_call_id = tc_id call, to_status = status,
       to_result = (case execution_err of
           None \<Rightarrow> result
         | Some e \<Rightarrow> ToolResult (tc_id call) [text_block ((if ec_started out then [] else ''Not executed: '') @ err_text e)] True),
       to_error = (case execution_err of None \<Rightarrow> [] | Some e \<Rightarrow> err_text e)\<rparr>)"

text \<open>The status and the fact to record, once the context has been read for a failed call.\<close>

definition final_outcome :: "string \<Rightarrow> tool_call \<Rightarrow> executed_call \<Rightarrow> go_error option \<Rightarrow> go_error option \<Rightarrow> go_error option \<times> tool_outcome" where
  "final_outcome runID call out checked canceled =
     (let execution_err = (if canceled \<noteq> None then errors_join [checked, canceled] else checked);
          status = (if canceled \<noteq> None then statusFor execution_err
                    else if tr_is_error (ec_result out) \<or> checked \<noteq> None then OutcomeFailed else OutcomeSucceeded)
      in (execution_err, call_outcome runID call out status execution_err))"

text \<open>After the commit: the context runtime sees the stored message, then the callback the result.\<close>

definition notify_settled :: "'w host \<Rightarrow> batch_config \<Rightarrow> tool_outcome \<Rightarrow> session_record list \<Rightarrow> go_error option \<Rightarrow> 'w world \<Rightarrow> go_error option \<times> 'w world" where
  "notify_settled h cfg settled records err1 w =
     (let (err2, w4) = (if bc_runtime cfg
            then (case h_on_message h (the (sr_message (records ! 1))) (w_ext w) of
                (e, x) \<Rightarrow> (errors_join [err1, e], w\<lparr>w_ext := x\<rparr>))
            else (err1, w));
          (emit_err, w5) = do_emit h (EventToolCompleted (to_result settled) (record_reference_of (h_session h) (records ! 0))) w4
      in (errors_join [err2, emit_err], w5))"

definition settle_call :: "url_parser \<Rightarrow> 'w host \<Rightarrow> batch_config \<Rightarrow> string \<Rightarrow> tool_call \<Rightarrow> executed_call \<Rightarrow>
    go_error option \<times> 'w world \<Rightarrow> go_error option \<times> 'w world" where
  "settle_call url h cfg runID call out acc =
     (let (wave_err, w) = acc;
          checked = checked_err url call out;
          (canceled, w1) = (if checked \<noteq> None then do_poll h w else (None, w));
          (execution_err, settled) = final_outcome runID call out checked canceled;
          (committed, w2) = appendRecords h True (settle_records settled) w1;
          w3 = (if \<not> is_err committed \<and> ec_started out then w2\<lparr>w_ext := h_observe h call (w_ext w2)\<rparr> else w2);
          err1 = errors_join [wave_err, execution_err]
      in case committed of
           Inl e \<Rightarrow> (errors_join [err1, Some (Wrapf ''commit tool outcome: '' e)], w3)
         | Inr records \<Rightarrow> notify_settled h cfg settled records err1 w3)"

fun settle_wave :: "url_parser \<Rightarrow> 'w host \<Rightarrow> batch_config \<Rightarrow> string \<Rightarrow> (tool_call \<times> executed_call) list \<Rightarrow>
    go_error option \<times> 'w world \<Rightarrow> go_error option \<times> 'w world" where
  "settle_wave url h cfg runID [] acc = acc"
| "settle_wave url h cfg runID ((call, out) # rest) acc =
     settle_wave url h cfg runID rest (settle_call url h cfg runID call out acc)"

text \<open>Announcing the wave: the first failing callback stops it.\<close>

fun announce :: "'w host \<Rightarrow> (tool_call \<times> session_record) list \<Rightarrow> 'w world \<Rightarrow> go_error option \<times> 'w world" where
  "announce h [] w = (None, w)"
| "announce h ((call, r) # rest) w =
     (case do_emit h (EventToolStarted call (record_reference_of (h_session h) r)) w of
        (Some e, w') \<Rightarrow> (Some e, w')
      | (None, w') \<Rightarrow> announce h rest w')"

subsection \<open>The batch\<close>

definition intent_of :: "session_record \<Rightarrow> tool_intent" where
  "intent_of r = the (sr_tool_intent r)"

text \<open>The loop over waves: \<open>jobs\<close> are the calls from the cursor on, with their committed intents.\<close>

function batch_loop :: "url_parser \<Rightarrow> 'w host \<Rightarrow> batch_config \<Rightarrow> int \<Rightarrow> string \<Rightarrow> (tool_call \<times> session_record) list \<Rightarrow>
    'w world \<Rightarrow> go_error option \<times> 'w world" where
  "batch_loop url h cfg limit runID jobs w =
     (if jobs = [] then (None, w)
      else (case do_poll h w of
          (Some e, w1) \<Rightarrow> finishUnstarted h runID (map fst jobs) e w1
        | (None, w1) \<Rightarrow>
            (let wave = waveLength (map (ti_scheduling \<circ> intent_of \<circ> snd) jobs) limit (bc_workspace cfg);
                 now = take wave jobs; later = drop wave jobs in
             case announce h now w1 of
               (Some e, w2) \<Rightarrow> finishUnstarted h runID (map fst jobs) e w2
             | (None, w2) \<Rightarrow>
                 (let (outcomes, w3) = run_wave h cfg (map (\<lambda>(c, r). (c, intent_of r)) now)
                        (wave_order (h_order h (w_ext w2)) (length now)) (replicate (length now) blank_executed) w2;
                      (wave_err, w4) = settle_wave url h cfg runID (zip (map fst now) outcomes) (None, w3);
                      (canceled, w5) = do_poll h w4;
                      failed = errors_join [wave_err, canceled]
                  in case failed of
                       Some e \<Rightarrow> finishUnstarted h runID (map fst later) e w5
                     | None \<Rightarrow> batch_loop url h cfg limit runID later w5))))"
  by pat_completeness auto
termination
proof (relation "measure (\<lambda>(url, h, cfg, limit, runID, jobs, w). length jobs)", goal_cases)
  case (2 url h cfg limit runID jobs)
  then show ?case using waveLength_pos by (simp add: Suc_le_eq)
qed simp

definition batch_execute :: "url_parser \<Rightarrow> 'w host \<Rightarrow> batch_config \<Rightarrow> string \<Rightarrow> tool_call list \<Rightarrow> session_record list \<Rightarrow>
    'w world \<Rightarrow> go_error option \<times> 'w world" where
  "batch_execute url h cfg runID calls intents w =
     (if length calls \<noteq> length intents then (Some (ErrNew ''tool intent count mismatch''), w)
      else (let limit = (if bc_limit cfg \<le> 0 then 8 else bc_limit cfg) in
        if limit > 256 then finishUnstarted h runID calls (ErrNew ''tool concurrency limit exceeds 256'') w
        else batch_loop url h cfg limit runID (zip calls intents) w))"

subsection \<open>What is settled and what is executed\<close>

text \<open>The call identifiers of the tool outcomes in a sequence of records, in order.\<close>

definition outcome_ids :: "session_record list \<Rightarrow> string list" where
  "outcome_ids rs = map to_call_id (List.map_filter sr_tool_outcome rs)"

text \<open>The log accepts every append made with the detached settlement context.\<close>

definition commits_ok :: "'w host \<Rightarrow> bool" where
  "commits_ok h \<longleftrightarrow> (\<forall>rs x. \<not> is_err (fst (h_commit h True rs x)))"

lemma outcome_ids_simps [simp]:
  "outcome_ids [] = []" "outcome_ids (xs @ ys) = outcome_ids xs @ outcome_ids ys"
  "outcome_ids (r # rs) = (case sr_tool_outcome r of None \<Rightarrow> outcome_ids rs | Some t \<Rightarrow> to_call_id t # outcome_ids rs)"
  by (auto simp: outcome_ids_def List.map_filter_def split: option.splits)

lemma outcome_ids_builtin [simp]: "outcome_ids (map BuiltinRecord rs) = outcome_ids rs"
  by (induction rs) (auto split: option.splits)

lemma outcome_ids_settle [simp]: "outcome_ids (settle_records t) = [to_call_id t]"
  by (simp add: settle_records_def)

lemma do_poll_same [simp]:
  "do_poll h w = (e, w') \<Longrightarrow> w_log w' = w_log w \<and> w_executed w' = w_executed w \<and> w_events w' = w_events w"
  by (auto simp: do_poll_def split: prod.splits)

lemma do_emit_same [simp]:
  "do_emit h ev w = (e, w') \<Longrightarrow> w_log w' = w_log w \<and> w_executed w' = w_executed w \<and> w_events w' = w_events w @ [ev]"
  by (auto simp: do_emit_def split: prod.splits)

lemma appendRecords_log:
  assumes "appendRecords h d rs w = (r, w')"
  shows "w_log w' = (if is_err r then w_log w else w_log w @ map BuiltinRecord rs) \<and> w_executed w' = w_executed w \<and>
    w_events w' = w_events w \<and> (commits_ok h \<and> d \<longrightarrow> \<not> is_err r)"
proof (cases "h_commit h d (map BuiltinRecord rs) (w_ext w)")
  case (Pair c x)
  moreover have "\<not> is_err c" if "commits_ok h" d
    using Pair that unfolding commits_ok_def by (metis (full_types) fst_conv)
  ultimately show ?thesis using assms by (cases c) (auto simp: appendRecords_def)
qed

text \<open>\<open>progress\<close>: how one step of the coordinator changes the world, for a given list of calls.\<close>

definition settles :: "'w host \<Rightarrow> string list \<Rightarrow> 'w world \<Rightarrow> go_error option \<Rightarrow> 'w world \<Rightarrow> bool" where
  "settles h ids w e w' \<longleftrightarrow>
     (\<exists>done. outcome_ids (w_log w') = outcome_ids (w_log w) @ done \<and> subseq done ids \<and>
        (commits_ok h \<or> e = None \<longrightarrow> done = ids))"

lemma settles_append:
  assumes "settles h ids w e w'" "settles h ids' w' e' w''" "e' = None \<longrightarrow> e = None"
  shows "settles h (ids @ ids') w e' w''"
proof -
  obtain d d' where d: "outcome_ids (w_log w') = outcome_ids (w_log w) @ d" "subseq d ids" "commits_ok h \<or> e = None \<longrightarrow> d = ids"
    and d': "outcome_ids (w_log w'') = outcome_ids (w_log w') @ d'" "subseq d' ids'" "commits_ok h \<or> e' = None \<longrightarrow> d' = ids'"
    using assms unfolding settles_def by blast
  then have "outcome_ids (w_log w'') = outcome_ids (w_log w) @ d @ d'" "subseq (d @ d') (ids @ ids')"
    by (auto intro: list_emb_append_mono)
  with d d' assms(3) show ?thesis unfolding settles_def by auto
qed

lemma settles_same: "w_log w' = w_log w \<Longrightarrow> settles h [] w e w'"
  by (simp add: settles_def)

lemma settles_skip: "w_log w1 = w_log w \<Longrightarrow> settles h ids w1 e w' \<Longrightarrow> settles h ids w e w'"
  by (simp add: settles_def)

lemma errors_join_none2: "errors_join [a, b] = None \<longleftrightarrow> a = None \<and> b = None"
  by (simp add: errors_join_None_iff)

lemma final_outcome_id: "final_outcome runID call out c ca = (ee, settled) \<Longrightarrow> to_call_id settled = tc_id call"
  by (auto simp: final_outcome_def call_outcome_def Let_def)

lemma notify_settled_world:
  assumes "notify_settled h cfg settled records err1 w = (e, w')"
  shows "w_log w' = w_log w \<and> w_executed w' = w_executed w \<and> (e = None \<longrightarrow> err1 = None)"
proof -
  obtain x y where m: "h_on_message h (the (sr_message (records ! 1))) (w_ext w) = (x, y)" by fastforce
  obtain a b where e: "do_emit h (EventToolCompleted (to_result settled) (record_reference_of (h_session h) (records ! 0)))
      (if bc_runtime cfg then w\<lparr>w_ext := y\<rparr> else w) = (a, b)" by fastforce
  show ?thesis
    using assms m e do_emit_same [OF e]
    by (cases "bc_runtime cfg") (simp_all add: notify_settled_def Let_def, auto simp: errors_join_none2)
qed

lemma settle_call_result:
  assumes "settle_call url h cfg runID call out (we, w) = (we', w')"
  shows "settles h [tc_id call] w we' w' \<and> (we' = None \<longrightarrow> we = None) \<and> w_executed w' = w_executed w"
proof -
  obtain ca w1 where p: "(if checked_err url call out \<noteq> None then do_poll h w else (None, w)) = (ca, w1)" by fastforce
  then have same1: "w_log w1 = w_log w" "w_executed w1 = w_executed w" by (auto split: if_splits)
  obtain ee settled where f: "final_outcome runID call out (checked_err url call out) ca = (ee, settled)" by fastforce
  obtain r w2 where a: "appendRecords h True (settle_records settled) w1 = (r, w2)" by fastforce
  note log = appendRecords_log [OF a]
  define w3 where "w3 = (if \<not> is_err r \<and> ec_started out then w2\<lparr>w_ext := h_observe h call (w_ext w2)\<rparr> else w2)"
  have same3: "w_log w3 = w_log w2" "w_executed w3 = w_executed w2" by (simp_all add: w3_def)
  have step: "settle_call url h cfg runID call out (we, w) = (case r of
       Inl e \<Rightarrow> (errors_join [errors_join [we, ee], Some (Wrapf ''commit tool outcome: '' e)], w3)
     | Inr records \<Rightarrow> notify_settled h cfg settled records (errors_join [we, ee]) w3)"
    unfolding settle_call_def Let_def prod.case p f a w3_def ..
  show ?thesis
  proof (cases r)
    case (Inl e)
    with assms step have eq: "we' = errors_join [errors_join [we, ee], Some (Wrapf ''commit tool outcome: '' e)]" "w' = w3" by auto
    have "we' \<noteq> None" unfolding eq errors_join_none2 by simp
    then show ?thesis using eq(2) Inl log same1 same3 by (auto simp: settles_def)
  next
    case (Inr records)
    with assms step have n: "notify_settled h cfg settled records (errors_join [we, ee]) w3 = (we', w')" by simp
    show ?thesis
      using notify_settled_world [OF n] same3 log Inr same1 final_outcome_id [OF f]
      by (auto simp: settles_def errors_join_none2)
  qed
qed

lemma settle_wave_result:
  "settle_wave url h cfg runID jobs (we, w) = (we', w') \<Longrightarrow>
     settles h (map (tc_id \<circ> fst) jobs) w we' w' \<and> (we' = None \<longrightarrow> we = None) \<and> w_executed w' = w_executed w"
proof (induction jobs arbitrary: we w)
  case Nil
  then show ?case by (auto intro: settles_same)
next
  case (Cons j jobs)
  obtain call out where j: "j = (call, out)" by fastforce
  obtain we1 w1 where 1: "settle_call url h cfg runID call out (we, w) = (we1, w1)" by fastforce
  note s1 = settle_call_result [OF 1]
  from Cons.prems j 1 have "settle_wave url h cfg runID jobs (we1, w1) = (we', w')" by simp
  note s2 = Cons.IH [OF this]
  have "settles h ([tc_id call] @ map (tc_id \<circ> fst) jobs) w we' w'"
    using s1 s2 by (blast intro: settles_append)
  with s1 s2 j show ?case by (simp add: comp_def)
qed

lemma settle_concat_ids:
  "outcome_ids (concat (map (\<lambda>c. settle_records (unexecuted_outcome l r s e c)) calls)) = map tc_id calls"
  by (induction calls) (simp_all add: unexecuted_outcome_def)

lemma settleUnexecuted_result:
  assumes "settleUnexecuted h runID calls cause w = (e, w')"
  shows "settles h (map tc_id calls) w e w' \<and> w_executed w' = w_executed w"
proof -
  define batch where "batch = concat (map (\<lambda>c. settle_records (unexecuted_outcome ''Not executed: '' runID OutcomeCancelled cause c)) calls)"
  have ids: "outcome_ids batch = map tc_id calls" unfolding batch_def by (rule settle_concat_ids)
  show ?thesis
  proof (cases "batch = []")
    case True
    with assms ids show ?thesis by (auto simp: settleUnexecuted_def batch_def [symmetric] settles_def)
  next
    case False
    obtain r w1 where a: "appendRecords h True batch w = (r, w1)" by fastforce
    have "e = err_of r \<and> w' = w1" using assms a False by (simp add: settleUnexecuted_def batch_def [symmetric])
    then show ?thesis using appendRecords_log [OF a] ids by (cases r) (auto simp: settles_def err_of_def)
  qed
qed

lemma finishUnstarted_result:
  assumes "finishUnstarted h runID calls cause w = (e, w')"
  shows "settles h (map tc_id calls) w e w' \<and> w_executed w' = w_executed w \<and> e \<noteq> None"
proof -
  obtain se w1 where s: "settleUnexecuted h runID calls cause w = (se, w1)" by fastforce
  with assms have "e = errors_join [Some cause, se]" "w' = w1" by (simp_all add: finishUnstarted_def)
  with settleUnexecuted_result [OF s] show ?thesis by (auto simp: settles_def errors_join_none2)
qed

subsection \<open>Execution: each call at most once\<close>

lemma wave_order_distinct: "distinct (wave_order wish n)" and wave_order_set: "set (wave_order wish n) = {..<n}"
  by (auto simp: wave_order_def Let_def)

definition runnable :: "batch_config \<Rightarrow> tool_call \<times> tool_intent \<Rightarrow> bool" where
  "runnable cfg j = (bc_prepared cfg (tc_id (fst j)) = None \<and> \<not> ti_no_side_effect (snd j))"

lemma run_call_world:
  assumes "run_call h cfg call intent w = (out, w')"
  shows "w_log w' = w_log w \<and>
    (w_executed w' = w_executed w \<or> (w_executed w' = w_executed w @ [call] \<and> runnable cfg (call, intent)))"
  using assms by (auto simp: run_call_def runnable_def split: prod.splits option.splits if_splits)

lemma run_wave_world:
  "run_wave h cfg jobs order outs w = (outs', w') \<Longrightarrow>
     w_log w' = w_log w \<and> length outs' = length outs \<and>
     (\<exists>ran. w_executed w' = w_executed w @ map (\<lambda>i. fst (jobs ! i)) ran \<and> subseq ran order \<and> (\<forall>i \<in> set ran. runnable cfg (jobs ! i)))"
proof (induction order arbitrary: outs w)
  case (Cons i order)
  obtain out w1 where 1: "run_call h cfg (fst (jobs ! i)) (snd (jobs ! i)) w = (out, w1)" by fastforce
  note c = run_call_world [OF 1]
  from Cons.prems 1 have "run_wave h cfg jobs order (outs[i := out]) w1 = (outs', w')" by simp
  from Cons.IH [OF this] obtain ran where ran: "w_log w' = w_log w1" "length outs' = length outs"
    "w_executed w' = w_executed w1 @ map (\<lambda>i. fst (jobs ! i)) ran" "subseq ran order" "\<forall>i \<in> set ran. runnable cfg (jobs ! i)"
    by auto
  from c consider "w_executed w1 = w_executed w" | "w_executed w1 = w_executed w @ [fst (jobs ! i)]" "runnable cfg (jobs ! i)"
    by auto
  then show ?case
  proof cases
    case 1
    with c ran show ?thesis by (intro conjI exI [of _ ran]) auto
  next
    case 2
    with c ran show ?thesis by (intro conjI exI [of _ "i # ran"]) auto
  qed
qed auto

lemma map_fst_jobs: "map (tc_id \<circ> fst) (zip (map fst now) outs) = map tc_id (map fst now)" if "length outs = length now"
  using that by (simp add: map_fst_zip map_map [symmetric] del: map_map)

text \<open>One wave of the loop, as a relation between the worlds before and after it.\<close>

lemma announce_world: "announce h jobs w = (e, w') \<Longrightarrow> w_log w' = w_log w \<and> w_executed w' = w_executed w"
proof (induction jobs arbitrary: w)
  case (Cons j jobs)
  obtain c r where j: "j = (c, r)" by fastforce
  obtain x w1 where e: "do_emit h (EventToolStarted c (record_reference_of (h_session h) r)) w = (x, w1)" by fastforce
  from do_emit_same [OF e] Cons e j show ?case by (cases x) auto
qed simp

definition executes :: "batch_config \<Rightarrow> (tool_call \<times> session_record) list \<Rightarrow> 'w world \<Rightarrow> 'w world \<Rightarrow> bool" where
  "executes cfg jobs w w' \<longleftrightarrow>
     (\<exists>ran. w_executed w' = w_executed w @ ran \<and>
        mset ran \<subseteq># mset (map fst (filter (\<lambda>(c, r). runnable cfg (c, intent_of r)) jobs)))"

lemma executes_same: "w_executed w' = w_executed w \<Longrightarrow> executes cfg jobs w w'"
  by (simp add: executes_def)

lemma executes_append:
  assumes "executes cfg xs w w1" "executes cfg ys w1 w'" shows "executes cfg (xs @ ys) w w'"
proof -
  obtain r1 r2 where "w_executed w1 = w_executed w @ r1" "w_executed w' = w_executed w1 @ r2"
    "mset r1 \<subseteq># mset (map fst (filter (\<lambda>(c, r). runnable cfg (c, intent_of r)) xs))"
    "mset r2 \<subseteq># mset (map fst (filter (\<lambda>(c, r). runnable cfg (c, intent_of r)) ys))"
    using assms unfolding executes_def by blast
  then show ?thesis
    unfolding executes_def by (intro exI [of _ "r1 @ r2"]) (simp add: subset_mset.add_mono)
qed

lemma subseq_distinctD: "subseq ys xs \<Longrightarrow> distinct xs \<Longrightarrow> distinct ys"
  by (induction rule: list_emb.induct) (auto dest: list_emb_set)

lemma mset_nth_subset:
  assumes "distinct is" "set is \<subseteq> {i. i < length xs \<and> P (xs ! i)}"
  shows "mset (map ((!) xs) is) \<subseteq># mset (filter P xs)"
proof -
  let ?all = "filter (\<lambda>i. P (xs ! i)) [0..<length xs]"
  have "mset_set (set is) \<subseteq># mset_set (set ?all)"
    using assms(2) by (intro subset_imp_msubset_mset_set) auto
  then have "mset is \<subseteq># mset ?all"
    using assms(1) by (simp only: mset_set_set distinct_filter distinct_upt)
  then have "image_mset ((!) xs) (mset is) \<subseteq># image_mset ((!) xs) (mset ?all)" by (rule image_mset_subseteq_mono)
  moreover have "map ((!) xs) ?all = filter P xs"
    using filter_map [of P "(!) xs" "[0..<length xs]"] by (simp add: map_nth comp_def)
  ultimately show ?thesis by (metis mset_map)
qed

lemma wave_executes:
  assumes "run_wave h cfg (map (\<lambda>(c, r). (c, intent_of r)) now) (wave_order wish (length now)) outs w = (outs', w')"
  shows "executes cfg now w w' \<and> w_log w' = w_log w \<and> length outs' = length outs"
proof -
  let ?jobs = "map (\<lambda>(c, r). (c, intent_of r)) now"
  from run_wave_world [OF assms] obtain ran where ran: "w_log w' = w_log w" "length outs' = length outs"
    "w_executed w' = w_executed w @ map (\<lambda>i. fst (?jobs ! i)) ran" "subseq ran (wave_order wish (length now))"
    "\<forall>i \<in> set ran. runnable cfg (?jobs ! i)" by blast
  from ran(4) have d: "distinct ran" "set ran \<subseteq> {..<length now}"
    using wave_order_distinct [of wish "length now"] wave_order_set [of wish "length now"]
    by (auto dest: list_emb_set dest: subseq_distinctD)
  have run: "i < length now \<and> (\<lambda>(c, r). runnable cfg (c, intent_of r)) (now ! i)" if "i \<in> set ran" for i
  proof -
    from that d(2) have "i < length now" by blast
    with bspec [OF ran(5) that] show ?thesis by (simp add: case_prod_beta)
  qed
  have "set ran \<subseteq> {i. i < length now \<and> (\<lambda>(c, r). runnable cfg (c, intent_of r)) (now ! i)}"
  proof
    fix i assume "i \<in> set ran"
    from run [OF this] show "i \<in> {i. i < length now \<and> (\<lambda>(c, r). runnable cfg (c, intent_of r)) (now ! i)}" by (rule CollectI)
  qed
  from mset_nth_subset [OF d(1) this]
  have "mset (map ((!) now) ran) \<subseteq># mset (filter (\<lambda>(c, r). runnable cfg (c, intent_of r)) now)" .
  from image_mset_subseteq_mono [OF this, of fst]
  have le: "mset (map (fst \<circ> (!) now) ran) \<subseteq># mset (map fst (filter (\<lambda>(c, r). runnable cfg (c, intent_of r)) now))"
    by (simp only: mset_map [symmetric] map_map)
  have eq: "map (\<lambda>i. fst (?jobs ! i)) ran = map (fst \<circ> (!) now) ran"
  proof (rule map_cong [OF refl])
    fix i assume "i \<in> set ran"
    with d(2) have "i < length now" by blast
    then show "fst (?jobs ! i) = (fst \<circ> (!) now) i" by (simp add: case_prod_beta)
  qed
  from ran(3) have "w_executed w' = w_executed w @ map (fst \<circ> (!) now) ran" unfolding eq .
  with le have "executes cfg now w w'" unfolding executes_def by blast
  with ran(1,2) show ?thesis by blast
qed

lemma batch_loop_result:
  "batch_loop url h cfg limit runID jobs w = (e, w') \<Longrightarrow>
     settles h (map (tc_id \<circ> fst) jobs) w e w' \<and> executes cfg jobs w w'"
proof (induction url h cfg limit runID jobs w arbitrary: e w' rule: batch_loop.induct)
  case (1 url h cfg limit runID jobs w)
  show ?case
  proof (cases "jobs = []")
    case True
    with 1(2) show ?thesis by (simp add: settles_same executes_same)
  next
    case ne: False
    obtain p w1 where p: "do_poll h w = (p, w1)" by fastforce
    note pw = do_poll_same [OF p]
    define wave where "wave = waveLength (map (ti_scheduling \<circ> intent_of \<circ> snd) jobs) limit (bc_workspace cfg)"
    obtain a w2 where a: "announce h (take wave jobs) w1 = (a, w2)" by fastforce
    note aw = announce_world [OF a]
    obtain outs w3 where r: "run_wave h cfg (map (\<lambda>(c, r). (c, intent_of r)) (take wave jobs))
        (wave_order (h_order h (w_ext w2)) (length (take wave jobs))) (replicate (length (take wave jobs)) blank_executed) w2 = (outs, w3)"
      by fastforce
    note rw = wave_executes [OF r]
    obtain we w4 where s: "settle_wave url h cfg runID (zip (map fst (take wave jobs)) outs) (None, w3) = (we, w4)" by fastforce
    note sw = settle_wave_result [OF s]
    obtain c w5 where c: "do_poll h w4 = (c, w5)" by fastforce
    note cw = do_poll_same [OF c]
    have step: "batch_loop url h cfg limit runID jobs w =
       (case p of Some e \<Rightarrow> finishUnstarted h runID (map fst jobs) e w1
        | None \<Rightarrow> (case a of Some e \<Rightarrow> finishUnstarted h runID (map fst jobs) e w2
          | None \<Rightarrow> (case errors_join [we, c] of
              Some e \<Rightarrow> finishUnstarted h runID (map fst (drop wave jobs)) e w5
            | None \<Rightarrow> batch_loop url h cfg limit runID (drop wave jobs) w5)))"
      using ne p a r s c by (subst batch_loop.simps) (simp add: Let_def wave_def split: option.split)
    show ?thesis
    proof (cases "p = None \<and> a = None")
      case False
      then obtain cause wx where "finishUnstarted h runID (map fst jobs) cause wx = (e, w')" "w_log wx = w_log w" "w_executed wx = w_executed w"
        using 1(2) step pw aw by (cases p; cases a) auto
      with finishUnstarted_result show ?thesis
        by (metis settles_skip executes_same map_map)
    next
      case ok: True
      have now: "settles h (map (tc_id \<circ> fst) (take wave jobs)) w we w5"
        using sw cw rw pw aw unfolding settles_def by (simp add: map_fst_jobs)
      have ex: "executes cfg (take wave jobs) w w5"
        using rw sw cw pw aw by (simp add: executes_def)
      have split: "jobs = take wave jobs @ drop wave jobs" by simp
      have later: "settles h (map (tc_id \<circ> fst) (drop wave jobs)) w5 e w' \<and> executes cfg (drop wave jobs) w5 w' \<and> (e = None \<longrightarrow> we = None)"
      proof (cases "errors_join [we, c]")
        case None
        then have "batch_loop url h cfg limit runID (drop wave jobs) w5 = (e, w')" using ok step 1(2) by simp
        from 1(1) [OF ne p [symmetric] _ wave_def refl refl a [symmetric] _ r [symmetric] refl s [symmetric] refl c [symmetric] refl _ None this]
        show ?thesis using ok None by (simp add: errors_join_none2 comp_def)
      next
        case (Some x)
        then have "finishUnstarted h runID (map fst (drop wave jobs)) x w5 = (e, w')" using ok step 1(2) by simp
        from finishUnstarted_result [OF this] show ?thesis by (auto simp: executes_same)
      qed
      show ?thesis
        using settles_append [OF now] executes_append [OF ex] later by (metis split map_append)
    qed
  qed
qed

text \<open>The whole batch; with a wrong number of intents it does nothing.\<close>

lemma batch_execute_result:
  assumes "batch_execute url h cfg runID calls intents w = (e, w')"
  shows "(length calls = length intents \<longrightarrow> settles h (map tc_id calls) w e w') \<and> executes cfg (zip calls intents) w w' \<and>
    (length calls \<noteq> length intents \<longrightarrow> e \<noteq> None \<and> w' = w)"
proof (cases "length calls = length intents")
  case False
  with assms show ?thesis by (auto simp: batch_execute_def executes_same)
next
  case same: True
  show ?thesis
  proof (cases "(if bc_limit cfg \<le> 0 then 8 else bc_limit cfg) > 256")
    case True
    with assms same have "finishUnstarted h runID calls (ErrNew ''tool concurrency limit exceeds 256'') w = (e, w')"
      by (simp add: batch_execute_def Let_def split: if_splits)
    from finishUnstarted_result [OF this] same show ?thesis by (simp add: executes_same)
  next
    case False
    with assms same have "batch_loop url h cfg (if bc_limit cfg \<le> 0 then 8 else bc_limit cfg) runID (zip calls intents) w = (e, w')"
      by (simp add: batch_execute_def Let_def split: if_splits)
    from batch_loop_result [OF this] same show ?thesis by (simp add: map_map [symmetric] del: map_map)
  qed
qed

subsection \<open>Properties\<close>

text \<open>
  C29. A wave takes calls from the front of the batch, at least one and no more than the limit;
  all calls of a wave are pairwise free of conflicts, and a wave of more than one call contains
  only calls that declared themselves safe to run beside others. A wave stops only for a reason:
  the limit, the end, a call that must run alone, or a conflict with a call already in it.
\<close>

theorem wave_is_safe:
  fixes ws
  assumes "ss \<noteq> []" "limit > 0"
  defines "n \<equiv> waveLength ss limit ws"
  shows "1 \<le> n \<and> n \<le> length ss \<and> int n \<le> limit \<and>
    pairwise_ok (SchedulingConflicts ws) (take n ss) \<and>
    (n > 1 \<longrightarrow> list_all joins_wave (take n ss)) \<and>
    (n < length ss \<longrightarrow> int n = limit \<or> \<not> joins_wave (hd ss) \<or> \<not> joins_wave (ss ! n) \<or>
       \<not> pairwise_ok (SchedulingConflicts ws) (take (Suc n) ss))"
proof -
  obtain first rest where ss: "ss = first # rest" using assms(1) by (cases ss) auto
  have bounds: "1 \<le> n" "n \<le> length ss" using waveLength_pos waveLength_le [OF assms(1)] by (auto simp: n_def)
  show ?thesis
  proof (cases "joins_wave first")
    case False
    then show ?thesis using ss bounds assms(2) by (simp add: n_def)
  next
    case True
    then have n: "n = wave_grow ws limit [first] rest" by (simp add: n_def ss)
    show ?thesis
      using wave_grow_ok [of ws "[first]" limit rest] True bounds assms(2) unfolding n [symmetric] ss by auto
  qed
qed

definition safe_scheduling :: scheduling where
  "safe_scheduling = \<lparr>ConcurrentSafe = True, Resources = [\<lparr>rc_resource = ''a'', rc_access = AccessRead\<rparr>], ExecutionMode = Parallel, ManagesOwnTimeout = False\<rparr>"

definition writing_scheduling :: scheduling where
  "writing_scheduling = \<lparr>ConcurrentSafe = True, Resources = [\<lparr>rc_resource = ''./a'', rc_access = AccessWrite\<rparr>], ExecutionMode = Parallel, ManagesOwnTimeout = False\<rparr>"

theorem wave_is_safe_witness:
  "let ss = [safe_scheduling, safe_scheduling, writing_scheduling] in
     waveLength ss 8 ''/w'' = 2 \<and> pairwise_ok (SchedulingConflicts ''/w'') (take (waveLength ss 8 ''/w'') ss)"
proof -
  have "waveLength [safe_scheduling, safe_scheduling, writing_scheduling] 8 ''/w'' = 2" by code_simp
  with wave_is_safe [of "[safe_scheduling, safe_scheduling, writing_scheduling]" 8 "''/w''"] show ?thesis
    by (simp add: Let_def)
qed

text \<open>
  C24. Whatever the tools, the callback, the context runtime and the context do, a batch settles
  its calls in the model's order and none twice: the outcomes it commits are a subsequence of the
  calls. If it returns no error, or if the log accepts every settlement append, every call has exactly one
  outcome - also the calls that never ran because of a cancellation or an earlier failure.
\<close>

theorem batch_settles_each_call:
  assumes "length calls = length intents"
    and "batch_execute url h cfg runID calls intents w = (e, w')"
  shows "\<exists>done. outcome_ids (w_log w') = outcome_ids (w_log w) @ done \<and> subseq done (map tc_id calls) \<and>
     (commits_ok h \<or> e = None \<longrightarrow> done = map tc_id calls)"
  using batch_execute_result [OF assms(2)] assms(1) by (simp add: settles_def)

text \<open>A host for witnesses: the log accepts everything, the tools echo, the context is never cancelled.\<close>

definition plain_host :: "unit host" where
  "plain_host = \<lparr>h_session = ''s'', h_poll = (\<lambda>w. (None, w)), h_commit = (\<lambda>d rs w. (Inr rs, w)), h_emit = (\<lambda>e w. (None, w)),
     h_execute = (\<lambda>s t c w. ((ToolResult [] [text_block ''ok''] False, None), w)), h_on_message = (\<lambda>m w. (None, w)),
     h_observe = (\<lambda>c w. w), h_order = (\<lambda>w. [1, 0])\<rparr>"

definition plain_world :: "unit world" where
  "plain_world = \<lparr>w_log = [], w_events = [], w_executed = [], w_ext = ()\<rparr>"

definition plain_config :: batch_config where
  "plain_config = \<lparr>bc_workspace = ''/w'', bc_limit = 0, bc_prepared = (\<lambda>_. None), bc_tools = (\<lambda>_. None), bc_runtime = True\<rparr>"

definition plain_call :: "string \<Rightarrow> tool_call" where
  "plain_call i = \<lparr>tc_id = i, tc_name = ''t'', tc_arguments = ''{}'', tc_provider_state = []\<rparr>"

definition plain_intent :: "scheduling \<Rightarrow> string \<Rightarrow> session_record" where
  "plain_intent s i = tool_intent_record \<lparr>ti_run_id = ''r'', ti_call = plain_call i, ti_declared_call = None, ti_no_side_effect = False,
     ti_effect = \<lparr>ef_kind = EffectRead, ef_description = [], ef_resources = []\<rparr>, ti_scheduling = s, ti_read_only = True\<rparr>"

lemma plain_commits: "commits_ok plain_host"
  by (simp add: commits_ok_def plain_host_def)

theorem batch_settles_each_call_witness:
  "outcome_ids (w_log (snd (batch_execute (\<lambda>_. None) plain_host plain_config ''r'' [plain_call ''a'', plain_call ''b'']
      [plain_intent safe_scheduling ''a'', plain_intent writing_scheduling ''b''] plain_world))) = [''a'', ''b'']"
proof -
  let ?calls = "[plain_call ''a'', plain_call ''b'']"
  let ?intents = "[plain_intent safe_scheduling ''a'', plain_intent writing_scheduling ''b'']"
  have "length ?calls = length ?intents" by simp
  from batch_settles_each_call [OF this prod.collapse [symmetric], of "\<lambda>_. None" plain_host plain_config "''r''" plain_world]
  show ?thesis using plain_commits by (auto simp: plain_world_def plain_call_def)
qed

text \<open>
  A batch starts the execution of each call at most once, and never of a call that has a
  prepared result or whose committed intent promises that the tool will not run.
\<close>

theorem batch_executes_at_most_once:
  "\<exists>ran. w_executed (snd (batch_execute url h cfg runID calls intents w)) = w_executed w @ ran \<and>
     mset ran \<subseteq># mset (map fst (filter (\<lambda>(c, r). bc_prepared cfg (tc_id c) = None \<and> \<not> ti_no_side_effect (intent_of r)) (zip calls intents)))"
  using batch_execute_result [of url h cfg runID calls intents w, OF prod.collapse [symmetric]] by (simp add: executes_def runnable_def)

text \<open>
  C30. The record that settles a call that was not executed is accepted by validation exactly when
  the run and call identifiers are set, and both the call identifier and the text of the cause are
  valid UTF-8. In particular a cause whose text is not valid UTF-8 (a file name or the
  output of a program) makes the settlement itself invalid, so a store that validates cannot keep it.
\<close>

theorem settlement_valid_iff:
  "record_validate url (BuiltinRecord (tool_outcome_record (unexecuted_outcome ''Not executed: '' runID status cause call))) = None \<longleftrightarrow>
     runID \<noteq> [] \<and> tc_id call \<noteq> [] \<and> utf8_valid (tc_id call) \<and> utf8_valid (err_text cause)"
proof -
  have "utf8_valid ''Not executed: ''" by code_simp
  then have "utf8_valid (''Not executed: '' @ err_text cause) = utf8_valid (err_text cause)"
    by (rule utf8_valid_append_iff)
  then show ?thesis
    unfolding validate_tool_outcome by (auto simp: unexecuted_outcome_def text_result_valid simp del: append_Cons)
qed

end
