(* ===== verification/Tool_Prepare.thy ===== *)
theory Tool_Prepare
  imports Tool_Batch
begin

section \<open>Preparing tool calls, and the built-in middleware\<close>

text \<open>
  sdk/kernel/core/tool_prepare.go (the prepare hooks run before any intent is committed),
  builtins.go (dangling calls, tool timeout) and loop_detection.go. A prepare hook is code over
  the state \<open>'w\<close>: it answers with a decision, an error, and the copy of the call it was handed.
  \<open>poll\<close> is \<open>ctx.Err()\<close>. Hook audits are diagnostics and are not modelled.
\<close>

record tool_preparation =
  tp_arguments :: "string option"
  tp_result :: "tool_result option"

definition no_preparation :: tool_preparation where
  "no_preparation = \<lparr>tp_arguments = None, tp_result = None\<rparr>"

type_synonym 'w prepare_hook = "tool option \<Rightarrow> tool_call \<Rightarrow> 'w \<Rightarrow> (tool_preparation \<times> go_error option \<times> tool_call) \<times> 'w"
type_synonym 'w poll = "'w \<Rightarrow> go_error option \<times> 'w"

subsection \<open>One hook\<close>

definition check_preparation :: "url_parser \<Rightarrow> tool_call \<Rightarrow> tool_preparation \<Rightarrow> tool_preparation result" where
  "check_preparation url frozen d =
     (if tp_arguments d \<noteq> None \<and> tp_result d \<noteq> None
      then Inl (ErrNew ''tool preparation cannot replace arguments and result together'')
      else if (case tp_arguments d of None \<Rightarrow> False | Some a \<Rightarrow> \<not> ValidJSON a)
      then Inl (ErrNew ''prepared tool arguments must be valid UTF-8 JSON'')
      else (case tp_result d of
          None \<Rightarrow> Inr d
        | Some r \<Rightarrow>
            if tr_call_id r \<noteq> [] \<and> tr_call_id r \<noteq> tc_id frozen then Inl (ErrNew ''prepared result has mismatched call ID'')
            else (case block_validate url (tool_result_block (with_call_id (tc_id frozen) r)) of
                Some e \<Rightarrow> Inl (Wrapf ''invalid prepared result: '' e)
              | None \<Rightarrow> Inr (d\<lparr>tp_result := Some (with_call_id (tc_id frozen) r)\<rparr>))))"

definition invokePrepareHook :: "url_parser \<Rightarrow> 'w prepare_hook \<Rightarrow> tool option \<Rightarrow> tool_call \<Rightarrow> 'w \<Rightarrow> tool_preparation result \<times> 'w" where
  "invokePrepareHook url hook tool call w =
     (case hook tool call w of
        ((d, e, owned), w1) \<Rightarrow>
          (case (if owned \<noteq> call
                 then errors_join [e, Some (ErrNew ''prepare hook mutated its input; return Arguments explicitly'')] else e) of
             Some err \<Rightarrow> (Inl err, w1)
           | None \<Rightarrow> (check_preparation url call d, w1)))"

subsection \<open>One call through the layers\<close>

text \<open>The inner loop: a result ends it (\<open>break\<close>), arguments are replaced and the next layer sees them.\<close>

fun prepare_call :: "url_parser \<Rightarrow> 'w poll \<Rightarrow> (string \<Rightarrow> tool option) \<Rightarrow> (string \<times> 'w prepare_hook option) list \<Rightarrow>
    tool_call \<Rightarrow> 'w \<Rightarrow> (tool_call \<times> tool_result option \<times> go_error option) \<times> 'w" where
  "prepare_call url poll tools [] call w = ((call, None, None), w)"
| "prepare_call url poll tools ((layer, hook) # layers) call w =
     (case poll w of
        (Some e, w1) \<Rightarrow> ((call, None, Some e), w1)
      | (None, w1) \<Rightarrow>
          (case hook of
             None \<Rightarrow> prepare_call url poll tools layers call w1
           | Some h \<Rightarrow>
               (case invokePrepareHook url h (tools (tc_name call)) call w1 of
                  (Inl e, w2) \<Rightarrow> ((call, None, Some (Wrapf (''prepare tool '' @ tc_id call @ '' in '' @ layer @ '': '') e)), w2)
                | (Inr d, w2) \<Rightarrow>
                    (let call1 = (case tp_arguments d of None \<Rightarrow> call | Some a \<Rightarrow> call\<lparr>tc_arguments := a\<rparr>) in
                     case tp_result d of
                       Some r \<Rightarrow> ((call1, Some (with_call_id (tc_id call1) r), None), w2)
                     | None \<Rightarrow> prepare_call url poll tools layers call1 w2))))"

record prepared =
  pr_calls :: "tool_call list"
  pr_results :: "(string \<times> tool_result) list"
  pr_failed :: "nat option"
  pr_error :: "go_error option"

text \<open>The outer loop: \<open>done\<close> are the calls already prepared, later results win in the map.\<close>

fun prepare_calls :: "url_parser \<Rightarrow> 'w poll \<Rightarrow> (string \<Rightarrow> tool option) \<Rightarrow> (string \<times> 'w prepare_hook option) list \<Rightarrow>
    tool_call list \<Rightarrow> (string \<times> tool_result) list \<Rightarrow> tool_call list \<Rightarrow> 'w \<Rightarrow> prepared \<times> 'w" where
  "prepare_calls url poll tools layers done results [] w =
     (case poll w of (e, w1) \<Rightarrow> (\<lparr>pr_calls = done, pr_results = results, pr_failed = None, pr_error = e\<rparr>, w1))"
| "prepare_calls url poll tools layers done results (c # cs) w =
     (case prepare_call url poll tools layers c w of
        ((c1, r, Some e), w1) \<Rightarrow>
          (\<lparr>pr_calls = done @ c1 # cs, pr_results = results, pr_failed = Some (length done), pr_error = Some e\<rparr>, w1)
      | ((c1, r, None), w1) \<Rightarrow>
          prepare_calls url poll tools layers (done @ [c1])
            (case r of None \<Rightarrow> results | Some x \<Rightarrow> (tc_id c1, x) # results) cs w1)"

definition prepareToolCalls :: "url_parser \<Rightarrow> 'w poll \<Rightarrow> (string \<Rightarrow> tool option) \<Rightarrow> (string \<times> 'w prepare_hook option) list \<Rightarrow>
    tool_call list \<Rightarrow> 'w \<Rightarrow> prepared \<times> 'w" where
  "prepareToolCalls url poll tools layers declared w = prepare_calls url poll tools layers [] [] declared w"

subsection \<open>What preparation may change\<close>

definition same_identity :: "tool_call \<Rightarrow> tool_call \<Rightarrow> bool" where
  "same_identity c d = (tc_id c = tc_id d \<and> tc_name c = tc_name d \<and> tc_provider_state c = tc_provider_state d)"

definition result_ok :: "url_parser \<Rightarrow> string \<Rightarrow> tool_result \<Rightarrow> bool" where
  "result_ok url cid r = (tr_call_id r = cid \<and> block_validate url (tool_result_block r) = None)"

lemma with_call_id_simps [simp]:
  "tr_call_id (with_call_id i r) = i" "with_call_id i (with_call_id j r) = with_call_id i r"
  by (cases r; simp)+

lemma invoke_ok:
  assumes "invokePrepareHook url h tool call w = (Inr d, w1)"
  shows "(\<forall>a. tp_arguments d = Some a \<longrightarrow> ValidJSON a) \<and> (\<forall>r. tp_result d = Some r \<longrightarrow> result_ok url (tc_id call) r)"
proof -
  obtain d0 where c: "check_preparation url call d0 = Inr d"
    using assms by (auto simp: invokePrepareHook_def split: prod.splits option.splits)
  from c show ?thesis
    by (auto simp: check_preparation_def result_ok_def split: if_splits option.splits)
qed

lemma prepare_call_ok:
  "prepare_call url poll tools layers c w = ((c1, r, e), w1) \<Longrightarrow>
     same_identity c1 c \<and> (ValidJSON (tc_arguments c) \<longrightarrow> ValidJSON (tc_arguments c1)) \<and>
     (\<forall>x. r = Some x \<longrightarrow> result_ok url (tc_id c) x)"
proof (induction layers arbitrary: c w)
  case (Cons l layers)
  obtain layer hook where l: "l = (layer, hook)" by fastforce
  obtain p w2 where p: "poll w = (p, w2)" by fastforce
  show ?case
  proof (cases "p = None \<and> hook \<noteq> None")
    case False
    with Cons.prems l p Cons.IH show ?thesis by (cases p; cases hook) (auto simp: same_identity_def)
  next
    case True
    then obtain h where h: "hook = Some h" by blast
    obtain d w3 where i: "invokePrepareHook url h (tools (tc_name c)) c w2 = (d, w3)" by fastforce
    show ?thesis
    proof (cases d)
      case (Inl x)
      with Cons.prems l p h True i show ?thesis by (auto simp: same_identity_def)
    next
      case (Inr dd)
      note ok = invoke_ok [OF i [unfolded Inr]]
      define c2 where "c2 = (case tp_arguments dd of None \<Rightarrow> c | Some a \<Rightarrow> c\<lparr>tc_arguments := a\<rparr>)"
      have c2: "same_identity c2 c" "ValidJSON (tc_arguments c) \<longrightarrow> ValidJSON (tc_arguments c2)" "tc_id c2 = tc_id c"
        using ok by (auto simp: c2_def same_identity_def split: option.splits)
      show ?thesis
      proof (cases "tp_result dd")
        case None
        with Cons.prems l p h True i Inr have "prepare_call url poll tools layers c2 w3 = ((c1, r, e), w1)"
          by (simp add: Let_def c2_def)
        from Cons.IH [OF this] c2 show ?thesis by (auto simp: same_identity_def)
      next
        case (Some x)
        with Cons.prems l p h True i Inr have "c1 = c2" "r = Some (with_call_id (tc_id c2) x)"
          by (auto simp: Let_def c2_def)
        moreover have "with_call_id (tc_id c2) x = x" using ok Some c2(3) by (cases x) (auto simp: result_ok_def)
        ultimately show ?thesis using c2 ok Some by auto
      qed
    qed
  qed
qed (auto simp: same_identity_def)

lemma prepare_calls_ok:
  "prepare_calls url poll tools layers done results cs w = (p, w1) \<Longrightarrow>
     list_all (\<lambda>(i, r). result_ok url i r) results \<Longrightarrow>
     (\<exists>cs'. pr_calls p = done @ cs' \<and> list_all2 same_identity cs' cs \<and>
        (list_all (\<lambda>c. ValidJSON (tc_arguments c)) cs \<longrightarrow> list_all (\<lambda>c. ValidJSON (tc_arguments c)) cs')) \<and>
     list_all (\<lambda>(i, r). result_ok url i r) (pr_results p)"
proof (induction cs arbitrary: "done" results w)
  case Nil
  then show ?case by (cases "poll w") auto
next
  case (Cons c cs)
  obtain c1 r e w2 where c: "prepare_call url poll tools layers c w = ((c1, r, e), w2)" by (metis surj_pair)
  note ok = prepare_call_ok [OF c]
  have refl: "list_all2 same_identity cs cs" by (simp add: list.rel_refl same_identity_def)
  show ?case
  proof (cases e)
    case (Some x)
    with Cons.prems c have "p = \<lparr>pr_calls = done @ c1 # cs, pr_results = results, pr_failed = Some (length done), pr_error = Some x\<rparr>" by simp
    with ok refl Cons.prems(2) show ?thesis by (intro conjI exI [of _ "c1 # cs"]) auto
  next
    case None
    let ?results = "case r of None \<Rightarrow> results | Some x \<Rightarrow> (tc_id c1, x) # results"
    have "list_all (\<lambda>(i, r). result_ok url i r) ?results"
      using ok Cons.prems(2) by (cases r) (auto simp: same_identity_def)
    moreover have "prepare_calls url poll tools layers (done @ [c1]) ?results cs w2 = (p, w1)"
      using Cons.prems(1) c None by simp
    ultimately obtain cs' where "pr_calls p = (done @ [c1]) @ cs'" "list_all2 same_identity cs' cs"
      "list_all (\<lambda>c. ValidJSON (tc_arguments c)) cs \<longrightarrow> list_all (\<lambda>c. ValidJSON (tc_arguments c)) cs'"
      "list_all (\<lambda>(i, r). result_ok url i r) (pr_results p)"
      using Cons.IH by blast
    with ok show ?thesis by (intro conjI exI [of _ "c1 # cs'"]) auto
  qed
qed

text \<open>
  Preparation can change a call's arguments and nothing else: whatever the hooks do, every
  declared call is still there, in order, with its identifier, name and provider state; arguments
  stay valid JSON; and every prepared result carries the identifier of its call and is a valid
  result block.
\<close>

theorem prepare_keeps_identity:
  "let p = fst (prepareToolCalls url poll tools layers declared w) in
     list_all2 same_identity (pr_calls p) declared \<and>
     (list_all (\<lambda>c. ValidJSON (tc_arguments c)) declared \<longrightarrow> list_all (\<lambda>c. ValidJSON (tc_arguments c)) (pr_calls p)) \<and>
     list_all (\<lambda>(i, r). result_ok url i r) (pr_results p)"
proof -
  obtain p w1 where p: "prepare_calls url poll tools layers [] [] declared w = (p, w1)" by fastforce
  from prepare_calls_ok [OF p] show ?thesis by (simp add: prepareToolCalls_def p Let_def)
qed

theorem prepare_keeps_identity_witness:
  "list_all (\<lambda>c. ValidJSON (tc_arguments c)) (pr_calls (fst (prepareToolCalls (\<lambda>_. None) (\<lambda>w. (None, w)) (\<lambda>_. None)
     [(''rewrite'', Some (\<lambda>t c w. ((no_preparation\<lparr>tp_arguments := Some ''[1]''\<rparr>, None, c), w)))] [plain_call ''a''] ())))"
proof -
  have "ValidJSON ''{}''" by code_simp
  with prepare_keeps_identity [of "\<lambda>_. None" "\<lambda>w. (None, w)" "\<lambda>_. None"
      "[(''rewrite'', Some (\<lambda>t c w. ((no_preparation\<lparr>tp_arguments := Some ''[1]''\<rparr>, None, c), w)))]" "[plain_call ''a'']" "()"]
  show ?thesis by (simp add: Let_def plain_call_def)
qed

end
