(* ===== verification/Tool_Execute.thy ===== *)
theory Tool_Execute
  imports Records Tool_Registry
begin

section \<open>Executing one tool call through the middleware onion\<close>

text \<open>
  sdk/kernel/core/tool_execute.go. Middleware is arbitrary code over the state \<open>'w\<close>; each layer may
  have a hook before the tool, a wrapper around it and a hook after it. A hook receives its own
  copy of the frozen call; the copy it leaves behind is part of its answer, so mutation is
  visible. A wrapper is a strategy tree: it returns, changes the state, or calls \<open>next\<close> with a call
  of its choice and goes on with what it gets - any number of times, in any order. Wrapper code
  that calls \<open>next\<close> from several goroutines, or after it returned, is refused by the lease of the
  source before anything runs; only sequential calls have a step here. The execution context that
  travels beside the call is rebuilt from the runtime's own at every layer and is not modelled.
  \<open>tool\<close> is the bound implementation's \<open>Execute\<close>, \<^term>\<open>None\<close> for an unknown tool.
\<close>

datatype 'w wrapper =
    WReturn tool_result "go_error option" tool_call
  | WEffect "'w \<Rightarrow> 'w" "'w \<Rightarrow> 'w wrapper"
  | WNext tool_call "tool_result \<Rightarrow> go_error option \<Rightarrow> 'w wrapper"

record 'w middleware =
  mw_name :: string
  mw_before_tool :: "(tool_call \<Rightarrow> 'w \<Rightarrow> (go_error option \<times> tool_call) \<times> 'w) option"
  mw_wrap_tool :: "(tool_call \<Rightarrow> 'w wrapper) option"
  mw_after_tool :: "(tool_call \<Rightarrow> tool_result \<Rightarrow> 'w \<Rightarrow> (go_error option \<times> tool_call \<times> tool_result) \<times> 'w) option"

type_synonym 'w tool_exec = "tool_call \<Rightarrow> 'w \<Rightarrow> (tool_result \<times> go_error option) \<times> 'w"

text \<open>The state of one execution; \<open>xs_runs\<close> records each actual run of the tool and its error.\<close>

record 'w exec_state =
  xs_world :: 'w
  xs_base_used :: bool
  xs_base_violation :: "go_error option"
  xs_runs :: "(tool_call \<times> go_error option) list"

type_synonym 'w tool_func = "tool_call \<Rightarrow> 'w exec_state \<Rightarrow> (tool_result \<times> go_error option) \<times> 'w exec_state"

definition no_result :: tool_result where "no_result = ToolResult [] [] False"

definition text_result :: "string \<Rightarrow> string \<Rightarrow> tool_result" where
  "text_result cid t = ToolResult cid [text_block t] True"

text \<open>The innermost \<open>next\<close>: once, with the frozen call only.\<close>

definition base_next :: "'w tool_exec option \<Rightarrow> tool_call \<Rightarrow> 'w tool_func" where
  "base_next tool frozen owned s =
     (if xs_base_used s
      then ((no_result, Some (ErrNew ''tool next may only be called once'')),
            s\<lparr>xs_base_violation := Some (ErrNew ''tool next may only be called once'')\<rparr>)
      else (let s1 = s\<lparr>xs_base_used := True\<rparr> in
        if owned \<noteq> frozen
        then ((no_result, Some (ErrNew ''tool next changed committed call; use PrepareTool'')), s1)
        else (case tool of
            None \<Rightarrow> ((text_result (tc_id frozen) (''unknown tool '' @ tc_name frozen), None), s1)
          | Some exec \<Rightarrow>
              (case exec frozen (xs_world s1) of
                 ((r, e), w) \<Rightarrow> ((r, e), s1\<lparr>xs_world := w, xs_runs := xs_runs s1 @ [(frozen, e)]\<rparr>)))))"

record lease =
  ls_used :: bool
  ls_violation :: "go_error option"
  ls_failures :: "go_error list"

definition open_lease :: lease where
  "open_lease = \<lparr>ls_used = False, ls_violation = None, ls_failures = []\<rparr>"

text \<open>Failures of the inner chain the wrapper's own error does not already contain are joined to it.\<close>

fun join_failures :: "go_error option \<Rightarrow> go_error list \<Rightarrow> go_error option" where
  "join_failures err [] = err"
| "join_failures err (f # fs) = join_failures (if errors_is err f then err else errors_join [err, Some f]) fs"

text \<open>\<open>guardedNext\<close> is the \<open>WNext\<close> case, the code after \<open>WrapTool\<close> the \<open>WReturn\<close> case.\<close>

primrec run_wrapper :: "tool_call \<Rightarrow> 'w tool_func \<Rightarrow> 'w wrapper \<Rightarrow> lease \<Rightarrow> 'w exec_state \<Rightarrow> (tool_result \<times> go_error option) \<times> 'w exec_state" where
  "run_wrapper frozen inner (WReturn r e owned) l s =
     (let violation = (if owned \<noteq> frozen
          then errors_join [ls_violation l, Some (ErrNew ''tool wrapper mutated committed call; use PrepareTool'')] else ls_violation l)
      in ((r, errors_join [join_failures e (ls_failures l), violation]), s))"
| "run_wrapper frozen inner (WEffect f k) l s = run_wrapper frozen inner (k (xs_world s)) l (s\<lparr>xs_world := f (xs_world s)\<rparr>)"
| "run_wrapper frozen inner (WNext call k) l s =
     (if ls_used l
      then (let v = errors_join [ls_violation l, Some (ErrNew ''tool next may only be called once'')] in
            run_wrapper frozen inner (k no_result v) (l\<lparr>ls_violation := v\<rparr>) s)
      else if call \<noteq> frozen
      then (let v = errors_join [ls_violation l, Some (ErrNew ''tool wrapper next changed committed call; use PrepareTool'')] in
            run_wrapper frozen inner (k no_result v) (l\<lparr>ls_used := True, ls_violation := v\<rparr>) s)
      else (case inner frozen s of
          ((r, e), s1) \<Rightarrow>
            run_wrapper frozen inner (k r e)
              (l\<lparr>ls_used := True, ls_failures := ls_failures l @ (case e of None \<Rightarrow> [] | Some x \<Rightarrow> [x])\<rparr>) s1))"

text \<open>The chain from the outermost layer inwards.\<close>

fun wrapped_next :: "tool_call \<Rightarrow> 'w tool_exec option \<Rightarrow> 'w middleware list \<Rightarrow> 'w tool_func" where
  "wrapped_next frozen tool [] = base_next tool frozen"
| "wrapped_next frozen tool (m # ms) =
     (case mw_wrap_tool m of
        None \<Rightarrow> wrapped_next frozen tool ms
      | Some wrap \<Rightarrow> (\<lambda>supplied s.
          if supplied \<noteq> frozen
          then ((no_result, Some (ErrNew ''tool wrapper changed committed call; use PrepareTool'')), s)
          else run_wrapper frozen (wrapped_next frozen tool ms) (wrap frozen) open_lease s))"

text \<open>\<open>afterTool\<close> runs the after hooks from the innermost layer outwards; the first error stops it.\<close>

fun after_hooks :: "tool_call \<Rightarrow> 'w middleware list \<Rightarrow> tool_result \<Rightarrow> 'w exec_state \<Rightarrow> (tool_result \<times> go_error option) \<times> 'w exec_state" where
  "after_hooks frozen [] r s = ((r, None), s)"
| "after_hooks frozen (m # ms) r s =
     (case mw_after_tool m of
        None \<Rightarrow> after_hooks frozen ms r s
      | Some hook \<Rightarrow>
          (case hook frozen r (xs_world s) of
             ((e, owned, r1), w) \<Rightarrow>
               (let err = (if owned \<noteq> frozen then errors_join [e, Some (ErrNew ''AfterTool mutated committed call'')] else e);
                    s1 = s\<lparr>xs_world := w\<rparr> in
                if err \<noteq> None then ((r1, err), s1) else after_hooks frozen ms r1 s1)))"

definition afterTool :: "tool_call \<Rightarrow> 'w middleware list \<Rightarrow> tool_result \<Rightarrow> 'w exec_state \<Rightarrow> (tool_result \<times> go_error option) \<times> 'w exec_state" where
  "afterTool frozen middleware r s = after_hooks frozen (rev middleware) r s"

text \<open>The before hooks, outermost first: an intentional veto, another error, or go on.\<close>

datatype before_result = BeforeGo | BeforeVeto go_error | BeforeFail go_error

fun before_hooks :: "tool_call \<Rightarrow> 'w middleware list \<Rightarrow> 'w exec_state \<Rightarrow> before_result \<times> 'w exec_state" where
  "before_hooks frozen [] s = (BeforeGo, s)"
| "before_hooks frozen (m # ms) s =
     (case mw_before_tool m of
        None \<Rightarrow> before_hooks frozen ms s
      | Some hook \<Rightarrow>
          (case hook frozen (xs_world s) of
             ((e, owned), w) \<Rightarrow>
               (let err = (if owned \<noteq> frozen
                    then errors_join [e, Some (ErrNew ''BeforeTool mutated committed arguments; use PrepareTool'')] else e);
                    s1 = s\<lparr>xs_world := w\<rparr> in
                case err of
                  None \<Rightarrow> before_hooks frozen ms s1
                | Some x \<Rightarrow> (if onlyToolBlocked err then BeforeVeto x else BeforeFail x, s1))))"

definition executeTool :: "'w tool_exec option \<Rightarrow> 'w middleware list \<Rightarrow> tool_call \<Rightarrow> 'w \<Rightarrow> (tool_result \<times> go_error option) \<times> 'w exec_state" where
  "executeTool tool middleware frozen w =
     (case before_hooks frozen middleware \<lparr>xs_world = w, xs_base_used = False, xs_base_violation = None, xs_runs = []\<rparr> of
        (BeforeVeto x, s) \<Rightarrow> afterTool frozen middleware (text_result (tc_id frozen) (err_text x)) s
      | (BeforeFail x, s) \<Rightarrow> ((no_result, Some x), s)
      | (BeforeGo, s) \<Rightarrow>
          (case wrapped_next frozen tool middleware frozen s of
             ((r, e), s1) \<Rightarrow>
               (let err = errors_join [e, xs_base_violation s1] in
                if err \<noteq> None then ((r, err), s1) else afterTool frozen middleware r s1)))"

subsection \<open>Facts\<close>

lemma join_failures_old: "errors_is e x \<Longrightarrow> errors_is (join_failures e fs) x"
  by (induction fs arbitrary: e) (auto intro: errors_is_join_left)

lemma join_failures_new: "f \<in> set fs \<Longrightarrow> errors_is (join_failures e fs) f"
proof (induction fs arbitrary: e)
  case (Cons g fs)
  have "errors_is (if errors_is e g then e else errors_join [e, Some g]) g"
    using errors_is_join_right [of "Some g" g e] by (simp add: errors_is_def [of "Some g"])
  then have "errors_is (join_failures (if errors_is e g then e else errors_join [e, Some g]) fs) g" by (rule join_failures_old)
  with Cons show ?case by auto
qed simp

text \<open>
  \<open>keeps_contract\<close>: what every layer of the chain guarantees. It only adds runs of the frozen call, at
  most one, and if the tool ran and failed, the error of the layer contains that failure.
\<close>

definition keeps_contract :: "tool_call \<Rightarrow> 'w tool_func \<Rightarrow> bool" where
  "keeps_contract frozen f \<longleftrightarrow> (\<forall>c s r e s'. f c s = ((r, e), s') \<longrightarrow>
     (xs_base_used s \<longrightarrow> xs_base_used s' \<and> xs_runs s' = xs_runs s) \<and>
     (xs_runs s' = xs_runs s \<or> (xs_base_used s' \<and>
        (\<exists>x. xs_runs s' = xs_runs s @ [(frozen, x)] \<and> (\<forall>y. x = Some y \<longrightarrow> errors_is e y)))))"

lemma contract_base: "keeps_contract frozen (base_next tool frozen)"
proof -
  have refl: "errors_is (Some y) y" for y by (simp add: errors_is_def)
  show ?thesis
    unfolding keeps_contract_def
    by (auto simp: base_next_def Let_def refl split: if_splits option.splits prod.splits)
qed

text \<open>A wrapper that has used its lease cannot reach the inner chain again.\<close>

lemma run_wrapper_used:
  "ls_used l \<Longrightarrow> run_wrapper frozen inner wr l s = ((r, e), s') \<Longrightarrow>
     xs_runs s' = xs_runs s \<and> xs_base_used s' = xs_base_used s \<and> (\<forall>f \<in> set (ls_failures l). errors_is e f)"
proof (induction wr arbitrary: l s)
  case (WReturn r0 e0 owned)
  then show ?case by (auto simp: Let_def intro: errors_is_join_left join_failures_new)
next
  case (WEffect f k)
  from WEffect.IH [OF rangeI WEffect.prems(1)] WEffect.prems(2) show ?case by fastforce
next
  case (WNext call k)
  from WNext.IH [OF rangeI rangeI, of "l\<lparr>ls_violation := errors_join [ls_violation l, Some (ErrNew ''tool next may only be called once'')]\<rparr>"]
    WNext.prems show ?case by (fastforce simp: Let_def)
qed

lemma run_wrapper_contract:
  assumes inner: "keeps_contract frozen inner"
  shows "\<not> ls_used l \<Longrightarrow> run_wrapper frozen inner wr l s = ((r, e), s') \<Longrightarrow>
     (xs_base_used s \<longrightarrow> xs_base_used s' \<and> xs_runs s' = xs_runs s) \<and>
     (xs_runs s' = xs_runs s \<or> (xs_base_used s' \<and>
        (\<exists>x. xs_runs s' = xs_runs s @ [(frozen, x)] \<and> (\<forall>y. x = Some y \<longrightarrow> errors_is e y))))"
proof (induction wr arbitrary: l s)
  case (WReturn r0 e0 owned)
  then show ?case by (simp add: Let_def)
next
  case (WEffect f k)
  from WEffect.IH [OF rangeI WEffect.prems(1)] WEffect.prems(2) show ?case by fastforce
next
  case (WNext call k)
  show ?case
  proof (cases "call = frozen")
    case False
    with WNext.prems have "run_wrapper frozen inner
        (k no_result (errors_join [ls_violation l, Some (ErrNew ''tool wrapper next changed committed call; use PrepareTool'')]))
        (l\<lparr>ls_used := True, ls_violation := errors_join [ls_violation l, Some (ErrNew ''tool wrapper next changed committed call; use PrepareTool'')]\<rparr>) s = ((r, e), s')"
      by (simp add: Let_def)
    from run_wrapper_used [OF _ this] show ?thesis by simp
  next
    case True
    obtain r1 e1 s1 where i: "inner frozen s = ((r1, e1), s1)" by (metis surj_pair)
    define l1 where "l1 = l\<lparr>ls_used := True, ls_failures := ls_failures l @ (case e1 of None \<Rightarrow> [] | Some x \<Rightarrow> [x])\<rparr>"
    have "run_wrapper frozen inner (k r1 e1) l1 s1 = ((r, e), s')"
      using WNext.prems True i by (simp add: l1_def)
    from run_wrapper_used [OF _ this] have rest: "xs_runs s' = xs_runs s1" "xs_base_used s' = xs_base_used s1"
      "\<forall>f \<in> set (ls_failures l1). errors_is e f" by (simp_all add: l1_def)
    have keep: "errors_is e y" if "errors_is e1 y" for y
    proof -
      from that obtain z where z: "e1 = Some z" "err_is z y" by (auto simp: errors_is_def split: option.splits)
      then have "errors_is e z" using rest(3) by (simp add: l1_def)
      with z(2) show ?thesis using errors_is_trans by blast
    qed
    from inner i have "(xs_base_used s \<longrightarrow> xs_base_used s1 \<and> xs_runs s1 = xs_runs s) \<and>
       (xs_runs s1 = xs_runs s \<or> (xs_base_used s1 \<and>
          (\<exists>x. xs_runs s1 = xs_runs s @ [(frozen, x)] \<and> (\<forall>y. x = Some y \<longrightarrow> errors_is e1 y))))"
      unfolding keeps_contract_def by blast
    with rest keep show ?thesis by auto
  qed
qed

lemma contract_chain: "keeps_contract frozen (wrapped_next frozen tool ms)"
proof (induction ms)
  case Nil
  then show ?case by (simp add: contract_base)
next
  case (Cons m ms)
  show ?case
  proof (cases "mw_wrap_tool m")
    case None
    with Cons show ?thesis by simp
  next
    case (Some wrap)
    have "keeps_contract frozen (\<lambda>supplied s. if supplied \<noteq> frozen
       then ((no_result, Some (ErrNew ''tool wrapper changed committed call; use PrepareTool'')), s)
       else run_wrapper frozen (wrapped_next frozen tool ms) (wrap frozen) open_lease s)"
      unfolding keeps_contract_def
      using run_wrapper_contract [OF Cons, of open_lease "wrap frozen"] by (auto simp: open_lease_def)
    with Some show ?thesis by simp
  qed
qed

lemma after_hooks_runs: "after_hooks frozen ms r s = ((r', e), s') \<Longrightarrow> xs_runs s' = xs_runs s"
  by (induction ms arbitrary: r s) (auto simp: Let_def split: option.splits prod.splits if_splits)

lemma before_hooks_runs: "before_hooks frozen ms s = (b, s') \<Longrightarrow> xs_runs s' = xs_runs s \<and> xs_base_used s' = xs_base_used s"
  by (induction ms arbitrary: s) (auto simp: Let_def split: option.splits prod.splits if_splits)

lemma before_hooks_veto: "before_hooks frozen ms s = (BeforeVeto x, s') \<Longrightarrow> tool_blocked_only x"
  by (induction ms arbitrary: s) (auto simp: Let_def onlyToolBlocked_def split: option.splits prod.splits if_splits)

text \<open>
  C26. Whatever the middleware does - calling next twice, with another call, swallowing errors -
  the tool itself runs at most once per executed call, and only with exactly the call that was
  committed; and if it ran and failed, the returned error contains that failure: no wrapper can
  turn an actual execution error into success.
\<close>

theorem tool_runs_at_most_once:
  assumes "executeTool tool middleware frozen w = ((r, e), s)"
  shows "xs_runs s = [] \<or> (\<exists>x. xs_runs s = [(frozen, x)] \<and> (\<forall>y. x = Some y \<longrightarrow> errors_is e y))"
proof -
  obtain b s0 where b: "before_hooks frozen middleware \<lparr>xs_world = w, xs_base_used = False, xs_base_violation = None, xs_runs = []\<rparr> = (b, s0)"
    by fastforce
  from before_hooks_runs [OF b] have s0: "xs_runs s0 = []" by simp
  show ?thesis
  proof (cases b)
    case (BeforeVeto x)
    with assms b s0 after_hooks_runs show ?thesis by (fastforce simp: executeTool_def afterTool_def)
  next
    case (BeforeFail x)
    with assms b s0 show ?thesis by (simp add: executeTool_def)
  next
    case BeforeGo
    obtain r1 e1 s1 where n: "wrapped_next frozen tool middleware frozen s0 = ((r1, e1), s1)" by (metis surj_pair)
    have chain: "xs_runs s1 = [] \<or> (\<exists>x. xs_runs s1 = [(frozen, x)] \<and> (\<forall>y. x = Some y \<longrightarrow> errors_is e1 y))"
      using contract_chain [of frozen tool middleware] n s0 unfolding keeps_contract_def by fastforce
    show ?thesis
    proof (cases "errors_join [e1, xs_base_violation s1] = None")
      case True
      then have "e1 = None" by (simp add: errors_join_None_iff)
      moreover have "afterTool frozen middleware r1 s1 = ((r, e), s)" using assms b BeforeGo n True by (simp add: executeTool_def Let_def)
      ultimately show ?thesis using chain after_hooks_runs unfolding afterTool_def by (fastforce simp: errors_is_def)
    next
      case False
      then have "e = errors_join [e1, xs_base_violation s1]" "s = s1"
        using assms b BeforeGo n by (auto simp: executeTool_def Let_def)
      with chain show ?thesis by (auto intro: errors_is_join_left)
    qed
  qed
qed

text \<open>A wrapper that tries to run the tool twice and then reports success.\<close>

definition greedy :: "nat middleware" where
  "greedy = \<lparr>mw_name = ''greedy'', mw_before_tool = None,
     mw_wrap_tool = Some (\<lambda>c. WNext c (\<lambda>r e. WNext c (\<lambda>r2 e2. WReturn r None c))), mw_after_tool = None\<rparr>"

definition failing_tool :: "nat tool_exec" where
  "failing_tool c w = ((no_result, Some (ErrNew ''disk full'')), w + 1)"

definition example_call :: tool_call where
  "example_call = \<lparr>tc_id = ''1'', tc_name = ''t'', tc_arguments = ''{}'', tc_provider_state = []\<rparr>"

lemma greedy_example:
  "xs_runs (snd (executeTool (Some failing_tool) [greedy] example_call 0)) = [(example_call, Some (ErrNew ''disk full''))]"
  by code_simp

theorem tool_runs_at_most_once_witness:
  "errors_is (snd (fst (executeTool (Some failing_tool) [greedy] example_call 0))) (ErrNew ''disk full'')"
proof -
  obtain r e s where x: "executeTool (Some failing_tool) [greedy] example_call 0 = ((r, e), s)" by (metis surj_pair)
  from tool_runs_at_most_once [OF this] greedy_example x show ?thesis by auto
qed

text \<open>
  A before-hook veto keeps the tool from running: if some before hook answers with an error,
  nothing is executed; the model sees an error result only if every leaf of that error is a
  deliberate veto, any other error aborts the call.
\<close>

theorem before_error_prevents_run:
  assumes "before_hooks frozen middleware \<lparr>xs_world = w, xs_base_used = False, xs_base_violation = None, xs_runs = []\<rparr> = (b, s0)"
    and "b \<noteq> BeforeGo"
  shows "xs_runs (snd (executeTool tool middleware frozen w)) = [] \<and>
    (\<forall>x. b = BeforeFail x \<longrightarrow> executeTool tool middleware frozen w = ((no_result, Some x), s0)) \<and>
    (\<forall>x. b = BeforeVeto x \<longrightarrow> (\<forall>l \<in> set (leaves x). \<exists>reason. l = ToolBlockedError reason))"
proof -
  have s0: "xs_runs s0 = []" using before_hooks_runs [OF assms(1)] by simp
  show ?thesis
  proof (cases b)
    case (BeforeVeto x)
    obtain r e s where a: "after_hooks frozen (rev middleware) (text_result (tc_id frozen) (err_text x)) s0 = ((r, e), s)" by (metis surj_pair)
    from after_hooks_runs [OF a] s0 have "xs_runs s = []" by simp
    moreover have "executeTool tool middleware frozen w = ((r, e), s)"
      using assms(1) BeforeVeto a by (simp add: executeTool_def afterTool_def)
    moreover have "tool_blocked_only x" using before_hooks_veto assms(1) BeforeVeto by blast
    ultimately show ?thesis using BeforeVeto by (simp add: tool_blocked_leaves)
  next
    case (BeforeFail x)
    with assms(1) s0 show ?thesis by (simp add: executeTool_def)
  qed (use assms(2) in simp)
qed

definition vetoing :: "nat middleware" where
  "vetoing = \<lparr>mw_name = ''veto'', mw_before_tool = Some (\<lambda>c w. ((Some (Wrapf ''policy: '' (ToolBlockedError ''denied'')), c), w)),
     mw_wrap_tool = None, mw_after_tool = None\<rparr>"

theorem before_error_prevents_run_witness:
  "xs_runs (snd (executeTool (Some failing_tool) [vetoing] example_call 0)) = []"
proof -
  have "before_hooks example_call [vetoing] \<lparr>xs_world = 0, xs_base_used = False, xs_base_violation = None, xs_runs = []\<rparr> =
     (BeforeVeto (Wrapf ''policy: '' (ToolBlockedError ''denied'')), \<lparr>xs_world = 0, xs_base_used = False, xs_base_violation = None, xs_runs = []\<rparr>)"
    by (simp add: vetoing_def onlyToolBlocked_def)
  from before_error_prevents_run [OF this] show ?thesis by simp
qed

end
