(* ===== verification/Memory_Session.thy ===== *)
theory Memory_Session
  imports Records
begin

section \<open>The in-memory conversation log\<close>

text \<open>
  sdk/agent/core/session.go. \<open>AppendRecords\<close> validates a whole batch against staged copies of
  its indexes, stamps sequence, identity, time and causal parent, and only then changes the
  session; the mutex makes it one step. The four Go maps used as sets are lists of keys.
  \<open>ctx.Err()\<close> is read twice (\<open>canceled\<close>, \<open>canceled2\<close>), \<open>time.Now()\<close> is \<open>clock\<close> at the
  record's position in the batch. Sequence numbers are naturals.
\<close>

record memory_session =
  ms_id :: string
  ms_records :: "session_record list"
  ms_messages :: "message list"
  ms_model_intents :: "string list"
  ms_model_outcomes :: "string list"
  ms_tool_intents :: "string list"
  ms_tool_outcomes :: "string list"

definition NewMemorySession :: "string \<Rightarrow> memory_session" where
  "NewMemorySession i = \<lparr>ms_id = i, ms_records = [], ms_messages = [], ms_model_intents = [], ms_model_outcomes = [],
     ms_tool_intents = [], ms_tool_outcomes = []\<rparr>"

definition toolKey :: "string \<Rightarrow> string \<Rightarrow> string" where
  "toolKey runID callID = length_key runID callID"

text \<open>The staged indexes of one append and the stamped records so far.\<close>

record staging =
  st_owned :: "session_record list"
  st_models :: "string list"
  st_model_outcomes :: "string list"
  st_tools :: "string list"
  st_tool_outcomes :: "string list"

definition blank_staging :: staging where
  "blank_staging = \<lparr>st_owned = [], st_models = [], st_model_outcomes = [], st_tools = [], st_tool_outcomes = []\<rparr>"

text \<open>An explicit causal parent must be a committed or already staged record of this session.\<close>

definition check_parent :: "memory_session \<Rightarrow> staging \<Rightarrow> session_record \<Rightarrow> go_error option" where
  "check_parent s st r =
     (case sr_parent r of
        None \<Rightarrow> None
      | Some p \<Rightarrow>
          if rf_session_id p \<noteq> ms_id s \<or> rf_sequence p = 0 \<or> rf_sequence p > length (ms_records s) + length (st_owned st)
          then Some (ErrNew ''causal parent is outside committed/staged session'')
          else (let actual = (if rf_sequence p \<le> length (ms_records s) then ms_records s ! (rf_sequence p - 1)
                              else st_owned st ! (rf_sequence p - length (ms_records s) - 1)) in
                if rf_record_id p \<noteq> sr_id actual then Some (ErrNew ''causal parent identity mismatch'') else None))"

text \<open>The switch on the kind: intents are new, outcomes match an intent and are new.\<close>

definition stage_index :: "memory_session \<Rightarrow> staging \<Rightarrow> session_record \<Rightarrow> staging result" where
  "stage_index s st r =
     (case sr_kind r of
        RecordModelIntent \<Rightarrow>
          (let key = mi_request_id (the (sr_model_intent r)) in
           if key \<in> set (ms_model_intents s) \<or> key \<in> set (st_models st) then Inl (ErrNew ''duplicate model intent'')
           else Inr (st\<lparr>st_models := key # st_models st\<rparr>))
      | RecordModelOutcome \<Rightarrow>
          (let key = mo_request_id (the (sr_model_outcome r)) in
           if \<not> (key \<in> set (ms_model_intents s) \<or> key \<in> set (st_models st)) \<or>
              key \<in> set (ms_model_outcomes s) \<or> key \<in> set (st_model_outcomes st)
           then Inl (ErrNew ''unmatched or duplicate model outcome'')
           else Inr (st\<lparr>st_model_outcomes := key # st_model_outcomes st\<rparr>))
      | RecordToolIntent \<Rightarrow>
          (let key = toolKey (ti_run_id (the (sr_tool_intent r))) (tc_id (ti_call (the (sr_tool_intent r)))) in
           if key \<in> set (ms_tool_intents s) \<or> key \<in> set (st_tools st) then Inl (ErrNew ''duplicate tool intent'')
           else Inr (st\<lparr>st_tools := key # st_tools st\<rparr>))
      | RecordToolOutcome \<Rightarrow>
          (let key = toolKey (to_run_id (the (sr_tool_outcome r))) (to_call_id (the (sr_tool_outcome r))) in
           if \<not> (key \<in> set (ms_tool_intents s) \<or> key \<in> set (st_tools st)) \<or>
              key \<in> set (ms_tool_outcomes s) \<or> key \<in> set (st_tool_outcomes st)
           then Inl (ErrNew ''unmatched or duplicate tool outcome'')
           else Inr (st\<lparr>st_tool_outcomes := key # st_tool_outcomes st\<rparr>))
      | _ \<Rightarrow> Inr st)"

text \<open>Store-owned fields: sequence, identity, message identity, time, default parent.\<close>

definition stamp :: "memory_session \<Rightarrow> staging \<Rightarrow> int \<Rightarrow> session_record \<Rightarrow> session_record" where
  "stamp s st now r =
     (let sq = length (ms_records s) + length (st_owned st) + 1;
          rid = ms_id s @ '':'' @ dec sq;
          r1 = r\<lparr>sr_sequence := sq, sr_id := rid,
            sr_message := map_option (\<lambda>m. if m_id m = [] then m\<lparr>m_id := rid\<rparr> else m) (sr_message r), sr_time := now\<rparr>
      in if sr_parent r = None \<and> sq > 1
         then (let previous = (if st_owned st \<noteq> [] then last (st_owned st) else last (ms_records s)) in
               r1\<lparr>sr_parent := Some \<lparr>rf_session_id = ms_id s, rf_record_id = sr_id previous, rf_sequence = sr_sequence previous\<rparr>\<rparr>)
         else r1)"

fun stage :: "memory_session \<Rightarrow> (nat \<Rightarrow> int) \<Rightarrow> staging \<Rightarrow> session_record list \<Rightarrow> staging result" where
  "stage s clock st [] = Inr st"
| "stage s clock st (r # rs) =
     (case check_parent s st r of
        Some e \<Rightarrow> Inl e
      | None \<Rightarrow>
          (case stage_index s st r of
             Inl e \<Rightarrow> Inl e
           | Inr st1 \<Rightarrow> stage s clock (st1\<lparr>st_owned := st_owned st @ [stamp s st (clock (length (st_owned st))) r]\<rparr>) rs))"

definition store_owned_blank :: "session_record \<Rightarrow> bool" where
  "store_owned_blank r = (sr_id r = [] \<and> sr_sequence r = 0 \<and> sr_time r = 0)"

definition precheck :: "url_parser \<Rightarrow> session_record \<Rightarrow> go_error option" where
  "precheck url r =
     (case record_validate url r of
        Some e \<Rightarrow> Some e
      | None \<Rightarrow> if \<not> store_owned_blank r then Some (ErrNew ''record identity is store-owned'') else None)"

definition conversation_messages :: "session_record list \<Rightarrow> message list" where
  "conversation_messages rs = map (\<lambda>r. the (sr_message r)) (filter (\<lambda>r. sr_kind r = RecordConversation) rs)"

text \<open>The tail of \<open>AppendRecords\<close>: staged indexes, messages and records join the session.\<close>

definition commit_staging :: "memory_session \<Rightarrow> staging \<Rightarrow> memory_session" where
  "commit_staging s st =
     s\<lparr>ms_model_intents := st_models st @ ms_model_intents s,
       ms_model_outcomes := st_model_outcomes st @ ms_model_outcomes s,
       ms_tool_intents := st_tools st @ ms_tool_intents s,
       ms_tool_outcomes := st_tool_outcomes st @ ms_tool_outcomes s,
       ms_messages := ms_messages s @ conversation_messages (st_owned st),
       ms_records := ms_records s @ st_owned st\<rparr>"

definition AppendRecords :: "url_parser \<Rightarrow> go_error option \<Rightarrow> go_error option \<Rightarrow> (nat \<Rightarrow> int) \<Rightarrow> memory_session \<Rightarrow>
    session_record list \<Rightarrow> session_record list result \<times> memory_session" where
  "AppendRecords url canceled canceled2 clock s rs =
     (case canceled of
        Some e \<Rightarrow> (Inl e, s)
      | None \<Rightarrow>
          if ms_id s = [] then (Inl (ErrNew ''session ID cannot be empty''), s)
          else (case first_err (precheck url) rs of
              Some e \<Rightarrow> (Inl e, s)
            | None \<Rightarrow>
                (case canceled2 of
                   Some e \<Rightarrow> (Inl e, s)
                 | None \<Rightarrow>
                     (case stage s clock blank_staging rs of
                        Inl e \<Rightarrow> (Inl e, s)
                      | Inr st \<Rightarrow> (Inr (st_owned st), commit_staging s st)))))"

definition session_messages :: "go_error option \<Rightarrow> memory_session \<Rightarrow> message list result" where
  "session_messages canceled s = (case canceled of Some e \<Rightarrow> Inl e | None \<Rightarrow> Inr (ms_messages s))"

definition session_records_after :: "go_error option \<Rightarrow> memory_session \<Rightarrow> nat \<Rightarrow> session_record list result" where
  "session_records_after canceled s after =
     (case canceled of Some e \<Rightarrow> Inl e
      | None \<Rightarrow> Inr (if after \<ge> length (ms_records s) then [] else drop after (ms_records s)))"

subsection \<open>Keys\<close>

lemma toolKey_eq [simp]: "toolKey r c = toolKey r' c' \<longleftrightarrow> r = r' \<and> c = c'"
  by (simp add: toolKey_def length_key_eq)

subsection \<open>The log's invariant\<close>

text \<open>The keys of the facts in a sequence of records, by kind.\<close>

definition of_kind :: "record_kind \<Rightarrow> session_record list \<Rightarrow> session_record list" where
  "of_kind k rs = filter (\<lambda>r. sr_kind r = k) rs"

definition model_intent_keys :: "session_record list \<Rightarrow> string list" where
  "model_intent_keys rs = map (\<lambda>r. mi_request_id (the (sr_model_intent r))) (of_kind RecordModelIntent rs)"

definition model_outcome_keys :: "session_record list \<Rightarrow> string list" where
  "model_outcome_keys rs = map (\<lambda>r. mo_request_id (the (sr_model_outcome r))) (of_kind RecordModelOutcome rs)"

definition intent_key :: "session_record \<Rightarrow> string \<times> string" where
  "intent_key r = (ti_run_id (the (sr_tool_intent r)), tc_id (ti_call (the (sr_tool_intent r))))"

definition outcome_key :: "session_record \<Rightarrow> string \<times> string" where
  "outcome_key r = (to_run_id (the (sr_tool_outcome r)), to_call_id (the (sr_tool_outcome r)))"

definition tool_intent_keys :: "session_record list \<Rightarrow> (string \<times> string) list" where
  "tool_intent_keys rs = map intent_key (of_kind RecordToolIntent rs)"

definition tool_outcome_keys :: "session_record list \<Rightarrow> (string \<times> string) list" where
  "tool_outcome_keys rs = map outcome_key (of_kind RecordToolOutcome rs)"

text \<open>
  \<open>record_follows\<close>: what the log promises of a record, given the records before it. Its position,
  its identity, a causal parent that exists, a new intent, or an outcome of an earlier intent
  that has none yet.
\<close>

definition parent_ok :: "string \<Rightarrow> session_record list \<Rightarrow> session_record \<Rightarrow> bool" where
  "parent_ok sid prior r =
     (case sr_parent r of
        None \<Rightarrow> prior = []
      | Some p \<Rightarrow> rf_session_id p = sid \<and> 1 \<le> rf_sequence p \<and> rf_sequence p \<le> length prior \<and>
          rf_record_id p = sr_id (prior ! (rf_sequence p - 1)))"

definition index_ok :: "session_record list \<Rightarrow> session_record \<Rightarrow> bool" where
  "index_ok prior r =
     (case sr_kind r of
        RecordModelIntent \<Rightarrow> mi_request_id (the (sr_model_intent r)) \<notin> set (model_intent_keys prior)
      | RecordModelOutcome \<Rightarrow> mo_request_id (the (sr_model_outcome r)) \<in> set (model_intent_keys prior) - set (model_outcome_keys prior)
      | RecordToolIntent \<Rightarrow> intent_key r \<notin> set (tool_intent_keys prior)
      | RecordToolOutcome \<Rightarrow> outcome_key r \<in> set (tool_intent_keys prior) - set (tool_outcome_keys prior)
      | _ \<Rightarrow> True)"

definition record_follows :: "string \<Rightarrow> session_record list \<Rightarrow> session_record \<Rightarrow> bool" where
  "record_follows sid prior r =
     (sr_sequence r = length prior + 1 \<and> sr_id r = sid @ '':'' @ dec (length prior + 1) \<and>
      parent_ok sid prior r \<and> index_ok prior r)"

fun log_ok_from :: "string \<Rightarrow> session_record list \<Rightarrow> session_record list \<Rightarrow> bool" where
  "log_ok_from sid prior [] = True"
| "log_ok_from sid prior (r # rs) = (record_follows sid prior r \<and> log_ok_from sid (prior @ [r]) rs)"

abbreviation log_ok :: "string \<Rightarrow> session_record list \<Rightarrow> bool" where
  "log_ok sid rs \<equiv> log_ok_from sid [] rs"

lemma log_ok_append: "log_ok_from sid prior (xs @ ys) \<longleftrightarrow> log_ok_from sid prior xs \<and> log_ok_from sid (prior @ xs) ys"
  by (induction xs arbitrary: prior) auto

lemma keys_append [simp]:
  "of_kind k (xs @ ys) = of_kind k xs @ of_kind k ys"
  "model_intent_keys (xs @ ys) = model_intent_keys xs @ model_intent_keys ys"
  "model_outcome_keys (xs @ ys) = model_outcome_keys xs @ model_outcome_keys ys"
  "tool_intent_keys (xs @ ys) = tool_intent_keys xs @ tool_intent_keys ys"
  "tool_outcome_keys (xs @ ys) = tool_outcome_keys xs @ tool_outcome_keys ys"
  by (simp_all add: of_kind_def model_intent_keys_def model_outcome_keys_def tool_intent_keys_def tool_outcome_keys_def)

definition session_inv :: "memory_session \<Rightarrow> bool" where
  "session_inv s =
     (log_ok (ms_id s) (ms_records s) \<and>
      ms_messages s = conversation_messages (ms_records s) \<and>
      set (ms_model_intents s) = set (model_intent_keys (ms_records s)) \<and>
      set (ms_model_outcomes s) = set (model_outcome_keys (ms_records s)) \<and>
      set (ms_tool_intents s) = (\<lambda>(r, c). toolKey r c) ` set (tool_intent_keys (ms_records s)) \<and>
      set (ms_tool_outcomes s) = (\<lambda>(r, c). toolKey r c) ` set (tool_outcome_keys (ms_records s)))"

lemma session_inv_new: "session_inv (NewMemorySession sid)"
  by (simp add: session_inv_def NewMemorySession_def conversation_messages_def model_intent_keys_def
    model_outcome_keys_def tool_intent_keys_def tool_outcome_keys_def of_kind_def)

lemma outcomes_distinct:
  "log_ok_from sid prior rs \<Longrightarrow> distinct (tool_outcome_keys prior) \<Longrightarrow> set (tool_outcome_keys prior) \<subseteq> set (tool_intent_keys prior) \<Longrightarrow>
     distinct (tool_outcome_keys (prior @ rs)) \<and> set (tool_outcome_keys (prior @ rs)) \<subseteq> set (tool_intent_keys (prior @ rs))"
proof (induction rs arbitrary: prior)
  case (Cons r rs)
  have "distinct (tool_outcome_keys (prior @ [r])) \<and> set (tool_outcome_keys (prior @ [r])) \<subseteq> set (tool_intent_keys (prior @ [r]))"
    using Cons.prems by (cases "sr_kind r")
      (auto simp: record_follows_def index_ok_def tool_outcome_keys_def tool_intent_keys_def of_kind_def)
  with Cons.prems Cons.IH [of "prior @ [r]"] show ?case by simp
qed simp

text \<open>Stamping keeps what the keys are computed from.\<close>

lemma stamp_same [simp]:
  "sr_kind (stamp s st now r) = sr_kind r" "sr_tool_intent (stamp s st now r) = sr_tool_intent r"
  "sr_tool_outcome (stamp s st now r) = sr_tool_outcome r" "sr_model_intent (stamp s st now r) = sr_model_intent r"
  "sr_model_outcome (stamp s st now r) = sr_model_outcome r" "sr_payload (stamp s st now r) = sr_payload r"
  "sr_sequence (stamp s st now r) = length (ms_records s) + length (st_owned st) + 1"
  "sr_id (stamp s st now r) = ms_id s @ '':'' @ dec (length (ms_records s) + length (st_owned st) + 1)"
  by (simp_all add: stamp_def Let_def)

text \<open>Membership in the merged indexes is membership among the merged records.\<close>

lemma merged_keys:
  assumes "session_inv (commit_staging s st)"
  shows "k \<in> set (model_intent_keys (ms_records s @ st_owned st)) \<longleftrightarrow> k \<in> set (ms_model_intents s) \<or> k \<in> set (st_models st)"
    and "k \<in> set (model_outcome_keys (ms_records s @ st_owned st)) \<longleftrightarrow> k \<in> set (ms_model_outcomes s) \<or> k \<in> set (st_model_outcomes st)"
    and "(a, b) \<in> set (tool_intent_keys (ms_records s @ st_owned st)) \<longleftrightarrow> toolKey a b \<in> set (ms_tool_intents s) \<or> toolKey a b \<in> set (st_tools st)"
    and "(a, b) \<in> set (tool_outcome_keys (ms_records s @ st_owned st)) \<longleftrightarrow> toolKey a b \<in> set (ms_tool_outcomes s) \<or> toolKey a b \<in> set (st_tool_outcomes st)"
proof -
  have img: "(a, b) \<in> K \<longleftrightarrow> toolKey a b \<in> (\<lambda>(r, c). toolKey r c) ` K" for K :: "(string \<times> string) set"
    by (force simp: image_iff)
  have sets: "set (st_models st) \<union> set (ms_model_intents s) = set (model_intent_keys (ms_records s @ st_owned st))"
    "set (st_model_outcomes st) \<union> set (ms_model_outcomes s) = set (model_outcome_keys (ms_records s @ st_owned st))"
    "set (st_tools st) \<union> set (ms_tool_intents s) = (\<lambda>(r, c). toolKey r c) ` set (tool_intent_keys (ms_records s @ st_owned st))"
    "set (st_tool_outcomes st) \<union> set (ms_tool_outcomes s) = (\<lambda>(r, c). toolKey r c) ` set (tool_outcome_keys (ms_records s @ st_owned st))"
    using assms unfolding session_inv_def commit_staging_def by (simp_all del: keys_append)
  show "k \<in> set (model_intent_keys (ms_records s @ st_owned st)) \<longleftrightarrow> k \<in> set (ms_model_intents s) \<or> k \<in> set (st_models st)"
    unfolding sets(1) [symmetric] by blast
  show "k \<in> set (model_outcome_keys (ms_records s @ st_owned st)) \<longleftrightarrow> k \<in> set (ms_model_outcomes s) \<or> k \<in> set (st_model_outcomes st)"
    unfolding sets(2) [symmetric] by blast
  show "(a, b) \<in> set (tool_intent_keys (ms_records s @ st_owned st)) \<longleftrightarrow> toolKey a b \<in> set (ms_tool_intents s) \<or> toolKey a b \<in> set (st_tools st)"
    unfolding img [of "set (tool_intent_keys (ms_records s @ st_owned st))"] sets(3) [symmetric] by blast
  show "(a, b) \<in> set (tool_outcome_keys (ms_records s @ st_owned st)) \<longleftrightarrow> toolKey a b \<in> set (ms_tool_outcomes s) \<or> toolKey a b \<in> set (st_tool_outcomes st)"
    unfolding img [of "set (tool_outcome_keys (ms_records s @ st_owned st))"] sets(4) [symmetric] by blast
qed

text \<open>One staged record, seen on the session the commit would leave.\<close>

lemma stage_step_follows:
  assumes inv: "session_inv (commit_staging s st)"
    and par: "check_parent s st r = None" and idx: "stage_index s st r = Inr st1"
  shows "record_follows (ms_id s) (ms_records s @ st_owned st) (stamp s st now r)"
proof -
  let ?all = "ms_records s @ st_owned st"
  have nth: "(if q \<le> length (ms_records s) then ms_records s ! (q - 1) else st_owned st ! (q - length (ms_records s) - 1)) = ?all ! (q - 1)"
    if "1 \<le> q" for q using that by (auto simp: nth_append)
  have parent: "parent_ok (ms_id s) ?all (stamp s st now r)"
  proof (cases "sr_parent r")
    case (Some p)
    with par have "rf_session_id p = ms_id s" "1 \<le> rf_sequence p" "rf_sequence p \<le> length ?all"
      "rf_record_id p = sr_id (?all ! (rf_sequence p - 1))"
      using nth [of "rf_sequence p"] by (auto simp: check_parent_def Let_def split: if_splits)
    with Some show ?thesis by (simp add: parent_ok_def stamp_def Let_def)
  next
    case None
    show ?thesis
    proof (cases "?all = []")
      case True
      with None show ?thesis by (simp add: parent_ok_def stamp_def Let_def)
    next
      case False
      define prev where "prev = last ?all"
      have prev: "(if st_owned st \<noteq> [] then last (st_owned st) else last (ms_records s)) = prev" by (simp add: prev_def)
      have split: "?all = butlast ?all @ [prev]" using False by (simp add: prev_def)
      have "log_ok (ms_id s) ?all" using inv by (simp add: session_inv_def commit_staging_def)
      then have "record_follows (ms_id s) (butlast ?all) prev" by (subst (asm) split) (simp add: log_ok_append)
      then have "sr_sequence prev = length ?all" using False by (simp add: record_follows_def)
      moreover have "?all ! (length ?all - 1) = prev" using False by (simp add: prev_def last_conv_nth)
      ultimately show ?thesis using None False prev
        by (simp add: parent_ok_def stamp_def Let_def Suc_le_eq)
    qed
  qed
  note keys = merged_keys [OF inv]
  have "index_ok ?all (stamp s st now r)"
    using idx
    by (cases "sr_kind r")
      (auto simp: stage_index_def index_ok_def Let_def intent_key_def outcome_key_def keys split: if_splits simp del: keys_append)
  with parent show ?thesis by (simp add: record_follows_def)
qed

lemma conversation_append [simp]: "conversation_messages (xs @ ys) = conversation_messages xs @ conversation_messages ys"
  by (simp add: conversation_messages_def)

lemma keys_single [simp]:
  "model_intent_keys [r] = (if sr_kind r = RecordModelIntent then [mi_request_id (the (sr_model_intent r))] else [])"
  "model_outcome_keys [r] = (if sr_kind r = RecordModelOutcome then [mo_request_id (the (sr_model_outcome r))] else [])"
  "tool_intent_keys [r] = (if sr_kind r = RecordToolIntent then [intent_key r] else [])"
  "tool_outcome_keys [r] = (if sr_kind r = RecordToolOutcome then [outcome_key r] else [])"
  "conversation_messages [r] = (if sr_kind r = RecordConversation then [the (sr_message r)] else [])"
  by (simp_all add: model_intent_keys_def model_outcome_keys_def tool_intent_keys_def tool_outcome_keys_def of_kind_def
    conversation_messages_def)

lemma stage_index_lists:
  assumes "stage_index s st r = Inr st1"
  shows "st_models st1 = model_intent_keys [r] @ st_models st"
    and "st_model_outcomes st1 = model_outcome_keys [r] @ st_model_outcomes st"
    and "st_tools st1 = map (\<lambda>(a, b). toolKey a b) (tool_intent_keys [r]) @ st_tools st"
    and "st_tool_outcomes st1 = map (\<lambda>(a, b). toolKey a b) (tool_outcome_keys [r]) @ st_tool_outcomes st"
  using assms by (cases "sr_kind r"; auto simp: stage_index_def Let_def intent_key_def outcome_key_def split: if_splits)+

lemma stamp_keys [simp]:
  "model_intent_keys [stamp s st now r] = model_intent_keys [r]" "model_outcome_keys [stamp s st now r] = model_outcome_keys [r]"
  "tool_intent_keys [stamp s st now r] = tool_intent_keys [r]" "tool_outcome_keys [stamp s st now r] = tool_outcome_keys [r]"
  by (simp_all add: intent_key_def outcome_key_def)

lemma stage_step_inv:
  assumes inv: "session_inv (commit_staging s st)"
    and par: "check_parent s st r = None" and idx: "stage_index s st r = Inr st1"
  shows "session_inv (commit_staging s (st1\<lparr>st_owned := st_owned st @ [stamp s st now r]\<rparr>))"
proof -
  let ?r = "stamp s st now r" and ?all = "ms_records s @ st_owned st"
  note follows = stage_step_follows [OF assms, of now]
  from inv have old: "log_ok (ms_id s) ?all" "ms_messages s @ conversation_messages (st_owned st) = conversation_messages ?all"
    "set (st_models st) \<union> set (ms_model_intents s) = set (model_intent_keys ?all)"
    "set (st_model_outcomes st) \<union> set (ms_model_outcomes s) = set (model_outcome_keys ?all)"
    "set (st_tools st) \<union> set (ms_tool_intents s) = (\<lambda>(r, c). toolKey r c) ` set (tool_intent_keys ?all)"
    "set (st_tool_outcomes st) \<union> set (ms_tool_outcomes s) = (\<lambda>(r, c). toolKey r c) ` set (tool_outcome_keys ?all)"
    unfolding session_inv_def commit_staging_def by (simp_all del: keys_append conversation_append)
  have all: "ms_records s @ st_owned st @ [?r] = ?all @ [?r]" by simp
  show ?thesis
    unfolding session_inv_def
  proof (intro conjI)
    show "log_ok (ms_id (commit_staging s (st1\<lparr>st_owned := st_owned st @ [?r]\<rparr>))) (ms_records (commit_staging s (st1\<lparr>st_owned := st_owned st @ [?r]\<rparr>)))"
      using old(1) follows by (simp add: commit_staging_def all log_ok_append del: append_assoc)
    show "ms_messages (commit_staging s (st1\<lparr>st_owned := st_owned st @ [?r]\<rparr>)) = conversation_messages (ms_records (commit_staging s (st1\<lparr>st_owned := st_owned st @ [?r]\<rparr>)))"
      using old(2) by (simp add: commit_staging_def)
    show "set (ms_model_intents (commit_staging s (st1\<lparr>st_owned := st_owned st @ [?r]\<rparr>))) = set (model_intent_keys (ms_records (commit_staging s (st1\<lparr>st_owned := st_owned st @ [?r]\<rparr>))))"
      using old(3) by (simp add: commit_staging_def stage_index_lists [OF idx] Un_assoc [symmetric] del: keys_single) blast
    show "set (ms_model_outcomes (commit_staging s (st1\<lparr>st_owned := st_owned st @ [?r]\<rparr>))) = set (model_outcome_keys (ms_records (commit_staging s (st1\<lparr>st_owned := st_owned st @ [?r]\<rparr>))))"
      using old(4) by (simp add: commit_staging_def stage_index_lists [OF idx] Un_assoc [symmetric] del: keys_single) blast
    show "set (ms_tool_intents (commit_staging s (st1\<lparr>st_owned := st_owned st @ [?r]\<rparr>))) = (\<lambda>(r, c). toolKey r c) ` set (tool_intent_keys (ms_records (commit_staging s (st1\<lparr>st_owned := st_owned st @ [?r]\<rparr>))))"
      using old(5) by (simp add: commit_staging_def stage_index_lists [OF idx] image_Un Un_assoc [symmetric] del: keys_single) blast
    show "set (ms_tool_outcomes (commit_staging s (st1\<lparr>st_owned := st_owned st @ [?r]\<rparr>))) = (\<lambda>(r, c). toolKey r c) ` set (tool_outcome_keys (ms_records (commit_staging s (st1\<lparr>st_owned := st_owned st @ [?r]\<rparr>))))"
      using old(6) by (simp add: commit_staging_def stage_index_lists [OF idx] image_Un Un_assoc [symmetric] del: keys_single) blast
  qed
qed

lemma stage_inv:
  "stage s clock st rs = Inr st' \<Longrightarrow> session_inv (commit_staging s st) \<Longrightarrow> session_inv (commit_staging s st')"
proof (induction rs arbitrary: st)
  case (Cons r rs)
  then obtain st1 where par: "check_parent s st r = None" and idx: "stage_index s st r = Inr st1"
    and rest: "stage s clock (st1\<lparr>st_owned := st_owned st @ [stamp s st (clock (length (st_owned st))) r]\<rparr>) rs = Inr st'"
    by (auto split: option.splits sum.splits)
  from Cons.IH [OF rest stage_step_inv [OF Cons.prems(2) par idx]] show ?case .
qed simp

lemma commit_blank [simp]: "commit_staging s blank_staging = s"
  by (simp add: commit_staging_def blank_staging_def conversation_messages_def)

lemma AppendRecords_cases:
  obtains (fail) e where "AppendRecords url c c2 clock s rs = (Inl e, s)"
  | (ok) st where "AppendRecords url c c2 clock s rs = (Inr (st_owned st), commit_staging s st)"
      "stage s clock blank_staging rs = Inr st" "c = None" "c2 = None" "ms_id s \<noteq> []" "first_err (precheck url) rs = None"
proof (cases "c = None \<and> c2 = None \<and> ms_id s \<noteq> [] \<and> first_err (precheck url) rs = None")
  case True
  show ?thesis
  proof (cases "stage s clock blank_staging rs")
    case (Inl e)
    with True show ?thesis by (intro fail [of e]) (simp add: AppendRecords_def del: first_err_None)
  next
    case (Inr st)
    with True show ?thesis by (intro ok [of st]) (simp_all add: AppendRecords_def del: first_err_None)
  qed
next
  case False
  then have "\<exists>e. AppendRecords url c c2 clock s rs = (Inl e, s)"
    by (cases c; cases c2; cases "first_err (precheck url) rs") (auto simp: AppendRecords_def simp del: first_err_None)
  then show ?thesis using fail by blast
qed

lemma AppendRecords_inv [alva_inv]: "session_inv s \<Longrightarrow> session_inv (snd (AppendRecords url c c2 clock s rs))"
proof (cases rule: AppendRecords_cases [of url c c2 clock s rs])
  case (ok st)
  assume "session_inv s"
  with stage_inv [OF ok(2)] ok(1) show ?thesis by simp
qed simp

lemma stage_same:
  "stage s clock st rs = Inr st' \<Longrightarrow> \<exists>owned. st_owned st' = st_owned st @ owned \<and> length owned = length rs \<and>
     map sr_kind owned = map sr_kind rs \<and> map sr_tool_intent owned = map sr_tool_intent rs \<and>
     map sr_tool_outcome owned = map sr_tool_outcome rs \<and>
     map (map_option m_content \<circ> sr_message) owned = map (map_option m_content \<circ> sr_message) rs"
proof (induction rs arbitrary: st)
  case (Cons r rs)
  let ?r = "stamp s st (clock (length (st_owned st))) r"
  from Cons.prems obtain st1 where
    rest: "stage s clock (st1\<lparr>st_owned := st_owned st @ [?r]\<rparr>) rs = Inr st'"
    by (auto split: option.splits sum.splits)
  from Cons.IH [OF rest] obtain owned where o: "st_owned st' = st_owned (st1\<lparr>st_owned := st_owned st @ [?r]\<rparr>) @ owned" "length owned = length rs"
    "map sr_kind owned = map sr_kind rs" "map sr_tool_intent owned = map sr_tool_intent rs"
    "map sr_tool_outcome owned = map sr_tool_outcome rs"
    "map (map_option m_content \<circ> sr_message) owned = map (map_option m_content \<circ> sr_message) rs" by (elim exE conjE)
  have "map_option m_content (sr_message ?r) = map_option m_content (sr_message r)"
    by (cases "sr_message r") (simp_all add: stamp_def Let_def)
  with o show ?case by (intro exI [of _ "?r # owned"]) (simp add: comp_def)
qed simp

text \<open>Facts of records with the same payloads are the same facts.\<close>

lemma keys_cong:
  "map sr_kind xs = map sr_kind ys \<Longrightarrow> map sr_tool_outcome xs = map sr_tool_outcome ys \<Longrightarrow> tool_outcome_keys xs = tool_outcome_keys ys"
proof (induction xs arbitrary: ys)
  case (Cons x xs)
  then obtain y ys' where "ys = y # ys'" by (cases ys) auto
  with Cons show ?case by (auto simp: tool_outcome_keys_def of_kind_def outcome_key_def)
qed (simp add: tool_outcome_keys_def of_kind_def)

subsection \<open>The contract of a conversation log\<close>

text \<open>
  What the loop and the batch coordinator rely on (\<open>abi.ConversationLog\<close>): an append commits the
  whole batch or nothing, what it commits carries the facts it was given, and no tool call is
  ever settled twice. Sequences of appends are reasoned about once, here.
\<close>

definition acknowledged :: "(session_record list \<Rightarrow> 's \<Rightarrow> session_record list result \<times> 's) \<Rightarrow> session_record list \<Rightarrow> 's \<Rightarrow> bool" where
  "acknowledged commit rs s \<longleftrightarrow> \<not> is_err (fst (commit rs s))"

text \<open>The calls a sequence of appends settles: those of the batches that were acknowledged.\<close>

fun settled_by :: "(session_record list \<Rightarrow> 's \<Rightarrow> session_record list result \<times> 's) \<Rightarrow> session_record list list \<Rightarrow> 's \<Rightarrow> (string \<times> string) list" where
  "settled_by commit [] s = []"
| "settled_by commit (rs # rest) s =
     (if acknowledged commit rs s then tool_outcome_keys rs else []) @ settled_by commit rest (snd (commit rs s))"

locale conversation_log =
  fixes ok :: "'s \<Rightarrow> bool"
    and log :: "'s \<Rightarrow> session_record list"
    and commit :: "session_record list \<Rightarrow> 's \<Rightarrow> session_record list result \<times> 's"
  assumes append_fail: "commit rs s = (Inl e, s') \<Longrightarrow> s' = s"
    and append_log: "commit rs s = (Inr cs, s') \<Longrightarrow> log s' = log s @ cs"
    and append_facts: "commit rs s = (Inr cs, s') \<Longrightarrow> tool_outcome_keys cs = tool_outcome_keys rs"
    and append_ok: "ok s \<Longrightarrow> ok (snd (commit rs s))"
    and settled_once: "ok s \<Longrightarrow> distinct (tool_outcome_keys (log s))"
begin

fun appends :: "session_record list list \<Rightarrow> 's \<Rightarrow> 's" where
  "appends [] s = s"
| "appends (rs # rest) s = appends rest (snd (commit rs s))"

lemma appends_ok: "ok s \<Longrightarrow> ok (appends batches s)"
  by (induction batches arbitrary: s) (auto intro: append_ok)

lemma appends_settled: "tool_outcome_keys (log (appends batches s)) = tool_outcome_keys (log s) @ settled_by commit batches s"
proof (induction batches arbitrary: s)
  case (Cons rs rest)
  obtain r s' where a: "commit rs s = (r, s')" by fastforce
  show ?case
  proof (cases r)
    case (Inl e)
    with a have "s' = s" using append_fail by blast
    with a Inl Cons show ?thesis by (simp add: acknowledged_def)
  next
    case (Inr cs)
    with a append_log [of rs s cs s'] append_facts [of rs s cs s'] Cons show ?thesis by (simp add: acknowledged_def)
  qed
qed simp

lemma no_second_settlement: "ok s \<Longrightarrow> distinct (tool_outcome_keys (log s) @ settled_by commit batches s)"
  using settled_once [OF appends_ok] appends_settled by metis

end

interpretation memory: conversation_log session_inv ms_records "\<lambda>rs s. AppendRecords url None None clock s rs" for url clock
proof (unfold_locales, goal_cases)
  case (1 rs s e s')
  then show ?case by (cases rule: AppendRecords_cases [of url None None clock s rs]) auto
next
  case (2 rs s cs s')
  then show ?case by (cases rule: AppendRecords_cases [of url None None clock s rs]) (auto simp: commit_staging_def)
next
  case (3 rs s cs s')
  then show ?case
  proof (cases rule: AppendRecords_cases [of url None None clock s rs])
    case (ok st)
    with 3 stage_same [OF ok(2)] show ?thesis by (auto simp: blank_staging_def intro: keys_cong)
  qed auto
next
  case (4 s rs)
  then show ?case by (rule AppendRecords_inv)
next
  case (5 s)
  then show ?case using outcomes_distinct [of "ms_id s" "[]" "ms_records s"]
    by (simp add: session_inv_def tool_outcome_keys_def of_kind_def)
qed

subsection \<open>Properties\<close>

type_synonym append_request = "go_error option \<times> go_error option \<times> (nat \<Rightarrow> int) \<times> session_record list"

definition memory_run :: "url_parser \<Rightarrow> string \<Rightarrow> append_request list \<Rightarrow> memory_session" where
  "memory_run url sid reqs =
     foldl (\<lambda>s (c, c2, clock, rs). snd (AppendRecords url c c2 clock s rs)) (NewMemorySession sid) reqs"

lemma memory_run_inv: "session_inv (memory_run url sid reqs) \<and> ms_id (memory_run url sid reqs) = sid"
proof -
  have "session_inv s \<Longrightarrow> session_inv (foldl (\<lambda>s (c, c2, clock, rs). snd (AppendRecords url c c2 clock s rs)) s reqs) \<and>
      ms_id (foldl (\<lambda>s (c, c2, clock, rs). snd (AppendRecords url c c2 clock s rs)) s reqs) = ms_id s" for s
  proof (induction reqs arbitrary: s)
    case (Cons q reqs)
    obtain c c2 clock rs where q: "q = (c, c2, clock, rs)" by (cases q) auto
    have "ms_id (snd (AppendRecords url c c2 clock s rs)) = ms_id s"
      by (cases rule: AppendRecords_cases [of url c c2 clock s rs]) (simp_all add: commit_staging_def)
    with Cons.IH [OF AppendRecords_inv [OF Cons.prems]] q show ?case by simp
  qed simp
  from this [OF session_inv_new] show ?thesis by (simp add: memory_run_def NewMemorySession_def)
qed

text \<open>
  After any sequence of appends, accepted or refused, an in-memory log is causally ordered:
  record number i carries sequence i and the identity derived from it, its parent is an earlier
  record of the same session, intents are unique, and an outcome follows the intent it settles
  and is the only one to do so. The model transcript is exactly the conversation records in order.
\<close>

theorem memory_log_causal:
  "let s = memory_run url sid reqs in
     log_ok sid (ms_records s) \<and> ms_messages s = conversation_messages (ms_records s) \<and>
     distinct (tool_outcome_keys (ms_records s)) \<and>
     set (tool_outcome_keys (ms_records s)) \<subseteq> set (tool_intent_keys (ms_records s))"
proof -
  let ?s = "memory_run url sid reqs"
  have inv: "log_ok sid (ms_records ?s)" "ms_messages ?s = conversation_messages (ms_records ?s)"
    using memory_run_inv [of url sid reqs] by (auto simp: session_inv_def)
  have "distinct (tool_outcome_keys ([] @ ms_records ?s)) \<and> set (tool_outcome_keys ([] @ ms_records ?s)) \<subseteq> set (tool_intent_keys ([] @ ms_records ?s))"
    by (rule outcomes_distinct [OF inv(1)]) (simp_all add: tool_outcome_keys_def of_kind_def)
  with inv show ?thesis by (simp add: Let_def)
qed

text \<open>
  An append is atomic: it either returns an error and leaves the session exactly as it was,
  or appends one stored record per given record, with the same kinds, intents, outcomes and
  message contents. A batch with one invalid record is refused as a whole.
\<close>

theorem append_is_atomic:
  "case AppendRecords url c c2 clock s rs of
     (Inl e, s') \<Rightarrow> s' = s
   | (Inr cs, s') \<Rightarrow> ms_records s' = ms_records s @ cs \<and> length cs = length rs \<and>
       map sr_kind cs = map sr_kind rs \<and> map sr_tool_intent cs = map sr_tool_intent rs \<and>
       map sr_tool_outcome cs = map sr_tool_outcome rs \<and>
       map (map_option m_content \<circ> sr_message) cs = map (map_option m_content \<circ> sr_message) rs \<and>
       list_all (\<lambda>r. record_validate url r = None) rs"
proof (cases rule: AppendRecords_cases [of url c c2 clock s rs])
  case (ok st)
  have "list_all (\<lambda>r. record_validate url r = None) rs"
    using ok(6) by (auto simp: list_all_iff precheck_def split: option.splits)
  with ok stage_same [OF ok(2)] show ?thesis by (auto simp: blank_staging_def commit_staging_def)
qed simp

text \<open>
  A tool call is settled at most once in the life of a log: in any sequence of appends, no
  call that already has an outcome, or gets one from an earlier batch, is in a later batch the
  log acknowledges.
\<close>

theorem log_settles_once:
  "distinct (tool_outcome_keys (ms_records (memory_run url sid reqs)) @
     settled_by (\<lambda>rs s. AppendRecords url None None clock s rs) batches (memory_run url sid reqs))"
  by (rule memory.no_second_settlement) (rule conjunct1 [OF memory_run_inv])

text \<open>
  The key of a tool call is unambiguous: two run and call identifiers give the same key only
  if both are equal, whatever characters they contain - the length prefix decides where the run
  identifier ends.
\<close>

theorem toolKey_injective: "toolKey r c = toolKey r' c' \<longleftrightarrow> r = r' \<and> c = c'"
  by (rule toolKey_eq)

end
