(* ===== verification/Builtin_Middleware.thy ===== *)
theory Builtin_Middleware
  imports Wire Scheduling
begin

section \<open>Built-in middleware: dangling calls and loop detection\<close>

text \<open>
  sdk/kernel/core/builtins.go (\<open>DanglingToolCallMiddleware\<close>, \<open>ToolTimeoutMiddleware\<close>) and
  loop_detection.go. The JSON canonicalizer (\<open>json.Unmarshal\<close> then \<open>json.Marshal\<close>) and the
  SHA-256 digest of the sorted calls are the arguments \<open>canon\<close> and \<open>digest\<close>; the loop history lives
  in the run's extensions and is a list of digests here, empty when it was deleted.
\<close>

subsection \<open>Dangling tool calls\<close>

fun block_results :: "content_block list \<Rightarrow> string list" where
  "block_results [] = []"
| "block_results (b # bs) = (case cb_tool_result b of None \<Rightarrow> block_results bs | Some r \<Rightarrow> tr_call_id r # block_results bs)"

definition result_ids :: "message list \<Rightarrow> string list" where
  "result_ids ms = concat (map (block_results \<circ> m_content) ms)"

fun block_calls :: "content_block list \<Rightarrow> tool_call list" where
  "block_calls [] = []"
| "block_calls (b # bs) = (case cb_tool_call b of None \<Rightarrow> block_calls bs | Some c \<Rightarrow> c # block_calls bs)"

definition synthetic_result :: "tool_call \<Rightarrow> message" where
  "synthetic_result c =
     \<lparr>m_id = [], m_role = RoleTool,
      m_content = [tool_result_block (ToolResult (tc_id c)
        [text_block (''Prior tool call '' @ tc_name c @ '' has no recorded result. It was not replayed; outcome is unknown.'')] True)],
      m_usage = None, m_response_id = [], m_finish_reason = []\<rparr>"

text \<open>The inner loop: results invented for the calls of one message, and the set extended.\<close>

fun fill_calls :: "string list \<Rightarrow> tool_call list \<Rightarrow> message list \<times> string list" where
  "fill_calls known [] = ([], known)"
| "fill_calls known (c # cs) =
     (if tc_id c \<in> set known then fill_calls known cs
      else (case fill_calls (tc_id c # known) cs of (ms, known') \<Rightarrow> (synthetic_result c # ms, known')))"

fun fill_messages :: "string list \<Rightarrow> message list \<Rightarrow> message list" where
  "fill_messages known [] = []"
| "fill_messages known (m # ms) =
     (case fill_calls known (block_calls (m_content m)) of (added, known') \<Rightarrow> m # added @ fill_messages known' ms)"

definition dangling_before_model :: "message list \<Rightarrow> message list" where
  "dangling_before_model ms = fill_messages (result_ids ms) ms"

definition call_ids_of :: "message list \<Rightarrow> string list" where
  "call_ids_of ms = concat (map (map tc_id \<circ> block_calls \<circ> m_content) ms)"

lemma ids_simps [simp]:
  "result_ids [] = []" "result_ids (m # ms) = block_results (m_content m) @ result_ids ms" "result_ids (xs @ ys) = result_ids xs @ result_ids ys"
  "call_ids_of [] = []" "call_ids_of (m # ms) = map tc_id (block_calls (m_content m)) @ call_ids_of ms" "call_ids_of (xs @ ys) = call_ids_of xs @ call_ids_of ys"
  by (simp_all add: result_ids_def call_ids_of_def)

lemma synthetic_ids [simp]:
  "block_results (m_content (synthetic_result c)) = [tc_id c]" "block_calls (m_content (synthetic_result c)) = []"
  by (simp_all add: synthetic_result_def tool_result_block_def)

lemma fill_calls_spec:
  "fill_calls known cs = (ms, known') \<Longrightarrow>
     set known' = set known \<union> set (map tc_id cs) \<and> set known' = set known \<union> set (result_ids ms) \<and>
     call_ids_of ms = [] \<and> distinct (result_ids ms) \<and> set (result_ids ms) \<inter> set known = {} \<and>
     (set (map tc_id cs) \<subseteq> set known \<longrightarrow> ms = [] \<and> known' = known)"
proof (induction known cs arbitrary: ms known' rule: fill_calls.induct)
  case (2 known c cs)
  show ?case
  proof (cases "tc_id c \<in> set known")
    case True
    with 2(3) have "fill_calls known cs = (ms, known')" by simp
    from 2(1) [OF True this] True show ?thesis by auto
  next
    case False
    obtain ms1 known1 where f: "fill_calls (tc_id c # known) cs = (ms1, known1)" by fastforce
    with 2(3) False have eq: "ms = synthetic_result c # ms1" "known' = known1" by simp_all
    note ih = 2(2) [OF False f]
    have "set known' = set known \<union> set (map tc_id (c # cs))" "set known' = set known \<union> set (result_ids ms)"
      using ih unfolding eq by auto
    moreover have "call_ids_of ms = []" "distinct (result_ids ms)" "set (result_ids ms) \<inter> set known = {}"
      using ih False unfolding eq by auto
    ultimately show ?thesis using False by auto
  qed
qed auto

lemma fill_messages_spec:
  "set (result_ids ms) \<subseteq> set known \<Longrightarrow>
     set known \<union> set (call_ids_of ms) = set known \<union> set (result_ids (fill_messages known ms)) \<and>
     call_ids_of (fill_messages known ms) = call_ids_of ms \<and> subseq ms (fill_messages known ms) \<and>
     (set (call_ids_of ms) \<subseteq> set known \<longrightarrow> fill_messages known ms = ms)"
proof (induction known ms rule: fill_messages.induct)
  case (2 known m ms)
  obtain added known' where f: "fill_calls known (block_calls (m_content m)) = (added, known')" by fastforce
  note fc = fill_calls_spec [OF f]
  have "set (result_ids ms) \<subseteq> set known'" using 2(2) fc by auto
  from 2(1) [OF f [symmetric] this] have ih:
    "set known' \<union> set (call_ids_of ms) = set known' \<union> set (result_ids (fill_messages known' ms))"
    "call_ids_of (fill_messages known' ms) = call_ids_of ms" "subseq ms (fill_messages known' ms)"
    "set (call_ids_of ms) \<subseteq> set known' \<longrightarrow> fill_messages known' ms = ms" by auto
  have step: "fill_messages known (m # ms) = m # added @ fill_messages known' ms" by (simp add: f)
  have "set known \<union> set (call_ids_of (m # ms)) = set known \<union> set (result_ids (fill_messages known (m # ms)))"
  proof -
    let ?C = "set (map tc_id (block_calls (m_content m)))" and ?B = "set (block_results (m_content m))"
    have b: "?B \<union> set known = set known" using 2(2) by auto
    have "set known \<union> (?C \<union> set (call_ids_of ms)) = set known' \<union> set (call_ids_of ms)"
      using fc by (metis Un_assoc)
    also have "\<dots> = set known \<union> set (result_ids added) \<union> set (result_ids (fill_messages known' ms))"
      using ih(1) fc by metis
    also have "\<dots> = set known \<union> (?B \<union> (set (result_ids added) \<union> set (result_ids (fill_messages known' ms))))"
      using b by (metis Un_assoc Un_commute)
    finally show ?thesis unfolding step by (simp add: Un_assoc)
  qed
  moreover have "call_ids_of (fill_messages known (m # ms)) = call_ids_of (m # ms)"
    using fc ih(2) unfolding step by simp
  moreover have "subseq (m # ms) (fill_messages known (m # ms))"
    unfolding step using ih(3) by (simp add: list_emb_append2)
  moreover have "set (call_ids_of (m # ms)) \<subseteq> set known \<longrightarrow> fill_messages known (m # ms) = m # ms"
    unfolding step using fc ih(4) by auto
  ultimately show ?case by blast
qed simp

text \<open>
  After the dangling-call middleware every tool call in the request has a tool result: the
  request keeps all its messages in order, only gains results for calls that had none, keeps the
  same calls, and a second pass changes nothing.
\<close>

theorem dangling_calls_are_closed:
  "let out = dangling_before_model ms in
     subseq ms out \<and> call_ids_of out = call_ids_of ms \<and>
     set (call_ids_of out) \<subseteq> set (result_ids out) \<and>
     set (result_ids out) = set (result_ids ms) \<union> set (call_ids_of ms) \<and>
     dangling_before_model out = out"
proof -
  let ?out = "dangling_before_model ms"
  have spec: "set (result_ids ms) \<union> set (call_ids_of ms) = set (result_ids ms) \<union> set (result_ids ?out)"
    "call_ids_of ?out = call_ids_of ms" "subseq ms ?out"
    using fill_messages_spec [of ms "result_ids ms"] by (auto simp: dangling_before_model_def)
  have "set (result_ids ms) \<subseteq> set (result_ids ?out)"
    using spec(3) by (auto simp: result_ids_def dest: list_emb_set)
  then have out: "set (result_ids ?out) = set (result_ids ms) \<union> set (call_ids_of ms)" using spec(1) by blast
  then have "set (call_ids_of ?out) \<subseteq> set (result_ids ?out)" using spec(2) by simp
  then have "dangling_before_model ?out = ?out"
    using fill_messages_spec [of ?out "result_ids ?out"] by (simp add: dangling_before_model_def)
  with spec out \<open>set (call_ids_of ?out) \<subseteq> set (result_ids ?out)\<close> show ?thesis by (simp add: Let_def)
qed

subsection \<open>Tool timeout\<close>

text \<open>\<open>WrapTool\<close>: \<open>inner\<close> is what \<open>next\<close> returned and \<open>expired\<close> whether the derived deadline had passed.\<close>

definition ErrToolTimeout :: go_error where
  "ErrToolTimeout = ErrNew ''tool exceeded timeout; waited for actual exit; side effects may have occurred''"

definition timeout_wrap :: "int \<Rightarrow> scheduling \<Rightarrow> tool_result \<times> go_error option \<Rightarrow> bool \<Rightarrow> tool_result \<times> go_error option" where
  "timeout_wrap timeout s inner expired =
     (if ManagesOwnTimeout s then inner
      else if timeout \<le> 0 then (ToolResult [] [] False, Some (ErrNew ''positive tool timeout required''))
      else if expired then (fst inner, errors_join [Some ErrToolTimeout, Some DeadlineExceeded, snd inner])
      else inner)"

subsection \<open>Loop detection\<close>

record loop_detection =
  ld_warn :: nat
  ld_hard :: nat
  ld_window :: nat

definition NewLoopDetectionMiddleware :: "int \<Rightarrow> int \<Rightarrow> int \<Rightarrow> loop_detection result" where
  "NewLoopDetectionMiddleware warn hard window =
     (if warn < 1 \<or> hard < warn \<or> window < hard \<or> window > 100000
      then Inl (ErrNew ''loop detection requires 1 <= warn <= hard <= bounded window'')
      else Inr \<lparr>ld_warn = nat warn, ld_hard = nat hard, ld_window = nat window\<rparr>)"

text \<open>Name, a NUL byte, canonical arguments; malformed arguments are an error.\<close>

fun canonical_calls :: "(string \<Rightarrow> string result) \<Rightarrow> tool_call list \<Rightarrow> string list result" where
  "canonical_calls canon [] = Inr []"
| "canonical_calls canon (c # cs) =
     (case canon (tc_arguments c) of
        Inl e \<Rightarrow> Inl e
      | Inr a \<Rightarrow>
          (case canonical_calls canon cs of Inl e \<Rightarrow> Inl e | Inr rest \<Rightarrow> Inr ((tc_name c @ [CHR 0x00] @ a) # rest)))"

definition loop_note :: content_block where
  "loop_note = text_block ''[Loop detected: repeated identical tool calls were stripped. Respond with text or use a different approach.]''"

definition strip_calls :: "content_block list \<Rightarrow> content_block list" where
  "strip_calls bs = filter (\<lambda>b. cb_tool_call b = None) bs @ [loop_note]"

text \<open>Append a digest and keep the newest \<open>window\<close> of them.\<close>

definition window_push :: "nat \<Rightarrow> string list \<Rightarrow> string \<Rightarrow> string list" where
  "window_push window history key =
     (let extended = history @ [key] in
      if length extended > window then drop (length extended - window) extended else extended)"

text \<open>\<open>AfterModel\<close>: the new history, the message, and the count it warns with, if it warns.\<close>

definition loop_after_model :: "(string \<Rightarrow> string result) \<Rightarrow> (string list \<Rightarrow> string) \<Rightarrow> loop_detection \<Rightarrow> string list \<Rightarrow> message \<Rightarrow>
    (string list \<times> message \<times> nat option) result" where
  "loop_after_model canon digest ld history m =
     (case canonical_calls canon (block_calls (m_content m)) of
        Inl e \<Rightarrow> Inl e
      | Inr calls \<Rightarrow>
          if calls = [] then Inr (history, m, None)
          else (let key = digest (sort calls);
                    kept = window_push (ld_window ld) history key;
                    n = length (filter (\<lambda>x. x = key) kept)
                in if n \<ge> ld_hard ld then Inr (kept, m\<lparr>m_content := strip_calls (m_content m)\<rparr>, None)
                   else Inr (kept, m, if n \<ge> ld_warn ld then Some n else None)))"

text \<open>A run's responses, one after another: what the loop sees of each.\<close>

fun loop_run :: "(string \<Rightarrow> string result) \<Rightarrow> (string list \<Rightarrow> string) \<Rightarrow> loop_detection \<Rightarrow> string list \<Rightarrow> message list \<Rightarrow> message list result" where
  "loop_run canon digest ld history [] = Inr []"
| "loop_run canon digest ld history (m # ms) =
     (case loop_after_model canon digest ld history m of
        Inl e \<Rightarrow> Inl e
      | Inr (history', m', w) \<Rightarrow>
          (case loop_run canon digest ld history' ms of Inl e \<Rightarrow> Inl e | Inr out \<Rightarrow> Inr (m' # out)))"

lemma strip_calls_none [simp]: "block_calls (strip_calls bs) = []"
proof -
  have "block_calls (filter (\<lambda>b. cb_tool_call b = None) bs @ [loop_note]) = []"
    by (induction bs) (simp_all add: loop_note_def text_block_def)
  then show ?thesis by (simp add: strip_calls_def)
qed

lemma block_calls_Nil_iff: "canonical_calls canon cs = Inr calls \<Longrightarrow> calls = [] \<longleftrightarrow> cs = []"
  by (cases cs) (auto split: sum.splits)

text \<open>The window always keeps the newest digests: the newest \<open>n\<close> for every \<open>n\<close> up to its size.\<close>

lemma loop_history_window:
  assumes "loop_after_model canon digest ld history m = Inr (h, m', w)" "length history \<le> ld_window ld"
  shows "length h \<le> ld_window ld"
  using assms by (auto simp: loop_after_model_def window_push_def Let_def split: sum.splits if_splits)

lemma loop_after_repeat:
  assumes calls: "canonical_calls canon (block_calls (m_content m)) = Inr calls" "calls \<noteq> []"
    and ld: "ld_hard ld \<le> ld_window ld" "1 \<le> ld_hard ld"
    and h: "history = old @ replicate k (digest (sort calls))" "k < ld_hard ld"
  obtains h' old' w where "loop_after_model canon digest ld history m =
      Inr (h', if ld_hard ld \<le> length (filter (\<lambda>x. x = digest (sort calls)) h') then m\<lparr>m_content := strip_calls (m_content m)\<rparr> else m, w)"
    "h' = old' @ replicate (Suc k) (digest (sort calls))"
proof -
  let ?key = "digest (sort calls)"
  define extended where "extended = history @ [?key]"
  have ext: "extended = old @ replicate (Suc k) ?key" using h(1) by (simp add: extended_def replicate_append_same)
  define kept where "kept = window_push (ld_window ld) history ?key"
  have kept: "kept = (if length extended > ld_window ld then drop (length extended - ld_window ld) extended else extended)"
    by (simp add: kept_def window_push_def extended_def Let_def)
  have "\<exists>old'. kept = old' @ replicate (Suc k) ?key"
  proof (cases "length extended > ld_window ld")
    case True
    have "length extended - ld_window ld \<le> length old" using ext h(2) ld(1) True by simp
    then have "kept = drop (length extended - ld_window ld) old @ replicate (Suc k) ?key"
      using True ext by (simp add: kept)
    then show ?thesis by blast
  next
    case False
    then show ?thesis using ext by (auto simp: kept)
  qed
  then obtain old' where "kept = old' @ replicate (Suc k) ?key" by blast
  moreover have "\<exists>w. loop_after_model canon digest ld history m =
      Inr (kept, if ld_hard ld \<le> length (filter (\<lambda>x. x = ?key) kept) then m\<lparr>m_content := strip_calls (m_content m)\<rparr> else m, w)"
    using calls by (simp add: loop_after_model_def Let_def kept_def [symmetric])
  ultimately show ?thesis using that by blast
qed

text \<open>
  Loop detection ends a repetition: if the model answers with the same tool calls (the same
  canonical digest) hard-limit times in a row, the tool calls of the last of these answers
  are stripped, whatever happened in the run before - so the same batch is never executed that
  often in a row.
\<close>

theorem loop_is_cut:
  assumes "NewLoopDetectionMiddleware warn hard window = Inr ld"
    and "loop_run canon digest ld history (replicate (ld_hard ld) m) = Inr out"
  shows "block_calls (m_content (last out)) = []"
proof (cases "block_calls (m_content m)")
  case Nil
  have "loop_run canon digest ld h (replicate n m) = Inr (replicate n m)" for h n
  proof (induction n)
    case (Suc n)
    have "loop_after_model canon digest ld h m = Inr (h, m, None)" by (simp add: loop_after_model_def Nil)
    with Suc show ?case by simp
  qed simp
  with assms(2) have out: "out = replicate (ld_hard ld) m" by simp
  have "ld_hard ld > 0" using assms(1) by (auto simp: NewLoopDetectionMiddleware_def split: if_splits)
  with out Nil show ?thesis by simp
next
  case (Cons c cs)
  have ld: "ld_hard ld \<le> ld_window ld" "1 \<le> ld_hard ld"
    using assms(1) by (auto simp: NewLoopDetectionMiddleware_def split: if_splits)
  obtain k where k: "ld_hard ld = Suc k" using ld(2) by (cases "ld_hard ld") auto
  obtain calls where calls: "canonical_calls canon (block_calls (m_content m)) = Inr calls"
    using assms(2) unfolding k by (cases "canonical_calls canon (block_calls (m_content m))") (auto simp: loop_after_model_def)
  have ne: "calls \<noteq> []" using block_calls_Nil_iff [OF calls] Cons by simp
  have "loop_run canon digest ld (old @ replicate j (digest (sort calls))) (replicate n m) = Inr out \<Longrightarrow>
      n > 0 \<Longrightarrow> j + n = ld_hard ld \<Longrightarrow> block_calls (m_content (last out)) = []" for n j old out
  proof (induction n arbitrary: j old out)
    case (Suc n)
    have j: "j < ld_hard ld" using Suc.prems(3) by simp
    obtain h' old' w where step: "loop_after_model canon digest ld (old @ replicate j (digest (sort calls))) m =
        Inr (h', if ld_hard ld \<le> length (filter (\<lambda>x. x = digest (sort calls)) h') then m\<lparr>m_content := strip_calls (m_content m)\<rparr> else m, w)"
      and h': "h' = old' @ replicate (Suc j) (digest (sort calls))"
      by (rule loop_after_repeat [OF calls ne ld refl j])
    from Suc.prems(1) step obtain out1 where rest: "loop_run canon digest ld h' (replicate n m) = Inr out1"
      and out: "out = (if ld_hard ld \<le> length (filter (\<lambda>x. x = digest (sort calls)) h') then m\<lparr>m_content := strip_calls (m_content m)\<rparr> else m) # out1"
      by (auto split: sum.splits)
    show ?case
    proof (cases "n = 0")
      case True
      with Suc.prems(3) have "ld_hard ld = Suc j" by simp
      then have "ld_hard ld \<le> length (filter (\<lambda>x. x = digest (sort calls)) h')" by (simp add: h')
      with out rest True show ?thesis by simp
    next
      case False
      have "block_calls (m_content (last out1)) = []"
        using Suc.IH [OF rest [unfolded h']] False Suc.prems(3) by simp
      moreover have "out1 \<noteq> []" using rest False by (cases n) (auto split: sum.splits)
      ultimately show ?thesis using out by simp
    qed
  qed simp
  from this [of history 0 "ld_hard ld" out] assms(2) ld(2) show ?thesis by simp
qed

definition calling_message :: message where
  "calling_message = \<lparr>m_id = [], m_role = RoleAssistant,
     m_content = [tool_call_block (Some \<lparr>tc_id = ''1'', tc_name = ''ls'', tc_arguments = ''{}'', tc_provider_state = []\<rparr>)],
     m_usage = None, m_response_id = [], m_finish_reason = []\<rparr>"

theorem loop_is_cut_witness:
  "\<exists>ld out. NewLoopDetectionMiddleware 1 2 3 = Inr ld \<and>
     loop_run Inr concat ld [] (replicate (ld_hard ld) calling_message) = Inr out \<and>
     block_calls (m_content (hd out)) \<noteq> [] \<and> block_calls (m_content (last out)) = []"
proof -
  define ld where "ld = \<lparr>ld_warn = 1, ld_hard = 2, ld_window = 3\<rparr>"
  have new: "NewLoopDetectionMiddleware 1 2 3 = Inr ld" by (simp add: NewLoopDetectionMiddleware_def ld_def)
  have out: "loop_run Inr concat ld [] (replicate (ld_hard ld) calling_message) =
      Inr [calling_message, calling_message\<lparr>m_content := strip_calls (m_content calling_message)\<rparr>]"
    unfolding ld_def by code_simp
  moreover have "block_calls (m_content (hd [calling_message, calling_message\<lparr>m_content := strip_calls (m_content calling_message)\<rparr>])) \<noteq> []"
    by code_simp
  ultimately show ?thesis using loop_is_cut [OF new out] new by blast
qed

end
