(* ===== verification/Permission_Rules.thy ===== *)
theory Permission_Rules
  imports Wire
begin

section \<open>Permission rules and their pattern matcher\<close>

text \<open>
  sdk/agent/security/rules.go. Patterns are matched on bytes; a star stands for any bytes. A
  pattern with parentheses matches the tool before them and the input inside them.
\<close>

datatype rule_decision = RulesAllow | RulesDeny | RulesAsk

record permission_rules =
  pr_allow :: "string list"
  pr_deny :: "string list"
  pr_ask :: "string list"
  pr_read_only :: "string list"

text \<open>\<open>strings.IndexByte\<close>\<close>

fun index_byte :: "char \<Rightarrow> string \<Rightarrow> nat option" where
  "index_byte c [] = None"
| "index_byte c (x # xs) = (if x = c then Some 0 else map_option Suc (index_byte c xs))"

definition pattern_validate :: "string \<Rightarrow> go_error option" where
  "pattern_validate p =
     (if p = [] \<or> length p > 2048 \<or> \<not> utf8_valid p then Some (ErrNew ''invalid permission rule pattern'')
      else (case index_byte (CHR ''('') p of
          Some opening \<Rightarrow> if opening = 0 \<or> \<not> HasSuffix p '')'' then Some (ErrNew ''invalid permission argument pattern'') else None
        | None \<Rightarrow> None))"

definition rules_validate :: "permission_rules \<Rightarrow> go_error option" where
  "rules_validate r =
     (let all = pr_allow r @ pr_deny r @ pr_ask r @ pr_read_only r in
      case first_err pattern_validate all of
        Some e \<Rightarrow> Some e
      | None \<Rightarrow> if length all > 1024 \<or> sum_list (map length all) > 262144
               then Some (ErrNew ''permission rules exceed configured bounds'') else None)"

text \<open>\<open>glob\<close>: the literal parts between stars, the first anchored, the middle ones leftmost, the last a suffix.\<close>

fun glob_middle :: "string list \<Rightarrow> string \<Rightarrow> string option" where
  "glob_middle [] remaining = Some remaining"
| "glob_middle (part # parts) remaining =
     (if part = [] then glob_middle parts remaining
      else (case str_index remaining part of
          None \<Rightarrow> None
        | Some position \<Rightarrow> glob_middle parts (drop (position + length part) remaining)))"

definition glob :: "string \<Rightarrow> string \<Rightarrow> bool" where
  "glob pattern text =
     (let parts = split_on (CHR ''*'') pattern in
      if length parts = 1 then pattern = text
      else if hd parts \<noteq> [] \<and> \<not> HasPrefix text (hd parts) then False
      else (case glob_middle (butlast (tl parts)) (drop (length (hd parts)) text) of
          None \<Rightarrow> False
        | Some remaining \<Rightarrow> last parts = [] \<or> HasSuffix remaining (last parts)))"

definition matchRule :: "string \<Rightarrow> string \<Rightarrow> string \<Rightarrow> bool" where
  "matchRule pattern tool input =
     (case index_byte (CHR ''('') pattern of
        None \<Rightarrow> glob pattern tool
      | Some opening \<Rightarrow>
          if \<not> HasSuffix pattern '')'' then False
          else glob (take opening pattern) tool \<and> glob (take (length pattern - opening - 2) (drop (opening + 1) pattern)) input)"

definition rules_match :: "permission_rules \<Rightarrow> string \<Rightarrow> string \<Rightarrow> rule_decision \<times> bool" where
  "rules_match r tool input =
     (if list_ex (\<lambda>p. matchRule p tool input) (pr_deny r) then (RulesDeny, True)
      else if list_ex (\<lambda>p. matchRule p tool input) (pr_ask r) then (RulesAsk, True)
      else if list_ex (\<lambda>p. matchRule p tool input) (pr_allow r) then (RulesAllow, True)
      else (RulesAsk, False))"

definition rules_check :: "permission_rules \<Rightarrow> string \<Rightarrow> string \<Rightarrow> rule_decision" where
  "rules_check r tool input = fst (rules_match r tool input)"

definition rules_is_read_only :: "permission_rules \<Rightarrow> string \<Rightarrow> bool" where
  "rules_is_read_only r tool = list_ex (\<lambda>p. \<not> str_contains p ''('' \<and> glob p tool) (pr_read_only r)"

subsection \<open>What a pattern means\<close>

text \<open>The declarative reading: a star matches any bytes, every other byte itself.\<close>

fun matches :: "string \<Rightarrow> string \<Rightarrow> bool" where
  "matches [] t = (t = [])"
| "matches (c # p) t =
     (if c = CHR ''*'' then matches p t \<or> (case t of [] \<Rightarrow> False | _ # t' \<Rightarrow> matches (c # p) t')
      else (case t of [] \<Rightarrow> False | x # t' \<Rightarrow> x = c \<and> matches p t'))"

text \<open>The same, by parts: some bytes before each part after the first.\<close>

fun parts_match :: "string list \<Rightarrow> string \<Rightarrow> bool" where
  "parts_match [] t = False"
| "parts_match [last_part] t = HasSuffix t last_part"
| "parts_match (part # q # parts) t = (\<exists>a b. t = a @ part @ b \<and> parts_match (q # parts) b)"

lemma matches_star: "matches (CHR ''*'' # p) t \<longleftrightarrow> (\<exists>a b. t = a @ b \<and> matches p b)"
proof (induction t)
  case Nil
  then show ?case by simp
next
  case (Cons x t)
  have "matches (CHR ''*'' # p) (x # t) \<longleftrightarrow> matches p (x # t) \<or> matches (CHR ''*'' # p) t" by simp
  also have "\<dots> \<longleftrightarrow> matches p (x # t) \<or> (\<exists>a b. t = a @ b \<and> matches p b)" using Cons by simp
  also have "\<dots> \<longleftrightarrow> (\<exists>a b. x # t = a @ b \<and> matches p b)"
    by (metis append_Cons append_Nil list.exhaust list.inject)
  finally show ?case .
qed

lemma matches_literal: "CHR ''*'' \<notin> set l \<Longrightarrow> matches (l @ p) t \<longleftrightarrow> (\<exists>b. t = l @ b \<and> matches p b)"
proof (induction l arbitrary: t)
  case (Cons c l)
  then show ?case by (cases t) auto
qed simp

lemma matches_parts:
  "ps \<noteq> [] \<Longrightarrow> \<forall>x \<in> set ps. CHR ''*'' \<notin> set x \<Longrightarrow>
     matches (CHR ''*'' # join_with (CHR ''*'') ps) t \<longleftrightarrow> parts_match ps t"
proof (induction ps arbitrary: t rule: induct_list012)
  case (2 x)
  have "matches x b \<longleftrightarrow> b = x" for b using matches_literal [of x "[]" b] 2 by auto
  then show ?case using 2 by (auto simp: matches_star HasSuffix_iff simp del: matches.simps)
next
  case (3 x y zs)
  have "matches (join_with (CHR ''*'') (x # y # zs)) b \<longleftrightarrow> (\<exists>b'. b = x @ b' \<and> parts_match (y # zs) b')" for b
    using matches_literal [of x "CHR ''*'' # join_with (CHR ''*'') (y # zs)" b] 3(2) 3(4) by (simp del: matches.simps)
  then show ?case by (auto simp: matches_star simp del: matches.simps)
qed simp

text \<open>Greedy search is complete: what matches after a later occurrence also matches after the leftmost.\<close>

lemma parts_match_suffix: "ps \<noteq> [] \<Longrightarrow> parts_match ps b \<Longrightarrow> parts_match ps (a @ b)"
proof (induction ps arbitrary: a b rule: induct_list012)
  case (2 x)
  then show ?case by (auto simp: HasSuffix_iff)
next
  case (3 x y zs)
  from 3(4) obtain c d where "b = c @ x @ d" "parts_match (y # zs) d" by auto
  then have "a @ b = (a @ c) @ x @ d \<and> parts_match (y # zs) d" by simp
  then show ?case unfolding parts_match.simps by blast
qed simp

lemma glob_middle_parts:
  "parts_match (middle @ [lst]) t \<longleftrightarrow> (\<exists>r. glob_middle middle t = Some r \<and> HasSuffix r lst)"
proof (induction middle arbitrary: t)
  case (Cons part parts)
  have unfold: "parts_match ((part # parts) @ [lst]) t \<longleftrightarrow> (\<exists>a b. t = a @ part @ b \<and> parts_match (parts @ [lst]) b)"
    by (cases parts) auto
  show ?case
  proof (cases "part = []")
    case True
    have "(\<exists>a b. t = a @ b \<and> parts_match (parts @ [lst]) b) \<longleftrightarrow> parts_match (parts @ [lst]) t"
      using parts_match_suffix [of "parts @ [lst]"] by (metis append_Nil append_is_Nil_conv list.distinct(1))
    with unfold True Cons show ?thesis by simp
  next
    case False
    show ?thesis
    proof (cases "str_index t part")
      case None
      then have "\<nexists>a b. t = a @ part @ b" by (simp add: str_index_None)
      with unfold None False show ?thesis by auto
    next
      case (Some i)
      have t: "t = take i t @ part @ drop (i + length part) t" by (rule str_index_SomeD [OF Some])
      have "(\<exists>a b. t = a @ part @ b \<and> parts_match (parts @ [lst]) b) \<longleftrightarrow> parts_match (parts @ [lst]) (drop (i + length part) t)"
      proof
        assume "\<exists>a b. t = a @ part @ b \<and> parts_match (parts @ [lst]) b"
        then obtain a b where ab: "t = a @ part @ b" "parts_match (parts @ [lst]) b" by blast
        have "i \<le> length a" by (rule str_index_least [OF Some ab(1)])
        then have "drop (i + length part) t = drop (i + length part) (a @ part) @ b"
          using ab(1) by (simp add: drop_append)
        with parts_match_suffix [OF _ ab(2), of "drop (i + length part) (a @ part)"]
        show "parts_match (parts @ [lst]) (drop (i + length part) t)" by simp
      qed (use t in blast)
      with unfold Some False Cons show ?thesis by simp
    qed
  qed
qed simp

lemma glob_matches: "glob pattern text \<longleftrightarrow> matches pattern text"
proof -
  let ?parts = "split_on (CHR ''*'') pattern"
  have parts: "\<forall>x \<in> set ?parts. CHR ''*'' \<notin> set x" by (auto dest: split_parts_no_sep)
  have join: "join_with (CHR ''*'') ?parts = pattern" by simp
  show ?thesis
  proof (cases "length ?parts = 1")
    case True
    then obtain x where x: "?parts = [x]" by (auto simp: length_Suc_conv)
    with join have "pattern = x" by simp
    with x parts have "CHR ''*'' \<notin> set pattern" by auto
    then have "matches pattern text \<longleftrightarrow> text = pattern" using matches_literal [of pattern "[]" "text"] by auto
    with True show ?thesis by (auto simp: glob_def Let_def)
  next
    case False
    obtain h q where hq: "?parts = h # q" by (cases ?parts) auto
    with False have "q \<noteq> []" by auto
    then have q: "q = butlast q @ [last q]" by simp
    have pat: "pattern = h @ CHR ''*'' # join_with (CHR ''*'') q"
      using join hq \<open>q \<noteq> []\<close> by (cases q) auto
    have hd_no: "CHR ''*'' \<notin> set h" using parts hq by auto
    have "matches pattern text \<longleftrightarrow> (\<exists>b. text = h @ b \<and> matches (CHR ''*'' # join_with (CHR ''*'') q) b)"
      unfolding pat by (rule matches_literal [OF hd_no])
    also have "\<dots> \<longleftrightarrow> (\<exists>b. text = h @ b \<and> parts_match q b)"
      using matches_parts [OF \<open>q \<noteq> []\<close>] parts hq by simp
    also have "\<dots> \<longleftrightarrow> HasPrefix text h \<and> parts_match q (drop (length h) text)"
      by (auto simp: HasPrefix_iff)
    also have "parts_match q (drop (length h) text) \<longleftrightarrow>
        (\<exists>r. glob_middle (butlast q) (drop (length h) text) = Some r \<and> HasSuffix r (last q))"
      using glob_middle_parts [of "butlast q" "last q" "drop (length h) text"] \<open>q \<noteq> []\<close> by simp
    finally show ?thesis
      using False hq \<open>q \<noteq> []\<close> by (auto simp: glob_def Let_def HasPrefix_def HasSuffix_def split: option.splits)
  qed
qed

text \<open>
  The pattern matcher is exactly the reading "a star stands for any bytes, every other byte
  for itself": its single greedy pass over the literal parts finds a match whenever there is one.
\<close>

theorem glob_is_complete: "glob pattern text \<longleftrightarrow> matches pattern text"
  by (rule glob_matches)

text \<open>Deny beats ask beats allow; what no pattern matches is left to the default.\<close>

lemma rules_match_deny: "p \<in> set (pr_deny r) \<Longrightarrow> matchRule p tool input \<Longrightarrow> rules_match r tool input = (RulesDeny, True)"
  by (auto simp: rules_match_def list_ex_iff)

lemma rules_match_allow: "rules_match r tool input = (RulesAllow, True) \<Longrightarrow> \<exists>p \<in> set (pr_allow r). matchRule p tool input"
  by (auto simp: rules_match_def list_ex_iff split: if_splits)

end
