(* ===== verification/Permission.thy ===== *)
theory Permission
  imports Permission_Rules Records "HOL-Library.AList"
begin

section \<open>The permission manager\<close>

text \<open>
  sdk/agent/security/permission.go. \<open>Authorize\<close> is three steps, as in the code: a read of the
  policy under the lock (\<open>authorize_read\<close>), the registration of an approval in flight
  (\<open>authorize_enter\<close>), and, after the handler answered, the commit (\<open>authorize_finish\<close>). Anything else
  may happen to the manager between them. A flight is identified by its serial, for the pointer
  of the source; the SHA-256 fingerprint of a request is the argument \<open>fingerprint\<close>. Counters
  are naturals.
\<close>

datatype permission_mode = PermissionAsk | AcceptEdits | Plan | PermissionOther string
datatype decision_scope = ScopeOnce | ScopeSession | ScopeOther string

definition ErrPermissionDenied :: go_error where "ErrPermissionDenied = ErrNew ''permission denied''"
definition ErrApprovalRequired :: go_error where
  "ErrApprovalRequired = ErrNew ''approval required but no handler is available''"

record approval_request =
  ar_id :: string
  ar_session :: string
  ar_run :: string
  ar_call :: string
  ar_tool :: string
  ar_effect :: effect
  ar_summary :: string
  ar_hash :: string

record approval_decision =
  ad_allowed :: bool
  ad_scope :: decision_scope

record approval_flight =
  fl_err :: "go_error option"
  fl_session :: string
  fl_serial :: nat
  fl_complete :: bool

record permission_manager =
  pm_mode :: permission_mode
  pm_cache :: "string \<Rightarrow> bool option"
  pm_flights :: "(string \<times> approval_flight) list"
  pm_serial :: nat
  pm_revision :: nat
  pm_generation :: "string \<Rightarrow> nat"
  pm_session_modes :: "(string \<times> permission_mode) list"
  pm_rules :: "permission_rules option"
  pm_rules_err :: "go_error option"

definition NewPermissionManager :: "permission_mode \<Rightarrow> permission_rules list \<Rightarrow> permission_manager" where
  "NewPermissionManager mode rules =
     \<lparr>pm_mode = mode, pm_cache = Map.empty, pm_flights = [], pm_serial = 0, pm_revision = 0, pm_generation = (\<lambda>_. 0),
      pm_session_modes = [],
      pm_rules = (case rules of [r] \<Rightarrow> Some r | _ \<Rightarrow> None),
      pm_rules_err = (case rules of [] \<Rightarrow> None | [r] \<Rightarrow> rules_validate r
        | _ \<Rightarrow> Some (ErrNew ''at most one permission rules snapshot permitted''))\<rparr>"

definition known_mode :: "permission_mode \<Rightarrow> bool" where
  "known_mode m = (m = PermissionAsk \<or> m = AcceptEdits \<or> m = Plan)"

definition modeForSession :: "permission_manager \<Rightarrow> string \<Rightarrow> permission_mode" where
  "modeForSession pm sid = (case map_of (pm_session_modes pm) sid of Some m \<Rightarrow> m | None \<Rightarrow> pm_mode pm)"

text \<open>\<open>clearSession\<close>: the cached keys of a session are those with its length prefix and name.\<close>

definition clearSession :: "string \<Rightarrow> permission_manager \<Rightarrow> permission_manager" where
  "clearSession sid pm =
     pm\<lparr>pm_session_modes := AList.delete sid (pm_session_modes pm),
        pm_generation := (pm_generation pm)(sid := pm_generation pm sid + 1),
        pm_cache := (\<lambda>key. if HasPrefix key (dec (length sid) @ '':'' @ sid) then None else pm_cache pm key),
        pm_flights := filter (\<lambda>(k, f). fl_session f \<noteq> sid) (pm_flights pm)\<rparr>"

definition SetSessionMode :: "string \<Rightarrow> permission_mode \<Rightarrow> permission_manager \<Rightarrow> permission_manager \<times> go_error option" where
  "SetSessionMode sid mode pm =
     (if sid = [] \<or> length sid > 512 \<or> \<not> utf8_valid sid then (pm, Some (ErrNew ''invalid permission session identity''))
      else if \<not> known_mode mode then (pm, Some (ErrNew ''unknown permission mode''))
      else if map_of (pm_session_modes pm) sid = None \<and> length (pm_session_modes pm) \<ge> 4096
      then (pm, Some (ErrNew ''permission session mode budget exceeded''))
      else (let pm1 = clearSession sid pm in
            (pm1\<lparr>pm_session_modes := AList.update sid mode (pm_session_modes pm1)\<rparr>, None)))"

definition SetMode :: "permission_mode \<Rightarrow> permission_manager \<Rightarrow> permission_manager \<times> go_error option" where
  "SetMode mode pm =
     (if \<not> known_mode mode then (pm, Some (ErrNew ''unknown permission mode''))
      else (pm\<lparr>pm_mode := mode, pm_revision := pm_revision pm + 1, pm_flights := [], pm_cache := Map.empty,
               pm_session_modes := []\<rparr>, None))"

subsection \<open>Authorize: the policy\<close>

definition request_validate :: "approval_request \<Rightarrow> go_error option" where
  "request_validate r =
     (if ar_session r = [] \<or> ar_tool r = [] then Some (ErrNew ''approval session/tool identity missing'')
      else if \<not> validStrings [ar_id r, ar_session r, ar_run r, ar_call r, ar_tool r, ef_description (ar_effect r)]
      then Some (ErrNew ''approval identity/effect must be valid UTF-8'')
      else if \<not> validStrings (map rc_resource (ef_resources (ar_effect r)))
      then Some (ErrNew ''approval resource must be valid UTF-8'')
      else if length (ar_summary r) > 262144 \<or> \<not> utf8_valid (ar_summary r)
      then Some (ErrNew ''approval input summary must be valid UTF-8 within 256 KiB'')
      else if ar_hash r \<noteq> [] \<and> (length (ar_hash r) \<noteq> 64 \<or> \<not> list_all is_hex (ar_hash r))
      then Some (ErrNew ''invalid approval arguments hash'') else None)"

record snapshot =
  sn_revision :: nat
  sn_generation :: nat
  sn_key :: string

datatype authorize_step = Decided "go_error option" | Consult snapshot

definition authorize_read :: "permission_manager \<Rightarrow> bool \<Rightarrow> go_error option \<Rightarrow> approval_request \<Rightarrow> authorize_step" where
  "authorize_read pm handler canceled r =
     (if canceled \<noteq> None then Decided canceled
      else if request_validate r \<noteq> None then Decided (request_validate r)
      else if pm_rules_err pm \<noteq> None then Decided (errors_join [Some ErrPermissionDenied, pm_rules_err pm])
      else (let mode = modeForSession pm (ar_session r); key = length_key (ar_session r) (ar_tool r); kind = ef_kind (ar_effect r);
                rule = (case pm_rules pm of None \<Rightarrow> (RulesAsk, False) | Some rs \<Rightarrow> rules_match rs (ar_tool r) (ar_summary r))
            in if \<not> known_mode mode then Decided (Some ErrPermissionDenied)
               else if mode = Plan \<and> kind \<noteq> EffectRead then Decided (Some ErrPermissionDenied)
               else if rule = (RulesDeny, True) then Decided (Some ErrPermissionDenied)
               else if rule = (RulesAllow, True) then Decided None
               else (let explicitAsk = (rule = (RulesAsk, True)) in
                 if \<not> explicitAsk \<and> (kind = EffectRead \<or> (mode = AcceptEdits \<and> kind = EffectWrite)) then Decided None
                 else if pm_cache pm key \<noteq> None \<and> \<not> explicitAsk
                 then Decided (if pm_cache pm key = Some True then None else Some ErrPermissionDenied)
                 else if \<not> handler then Decided (Some ErrApprovalRequired)
                 else Consult \<lparr>sn_revision = pm_revision pm, sn_generation = pm_generation pm (ar_session r), sn_key = key\<rparr>)))"

subsection \<open>Authorize: one approval in flight per request\<close>

definition current :: "permission_manager \<Rightarrow> snapshot \<Rightarrow> approval_request \<Rightarrow> bool" where
  "current pm sn r = (pm_revision pm = sn_revision sn \<and> pm_generation pm (ar_session r) = sn_generation sn)"

text \<open>The oldest completed flight, to make room when there are 4096 of them.\<close>

fun oldest_complete :: "(string \<times> approval_flight) list \<Rightarrow> (string \<times> nat) option \<Rightarrow> (string \<times> nat) option" where
  "oldest_complete [] best = best"
| "oldest_complete ((k, f) # fs) best =
     oldest_complete fs
       (if fl_complete f \<and> (case best of None \<Rightarrow> True | Some (_, s) \<Rightarrow> fl_serial f < s) then Some (k, fl_serial f) else best)"

datatype enter_result = EnterDenied go_error | EnterJoin string nat | EnterAsk "(string \<times> nat) option"

definition authorize_enter :: "(approval_request \<Rightarrow> string) \<Rightarrow> permission_manager \<Rightarrow> snapshot \<Rightarrow> approval_request \<Rightarrow> permission_manager \<times> enter_result" where
  "authorize_enter fingerprint pm sn r =
     (if ar_run r = [] \<or> ar_call r = [] then (pm, EnterAsk None)
      else if \<not> current pm sn r then (pm, EnterDenied ErrPermissionDenied)
      else (let fkey = fingerprint r in
        case map_of (pm_flights pm) fkey of
          Some f \<Rightarrow> (pm, EnterJoin fkey (fl_serial f))
        | None \<Rightarrow>
            (case (if length (pm_flights pm) \<ge> 4096
                   then (case oldest_complete (pm_flights pm) None of
                       None \<Rightarrow> None
                     | Some (k, s) \<Rightarrow> Some (AList.delete k (pm_flights pm)))
                   else Some (pm_flights pm)) of
               None \<Rightarrow> (pm, EnterDenied (ErrNew ''approval invocation budget exceeded''))
             | Some flights \<Rightarrow>
                 (pm\<lparr>pm_serial := pm_serial pm + 1,
                     pm_flights := AList.update fkey \<lparr>fl_err = None, fl_session = ar_session r, fl_serial = pm_serial pm + 1, fl_complete = False\<rparr> flights\<rparr>,
                  EnterAsk (Some (fkey, pm_serial pm + 1))))))"

definition flight_is :: "permission_manager \<Rightarrow> string \<Rightarrow> nat \<Rightarrow> bool" where
  "flight_is pm fkey serial = (case map_of (pm_flights pm) fkey of None \<Rightarrow> False | Some f \<Rightarrow> fl_serial f = serial)"

text \<open>A joined request takes the answer of the flight it waited for, if nothing was revoked since.\<close>

definition authorize_joined :: "permission_manager \<Rightarrow> snapshot \<Rightarrow> approval_request \<Rightarrow> string \<Rightarrow> nat \<Rightarrow> go_error option \<Rightarrow> go_error option \<Rightarrow> go_error option" where
  "authorize_joined pm sn r fkey serial answer canceled =
     (if canceled \<noteq> None then canceled
      else if \<not> (current pm sn r \<and> flight_is pm fkey serial) then Some ErrPermissionDenied
      else answer)"

text \<open>
  When the handler has answered: the verdict so far, the answer that waiting requests will find in
  the flight, and the commit. A flight that failed for another reason than a denial is forgotten.
\<close>

definition finish_verdict :: "permission_manager \<Rightarrow> snapshot \<Rightarrow> approval_request \<Rightarrow> (string \<times> nat) option \<Rightarrow>
    approval_decision \<Rightarrow> go_error option \<Rightarrow> go_error option \<Rightarrow> go_error option" where
  "finish_verdict pm sn r flight decision answer canceled =
     (let err0 = errors_join [answer, canceled];
          err1 = (if err0 = None \<and> ad_scope decision \<noteq> ScopeOnce \<and> ad_scope decision \<noteq> ScopeSession
                  then Some (ErrNew ''invalid approval decision scope'') else err0);
          invalidated = (\<not> current pm sn r \<or> (case flight of None \<Rightarrow> False | Some (fkey, serial) \<Rightarrow> \<not> flight_is pm fkey serial))
      in if invalidated then errors_join [err1, Some ErrPermissionDenied] else err1)"

definition settle_flight :: "(string \<times> nat) option \<Rightarrow> go_error option \<Rightarrow> permission_manager \<Rightarrow> permission_manager" where
  "settle_flight flight err pm =
     (case flight of
        None \<Rightarrow> pm
      | Some (fkey, serial) \<Rightarrow>
          if \<not> flight_is pm fkey serial then pm
          else if err \<noteq> None \<and> \<not> errors_is err ErrPermissionDenied
          then pm\<lparr>pm_flights := AList.delete fkey (pm_flights pm)\<rparr>
          else pm\<lparr>pm_flights := AList.map_entry fkey (\<lambda>f. f\<lparr>fl_err := err, fl_complete := True\<rparr>) (pm_flights pm)\<rparr>)"

definition authorize_finish :: "permission_manager \<Rightarrow> snapshot \<Rightarrow> approval_request \<Rightarrow> (string \<times> nat) option \<Rightarrow>
    approval_decision \<Rightarrow> go_error option \<Rightarrow> go_error option \<Rightarrow> permission_manager \<times> go_error option" where
  "authorize_finish pm sn r flight decision answer canceled =
     (let err = finish_verdict pm sn r flight decision answer canceled;
          pm1 = (if err = None \<and> ad_scope decision = ScopeSession
                 then pm\<lparr>pm_cache := (pm_cache pm)(sn_key sn \<mapsto> ad_allowed decision)\<rparr> else pm);
          err1 = (if err = None \<and> \<not> ad_allowed decision then Some ErrPermissionDenied else err)
      in (settle_flight flight err1 pm1, err1))"

subsection \<open>Everything that can happen to a manager\<close>

datatype manager_op =
    OpSetMode permission_mode
  | OpSetSessionMode string permission_mode
  | OpClearSession string
  | OpEnter snapshot approval_request
  | OpFinish snapshot approval_request "(string \<times> nat) option" approval_decision "go_error option" "go_error option"

fun manager_apply :: "(approval_request \<Rightarrow> string) \<Rightarrow> permission_manager \<Rightarrow> manager_op \<Rightarrow> permission_manager" where
  "manager_apply fp pm (OpSetMode m) = fst (SetMode m pm)"
| "manager_apply fp pm (OpSetSessionMode s m) = fst (SetSessionMode s m pm)"
| "manager_apply fp pm (OpClearSession s) = clearSession s pm"
| "manager_apply fp pm (OpEnter sn r) = fst (authorize_enter fp pm sn r)"
| "manager_apply fp pm (OpFinish sn r f d a c) = fst (authorize_finish pm sn r f d a c)"

text \<open>The operations that take authority away from a session, when they succeed.\<close>

definition revokes :: "permission_manager \<Rightarrow> string \<Rightarrow> manager_op \<Rightarrow> bool" where
  "revokes pm sid op =
     (case op of
        OpSetMode m \<Rightarrow> snd (SetMode m pm) = None
      | OpSetSessionMode s m \<Rightarrow> s = sid \<and> snd (SetSessionMode s m pm) = None
      | OpClearSession s \<Rightarrow> s = sid
      | _ \<Rightarrow> False)"

fun revoked_in :: "(approval_request \<Rightarrow> string) \<Rightarrow> permission_manager \<Rightarrow> string \<Rightarrow> manager_op list \<Rightarrow> bool" where
  "revoked_in fp pm sid [] = False"
| "revoked_in fp pm sid (op # ops) = (revokes pm sid op \<or> revoked_in fp (manager_apply fp pm op) sid ops)"

definition authority :: "permission_manager \<Rightarrow> string \<Rightarrow> nat" where
  "authority pm sid = pm_revision pm + pm_generation pm sid"

lemma settle_policy [simp]:
  "pm_revision (settle_flight f e pm) = pm_revision pm"
  "pm_generation (settle_flight f e pm) = pm_generation pm"
  "pm_session_modes (settle_flight f e pm) = pm_session_modes pm"
  "pm_cache (settle_flight f e pm) = pm_cache pm"
  by (auto simp: settle_flight_def split: option.split)

lemma finish_policy [simp]:
  "pm_revision (fst (authorize_finish pm sn r f d a c)) = pm_revision pm"
  "pm_generation (fst (authorize_finish pm sn r f d a c)) = pm_generation pm"
  "pm_session_modes (fst (authorize_finish pm sn r f d a c)) = pm_session_modes pm"
  by (simp_all add: authorize_finish_def Let_def)

lemma enter_policy [simp]:
  "pm_revision (fst (authorize_enter fp pm sn r)) = pm_revision pm"
  "pm_generation (fst (authorize_enter fp pm sn r)) = pm_generation pm"
  "pm_session_modes (fst (authorize_enter fp pm sn r)) = pm_session_modes pm"
  by (auto simp: authorize_enter_def Let_def split: option.split prod.split)

lemma apply_mono:
  "pm_revision pm \<le> pm_revision (manager_apply fp pm op) \<and> pm_generation pm sid \<le> pm_generation (manager_apply fp pm op) sid"
  by (cases op) (simp_all add: SetMode_def SetSessionMode_def clearSession_def Let_def)

lemma revokes_strict:
  "revokes pm sid op \<Longrightarrow> pm_revision pm < pm_revision (manager_apply fp pm op) \<or> pm_generation pm sid < pm_generation (manager_apply fp pm op) sid"
  by (cases op) (auto simp: revokes_def SetMode_def SetSessionMode_def clearSession_def Let_def split: if_splits)

lemma ops_mono:
  "pm_revision pm \<le> pm_revision (foldl (manager_apply fp) pm ops) \<and> pm_generation pm sid \<le> pm_generation (foldl (manager_apply fp) pm ops) sid"
proof (induction ops arbitrary: pm)
  case (Cons op ops)
  from apply_mono [of pm fp op sid] Cons [of "manager_apply fp pm op"] show ?case by simp
qed simp

lemma revoked_not_current:
  "revoked_in fp pm (ar_session r) ops \<Longrightarrow> current pm sn r \<Longrightarrow> \<not> current (foldl (manager_apply fp) pm ops) sn r"
proof (induction ops arbitrary: pm)
  case (Cons op ops)
  let ?pm = "manager_apply fp pm op" and ?sid = "ar_session r"
  note mono = apply_mono [of pm fp op ?sid] and rest = ops_mono [of ?pm fp ops ?sid]
  show ?case
  proof (cases "current ?pm sn r")
    case True
    with Cons.prems have "\<not> revokes pm ?sid op"
      using revokes_strict [of pm ?sid op fp] by (auto simp: current_def)
    with Cons True show ?thesis by simp
  next
    case False
    with Cons.prems(2) mono have "pm_revision pm < pm_revision ?pm \<or> pm_generation pm ?sid < pm_generation ?pm ?sid"
      by (auto simp: current_def)
    with rest Cons.prems(2) show ?thesis by (auto simp: current_def)
  qed
qed simp

lemma stale_verdict:
  assumes "\<not> current pm sn r"
  shows "errors_is (finish_verdict pm sn r f d a c) ErrPermissionDenied" "finish_verdict pm sn r f d a c \<noteq> None"
proof -
  obtain e where e: "finish_verdict pm sn r f d a c = errors_join [e, Some ErrPermissionDenied]"
    using assms by (simp add: finish_verdict_def Let_def)
  show "errors_is (finish_verdict pm sn r f d a c) ErrPermissionDenied"
    unfolding e by (cases e) (auto simp: errors_is_def ErrPermissionDenied_def)
  show "finish_verdict pm sn r f d a c \<noteq> None" by (simp add: e errors_join_None_iff)
qed

text \<open>
  C32. A revoked approval is never used. If, after a request read the policy, the mode was
  changed or its session was cleared or re-moded - amid any other activity - then whatever the
  handler answers, the request is refused with "permission denied", no decision is cached, and a
  request that had joined the same approval is refused too.
\<close>

theorem revoked_approval_is_denied:
  assumes "authorize_read pm h c0 r = Consult sn" and "revoked_in fp pm (ar_session r) ops"
  defines "pm' \<equiv> foldl (manager_apply fp) pm ops"
  shows "errors_is (snd (authorize_finish pm' sn r flight decision answer c)) ErrPermissionDenied \<and>
    pm_cache (fst (authorize_finish pm' sn r flight decision answer c)) = pm_cache pm' \<and>
    authorize_joined pm' sn r fkey serial answer None = Some ErrPermissionDenied"
proof -
  have "current pm sn r"
    using assms(1) by (auto simp: authorize_read_def current_def Let_def split: if_splits)
  then have stale: "\<not> current pm' sn r" unfolding pm'_def by (rule revoked_not_current [OF assms(2)])
  obtain e where e: "finish_verdict pm' sn r flight decision answer c = Some e"
    using stale_verdict(2) [OF stale] by fastforce
  have "errors_is (Some e) ErrPermissionDenied"
    using stale_verdict(1) [OF stale, of flight decision answer c] by (simp only: e)
  with stale e show ?thesis by (simp add: authorize_finish_def authorize_joined_def Let_def)
qed

definition write_request :: approval_request where
  "write_request = \<lparr>ar_id = ''r/1'', ar_session = ''s'', ar_run = ''r'', ar_call = ''1'', ar_tool = ''edit'',
     ar_effect = \<lparr>ef_kind = EffectWrite, ef_description = [], ef_resources = []\<rparr>, ar_summary = ''{}'', ar_hash = []\<rparr>"

lemma write_request_valid: "request_validate write_request = None"
proof -
  have "validStrings [''r/1'', ''s'', ''r'', ''1'', ''edit'', []]" "validStrings []" "utf8_valid ''{}''" by code_simp+
  then show ?thesis by (simp add: request_validate_def write_request_def)
qed

theorem revoked_approval_is_denied_witness:
  "errors_is (snd (authorize_finish (clearSession ''s'' (NewPermissionManager PermissionAsk []))
     \<lparr>sn_revision = 0, sn_generation = 0, sn_key = length_key ''s'' ''edit''\<rparr> write_request None
     \<lparr>ad_allowed = True, ad_scope = ScopeSession\<rparr> None None)) ErrPermissionDenied"
proof -
  have "authorize_read (NewPermissionManager PermissionAsk []) True None write_request =
      Consult \<lparr>sn_revision = 0, sn_generation = 0, sn_key = length_key ''s'' ''edit''\<rparr>"
    using write_request_valid
    by (simp add: authorize_read_def NewPermissionManager_def modeForSession_def known_mode_def write_request_def)
  from revoked_approval_is_denied [OF this, of "\<lambda>_. []" "[OpClearSession ''s'']"]
  show ?thesis by (simp add: revokes_def write_request_def)
qed

lemma allowed_reason:
  assumes "authorize_read pm h c r = Decided None"
  defines "mode \<equiv> modeForSession pm (ar_session r)" and "kind \<equiv> ef_kind (ar_effect r)"
  shows "pm_rules_err pm = None \<and> known_mode mode \<and> (mode = Plan \<longrightarrow> kind = EffectRead) \<and>
    (\<forall>rules. pm_rules pm = Some rules \<longrightarrow> (\<forall>p \<in> set (pr_deny rules). \<not> matchRule p (ar_tool r) (ar_summary r))) \<and>
    ((\<exists>rules. pm_rules pm = Some rules \<and> (\<exists>p \<in> set (pr_allow rules). matchRule p (ar_tool r) (ar_summary r))) \<or>
     kind = EffectRead \<or> (mode = AcceptEdits \<and> kind = EffectWrite) \<or>
     pm_cache pm (length_key (ar_session r) (ar_tool r)) = Some True)"
proof -
  define rule where "rule = (case pm_rules pm of None \<Rightarrow> (RulesAsk, False) | Some rs \<Rightarrow> rules_match rs (ar_tool r) (ar_summary r))"
  have c: "c = None" and v: "request_validate r = None"
    using assms(1) by (auto simp: authorize_read_def split: if_splits)
  have e: "pm_rules_err pm = None"
    using assms(1) c v by (auto simp: authorize_read_def errors_join_None_iff split: if_splits)
  from assms(1) have main: "known_mode mode" "\<not> (mode = Plan \<and> kind \<noteq> EffectRead)" "rule \<noteq> (RulesDeny, True)"
    "rule = (RulesAllow, True) \<or> kind = EffectRead \<or> (mode = AcceptEdits \<and> kind = EffectWrite) \<or>
       pm_cache pm (length_key (ar_session r) (ar_tool r)) = Some True"
    unfolding mode_def kind_def rule_def
    by (auto simp: authorize_read_def c v e Let_def split: if_splits)
  have deny: "\<not> matchRule p (ar_tool r) (ar_summary r)" if "pm_rules pm = Some rules" "p \<in> set (pr_deny rules)" for rules p
    using main(3) that rules_match_deny [of p rules "ar_tool r" "ar_summary r"] by (auto simp: rule_def)
  have allow: "rule = (RulesAllow, True) \<Longrightarrow> \<exists>rules. pm_rules pm = Some rules \<and> (\<exists>p \<in> set (pr_allow rules). matchRule p (ar_tool r) (ar_summary r))"
    using rules_match_allow by (auto simp: rule_def split: option.splits)
  show ?thesis using e main deny allow by blast
qed

text \<open>
  Nothing is allowed without a reason. When a request is allowed without asking, the rules
  are valid, no deny rule matches it, it is not a non-read effect in plan mode, and one of these
  holds: an allow rule matches, it is a read, it is an edit in accept-edits mode, or this
  session was granted this tool before. Without a handler nothing else is ever allowed.
\<close>

theorem allowed_for_a_reason:
  assumes "authorize_read pm h c r = Decided None"
  defines "mode \<equiv> modeForSession pm (ar_session r)" and "kind \<equiv> ef_kind (ar_effect r)"
  shows "pm_rules_err pm = None \<and> known_mode mode \<and> (mode = Plan \<longrightarrow> kind = EffectRead) \<and>
    (\<forall>rules. pm_rules pm = Some rules \<longrightarrow> (\<forall>p \<in> set (pr_deny rules). \<not> matchRule p (ar_tool r) (ar_summary r))) \<and>
    ((\<exists>rules. pm_rules pm = Some rules \<and> (\<exists>p \<in> set (pr_allow rules). matchRule p (ar_tool r) (ar_summary r))) \<or>
     kind = EffectRead \<or> (mode = AcceptEdits \<and> kind = EffectWrite) \<or>
     pm_cache pm (length_key (ar_session r) (ar_tool r)) = Some True)"
  using allowed_reason [OF assms(1)] unfolding mode_def kind_def .

theorem allowed_for_a_reason_witness:
  "known_mode (modeForSession (NewPermissionManager AcceptEdits []) ''s'') \<and>
   authorize_read (NewPermissionManager AcceptEdits []) False None write_request = Decided None"
proof -
  have a: "authorize_read (NewPermissionManager AcceptEdits []) False None write_request = Decided None"
    using write_request_valid
    by (simp add: authorize_read_def NewPermissionManager_def modeForSession_def known_mode_def write_request_def)
  from allowed_for_a_reason [OF a] a show ?thesis by (simp add: write_request_def)
qed

text \<open>
  Clearing a session forgets exactly its own decisions: every cached answer for any of its
  tools is gone, and every answer of every other session is kept - also of a session whose name
  begins with the cleared one's.
\<close>

theorem clear_session_is_exact:
  "pm_cache (clearSession s pm) (length_key s tool) = None \<and>
   (s' \<noteq> s \<longrightarrow> pm_cache (clearSession s pm) (length_key s' tool) = pm_cache pm (length_key s' tool) \<and>
      pm_generation (clearSession s pm) s' = pm_generation pm s' \<and>
      modeForSession (clearSession s pm) s' = modeForSession pm s')"
proof -
  have own: "HasPrefix (length_key a tool) (dec (length s) @ '':'' @ s) \<longleftrightarrow> a = s" for a
  proof -
    have "HasPrefix (length_key a tool) (dec (length s) @ '':'' @ s) \<longleftrightarrow> (\<exists>r. length_key a tool = dec (length s) @ '':'' @ s @ r)"
      by (simp add: HasPrefix_iff)
    also have "\<dots> \<longleftrightarrow> (\<exists>r. a @ tool = s @ r) \<and> length a = length s" by (rule length_key_prefix)
    also have "\<dots> \<longleftrightarrow> a = s" by auto
    finally show ?thesis .
  qed
  have modes: "map_of (AList.delete s (pm_session_modes pm)) s' = map_of (pm_session_modes pm) s'" if "s' \<noteq> s"
    using that by (simp add: AList.delete_conv')
  show ?thesis
    by (cases "map_of (pm_session_modes pm) s'") (auto simp: clearSession_def modeForSession_def own [simplified] modes)
qed

definition two_sessions :: permission_manager where
  "two_sessions = (NewPermissionManager PermissionAsk [])
     \<lparr>pm_cache := [length_key ''a'' ''x'' \<mapsto> True, length_key ''ab'' ''x'' \<mapsto> True]\<rparr>"

theorem clear_session_is_exact_witness:
  "pm_cache (clearSession ''a'' two_sessions) (length_key ''a'' ''x'') = None \<and>
   pm_cache (clearSession ''a'' two_sessions) (length_key ''ab'' ''x'') = Some True"
  using clear_session_is_exact [of "''a''" two_sessions "''x''" "''ab''"] by (simp add: two_sessions_def)

lemma length_delete: "length (AList.delete k al) \<le> length al"
  by (induction al) auto

lemma length_delete_key: "k \<in> fst ` set al \<Longrightarrow> length (AList.delete k al) < length al"
  by (induction al) (auto simp: le_imp_less_Suc length_delete)

lemma length_update_le: "length (AList.update k v al) \<le> Suc (length al)"
  by (induction al) auto

lemma length_update_present: "map_of al k \<noteq> None \<Longrightarrow> length (AList.update k v al) = length al"
  by (induction al) auto

lemma oldest_complete_key: "oldest_complete fs best = Some (k, s) \<Longrightarrow> k \<in> fst ` set fs \<or> best = Some (k, s)"
  by (induction fs best rule: oldest_complete.induct) (auto split: if_splits)

lemma length_map_entry [simp]: "length (AList.map_entry k f al) = length al"
  by (induction al) auto

lemma enter_bounded: "length (pm_flights pm) \<le> 4096 \<Longrightarrow> length (pm_flights (fst (authorize_enter fp pm sn r))) \<le> 4096"
proof -
  assume b: "length (pm_flights pm) \<le> 4096"
  show ?thesis
  proof (cases "length (pm_flights pm) \<ge> 4096")
    case False
    then show ?thesis
      using b length_update_le [of "fingerprint r" _ "pm_flights pm"]
      by (auto simp: authorize_enter_def Let_def split: option.split intro: le_trans [OF length_update_le])
  next
    case True
    have "length (AList.update x v (AList.delete k (pm_flights pm))) \<le> 4096" if "oldest_complete (pm_flights pm) None = Some (k, s)" for x v k s
    proof -
      from oldest_complete_key [OF that] have "k \<in> fst ` set (pm_flights pm)" by simp
      from length_delete_key [OF this] b length_update_le [of x v "AList.delete k (pm_flights pm)"] show ?thesis by simp
    qed
    with True b show ?thesis by (auto simp: authorize_enter_def Let_def split: option.split prod.split)
  qed
qed

lemma settle_bounded: "length (pm_flights (settle_flight f e pm)) \<le> length (pm_flights pm)"
  by (simp add: settle_flight_def length_delete split: option.split prod.split)

lemma finish_bounded: "length (pm_flights (fst (authorize_finish pm sn r f d a c))) \<le> length (pm_flights pm)"
  using settle_bounded [THEN le_trans] by (simp add: authorize_finish_def Let_def settle_bounded)

lemma clearSession_modes: "pm_session_modes (clearSession s pm) = AList.delete s (pm_session_modes pm)"
  by (simp add: clearSession_def)

lemma clear_bounded: "length (pm_flights (clearSession s pm)) \<le> length (pm_flights pm)"
  by (simp add: clearSession_def)

text \<open>
  The manager's tables stay bounded: whatever is asked, answered, revoked or configured, in
  any order, there are never more than 4096 approvals in flight or remembered and never more
  than 4096 session modes.
\<close>

theorem permission_tables_bounded:
  "let pm = foldl (manager_apply fp) (NewPermissionManager mode rules) ops in
     length (pm_flights pm) \<le> 4096 \<and> length (pm_session_modes pm) \<le> 4096"
proof -
  have step: "length (pm_flights (manager_apply fp pm op)) \<le> 4096 \<and> length (pm_session_modes (manager_apply fp pm op)) \<le> 4096"
    if b: "length (pm_flights pm) \<le> 4096" "length (pm_session_modes pm) \<le> 4096" for pm op
  proof (cases op)
    case (OpSetMode m)
    with b show ?thesis by (simp add: SetMode_def)
  next
    case (OpClearSession s)
    with b show ?thesis
      by (auto simp: clearSession_def intro: le_trans [OF length_delete] le_trans [OF length_filter_le])
  next
    case (OpEnter sn r)
    with b enter_bounded show ?thesis by simp
  next
    case (OpFinish sn r f d a c)
    with b finish_bounded [of pm sn r f d a c] show ?thesis by simp
  next
    case (OpSetSessionMode s m)
    have new: "length (AList.update s m (AList.delete s (pm_session_modes pm))) \<le> 4096"
      if "map_of (pm_session_modes pm) s = None \<longrightarrow> length (pm_session_modes pm) < 4096"
    proof (cases "map_of (pm_session_modes pm) s")
      case None
      with that length_update_le [of s m "AList.delete s (pm_session_modes pm)"] length_delete [of s "pm_session_modes pm"]
      show ?thesis by simp
    next
      case (Some x)
      then have "s \<in> fst ` set (pm_session_modes pm)" by (force dest: map_of_SomeD)
      from length_delete_key [OF this] b(2) length_update_le [of s m "AList.delete s (pm_session_modes pm)"]
      show ?thesis by simp
    qed
    with OpSetSessionMode b show ?thesis
      using clear_bounded [of s pm] by (auto simp: SetSessionMode_def Let_def not_le clearSession_modes)
  qed
  have "length (pm_flights pm) \<le> 4096 \<Longrightarrow> length (pm_session_modes pm) \<le> 4096 \<Longrightarrow>
      length (pm_flights (foldl (manager_apply fp) pm ops)) \<le> 4096 \<and> length (pm_session_modes (foldl (manager_apply fp) pm ops)) \<le> 4096" for pm
  proof (induction ops arbitrary: pm)
    case (Cons op ops)
    from step [OF Cons.prems, of op] show ?case by (simp add: Cons.IH)
  qed simp
  from this [of "NewPermissionManager mode rules"] show ?thesis by (simp add: NewPermissionManager_def Let_def)
qed

end
