(* ===== verification/Guard.thy ===== *)
theory Guard
  imports Permission
begin

section \<open>The path guard\<close>

text \<open>
  sdk/agent/security/guard.go, with \<open>path/filepath\<close> as it is on Unix (\<open>Clean\<close> and \<open>Join\<close>
  are in Go_Text). \<open>strings.ToLower\<close> is the argument \<open>lower\<close>, the host's path resolver the field
  \<open>gd_resolver\<close>, and the polls of \<open>ctx.Err()\<close> are arguments, in the order of the code. In
  \<open>guard_request\<close> the JSON decoding of the arguments into a field map and of a field into a
  string, and the hexadecimal SHA-256, are arguments.
\<close>

type_synonym path_resolver = "string \<Rightarrow> access \<Rightarrow> string \<times> go_error option"

record authorized_root =
  root_path :: string
  root_access :: access

record guard =
  gd_workspace :: string
  gd_roots :: "authorized_root list"
  gd_resolver :: "path_resolver option"
  gd_permissions :: permission_manager

text \<open>\<open>filepath.Base\<close>\<close>

definition path_base :: "string \<Rightarrow> string" where
  "path_base s =
     (if s = [] then ''.''
      else (let l = last (split_on slash (rev (dropWhile (\<lambda>c. c = slash) (rev s)))) in if l = [] then [slash] else l))"

definition sensitive_names :: "string list" where
  "sensitive_names =
     [''.ssh'', ''.aws'', ''.gnupg'', ''.azure'', ''.kube'', ''keychains'', ''credentials'', ''id_rsa'', ''id_ed25519'',
      ''.npmrc'', ''.netrc'', ''.pypirc'']"

text \<open>\<open>strings.FieldsFunc\<close> at both separators\<close>

definition path_fields :: "string \<Rightarrow> string list" where
  "path_fields s = filter (\<lambda>p. p \<noteq> []) (concat (map (split_on (CHR 0x5C)) (split_on slash s)))"

definition sensitive_part :: "string \<Rightarrow> bool" where
  "sensitive_part p = (p \<in> set sensitive_names \<or> p = ''.env'' \<or> HasPrefix p ''.env.'')"

definition IsSensitive :: "(string \<Rightarrow> string) \<Rightarrow> string \<Rightarrow> bool" where
  "IsSensitive lower path =
     (if list_ex sensitive_part (path_fields (lower path)) then True
      else list_ex (HasSuffix (lower (path_base path))) [''.pem'', ''.key'', ''.p12'', ''.pfx'', ''.keystore''])"

text \<open>\<open>typed_nil\<close>: the resolver is an interface value that holds a nil pointer.\<close>

definition NewGuard :: "string \<Rightarrow> authorized_root list \<Rightarrow> path_resolver option \<Rightarrow> bool \<Rightarrow> permission_manager option \<Rightarrow> guard result" where
  "NewGuard workspace roots resolver typed_nil permissions =
     (if \<not> path_rooted workspace then Inl (ErrNew ''security workspace must be absolute'')
      else if resolver \<noteq> None \<and> typed_nil then Inl (ErrNew ''typed-nil host path resolver'')
      else if list_ex (\<lambda>r. \<not> path_rooted (root_path r) \<or> (root_access r \<noteq> AccessRead \<and> root_access r \<noteq> AccessWrite)) roots
      then Inl (ErrNew ''invalid authorized root'')
      else Inr \<lparr>gd_workspace = path_clean workspace,
                gd_roots = \<lparr>root_path = path_clean workspace, root_access = AccessWrite\<rparr> #
                  map (\<lambda>r. r\<lparr>root_path := path_clean (root_path r)\<rparr>) roots,
                gd_resolver = resolver,
                gd_permissions = (case permissions of None \<Rightarrow> NewPermissionManager PermissionAsk [] | Some p \<Rightarrow> p)\<rparr>)"

text \<open>
  \<open>filepath.Rel\<close> of two absolute paths: what is left after the common components, going up for
  each component of the base that is left. (It has no error case there: a cleaned absolute path
  has no double dots.)
\<close>

fun drop_common :: "string list \<Rightarrow> string list \<Rightarrow> string list \<times> string list" where
  "drop_common (b # bs) (t # ts) = (if b = t then drop_common bs ts else (b # bs, t # ts))"
| "drop_common bs ts = (bs, ts)"

definition filepath_rel :: "string \<Rightarrow> string \<Rightarrow> string" where
  "filepath_rel base targ =
     (if path_clean targ = path_clean base then ''.''
      else (case drop_common (clean_comps base) (clean_comps targ) of
              (bs, ts) \<Rightarrow> join_with slash (replicate (length bs) ''..'' @ ts)))"

definition guard_contains :: "authorized_root list \<Rightarrow> string \<Rightarrow> access \<Rightarrow> bool" where
  "guard_contains roots path access =
     list_ex (\<lambda>r. \<not> (access = AccessWrite \<and> root_access r \<noteq> AccessWrite) \<and>
        (let relative = filepath_rel (root_path r) path
         in relative \<noteq> ''..'' \<and> \<not> HasPrefix relative (''..'' @ [slash]) \<and> \<not> path_rooted relative)) roots"

definition CheckPath :: "(string \<Rightarrow> string) \<Rightarrow> guard \<Rightarrow> go_error option \<Rightarrow> go_error option \<Rightarrow> string \<Rightarrow> access \<Rightarrow> string result" where
  "CheckPath lower g canceled canceled' path access =
     (case canceled of Some e \<Rightarrow> Inl e | None \<Rightarrow>
      if path = [] \<or> CHR 0x00 \<in> set path \<or> (access \<noteq> AccessRead \<and> access \<noteq> AccessWrite)
      then Inl (ErrNew ''invalid requested path/access'')
      else if IsSensitive lower path then Inl ErrPermissionDenied
      else (let p = path_clean (if path_rooted path then path else path_join2 (gd_workspace g) path) in
        if IsSensitive lower p \<or> \<not> guard_contains (gd_roots g) p access then Inl ErrPermissionDenied
        else (case gd_resolver g of
            None \<Rightarrow> Inl (ErrNew ''host path resolver unavailable; lexical checks are not a sandbox'')
          | Some resolve \<Rightarrow>
              (case resolve p access of (resolved, err) \<Rightarrow>
                 (case canceled' of Some c \<Rightarrow> from_err (errors_join [err, Some c]) []
                  | None \<Rightarrow>
                      (case err of Some e \<Rightarrow> Inl e
                       | None \<Rightarrow>
                           if \<not> path_rooted resolved then Inl (ErrNew ''host path resolver returned relative path'')
                           else (let q = path_clean resolved in
                             if IsSensitive lower q \<or> \<not> guard_contains (gd_roots g) q access then Inl ErrPermissionDenied
                             else Inr q)))))))"

subsection \<open>Authorizing a tool call\<close>

record tool_execution =
  te_session :: string
  te_run :: string
  te_call :: string

text \<open>The first of the three fields that is present and a string becomes the input summary.\<close>

fun summary_field :: "(string \<Rightarrow> string option) \<Rightarrow> (string \<Rightarrow> string option) \<Rightarrow> string list \<Rightarrow> string option" where
  "summary_field fmap as_text [] = None"
| "summary_field fmap as_text (k # ks) =
     (case Option.bind (fmap k) as_text of Some t \<Rightarrow> Some t | None \<Rightarrow> summary_field fmap as_text ks)"

fun check_resources :: "(string \<Rightarrow> string) \<Rightarrow> guard \<Rightarrow> (nat \<Rightarrow> go_error option) \<Rightarrow> resource_claim list \<Rightarrow> go_error option" where
  "check_resources lower g poll [] = None"
| "check_resources lower g poll (r # rs) =
     (case CheckPath lower g (poll 0) (poll 1) (rc_resource r) (rc_access r) of
        Inl e \<Rightarrow> Some e
      | Inr _ \<Rightarrow> check_resources lower g (\<lambda>i. poll (i + 2)) rs)"

definition guard_request :: "(string \<Rightarrow> string) \<Rightarrow> (string \<Rightarrow> (string \<Rightarrow> string option) option) \<Rightarrow> (string \<Rightarrow> string option) \<Rightarrow>
    (string \<Rightarrow> string) \<Rightarrow> guard \<Rightarrow> (nat \<Rightarrow> go_error option) \<Rightarrow> tool_execution \<Rightarrow> tool_call \<Rightarrow> effect \<Rightarrow> approval_request result" where
  "guard_request lower decode_fields as_text sha_hex g poll execution call eff =
     (if te_session execution = [] \<or> te_call execution \<noteq> tc_id call then Inl (ErrNew ''security execution identity mismatch'')
      else if length (tc_arguments call) > 262144 \<or> \<not> utf8_valid (tc_arguments call)
      then Inl (ErrNew ''approval arguments must be valid UTF-8 within 256 KiB'')
      else if tc_arguments call \<noteq> [] \<and> \<not> ValidJSON (tc_arguments call)
      then Inl (ErrNew ''approval arguments require non-normalizing valid JSON'')
      else (let summary = (case decode_fields (tc_arguments call) of
                  None \<Rightarrow> tc_arguments call
                | Some fmap \<Rightarrow> (case summary_field fmap as_text [''command'', ''path'', ''file_path''] of
                    None \<Rightarrow> tc_arguments call | Some t \<Rightarrow> t))
            in case (if ef_kind eff \<noteq> EffectNetwork then check_resources lower g poll (ef_resources eff) else None) of
                 Some e \<Rightarrow> Inl e
               | None \<Rightarrow> Inr \<lparr>ar_id = te_run execution @ [slash] @ tc_id call, ar_session = te_session execution, ar_run = te_run execution,
                    ar_call = tc_id call, ar_tool = tc_name call, ar_effect = eff, ar_summary = summary,
                    ar_hash = sha_hex (tc_arguments call)\<rparr>))"

definition guard_authorize :: "(string \<Rightarrow> string) \<Rightarrow> (string \<Rightarrow> (string \<Rightarrow> string option) option) \<Rightarrow> (string \<Rightarrow> string option) \<Rightarrow>
    (string \<Rightarrow> string) \<Rightarrow> guard \<Rightarrow> bool \<Rightarrow> (nat \<Rightarrow> go_error option) \<Rightarrow> go_error option \<Rightarrow> tool_execution \<Rightarrow> tool_call \<Rightarrow> effect \<Rightarrow> authorize_step" where
  "guard_authorize lower decode_fields as_text sha_hex g handler poll canceled execution call eff =
     (case guard_request lower decode_fields as_text sha_hex g poll execution call eff of
        Inl e \<Rightarrow> Decided (Some e)
      | Inr r \<Rightarrow> authorize_read (gd_permissions g) handler canceled r)"

subsection \<open>Containment is a component prefix\<close>

lemma drop_common_prefix: "drop_common bs ts = (bs', ts') \<Longrightarrow> (bs' = [] \<longleftrightarrow> prefix bs ts)"
  by (induction bs ts arbitrary: bs' ts' rule: drop_common.induct) (auto split: if_splits)

lemma drop_common_suffix: "drop_common bs ts = (bs', ts') \<Longrightarrow> \<exists>cs. bs = cs @ bs' \<and> ts = cs @ ts'"
  by (induction bs ts arbitrary: bs' ts' rule: drop_common.induct)
    (auto split: if_splits intro: exI [of _ "_ # _"])

lemma rooted_names: "path_rooted s \<Longrightarrow> \<forall>c \<in> set (clean_comps s). plain_name c"
  using clean_comps_form [of s] by (auto simp: clean_form_def)

lemma join_head: "slash \<notin> set x \<Longrightarrow> hd (split_on slash (join_with slash (x # xs))) = x"
  by (cases xs) (simp_all add: split_no_sep split_on_append)

lemma rel_confined:
  assumes "path_rooted base" "path_rooted targ"
  shows "(let rel = filepath_rel base targ in rel \<noteq> ''..'' \<and> \<not> HasPrefix rel (''..'' @ [slash]) \<and> \<not> path_rooted rel)
    \<longleftrightarrow> prefix (clean_comps base) (clean_comps targ)"
proof (cases "path_clean targ = path_clean base")
  case True
  have "clean_comps (path_clean s) = clean_comps s" if "path_rooted s" for s
  proof (cases "clean_comps s = []")
    case True
    then show ?thesis using that by (simp add: path_clean_comps clean_comps_def path_rooted_def clean_step_def)
  next
    case False
    from clean_comps_join(1) [OF clean_comps_form False] show ?thesis using that by (simp add: path_clean_comps)
  qed
  with assms True have "clean_comps base = clean_comps targ" by metis
  with True show ?thesis by (simp add: filepath_rel_def path_rooted_def HasPrefix_def)
next
  case False
  obtain bs ts where d: "drop_common (clean_comps base) (clean_comps targ) = (bs, ts)" by fastforce
  then have rel: "filepath_rel base targ = join_with slash (replicate (length bs) ''..'' @ ts)"
    using False by (simp add: filepath_rel_def)
  show ?thesis
  proof (cases bs)
    case Nil
    then have p: "prefix (clean_comps base) (clean_comps targ)" using drop_common_prefix [OF d] by simp
    from drop_common_suffix [OF d] Nil have suf: "clean_comps targ = clean_comps base @ ts" by auto
    have "ts \<noteq> []"
    proof
      assume "ts = []"
      with suf have "clean_comps targ = clean_comps base" by simp
      with assms False show False by (simp add: path_clean_comps)
    qed
    then obtain t ts' where ts: "ts = t # ts'" by (cases ts) auto
    with rooted_names [OF assms(2)] suf have t: "plain_name t" by simp
    then have hd: "hd (split_on slash (filepath_rel base targ)) = t"
      by (simp add: rel Nil ts join_head plain_name_def)
    have "filepath_rel base targ \<noteq> ''..''" using hd t by (auto simp: plain_name_def)
    moreover have "\<not> HasPrefix (filepath_rel base targ) (''..'' @ [slash])"
    proof
      assume "HasPrefix (filepath_rel base targ) (''..'' @ [slash])"
      then obtain r where "filepath_rel base targ = ''..'' @ slash # r" by (auto simp: HasPrefix_iff)
      then have "hd (split_on slash (filepath_rel base targ)) = ''..''" by simp
      with hd t show False by (simp add: plain_name_def)
    qed
    moreover have "\<not> path_rooted (filepath_rel base targ)"
      using hd t by (cases "filepath_rel base targ") (auto simp: path_rooted_def plain_name_def)
    ultimately show ?thesis using p by (simp add: Let_def)
  next
    case (Cons b bs')
    then have "\<not> prefix (clean_comps base) (clean_comps targ)" using drop_common_prefix [OF d] by simp
    moreover have "filepath_rel base targ = ''..'' \<or> HasPrefix (filepath_rel base targ) (''..'' @ [slash])"
      by (cases "replicate (length bs') ''..'' @ ts") (auto simp: rel Cons HasPrefix_iff)
    ultimately show ?thesis by (auto simp: Let_def)
  qed
qed

definition guard_ok :: "guard \<Rightarrow> bool" where
  "guard_ok g \<longleftrightarrow> path_rooted (gd_workspace g) \<and> (\<forall>r \<in> set (gd_roots g). path_rooted (root_path r))"

lemma path_rooted_clean [simp]: "path_rooted (path_clean s) = path_rooted s"
proof (cases "clean_comps s = []")
  case True
  then show ?thesis by (simp add: path_clean_comps) (simp add: path_rooted_def)
next
  case False
  from clean_comps_join(2) [OF clean_comps_form False] False show ?thesis
    by (cases "path_rooted s") (simp_all add: path_clean_comps)
qed

lemma NewGuard_ok: "NewGuard w roots res tn p = Inr g \<Longrightarrow> guard_ok g"
  by (auto simp: NewGuard_def guard_ok_def list_ex_iff split: if_splits)

text \<open>Some authorized root with the access holds the path, component by component.\<close>

definition inside :: "guard \<Rightarrow> access \<Rightarrow> string \<Rightarrow> bool" where
  "inside g access path \<longleftrightarrow>
     (\<exists>r \<in> set (gd_roots g). (access = AccessWrite \<longrightarrow> root_access r = AccessWrite) \<and> prefix (clean_comps (root_path r)) (clean_comps path))"

lemma contains_inside:
  assumes "guard_ok g" "path_rooted path"
  shows "guard_contains (gd_roots g) path access \<longleftrightarrow> inside g access path"
proof -
  have "(let relative = filepath_rel (root_path r) path in relative \<noteq> ''..'' \<and> \<not> HasPrefix relative (''..'' @ [slash]) \<and> \<not> path_rooted relative)
      \<longleftrightarrow> prefix (clean_comps (root_path r)) (clean_comps path)" if "r \<in> set (gd_roots g)" for r
    using that assms by (intro rel_confined) (auto simp: guard_ok_def)
  then show ?thesis unfolding guard_contains_def inside_def list_ex_iff by auto
qed

lemma CheckPath_confined:
  assumes "guard_ok g" "CheckPath lower g c c' path access = Inr p"
  shows "path_rooted p \<and> path_clean p = p \<and> \<not> IsSensitive lower p \<and> inside g access p"
proof -
  from assms(2) obtain resolved where "p = path_clean resolved" "path_rooted resolved"
    "\<not> IsSensitive lower p" "guard_contains (gd_roots g) p access"
    by (auto simp: CheckPath_def Let_def from_err_def errors_join_None_iff split: option.splits if_splits prod.splits)
  then show ?thesis using contains_inside [OF assms(1), of p access] by simp
qed

text \<open>
  C33. A checked path is confined. Whatever string is asked for and whatever the host's resolver
  answers, a path that the guard lets through is absolute and clean, has no sensitive component
  or extension, and lies component by component inside an authorized root (so "/work" does not
  authorize "/workspace", and no ".." is left), one with write access when writing is asked for.
\<close>

theorem checked_path_is_confined:
  assumes "NewGuard w roots resolver typed_nil pm = Inr g" "CheckPath lower g c c' path access = Inr p"
  shows "path_rooted p \<and> path_clean p = p \<and> \<not> IsSensitive lower p \<and>
    (\<exists>r \<in> set (gd_roots g). (access = AccessWrite \<longrightarrow> root_access r = AccessWrite) \<and>
       prefix (clean_comps (root_path r)) (clean_comps p))"
  using CheckPath_confined [OF NewGuard_ok [OF assms(1)] assms(2)] by (simp add: inside_def)

definition echo_guard :: guard where
  "echo_guard = \<lparr>gd_workspace = ''/w'', gd_roots = [\<lparr>root_path = ''/w'', root_access = AccessWrite\<rparr>, \<lparr>root_path = ''/lib'', root_access = AccessRead\<rparr>],
     gd_resolver = Some (\<lambda>p _. (p, None)), gd_permissions = NewPermissionManager PermissionAsk []\<rparr>"

theorem checked_path_is_confined_witness:
  "CheckPath id echo_guard None None ''../lib/./a/../b'' AccessRead = Inr ''/lib/b'' \<and>
   CheckPath id echo_guard None None ''../lib/b'' AccessWrite = Inl ErrPermissionDenied \<and>
   (\<exists>r \<in> set (gd_roots echo_guard). prefix (clean_comps (root_path r)) (clean_comps ''/lib/b''))"
proof -
  have g: "NewGuard ''/w/'' [\<lparr>root_path = ''/x/../lib'', root_access = AccessRead\<rparr>] (Some (\<lambda>p _. (p, None))) False None = Inr echo_guard"
  proof -
    have "path_clean ''/w/'' = ''/w''" "path_clean ''/x/../lib'' = ''/lib''" "path_rooted ''/w/''" "path_rooted ''/x/../lib''" by code_simp+
    then show ?thesis by (simp add: NewGuard_def echo_guard_def)
  qed
  have a: "CheckPath id echo_guard None None ''../lib/./a/../b'' AccessRead = Inr ''/lib/b''" by code_simp
  have b: "CheckPath id echo_guard None None ''../lib/b'' AccessWrite = Inl ErrPermissionDenied" by code_simp
  from checked_path_is_confined [OF g a] a b show ?thesis by blast
qed

lemma check_resources_ok:
  "check_resources lower g poll rs = None \<Longrightarrow> r \<in> set rs \<Longrightarrow>
     \<exists>c c' p. CheckPath lower g c c' (rc_resource r) (rc_access r) = Inr p"
proof (induction rs arbitrary: poll)
  case (Cons x xs)
  from Cons.prems(1) obtain p where "CheckPath lower g (poll 0) (poll 1) (rc_resource x) (rc_access x) = Inr p"
    and rest: "check_resources lower g (\<lambda>i. poll (i + 2)) xs = None"
    by (auto split: sum.splits)
  with Cons.IH [OF rest] Cons.prems(2) show ?case by auto
qed simp


definition read_call :: tool_call where
  "read_call = \<lparr>tc_id = ''1'', tc_name = ''cat'', tc_arguments = [], tc_provider_state = []\<rparr>"

definition read_effect :: effect where
  "read_effect = \<lparr>ef_kind = EffectRead, ef_description = [], ef_resources = [\<lparr>rc_resource = ''../lib/b'', rc_access = AccessRead\<rparr>]\<rparr>"


end
