(* ===== verification/Effects.thy ===== *)
theory Effects
  imports Go_Errors
begin

section \<open>Fallible steps over a state\<close>

text \<open>
  Go code that works on shared state and returns early on an error: a function from the state to
  a result and the next state. An early return keeps the effects made before it. The locale
  \<open>world_relation\<close> collects how a reflexive and transitive relation between the states before
  and after carries over sequences, loops and branches; each component that needs such a fact
  (a budget that only shrinks, a log that only grows) interprets it.
\<close>

type_synonym ('w, 'a) eff = "'w \<Rightarrow> 'a result \<times> 'w"

definition gret :: "'a \<Rightarrow> ('w, 'a) eff" where
  "gret x = (\<lambda>w. (Inr x, w))"

definition gfail :: "go_error \<Rightarrow> ('w, 'a) eff" where
  "gfail e = (\<lambda>w. (Inl e, w))"

definition gbind :: "('w, 'a) eff \<Rightarrow> ('a \<Rightarrow> ('w, 'b) eff) \<Rightarrow> ('w, 'b) eff" where
  "gbind m f = (\<lambda>w. case m w of (Inl e, w') \<Rightarrow> (Inl e, w') | (Inr x, w') \<Rightarrow> f x w')"

text \<open>\<open>gtry\<close> hands the error to the code that follows it; \<open>glift\<close> returns an error value as an error.\<close>

definition gtry :: "('w, 'a) eff \<Rightarrow> ('w, 'a result) eff" where
  "gtry m = (\<lambda>w. case m w of (r, w') \<Rightarrow> (Inr r, w'))"

definition gcheck :: "go_error option \<Rightarrow> ('w, unit) eff" where
  "gcheck e = (case e of None \<Rightarrow> gret () | Some x \<Rightarrow> gfail x)"

definition gmodify :: "('w \<Rightarrow> 'w) \<Rightarrow> ('w, unit) eff" where
  "gmodify f = (\<lambda>w. (Inr (), f w))"

definition gread :: "('w \<Rightarrow> 'a) \<Rightarrow> ('w, 'a) eff" where
  "gread f = (\<lambda>w. (Inr (f w), w))"

text \<open>A loop that stops at the first error, collecting the results.\<close>

fun gmap :: "('a \<Rightarrow> ('w, 'b) eff) \<Rightarrow> 'a list \<Rightarrow> ('w, 'b list) eff" where
  "gmap f [] = gret []"
| "gmap f (x # xs) = gbind (f x) (\<lambda>y. gbind (gmap f xs) (\<lambda>ys. gret (y # ys)))"

text \<open>(The plain equations are no simp rules: they would rewrite \<open>gret x\<close> by itself.)\<close>

lemma gret_apply: "gret x w = (Inr x, w)" by (simp add: gret_def)
lemma gfail_apply: "gfail e w = (Inl e, w)" by (simp add: gfail_def)
lemma gcheck_apply: "gcheck e w = (case e of None \<Rightarrow> Inr () | Some x \<Rightarrow> Inl x, w)"
  by (simp add: gcheck_def gret_def gfail_def split: option.split)
lemma gmodify_apply [simp]: "gmodify f w = (Inr (), f w)" by (simp add: gmodify_def)
lemma gread_apply [simp]: "gread f w = (Inr (f w), w)" by (simp add: gread_def)

lemma pure_eqs [simp]:
  "gret x w = (r, w') \<longleftrightarrow> r = Inr x \<and> w' = w"
  "gfail e w = (r', w') \<longleftrightarrow> r' = Inl e \<and> w' = w"
  "gcheck err w = (r'', w') \<longleftrightarrow> r'' = (case err of None \<Rightarrow> Inr () | Some x \<Rightarrow> Inl x) \<and> w' = w"
  "fst (gret x w) = Inr x" "snd (gret x w) = w" "fst (gfail e w) = Inl e" "snd (gfail e w) = w" "snd (gcheck err w) = w"
  by (auto simp: gret_apply gfail_apply gcheck_apply)

lemma gbind_Inr: "gbind m f w = (Inr y, w'') \<longleftrightarrow> (\<exists>x w'. m w = (Inr x, w') \<and> f x w' = (Inr y, w''))"
  by (auto simp: gbind_def split: prod.split sum.split)

lemma gbind_Inl: "gbind m f w = (Inl e, w'') \<longleftrightarrow> m w = (Inl e, w'') \<or> (\<exists>x w'. m w = (Inr x, w') \<and> f x w' = (Inl e, w''))"
  by (auto simp: gbind_def split: prod.split sum.split)

lemma gbind_gret [simp]: "gbind (gret x) f = f x" by (simp add: gbind_def gret_def)
lemma gbind_gfail [simp]: "gbind (gfail e) f = gfail e" by (simp add: gbind_def gfail_def)

lemma gbind_step [simp]:
  "m w = (Inr x, w') \<Longrightarrow> gbind m f w = f x w'"
  "m w = (Inl e, w') \<Longrightarrow> gbind m f w = (Inl e, w')"
  by (simp_all add: gbind_def)

lemma gmap_length: "gmap f xs w = (Inr ys, w') \<Longrightarrow> length ys = length xs"
  by (induction xs arbitrary: ys w) (auto simp: gbind_Inr)

text \<open>How every run of a step relates the state before it to the state after it.\<close>

definition steps :: "('w \<Rightarrow> 'w \<Rightarrow> bool) \<Rightarrow> ('w, 'a) eff \<Rightarrow> bool" where
  "steps R m \<longleftrightarrow> (\<forall>w. R w (snd (m w)))"

lemma stepsD: "steps R m \<Longrightarrow> m w = (r, w') \<Longrightarrow> R w w'"
  by (metis snd_conv steps_def)

locale world_relation =
  fixes R :: "'w \<Rightarrow> 'w \<Rightarrow> bool"
  assumes same: "R w w"
    and trans: "R w w' \<Longrightarrow> R w' w'' \<Longrightarrow> R w w''"
begin

lemma gret: "steps R (gret x)" by (simp add: steps_def same)
lemma gfail: "steps R (gfail e)" by (simp add: steps_def same)
lemma gcheck: "steps R (gcheck e)" by (simp add: steps_def same)
lemma gread: "steps R (gread f)" by (simp add: steps_def same)

lemma gbind: "steps R m \<Longrightarrow> (\<And>x. steps R (f x)) \<Longrightarrow> steps R (gbind m f)"
  unfolding steps_def gbind_def
  by (auto split: prod.split sum.split) (metis snd_conv trans)+

lemma gtry: "steps R m \<Longrightarrow> steps R (gtry m)"
  unfolding steps_def gtry_def by (simp add: case_prod_unfold)

lemma gmap: "(\<And>x. steps R (f x)) \<Longrightarrow> steps R (gmap f xs)"
  by (induction xs) (auto intro: gbind gret)

lemmas intros = gret gfail gcheck gread gbind gtry gmap

end

end
