(* ===== verification/Graph.thy ===== *)
theory Graph
  imports Effects Go_Text "HOL-Library.List_Lexorder" "HOL-Library.Char_ord"
begin

section \<open>Workflow graphs\<close>

text \<open>
  sdk/agent/graph/graph.go and engine.go. A graph is generic in its state \<open>'s\<close>. Node functions,
  routers and the merge function are the caller's code: here functions of the time of the call
  and of their arguments, so that two calls may answer differently. The time is a counter that
  every call of the caller's code and every poll of the context advances; \<open>ctx t\<close> is what
  \<open>ctx.Err()\<close> answers at time t. The goroutines of one superstep write only their own slot of
  the results; they run here in the order of their slots. A semaphore slot that is refused
  because the context is done and one that is granted and then finds the context done return
  the same error. \<open>gw_calls\<close> counts the calls of node functions and \<open>gw_saved\<close> lists the
  checkpoints that were saved: both are bookkeeping for the theorems.
\<close>

definition Start :: string where "Start = ''__start__''"
definition End :: string where "End = ''__end__''"

record 's send_to =
  to_node :: string
  to_state :: 's

datatype 's node_result = ResultUpdate 's | ResultSends "'s send_to list" | ResultOther string

type_synonym 's node = "nat \<Rightarrow> 's \<Rightarrow> 's node_result \<times> go_error option"
type_synonym 's router = "nat \<Rightarrow> 's \<Rightarrow> string \<times> go_error option"
type_synonym 's merge = "nat \<Rightarrow> 's \<Rightarrow> 's list \<Rightarrow> 's \<times> go_error option"
type_synonym go_context = "nat \<Rightarrow> go_error option"

record 's graph_edge =
  edge_from :: string
  edge_to :: string
  edge_router :: "'s router option"

record 's state_graph =
  sg_nodes :: "string \<Rightarrow> 's node option"
  sg_edges :: "'s graph_edge list"
  sg_entry :: string
  sg_clone :: "('s \<Rightarrow> 's) option"
  sg_merge :: "'s merge option"

definition NewStateGraph :: "('s \<Rightarrow> 's) option \<Rightarrow> 's state_graph" where
  "NewStateGraph clone = \<lparr>sg_nodes = Map.empty, sg_edges = [], sg_entry = [], sg_clone = clone, sg_merge = None\<rparr>"

definition AddNode :: "string \<Rightarrow> 's node option \<Rightarrow> 's state_graph \<Rightarrow> 's state_graph \<times> go_error option" where
  "AddNode name node b =
     (case node of
        None \<Rightarrow> (b, Some (ErrNew ''invalid graph node identity/function''))
      | Some f \<Rightarrow>
          if name = [] \<or> name = Start \<or> name = End then (b, Some (ErrNew ''invalid graph node identity/function''))
          else if sg_nodes b name \<noteq> None then (b, Some (ErrNew (''duplicate graph node '' @ name)))
          else (b\<lparr>sg_nodes := (sg_nodes b)(name \<mapsto> f)\<rparr>, None))"

definition AddEdge :: "string \<Rightarrow> string \<Rightarrow> 's state_graph \<Rightarrow> 's state_graph" where
  "AddEdge f t b = b\<lparr>sg_edges := sg_edges b @ [\<lparr>edge_from = f, edge_to = t, edge_router = None\<rparr>]\<rparr>"

definition AddConditionalEdge :: "string \<Rightarrow> 's router option \<Rightarrow> 's state_graph \<Rightarrow> 's state_graph" where
  "AddConditionalEdge f r b = b\<lparr>sg_edges := sg_edges b @ [\<lparr>edge_from = f, edge_to = [], edge_router = r\<rparr>]\<rparr>"

definition SetEntryPoint :: "string \<Rightarrow> 's state_graph \<Rightarrow> 's state_graph" where
  "SetEntryPoint name b = b\<lparr>sg_entry := name\<rparr>"

definition SetMerge :: "'s merge option \<Rightarrow> 's state_graph \<Rightarrow> 's state_graph" where
  "SetMerge m b = b\<lparr>sg_merge := m\<rparr>"

record 's compiled_graph =
  cg_nodes :: "string \<Rightarrow> 's node option"
  cg_edges :: "'s graph_edge list"
  cg_entry :: string
  cg_clone :: "'s \<Rightarrow> 's"
  cg_merge :: "'s merge option"

definition edge_check :: "'s state_graph \<Rightarrow> 's graph_edge \<Rightarrow> go_error option" where
  "edge_check b e =
     (if edge_from e \<noteq> Start \<and> sg_nodes b (edge_from e) = None
      then Some (ErrNew (''graph edge source not registered: '' @ edge_from e))
      else if edge_router e = None \<and> edge_to e \<noteq> End \<and> sg_nodes b (edge_to e) = None
      then Some (ErrNew (''graph edge target not registered: '' @ edge_to e)) else None)"

fun first_edge_error :: "'s state_graph \<Rightarrow> 's graph_edge list \<Rightarrow> go_error option" where
  "first_edge_error b [] = None"
| "first_edge_error b (e # es) = (case edge_check b e of Some x \<Rightarrow> Some x | None \<Rightarrow> first_edge_error b es)"

definition Compile :: "'s state_graph \<Rightarrow> 's compiled_graph result" where
  "Compile b =
     (case sg_clone b of
        None \<Rightarrow> Inl (ErrNew ''graph requires explicit state ownership clone'')
      | Some clone \<Rightarrow>
          if sg_entry b = [] \<or> sg_nodes b (sg_entry b) = None
          then Inl (ErrNew (''graph entry point is not registered: '' @ sg_entry b))
          else (case first_edge_error b (sg_edges b) of
              Some e \<Rightarrow> Inl e
            | None \<Rightarrow> Inr \<lparr>cg_nodes = sg_nodes b, cg_edges = sg_edges b, cg_entry = sg_entry b, cg_clone = clone, cg_merge = sg_merge b\<rparr>))"

subsection \<open>The world of a run\<close>

datatype graph_event =
    SuperstepStart nat
  | NodeStart string nat
  | NodeEnd string nat
  | SendEmitted string string nat
  | SuperstepEnd nat nat
  | CheckpointEvent nat string
  | Completed nat

record 's checkpoint =
  cp_state :: 's
  cp_step :: int
  cp_pending :: "string list"

record 's checkpoint_saver =
  sv_save :: "nat \<Rightarrow> string \<Rightarrow> 's checkpoint \<Rightarrow> go_error option"
  sv_load :: "nat \<Rightarrow> string \<Rightarrow> 's checkpoint option \<times> go_error option"

record retry_config =
  MaxRetries :: int
  InitialDelay :: int
  MaxDelay :: int
  Retryable :: "(go_error \<Rightarrow> bool) option"

record 's invoke_config =
  ic_checkpoint :: "'s checkpoint_saver option"
  ic_checkpoint_id :: string
  ic_max_steps :: int
  ic_max_parallel :: int
  ic_max_send_depth :: int
  ic_max_tasks :: int
  ic_retry :: "retry_config option"

record 's graph_world =
  gw_clock :: nat
  gw_events :: "graph_event list"
  gw_budget :: int
  gw_calls :: nat
  gw_saved :: "(string \<times> 's checkpoint) list"

definition tick :: "'s graph_world \<Rightarrow> 's graph_world" where
  "tick w = w\<lparr>gw_clock := gw_clock w + 1\<rparr>"

definition ctx_err :: "go_context \<Rightarrow> ('s graph_world, go_error option) eff" where
  "ctx_err ctx = (\<lambda>w. (Inr (ctx (gw_clock w)), tick w))"

definition ctx_check :: "go_context \<Rightarrow> ('s graph_world, unit) eff" where
  "ctx_check ctx = gbind (ctx_err ctx) gcheck"

definition join_ctx :: "go_context \<Rightarrow> go_error option \<Rightarrow> ('s graph_world, unit) eff" where
  "join_ctx ctx err = gbind (ctx_err ctx) (\<lambda>c. gcheck (joinCancellation c err))"

text \<open>A call of the caller's code, at the current time.\<close>

definition callback :: "(nat \<Rightarrow> 'a) \<Rightarrow> ('s graph_world, 'a) eff" where
  "callback f = (\<lambda>w. (Inr (f (gw_clock w)), tick w))"

definition emit :: "graph_event \<Rightarrow> ('s graph_world, unit) eff" where
  "emit e = gmodify (\<lambda>w. w\<lparr>gw_events := gw_events w @ [e]\<rparr>)"

definition clone_state :: "'s compiled_graph \<Rightarrow> go_context \<Rightarrow> 's \<Rightarrow> ('s graph_world, 's) eff" where
  "clone_state g ctx s = gbind (ctx_check ctx) (\<lambda>_. gbind (ctx_check ctx) (\<lambda>_. gret (cg_clone g s)))"

subsection \<open>One node\<close>

definition call_node :: "'s compiled_graph \<Rightarrow> string \<Rightarrow> 's \<Rightarrow> ('s graph_world, 's node_result \<times> go_error option) eff" where
  "call_node g name s =
     (case cg_nodes g name of
        None \<Rightarrow> gfail (ErrNew ''nil graph node'')
      | Some f \<Rightarrow> gbind (gmodify (\<lambda>w. w\<lparr>gw_calls := gw_calls w + 1\<rparr>)) (\<lambda>_. callback (\<lambda>t. f t s)))"

definition retryable :: "retry_config option \<Rightarrow> go_error \<Rightarrow> bool" where
  "retryable retry e =
     (\<not> err_is e Canceled \<and> \<not> err_is e DeadlineExceeded \<and>
      (case retry of None \<Rightarrow> False | Some c \<Rightarrow> (case Retryable c of None \<Rightarrow> False | Some p \<Rightarrow> p e)))"

definition retry_wait :: "go_context \<Rightarrow> ('s graph_world, unit) eff" where
  "retry_wait ctx = gbind (ctx_check ctx) (\<lambda>_. ctx_check ctx)"

text \<open>\<open>left\<close> is \<open>MaxRetries - attempt\<close>, cut off at 0.\<close>

fun invoke_node :: "'s compiled_graph \<Rightarrow> go_context \<Rightarrow> retry_config option \<Rightarrow> string \<Rightarrow> 's \<Rightarrow> nat \<Rightarrow> ('s graph_world, 's node_result) eff" where
  "invoke_node g ctx retry name s left =
     gbind (ctx_check ctx) (\<lambda>_.
     gbind (clone_state g ctx s) (\<lambda>owned.
     gbind (call_node g name owned) (\<lambda>(r, err).
     gbind (gtry (join_ctx ctx err)) (\<lambda>joined.
       case joined of
         Inr _ \<Rightarrow> gret r
       | Inl e \<Rightarrow>
           (case left of
              0 \<Rightarrow> gfail e
            | Suc left' \<Rightarrow>
                if \<not> retryable retry e then gfail e
                else gbind (gtry (retry_wait ctx)) (\<lambda>waited.
                  case waited of
                    Inl we \<Rightarrow> gfail (Joined [e, we])
                  | Inr _ \<Rightarrow> invoke_node g ctx retry name s left'))))))"

declare invoke_node.simps [simp del]

end
