(* ===== verification/Graph_Engine.thy ===== *)
theory Graph_Engine
  imports Graph
begin

section \<open>Running a workflow graph\<close>

text \<open>
  sdk/agent/graph/engine.go: supersteps, dynamic sends, merge, routing, checkpoints and resume.
  \<open>levels\<close> is \<open>MaxSendDepth - depth + 1\<close>, what is left of the depth of sends, and \<open>rem\<close> is
  \<open>MaxSteps - step\<close>, cut off at 0: both count down where the code counts up.
\<close>

text \<open>The target of a routing decision must be the end or a registered node.\<close>

fun resolve_edges :: "'s compiled_graph \<Rightarrow> go_context \<Rightarrow> string \<Rightarrow> 's \<Rightarrow> 's graph_edge list \<Rightarrow> ('s graph_world, string list) eff" where
  "resolve_edges g ctx from state [] = gret []"
| "resolve_edges g ctx from state (e # es) =
     (if edge_from e \<noteq> from then resolve_edges g ctx from state es
      else gbind (case edge_router e of
                    None \<Rightarrow> gret (edge_to e)
                  | Some router \<Rightarrow>
                      gbind (clone_state g ctx state) (\<lambda>owned.
                      gbind (callback (\<lambda>t. router t owned)) (\<lambda>(target, err).
                      gbind (join_ctx ctx err) (\<lambda>_. gret target))))
        (\<lambda>target.
           if target \<noteq> End \<and> cg_nodes g target = None then gfail (ErrNew (''graph route target not registered: '' @ target))
           else gbind (resolve_edges g ctx from state es) (\<lambda>targets. gret (target # targets))))"

definition resolve :: "'s compiled_graph \<Rightarrow> go_context \<Rightarrow> string \<Rightarrow> 's \<Rightarrow> ('s graph_world, string list) eff" where
  "resolve g ctx from state =
     gbind (ctx_check ctx) (\<lambda>_.
     gbind (resolve_edges g ctx from state (cg_edges g)) (\<lambda>targets.
       gret (if targets = [] then [End] else targets)))"

definition uniqueNodes :: "string list \<Rightarrow> string list" where
  "uniqueNodes nodes = sort (remdups (filter (\<lambda>n. n \<noteq> End) nodes))"

text \<open>Admission of the tasks of a step against the budget, and their execution.\<close>

definition run_task :: "'s compiled_graph \<Rightarrow> go_context \<Rightarrow> retry_config option \<Rightarrow> 's send_to \<Rightarrow> ('s graph_world, 's node_result) eff" where
  "run_task g ctx retry task =
     gbind (ctx_check ctx) (\<lambda>_.
     gbind (clone_state g ctx (to_state task)) (\<lambda>owned.
     invoke_node g ctx retry (to_node task) owned (case retry of None \<Rightarrow> 0 | Some c \<Rightarrow> nat (MaxRetries c))))"

fun failures_of :: "'a result list \<Rightarrow> go_error option list" where
  "failures_of [] = []"
| "failures_of (Inl e # rs) = Some e # failures_of rs"
| "failures_of (Inr _ # rs) = failures_of rs"

definition run_tasks :: "'s compiled_graph \<Rightarrow> go_context \<Rightarrow> retry_config option \<Rightarrow> nat \<Rightarrow> 's send_to list \<Rightarrow> ('s graph_world, 's node_result list) eff" where
  "run_tasks g ctx retry step tasks =
     gbind (gmap (\<lambda>t. emit (NodeStart (to_node t) step)) tasks) (\<lambda>_.
     gbind (gmap (\<lambda>t. gtry (run_task g ctx retry t)) tasks) (\<lambda>results.
     gbind (gmap (\<lambda>t. emit (NodeEnd (to_node t) step)) tasks) (\<lambda>_.
     gbind (join_ctx ctx (errors_join (failures_of results))) (\<lambda>_.
     gret (map projr results)))))"

definition admit_and_run :: "'s compiled_graph \<Rightarrow> go_context \<Rightarrow> retry_config option \<Rightarrow> nat \<Rightarrow> 's send_to list \<Rightarrow> ('s graph_world, 's node_result list) eff" where
  "admit_and_run g ctx retry step tasks =
     gbind (gread gw_budget) (\<lambda>budget.
       if int (length tasks) > budget then gfail (ErrNew ''graph dynamic Send budget exceeded'')
       else gbind (gmodify (\<lambda>w. w\<lparr>gw_budget := gw_budget w - int (length tasks)\<rparr>)) (\<lambda>_.
         case find (\<lambda>t. cg_nodes g (to_node t) = None) tasks of
           Some t \<Rightarrow> gfail (ErrNew (''graph node not registered: '' @ to_node t))
         | None \<Rightarrow> run_tasks g ctx retry step tasks))"

text \<open>The updates and the sends of a step, in the order of the tasks.\<close>

definition copy_send :: "'s compiled_graph \<Rightarrow> go_context \<Rightarrow> nat \<Rightarrow> string \<Rightarrow> 's send_to \<Rightarrow> ('s graph_world, 's send_to) eff" where
  "copy_send g ctx step from send =
     gbind (emit (SendEmitted from (to_node send) step)) (\<lambda>_.
     gbind (clone_state g ctx (to_state send)) (\<lambda>owned. gret \<lparr>to_node = to_node send, to_state = owned\<rparr>))"

definition collect_one :: "'s compiled_graph \<Rightarrow> go_context \<Rightarrow> nat \<Rightarrow> 's send_to \<times> 's node_result \<Rightarrow> ('s graph_world, 's list \<times> 's send_to list) eff" where
  "collect_one g ctx step tr =
     (case snd tr of
        ResultUpdate s \<Rightarrow> gbind (clone_state g ctx s) (\<lambda>owned. gret ([owned], []))
      | ResultSends sends \<Rightarrow> gbind (gmap (copy_send g ctx step (to_node (fst tr))) sends) (\<lambda>ss. gret ([], ss))
      | ResultOther _ \<Rightarrow> gfail (ErrNew ''invalid graph node result kind''))"

definition collect :: "'s compiled_graph \<Rightarrow> go_context \<Rightarrow> nat \<Rightarrow> 's send_to list \<Rightarrow> 's node_result list \<Rightarrow> ('s graph_world, 's list \<times> 's send_to list) eff" where
  "collect g ctx step tasks results =
     gbind (gmap (collect_one g ctx step) (zip tasks results)) (\<lambda>parts. gret (concat (map fst parts), concat (map snd parts)))"

definition merge_updates :: "'s compiled_graph \<Rightarrow> go_context \<Rightarrow> 's \<Rightarrow> nat \<Rightarrow> 's list \<Rightarrow> ('s graph_world, 's) eff" where
  "merge_updates g ctx base n updates =
     gbind (clone_state g ctx base) (\<lambda>state.
       if updates = [] then gret state
       else if n = 1 then gret (hd updates)
       else (case cg_merge g of
           None \<Rightarrow> gret (last updates)
         | Some m \<Rightarrow>
             gbind (clone_state g ctx base) (\<lambda>owned.
             gbind (callback (\<lambda>t. m t owned updates)) (\<lambda>(next, err).
             gbind (join_ctx ctx err) (\<lambda>_. gret next)))))"

definition route_one :: "'s compiled_graph \<Rightarrow> go_context \<Rightarrow> bool \<Rightarrow> 's \<Rightarrow> 's send_to \<times> 's node_result \<Rightarrow> ('s graph_world, string list) eff" where
  "route_one g ctx own_state state tr =
     (case snd tr of
        ResultUpdate s \<Rightarrow> resolve g ctx (to_node (fst tr)) (if own_state then s else state)
      | _ \<Rightarrow> gret [])"

definition route :: "'s compiled_graph \<Rightarrow> go_context \<Rightarrow> bool \<Rightarrow> 's \<Rightarrow> 's send_to list \<Rightarrow> 's node_result list \<Rightarrow> ('s graph_world, string list) eff" where
  "route g ctx own_state state tasks results =
     gbind (gmap (route_one g ctx own_state state) (zip tasks results)) (\<lambda>ts. gret (concat ts))"

text \<open>The sends of a step run as a nested step, on the merged state.\<close>

fun execute_tasks :: "'s compiled_graph \<Rightarrow> go_context \<Rightarrow> retry_config option \<Rightarrow> nat \<Rightarrow> nat \<Rightarrow> bool \<Rightarrow> 's \<Rightarrow> 's send_to list \<Rightarrow>
    ('s graph_world, 's \<times> string list) eff" where
  "execute_tasks g ctx retry step 0 dynamic base tasks =
     gbind (ctx_check ctx) (\<lambda>_. gfail (ErrNew ''graph dynamic Send budget exceeded''))"
| "execute_tasks g ctx retry step (Suc levels) dynamic base tasks =
     gbind (ctx_check ctx) (\<lambda>_.
     gbind (admit_and_run g ctx retry step tasks) (\<lambda>results.
     gbind (collect g ctx step tasks results) (\<lambda>(updates, sends).
     gbind (merge_updates g ctx base (length tasks) updates) (\<lambda>state.
     gbind (route g ctx (dynamic \<and> length tasks > 1) state tasks results) (\<lambda>next.
     gbind (if sends = [] then gret (state, next)
            else gbind (execute_tasks g ctx retry step levels True state sends) (\<lambda>(state', next'). gret (state', next @ next')))
       (\<lambda>(state, next).
     gbind (clone_state g ctx state) (\<lambda>owned. gret (owned, uniqueNodes next))))))))"

subsection \<open>Supersteps\<close>

definition superstep :: "'s compiled_graph \<Rightarrow> go_context \<Rightarrow> 's invoke_config \<Rightarrow> nat \<Rightarrow> 's \<Rightarrow> string list \<Rightarrow> ('s graph_world, 's \<times> string list) eff" where
  "superstep g ctx config step state current =
     gbind (emit (SuperstepStart step)) (\<lambda>_.
     gbind (gmap (\<lambda>name. gbind (clone_state g ctx state) (\<lambda>owned. gret \<lparr>to_node = name, to_state = owned\<rparr>)) current) (\<lambda>tasks.
     gbind (gtry (execute_tasks g ctx (ic_retry config) step (nat (ic_max_send_depth config) + 1) False state tasks)) (\<lambda>r.
     case r of
       Inl e \<Rightarrow> gbind (join_ctx ctx (Some e)) (\<lambda>_. gfail e)
     | Inr x \<Rightarrow> gbind (join_ctx ctx None) (\<lambda>_. gret x))))"

definition checkpoint_id :: "'s invoke_config \<Rightarrow> nat \<Rightarrow> string" where
  "checkpoint_id config step = ic_checkpoint_id config @ ''-step-'' @ dec step"

definition save_checkpoint :: "'s checkpoint_saver \<Rightarrow> string \<Rightarrow> 's checkpoint \<Rightarrow> ('s graph_world, go_error option) eff" where
  "save_checkpoint sv ident cp =
     gbind (callback (\<lambda>t. sv_save sv t ident cp)) (\<lambda>err.
     gbind (gmodify (\<lambda>w. if err = None then w\<lparr>gw_saved := gw_saved w @ [(ident, cp)]\<rparr> else w)) (\<lambda>_. gret err))"

definition end_superstep :: "'s compiled_graph \<Rightarrow> go_context \<Rightarrow> 's invoke_config \<Rightarrow> nat \<Rightarrow> nat \<Rightarrow> 's \<Rightarrow> string list \<Rightarrow> ('s graph_world, unit) eff" where
  "end_superstep g ctx config step executed state next =
     gbind (emit (SuperstepEnd step executed)) (\<lambda>_.
     gbind (ctx_check ctx) (\<lambda>_.
     case ic_checkpoint config of
       None \<Rightarrow> gret ()
     | Some sv \<Rightarrow>
         gbind (clone_state g ctx state) (\<lambda>owned.
         gbind (save_checkpoint sv (checkpoint_id config step) \<lparr>cp_state = owned, cp_step = int step, cp_pending = next\<rparr>) (\<lambda>err.
         gbind (gtry (join_ctx ctx err)) (\<lambda>r.
         case r of
           Inl e \<Rightarrow> gfail (Wrapf ''graph checkpoint failed: '' e)
         | Inr _ \<Rightarrow> emit (CheckpointEvent step (checkpoint_id config step)))))))"

text \<open>The loop returns the state of the last finished superstep with the error, if there is one.\<close>

fun drive_loop :: "'s compiled_graph \<Rightarrow> go_context \<Rightarrow> 's invoke_config \<Rightarrow> nat \<Rightarrow> nat \<Rightarrow> 's \<Rightarrow> string list \<Rightarrow> 's graph_world \<Rightarrow>
    ('s \<times> go_error option) \<times> 's graph_world" where
  "drive_loop g ctx config rem step state pending w =
     (case ctx_check ctx w of
        (Inl e, w) \<Rightarrow> ((state, Some e), w)
      | (Inr _, w) \<Rightarrow>
          (let current = uniqueNodes pending in
           if current = []
           then (case gbind (emit (Completed step)) (\<lambda>_. ctx_check ctx) w of
                   (Inl e, w) \<Rightarrow> ((state, Some e), w) | (Inr _, w) \<Rightarrow> ((state, None), w))
           else (case rem of
               0 \<Rightarrow> ((state, Some (ErrNew ''graph exceeded max_steps'')), w)
             | Suc rem' \<Rightarrow>
                 (case superstep g ctx config (step + 1) state current w of
                    (Inl e, w) \<Rightarrow> ((state, Some e), w)
                  | (Inr (state', next), w) \<Rightarrow>
                      (case end_superstep g ctx config (step + 1) (length current) state' next w of
                         (Inl e, w) \<Rightarrow> ((state', Some e), w)
                       | (Inr _, w) \<Rightarrow> drive_loop g ctx config rem' (step + 1) state' next w)))))"

definition with_defaults :: "'s invoke_config \<Rightarrow> 's invoke_config" where
  "with_defaults c =
     c\<lparr>ic_max_steps := (if ic_max_steps c \<le> 0 then 100 else ic_max_steps c),
       ic_max_parallel := (if ic_max_parallel c \<le> 0 then 8 else ic_max_parallel c),
       ic_max_send_depth := (if ic_max_send_depth c \<le> 0 then 64 else ic_max_send_depth c),
       ic_max_tasks := (if ic_max_tasks c \<le> 0 then 10000 else ic_max_tasks c),
       ic_checkpoint_id := (if ic_checkpoint_id c = [] then ''graph'' else ic_checkpoint_id c)\<rparr>"

definition drive :: "'s compiled_graph \<Rightarrow> go_context \<Rightarrow> 's \<Rightarrow> string list \<Rightarrow> nat \<Rightarrow> 's invoke_config \<Rightarrow> 's graph_world \<Rightarrow>
    ('s \<times> go_error option) \<times> 's graph_world" where
  "drive g ctx state current step config w =
     (let c = with_defaults config in
      if ic_max_parallel c > 256 then ((state, Some (ErrNew ''graph concurrency exceeds 256'')), w)
      else drive_loop g ctx c (nat (ic_max_steps c - int step)) step state current (w\<lparr>gw_budget := ic_max_tasks c\<rparr>))"

definition InvokeWithConfig :: "'s compiled_graph \<Rightarrow> go_context \<Rightarrow> 's \<Rightarrow> 's invoke_config \<Rightarrow> 's graph_world \<Rightarrow>
    ('s \<times> go_error option) \<times> 's graph_world" where
  "InvokeWithConfig g ctx input config w =
     (case clone_state g ctx input w of
        (Inl e, w) \<Rightarrow> ((input, Some e), w)
      | (Inr owned, w) \<Rightarrow> drive g ctx owned [cg_entry g] 0 config w)"

text \<open>\<open>zero\<close> is the zero value of the state's type.\<close>

definition resume_point :: "'s compiled_graph \<Rightarrow> go_context \<Rightarrow> string \<Rightarrow> 's invoke_config \<Rightarrow> ('s graph_world, 's checkpoint) eff" where
  "resume_point g ctx ident config =
     gbind (ctx_check ctx) (\<lambda>_.
     case ic_checkpoint config of
       None \<Rightarrow> gfail (ErrNew ''checkpoint saver required for resume'')
     | Some sv \<Rightarrow>
         gbind (callback (\<lambda>t. sv_load sv t ident)) (\<lambda>(found, err).
         gbind (join_ctx ctx err) (\<lambda>_.
         case found of
           None \<Rightarrow> gfail (ErrNew ''graph checkpoint not found'')
         | Some cp \<Rightarrow>
             if cp_step cp < 0 then gfail (ErrNew ''invalid graph checkpoint step'')
             else gbind (clone_state g ctx (cp_state cp)) (\<lambda>owned. gret (cp\<lparr>cp_state := owned\<rparr>)))))"

definition Resume :: "'s \<Rightarrow> 's compiled_graph \<Rightarrow> go_context \<Rightarrow> string \<Rightarrow> 's invoke_config \<Rightarrow> 's graph_world \<Rightarrow>
    ('s \<times> go_error option) \<times> 's graph_world" where
  "Resume zero g ctx ident config w =
     (case resume_point g ctx ident config w of
        (Inl e, w) \<Rightarrow> ((zero, Some e), w)
      | (Inr cp, w) \<Rightarrow> drive g ctx (cp_state cp) (cp_pending cp) (nat (cp_step cp)) config w)"

declare drive_loop.simps [simp del]
declare execute_tasks.simps [simp del]

end
