(* ===== verification/Graph_Bounds.thy ===== *)
theory Graph_Bounds
  imports Graph_Engine
begin

section \<open>A graph run is bounded\<close>

text \<open>
  Every run ends: supersteps are bounded by \<open>MaxSteps\<close>, node calls by \<open>MaxTasks\<close> times the
  attempts of the retry policy, whatever the nodes, routers and sends do.
\<close>

definition same_cost :: "'s graph_world \<Rightarrow> 's graph_world \<Rightarrow> bool" where
  "same_cost w w' \<longleftrightarrow> gw_budget w' = gw_budget w \<and> gw_calls w' = gw_calls w"

definition spends :: "nat \<Rightarrow> 's graph_world \<Rightarrow> 's graph_world \<Rightarrow> bool" where
  "spends k w w' \<longleftrightarrow> (0 \<le> gw_budget w \<longrightarrow> 0 \<le> gw_budget w') \<and> gw_budget w' \<le> gw_budget w \<and>
     int (gw_calls w') + int k * gw_budget w' \<le> int (gw_calls w) + int k * gw_budget w"

fun is_start :: "graph_event \<Rightarrow> bool" where
  "is_start (SuperstepStart _) = True"
| "is_start _ = False"

definition starts :: "'s graph_world \<Rightarrow> nat" where
  "starts w = length (filter is_start (gw_events w))"

definition same_starts :: "'s graph_world \<Rightarrow> 's graph_world \<Rightarrow> bool" where
  "same_starts w w' \<longleftrightarrow> starts w' = starts w"

interpretation cost: world_relation same_cost by unfold_locales (auto simp: same_cost_def)
interpretation spend: world_relation "spends k" by unfold_locales (auto simp: spends_def)
interpretation started: world_relation same_starts by unfold_locales (auto simp: same_starts_def)

lemma same_cost_spends: "steps same_cost m \<Longrightarrow> steps (spends k) m"
  by (auto simp: steps_def same_cost_def spends_def)

subsection \<open>What only polls and copies\<close>

lemma ctx_err_quiet: "steps same_cost (ctx_err ctx)" "steps same_starts (ctx_err ctx)"
  by (auto simp: steps_def same_cost_def same_starts_def starts_def ctx_err_def tick_def)

lemma callback_quiet: "steps same_cost (callback f)" "steps same_starts (callback f)"
  by (auto simp: steps_def same_cost_def same_starts_def starts_def callback_def tick_def)

lemma emit_quiet: "steps same_cost (emit e)" "\<not> is_start e \<Longrightarrow> steps same_starts (emit e)"
  by (auto simp: steps_def same_cost_def same_starts_def starts_def emit_def)

lemma ctx_check_quiet: "steps same_cost (ctx_check ctx)" "steps same_starts (ctx_check ctx)"
  unfolding ctx_check_def by (intro cost.intros started.intros ctx_err_quiet)+

lemma join_ctx_quiet: "steps same_cost (join_ctx ctx e)" "steps same_starts (join_ctx ctx e)"
  unfolding join_ctx_def by (intro cost.intros started.intros ctx_err_quiet)+

lemma clone_quiet: "steps same_cost (clone_state g ctx s)" "steps same_starts (clone_state g ctx s)"
  unfolding clone_state_def by (intro cost.intros started.intros ctx_check_quiet)+

lemmas quiet = ctx_err_quiet callback_quiet emit_quiet ctx_check_quiet join_ctx_quiet clone_quiet

lemma resolve_quiet: "steps same_cost (resolve g ctx from s)" "steps same_starts (resolve g ctx from s)"
proof -
  have "steps same_cost (resolve_edges g ctx from s es)" "steps same_starts (resolve_edges g ctx from s es)" for es
    by (induction es)
      (auto split: option.split prod.split if_split intro!: cost.intros started.intros quiet)
  then show "steps same_cost (resolve g ctx from s)" "steps same_starts (resolve g ctx from s)"
    unfolding resolve_def by (auto intro!: cost.intros started.intros quiet)
qed

lemma collect_quiet: "steps same_cost (collect g ctx step ts rs)" "steps same_starts (collect g ctx step ts rs)"
  unfolding collect_def collect_one_def copy_send_def
  by (auto split: node_result.split intro!: cost.intros started.intros quiet)

lemma merge_quiet: "steps same_cost (merge_updates g ctx b n us)" "steps same_starts (merge_updates g ctx b n us)"
  unfolding merge_updates_def
  by (auto split: option.split prod.split if_split intro!: cost.intros started.intros quiet)

lemma route_quiet: "steps same_cost (route g ctx own s ts rs)" "steps same_starts (route g ctx own s ts rs)"
  unfolding route_def route_one_def
  by (auto split: node_result.split intro!: cost.intros started.intros resolve_quiet)

subsection \<open>The cost of a node and of a step\<close>

definition costs :: "nat \<Rightarrow> ('s graph_world, 'a) eff \<Rightarrow> bool" where
  "costs n m \<longleftrightarrow> (\<forall>w. gw_budget (snd (m w)) = gw_budget w \<and> gw_calls (snd (m w)) \<le> gw_calls w + n)"

lemma costs_0: "steps same_cost m \<Longrightarrow> costs n m"
  by (auto simp: steps_def same_cost_def costs_def)

lemma costs_pure [simp]: "costs n (gret x)" "costs n (gfail e)" "costs n (gcheck err)"
  by (simp_all add: costs_0 cost.intros)

lemma costs_bind: "costs a m \<Longrightarrow> (\<And>x. costs b (f x)) \<Longrightarrow> a + b \<le> n \<Longrightarrow> costs n (gbind m f)"
proof -
  assume m: "costs a m" and f: "\<And>x. costs b (f x)" and n: "a + b \<le> n"
  show "costs n (gbind m f)" unfolding costs_def
  proof
    fix w
    obtain r w' where mw: "m w = (r, w')" by fastforce
    with m have 1: "gw_budget w' = gw_budget w" "gw_calls w' \<le> gw_calls w + a" by (metis costs_def snd_conv)+
    show "gw_budget (snd (gbind m f w)) = gw_budget w \<and> gw_calls (snd (gbind m f w)) \<le> gw_calls w + n"
    proof (cases r)
      case (Inl e) with mw 1 n show ?thesis by simp
    next
      case (Inr x)
      from f [of x] have "gw_budget (snd (f x w')) = gw_budget w'" "gw_calls (snd (f x w')) \<le> gw_calls w' + b"
        by (auto simp: costs_def)
      with mw 1 n Inr show ?thesis by simp
    qed
  qed
qed

lemma costs_try: "costs n m \<Longrightarrow> costs n (gtry m)"
  by (simp add: costs_def gtry_def case_prod_unfold)

lemma costs_quiet_bind: "steps same_cost m \<Longrightarrow> (\<And>x. costs n (f x)) \<Longrightarrow> costs n (gbind m f)"
  by (rule costs_bind [where a = 0 and b = n]) (auto intro: costs_0)

lemma call_node_cost: "costs 1 (call_node g name s)"
  by (auto simp: call_node_def costs_def callback_def tick_def gbind_def split: option.split)

lemma invoke_node_cost: "costs (left + 1) (invoke_node g ctx retry name s left)"
proof (induction left)
  case 0
  show ?case
    by (subst invoke_node.simps)
      (auto split: sum.split prod.split intro!: costs_quiet_bind quiet costs_bind [OF call_node_cost, where b = 0]
        cost.intros intro: costs_0)
next
  case (Suc left)
  show ?case
    by (subst invoke_node.simps)
      (auto split: sum.split prod.split if_split
        intro!: costs_quiet_bind quiet costs_bind [OF call_node_cost, where b = "left + 1"] cost.intros
        simp: retry_wait_def Suc.IH [unfolded Suc_eq_plus1 [symmetric]] intro: costs_0)
qed

definition attempts :: "retry_config option \<Rightarrow> nat" where
  "attempts retry = (case retry of None \<Rightarrow> 1 | Some c \<Rightarrow> nat (MaxRetries c) + 1)"

lemma run_task_cost: "costs (attempts retry) (run_task g ctx retry t)"
proof -
  have "attempts retry = (case retry of None \<Rightarrow> 0 | Some c \<Rightarrow> nat (MaxRetries c)) + 1"
    by (simp add: attempts_def split: option.split)
  then show ?thesis unfolding run_task_def
    using invoke_node_cost [of "case retry of None \<Rightarrow> 0 | Some c \<Rightarrow> nat (MaxRetries c)"] by (auto intro!: costs_quiet_bind quiet)
qed

lemma run_tasks_cost: "costs (length ts * attempts retry) (run_tasks g ctx retry step ts)"
proof -
  have "costs (length ts * attempts retry) (gmap (\<lambda>t. gtry (run_task g ctx retry t)) ts)"
  proof (induction ts)
    case (Cons t ts)
    have "costs (length ts * attempts retry) (gbind (gmap (\<lambda>t. gtry (run_task g ctx retry t)) ts) (\<lambda>ys. gret (y # ys)))" for y
      by (rule costs_bind [OF Cons.IH, where b = 0]) (auto intro!: costs_0 cost.intros)
    then show ?case
      by (auto intro!: costs_bind [OF costs_try [OF run_task_cost]])
  qed (auto intro!: costs_0 cost.intros)
  then show ?thesis
    unfolding run_tasks_def
    by (intro costs_quiet_bind cost.intros quiet costs_bind [where a = "length ts * attempts retry" and b = 0])
      (auto intro!: costs_0 cost.intros quiet)
qed

lemma admit_spends: "steps (spends (attempts retry)) (admit_and_run g ctx retry step ts)"
  unfolding steps_def
proof
  fix w :: "'a graph_world"
  let ?w = "w\<lparr>gw_budget := gw_budget w - int (length ts)\<rparr>"
  from run_tasks_cost [of ts retry g ctx step, unfolded costs_def, THEN spec, of ?w]
  have budget: "gw_budget (snd (run_tasks g ctx retry step ts ?w)) = gw_budget w - int (length ts)"
    and "gw_calls (snd (run_tasks g ctx retry step ts ?w)) \<le> gw_calls w + length ts * attempts retry"
    by simp_all
  then have "int (gw_calls (snd (run_tasks g ctx retry step ts ?w))) + int (attempts retry) * (gw_budget w - int (length ts))
      \<le> int (gw_calls w) + int (attempts retry) * gw_budget w"
    by (simp add: algebra_simps flip: of_nat_mult of_nat_add)
  with budget have "spends (attempts retry) w (snd (run_tasks g ctx retry step ts ?w))" if "int (length ts) \<le> gw_budget w"
    using that by (simp add: spends_def)
  moreover have "spends (attempts retry) w ?w" if "int (length ts) \<le> gw_budget w"
    using that by (simp add: spends_def algebra_simps)
  ultimately show "spends (attempts retry) w (snd (admit_and_run g ctx retry step ts w))"
    by (simp add: admit_and_run_def gbind_def spend.same split: option.split)
qed

lemma execute_spends: "steps (spends (attempts retry)) (execute_tasks g ctx retry step levels dynamic base ts)"
proof (induction levels arbitrary: dynamic base ts)
  case 0
  show ?case by (auto simp: execute_tasks.simps intro!: spend.intros same_cost_spends [OF ctx_check_quiet(1)])
next
  case (Suc levels)
  show ?case
    unfolding execute_tasks.simps
    by (auto split: prod.split if_split
        intro!: spend.intros admit_spends Suc.IH same_cost_spends [OF collect_quiet(1)] same_cost_spends [OF merge_quiet(1)]
          same_cost_spends [OF route_quiet(1)] same_cost_spends [OF clone_quiet(1)] same_cost_spends [OF ctx_check_quiet(1)])
qed

subsection \<open>Supersteps are counted\<close>

lemma call_node_starts: "steps same_starts (call_node g name s)"
  unfolding call_node_def
  by (auto split: option.split intro!: started.intros quiet) (simp add: steps_def same_starts_def starts_def)

lemma invoke_node_starts: "steps same_starts (invoke_node g ctx retry name s left)"
proof (induction left)
  case 0
  show ?case
    by (subst invoke_node.simps) (auto split: sum.split prod.split intro!: started.intros quiet call_node_starts)
next
  case (Suc left)
  show ?case
    by (subst invoke_node.simps)
      (auto simp: retry_wait_def split: sum.split prod.split if_split intro!: started.intros quiet call_node_starts Suc.IH)
qed

lemma run_tasks_starts: "steps same_starts (run_tasks g ctx retry step ts)"
  unfolding run_tasks_def run_task_def by (auto intro!: started.intros quiet invoke_node_starts)

lemma budget_quiet: "steps same_starts (gmodify (\<lambda>w. w\<lparr>gw_budget := f w\<rparr>))"
  by (simp add: steps_def same_starts_def starts_def)

lemma admit_starts: "steps same_starts (admit_and_run g ctx retry step ts)"
  unfolding admit_and_run_def
  by (auto split: option.split if_split intro!: started.intros run_tasks_starts budget_quiet)

lemma execute_starts: "steps same_starts (execute_tasks g ctx retry step levels dynamic base ts)"
proof (induction levels arbitrary: dynamic base ts)
  case 0
  show ?case unfolding execute_tasks.simps by (auto intro!: started.intros quiet)
next
  case (Suc levels)
  show ?case
    unfolding execute_tasks.simps
    by (auto split: prod.split if_split
        intro!: started.intros quiet admit_starts Suc.IH collect_quiet merge_quiet route_quiet)
qed

definition one_start :: "'s graph_world \<Rightarrow> 's graph_world \<Rightarrow> bool" where
  "one_start w w' \<longleftrightarrow> starts w' \<le> starts w + 1"

lemma gbind_emit: "gbind (emit e) f w = f () (w\<lparr>gw_events := gw_events w @ [e]\<rparr>)"
  by (simp add: gbind_def emit_def)

lemma superstep_starts: "steps one_start (superstep g ctx config step s cur)"
proof -
  have "steps same_starts (gbind (gmap (\<lambda>name. gbind (clone_state g ctx s) (\<lambda>owned. gret \<lparr>to_node = name, to_state = owned\<rparr>)) cur) (\<lambda>tasks.
    gbind (gtry (execute_tasks g ctx (ic_retry config) step (nat (ic_max_send_depth config) + 1) False s tasks)) (\<lambda>r.
    case r of
       Inl e \<Rightarrow> gbind (join_ctx ctx (Some e)) (\<lambda>_. gfail e)
     | Inr x \<Rightarrow> gbind (join_ctx ctx None) (\<lambda>_. gret x))))" (is "steps _ ?rest")
    by (auto split: sum.split intro!: started.intros quiet execute_starts)
  then have "starts (snd (?rest (w\<lparr>gw_events := gw_events w @ [SuperstepStart step]\<rparr>))) = Suc (starts w)" for w
    unfolding steps_def same_starts_def by (simp add: starts_def)
  then show ?thesis
    unfolding steps_def one_start_def superstep_def by (simp add: gbind_emit le_SucI)
qed

lemma superstep_spends: "steps (spends (attempts (ic_retry config))) (superstep g ctx config step s cur)"
  unfolding superstep_def
  by (auto split: sum.split intro!: spend.intros execute_spends same_cost_spends [OF clone_quiet(1)]
      same_cost_spends [OF join_ctx_quiet(1)] same_cost_spends [OF emit_quiet(1)])

lemma end_superstep_quiet:
  "steps same_cost (end_superstep g ctx config step n s next)" "steps same_starts (end_superstep g ctx config step n s next)"
proof -
  have "steps same_cost (save_checkpoint sv i cp)" "steps same_starts (save_checkpoint sv i cp)" for sv i cp
    unfolding save_checkpoint_def
    by (auto intro!: cost.intros started.intros quiet) (auto simp: steps_def same_cost_def same_starts_def starts_def)
  then show "steps same_cost (end_superstep g ctx config step n s next)" "steps same_starts (end_superstep g ctx config step n s next)"
    unfolding end_superstep_def
    by (auto split: option.split sum.split intro!: cost.intros started.intros quiet)
qed

lemma completed_quiet:
  "steps same_cost (gbind (emit (Completed n)) (\<lambda>_. ctx_check ctx))" "steps same_starts (gbind (emit (Completed n)) (\<lambda>_. ctx_check ctx))"
  by (auto intro!: cost.intros started.intros quiet)

lemma drive_loop_bounded:
  "spends (attempts (ic_retry config)) w (snd (drive_loop g ctx config rem step s pend w)) \<and>
   starts (snd (drive_loop g ctx config rem step s pend w)) \<le> starts w + rem"
proof (induction rem arbitrary: step s pend w)
  case (0 step s pend w)
  obtain r w1 where 1: "ctx_check ctx w = (r, w1)" by fastforce
  obtain r' w2 where 2: "gbind (emit (Completed step)) (\<lambda>_. ctx_check ctx) w1 = (r', w2)" by fastforce
  note q = completed_quiet [THEN stepsD, OF 2] ctx_check_quiet [THEN stepsD, OF 1]
  then have "same_cost w w2" "same_starts w w2" "same_cost w w1" "same_starts w w1"
    by (auto intro: cost.trans started.trans)
  with 1 2 show ?case
    by (subst (1 2) drive_loop.simps)
      (auto simp: Let_def same_cost_def same_starts_def spends_def split: sum.split)
next
  case (Suc rem step s pend w)
  let ?k = "attempts (ic_retry config)" and ?cur = "uniqueNodes pend"
  let ?run = "drive_loop g ctx config (Suc rem) step s pend w"
  obtain r w1 where 1: "ctx_check ctx w = (r, w1)" by fastforce
  have s1: "spends ?k w w1" "starts w1 = starts w"
    using ctx_check_quiet [THEN stepsD, OF 1] by (auto simp: same_cost_def spends_def same_starts_def)
  obtain r2 w2 where 2: "gbind (emit (Completed step)) (\<lambda>_. ctx_check ctx) w1 = (r2, w2)" by fastforce
  have s2: "spends ?k w1 w2" "starts w2 = starts w1"
    using completed_quiet [THEN stepsD, OF 2] by (auto simp: same_cost_def spends_def same_starts_def)
  obtain r3 w3 where 3: "superstep g ctx config (step + 1) s ?cur w1 = (r3, w3)" by fastforce
  have s3: "spends ?k w1 w3" "starts w3 \<le> starts w1 + 1"
    using superstep_spends [THEN stepsD, OF 3] superstep_starts [THEN stepsD, OF 3] by (auto simp: one_start_def)
  show ?case
  proof (cases "is_err r \<or> ?cur = [] \<or> is_err r3")
    case True
    then have "snd ?run \<in> {w1, w2, w3}"
      using 1 2 3 by (subst drive_loop.simps) (auto simp: Let_def split: sum.splits)
    with s1 s2 s3 show ?thesis by (auto intro: spend.trans)
  next
    case False
    then obtain u s' nx where r: "r = Inr u" "r3 = Inr (s', nx)" "?cur \<noteq> []" by (cases r; cases r3) auto
    obtain r4 w4 where 4: "end_superstep g ctx config (step + 1) (length ?cur) s' nx w3 = (r4, w4)" by fastforce
    have s4: "spends ?k w w4" "starts w4 \<le> starts w + 1"
      using end_superstep_quiet [THEN stepsD, OF 4] s1 s3
      by (auto simp: same_starts_def intro: spend.trans [OF _ same_cost_spends [unfolded steps_def, THEN spec]])
        (auto simp: same_cost_def spends_def)
    have "?run = (case r4 of Inl e \<Rightarrow> ((s', Some e), w4) | Inr _ \<Rightarrow> drive_loop g ctx config rem (step + 1) s' nx w4)"
      using 1 3 4 r by (subst drive_loop.simps) (auto simp: Let_def split: sum.splits)
    with s4 Suc.IH [of w4 "step + 1" s' nx] show ?thesis
      by (cases r4) (auto intro: spend.trans)
  qed
qed

text \<open>
  C36. A graph run always ends within its budgets. Whatever the nodes, routers, merge and retry
  predicate answer, whenever the run is cancelled, and however many tasks a node sends, a run
  starts at most MaxSteps - step supersteps and calls node functions at most MaxTasks times the
  attempts of the retry policy (1 without one, 1 + MaxRetries with one), nested sends included.
\<close>

theorem graph_run_is_bounded:
  "let w' = snd (drive g ctx state pending step config w); c = with_defaults config in
     starts w' \<le> starts w + nat (ic_max_steps c - int step) \<and>
     int (gw_calls w') \<le> int (gw_calls w) + int (attempts (ic_retry config)) * ic_max_tasks c"
proof -
  let ?c = "with_defaults config" and ?w = "w\<lparr>gw_budget := ic_max_tasks (with_defaults config)\<rparr>"
  have pos: "0 \<le> ic_max_tasks ?c" and retry: "ic_retry ?c = ic_retry config" by (simp_all add: with_defaults_def)
  let ?w' = "snd (drive_loop g ctx ?c (nat (ic_max_steps ?c - int step)) step state pending ?w)"
  note b = drive_loop_bounded [of ?c ?w g ctx "nat (ic_max_steps ?c - int step)" step state pending]
  have "int (gw_calls ?w') \<le> int (gw_calls w) + int (attempts (ic_retry config)) * ic_max_tasks ?c"
  proof -
    from b pos have "0 \<le> int (attempts (ic_retry config)) * gw_budget ?w'" by (simp add: spends_def)
    with b show ?thesis by (simp add: spends_def retry)
  qed
  moreover have "starts ?w' \<le> starts w + nat (ic_max_steps ?c - int step)"
    using b by (simp add: starts_def)
  moreover have "0 \<le> int (attempts (ic_retry config)) * ic_max_tasks ?c" using pos by simp
  ultimately show ?thesis by (auto simp: drive_def Let_def)
qed

end
