(* ===== verification/Graph_Resume.thy ===== *)
theory Graph_Resume
  imports Graph_Bounds
begin

section \<open>Checkpoints: what is saved, and what resuming from it does\<close>

subsection \<open>What a step returns\<close>

definition yields :: "('a \<Rightarrow> bool) \<Rightarrow> ('w, 'a) eff \<Rightarrow> bool" where
  "yields P m \<longleftrightarrow> (\<forall>w x w'. m w = (Inr x, w') \<longrightarrow> P x)"

lemma yieldsD: "yields P m \<Longrightarrow> m w = (Inr x, w') \<Longrightarrow> P x"
  by (auto simp: yields_def)

lemma yields_ret: "P x \<Longrightarrow> yields P (gret x)" by (simp add: yields_def)
lemma yields_fail: "yields P (gfail e)" by (simp add: yields_def)

lemma yields_bind: "(\<And>x. yields P (f x)) \<Longrightarrow> yields P (gbind m f)"
  by (fastforce simp: yields_def gbind_Inr)

lemma yields_bind2: "yields Q m \<Longrightarrow> (\<And>x. Q x \<Longrightarrow> yields P (f x)) \<Longrightarrow> yields P (gbind m f)"
  by (fastforce simp: yields_def gbind_Inr)

lemma yields_map: "(\<And>x. yields P (f x)) \<Longrightarrow> yields (\<lambda>ys. \<forall>y \<in> set ys. P y) (gmap f xs)"
  by (induction xs) (auto intro!: yields_ret yields_bind2 [of P "f _"] yields_bind2 [where Q = "\<lambda>ys. \<forall>y \<in> set ys. P y"])

definition known_targets :: "'s compiled_graph \<Rightarrow> string list \<Rightarrow> bool" where
  "known_targets g ts \<longleftrightarrow> (\<forall>t \<in> set ts. t = End \<or> cg_nodes g t \<noteq> None)"

lemma resolve_edges_known: "yields (known_targets g) (resolve_edges g ctx from s es)"
proof (induction es)
  case (Cons e es)
  have "yields (known_targets g)
      (if t \<noteq> End \<and> cg_nodes g t = None then gfail err
       else gbind (resolve_edges g ctx from s es) (\<lambda>ts. gret (t # ts)))" for t err
    by (auto simp: known_targets_def intro!: yields_fail yields_bind2 [OF Cons.IH] yields_ret)
  then show ?case by (auto intro!: yields_bind Cons.IH)
qed (auto simp: known_targets_def intro!: yields_ret)

lemma resolve_known: "yields (known_targets g) (resolve g ctx from s)"
  unfolding resolve_def
  by (rule yields_bind, rule yields_bind2 [OF resolve_edges_known]) (auto simp: known_targets_def intro!: yields_ret)

lemma route_known: "yields (known_targets g) (route g ctx own s ts rs)"
proof -
  have one: "yields (known_targets g) (route_one g ctx own s tr)" for tr
    unfolding route_one_def
    by (auto split: node_result.split intro: resolve_known intro!: yields_ret simp: known_targets_def)
  show ?thesis
    unfolding route_def
    by (rule yields_bind2 [OF yields_map [OF one]]) (fastforce simp: known_targets_def intro!: yields_ret)
qed

text \<open>The frontier of a step: registered nodes, sorted, each once.\<close>

definition frontier :: "'s compiled_graph \<Rightarrow> string list \<Rightarrow> bool" where
  "frontier g ns \<longleftrightarrow> sorted ns \<and> distinct ns \<and> End \<notin> set ns \<and> (\<forall>n \<in> set ns. cg_nodes g n \<noteq> None)"

lemma unique_frontier: "known_targets g ts \<Longrightarrow> frontier g (uniqueNodes ts)"
  by (auto simp: frontier_def known_targets_def uniqueNodes_def)

lemma unique_of_frontier:
  assumes "frontier g ns"
  shows "uniqueNodes ns = ns"
proof -
  have "filter (\<lambda>n. n \<noteq> End) ns = ns" using assms by (auto simp: frontier_def intro!: filter_True)
  then show ?thesis using assms by (simp add: uniqueNodes_def frontier_def sorted_sort_id distinct_remdups_id)
qed

lemma execute_frontier:
  "yields (\<lambda>(s, ns). frontier g ns) (execute_tasks g ctx retry step levels dynamic base ts)"
proof (induction levels arbitrary: dynamic base ts)
  case 0
  show ?case unfolding execute_tasks.simps by (intro yields_bind yields_fail)
next
  case (Suc levels)
  have "yields (\<lambda>(s, ns). known_targets g ns)
     (if sends = [] then gret (st, nx)
      else gbind (execute_tasks g ctx retry step levels True st sends) (\<lambda>(s', nx'). gret (s', nx @ nx')))"
    if "known_targets g nx" for sends st nx
    using that
    by (auto intro!: yields_ret yields_bind2 [OF Suc.IH] simp: known_targets_def frontier_def)
  note last = this
  have inner: "yields (\<lambda>(s, ns). frontier g ns)
     (gbind (if sends = [] then gret (st, nx)
        else gbind (execute_tasks g ctx retry step levels True st sends) (\<lambda>(s', nx'). gret (s', nx @ nx')))
        (\<lambda>(st, nx). gbind (clone_state g ctx st) (\<lambda>owned. gret (owned, uniqueNodes nx))))" (is "yields _ (gbind ?m ?f)")
    if "known_targets g nx" for sends st nx
  proof (rule yields_bind2)
    show "yields (\<lambda>(s, ns). known_targets g ns) ?m" by (rule last [OF that])
  qed (auto intro!: yields_bind yields_ret unique_frontier)
  show ?case
    unfolding execute_tasks.simps
    by (intro yields_bind) (auto intro!: yields_bind yields_bind2 [OF route_known] inner)
qed

subsection \<open>What is saved\<close>

definition checkpoint_ok :: "'s compiled_graph \<Rightarrow> 's invoke_config \<Rightarrow> nat \<Rightarrow> string \<times> 's checkpoint \<Rightarrow> bool" where
  "checkpoint_ok g config mx icp \<longleftrightarrow>
     (\<exists>n. 0 < n \<and> n \<le> mx \<and> cp_step (snd icp) = int n \<and> fst icp = checkpoint_id config n) \<and> frontier g (cp_pending (snd icp))"

definition saves :: "(string \<times> 's checkpoint \<Rightarrow> bool) \<Rightarrow> 's graph_world \<Rightarrow> 's graph_world \<Rightarrow> bool" where
  "saves P w w' \<longleftrightarrow> ((\<forall>x \<in> set (gw_saved w). P x) \<longrightarrow> (\<forall>x \<in> set (gw_saved w'). P x))"

definition same_saved :: "'s graph_world \<Rightarrow> 's graph_world \<Rightarrow> bool" where
  "same_saved w w' \<longleftrightarrow> gw_saved w' = gw_saved w"

interpretation saved: world_relation same_saved by unfold_locales (auto simp: same_saved_def)

lemma unsaved:
  "steps same_saved (ctx_err ctx)" "steps same_saved (callback f)" "steps same_saved (emit e)"
  "steps same_saved (gmodify (\<lambda>w. w\<lparr>gw_budget := h w\<rparr>))" "steps same_saved (gmodify (\<lambda>w. w\<lparr>gw_calls := h' w\<rparr>))"
  by (auto simp: steps_def same_saved_def ctx_err_def callback_def emit_def tick_def)

lemma unsaved2:
  "steps same_saved (ctx_check ctx)" "steps same_saved (join_ctx ctx er)" "steps same_saved (clone_state g ctx s)"
  unfolding ctx_check_def join_ctx_def clone_state_def by (intro saved.intros unsaved)+

lemma invoke_unsaved: "steps same_saved (invoke_node g ctx retry name s left)"
proof (induction left)
  case 0
  show ?case
    by (subst invoke_node.simps)
      (auto simp: call_node_def split: sum.split prod.split option.split intro!: saved.intros unsaved unsaved2)
next
  case (Suc left)
  show ?case
    by (subst invoke_node.simps)
      (auto simp: call_node_def retry_wait_def split: sum.split prod.split option.split if_split
        intro!: saved.intros unsaved unsaved2 Suc.IH)
qed

lemma admit_unsaved: "steps same_saved (admit_and_run g ctx retry step ts)"
  unfolding admit_and_run_def run_tasks_def run_task_def
  by (auto split: option.split if_split intro!: saved.intros unsaved unsaved2 invoke_unsaved)

lemma collect_unsaved: "steps same_saved (collect g ctx step ts rs)"
  unfolding collect_def collect_one_def copy_send_def
  by (auto split: node_result.split intro!: saved.intros unsaved unsaved2)

lemma merge_unsaved: "steps same_saved (merge_updates g ctx b n us)"
  unfolding merge_updates_def
  by (auto split: option.split prod.split if_split intro!: saved.intros unsaved unsaved2)

lemma route_unsaved: "steps same_saved (route g ctx own s ts rs)"
proof -
  have "steps same_saved (resolve_edges g ctx from s es)" for "from" s es
    by (induction es) (auto split: option.split prod.split if_split intro!: saved.intros unsaved unsaved2)
  then show ?thesis
    unfolding route_def route_one_def resolve_def
    by (auto split: node_result.split intro!: saved.intros unsaved2)
qed

lemma execute_unsaved: "steps same_saved (execute_tasks g ctx retry step levels dynamic base ts)"
proof (induction levels arbitrary: dynamic base ts)
  case 0
  show ?case unfolding execute_tasks.simps by (auto intro!: saved.intros unsaved2)
next
  case (Suc levels)
  show ?case
    unfolding execute_tasks.simps
    by (auto split: prod.split if_split
        intro!: saved.intros unsaved2 admit_unsaved Suc.IH collect_unsaved merge_unsaved route_unsaved)
qed

lemma superstep_unsaved: "steps same_saved (superstep g ctx config step s cur)"
  unfolding superstep_def
  by (auto split: sum.split intro!: saved.intros unsaved unsaved2 execute_unsaved)

lemma superstep_frontier: "yields (\<lambda>(s, ns). frontier g ns) (superstep g ctx config step s cur)"
proof -
  let ?ex = "\<lambda>ts. execute_tasks g ctx (ic_retry config) step (nat (ic_max_send_depth config) + 1) False s ts"
  have "yields (\<lambda>r. \<forall>s ns. r = Inr (s, ns) \<longrightarrow> frontier g ns) (gtry (?ex ts))" for ts
    using execute_frontier [of g ctx "ic_retry config" step "nat (ic_max_send_depth config) + 1" False s ts]
    by (fastforce simp: yields_def gtry_def split: prod.splits)
  then have "yields (\<lambda>(s, ns). frontier g ns) (gbind (gtry (?ex ts)) (\<lambda>r. case r of
       Inl e \<Rightarrow> gbind (join_ctx ctx (Some e)) (\<lambda>_. gfail e) | Inr x \<Rightarrow> gbind (join_ctx ctx None) (\<lambda>_. gret x)))" for ts
    by (rule yields_bind2) (auto split: sum.split intro!: yields_bind yields_fail yields_ret)
  note rest = this
  show ?thesis unfolding superstep_def by (rule yields_bind, rule yields_bind, rule rest)
qed

lemma gbind_ret_snd: "snd (gbind m (\<lambda>_. gret x) w) = snd (m w)"
  by (simp add: gbind_def split: prod.split sum.split)

text \<open>Ending a superstep saves at most its own checkpoint.\<close>

lemma end_superstep_saved:
  assumes "end_superstep g ctx config step n s nx w = (r, w')"
  shows "gw_saved w' = gw_saved w \<or>
    (ic_checkpoint config \<noteq> None \<and>
     gw_saved w' = gw_saved w @ [(checkpoint_id config step, \<lparr>cp_state = cg_clone g s, cp_step = int step, cp_pending = nx\<rparr>)])"
proof -
  let ?w = "w\<lparr>gw_events := gw_events w @ [SuperstepEnd step n]\<rparr>"
  obtain r1 w1 where 1: "ctx_check ctx ?w = (r1, w1)" by fastforce
  have s1: "gw_saved w1 = gw_saved w" using unsaved2(1) [THEN stepsD, OF 1] by (simp add: same_saved_def)
  obtain r2 w2 where 2: "clone_state g ctx s w1 = (r2, w2)" by fastforce
  have s2: "gw_saved w2 = gw_saved w" using unsaved2(3) [THEN stepsD, OF 2] s1 by (simp add: same_saved_def)
  have r2: "r2 = Inr x \<Longrightarrow> x = cg_clone g s" for x
    using 2 by (auto simp: clone_state_def gbind_Inr)
  show ?thesis
  proof (cases "is_err r1 \<or> ic_checkpoint config = None \<or> is_err r2")
    case True
    with assms 1 2 s1 s2 show ?thesis
      by (cases r1; cases r2; cases "ic_checkpoint config") (auto simp: end_superstep_def gbind_emit)
  next
    case False
    then obtain sv u where sv: "ic_checkpoint config = Some sv" "r1 = Inr u" "r2 = Inr (cg_clone g s)"
      using r2 by (cases r1; cases r2) auto
    let ?cp = "\<lparr>cp_state = cg_clone g s, cp_step = int step, cp_pending = nx\<rparr>"
    obtain err w3 where 3: "save_checkpoint sv (checkpoint_id config step) ?cp w2 = (Inr err, w3)"
      and s3: "gw_saved w3 = gw_saved w \<or> gw_saved w3 = gw_saved w @ [(checkpoint_id config step, ?cp)]"
      using s2 by (auto simp: save_checkpoint_def callback_def gbind_def tick_def)
    have "steps same_saved (gbind (gtry (join_ctx ctx err)) (\<lambda>r. case r of
        Inl e \<Rightarrow> gfail (Wrapf ''graph checkpoint failed: '' e) | Inr _ \<Rightarrow> emit (CheckpointEvent step (checkpoint_id config step))))"
      (is "steps _ ?m")
      by (auto split: sum.split intro!: saved.intros unsaved unsaved2)
    moreover have "?m w3 = (r, w')"
      using assms 1 2 3 sv by (simp add: end_superstep_def gbind_emit)
    ultimately have "gw_saved w' = gw_saved w3" by (auto dest: stepsD simp: same_saved_def)
    with s3 sv show ?thesis by auto
  qed
qed

text \<open>One turn of the loop, by cases.\<close>

lemma drive_loop_turn:
  assumes "drive_loop g ctx config rem step s pend w = ((s', e), w')"
  obtains (stop) "gw_saved w' = gw_saved w"
    and "e = None \<Longrightarrow> uniqueNodes pend = [] \<and> s' = s"
  | (ended) rem' s1 nx w1 e1 w2 where "rem = Suc rem'" "uniqueNodes pend \<noteq> []" "ctx_check ctx w = (Inr (), w1)"
      "superstep g ctx config (step + 1) s (uniqueNodes pend) w1 = (Inr (s1, nx), w2)"
      "end_superstep g ctx config (step + 1) (length (uniqueNodes pend)) s1 nx w2 = (Inl e1, w')"
      "gw_saved w2 = gw_saved w" "s' = s1" "e = Some e1"
  | (more) rem' s1 nx w1 w2 w3 where "rem = Suc rem'" "uniqueNodes pend \<noteq> []" "ctx_check ctx w = (Inr (), w1)"
      "superstep g ctx config (step + 1) s (uniqueNodes pend) w1 = (Inr (s1, nx), w2)"
      "end_superstep g ctx config (step + 1) (length (uniqueNodes pend)) s1 nx w2 = (Inr (), w3)"
      "gw_saved w2 = gw_saved w" "drive_loop g ctx config rem' (step + 1) s1 nx w3 = ((s', e), w')"
proof -
  let ?cur = "uniqueNodes pend"
  obtain r w1 where 1: "ctx_check ctx w = (r, w1)" by fastforce
  obtain r2 w2 where 2: "gbind (emit (Completed step)) (\<lambda>_. ctx_check ctx) w1 = (r2, w2)" by fastforce
  have "steps same_saved (gbind (emit (Completed step)) (\<lambda>_. ctx_check ctx))" by (intro saved.intros unsaved unsaved2)
  with 1 2 have s12: "gw_saved w1 = gw_saved w" "gw_saved w2 = gw_saved w"
    using unsaved2(1) [THEN stepsD, OF 1] by (auto dest: stepsD simp: same_saved_def)
  obtain r3 w3 where 3: "superstep g ctx config (step + 1) s ?cur w1 = (r3, w3)" by fastforce
  have s3: "gw_saved w3 = gw_saved w"
    using superstep_unsaved [THEN stepsD, OF 3] s12 by (simp add: same_saved_def)
  have run: "((s', e), w') = (case r of
       Inl x \<Rightarrow> ((s, Some x), w1)
     | Inr _ \<Rightarrow> if ?cur = [] then (case r2 of Inl x \<Rightarrow> ((s, Some x), w2) | Inr _ \<Rightarrow> ((s, None), w2))
         else (case rem of
             0 \<Rightarrow> ((s, Some (ErrNew ''graph exceeded max_steps'')), w1)
           | Suc rem' \<Rightarrow> (case r3 of
               Inl x \<Rightarrow> ((s, Some x), w3)
             | Inr (s1, nx) \<Rightarrow> (case end_superstep g ctx config (step + 1) (length ?cur) s1 nx w3 of
                 (Inl x, w) \<Rightarrow> ((s1, Some x), w) | (Inr _, w) \<Rightarrow> drive_loop g ctx config rem' (step + 1) s1 nx w))))"
    unfolding assms [symmetric] drive_loop.simps [of g ctx config rem step s pend w]
    by (simp only: 1 2 3 Let_def prod.case)
  show ?thesis
  proof (cases "is_err r \<or> ?cur = [] \<or> rem = 0 \<or> is_err r3")
    case True
    then have "gw_saved w' = gw_saved w \<and> (e = None \<longrightarrow> ?cur = [] \<and> s' = s)"
      using run s12 s3 by (auto split: sum.splits nat.splits if_splits)
    then show ?thesis by (auto intro: stop)
  next
    case False
    then obtain u s1 nx rem' where r: "r = Inr u" "r3 = Inr (s1, nx)" "rem = Suc rem'"
      by (cases r; cases r3; cases rem) auto
    obtain r4 w4 where 4: "end_superstep g ctx config (step + 1) (length ?cur) s1 nx w3 = (r4, w4)" by fastforce
    have turn: "((s', e), w') = (case r4 of Inl x \<Rightarrow> ((s1, Some x), w4) | Inr _ \<Rightarrow> drive_loop g ctx config rem' (step + 1) s1 nx w4)"
      using run False by (simp only: r 4 sum.case nat.case prod.case if_False de_Morgan_disj)
    show ?thesis
    proof (cases r4)
      case (Inl e4)
      with turn have "s' = s1" "e = Some e4" "w' = w4" by auto
      with Inl 1 3 4 r False s3 ended [of rem' w1 s1 nx w3 e4] show ?thesis by simp
    next
      case (Inr v)
      with turn have "drive_loop g ctx config rem' (step + 1) s1 nx w4 = ((s', e), w')" by simp
      with Inr 1 3 4 r False s3 more [of rem' w1 s1 nx w3 w4] show ?thesis by simp
    qed
  qed
qed

lemma drive_loop_saved:
  assumes "drive_loop g ctx config rem step s pend w = ((s', e), w')" "\<forall>x \<in> set (gw_saved w). checkpoint_ok g config (step + rem) x"
  shows "\<forall>x \<in> set (gw_saved w'). checkpoint_ok g config (step + rem) x"
  using assms
proof (induction rem arbitrary: step s pend w)
  case 0
  from "0.prems"(1) show ?case by (cases rule: drive_loop_turn) (use 0 in auto)
next
  case (Suc rem step s pend w)
  have new: "\<forall>x \<in> set (gw_saved w3). checkpoint_ok g config (step + Suc rem) x"
    if "superstep g ctx config (step + 1) s (uniqueNodes pend) w1 = (Inr (s1, nx), w2)"
      "end_superstep g ctx config (step + 1) (length (uniqueNodes pend)) s1 nx w2 = (r, w3)" "gw_saved w2 = gw_saved w" for s1 nx r w1 w2 w3
  proof -
    have "frontier g nx" using yieldsD [OF superstep_frontier that(1)] by simp
    then have "checkpoint_ok g config (step + Suc rem) (checkpoint_id config (step + 1), \<lparr>cp_state = cg_clone g s1, cp_step = int (step + 1), cp_pending = nx\<rparr>)"
      unfolding checkpoint_ok_def by (auto intro!: exI [of _ "step + 1"])
    with end_superstep_saved [OF that(2)] that(3) Suc.prems(2) show ?thesis by auto
  qed
  from Suc.prems(1) show ?case
  proof (cases rule: drive_loop_turn)
    case stop with Suc.prems(2) show ?thesis by simp
  next
    case ended with new show ?thesis by blast
  next
    case (more rem' s1 nx w1 w2 w3)
    with Suc.IH [OF _ , of "step + 1" s1 nx w3] new [OF more(4,5,6)] show ?thesis by simp
  qed
qed

end
