(* ===== verification/Graph_Replay.thy ===== *)
theory Graph_Replay
  imports Graph_Resume
begin

section \<open>Resuming is continuing\<close>

text \<open>
  For a graph whose functions answer the same at all times, in a context that is never
  cancelled. \<open>indep\<close>: the answer of a step depends on nothing in the world, and it leaves the
  budget alone. \<open>robust\<close>: with more budget a step that succeeded succeeds with the same answer.
\<close>

definition indep :: "('s graph_world, 'a) eff \<Rightarrow> bool" where
  "indep m \<longleftrightarrow> (\<forall>w1 w2. fst (m w1) = fst (m w2) \<and> gw_budget (snd (m w1)) = gw_budget w1)"

definition robust :: "('s graph_world, 'a) eff \<Rightarrow> bool" where
  "robust m \<longleftrightarrow> (\<forall>w1 w2 x w1'. m w1 = (Inr x, w1') \<longrightarrow> gw_budget w1 \<le> gw_budget w2 \<longrightarrow>
     (\<exists>w2'. m w2 = (Inr x, w2') \<and> gw_budget w1' \<le> gw_budget w2'))"

lemma robustD: "robust m \<Longrightarrow> m w1 = (Inr x, w1') \<Longrightarrow> gw_budget w1 \<le> gw_budget w2 \<Longrightarrow>
    \<exists>w2'. m w2 = (Inr x, w2') \<and> gw_budget w1' \<le> gw_budget w2'"
  by (auto simp: robust_def)

lemma indep_robust: "indep m \<Longrightarrow> robust m"
  unfolding indep_def robust_def by (metis fst_conv snd_conv surj_pair)

lemma indep_pure: "indep (gret x)" "indep (gfail e)" "indep (gcheck err)"
  by (auto simp: indep_def gcheck_apply)

lemma indep_bind:
  assumes "indep m" "\<And>x. indep (f x)"
  shows "indep (gbind m f)"
  unfolding indep_def
proof (intro allI)
  fix w1 w2
  obtain r w1' where 1: "m w1 = (r, w1')" by fastforce
  obtain r2 w2' where 2: "m w2 = (r2, w2')" by fastforce
  from assms(1) 1 2 have r: "r2 = r" "gw_budget w1' = gw_budget w1" unfolding indep_def by (metis fst_conv snd_conv)+
  show "fst (gbind m f w1) = fst (gbind m f w2) \<and> gw_budget (snd (gbind m f w1)) = gw_budget w1"
    using assms(2) r by (cases r) (auto simp: gbind_def 1 2 indep_def)
qed

lemma indep_try: "indep m \<Longrightarrow> indep (gtry m)"
  by (auto simp: indep_def gtry_def case_prod_unfold)

lemma indep_map: "(\<And>x. indep (f x)) \<Longrightarrow> indep (gmap f xs)"
  by (induction xs) (auto intro!: indep_pure indep_bind)

lemma robust_bind:
  assumes "robust m" "\<And>x. robust (f x)"
  shows "robust (gbind m f)"
  unfolding robust_def gbind_Inr
  using robustD [OF assms(1)] robustD [OF assms(2)] by meson

lemma indep_ops: "indep (ctx_check (\<lambda>_. None))" "indep (join_ctx (\<lambda>_. None) err)" "indep (emit e)"
  "indep (clone_state g (\<lambda>_. None) s)"
  by (auto simp: indep_def ctx_check_def ctx_err_def join_ctx_def emit_def clone_state_def gbind_def tick_def gcheck_apply
      split: option.split)

lemma indep_callback: "(\<And>t t'. f t = f t') \<Longrightarrow> indep (callback f)"
  by (auto simp: indep_def callback_def tick_def)

text \<open>The caller's functions do not depend on the time of the call.\<close>

definition timeless :: "'s compiled_graph \<Rightarrow> bool" where
  "timeless g \<longleftrightarrow>
     (\<forall>name f. cg_nodes g name = Some f \<longrightarrow> (\<forall>t t' s. f t s = f t' s)) \<and>
     (\<forall>e \<in> set (cg_edges g). \<forall>r. edge_router e = Some r \<longrightarrow> (\<forall>t t' s. r t s = r t' s)) \<and>
     (\<forall>m. cg_merge g = Some m \<longrightarrow> (\<forall>t t' s us. m t s us = m t' s us))"

lemma node_indep: "timeless g \<Longrightarrow> cg_nodes g name = Some f \<Longrightarrow> indep (callback (\<lambda>t. f t s))"
  by (rule indep_callback) (simp add: timeless_def)

lemma router_indep: "timeless g \<Longrightarrow> e \<in> set (cg_edges g) \<Longrightarrow> edge_router e = Some r \<Longrightarrow> indep (callback (\<lambda>t. r t s))"
  by (rule indep_callback) (simp add: timeless_def)

lemma merge_indep: "timeless g \<Longrightarrow> cg_merge g = Some m \<Longrightarrow> indep (callback (\<lambda>t. m t s us))"
  by (rule indep_callback) (simp add: timeless_def)

lemma call_node_indep: "timeless g \<Longrightarrow> indep (call_node g name s)"
  unfolding call_node_def
  by (auto split: option.split intro!: indep_pure indep_bind dest: node_indep) (simp add: indep_def)

lemma invoke_node_indep: "timeless g \<Longrightarrow> indep (invoke_node g (\<lambda>_. None) retry name s left)"
proof (induction left)
  case 0
  then show ?case
    by (subst invoke_node.simps)
      (auto split: sum.split prod.split intro!: indep_pure indep_bind indep_try indep_ops call_node_indep)
next
  case (Suc left)
  then show ?case
    by (subst invoke_node.simps)
      (auto simp: retry_wait_def split: sum.split prod.split if_split
        intro!: indep_pure indep_bind indep_try indep_ops call_node_indep)
qed

lemma run_tasks_indep: "timeless g \<Longrightarrow> indep (run_tasks g (\<lambda>_. None) retry step ts)"
  unfolding run_tasks_def run_task_def
  by (auto intro!: indep_pure indep_bind indep_try indep_map indep_ops invoke_node_indep)

lemma admit_robust: "timeless g \<Longrightarrow> robust (admit_and_run g (\<lambda>_. None) retry step ts)"
proof -
  assume g: "timeless g"
  have run: "indep (case find (\<lambda>t. cg_nodes g (to_node t) = None) ts of
         Some t \<Rightarrow> gfail (ErrNew (''graph node not registered: '' @ to_node t))
       | None \<Rightarrow> run_tasks g (\<lambda>_. None) retry step ts)" (is "indep ?run")
    using g by (auto split: option.split intro: indep_pure run_tasks_indep)
  show ?thesis
    unfolding robust_def
  proof (intro allI impI)
    fix w1 w2 :: "'a graph_world" and x w1'
    let ?w1 = "w1\<lparr>gw_budget := gw_budget w1 - int (length ts)\<rparr>" and ?w2 = "w2\<lparr>gw_budget := gw_budget w2 - int (length ts)\<rparr>"
    assume "admit_and_run g (\<lambda>_. None) retry step ts w1 = (Inr x, w1')" and le: "gw_budget w1 \<le> gw_budget w2"
    then have 1: "int (length ts) \<le> gw_budget w1" "?run ?w1 = (Inr x, w1')"
      by (auto simp: admit_and_run_def gbind_Inr split: if_splits)
    with robustD [OF indep_robust [OF run], of ?w1 x w1' ?w2] le obtain w2' where
      2: "?run ?w2 = (Inr x, w2')" "gw_budget w1' \<le> gw_budget w2'" by auto
    have "admit_and_run g (\<lambda>_. None) retry step ts w2 = ?run ?w2"
      using 1 le by (simp add: admit_and_run_def gbind_def)
    with 2 show "\<exists>w2'. admit_and_run g (\<lambda>_. None) retry step ts w2 = (Inr x, w2') \<and> gw_budget w1' \<le> gw_budget w2'" by simp
  qed
qed

lemma collect_indep: "indep (collect g (\<lambda>_. None) step ts rs)"
  unfolding collect_def collect_one_def copy_send_def
  by (auto split: node_result.split intro!: indep_pure indep_bind indep_map indep_ops)

lemma merge_updates_indep: "timeless g \<Longrightarrow> indep (merge_updates g (\<lambda>_. None) b n us)"
  unfolding merge_updates_def
  by (auto split: option.split prod.split if_split intro!: indep_pure indep_bind indep_ops dest: merge_indep)

lemma resolve_edges_indep:
  "timeless g \<Longrightarrow> set es \<subseteq> set (cg_edges g) \<Longrightarrow> indep (resolve_edges g (\<lambda>_. None) from s es)"
  by (induction es)
    (auto split: option.split prod.split if_split intro!: indep_pure indep_bind indep_ops dest: router_indep)

lemma route_indep: "timeless g \<Longrightarrow> indep (route g (\<lambda>_. None) own s ts rs)"
  unfolding route_def route_one_def resolve_def
  by (auto split: node_result.split intro!: indep_pure indep_bind indep_map indep_ops resolve_edges_indep)

lemma execute_robust: "timeless g \<Longrightarrow> robust (execute_tasks g (\<lambda>_. None) retry step levels dynamic base ts)"
proof (induction levels arbitrary: dynamic base ts)
  case 0
  show ?case unfolding execute_tasks.simps by (intro indep_robust indep_bind indep_ops indep_pure)
next
  case (Suc levels)
  note r = robust_bind admit_robust indep_robust [OF collect_indep] indep_robust [OF merge_updates_indep]
    indep_robust [OF route_indep] indep_robust [OF indep_ops(1)] indep_robust [OF indep_ops(4)] indep_robust [OF indep_pure(1)]
  show ?case
    unfolding execute_tasks.simps
    using Suc by (auto split: prod.split if_split intro!: r)
qed

lemma superstep_robust: "timeless g \<Longrightarrow> robust (superstep g (\<lambda>_. None) config step s cur)"
proof -
  assume g: "timeless g"
  let ?ex = "\<lambda>ts. execute_tasks g (\<lambda>_. None) (ic_retry config) step (nat (ic_max_send_depth config) + 1) False s ts"
  let ?f = "\<lambda>r. case r of Inl e \<Rightarrow> gbind (join_ctx (\<lambda>_. None) (Some e)) (\<lambda>_. gfail e)
     | Inr x \<Rightarrow> gbind (join_ctx (\<lambda>_. None) None) (\<lambda>_. gret x)"
  have "robust (gbind (gtry (?ex ts)) ?f)" for ts
    unfolding robust_def
  proof (intro allI impI)
    fix w1 w2 :: "'a graph_world" and x w1'
    assume "gbind (gtry (?ex ts)) ?f w1 = (Inr x, w1')" and le: "gw_budget w1 \<le> gw_budget w2"
    then obtain v where 1: "?ex ts w1 = (Inr x, v)" and t: "w1' = tick v"
      by (auto simp: gbind_Inr gtry_def join_ctx_def ctx_err_def split: prod.splits sum.splits)
    from robustD [OF execute_robust [OF g] 1 le] obtain v2 where 2: "?ex ts w2 = (Inr x, v2)" "gw_budget v \<le> gw_budget v2" by blast
    have "gbind (gtry (?ex ts)) ?f w2 = (Inr x, tick v2)"
      using 2(1) by (simp add: gbind_def gtry_def join_ctx_def ctx_err_def gcheck_apply gret_apply joinCancellation_def)
    with 2(2) show "\<exists>w2'. gbind (gtry (?ex ts)) ?f w2 = (Inr x, w2') \<and> gw_budget w1' \<le> gw_budget w2'"
      by (auto simp: t tick_def)
  qed
  note rest = this
  have "robust (gmap (\<lambda>name. gbind (clone_state g (\<lambda>_. None) s) (\<lambda>owned. gret \<lparr>to_node = name, to_state = owned\<rparr>)) cur)"
    by (intro indep_robust indep_map indep_bind indep_ops indep_pure)
  then show ?thesis
    unfolding superstep_def by (intro robust_bind indep_robust [OF indep_ops(3)] rest)
qed

lemma end_superstep_ok:
  assumes "ic_checkpoint config = Some sv" "\<forall>t i cp. sv_save sv t i cp = None"
  shows "indep (end_superstep g (\<lambda>_. None) config step n s nx)"
    and "\<exists>w'. end_superstep g (\<lambda>_. None) config step n s nx w = (Inr (), w')"
proof -
  have "indep (save_checkpoint sv i cp)" for i cp
    using assms(2) by (simp add: save_checkpoint_def indep_def callback_def gbind_def tick_def)
  then show "indep (end_superstep g (\<lambda>_. None) config step n s nx)"
    unfolding end_superstep_def assms(1)
    by (auto split: sum.split intro!: indep_bind indep_ops indep_pure indep_try)
  show "\<exists>w'. end_superstep g (\<lambda>_. None) config step n s nx w = (Inr (), w')"
    using assms
    by (simp add: end_superstep_def save_checkpoint_def callback_def gbind_def tick_def emit_def ctx_check_def ctx_err_def
        clone_state_def gtry_def join_ctx_def gcheck_apply gret_apply joinCancellation_def)
qed

lemma end_superstep_budget:
  assumes "ic_checkpoint config = Some sv" "\<forall>t i cp. sv_save sv t i cp = None"
    "end_superstep g (\<lambda>_. None) config step n s nx w = (r, w')"
  shows "r = Inr ()" "gw_budget w' = gw_budget w"
  using end_superstep_ok [OF assms(1,2), of g step n s nx] assms(3) unfolding indep_def by (metis fst_conv snd_conv)+

lemma loop_robust:
  assumes "timeless g" "ic_checkpoint config = Some sv" "\<forall>t i cp. sv_save sv t i cp = None"
  shows "drive_loop g (\<lambda>_. None) config rem step s pend w = ((s', None), w') \<Longrightarrow> gw_budget w \<le> gw_budget w2 \<Longrightarrow>
    \<exists>w2'. drive_loop g (\<lambda>_. None) config rem step s pend w2 = ((s', None), w2')"
proof (induction rem arbitrary: step s pend w w2)
  case (0 step s pend w w2)
  from "0.prems"(1) show ?case
    by (cases rule: drive_loop_turn)
      (simp_all add: drive_loop.simps [of _ _ _ 0] ctx_check_def ctx_err_def emit_def gbind_def gcheck_apply Let_def)
next
  case (Suc rem step s pend w w2)
  have check: "ctx_check (\<lambda>_. None) w = (Inr (), tick w)" for w :: "'a graph_world"
    by (simp add: ctx_check_def ctx_err_def gbind_def gcheck_apply)
  from Suc.prems(1) show ?case
  proof (cases rule: drive_loop_turn)
    case stop
    then show ?thesis
      by (simp add: drive_loop.simps [of _ _ _ "Suc rem"] check gbind_emit Let_def)
  next
    case ended
    then show ?thesis by simp
  next
    case (more rem' s1 nx w1 w3 w4)
    let ?cur = "uniqueNodes pend"
    have "w1 = tick w" using more(3) check [of w] by simp
    then have "gw_budget w1 \<le> gw_budget (tick w2)" using Suc.prems(2) by (simp add: tick_def)
    from robustD [OF superstep_robust [OF assms(1)] more(4) this] obtain v where
      v: "superstep g (\<lambda>_. None) config (step + 1) s ?cur (tick w2) = (Inr (s1, nx), v)" "gw_budget w3 \<le> gw_budget v" by blast
    obtain u where u: "end_superstep g (\<lambda>_. None) config (step + 1) (length ?cur) s1 nx v = (Inr (), u)"
      using end_superstep_ok(2) [OF assms(2,3)] by blast
    from more have rest: "drive_loop g (\<lambda>_. None) config rem (step + 1) s1 nx w4 = ((s', None), w')" by simp
    have "gw_budget w4 \<le> gw_budget u"
      using end_superstep_budget(2) [OF assms(2,3) more(5)] end_superstep_budget(2) [OF assms(2,3) u] v(2) by simp
    from Suc.IH [OF rest this] obtain w2' where "drive_loop g (\<lambda>_. None) config rem (step + 1) s1 nx u = ((s', None), w2')" by blast
    moreover have "drive_loop g (\<lambda>_. None) config (Suc rem) step s pend w2 = drive_loop g (\<lambda>_. None) config rem (step + 1) s1 nx u"
      unfolding drive_loop.simps [of _ _ _ "Suc rem" _ _ _ w2]
      using more(2) by (simp only: check v u Let_def prod.case sum.case nat.case if_False)
    ultimately show ?thesis by simp
  qed
qed

lemma replay:
  assumes "timeless g" "ic_checkpoint config = Some sv" "\<forall>t i cp. sv_save sv t i cp = None" "cg_clone g = (\<lambda>s. s)"
  shows "drive_loop g (\<lambda>_. None) config rem step s pend w = ((s', None), w') \<Longrightarrow>
    (ident, cp) \<in> set (gw_saved w') \<Longrightarrow> (ident, cp) \<notin> set (gw_saved w) \<Longrightarrow>
    \<exists>n. cp_step cp = int n \<and> n \<le> step + rem \<and>
      (\<forall>w2. gw_budget w \<le> gw_budget w2 \<longrightarrow>
         (\<exists>w2'. drive_loop g (\<lambda>_. None) config (step + rem - n) n (cp_state cp) (cp_pending cp) w2 = ((s', None), w2')))"
proof (induction rem arbitrary: step s pend w)
  case (0 step s pend w)
  from "0.prems"(1) show ?case by (cases rule: drive_loop_turn) (use "0.prems" in simp_all)
next
  case (Suc rem step s pend w)
  from Suc.prems(1) show ?case
  proof (cases rule: drive_loop_turn)
    case stop
    with Suc.prems show ?thesis by simp
  next
    case ended
    then show ?thesis by simp
  next
    case (more rem' s1 nx w1 w2 w3)
    have "gw_budget w3 = gw_budget w2" by (rule end_superstep_budget [OF assms(2,3) more(5)])
    also have "\<dots> \<le> gw_budget w1"
      using superstep_spends [THEN stepsD, OF more(4)] by (simp add: spends_def)
    also have "\<dots> = gw_budget w"
      using ctx_check_quiet(1) [THEN stepsD, OF more(3)] by (simp add: same_cost_def)
    finally have le: "gw_budget w3 \<le> gw_budget w" .
    from more have rest: "drive_loop g (\<lambda>_. None) config rem (step + 1) s1 nx w3 = ((s', None), w')" by simp
    show ?thesis
    proof (cases "(ident, cp) \<in> set (gw_saved w3)")
      case True
      with end_superstep_saved [OF more(5)] more(6) Suc.prems(3)
      have "cp = \<lparr>cp_state = s1, cp_step = int (step + 1), cp_pending = nx\<rparr>" by (auto simp: assms(4))
      moreover have "\<exists>w2'. drive_loop g (\<lambda>_. None) config rem (step + 1) s1 nx v = ((s', None), w2')" if "gw_budget w \<le> gw_budget v" for v
        using loop_robust [OF assms(1-3) rest, of v] that le by simp
      ultimately show ?thesis by (auto intro!: exI [of _ "step + 1"])
    next
      case False
      from Suc.IH [OF rest Suc.prems(2) False] le show ?thesis by fastforce
    qed
  qed
qed

text \<open>
  C35. Resuming is continuing. For a graph of functions that do not depend on when they are
  called, run with a saver that accepts every checkpoint: if a run finishes with a state, then
  resuming from any checkpoint it saved - in any later world - finishes with the same state and
  no error, even though the resumed run starts with a fresh task budget.
\<close>

theorem resume_continues_the_run:
  assumes "timeless g" "cg_clone g = (\<lambda>s. s)"
    and "ic_checkpoint config = Some sv" "\<forall>t i cp. sv_save sv t i cp = None"
    and "gw_saved w = []" "InvokeWithConfig g (\<lambda>_. None) input config w = ((s', None), w')"
    and "(ident, cp) \<in> set (gw_saved w')" "\<forall>t. sv_load sv t ident = (Some cp, None)"
  shows "fst (Resume zero g (\<lambda>_. None) ident config v) = (s', None)"
proof -
  let ?c = "with_defaults config" and ?m = "nat (ic_max_steps (with_defaults config))"
  let ?reset = "\<lambda>w. w\<lparr>gw_budget := ic_max_tasks ?c\<rparr>"
  have c: "ic_checkpoint ?c = Some sv" using assms(3) by (simp add: with_defaults_def)
  have clone: "clone_state g (\<lambda>_. None) s w = (Inr s, tick (tick w))" for s and w :: "'a graph_world"
    by (simp add: clone_state_def ctx_check_def ctx_err_def gbind_def gcheck_apply assms(2))
  let ?w = "?reset (tick (tick w))"
  have par: "\<not> ic_max_parallel ?c > 256"
    using assms(6) by (auto simp: InvokeWithConfig_def clone drive_def Let_def)
  then have run: "drive_loop g (\<lambda>_. None) ?c ?m 0 input [cg_entry g] ?w = ((s', None), w')"
    using assms(6) by (simp add: InvokeWithConfig_def clone drive_def Let_def)
  have "(ident, cp) \<notin> set (gw_saved ?w)" using assms(5) by (simp add: tick_def)
  from replay [OF assms(1) c assms(4,2) run assms(7) this] obtain n where
    n: "cp_step cp = int n" "n \<le> ?m"
    and again: "\<And>w2. gw_budget ?w \<le> gw_budget w2 \<Longrightarrow>
       \<exists>w2'. drive_loop g (\<lambda>_. None) ?c (?m - n) n (cp_state cp) (cp_pending cp) w2 = ((s', None), w2')" by auto
  obtain v' where v': "resume_point g (\<lambda>_. None) ident config v = (Inr cp, v')"
    using n assms(3,8)
    by (simp add: resume_point_def gbind_def ctx_check_def ctx_err_def callback_def join_ctx_def gcheck_apply
        joinCancellation_def clone gret_apply)
  have "nat (ic_max_steps ?c - int n) = ?m - n" by simp
  with again [of "?reset v'"] n(1) par v' show ?thesis
    by (auto simp: Resume_def drive_def Let_def)
qed

subsection \<open>Witnesses\<close>

text \<open>Two nodes in a row that add to the state, with a saver that remembers the first checkpoint.\<close>

definition add_graph :: "nat compiled_graph" where
  "add_graph = \<lparr>cg_nodes = [''a'' \<mapsto> \<lambda>t s. (ResultUpdate (s + 1), None), ''b'' \<mapsto> \<lambda>t s. (ResultUpdate (s + 10), None)],
     cg_edges = [\<lparr>edge_from = ''a'', edge_to = ''b'', edge_router = None\<rparr>], cg_entry = ''a'', cg_clone = \<lambda>s. s, cg_merge = None\<rparr>"

definition first_checkpoint :: "nat checkpoint" where
  "first_checkpoint = \<lparr>cp_state = 1, cp_step = 1, cp_pending = [''b'']\<rparr>"

definition saver :: "nat checkpoint_saver" where
  "saver = \<lparr>sv_save = \<lambda>t i cp. None, sv_load = \<lambda>t i. (if i = ''run-step-1'' then Some first_checkpoint else None, None)\<rparr>"

definition add_config :: "nat invoke_config" where
  "add_config = \<lparr>ic_checkpoint = Some saver, ic_checkpoint_id = ''run'', ic_max_steps = 3, ic_max_parallel = 0,
     ic_max_send_depth = 1, ic_max_tasks = 5, ic_retry = None\<rparr>"

definition new_world :: "nat graph_world" where
  "new_world = \<lparr>gw_clock = 0, gw_events = [], gw_budget = 0, gw_calls = 0, gw_saved = []\<rparr>"

lemma add_run: "fst (InvokeWithConfig add_graph (\<lambda>_. None) 0 add_config new_world) = (11, None)" by code_simp

lemma add_saved:
  "gw_saved (snd (InvokeWithConfig add_graph (\<lambda>_. None) 0 add_config new_world)) =
     [(''run-step-1'', first_checkpoint), (''run-step-2'', \<lparr>cp_state = 11, cp_step = 2, cp_pending = []\<rparr>)]" by code_simp

theorem resume_continues_the_run_witness:
  "fst (Resume 0 add_graph (\<lambda>_. None) ''run-step-1'' add_config new_world) = (11, None)"
proof -
  obtain w' where run: "InvokeWithConfig add_graph (\<lambda>_. None) 0 add_config new_world = ((11, None), w')"
    using add_run by (metis prod.collapse)
  have "timeless add_graph" by (auto simp: timeless_def add_graph_def)
  moreover have "cg_clone add_graph = (\<lambda>s. s)" by (simp add: add_graph_def)
  moreover have "ic_checkpoint add_config = Some saver" by (simp add: add_config_def)
  moreover have "\<forall>t i cp. sv_save saver t i cp = None" "\<forall>t. sv_load saver t ''run-step-1'' = (Some first_checkpoint, None)"
    by (simp_all add: saver_def)
  moreover have "gw_saved new_world = []" by (simp add: new_world_def)
  moreover have "(''run-step-1'', first_checkpoint) \<in> set (gw_saved w')" using add_saved by (simp add: run)
  ultimately show ?thesis using run by (intro resume_continues_the_run)
qed

text \<open>
  Every checkpoint a run saves can be resumed: it is named after its step, its step number
  lies between 1 and MaxSteps, and its pending frontier is sorted, without repetition and
  without the end node, and names registered nodes only - also under cancellation and when
  routers and sends misbehave.
\<close>

theorem checkpoints_are_resumable:
  assumes "gw_saved w = []"
  shows "\<forall>(ident, cp) \<in> set (gw_saved (snd (InvokeWithConfig g ctx input config w))).
    \<exists>n. 0 < n \<and> int n \<le> ic_max_steps (with_defaults config) \<and> cp_step cp = int n \<and>
      ident = checkpoint_id (with_defaults config) n \<and>
      sorted (cp_pending cp) \<and> distinct (cp_pending cp) \<and> End \<notin> set (cp_pending cp) \<and>
      (\<forall>p \<in> set (cp_pending cp). cg_nodes g p \<noteq> None)"
proof -
  let ?c = "with_defaults config"
  obtain r w1 where 1: "clone_state g ctx input w = (r, w1)" by fastforce
  have s1: "gw_saved w1 = []" using unsaved2(3) [THEN stepsD, OF 1] assms by (simp add: same_saved_def)
  let ?w = "w1\<lparr>gw_budget := ic_max_tasks ?c\<rparr>"
  obtain s' e w' where run: "drive_loop g ctx ?c (nat (ic_max_steps ?c)) 0 (projr r) [cg_entry g] ?w = ((s', e), w')"
    by (metis surj_pair)
  from drive_loop_saved [OF this] s1 have ok: "\<forall>x \<in> set (gw_saved w'). checkpoint_ok g ?c (nat (ic_max_steps ?c)) x" by simp
  have "gw_saved (snd (InvokeWithConfig g ctx input config w)) = [] \<or>
      gw_saved (snd (InvokeWithConfig g ctx input config w)) = gw_saved w'"
    using 1 s1 run by (cases r) (auto simp: InvokeWithConfig_def drive_def Let_def)
  moreover have "0 < ic_max_steps ?c" by (simp add: with_defaults_def)
  ultimately show ?thesis using ok by (fastforce simp: checkpoint_ok_def frontier_def)
qed

theorem checkpoints_are_resumable_witness:
  "sorted (cp_pending first_checkpoint) \<and> cg_nodes add_graph ''b'' \<noteq> None \<and>
   (\<exists>n. 0 < n \<and> int n \<le> 3 \<and> cp_step first_checkpoint = int n)"
proof -
  have "gw_saved new_world = []" by (simp add: new_world_def)
  from checkpoints_are_resumable [OF this, of add_graph "\<lambda>_. None" 0 add_config] show ?thesis
    unfolding add_saved by (simp add: with_defaults_def add_config_def) (auto simp: first_checkpoint_def)
qed

end
