(* ===== verification/Context_Window.thy ===== *)
theory Context_Window
  imports Wire
begin

section \<open>Cutting a conversation without splitting tool protocol groups\<close>

text \<open>
  sdk/agent/context/apply.go: \<open>safeWindowCut\<close>, \<open>safeRange\<close>, \<open>retainProtocolGroups\<close> and
  \<open>repairToolPairs\<close>. The loops over messages and blocks are loops over the tool calls and tool
  results in that order (\<open>tool_refs\<close>), each with the index of its message.
\<close>

datatype tool_ref = CallRef string | ResultRef string

definition block_refs :: "content_block \<Rightarrow> tool_ref list" where
  "block_refs b =
     (case cb_tool_call b of None \<Rightarrow> [] | Some c \<Rightarrow> [CallRef (tc_id c)]) @
     (case cb_tool_result b of None \<Rightarrow> [] | Some r \<Rightarrow> [ResultRef (tr_call_id r)])"

fun tool_refs :: "nat \<Rightarrow> message list \<Rightarrow> (nat \<times> tool_ref) list" where
  "tool_refs i [] = []"
| "tool_refs i (m # ms) = map (\<lambda>r. (i, r)) (concat (map block_refs (m_content m))) @ tool_refs (i + 1) ms"

text \<open>Each result with the message of the latest call of its identity before it.\<close>

fun result_pairs :: "(nat \<times> tool_ref) list \<Rightarrow> (string \<Rightarrow> nat option) \<Rightarrow> (nat \<times> nat) list" where
  "result_pairs [] calls = []"
| "result_pairs ((i, CallRef c) # rs) calls = result_pairs rs (calls(c \<mapsto> i))"
| "result_pairs ((i, ResultRef c) # rs) calls =
     (case calls c of None \<Rightarrow> result_pairs rs calls | Some parent \<Rightarrow> (i, parent) # result_pairs rs calls)"

definition protocol_pairs :: "message list \<Rightarrow> (nat \<times> nat) list" where
  "protocol_pairs ms = result_pairs (tool_refs 0 ms) Map.empty"

text \<open>One round of \<open>safeWindowCut\<close>, and the rounds until nothing changes.\<close>

fun cut_pass :: "nat \<Rightarrow> (nat \<times> nat) list \<Rightarrow> nat \<Rightarrow> nat" where
  "cut_pass bound [] nxt = nxt"
| "cut_pass bound ((i, parent) # ps) nxt = cut_pass bound ps (if i \<ge> bound \<and> parent < nxt then parent else nxt)"

lemma cut_pass_le: "cut_pass bound ps nxt \<le> nxt"
  by (induction bound ps nxt rule: cut_pass.induct) (auto intro: le_trans)

function cut_loop :: "(nat \<times> nat) list \<Rightarrow> nat \<Rightarrow> nat" where
  "cut_loop ps bound = (let nxt = cut_pass bound ps bound in if nxt = bound then bound else cut_loop ps nxt)"
  by pat_completeness auto
termination
proof (relation "measure snd", goal_cases)
  case (2 ps bound nxt)
  then show ?case using cut_pass_le [of bound ps bound] by simp
qed simp

declare cut_loop.simps [simp del]

definition safeWindowCut :: "message list \<Rightarrow> int \<Rightarrow> nat" where
  "safeWindowCut messages keep =
     (let bound = int (length messages) - (if keep < 0 then 0 else keep)
      in if bound < 0 then 0 else cut_loop (protocol_pairs messages) (nat bound))"

definition SafeWindow :: "message list \<Rightarrow> int \<Rightarrow> message list" where
  "SafeWindow messages keep = drop (safeWindowCut messages keep) messages"

text \<open>\<open>safeRange\<close>: the range grows while it is scanned.\<close>

fun range_pass :: "(nat \<times> nat) list \<Rightarrow> nat \<times> nat \<Rightarrow> nat \<times> nat" where
  "range_pass [] ft = ft"
| "range_pass ((i, parent) # ps) (f, t) =
     (let f = (if i \<ge> f \<and> i < t \<and> parent < f then parent else f);
          t = (if parent \<ge> f \<and> parent < t \<and> i \<ge> t then i + 1 else t)
      in range_pass ps (f, t))"

definition last_index :: "(nat \<times> nat) list \<Rightarrow> nat" where
  "last_index ps = foldr max (map fst ps) 0"

lemma last_index: "(i, p) \<in> set ps \<Longrightarrow> i \<le> last_index ps"
  by (induction ps) (auto simp: last_index_def)

lemma range_pass_grows:
  assumes "range_pass ps (f, t) = (f', t')" "\<forall>(i, p) \<in> set ps. i \<le> n"
  shows "f' \<le> f \<and> t \<le> t' \<and> (t' = t \<or> t' \<le> n + 1)"
  using assms
proof (induction ps arbitrary: f t)
  case (Cons ip ps)
  obtain i p where ip: "ip = (i, p)" by fastforce
  let ?f = "if i \<ge> f \<and> i < t \<and> p < f then p else f"
  let ?t = "if p \<ge> ?f \<and> p < t \<and> i \<ge> t then i + 1 else t"
  have "range_pass ps (?f, ?t) = (f', t')" using Cons.prems(1) by (simp add: ip Let_def)
  from Cons.IH [OF this] Cons.prems(2) ip have "f' \<le> ?f \<and> ?t \<le> t' \<and> (t' = ?t \<or> t' \<le> n + 1)" "i \<le> n" by auto
  then show ?case by (auto split: if_splits)
qed simp

function range_loop :: "(nat \<times> nat) list \<Rightarrow> nat \<times> nat \<Rightarrow> nat \<times> nat" where
  "range_loop ps ft = (let ft' = range_pass ps ft in if ft' = ft then ft else range_loop ps ft')"
  by pat_completeness auto
termination
proof (relation "measure (\<lambda>(ps, f, t). f + (last_index ps + 1 - t))", goal_cases)
  case (2 ps ft ft')
  obtain f t where ft: "ft = (f, t)" by fastforce
  obtain f' t' where ft': "range_pass ps (f, t) = (f', t')" by fastforce
  have "\<forall>(i, p) \<in> set ps. i \<le> last_index ps" using last_index by auto
  from range_pass_grows [OF ft' this] 2 show ?case by (auto simp: ft ft')
qed simp

declare range_loop.simps [simp del]

definition safeRange :: "message list \<Rightarrow> nat \<Rightarrow> nat \<Rightarrow> nat \<times> nat" where
  "safeRange messages f t = range_loop (protocol_pairs messages) (f, t)"

text \<open>
  \<open>retainProtocolGroups\<close>: the groups are the messages that mention one call identity. The code
  ranges over a map of groups, in an order that may differ in each round: \<open>order k\<close> lists the
  groups as round k meets them.
\<close>

definition group_of :: "message list \<Rightarrow> string \<Rightarrow> nat list" where
  "group_of messages c = map fst (filter (\<lambda>(i, r). r = CallRef c \<or> r = ResultRef c) (tool_refs 0 messages))"

definition ref_id :: "tool_ref \<Rightarrow> string" where
  "ref_id r = (case r of CallRef c \<Rightarrow> c | ResultRef c \<Rightarrow> c)"

definition groups :: "message list \<Rightarrow> nat list list" where
  "groups messages = map (group_of messages) (remdups (map (ref_id \<circ> snd) (tool_refs 0 messages)))"

fun set_all :: "nat list \<Rightarrow> bool list \<Rightarrow> bool list" where
  "set_all [] keep = keep"
| "set_all (i # is) keep = set_all is (keep[i := True])"

definition retain_group :: "bool list \<Rightarrow> nat list \<Rightarrow> bool list" where
  "retain_group keep grp = (if list_ex (\<lambda>i. keep ! i) grp then set_all grp keep else keep)"

lemma set_all_length [simp]: "length (set_all is keep) = length keep"
  by (induction "is" keep rule: set_all.induct) auto

lemma set_all_nth: "\<forall>i \<in> set is. i < length keep \<Longrightarrow> j < length keep \<Longrightarrow> set_all is keep ! j \<longleftrightarrow> keep ! j \<or> j \<in> set is"
  by (induction "is" keep rule: set_all.induct) (auto simp: nth_list_update)

text \<open>Rounds while something changes. \<open>retainProtocolGroups\<close> starts with as many rounds as messages, plus one.\<close>

fun retain_rounds :: "nat \<Rightarrow> (nat \<Rightarrow> nat list list) \<Rightarrow> nat \<Rightarrow> bool list \<Rightarrow> bool list option" where
  "retain_rounds 0 order k keep = None"
| "retain_rounds (Suc rounds) order k keep =
     (let keep' = foldl retain_group keep (order k) in
      if keep' = keep then Some keep else retain_rounds rounds order (k + 1) keep')"

fun select :: "bool list \<Rightarrow> 'a list \<Rightarrow> 'a list" where
  "select (b # bs) (x # xs) = (if b then x # select bs xs else select bs xs)"
| "select bs xs = []"

definition retainProtocolGroups :: "(nat \<Rightarrow> nat list list) \<Rightarrow> message list \<Rightarrow> bool list \<Rightarrow> message list option" where
  "retainProtocolGroups order messages keep =
     map_option (\<lambda>kept. select kept messages) (retain_rounds (length messages + 1) order 0 keep)"

text \<open>\<open>repairToolPairs\<close>: a block is dropped when its call or result has no counterpart.\<close>

definition all_call_ids :: "message list \<Rightarrow> string list" where
  "all_call_ids ms = List.map_filter (\<lambda>(i, r). case r of CallRef c \<Rightarrow> Some c | ResultRef _ \<Rightarrow> None) (tool_refs 0 ms)"

definition all_result_ids :: "message list \<Rightarrow> string list" where
  "all_result_ids ms = List.map_filter (\<lambda>(i, r). case r of CallRef _ \<Rightarrow> None | ResultRef c \<Rightarrow> Some c) (tool_refs 0 ms)"

definition paired_block :: "string list \<Rightarrow> string list \<Rightarrow> content_block \<Rightarrow> bool" where
  "paired_block calls results b =
     ((case cb_tool_call b of None \<Rightarrow> True | Some c \<Rightarrow> tc_id c \<in> set results) \<and>
      (case cb_tool_result b of None \<Rightarrow> True | Some r \<Rightarrow> tr_call_id r \<in> set calls))"

definition repairToolPairs :: "message list \<Rightarrow> message list" where
  "repairToolPairs ms =
     filter (\<lambda>m. m_content m \<noteq> [])
       (map (\<lambda>m. m\<lparr>m_content := filter (paired_block (all_call_ids ms) (all_result_ids ms)) (m_content m)\<rparr>) ms)"

subsection \<open>The window is the largest that splits no group\<close>

definition closed_from :: "(nat \<times> nat) list \<Rightarrow> nat \<Rightarrow> bool" where
  "closed_from ps c \<longleftrightarrow> (\<forall>(i, p) \<in> set ps. c \<le> i \<longrightarrow> c \<le> p)"

lemma cut_pass_ge: "closed_from ps c' \<Longrightarrow> c' \<le> c \<Longrightarrow> c' \<le> n \<Longrightarrow> c' \<le> cut_pass c ps n"
  by (induction c ps n rule: cut_pass.induct) (auto simp: closed_from_def)

lemma cut_pass_below: "(i, p) \<in> set ps \<Longrightarrow> c \<le> i \<Longrightarrow> cut_pass c ps n \<le> p"
proof (induction c ps n rule: cut_pass.induct)
  case (2 c j q ps n)
  show ?case
  proof (cases "(i, p) = (j, q)")
    case True
    with 2 cut_pass_le [of c ps "if j \<ge> c \<and> q < n then q else n"] show ?thesis by auto
  next
    case False
    with 2 show ?thesis by auto
  qed
qed simp

lemma cut_loop_greatest:
  "closed_from ps (cut_loop ps c) \<and> cut_loop ps c \<le> c \<and> (\<forall>c' \<le> c. closed_from ps c' \<longrightarrow> c' \<le> cut_loop ps c)"
proof (induction ps c rule: cut_loop.induct)
  case (1 ps c)
  show ?case
  proof (cases "cut_pass c ps c = c")
    case True
    have "c \<le> p" if "(i, p) \<in> set ps" "c \<le> i" for i p using cut_pass_below [OF that, of c] True by simp
    then have "closed_from ps c" by (auto simp: closed_from_def)
    with True show ?thesis by (simp add: cut_loop.simps [of ps c])
  next
    case False
    let ?n = "cut_pass c ps c"
    have eq: "cut_loop ps c = cut_loop ps ?n" using False by (subst cut_loop.simps) (simp add: Let_def)
    from 1 [OF refl False] have IH: "closed_from ps (cut_loop ps ?n)" "cut_loop ps ?n \<le> ?n"
      "\<forall>c' \<le> ?n. closed_from ps c' \<longrightarrow> c' \<le> cut_loop ps ?n" by blast+
    have "c' \<le> cut_loop ps ?n" if "c' \<le> c" "closed_from ps c'" for c'
      using IH(3) that cut_pass_ge [OF that(2,1,1)] by blast
    with IH(1,2) cut_pass_le [of c ps c] show ?thesis unfolding eq by (auto intro: le_trans)
  qed
qed

text \<open>The call a result belongs to: the latest one of its identity before it.\<close>

fun calls_after :: "(nat \<times> tool_ref) list \<Rightarrow> (string \<Rightarrow> nat option) \<Rightarrow> string \<Rightarrow> nat option" where
  "calls_after [] calls = calls"
| "calls_after ((i, CallRef c) # rs) calls = calls_after rs (calls(c \<mapsto> i))"
| "calls_after ((i, ResultRef c) # rs) calls = calls_after rs calls"

lemma calls_after_append: "calls_after (xs @ ys) calls = calls_after ys (calls_after xs calls)"
  by (induction xs calls rule: calls_after.induct) (simp_all del: fun_upd_apply)

lemma calls_after_other: "\<forall>j. (j, CallRef c) \<notin> set vs \<Longrightarrow> calls_after vs calls c = calls c"
  by (induction vs calls rule: calls_after.induct) auto

lemma result_pairs_append: "result_pairs (xs @ ys) calls = result_pairs xs calls @ result_pairs ys (calls_after xs calls)"
  by (induction xs calls rule: calls_after.induct) (simp_all del: fun_upd_apply split: option.split)

definition answers :: "message list \<Rightarrow> nat \<Rightarrow> nat \<Rightarrow> bool" where
  "answers ms i p \<longleftrightarrow> (\<exists>us c vs ys. tool_refs 0 ms = us @ (p, CallRef c) # vs @ (i, ResultRef c) # ys \<and> (\<forall>j. (j, CallRef c) \<notin> set vs))"

lemma calls_after_found: "calls_after xs calls c = Some p \<Longrightarrow> calls c \<noteq> Some p \<Longrightarrow>
   \<exists>us vs. xs = us @ (p, CallRef c) # vs \<and> (\<forall>j. (j, CallRef c) \<notin> set vs)"
proof (induction xs rule: rev_induct)
  case (snoc x xs)
  obtain i r where x: "x = (i, r)" by fastforce
  show ?case
  proof (cases "r = CallRef c")
    case True
    with snoc.prems x have "i = p" by (simp add: calls_after_append)
    with True x have "xs @ [x] = xs @ (p, CallRef c) # []" "\<forall>j. (j, CallRef c) \<notin> set []" by auto
    then show ?thesis by blast
  next
    case False
    then have "calls_after xs calls c = Some p" using snoc.prems(1) x by (cases r) (auto simp: calls_after_append split: if_splits)
    from snoc.IH [OF this snoc.prems(2)] obtain us vs where uv: "xs = us @ (p, CallRef c) # vs" "\<forall>j. (j, CallRef c) \<notin> set vs" by blast
    have "xs @ [x] = us @ (p, CallRef c) # (vs @ [x])" "\<forall>j. (j, CallRef c) \<notin> set (vs @ [x])" using uv False x by auto
    then show ?thesis by blast
  qed
qed simp

lemma protocol_pairs_answers: "(i, p) \<in> set (protocol_pairs ms) \<longleftrightarrow> answers ms i p"
proof
  assume "answers ms i p"
  then obtain us c vs ys where r: "tool_refs 0 ms = us @ (p, CallRef c) # vs @ (i, ResultRef c) # ys" "\<forall>j. (j, CallRef c) \<notin> set vs"
    by (auto simp: answers_def)
  have "calls_after (us @ (p, CallRef c) # vs) Map.empty c = Some p"
    using r(2) by (simp add: calls_after_append calls_after_other)
  moreover have "tool_refs 0 ms = (us @ (p, CallRef c) # vs) @ (i, ResultRef c) # ys" using r(1) by simp
  ultimately show "(i, p) \<in> set (protocol_pairs ms)"
    unfolding protocol_pairs_def by (simp only: result_pairs_append) simp
next
  have "\<exists>xs c ys. rs = xs @ (i, ResultRef c) # ys \<and> calls_after xs calls c = Some p" if "(i, p) \<in> set (result_pairs rs calls)" for rs calls
    using that
  proof (induction rs calls rule: result_pairs.induct)
    case (2 j c rs calls)
    then obtain xs d ys where "rs = xs @ (i, ResultRef d) # ys" "calls_after xs (calls(c \<mapsto> j)) d = Some p"
      by (auto simp del: fun_upd_apply)
    then have "(j, CallRef c) # rs = ((j, CallRef c) # xs) @ (i, ResultRef d) # ys" "calls_after ((j, CallRef c) # xs) calls d = Some p"
      by (simp_all del: fun_upd_apply)
    then show ?case by blast
  next
    case (3 j c rs calls)
    then consider "calls c = Some p" "i = j" | xs d ys where "rs = xs @ (i, ResultRef d) # ys" "calls_after xs calls d = Some p"
      by (auto split: option.splits)
    then show ?case
    proof cases
      case 1
      then have "(j, ResultRef c) # rs = [] @ (i, ResultRef c) # rs" "calls_after [] calls c = Some p" by simp_all
      then show ?thesis by blast
    next
      case 2
      then have "(j, ResultRef c) # rs = ((j, ResultRef c) # xs) @ (i, ResultRef d) # ys" "calls_after ((j, ResultRef c) # xs) calls d = Some p" by simp_all
      then show ?thesis by blast
    qed
  qed simp
  moreover assume "(i, p) \<in> set (protocol_pairs ms)"
  ultimately obtain xs c ys where xs: "tool_refs 0 ms = xs @ (i, ResultRef c) # ys" "calls_after xs Map.empty c = Some p"
    unfolding protocol_pairs_def by blast
  from calls_after_found [OF xs(2)] obtain us vs where "xs = us @ (p, CallRef c) # vs" "\<forall>j. (j, CallRef c) \<notin> set vs" by auto
  with xs(1) show "answers ms i p" by (auto simp: answers_def)
qed

text \<open>
  A sliding window never separates a tool result from its call, and is as short as that
  allows. The cut keeps at least the requested number of recent messages; no result after the
  cut answers a call before it; and every other cut with these two properties keeps more.
\<close>

theorem safe_window_is_largest_cut:
  "let c = safeWindowCut ms keep; splits = (\<lambda>c. \<exists>i p. answers ms i p \<and> c \<le> i \<and> p < c) in
     int c \<le> max 0 (int (length ms) - max 0 keep) \<and> \<not> splits c \<and> SafeWindow ms keep = drop c ms \<and>
     \<not> (\<exists>c'. c < c' \<and> int c' \<le> int (length ms) - max 0 keep \<and> \<not> splits c')"
proof -
  let ?ps = "protocol_pairs ms" and ?b = "int (length ms) - max 0 keep"
  have b: "?b = int (length ms) - (if keep < 0 then 0 else keep)" by simp
  have splits: "closed_from ?ps c \<longleftrightarrow> \<not> (\<exists>i p. answers ms i p \<and> c \<le> i \<and> p < c)" for c
    by (fastforce simp: closed_from_def protocol_pairs_answers [symmetric] not_le [symmetric])
  show ?thesis
  proof (cases "?b < 0")
    case True
    then have "safeWindowCut ms keep = 0" by (auto simp: safeWindowCut_def max_def split: if_splits)
    with True show ?thesis by (auto simp: SafeWindow_def)
  next
    case False
    then have c: "safeWindowCut ms keep = cut_loop ?ps (nat ?b)" unfolding safeWindowCut_def b [symmetric] by simp
    note g = cut_loop_greatest [of ?ps "nat ?b"]
    have "\<not> (\<exists>c'. cut_loop ?ps (nat ?b) < c' \<and> int c' \<le> ?b \<and> closed_from ?ps c')"
    proof
      assume "\<exists>c'. cut_loop ?ps (nat ?b) < c' \<and> int c' \<le> ?b \<and> closed_from ?ps c'"
      then obtain c' where "cut_loop ?ps (nat ?b) < c'" "c' \<le> nat ?b" "closed_from ?ps c'" by auto
      with g show False by fastforce
    qed
    with g False show ?thesis unfolding Let_def splits [symmetric] c SafeWindow_def by auto
  qed
qed

subsection \<open>The range is the least that splits no group\<close>

definition range_closed :: "(nat \<times> nat) list \<Rightarrow> nat \<Rightarrow> nat \<Rightarrow> bool" where
  "range_closed ps f t \<longleftrightarrow> (\<forall>(i, p) \<in> set ps. (f \<le> i \<and> i < t \<longrightarrow> f \<le> p) \<and> (f \<le> p \<and> p < t \<longrightarrow> i < t))"

lemma range_pass_within:
  "range_closed ps' f' t' \<Longrightarrow> set ps \<subseteq> set ps' \<Longrightarrow> f' \<le> f \<Longrightarrow> t \<le> t' \<Longrightarrow> range_pass ps (f, t) = (g, u) \<Longrightarrow> f' \<le> g \<and> u \<le> t'"
proof (induction ps arbitrary: f t)
  case (Cons ip ps)
  obtain i p where ip: "ip = (i, p)" by fastforce
  let ?f = "if i \<ge> f \<and> i < t \<and> p < f then p else f"
  let ?t = "if p \<ge> ?f \<and> p < t \<and> i \<ge> t then i + 1 else t"
  have step: "(f' \<le> i \<and> i < t' \<longrightarrow> f' \<le> p) \<and> (f' \<le> p \<and> p < t' \<longrightarrow> i < t')"
    using Cons.prems(1,2) ip by (auto simp: range_closed_def)
  have f: "f' \<le> ?f" using step Cons.prems(3,4) by auto
  have t: "?t \<le> t'"
  proof (cases "p \<ge> ?f \<and> p < t \<and> i \<ge> t")
    case True
    then have "f' \<le> p \<and> p < t'" using f Cons.prems(4) by linarith
    with step True show ?thesis by simp
  next
    case False
    then have "?t = t" by (rule if_not_P)
    with Cons.prems(4) show ?thesis by simp
  qed
  show ?case using Cons.IH [OF Cons.prems(1) _ f t] Cons.prems(2,5) by (simp add: ip Let_def)
qed simp

lemma range_pass_fixed:
  "range_pass ps (f, t) = (f, t) \<Longrightarrow> range_closed ps f t"
proof (induction ps)
  case (Cons ip ps)
  obtain i p where ip: "ip = (i, p)" by fastforce
  let ?f = "if i \<ge> f \<and> i < t \<and> p < f then p else f"
  let ?t = "if p \<ge> ?f \<and> p < t \<and> i \<ge> t then i + 1 else t"
  have r: "range_pass ps (?f, ?t) = (f, t)" using Cons.prems by (simp add: ip Let_def)
  have "\<forall>(i, p) \<in> set ps. i \<le> last_index ps" using last_index by auto
  from range_pass_grows [OF r this] have "f \<le> ?f" "?t \<le> t" by auto
  then have "?f = f" "?t = t" by (auto split: if_splits)
  with r Cons.IH ip \<open>f \<le> ?f\<close> \<open>?t \<le> t\<close> show ?case by (auto simp: range_closed_def split: if_splits)
qed (simp add: range_closed_def)

lemma range_loop_least:
  "range_loop ps (f, t) = (g, u) \<Longrightarrow>
   range_closed ps g u \<and> g \<le> f \<and> t \<le> u \<and> (\<forall>f' t'. range_closed ps f' t' \<and> f' \<le> f \<and> t \<le> t' \<longrightarrow> f' \<le> g \<and> u \<le> t')"
proof (induction ps "(f, t)" arbitrary: f t rule: range_loop.induct)
  case (1 ps f t)
  obtain f2 t2 where p: "range_pass ps (f, t) = (f2, t2)" by fastforce
  show ?case
  proof (cases "(f2, t2) = (f, t)")
    case True
    then have "(g, u) = (f, t)" using "1.prems" p by (simp add: range_loop.simps [of ps "(f, t)"])
    with range_pass_fixed [of ps f t] p True show ?thesis by auto
  next
    case False
    then have l: "range_loop ps (f2, t2) = (g, u)" using "1.prems" p by (simp add: range_loop.simps [of ps "(f, t)"] split: if_splits)
    have "\<forall>(i, p) \<in> set ps. i \<le> last_index ps" using last_index by auto
    from range_pass_grows [OF p this] have g: "f2 \<le> f" "t \<le> t2" by auto
    from "1.hyps" [OF p [symmetric] False l] have IH: "range_closed ps g u \<and> g \<le> f2 \<and> t2 \<le> u \<and>
        (\<forall>f' t'. range_closed ps f' t' \<and> f' \<le> f2 \<and> t2 \<le> t' \<longrightarrow> f' \<le> g \<and> u \<le> t')" .
    have "f' \<le> g \<and> u \<le> t'" if "range_closed ps f' t'" "f' \<le> f" "t \<le> t'" for f' t'
      using range_pass_within [OF that(1) order_refl that(2,3) p] IH that(1) by blast
    with IH g show ?thesis by auto
  qed
qed

text \<open>A range that no pair of call and result crosses.\<close>

definition whole :: "message list \<Rightarrow> nat \<Rightarrow> nat \<Rightarrow> bool" where
  "whole ms f t \<longleftrightarrow> (\<forall>i p. answers ms i p \<longrightarrow> (f \<le> i \<and> i < t \<longleftrightarrow> f \<le> p \<and> p < t))"

lemma tool_refs_index: "(i, r) \<in> set (tool_refs k ms) \<Longrightarrow> k \<le> i \<and> i < k + length ms"
  by (induction k ms rule: tool_refs.induct) fastforce+

lemma tool_refs_sorted: "sorted (map fst (tool_refs k ms))"
  by (induction k ms rule: tool_refs.induct)
    (auto simp: sorted_append o_def map_replicate_const dest: tool_refs_index)

lemma answers_index: "answers ms i p \<Longrightarrow> p \<le> i \<and> i < length ms"
proof -
  assume "answers ms i p"
  then obtain us c vs ys where r: "tool_refs 0 ms = us @ (p, CallRef c) # vs @ (i, ResultRef c) # ys"
    by (auto simp: answers_def)
  have "p \<le> i" using tool_refs_sorted [of 0 ms] by (simp add: r sorted_append)
  moreover have "i < length ms" using tool_refs_index [of i "ResultRef c" 0 ms] r by simp
  ultimately show ?thesis by simp
qed

lemma range_closed_whole: "range_closed (protocol_pairs ms) f t \<longleftrightarrow> whole ms f t"
proof -
  have "(f \<le> i \<and> i < t \<longrightarrow> f \<le> p) \<and> (f \<le> p \<and> p < t \<longrightarrow> i < t) \<longleftrightarrow> (f \<le> i \<and> i < t \<longleftrightarrow> f \<le> p \<and> p < t)"
    if "answers ms i p" for i p using answers_index [OF that] by auto
  then have "(\<forall>i p. answers ms i p \<longrightarrow> (f \<le> i \<and> i < t \<longrightarrow> f \<le> p) \<and> (f \<le> p \<and> p < t \<longrightarrow> i < t)) \<longleftrightarrow> whole ms f t"
    unfolding whole_def by blast
  moreover have "range_closed (protocol_pairs ms) f t \<longleftrightarrow>
      (\<forall>i p. (i, p) \<in> set (protocol_pairs ms) \<longrightarrow> (f \<le> i \<and> i < t \<longrightarrow> f \<le> p) \<and> (f \<le> p \<and> p < t \<longrightarrow> i < t))"
    unfolding range_closed_def by fast
  ultimately show ?thesis by (simp only: protocol_pairs_answers)
qed

lemma safeRange_least:
  assumes "safeRange ms f t = (g, u)"
  shows "whole ms g u" "g \<le> f" "t \<le> u" "whole ms f' t' \<Longrightarrow> f' \<le> f \<Longrightarrow> t \<le> t' \<Longrightarrow> f' \<le> g \<and> u \<le> t'"
  using range_loop_least [of "protocol_pairs ms" f t g u] assms by (auto simp: safeRange_def range_closed_whole)

lemma safeRange_inside:
  assumes "safeRange ms f t = (g, u)" "f \<le> t" "t \<le> length ms"
  shows "g \<le> f \<and> t \<le> u \<and> u \<le> length ms"
proof -
  have "whole ms 0 (length ms)" by (auto simp: whole_def dest: answers_index)
  with safeRange_least [OF assms(1)] assms show ?thesis by blast
qed

subsection \<open>Retention keeps whole groups and nothing more\<close>

text \<open>
  Two messages are linked when both mention one call identity. Retention must keep everything
  that a chain of links joins to a wanted message.
\<close>

definition mentions :: "message list \<Rightarrow> nat \<Rightarrow> string \<Rightarrow> bool" where
  "mentions ms i c \<longleftrightarrow> (i, CallRef c) \<in> set (tool_refs 0 ms) \<or> (i, ResultRef c) \<in> set (tool_refs 0 ms)"

definition linked :: "message list \<Rightarrow> (nat \<times> nat) set" where
  "linked ms = {(i, j). \<exists>c. mentions ms i c \<and> mentions ms j c}"

lemma set_group_of: "set (group_of ms c) = {i. mentions ms i c}"
  by (force simp: group_of_def mentions_def)

lemma set_groups: "set (groups ms) = group_of ms ` {c. \<exists>i. mentions ms i c}"
  by (force simp: groups_def mentions_def ref_id_def split: tool_ref.splits)

lemma mentions_index: "mentions ms i c \<Longrightarrow> i < length ms"
  using tool_refs_index [of i _ 0 ms] by (auto simp: mentions_def)

definition covers :: "bool list \<Rightarrow> bool list \<Rightarrow> bool" where
  "covers ks ls \<longleftrightarrow> length ks = length ls \<and> (\<forall>j < length ks. ls ! j \<longrightarrow> ks ! j)"

lemma covers_refl [simp]: "covers ks ks"
  by (simp add: covers_def)

lemma covers_trans: "covers ks ls \<Longrightarrow> covers ls rs \<Longrightarrow> covers ks rs"
  by (auto simp: covers_def)

lemma covers_antisym: "covers ks ls \<Longrightarrow> covers ls ks \<Longrightarrow> ks = ls"
  by (auto simp: covers_def intro!: nth_equalityI)

lemma retain_group_covers: "\<forall>i \<in> set g. i < length keep \<Longrightarrow> covers (retain_group keep g) keep"
  by (simp add: retain_group_def covers_def set_all_nth)

lemma retain_pass_covers: "\<forall>g \<in> set gs. \<forall>i \<in> set g. i < length keep \<Longrightarrow> covers (foldl retain_group keep gs) keep"
proof (induction gs arbitrary: keep)
  case (Cons g gs)
  have c: "covers (retain_group keep g) keep" using Cons.prems by (simp add: retain_group_covers)
  then have "covers (foldl retain_group (retain_group keep g) gs) (retain_group keep g)"
    using Cons.prems by (intro Cons.IH) (simp add: covers_def)
  with c show ?case by (auto intro: covers_trans)
qed simp

lemma retain_pass_fixed:
  "foldl retain_group keep gs = keep \<Longrightarrow> \<forall>g \<in> set gs. \<forall>i \<in> set g. i < length keep \<Longrightarrow> g \<in> set gs \<Longrightarrow>
   i \<in> set g \<Longrightarrow> j \<in> set g \<Longrightarrow> keep ! i \<Longrightarrow> keep ! j"
proof (induction gs arbitrary: keep)
  case (Cons h gs)
  let ?k = "retain_group keep h"
  have c: "covers ?k keep" using Cons.prems(2) by (simp add: retain_group_covers)
  then have "covers (foldl retain_group ?k gs) ?k"
    using Cons.prems(2) by (intro retain_pass_covers) (simp add: covers_def)
  then have same: "?k = keep" using c Cons.prems(1) by (auto intro: covers_antisym)
  show ?case
  proof (cases "g = h")
    case True
    then have "list_ex (\<lambda>i. keep ! i) h" using Cons.prems by (auto simp: list_ex_iff)
    then have "set_all h keep = keep" using same by (simp add: retain_group_def)
    moreover have "\<forall>i \<in> set h. i < length keep" using Cons.prems(2) by simp
    ultimately show ?thesis using set_all_nth [of h keep j] True Cons.prems(5) by auto
  next
    case False
    have f: "foldl retain_group keep gs = keep" using Cons.prems(1) same by simp
    have b: "\<forall>g \<in> set gs. \<forall>i \<in> set g. i < length keep" and m: "g \<in> set gs" using Cons.prems(2,3) False by auto
    show ?thesis by (rule Cons.IH [OF f b m Cons.prems(4-6)])
  qed
qed simp

definition reached :: "(nat \<times> nat) set \<Rightarrow> bool list \<Rightarrow> nat \<Rightarrow> bool" where
  "reached l keep j \<longleftrightarrow> (\<exists>i < length keep. keep ! i \<and> (i, j) \<in> l\<^sup>*)"

lemma reached_trans: "(\<forall>j < length ks. ks ! j \<longrightarrow> reached l keep j) \<Longrightarrow> reached l ks j \<Longrightarrow> reached l keep j"
  unfolding reached_def by (meson rtrancl_trans)

lemma retain_group_reached:
  assumes "\<forall>i \<in> set g. i < length keep" "set g \<times> set g \<subseteq> l" "j < length keep" "retain_group keep g ! j"
  shows "reached l keep j"
proof (cases "keep ! j")
  case True
  with assms(3) show ?thesis by (auto simp: reached_def)
next
  case False
  then obtain i where "i \<in> set g" "keep ! i" "j \<in> set g"
    using assms(1,3,4) by (auto simp: retain_group_def list_ex_iff set_all_nth split: if_splits)
  moreover from this have "(i, j) \<in> l" using assms(2) by auto
  ultimately show ?thesis using assms(1) by (auto simp: reached_def)
qed

lemma retain_pass_reached:
  "\<forall>g \<in> set gs. (\<forall>i \<in> set g. i < length keep) \<and> set g \<times> set g \<subseteq> l \<Longrightarrow> j < length keep \<Longrightarrow>
   foldl retain_group keep gs ! j \<Longrightarrow> reached l keep j"
proof (induction gs arbitrary: keep j)
  case Nil
  then show ?case by (auto simp: reached_def)
next
  case (Cons g gs)
  have c: "covers (retain_group keep g) keep" using Cons.prems(1) by (simp add: retain_group_covers)
  then have len: "length (retain_group keep g) = length keep" by (simp add: covers_def)
  have step: "\<forall>j < length (retain_group keep g). retain_group keep g ! j \<longrightarrow> reached l keep j"
    using Cons.prems(1) len by (auto intro!: retain_group_reached)
  have "reached l (retain_group keep g) j" using Cons.prems len by (intro Cons.IH) simp_all
  with step show ?case by (rule reached_trans)
qed

lemma covers_count: "covers ks ls \<Longrightarrow> ks \<noteq> ls \<Longrightarrow> length (filter id ls) < length (filter id ks)"
proof -
  assume c: "covers ks ls" and "ks \<noteq> ls"
  then have "{i. i < length ls \<and> id (ls ! i)} \<subset> {i. i < length ks \<and> id (ks ! i)}"
    using covers_antisym [OF c] by (auto simp: covers_def)
  then show ?thesis by (simp add: length_filter_conv_card psubset_card_mono)
qed

lemma reached_closed:
  assumes "reached l keep j" "\<And>i j. (i, j) \<in> l \<Longrightarrow> keep ! i \<Longrightarrow> keep ! j" shows "keep ! j"
proof -
  from assms(1) obtain i where i: "keep ! i" "(i, j) \<in> l\<^sup>*" by (auto simp: reached_def)
  from i(2,1) show ?thesis by (induction rule: rtrancl_induct) (auto dest: assms(2))
qed

lemma retain_rounds_reached:
  assumes orders: "\<And>k. set (order k) = set (groups ms)"
  shows "length keep = length ms \<Longrightarrow> length ms - length (filter id keep) < n \<Longrightarrow>
    \<exists>kept. retain_rounds n order k keep = Some kept \<and> length kept = length ms \<and>
      (\<forall>j < length ms. kept ! j \<longleftrightarrow> reached (linked ms) keep j)"
proof (induction n arbitrary: k keep)
  case (Suc n)
  let ?k = "foldl retain_group keep (order k)"
  have gs: "\<forall>g \<in> set (order k). (\<forall>i \<in> set g. i < length keep) \<and> set g \<times> set g \<subseteq> linked ms"
    using Suc.prems(1) by (auto simp: orders set_groups set_group_of linked_def dest: mentions_index)
  then have c: "covers ?k keep" by (auto intro!: retain_pass_covers)
  show ?case
  proof (cases "?k = keep")
    case True
    have closed: "keep ! j" if "(i, j) \<in> linked ms" "keep ! i" for i j
    proof -
      from that(1) obtain d where "mentions ms i d" "mentions ms j d" by (auto simp: linked_def)
      then have "group_of ms d \<in> set (order k)" "i \<in> set (group_of ms d)" "j \<in> set (group_of ms d)"
        by (auto simp: orders set_groups set_group_of)
      from retain_pass_fixed [OF True _ this that(2)] gs show ?thesis by auto
    qed
    have "keep ! j \<longleftrightarrow> reached (linked ms) keep j" if "j < length ms" for j
    proof
      show "reached (linked ms) keep j" if "keep ! j"
        using that \<open>j < length ms\<close> Suc.prems(1) by (auto simp: reached_def)
    qed (rule reached_closed, assumption, rule closed)
    with True Suc.prems(1) show ?thesis by (auto simp: Let_def)
  next
    case False
    from covers_count [OF c False] have "length (filter id keep) < length (filter id ?k)" .
    moreover have "length (filter id ?k) \<le> length ms" using c Suc.prems(1) length_filter_le [of id ?k] by (simp add: covers_def)
    ultimately have "length ms - length (filter id ?k) < n" using Suc.prems(2) by linarith
    moreover have len: "length ?k = length ms" using c Suc.prems(1) by (simp add: covers_def)
    ultimately obtain kept where kept: "retain_rounds n order (k + 1) ?k = Some kept" "length kept = length ms"
      "\<forall>j < length ms. kept ! j \<longleftrightarrow> reached (linked ms) ?k j" using Suc.IH by blast
    have "reached (linked ms) ?k j \<longleftrightarrow> reached (linked ms) keep j" for j
    proof
      show "reached (linked ms) ?k j" if "reached (linked ms) keep j"
        using that c by (auto simp: reached_def covers_def)
      have "\<forall>j < length ?k. ?k ! j \<longrightarrow> reached (linked ms) keep j"
        using retain_pass_reached [OF gs] Suc.prems(1) len by auto
      then show "reached (linked ms) keep j" if "reached (linked ms) ?k j" by (rule reached_trans [OF _ that])
    qed
    with kept False show ?thesis by (auto simp: Let_def)
  qed
qed simp

lemma retain_groups_exact:
  assumes "\<And>k. set (order k) = set (groups ms)" "length keep = length ms"
  obtains kept where "retainProtocolGroups order ms keep = Some (select kept ms)" "length kept = length ms"
    "\<And>j. j < length ms \<Longrightarrow> kept ! j \<longleftrightarrow> reached (linked ms) keep j"
proof -
  have "length ms - length (filter id keep) < length ms + 1" by simp
  from retain_rounds_reached [where order = order, OF assms(1,2) this, of 0]
  show ?thesis using that by (auto simp: retainProtocolGroups_def)
qed

end
