(* ===== verification/Context_Types.thy ===== *)
theory Context_Types
  imports Wire Complex_Main "HOL-Library.List_Lexorder" "HOL-Library.Char_ord"
begin

section \<open>The values of the context system\<close>

text \<open>
  sdk/kernel/abi/context.go: layers, priorities, entries, snapshots, selectors, injections and
  compression actions. A \<open>time.Time\<close> is the integer of its instant; turn counters count a run's
  turns and are naturals. A float64 is compared, never computed with: \<open>fdiv\<close> is the division of
  two integers converted to float64.
\<close>

datatype float64 = NaN | PosInf | NegInf | Finite rat

type_synonym fdiv = "int \<Rightarrow> int \<Rightarrow> float64"

datatype context_layer = AlwaysPresent | OnDemand | RuntimeInject | MemoryLayer | LayerOther string

type_synonym priority = int

definition Disposable :: priority where "Disposable = 0"
definition Low :: priority where "Low = 1"
definition Normal :: priority where "Normal = 2"
definition High :: priority where "High = 3"
definition Critical :: priority where "Critical = 4"

lemmas priorities = Disposable_def Low_def Normal_def High_def Critical_def

record context_metadata =
  md_layer :: context_layer
  md_priority :: priority
  md_tokens :: int
  md_compacted :: bool
  md_externalized_path :: string
  md_replacement_summary :: string
  md_source_agent :: string
  md_origin :: string
  md_created_at :: int
  md_created_turn :: nat
  md_excluded :: bool

record context_entry =
  en_id :: string
  en_message :: message
  en_meta :: context_metadata

record layer_stats =
  ls_tokens :: int
  ls_entries :: nat
  ls_percentage :: float64

record entry_snapshot =
  es_id :: string
  es_layer :: context_layer
  es_priority :: priority
  es_tokens :: int
  es_origin :: string
  es_age :: nat
  es_preview :: string

record tool_pattern =
  tp_tool :: string
  tp_calls :: int
  tp_average :: int
  tp_total :: int

record context_snapshot =
  sn_total :: int
  sn_budget :: int
  sn_window :: int
  sn_ratio :: float64
  sn_layers :: "context_layer \<Rightarrow> layer_stats option"
  sn_entries :: "entry_snapshot list"
  sn_patterns :: "tool_pattern list"

record budget_info =
  bi_window :: int
  bi_budget :: int
  bi_used :: int
  bi_remaining :: int
  bi_ratio :: float64

record memory_fact =
  mf_id :: string
  mf_text :: string
  mf_fingerprint :: string
  mf_category :: string
  mf_source_session :: string
  mf_confidence :: float64
  mf_created_at :: int
  mf_accessed_at :: int
  mf_accesses :: nat

datatype selector = FromStart | ToEnd | ByIndex int | ByID string | SelectorOther

record message_range =
  rg_from :: selector
  rg_to :: selector

record prompt_section =
  sec_id :: string
  sec_content :: string
  sec_priority :: priority

datatype injection =
    InjectSystem "prompt_section option"
  | InjectSkill (skill: string) (skill_text: string)
  | InjectMessage "message option"
  | InjectRuntime string
  | InjectMemory "memory_fact list"
  | InjectOther

datatype ingest_kind = IngestKeep | IngestSkip | IngestModify | IngestOther string

record ingest_action =
  ig_kind :: ingest_kind
  ig_message :: "message option"
  ig_priority :: "priority option"

datatype compress_action =
    CompressWindow (keep_recent: int)
  | CompressSummary (compress_range: message_range) (compress_hints: "string list")
  | CompressToolResult (compress_message: string) (compress_summary: string)
  | CompressExternalize (compress_range: message_range) (compress_path: string)
  | CompressPriority (compress_priority: priority)
  | CompressOther

subsection \<open>Strings as code points\<close>

text \<open>
  \<open>[]rune(s)\<close>: the encodings of the code points of a string, a malformed byte being one U+FFFD.
  \<open>string(runes)\<close> is their concatenation.
\<close>

definition rune_width :: "string \<Rightarrow> nat option" where
  "rune_width s =
     (case s of [] \<Rightarrow> None
      | c # t \<Rightarrow> (case utf8_lead c of None \<Rightarrow> None
          | Some (m, l, h) \<Rightarrow>
              if m = 0 then Some 1
              else if m \<le> length t \<and> in_range l h (hd t) \<and> list_all (in_range 0x80 0xBF) (take (m - 1) (tl t))
              then Some (m + 1) else None))"

definition rune_error :: string where
  "rune_error = map char_of [0xEF :: nat, 0xBF, 0xBD]"

function runes :: "string \<Rightarrow> string list" where
  "runes s =
     (if s = [] then []
      else (case rune_width s of Some w \<Rightarrow> take w s # runes (drop (max 1 w) s) | None \<Rightarrow> rune_error # runes (tl s)))"
  by pat_completeness auto
termination by (relation "measure length") auto

declare runes.simps [simp del]

lemma runes_Nil [simp]: "runes [] = []"
  by (simp add: runes.simps)

definition first_runes :: "nat \<Rightarrow> string \<Rightarrow> string" where
  "first_runes n s = concat (take n (runes s))"

end
