(* ===== verification/Graph_Channel.thy ===== *)
theory Graph_Channel
  imports Graph Context_Window Context_Types "HOL-Library.AList"
begin

section \<open>Graph channels, helpers and the volatile checkpoint saver\<close>

text \<open>
  sdk/agent/graph: channel.go, helpers.go and checkpoint.go. A channel's value, presence and version
  are one record; its two mutexes make an update one step. A nil \<open>clone\<close> is the identity, a nil
  \<open>equal\<close> is structural equality (\<open>same\<close>, \<open>reflect.DeepEqual\<close>). Versions count changes and are naturals.
\<close>

subsection \<open>Channels\<close>

record 't last_value =
  lv_value :: "'t option"
  lv_version :: nat
  lv_clone :: "'t \<Rightarrow> 't"
  lv_equal :: "'t \<Rightarrow> 't \<Rightarrow> bool"

definition NewLastValue :: "('t \<Rightarrow> 't \<Rightarrow> bool) \<Rightarrow> ('t \<Rightarrow> 't) option \<Rightarrow> ('t \<Rightarrow> 't \<Rightarrow> bool) option \<Rightarrow> 't last_value" where
  "NewLastValue same clone equal =
     \<lparr>lv_value = None, lv_version = 0, lv_clone = (case clone of None \<Rightarrow> \<lambda>x. x | Some f \<Rightarrow> f),
      lv_equal = (case equal of None \<Rightarrow> same | Some p \<Rightarrow> p)\<rparr>"

definition channel_Get :: "'t last_value \<Rightarrow> 't option" where
  "channel_Get c = map_option (lv_clone c) (lv_value c)"

text \<open>What both kinds of update do with the next value.\<close>

definition channel_put :: "'t \<Rightarrow> 't \<Rightarrow> 't last_value \<Rightarrow> bool \<times> 't last_value" where
  "channel_put compared stored c =
     (let changed = (case lv_value c of None \<Rightarrow> True | Some v \<Rightarrow> \<not> lv_equal c v compared)
      in (changed, c\<lparr>lv_value := Some stored, lv_version := (if changed then lv_version c + 1 else lv_version c)\<rparr>))"

definition last_Update :: "'t list \<Rightarrow> 't last_value \<Rightarrow> bool \<times> 't last_value" where
  "last_Update vals c =
     (if vals = [] then (False, c) else (let nxt = lv_clone c (last vals) in channel_put nxt nxt c))"

definition last_Reset :: "'t last_value \<Rightarrow> 't last_value" where
  "last_Reset c = c"

definition ephemeral_Reset :: "'t last_value \<Rightarrow> 't last_value" where
  "ephemeral_Reset c = c\<lparr>lv_value := None\<rparr>"

definition NewBinaryOperatorAggregate :: "('t \<Rightarrow> 't \<Rightarrow> bool) \<Rightarrow> ('t \<Rightarrow> 't) option \<Rightarrow> ('t \<Rightarrow> 't \<Rightarrow> bool) option \<Rightarrow> ('t \<Rightarrow> 't \<Rightarrow> 't) option \<Rightarrow>
    ('t last_value \<times> ('t \<Rightarrow> 't \<Rightarrow> 't)) result" where
  "NewBinaryOperatorAggregate same clone equal reduce =
     (case reduce of None \<Rightarrow> Inl (ErrNew ''aggregate reducer required'') | Some f \<Rightarrow> Inr (NewLastValue same clone equal, f))"

definition aggregate_next :: "('t \<Rightarrow> 't \<Rightarrow> 't) \<Rightarrow> 't list \<Rightarrow> 't last_value \<Rightarrow> 't" where
  "aggregate_next reduce vals c =
     (let (start, rest) = (case lv_value c of Some v \<Rightarrow> (lv_clone c v, vals) | None \<Rightarrow> (lv_clone c (hd vals), tl vals))
      in foldl (\<lambda>acc v. reduce acc (lv_clone c v)) start rest)"

definition aggregate_Update :: "('t \<Rightarrow> 't \<Rightarrow> 't) \<Rightarrow> 't list \<Rightarrow> 't last_value \<Rightarrow> bool \<times> 't last_value" where
  "aggregate_Update reduce vals c =
     (if vals = [] then (False, c)
      else (let nxt = aggregate_next reduce vals c in channel_put nxt (lv_clone c nxt) c))"

subsection \<open>Retry delays\<close>

text \<open>Durations are int64 nanoseconds; \<open>wrap64\<close> is the overflow of a product.\<close>

definition wrap64 :: "int \<Rightarrow> int" where
  "wrap64 x = (x + 2 ^ 63) mod 2 ^ 64 - 2 ^ 63"

fun delay_loop :: "nat \<Rightarrow> int \<Rightarrow> int \<Rightarrow> int + int" where
  "delay_loop 0 limit delay = Inr delay"
| "delay_loop (Suc n) limit delay =
     (if delay \<ge> limit \<or> delay > limit div 2 then Inl limit else delay_loop n limit (wrap64 (delay * 2)))"

definition retry_Delay :: "retry_config \<Rightarrow> int \<Rightarrow> int" where
  "retry_Delay config attempt =
     (let delay = (if InitialDelay config < 0 then 0 else InitialDelay config) in
      if delay = 0 then 0
      else (let limit = (if MaxDelay config \<le> 0 then 30000000000 else MaxDelay config) in
        case delay_loop (nat attempt) limit delay of
          Inl limit \<Rightarrow> limit
        | Inr delay \<Rightarrow> if delay > limit then limit else delay))"

subsection \<open>Transforms and compaction\<close>

text \<open>\<open>ctx n\<close> is \<open>ctx.Err()\<close> before transform n, \<open>late n\<close> after it. A nil transform is \<open>None\<close>.\<close>

fun transform_loop :: "(nat \<Rightarrow> go_error option) \<Rightarrow> (nat \<Rightarrow> go_error option) \<Rightarrow> nat \<Rightarrow> (message list \<Rightarrow> message list result) option list \<Rightarrow>
    message list \<Rightarrow> message list result" where
  "transform_loop ctx late n [] working = Inr working"
| "transform_loop ctx late n (t # ts) working =
     (case ctx n of Some e \<Rightarrow> Inl e
      | None \<Rightarrow>
        (case t of None \<Rightarrow> Inl (ErrNew ''graph transform is nil'')
         | Some f \<Rightarrow>
           (let r = f working in
            case errors_join [case r of Inl e \<Rightarrow> Some e | Inr _ \<Rightarrow> None, late n] of Some e \<Rightarrow> Inl e
            | None \<Rightarrow> (case r of Inl e \<Rightarrow> Inl e | Inr next' \<Rightarrow> transform_loop ctx late (n + 1) ts next'))))"

definition pipeline_Apply :: "go_error option \<Rightarrow> (nat \<Rightarrow> go_error option) \<Rightarrow> (nat \<Rightarrow> go_error option) \<Rightarrow>
    (message list \<Rightarrow> message list result) option list \<Rightarrow> message list \<Rightarrow> message list result" where
  "pipeline_Apply canceled ctx late ts messages =
     (case canceled of Some e \<Rightarrow> Inl e | None \<Rightarrow> transform_loop ctx late 0 ts messages)"

text \<open>\<open>json.Marshal\<close> of a message's content may fail; the default estimate counts code points.\<close>

record compaction_config =
  cc_max_tokens :: int
  cc_keep_recent :: int
  cc_counter :: "(string \<Rightarrow> int) option"

definition compaction_tokens :: "compaction_config \<Rightarrow> string \<Rightarrow> int" where
  "compaction_tokens config d = (case cc_counter config of Some f \<Rightarrow> f d | None \<Rightarrow> (int (length (runes d)) + 3) div 4)"

fun compact_loop :: "compaction_config \<Rightarrow> (content_block list \<Rightarrow> string option) \<Rightarrow> int \<Rightarrow> message list \<Rightarrow> bool" where
  "compact_loop config encode remaining [] = False"
| "compact_loop config encode remaining (m # ms) =
     (case encode (m_content m) of None \<Rightarrow> True
      | Some d \<Rightarrow>
        (let tokens = compaction_tokens config d in
         if tokens < 0 \<or> tokens > remaining \<or> remaining - tokens < 4 then True
         else compact_loop config encode (remaining - (tokens + 4)) ms))"

definition ShouldCompact :: "compaction_config \<Rightarrow> (content_block list \<Rightarrow> string option) \<Rightarrow> message list \<Rightarrow> bool" where
  "ShouldCompact config encode messages = (cc_max_tokens config > 0 \<and> compact_loop config encode (cc_max_tokens config) messages)"

definition Compact :: "compaction_config \<Rightarrow> (content_block list \<Rightarrow> string option) \<Rightarrow> message list \<Rightarrow> message list" where
  "Compact config encode messages = (if ShouldCompact config encode messages then SafeWindow messages (cc_keep_recent config) else messages)"

subsection \<open>The volatile checkpoint saver\<close>

text \<open>\<open>clone\<close> copies a state. \<open>late\<close> is the first error a later \<open>ctx.Err()\<close> of the call returns.\<close>

record 's memory_saver =
  ms_values :: "(string \<times> 's checkpoint) list"
  ms_clone :: "'s \<Rightarrow> 's"
  ms_capacity :: int

definition NewMemoryCheckpointSaver :: "('s \<Rightarrow> 's) option \<Rightarrow> int \<Rightarrow> 's memory_saver result" where
  "NewMemoryCheckpointSaver clone capacity =
     (case clone of None \<Rightarrow> Inl (ErrNew ''checkpoint clone and positive capacity required'')
      | Some f \<Rightarrow> if capacity < 1 then Inl (ErrNew ''checkpoint clone and positive capacity required'')
          else Inr \<lparr>ms_values = [], ms_clone = f, ms_capacity = capacity\<rparr>)"

definition owned_checkpoint :: "'s memory_saver \<Rightarrow> 's checkpoint \<Rightarrow> 's checkpoint" where
  "owned_checkpoint sv cp = cp\<lparr>cp_state := ms_clone sv (cp_state cp)\<rparr>"

definition saver_Save :: "go_error option \<Rightarrow> go_error option \<Rightarrow> string \<Rightarrow> 's checkpoint \<Rightarrow> 's memory_saver \<Rightarrow> go_error option \<times> 's memory_saver" where
  "saver_Save canceled late i cp sv =
     (case canceled of Some e \<Rightarrow> (Some e, sv)
      | None \<Rightarrow>
        if i = [] \<or> cp_step cp < 0 then (Some (ErrNew ''invalid graph checkpoint''), sv)
        else (case late of Some e \<Rightarrow> (Some e, sv)
          | None \<Rightarrow>
            if map_of (ms_values sv) i = None \<and> int (length (ms_values sv)) \<ge> ms_capacity sv
            then (Some (ErrNew ''graph checkpoint capacity exceeded''), sv)
            else (None, sv\<lparr>ms_values := AList.update i (owned_checkpoint sv cp) (ms_values sv)\<rparr>)))"

definition saver_Load :: "go_error option \<Rightarrow> go_error option \<Rightarrow> string \<Rightarrow> 's memory_saver \<Rightarrow> 's checkpoint option result" where
  "saver_Load canceled late i sv =
     (case canceled of Some e \<Rightarrow> Inl e
      | None \<Rightarrow>
        (case map_of (ms_values sv) i of None \<Rightarrow> Inr None
         | Some cp \<Rightarrow> (case late of Some e \<Rightarrow> Inl e | None \<Rightarrow> Inr (Some (owned_checkpoint sv cp)))))"

definition saver_List :: "go_error option \<Rightarrow> 's memory_saver \<Rightarrow> string list result" where
  "saver_List canceled sv = from_err canceled (sort (map fst (ms_values sv)))"

definition saver_Delete :: "go_error option \<Rightarrow> string \<Rightarrow> 's memory_saver \<Rightarrow> go_error option \<times> 's memory_saver" where
  "saver_Delete canceled i sv =
     (case canceled of Some e \<Rightarrow> (Some e, sv) | None \<Rightarrow> (None, sv\<lparr>ms_values := AList.delete i (ms_values sv)\<rparr>))"

subsection \<open>An aggregate is a fold, however its updates are batched\<close>

definition aggregate_run :: "('t \<Rightarrow> 't \<Rightarrow> 't) \<Rightarrow> 't list list \<Rightarrow> 't last_value \<Rightarrow> bool list \<times> 't last_value" where
  "aggregate_run reduce batches c =
     foldl (\<lambda>(told, c) vals. let (changed, c) = aggregate_Update reduce vals c in (told @ [changed], c)) ([], c) batches"

lemma aggregate_run_snoc:
  "aggregate_run reduce (batches @ [vals]) c =
   (let (told, c) = aggregate_run reduce batches c; (changed, c) = aggregate_Update reduce vals c in (told @ [changed], c))"
  by (simp add: aggregate_run_def split: prod.split)

fun folded :: "('t \<Rightarrow> 't \<Rightarrow> 't) \<Rightarrow> 't list \<Rightarrow> 't option" where
  "folded reduce [] = None"
| "folded reduce (v # vs) = Some (foldl reduce v vs)"

lemma folded_append: "vs \<noteq> [] \<Longrightarrow> folded reduce (us @ vs) =
   Some (case folded reduce us of None \<Rightarrow> foldl reduce (hd vs) (tl vs) | Some u \<Rightarrow> foldl reduce u vs)"
  by (cases us; cases vs) auto

text \<open>
  A reducer channel is the fold of everything written to it. With a copy that copies, the value
  after any sequence of updates is the left fold of the reducer over all values in order, whatever
  batches they came in; the version is the number of updates that reported a change, and an empty
  update reports none.
\<close>

theorem aggregate_is_a_fold:
  "let (told, c) = aggregate_run reduce batches (NewLastValue same (Some (\<lambda>x. x)) equal) in
     channel_Get c = folded reduce (concat batches) \<and> lv_version c = length (filter id told) \<and>
     length told = length batches \<and> list_all2 (\<lambda>b vals. \<not> (b \<and> vals = [])) told batches"
proof -
  let ?c0 = "NewLastValue same (Some (\<lambda>x. x)) equal"
  have "lv_clone (snd (aggregate_run reduce batches ?c0)) = (\<lambda>x. x) \<and>
    lv_value (snd (aggregate_run reduce batches ?c0)) = folded reduce (concat batches) \<and>
    lv_version (snd (aggregate_run reduce batches ?c0)) = length (filter id (fst (aggregate_run reduce batches ?c0))) \<and>
    list_all2 (\<lambda>b vals. \<not> (b \<and> vals = [])) (fst (aggregate_run reduce batches ?c0)) batches"
  proof (induction batches rule: rev_induct)
    case Nil
    then show ?case by (simp add: aggregate_run_def NewLastValue_def)
  next
    case (snoc vals batches)
    obtain told c where r: "aggregate_run reduce batches ?c0 = (told, c)" by fastforce
    show ?case
    proof (cases "vals = []")
      case True
      with snoc r show ?thesis by (simp add: aggregate_run_snoc aggregate_Update_def list_all2_appendI)
    next
      case False
      have next_value: "Some (aggregate_next reduce vals c) = folded reduce (concat (batches @ [vals]))"
        using snoc r False by (simp add: folded_append aggregate_next_def Let_def split: option.split)
      show ?thesis
        using snoc r False next_value
        by (auto simp: aggregate_run_snoc aggregate_Update_def channel_put_def Let_def list_all2_appendI)
    qed
  qed
  then show ?thesis
    by (auto simp: channel_Get_def case_prod_beta Let_def option.map_id0 [unfolded id_def] dest: list_all2_lengthD)
qed

subsection \<open>Retry delays are capped exponentials\<close>

lemma wrap64_small: "0 \<le> x \<Longrightarrow> x < 2 ^ 63 \<Longrightarrow> wrap64 x = x"
  by (simp add: wrap64_def)

lemma delay_loop_min:
  "0 < delay \<Longrightarrow> limit < 2 ^ 63 \<Longrightarrow>
   (case delay_loop n limit delay of Inl l \<Rightarrow> l | Inr d \<Rightarrow> if d > limit then limit else d) = min limit (delay * 2 ^ n)"
proof (induction n limit delay rule: delay_loop.induct)
  case (2 n limit delay)
  have pow: "(1 :: int) \<le> 2 ^ n" by simp
  show ?case
  proof (cases "delay \<ge> limit \<or> delay > limit div 2")
    case True
    then have "limit \<le> delay * 2" using 2(2) by linarith
    also have "\<dots> \<le> delay * 2 * 2 ^ n" using 2(2) pow by (simp add: mult_le_cancel_left1)
    finally show ?thesis using True by (simp add: min_def algebra_simps)
  next
    case False
    then have "delay * 2 \<le> limit" "wrap64 (delay * 2) = delay * 2"
      using 2(2,3) by (auto intro!: wrap64_small)
    with 2(1) [OF False] 2(2,3) False show ?thesis by (simp add: algebra_simps)
  qed
qed simp

text \<open>
  The delay before a retry is the initial delay doubled for each attempt, up to the maximal
  delay (30 seconds when none is set): for all int64 delays and attempts the loop ends with the
  value the formula gives over the integers, so no product overflows.
\<close>

theorem retry_delay_is_capped:
  assumes "MaxDelay config < 2 ^ 63"
  shows "retry_Delay config attempt =
    (if InitialDelay config \<le> 0 then 0
     else min (if MaxDelay config \<le> 0 then 30000000000 else MaxDelay config) (InitialDelay config * 2 ^ nat attempt))"
proof (cases "InitialDelay config \<le> 0")
  case False
  let ?limit = "if MaxDelay config \<le> 0 then 30000000000 else MaxDelay config"
  have "?limit < 2 ^ 63" using assms by simp
  with delay_loop_min [of "InitialDelay config" ?limit "nat attempt"] False
  show ?thesis by (simp add: retry_Delay_def Let_def split: sum.splits)
qed (auto simp: retry_Delay_def)

theorem retry_delay_is_capped_witness:
  "retry_Delay \<lparr>MaxRetries = 3, InitialDelay = 100, MaxDelay = 1000, Retryable = None\<rparr> 5 = 1000"
  by (subst retry_delay_is_capped) simp_all

subsection \<open>When a conversation is compacted\<close>

lemma compact_loop_iff:
  "\<not> compact_loop config encode remaining ms \<longleftrightarrow>
   (\<forall>m \<in> set ms. \<exists>d. encode (m_content m) = Some d \<and> 0 \<le> compaction_tokens config d) \<and>
   (ms \<noteq> [] \<longrightarrow> (\<Sum>m \<leftarrow> ms. compaction_tokens config (the (encode (m_content m))) + 4) \<le> remaining)"
proof (induction config encode remaining ms rule: compact_loop.induct)
  case (2 config encode remaining m ms)
  show ?case
  proof (cases "encode (m_content m)")
    case (Some d)
    let ?t = "compaction_tokens config d"
    have rest: "0 \<le> (\<Sum>m \<leftarrow> ms. compaction_tokens config (the (encode (m_content m))) + 4)"
      if "\<forall>m \<in> set ms. \<exists>d. encode (m_content m) = Some d \<and> 0 \<le> compaction_tokens config d"
      using that by (intro sum_list_nonneg) force
    show ?thesis
    proof (cases "?t < 0 \<or> ?t > remaining \<or> remaining - ?t < 4")
      case True
      with Some rest show ?thesis by auto
    next
      case False
      with 2 [OF Some refl False] Some show ?thesis by (cases "ms = []") auto
    qed
  qed simp
qed simp

text \<open>
  A conversation is left alone exactly when no budget is set or every message can be encoded,
  no estimate is negative, and the estimates with four tokens for each message fit the budget; what
  compaction returns is the conversation itself or its sliding window.
\<close>

theorem compacts_when_needed:
  "\<not> ShouldCompact config encode ms \<longleftrightarrow>
     cc_max_tokens config \<le> 0 \<or>
     ((\<forall>m \<in> set ms. \<exists>d. encode (m_content m) = Some d \<and> 0 \<le> compaction_tokens config d) \<and>
      (\<Sum>m \<leftarrow> ms. compaction_tokens config (the (encode (m_content m))) + 4) \<le> cc_max_tokens config)"
  using compact_loop_iff [of config encode "cc_max_tokens config" ms] by (cases "ms = []") (auto simp: ShouldCompact_def)

subsection \<open>The saver keeps what it accepts\<close>

text \<open>
  What the engine relies on in a saver: after an accepted save the checkpoint can be loaded, and
  other identities are as before.
\<close>

locale keeps_checkpoints =
  fixes save :: "string \<Rightarrow> 's checkpoint \<Rightarrow> 'v \<Rightarrow> go_error option \<times> 'v"
    and load :: "string \<Rightarrow> 'v \<Rightarrow> 's checkpoint option" and inv :: "'v \<Rightarrow> bool"
  assumes save_inv: "inv v \<Longrightarrow> inv (snd (save i cp v))"
    and load_saved: "inv v \<Longrightarrow> save i cp v = (None, v') \<Longrightarrow> load j v' = (if j = i then Some cp else load j v)"
    and load_refused: "inv v \<Longrightarrow> save i cp v = (Some e, v') \<Longrightarrow> v' = v"
begin

definition save_all :: "(string \<times> 's checkpoint) list \<Rightarrow> 'v \<Rightarrow> 'v" where
  "save_all xs v = fold (\<lambda>(i, cp) v. snd (save i cp v)) xs v"

lemma save_all_inv: "inv v \<Longrightarrow> inv (save_all xs v)"
  by (induction xs arbitrary: v) (auto simp: save_all_def save_inv split: prod.split)

lemma loads_last_accepted:
  assumes "inv v" "save i cp (save_all xs v) = (None, v')" "i \<notin> fst ` set ys"
  shows "load i (save_all ys v') = Some cp"
proof -
  have "inv v'" using save_inv [OF save_all_inv [OF assms(1)], of i cp xs] assms(2) by simp
  moreover have "load i v' = Some cp" using load_saved [OF save_all_inv [OF assms(1)] assms(2)] by simp
  ultimately show ?thesis using assms(3)
  proof (induction ys arbitrary: v')
    case (Cons y ys)
    obtain j c where y: "y = (j, c)" by fastforce
    obtain r w where s: "save j c v' = (r, w)" by fastforce
    have "load i w = Some cp"
      using Cons.prems s load_saved [OF Cons.prems(1), of j c w i] load_refused [OF Cons.prems(1), of j c _ w] y by (cases r) auto
    moreover have "inv w" using save_inv [OF Cons.prems(1), of j c] s by simp
    ultimately show ?case using Cons.IH [of w] Cons.prems(3) by (simp add: save_all_def y s)
  qed (simp add: save_all_def)
qed

end

definition saver_inv :: "'s memory_saver \<Rightarrow> bool" where
  "saver_inv sv \<longleftrightarrow> ms_clone sv = (\<lambda>s. s) \<and> distinct (map fst (ms_values sv)) \<and> int (length (ms_values sv)) \<le> ms_capacity sv"

lemma saver_Save_inv: "saver_inv sv \<Longrightarrow> saver_inv (snd (saver_Save canceled late i cp sv))"
proof -
  assume inv: "saver_inv sv"
  have len: "length (AList.update i x xs) = (if i \<in> fst ` set xs then length xs else length xs + 1)" for x and xs :: "(string \<times> 'a checkpoint) list"
    by (induction xs) auto
  show ?thesis using inv
    by (auto simp: saver_Save_def saver_inv_def AList.distinct_update len map_of_eq_None_iff split: option.split)
qed

definition saver_loads :: "string \<Rightarrow> 's memory_saver \<Rightarrow> 's checkpoint option" where
  "saver_loads i sv = (case saver_Load None None i sv of Inr r \<Rightarrow> r | Inl _ \<Rightarrow> None)"

interpretation memory_saver: keeps_checkpoints "saver_Save None None" saver_loads saver_inv
proof (unfold_locales, goal_cases)
  case (1 v i cp)
  then show ?case by (rule saver_Save_inv)
next
  case (2 v i cp v' j)
  then show ?case
    by (auto simp: saver_Save_def saver_loads_def saver_Load_def owned_checkpoint_def saver_inv_def AList.update_conv split: if_splits option.splits)
next
  case (3 v i cp e v')
  then show ?case by (auto simp: saver_Save_def split: if_splits)
qed

end
