(* ===== verification/Wasm_Binary.thy ===== *)
theory Wasm_Binary
  imports Go_Errors "HOL-Library.Word"
begin

section \<open>The WebAssembly binary reader and writer\<close>

text \<open>
  platform/sandbox/host/fuel.go, lines 25 to 114: a reader over a byte slice with a sticky error,
  and LEB128 writers. Bytes are \<^typ>\<open>8 word\<close> and the format's integers \<^typ>\<open>32 word\<close>. \<open>sleb\<close>
  writes an int64; it is stated on \<^typ>\<open>int\<close>, where \<open>>>\<close> of a signed value is \<open>div\<close>.
\<close>

unbundle bit_operations_syntax

type_synonym byte = "8 word"
type_synonym u32 = "32 word"

record wasm_reader =
  wr_data :: "byte list"
  wr_pos :: nat
  wr_err :: "go_error option"

definition new_reader :: "byte list \<Rightarrow> wasm_reader" where
  "new_reader data = \<lparr>wr_data = data, wr_pos = 0, wr_err = None\<rparr>"

definition fail :: "string \<Rightarrow> wasm_reader \<Rightarrow> wasm_reader" where
  "fail msg r = r\<lparr>wr_err := Some (ErrNew msg)\<rparr>"

definition read_byte :: "wasm_reader \<Rightarrow> byte \<times> wasm_reader" where
  "read_byte r =
     (if wr_err r \<noteq> None then (0, r)
      else if wr_pos r \<ge> length (wr_data r) then (0, fail ''truncated WASM binary'' r)
      else (wr_data r ! wr_pos r, r\<lparr>wr_pos := wr_pos r + 1\<rparr>))"

text \<open>\<open>left\<close> is \<open>5 - i\<close>.\<close>

fun u32_loop :: "nat \<Rightarrow> nat \<Rightarrow> u32 \<Rightarrow> wasm_reader \<Rightarrow> u32 \<times> wasm_reader" where
  "u32_loop 0 i value r = (0, fail ''invalid WASM u32 LEB'' r)"
| "u32_loop (Suc left) i value r =
     (case read_byte r of (b, r) \<Rightarrow>
        if wr_err r \<noteq> None then (0, r)
        else if i = 4 \<and> b > 15 then (0, fail ''invalid WASM u32 LEB'' r)
        else (let value = value OR push_bit (i * 7) (ucast (b AND 127)) in
              if b AND 128 = 0 then (value, r) else u32_loop left (i + 1) value r))"

definition read_u32 :: "wasm_reader \<Rightarrow> u32 \<times> wasm_reader" where
  "read_u32 r = u32_loop 5 0 0 r"

fun skip_signed :: "nat \<Rightarrow> wasm_reader \<Rightarrow> wasm_reader" where
  "skip_signed 0 r = fail ''invalid WASM signed LEB'' r"
| "skip_signed (Suc maximum) r =
     (case read_byte r of (b, r) \<Rightarrow> if b AND 128 = 0 \<or> wr_err r \<noteq> None then r else skip_signed maximum r)"

definition take_bytes :: "u32 \<Rightarrow> wasm_reader \<Rightarrow> byte list \<times> wasm_reader" where
  "take_bytes n r =
     (if wr_err r \<noteq> None then ([], r)
      else if unat n > length (wr_data r) - wr_pos r then ([], fail ''truncated WASM section'' r)
      else (take (unat n) (drop (wr_pos r) (wr_data r)), r\<lparr>wr_pos := wr_pos r + unat n\<rparr>))"

definition read_name :: "wasm_reader \<Rightarrow> byte list \<times> wasm_reader" where
  "read_name r = (case read_u32 r of (n, r) \<Rightarrow> take_bytes n r)"

definition skip_u32 :: "wasm_reader \<Rightarrow> wasm_reader" where "skip_u32 r = snd (read_u32 r)"
definition skip_byte :: "wasm_reader \<Rightarrow> wasm_reader" where "skip_byte r = snd (read_byte r)"

lemma uleb_decreases:
  assumes "drop_bit 7 (n :: u32) \<noteq> 0"
  shows "unat (drop_bit 7 n) < unat n"
proof -
  have "unat (drop_bit 7 n) = drop_bit 7 (unat n)" by (rule unat_drop_bit_eq)
  then have "unat (drop_bit 7 n) = unat n div 128" by (simp only: drop_bit_eq_div) simp
  moreover have "unat n \<noteq> 0" using assms by (metis drop_bit_of_0 unat_eq_zero)
  ultimately show ?thesis by simp
qed

function uleb :: "u32 \<Rightarrow> byte list" where
  "uleb n = (if drop_bit 7 n \<noteq> 0 then (ucast (n AND 127) OR 128) # uleb (drop_bit 7 n) else [ucast (n AND 127)])"
  by pat_completeness auto
termination by (relation "measure unat") (auto intro: uleb_decreases)

declare uleb.simps [simp del]

function sleb :: "int \<Rightarrow> byte list" where
  "sleb n =
     (let b = n mod 128; n' = n div 128; stop = (n' = 0 \<and> b < 64 \<or> n' = -1 \<and> b \<ge> 64)
      in if stop then [word_of_int b] else word_of_int (b + 128) # sleb n')"
  by pat_completeness auto
termination
proof (relation "measure (\<lambda>n. nat \<bar>n\<bar>)")
  fix n b n' :: int and stop
  assume "b = n mod 128" "n' = n div 128" "stop = (n' = 0 \<and> b < 64 \<or> n' = -1 \<and> b \<ge> 64)" "\<not> stop"
  then have "n \<noteq> 0" "n \<noteq> -1" by auto
  then have "\<bar>n div 128\<bar> < \<bar>n\<bar>" by linarith
  then show "(n', n) \<in> measure (\<lambda>n. nat \<bar>n\<bar>)" using \<open>n' = n div 128\<close> by simp
qed simp

declare sleb.simps [simp del]

definition append_section :: "byte \<Rightarrow> byte list \<Rightarrow> byte list" where
  "append_section ident payload = ident # uleb (of_nat (length payload)) @ payload"

subsection \<open>The reader never leaves its slice\<close>

definition reader_ok :: "wasm_reader \<Rightarrow> bool" where
  "reader_ok r \<longleftrightarrow> wr_pos r \<le> length (wr_data r)"

text \<open>What every read does: it keeps the slice, only moves forward, stays inside, and keeps an error.\<close>

definition advances :: "wasm_reader \<Rightarrow> wasm_reader \<Rightarrow> bool" where
  "advances r r' \<longleftrightarrow> wr_data r' = wr_data r \<and> wr_pos r \<le> wr_pos r' \<and> (reader_ok r \<longrightarrow> reader_ok r') \<and>
     (wr_err r \<noteq> None \<longrightarrow> r' = r \<or> wr_err r' \<noteq> None)"

lemma advances_refl [simp]: "advances r r" by (simp add: advances_def)

lemma advances_trans: "advances r r' \<Longrightarrow> advances r' r'' \<Longrightarrow> advances r r''"
  by (auto simp: advances_def)

lemma advances_fail [simp]: "advances r (fail m r)"
  by (simp add: advances_def fail_def reader_ok_def)

lemma read_byte_advances: "read_byte r = (b, r') \<Longrightarrow> advances r r'"
  by (auto simp: read_byte_def advances_def fail_def reader_ok_def split: if_splits)

lemma u32_loop_advances: "u32_loop n i v r = (x, r') \<Longrightarrow> advances r r'"
proof (induction n arbitrary: i v r)
  case (Suc n)
  obtain b r1 where b: "read_byte r = (b, r1)" by fastforce
  note step = read_byte_advances [OF b]
  from Suc.prems b consider "r' = r1" | "r' = fail ''invalid WASM u32 LEB'' r1"
    | i' v' where "u32_loop n i' v' r1 = (x, r')"
    by (auto simp: Let_def split: if_splits)
  then show ?case
    by cases (use step Suc.IH in \<open>auto intro: advances_trans\<close>)
qed auto

lemma read_u32_advances: "read_u32 r = (x, r') \<Longrightarrow> advances r r'"
  by (auto simp: read_u32_def intro: u32_loop_advances)

lemma skip_signed_advances: "advances r (skip_signed n r)"
proof (induction n arbitrary: r)
  case (Suc n)
  obtain b r1 where b: "read_byte r = (b, r1)" by fastforce
  with read_byte_advances [OF b] Suc.IH show ?case by (auto intro: advances_trans)
qed simp

lemma take_bytes_advances: "take_bytes n r = (x, r') \<Longrightarrow> advances r r'"
  by (auto simp: take_bytes_def advances_def fail_def reader_ok_def split: if_splits)

lemma read_name_advances: "read_name r = (x, r') \<Longrightarrow> advances r r'"
  by (auto simp: read_name_def split: prod.splits intro: advances_trans read_u32_advances take_bytes_advances)

lemma skip_advances: "advances r (skip_u32 r)" "advances r (skip_byte r)"
  unfolding skip_u32_def skip_byte_def
  by (metis read_u32_advances surjective_pairing, metis read_byte_advances surjective_pairing)

subsection \<open>Reading what was written\<close>

definition ahead :: "wasm_reader \<Rightarrow> byte list" where
  "ahead r = drop (wr_pos r) (wr_data r)"

definition move :: "nat \<Rightarrow> wasm_reader \<Rightarrow> wasm_reader" where
  "move k r = r\<lparr>wr_pos := wr_pos r + k\<rparr>"

lemma move_simps [simp]:
  "move 0 r = r" "move a (move b r) = move (b + a) r" "wr_err (move k r) = wr_err r" "wr_data (move k r) = wr_data r"
  "wr_pos (move k r) = wr_pos r + k" "ahead (move k r) = drop k (ahead r)"
  by (simp_all add: move_def ahead_def add.commute add.assoc)

lemma read_byte_ahead: "wr_err r = None \<Longrightarrow> ahead r = b # bs \<Longrightarrow> read_byte r = (b, move 1 r)"
proof -
  assume e: "wr_err r = None" and a: "ahead r = b # bs"
  then have "wr_pos r < length (wr_data r)" by (metis ahead_def drop_eq_Nil2 leI list.distinct(1))
  with a have "wr_data r ! wr_pos r = b" by (metis ahead_def hd_drop_conv_nth list.sel(1))
  with e \<open>wr_pos r < length (wr_data r)\<close> show ?thesis by (simp add: read_byte_def move_def)
qed

lemma and_127: "(x :: 'a::len word) AND 127 = take_bit 7 x"
  by (simp add: take_bit_eq_mask mask_eq_exp_minus_1)

lemma bit_128: "bit (128 :: int) n \<longleftrightarrow> n = 7" "bit (128 :: byte) n \<longleftrightarrow> n = 7"
proof -
  have "(128 :: int) = 2 ^ 7" "(128 :: byte) = 2 ^ 7" by simp_all
  then show "bit (128 :: int) n \<longleftrightarrow> n = 7" "bit (128 :: byte) n \<longleftrightarrow> n = 7" by (simp_all only: bit_exp_iff) auto
qed

lemma low_bits:
  fixes m :: u32
  shows "ucast ((ucast (m AND 127) :: byte) AND 127) = take_bit 7 m"
    "ucast (((ucast (m AND 127) :: byte) OR 128) AND 127) = take_bit 7 m"
  unfolding and_127 by (rule bit_word_eqI, auto simp: bit_simps bit_128)+

lemma stop_bit:
  fixes m :: u32
  shows "(ucast (m AND 127) :: byte) AND 128 = 0" "((ucast (m AND 127) :: byte) OR 128) AND 128 \<noteq> 0"
proof -
  show "(ucast (m AND 127) :: byte) AND 128 = 0"
    unfolding and_127 by (rule bit_word_eqI) (auto simp: bit_simps bit_128)
  have "bit (((ucast (m AND 127) :: byte) OR 128) AND 128) 7" by (simp add: bit_simps bit_128)
  then show "((ucast (m AND 127) :: byte) OR 128) AND 128 \<noteq> 0" by auto
qed

lemma take_bit_join: "take_bit a x OR push_bit a (take_bit 7 (drop_bit a x)) = take_bit (a + 7) (x :: u32)"
  by (rule bit_word_eqI) (auto simp: bit_simps)

lemma nibble: "take_bit 4 (y :: byte) = y \<Longrightarrow> y \<le> 15"
proof -
  assume "take_bit 4 y = y"
  then have "unat y = take_bit 4 (unat y)" by (simp only: unsigned_take_bit_eq [symmetric])
  also have "\<dots> < 2 ^ 4" by (rule take_bit_nat_less_exp)
  finally show ?thesis by (simp add: word_le_nat_alt)
qed

lemma last_byte: "(ucast (drop_bit 28 (x :: u32) AND 127) :: byte) \<le> 15"
proof -
  have "take_bit 4 (ucast (drop_bit 28 x AND 127) :: byte) = ucast (drop_bit 28 x AND 127)"
    unfolding and_127 by (rule bit_word_eqI) (auto simp: bit_simps dest: bit_imp_le_length)
  then show ?thesis by (rule nibble)
qed

lemma u32_loop_uleb:
  assumes "wr_err r = None" "ahead r = uleb (drop_bit (i * 7) x) @ rest" "i < 5"
  shows "u32_loop (5 - i) i (take_bit (i * 7) x) r = (x, move (length (uleb (drop_bit (i * 7) x))) r)"
  using assms
proof (induction "5 - i" arbitrary: i r)
  case (Suc n)
  let ?m = "drop_bit (i * 7) x"
  have val: "take_bit (i * 7) x OR push_bit (i * 7) (take_bit 7 ?m) = take_bit (Suc i * 7) x"
    using take_bit_join [of "i * 7" x] by (simp add: add.commute)
  have drop: "drop_bit 7 ?m = drop_bit (Suc i * 7) x" by (simp add: drop_bit_drop_bit add.commute)
  have n: "5 - i = Suc n" "n = 5 - Suc i" using Suc.hyps(2) by simp_all
  show ?case
  proof (cases "drop_bit 7 ?m = 0")
    case True
    then have u: "uleb ?m = [ucast (?m AND 127)]" by (subst uleb.simps) (simp only: if_False simp_thms)
    have "take_bit (Suc i * 7) x = x"
      using True drop bits_ident [of "Suc i * 7" x] by simp
    moreover have "\<not> (i = 4 \<and> 15 < (ucast (?m AND 127) :: byte))" using last_byte [of x] by (auto simp: not_less)
    ultimately show ?thesis
      using read_byte_ahead [OF Suc.prems(1), of "ucast (?m AND 127)" rest] Suc.prems(1,2) val
      unfolding n u32_loop.simps u by (cases "i = 4") (simp_all add: Let_def low_bits stop_bit)
  next
    case False
    then have u: "uleb ?m = (ucast (?m AND 127) OR 128) # uleb (drop_bit (Suc i * 7) x)"
      by (subst uleb.simps) (simp only: drop if_True simp_thms)
    have i4: "i \<noteq> 4"
    proof
      assume "i = 4"
      then have "drop_bit 7 ?m = drop_bit 35 x" using drop by simp
      also have "\<dots> = 0" by (rule bit_word_eqI) (auto simp: bit_simps dest: bit_imp_le_length)
      finally show False using False by simp
    qed
    with Suc.prems(3) have lt: "Suc i < 5" by simp
    have byte: "read_byte r = (ucast (?m AND 127) OR 128, move 1 r)"
      using read_byte_ahead [OF Suc.prems(1)] Suc.prems(2) u by simp
    have "u32_loop (5 - i) i (take_bit (i * 7) x) r = u32_loop (5 - Suc i) (Suc i) (take_bit (Suc i * 7) x) (move 1 r)"
      unfolding n(1) u32_loop.simps byte
      using Suc.prems(1) i4 val by (simp add: Let_def low_bits stop_bit n(2))
    also have "\<dots> = (x, move (length (uleb (drop_bit (Suc i * 7) x))) (move 1 r))"
      by (rule Suc.hyps(1)) (use n Suc.prems lt u in simp_all)
    finally show ?thesis by (simp add: u)
  qed
qed simp

lemma read_uleb: "wr_err r = None \<Longrightarrow> ahead r = uleb n @ rest \<Longrightarrow> read_u32 r = (n, move (length (uleb n)) r)"
  using u32_loop_uleb [of r 0 n rest] by (simp add: read_u32_def)

end
