(* ===== verification/Fuel.thy ===== *)
theory Fuel
  imports Wasm_Binary
begin

section \<open>Fuel metering of WebAssembly modules\<close>

text \<open>
  platform/sandbox/host/fuel.go: the decoder that knows how long an instruction is and what it
  costs, the rewriting of function bodies that charges a block before it runs, and the rewriting
  of a module. \<open>ctx\<close> answers the polls of \<open>ctx.Err()\<close>: inside a function by the number of
  instructions read, between sections by the offset of the section.
\<close>

definition bytes_of :: "string \<Rightarrow> byte list" where
  "bytes_of s = map of_char s"

definition fuelRemainingExport :: "byte list" where "fuelRemainingExport = bytes_of ''__alva_fuel_v1_remaining''"
definition fuelExhaustedExport :: "byte list" where "fuelExhaustedExport = bytes_of ''__alva_fuel_v1_exhausted''"
definition fuelInitializeExport :: "byte list" where "fuelInitializeExport = bytes_of ''__alva_fuel_v1_initialize''"
definition maxMeteredModule :: nat where "maxMeteredModule = 134217728"
definition MaxModuleBytes :: nat where "MaxModuleBytes = 67108864"
definition MaxFuel :: nat where "MaxFuel = 1000000000000"

subsection \<open>Imports\<close>

definition skip_limits :: "wasm_reader \<Rightarrow> wasm_reader" where
  "skip_limits r =
     (case read_u32 r of (flags, r) \<Rightarrow>
        if flags > 1 then fail ''fuel supports Core V2 limits only'' r
        else (let r = skip_u32 r in if flags = 1 then skip_u32 r else r))"

fun import_loop :: "nat \<Rightarrow> u32 \<Rightarrow> wasm_reader \<Rightarrow> u32 \<times> wasm_reader" where
  "import_loop 0 globals r = (globals, r)"
| "import_loop (Suc n) globals r =
     (if wr_err r \<noteq> None then (globals, r)
      else (let r = snd (read_name r); r = snd (read_name r) in
        case read_byte r of (kind, r) \<Rightarrow>
          if kind = 0 then import_loop n globals (skip_u32 r)
          else if kind = 1 then import_loop n globals (skip_limits (skip_byte r))
          else if kind = 2 then import_loop n globals (skip_limits r)
          else if kind = 3 then import_loop n (globals + 1) (skip_byte (skip_byte r))
          else import_loop n globals (fail ''unsupported WASM import in fuel mode'' r)))"

definition importedGlobals :: "byte list \<Rightarrow> u32 result" where
  "importedGlobals data =
     (case read_u32 (new_reader data) of (n, r) \<Rightarrow>
        (case import_loop (unat n) 0 r of (globals, r) \<Rightarrow>
           (case wr_err r of
              Some e \<Rightarrow> Inl e
            | None \<Rightarrow> if wr_pos r \<noteq> length data then Inl (ErrNew ''trailing WASM import bytes'') else Inr globals)))"

subsection \<open>Instructions\<close>

fun skip_u32s :: "nat \<Rightarrow> wasm_reader \<Rightarrow> wasm_reader" where
  "skip_u32s 0 r = r"
| "skip_u32s (Suc n) r = (if wr_err r \<noteq> None then r else skip_u32s n (skip_u32 r))"

definition skip_take :: "u32 \<Rightarrow> wasm_reader \<Rightarrow> wasm_reader" where "skip_take n r = snd (take_bytes n r)"

definition branch_table :: "wasm_reader \<Rightarrow> bool \<times> wasm_reader" where
  "branch_table r =
     (case read_u32 r of (n, r) \<Rightarrow>
        if unat n + 1 > length (wr_data r) - wr_pos r then (False, fail ''invalid branch table'' r)
        else (True, skip_u32s (unat n + 1) r))"

definition bulk_instruction :: "wasm_reader \<Rightarrow> wasm_reader" where
  "bulk_instruction r =
     (case read_u32 r of (sub, r) \<Rightarrow>
        if sub \<in> {0, 1, 2, 3, 4, 5, 6, 7} then r
        else if sub \<in> {8, 10, 12, 14} then skip_u32 (skip_u32 r)
        else if sub \<in> {9, 11, 13, 15, 16, 17} then skip_u32 r
        else fail ''unsupported extended WASM instruction in fuel mode'' r)"

definition simd_instruction :: "wasm_reader \<Rightarrow> wasm_reader" where
  "simd_instruction r =
     (case read_u32 r of (sub, r) \<Rightarrow>
        if sub \<le> 11 \<or> sub = 92 \<or> sub = 93 then skip_u32 (skip_u32 r)
        else if sub = 12 \<or> sub = 13 then skip_take 16 r
        else if sub \<ge> 21 \<and> sub \<le> 34 then skip_byte r
        else if sub \<ge> 84 \<and> sub \<le> 91 then skip_byte (skip_u32 (skip_u32 r))
        else if sub \<le> 255 then r
        else fail ''unsupported SIMD proposal in fuel mode'' r)"

text \<open>The immediates, the cost and whether a block ends: the cases of the source in their order.\<close>

definition immediates :: "byte \<Rightarrow> wasm_reader \<Rightarrow> u32 \<times> bool \<times> wasm_reader" where
  "immediates op r =
     (if op \<in> {0x00, 0x01, 0x05, 0x0b, 0x0f, 0x1a} then (0, op \<noteq> 0x01 \<and> op \<noteq> 0x1a, r)
      else if op \<ge> 0x02 \<and> op \<le> 0x04 then (if op \<noteq> 0x04 then 0 else 1, True, skip_signed 5 r)
      else if op \<in> {0x0c, 0x0d, 0x10} then (1, True, skip_u32 r)
      else if op = 0x0e then (case branch_table r of (bd, r) \<Rightarrow> (1, bd, r))
      else if op = 0x11 then (1, True, skip_u32 (skip_u32 r))
      else if op = 0x1b then (1, False, r)
      else if op = 0x1c then (case read_u32 r of (n, r) \<Rightarrow> (1, False, skip_take n r))
      else if op \<ge> 0x20 \<and> op \<le> 0x26 \<or> op = 0xd2 then (1, False, skip_u32 r)
      else if op \<ge> 0x28 \<and> op \<le> 0x3e then (1, False, skip_u32 (skip_u32 r))
      else if op = 0x3f \<or> op = 0x40 then (1, False, skip_u32 r)
      else if op = 0x41 then (1, False, skip_signed 5 r)
      else if op = 0x42 then (1, False, skip_signed 10 r)
      else if op = 0x43 then (1, False, skip_take 4 r)
      else if op = 0x44 then (1, False, skip_take 8 r)
      else if op \<ge> 0x45 \<and> op \<le> 0xc4 then (1, False, r)
      else if op = 0xd0 then (1, False, skip_byte r)
      else if op = 0xd1 then (1, False, r)
      else if op = 0xfc then (1, False, bulk_instruction r)
      else if op = 0xfd then (1, False, simd_instruction r)
      else (1, False, fail ''unsupported WASM opcode in fuel mode'' r))"

definition fuelInstruction :: "wasm_reader \<Rightarrow> u32 \<times> bool \<times> wasm_reader" where
  "fuelInstruction r = (case read_byte r of (op, r) \<Rightarrow> immediates op r)"

definition fuelCharge :: "byte list \<Rightarrow> u32 \<Rightarrow> u32 \<Rightarrow> u32 \<Rightarrow> byte list" where
  "fuelCharge out remaining exhausted cost =
     (if cost = 0 then out
      else out @ [0x23] @ uleb remaining @ [0x42] @ sleb (uint cost) @ [0x54, 0x04, 0x40, 0x41, 0x01, 0x24] @
        uleb exhausted @ [0x00, 0x0b, 0x23] @ uleb remaining @ [0x42] @ sleb (uint cost) @ [0x7d, 0x24] @ uleb remaining)"

subsection \<open>What decoding an instruction does to the reader\<close>

lemma read_advances [simp]:
  "advances r (snd (read_u32 r))" "advances r (snd (read_name r))" "advances r (snd (read_byte r))" "advances r (snd (take_bytes n r))"
  by (metis read_u32_advances surjective_pairing, metis read_name_advances surjective_pairing,
      metis read_byte_advances surjective_pairing, metis take_bytes_advances surjective_pairing)

lemma skip_u32s_advances: "advances r (skip_u32s n r)"
  by (induction n arbitrary: r) (auto intro: advances_trans skip_advances)

lemma then_advances:
  assumes "advances r r1"
  shows "advances r (skip_u32 r1)" "advances r (skip_byte r1)" "advances r (skip_signed n r1)" "advances r (skip_take m r1)"
    "advances r (skip_u32s n r1)" "advances r (fail msg r1)"
  using assms
  by (auto intro: advances_trans skip_advances skip_signed_advances skip_u32s_advances read_advances simp: skip_take_def)

lemma sub_advances: "advances r (bulk_instruction r)" "advances r (simd_instruction r)" "advances r (snd (branch_table r))"
  unfolding bulk_instruction_def simd_instruction_def branch_table_def case_prod_unfold
  by (auto intro!: then_advances)

lemma immediates_advances: "immediates op r = (c, bd, r') \<Longrightarrow> advances r r'"
proof -
  have "advances r (snd (snd (immediates op r)))"
    unfolding immediates_def case_prod_unfold
    by (simp add: then_advances sub_advances split: if_split)
  then show "immediates op r = (c, bd, r') \<Longrightarrow> advances r r'" by simp
qed

lemma immediates_cost: "immediates op r = (c, bd, r') \<Longrightarrow> c = 0 \<or> c = 1"
proof -
  have "fst (immediates op r) = 0 \<or> fst (immediates op r) = 1"
    unfolding immediates_def case_prod_unfold by (simp split: if_split)
  then show "immediates op r = (c, bd, r') \<Longrightarrow> c = 0 \<or> c = 1" by simp
qed

lemma fuelInstruction_advances: "fuelInstruction r = (c, bd, r') \<Longrightarrow> advances r r'"
  by (auto simp: fuelInstruction_def split: prod.splits intro: advances_trans read_byte_advances immediates_advances)

lemma fuelInstruction_progress:
  assumes "fuelInstruction r = (c, bd, r')" "wr_err r' = None"
  shows "wr_err r = None" "wr_pos r < wr_pos r'"
proof -
  obtain op r1 where 1: "read_byte r = (op, r1)" "immediates op r1 = (c, bd, r')"
    using assms(1) by (auto simp: fuelInstruction_def split: prod.splits)
  from immediates_advances [OF 1(2)] assms(2) have e: "wr_err r1 = None" and le: "wr_pos r1 \<le> wr_pos r'"
    by (auto simp: advances_def)
  from 1(1) e show "wr_err r = None" by (auto simp: read_byte_def fail_def split: if_splits)
  from 1(1) e have "wr_pos r1 = wr_pos r + 1" by (auto simp: read_byte_def fail_def split: if_splits)
  with le show "wr_pos r < wr_pos r'" by simp
qed

end
