(* ===== verification/Fuel_Meter.thy ===== *)
theory Fuel_Meter
  imports Fuel
begin

section \<open>Metering function bodies\<close>

text \<open>\<open>meterCode\<close> of platform/sandbox/host/fuel.go, and what it does to a code section.\<close>

function meter_loop :: "(nat \<Rightarrow> go_error option) \<Rightarrow> u32 \<Rightarrow> nat \<Rightarrow> nat \<Rightarrow> u32 \<Rightarrow> byte list \<Rightarrow> wasm_reader \<Rightarrow> (byte list \<times> nat \<times> wasm_reader) result" where
  "meter_loop ctx remaining instructions start cost metered b =
     (if \<not> (wr_pos b < length (wr_data b) \<and> wr_err b = None) then Inr (metered, start, b)
      else (let instructions = instructions + 1 in
        case (if instructions mod 256 = 0 then ctx instructions else None) of
          Some e \<Rightarrow> Inl e
        | None \<Rightarrow>
            (case fuelInstruction b of (units, boundary, b') \<Rightarrow>
               let metered' = (if boundary
                       then fuelCharge metered remaining (remaining + 1) (cost + units) @ take (wr_pos b' - start) (drop start (wr_data b'))
                       else metered);
                   start' = (if boundary then wr_pos b' else start);
                   cost' = (if boundary then 0 else cost + units)
               in if length metered' > maxMeteredModule then Inl (ErrNew ''metered function exceeds byte budget'')
                  else meter_loop ctx remaining instructions start' cost' metered' b')))"
  by pat_completeness auto
termination
proof (relation "measure (\<lambda>(ctx, rem, n, s, c, m, b). 2 * (length (wr_data b) - wr_pos b) + (if wr_err b = None then 1 else 0))", goal_cases)
  case (2 ctx rem n s c m b n' u y bd b' m' s' c')
  then have f: "fuelInstruction b = (u, bd, b')" by simp
  from fuelInstruction_advances [OF f] have a: "wr_data b' = wr_data b" "wr_pos b \<le> wr_pos b'" by (auto simp: advances_def)
  show ?case
  proof (cases "wr_err b'")
    case None
    with fuelInstruction_progress [OF f] a 2 show ?thesis by auto
  next
    case (Some e)
    with a 2 show ?thesis by auto
  qed
qed simp

declare meter_loop.simps [simp del]

fun skip_locals :: "nat \<Rightarrow> wasm_reader \<Rightarrow> wasm_reader" where
  "skip_locals 0 b = b"
| "skip_locals (Suc n) b = (if wr_err b \<noteq> None then b else skip_locals n (skip_byte (skip_u32 b)))"

definition meter_function :: "(nat \<Rightarrow> go_error option) \<Rightarrow> u32 \<Rightarrow> byte list \<Rightarrow> byte list result" where
  "meter_function ctx remaining body =
     (case read_u32 (new_reader body) of (locals, b) \<Rightarrow>
       (let b = skip_locals (unat locals) b in
        case wr_err b of
          Some e \<Rightarrow> Inl e
        | None \<Rightarrow>
            (case meter_loop ctx remaining 0 (wr_pos b) 0 (take (wr_pos b) body) b of
               Inl e \<Rightarrow> Inl e
             | Inr (metered, start, b) \<Rightarrow>
                 (case wr_err b of
                    Some e \<Rightarrow> Inl e
                  | None \<Rightarrow> if start \<noteq> length body then Inl (ErrNew ''unterminated metered function'') else Inr metered))))"

fun meter_functions :: "(nat \<Rightarrow> nat \<Rightarrow> go_error option) \<Rightarrow> u32 \<Rightarrow> nat \<Rightarrow> byte list \<Rightarrow> wasm_reader \<Rightarrow> (byte list \<times> wasm_reader) result" where
  "meter_functions ctx remaining 0 out r = Inr (out, r)"
| "meter_functions ctx remaining (Suc n) out r =
     (if wr_err r \<noteq> None then Inr (out, r)
      else (case read_u32 r of (len, r) \<Rightarrow>
        case take_bytes len r of (body, r) \<Rightarrow>
          (case meter_function (ctx n) remaining body of
             Inl e \<Rightarrow> Inl e
           | Inr metered \<Rightarrow>
               (let out = out @ uleb (of_nat (length metered)) @ metered in
                if length out > maxMeteredModule then Inl (ErrNew ''metered code exceeds 128MiB'')
                else meter_functions ctx remaining n out r))))"

definition meterCode :: "(nat \<Rightarrow> nat \<Rightarrow> go_error option) \<Rightarrow> byte list \<Rightarrow> u32 \<Rightarrow> byte list result" where
  "meterCode ctx data remaining =
     (case read_u32 (new_reader data) of (n, r) \<Rightarrow>
       (case meter_functions ctx remaining (unat n) (uleb n) r of
          Inl e \<Rightarrow> Inl e
        | Inr (out, r) \<Rightarrow>
            (case wr_err r of
               Some e \<Rightarrow> Inl e
             | None \<Rightarrow> if wr_pos r \<noteq> length data then Inl (ErrNew ''trailing WASM code bytes'') else Inr out)))"

subsection \<open>What a metered body is\<close>

definition slice :: "nat \<Rightarrow> nat \<Rightarrow> byte list \<Rightarrow> byte list" where
  "slice p q body = take (q - p) (drop p body)"

text \<open>One instruction of the body, from p to q.\<close>

definition instruction :: "byte list \<Rightarrow> nat \<Rightarrow> u32 \<Rightarrow> bool \<Rightarrow> nat \<Rightarrow> bool" where
  "instruction body p c bd q \<longleftrightarrow>
     (\<exists>r'. fuelInstruction \<lparr>wr_data = body, wr_pos = p, wr_err = None\<rparr> = (c, bd, r') \<and> wr_err r' = None \<and> wr_pos r' = q)"

text \<open>A straight-line block: only its last instruction transfers control; c counts its units.\<close>

inductive block :: "byte list \<Rightarrow> nat \<Rightarrow> nat \<Rightarrow> nat \<Rightarrow> bool" for body where
  last: "instruction body p c True q \<Longrightarrow> block body p (unat c) q"
| more: "instruction body p c False q \<Longrightarrow> block body q c' q' \<Longrightarrow> block body p (unat c + c') q'"

text \<open>The same blocks in the same order, each preceded by a charge of its units.\<close>

inductive metered :: "u32 \<Rightarrow> byte list \<Rightarrow> nat \<Rightarrow> byte list \<Rightarrow> bool" for remaining body where
  finished: "metered remaining body (length body) []"
| charged: "block body p c q \<Longrightarrow> metered remaining body q rest \<Longrightarrow>
    metered remaining body p (fuelCharge [] remaining (remaining + 1) (of_nat c) @ slice p q body @ rest)"

text \<open>Instructions that do not end a block, from p to q with c units.\<close>

inductive straight :: "byte list \<Rightarrow> nat \<Rightarrow> nat \<Rightarrow> nat \<Rightarrow> bool" for body where
  none: "straight body p 0 p"
| step: "straight body p c q \<Longrightarrow> instruction body q c' False q' \<Longrightarrow> straight body p (c + unat c') q'"

lemma instruction_bounds:
  assumes "instruction body p c bd q" "p \<le> length body"
  shows "p < q" "q \<le> length body" "unat c \<le> 1"
proof -
  let ?r = "\<lparr>wr_data = body, wr_pos = p, wr_err = None\<rparr>"
  obtain r' where f: "fuelInstruction ?r = (c, bd, r')" "wr_err r' = None" "wr_pos r' = q"
    using assms(1) by (auto simp: instruction_def)
  from fuelInstruction_progress(2) [OF f(1,2)] f(3) show "p < q" by simp
  from fuelInstruction_advances [OF f(1)] f(3) assms(2) show "q \<le> length body"
    by (auto simp: advances_def reader_ok_def)
  from f(1) have "c = 0 \<or> c = 1" by (auto simp: fuelInstruction_def split: prod.splits dest: immediates_cost)
  then show "unat c \<le> 1" by auto
qed

lemma instruction_step: "instruction body p c bd q \<Longrightarrow> p \<le> length body \<Longrightarrow> p + unat c \<le> q \<and> p < q \<and> q \<le> length body"
  using instruction_bounds [of body p c bd q] by auto

lemma straight_bounds: "straight body p c q \<Longrightarrow> p \<le> length body \<Longrightarrow> p + c \<le> q \<and> q \<le> length body"
  by (induction rule: straight.induct) (auto dest!: instruction_step)

lemma straight_block: "straight body p c q \<Longrightarrow> block body q c' q' \<Longrightarrow> block body p (c + c') q'"
proof (induction arbitrary: c' rule: straight.induct)
  case (step p c q c1 q1)
  from block.more [OF step.hyps(2) step.prems] step.IH show ?case by (simp add: add.assoc)
qed simp

lemma fuelCharge_append: "fuelCharge out r x c = out @ fuelCharge [] r x c"
  by (simp add: fuelCharge_def)

lemma meter_loop_end:
  "\<not> (wr_pos b < length (wr_data b) \<and> wr_err b = None) \<Longrightarrow> meter_loop ctx remaining k start cost out b = Inr (out, start, b)"
  by (subst meter_loop.simps) simp

lemma meter_loop_step:
  assumes "wr_pos b < length (wr_data b)" "wr_err b = None" "fuelInstruction b = (u, bd, b1)"
    and "meter_loop ctx remaining k start cost out b = Inr res"
  shows "meter_loop ctx remaining (k + 1) (if bd then wr_pos b1 else start) (if bd then 0 else cost + u)
     (if bd then fuelCharge out remaining (remaining + 1) (cost + u) @ take (wr_pos b1 - start) (drop start (wr_data b1)) else out) b1 = Inr res"
proof -
  have poll: "(if (k + 1) mod 256 = 0 then ctx (k + 1) else None) = None"
    using assms(1,2,4) by (subst (asm) meter_loop.simps) (simp add: Let_def split: option.splits if_splits)
  show ?thesis
    using assms(4) unfolding meter_loop.simps [of ctx remaining k start cost out b] Let_def poll assms(3)
    using assms(1,2) by (simp split: if_splits)
qed

lemma meter_loop_go:
  assumes "fuelInstruction b = (u, bd, b1)" "wr_pos b < length (wr_data b)" "wr_err b = None" "Suc k mod 256 \<noteq> 0"
    and "length (if bd then fuelCharge out remaining (remaining + 1) (cost + u) @ take (wr_pos b1 - start) (drop start (wr_data b1)) else out) \<le> maxMeteredModule"
  shows "meter_loop ctx remaining k start cost out b =
    meter_loop ctx remaining (Suc k) (if bd then wr_pos b1 else start) (if bd then 0 else cost + u)
     (if bd then fuelCharge out remaining (remaining + 1) (cost + u) @ take (wr_pos b1 - start) (drop start (wr_data b1)) else out) b1"
  using assms by (subst meter_loop.simps) (simp add: Let_def)

text \<open>An induction along the instructions that are read.\<close>

lemma meter_loop_sound:
  assumes "meter_loop ctx remaining k start cost out b = Inr (out', start', b')" "wr_err b' = None" "start' = length (wr_data b)"
    and "straight (wr_data b) start n (wr_pos b)" "cost = of_nat n" "start \<le> length (wr_data b)"
  shows "\<exists>m. out' = out @ m \<and> metered remaining (wr_data b) start m"
  using assms
proof (induction "length (wr_data b) - wr_pos b" arbitrary: k start cost out b n rule: less_induct)
  case (less b k start cost out n)
  let ?d = "wr_data b"
  note run = less.prems(1) and pos = straight_bounds [OF less.prems(4,6)]
  show ?case
  proof (cases "wr_pos b < length ?d \<and> wr_err b = None")
    case False
    from run meter_loop_end [OF this, of ctx remaining k start cost out] have "out' = out" "start' = start" by simp_all
    with less.prems(3) show ?thesis by (auto intro: metered.finished)
  next
    case True
    then have b: "b = \<lparr>wr_data = ?d, wr_pos = wr_pos b, wr_err = None\<rparr>" by simp
    obtain u bd b1 where f: "fuelInstruction b = (u, bd, b1)" by (metis prod_cases3)
    have d1: "wr_data b1 = ?d" using fuelInstruction_advances [OF f] by (simp add: advances_def)
    note next_run = meter_loop_step [OF conjunct1 [OF True] conjunct2 [OF True] f run]
    have e1: "wr_err b1 = None"
    proof (rule ccontr)
      assume "wr_err b1 \<noteq> None"
      with next_run have "b' = b1" by (subst (asm) meter_loop_end) auto
      with \<open>wr_err b1 \<noteq> None\<close> less.prems(2) show False by simp
    qed
    have ins: "instruction ?d (wr_pos b) u bd (wr_pos b1)"
      unfolding instruction_def using f e1 b by metis
    from instruction_bounds [OF ins] pos have q: "wr_pos b < wr_pos b1" "wr_pos b1 \<le> length ?d" by auto
    then have smaller: "length (wr_data b1) - wr_pos b1 < length ?d - wr_pos b" using True d1 by simp
    note IH = less.hyps [OF smaller next_run less.prems(2)]
    show ?thesis
    proof (cases bd)
      case bd: True
      from straight_block [OF less.prems(4) block.last] ins bd have blk: "block ?d start (n + unat u) (wr_pos b1)" by simp
      have "\<exists>m. out' = (fuelCharge out remaining (remaining + 1) (cost + u) @ take (wr_pos b1 - start) (drop start (wr_data b1))) @ m \<and>
          metered remaining ?d (wr_pos b1) m"
        using IH [of 0] less.prems(3) d1 bd q straight.none by auto
      then obtain m where m: "out' = fuelCharge out remaining (remaining + 1) (cost + u) @ slice start (wr_pos b1) ?d @ m"
          "metered remaining ?d (wr_pos b1) m" by (auto simp: slice_def d1)
      have c: "cost + u = of_nat (n + unat u)" using less.prems(5) by simp
      have "out' = out @ fuelCharge [] remaining (remaining + 1) (of_nat (n + unat u)) @ slice start (wr_pos b1) ?d @ m"
        using m(1) unfolding c fuelCharge_append [of out] by simp
      with metered.charged [OF blk m(2)] show ?thesis by blast
    next
      case bd: False
      have "straight ?d start (n + unat u) (wr_pos b1)" using straight.step [OF less.prems(4)] ins bd by simp
      then show ?thesis
        using IH [of "n + unat u"] less.prems(3,5,6) d1 bd by simp
    qed
  qed
qed

text \<open>The charge never wraps: a block has at most as many units as bytes.\<close>

lemma block_bounds: "block body p c q \<Longrightarrow> p \<le> length body \<Longrightarrow> p + c \<le> q \<and> q \<le> length body \<and> p < q"
  by (induction rule: block.induct) (auto dest!: instruction_step)

lemma skip_locals_advances: "advances b (skip_locals n b)"
proof (induction n arbitrary: b)
  case (Suc n)
  have "advances b (skip_byte (skip_u32 b))" by (intro then_advances advances_refl)
  with Suc.IH show ?case by (auto intro: advances_trans)
qed simp

definition metered_body :: "u32 \<Rightarrow> byte list \<Rightarrow> byte list \<Rightarrow> bool" where
  "metered_body remaining body out \<longleftrightarrow> (\<exists>h m. h \<le> length body \<and> out = take h body @ m \<and> metered remaining body h m)"

lemma meter_function_sound:
  assumes "meter_function ctx remaining body = Inr out"
  shows "metered_body remaining body out"
proof -
  obtain locals b0 where r: "read_u32 (new_reader body) = (locals, b0)" by fastforce
  define b where "b = skip_locals (unat locals) b0"
  have "advances (new_reader body) b"
    using read_u32_advances [OF r] skip_locals_advances unfolding b_def by (rule advances_trans)
  then have b: "wr_data b = body" "wr_pos b \<le> length body" by (auto simp: advances_def new_reader_def reader_ok_def)
  from assms obtain b' where run: "meter_loop ctx remaining 0 (wr_pos b) 0 (take (wr_pos b) body) b = Inr (out, length body, b')" "wr_err b' = None"
    by (auto simp: meter_function_def r b_def [symmetric] Let_def split: option.splits sum.splits if_splits)
  from meter_loop_sound [OF run, of 0] b straight.none obtain m where
    "out = take (wr_pos b) body @ m" "metered remaining body (wr_pos b) m" by auto
  with b(2) show ?thesis by (auto simp: metered_body_def)
qed

subsection \<open>A code section\<close>

text \<open>How a code section is read: the bodies of its functions.\<close>

fun parse_bodies :: "nat \<Rightarrow> wasm_reader \<Rightarrow> (byte list list \<times> wasm_reader) option" where
  "parse_bodies 0 r = Some ([], r)"
| "parse_bodies (Suc n) r =
     (case read_u32 r of (len, r) \<Rightarrow> case take_bytes len r of (body, r) \<Rightarrow>
        if wr_err r \<noteq> None then None else map_option (\<lambda>(bs, r). (body # bs, r)) (parse_bodies n r))"

definition code_bodies :: "byte list \<Rightarrow> byte list list option" where
  "code_bodies data =
     (case read_u32 (new_reader data) of (n, r) \<Rightarrow>
        (case parse_bodies (unat n) r of
           None \<Rightarrow> None
         | Some (bs, r) \<Rightarrow> if wr_err r = None \<and> wr_pos r = length data then Some bs else None))"

definition encode_body :: "byte list \<Rightarrow> byte list" where
  "encode_body m = uleb (of_nat (length m)) @ m"

lemma parse_encoded:
  assumes "wr_err r = None" "ahead r = concat (map encode_body ms) @ rest" "\<forall>m \<in> set ms. length m < 2 ^ 32"
  shows "parse_bodies (length ms) r = Some (ms, move (length (concat (map encode_body ms))) r)"
  using assms
proof (induction ms arbitrary: r)
  case (Cons m ms)
  let ?k = "length (uleb (of_nat (length m)))"
  have u: "read_u32 r = (of_nat (length m), move ?k r)"
    using Cons.prems by (intro read_uleb [where rest = "m @ concat (map encode_body ms) @ rest"]) (simp_all add: encode_body_def [of m])
  have a: "ahead (move ?k r) = m @ concat (map encode_body ms) @ rest"
    using Cons.prems(2) by (simp add: encode_body_def [of m])
  have n: "unat (of_nat (length m) :: u32) = length m" using Cons.prems(3) by (simp add: unsigned_of_nat take_bit_nat_eq_self)
  have "length m \<le> length (wr_data r) - wr_pos (move ?k r)"
    using arg_cong [OF a, of length] by (simp add: ahead_def)
  then have t: "take_bytes (of_nat (length m)) (move ?k r) = (m, move (length m) (move ?k r))"
    using a Cons.prems(1) n by (auto simp: take_bytes_def ahead_def move_def)
  have "parse_bodies (length ms) (move (?k + length m) r) = Some (ms, move (length (concat (map encode_body ms))) (move (?k + length m) r))"
    by (rule Cons.IH) (use Cons.prems in \<open>simp_all add: encode_body_def [of m]\<close>)
  then show ?case using Cons.prems(1) by (simp add: u t encode_body_def [of m] add.assoc)
qed simp

lemma meter_functions_stuck: "wr_err r \<noteq> None \<Longrightarrow> meter_functions ctx remaining n out r = Inr (out, r)"
  by (cases n) simp_all

lemma meter_functions_sound:
  assumes "meter_functions ctx remaining n out r = Inr (out', r')" "wr_err r' = None"
  shows "\<exists>bs ms. parse_bodies n r = Some (bs, r') \<and> length ms = n \<and> list_all2 (metered_body remaining) bs ms \<and>
    out' = out @ concat (map encode_body ms) \<and> (\<forall>m \<in> set ms. length m \<le> maxMeteredModule)"
  using assms
proof (induction n arbitrary: out r)
  case (Suc n)
  have e: "wr_err r = None"
    using Suc.prems meter_functions_stuck [of r ctx remaining "Suc n" out] by (metis Inr_inject prod.inject)
  obtain len r1 where 1: "read_u32 r = (len, r1)" by fastforce
  obtain body r2 where 2: "take_bytes len r1 = (body, r2)" by fastforce
  from Suc.prems(1) e obtain m where m: "meter_function (ctx n) remaining body = Inr m"
    and len: "length (out @ encode_body m) \<le> maxMeteredModule"
    and rest: "meter_functions ctx remaining n (out @ encode_body m) r2 = Inr (out', r')"
    by (auto simp: 1 2 Let_def encode_body_def split: sum.splits if_splits)
  have e2: "wr_err r2 = None"
    using rest Suc.prems(2) meter_functions_stuck [of r2 ctx remaining n "out @ encode_body m"] by (metis Inr_inject prod.inject)
  from Suc.IH [OF rest Suc.prems(2)] obtain bs ms where
    "parse_bodies n r2 = Some (bs, r')" "length ms = n" "list_all2 (metered_body remaining) bs ms"
    "out' = (out @ encode_body m) @ concat (map encode_body ms)" "\<forall>m \<in> set ms. length m \<le> maxMeteredModule" by blast
  with m len e2 meter_function_sound [OF m] show ?case
    by (rule_tac exI [of _ "body # bs"], rule_tac exI [of _ "m # ms"]) (simp add: 1 2 encode_body_def [of m])
qed simp

lemma meterCode_sound:
  assumes "meterCode ctx data remaining = Inr out"
  shows "\<exists>bs ms. code_bodies data = Some bs \<and> code_bodies out = Some ms \<and> list_all2 (metered_body remaining) bs ms"
proof -
  obtain n r where 1: "read_u32 (new_reader data) = (n, r)" by fastforce
  from assms obtain r' where run: "meter_functions ctx remaining (unat n) (uleb n) r = Inr (out, r')"
    and ok: "wr_err r' = None" "wr_pos r' = length data"
    by (auto simp: meterCode_def 1 split: sum.splits option.splits if_splits)
  from meter_functions_sound [OF run ok(1)] obtain bs ms where
    p: "parse_bodies (unat n) r = Some (bs, r')" "length ms = unat n" "list_all2 (metered_body remaining) bs ms"
      "out = uleb n @ concat (map encode_body ms)" "\<forall>m \<in> set ms. length m \<le> maxMeteredModule" by blast
  have "read_u32 (new_reader out) = (n, move (length (uleb n)) (new_reader out))"
    by (rule read_uleb [where rest = "concat (map encode_body ms)"]) (simp_all add: new_reader_def ahead_def p(4))
  moreover have "parse_bodies (length ms) (move (length (uleb n)) (new_reader out)) =
      Some (ms, move (length (concat (map encode_body ms))) (move (length (uleb n)) (new_reader out)))"
    using p(5) by (intro parse_encoded [where rest = "[]"])
      (auto simp: new_reader_def ahead_def p(4) maxMeteredModule_def intro: le_less_trans)
  ultimately have "code_bodies out = Some ms"
    by (simp add: code_bodies_def p(2)) (simp add: new_reader_def p(4))
  moreover have "code_bodies data = Some bs" using 1 p(1) ok by (simp add: code_bodies_def)
  ultimately show ?thesis using p(3) by blast
qed

end
