(* ===== verification/Fuel_Module.thy ===== *)
theory Fuel_Module
  imports Fuel_Meter Go_Text
begin

section \<open>Metering a module\<close>

text \<open>
  \<open>instrumentFuel\<close> of platform/sandbox/host/fuel.go: the sections of the module are read, two
  globals (the fuel left and the exhausted flag) and their exports are added, the start section
  becomes an export the host calls, debug sections are dropped and the code is metered.
\<close>

record wasm_section =
  sec_id :: byte
  sec_data :: "byte list"

record module_info =
  mi_sections :: "wasm_section list"
  mi_imported :: u32
  mi_defined :: u32
  mi_initialize :: "u32 option"

definition note_section :: "byte \<Rightarrow> byte list \<Rightarrow> module_info \<Rightarrow> module_info result" where
  "note_section ident payload m =
     (let m = m\<lparr>mi_sections := mi_sections m @ [\<lparr>sec_id = ident, sec_data = payload\<rparr>]\<rparr> in
      if ident = 2 then (case importedGlobals payload of Inl e \<Rightarrow> Inl e | Inr n \<Rightarrow> Inr (m\<lparr>mi_imported := n\<rparr>))
      else if ident = 6 then
        (case read_u32 (new_reader payload) of (n, v) \<Rightarrow>
           (case wr_err v of Some e \<Rightarrow> Inl e | None \<Rightarrow> Inr (m\<lparr>mi_defined := n\<rparr>)))
      else if ident = 8 then
        (case read_u32 (new_reader payload) of (index, v) \<Rightarrow>
           if wr_err v \<noteq> None \<or> wr_pos v \<noteq> length payload then Inl (ErrNew ''invalid original start section'')
           else Inr (m\<lparr>mi_initialize := Some index\<rparr>))
      else Inr m)"

function read_sections :: "(nat \<Rightarrow> go_error option) \<Rightarrow> module_info \<Rightarrow> wasm_reader \<Rightarrow> (module_info \<times> wasm_reader) result" where
  "read_sections ctx m r =
     (if \<not> (wr_pos r < length (wr_data r) \<and> wr_err r = None) then Inr (m, r)
      else (case ctx (wr_pos r) of
          Some e \<Rightarrow> Inl e
        | None \<Rightarrow>
            (case read_byte r of (ident, r1) \<Rightarrow>
              (case read_u32 r1 of (len, r2) \<Rightarrow>
                (case take_bytes len r2 of (payload, r3) \<Rightarrow>
                  (case note_section ident payload m of
                     Inl e \<Rightarrow> Inl e
                   | Inr m' \<Rightarrow> read_sections ctx m' r3))))))"
  by pat_completeness auto
termination
proof (relation "measure (\<lambda>(ctx, m, r). length (wr_data r) - wr_pos r)", goal_cases)
  case (2 ctx m r ident r1 len r2 payload r3)
  then have "r1 = r\<lparr>wr_pos := wr_pos r + 1\<rparr>"
    by (auto simp: read_byte_def)
  moreover have "advances r1 r2" "advances r2 r3"
    using 2 by (metis read_u32_advances, metis take_bytes_advances)
  ultimately show ?case using 2(1) by (auto simp: advances_def)
qed simp

declare read_sections.simps [simp del]

definition fuel_globals :: "module_info \<Rightarrow> nat \<Rightarrow> byte list \<Rightarrow> byte list" where
  "fuel_globals m fuel payload =
     uleb (mi_defined m + 2) @ (if payload = [] then [] else drop (wr_pos (skip_u32 (new_reader payload))) payload) @
     [0x7e, 1, 0x42] @ sleb (int fuel) @ [0x0b, 0x7f, 1, 0x41, 0, 0x0b]"

definition reserved_exports :: "byte list list" where
  "reserved_exports = [fuelRemainingExport, fuelExhaustedExport, fuelInitializeExport]"

fun export_loop :: "nat \<Rightarrow> wasm_reader \<Rightarrow> wasm_reader result" where
  "export_loop 0 v = Inr v"
| "export_loop (Suc n) v =
     (if wr_err v \<noteq> None then Inr v
      else (case read_name v of (name, v) \<Rightarrow>
        if name \<in> set reserved_exports then Inl (ErrNew ''reserved fuel export collision'')
        else export_loop n (skip_u32 (skip_byte v))))"

definition export_entry :: "byte list \<Rightarrow> byte \<Rightarrow> u32 \<Rightarrow> byte list" where
  "export_entry name kind index = uleb (of_nat (length name)) @ name @ kind # uleb index"

definition fuel_exports :: "module_info \<Rightarrow> byte list \<Rightarrow> byte list result" where
  "fuel_exports m payload =
     (case (if payload = [] then (0, new_reader payload) else read_u32 (new_reader payload)) of (n, v) \<Rightarrow>
       (case export_loop (unat n) v of
          Inl e \<Rightarrow> Inl e
        | Inr v' \<Rightarrow>
            (case wr_err v' of
               Some e \<Rightarrow> Inl e
             | None \<Rightarrow>
                 if wr_pos v' \<noteq> length payload then Inl (ErrNew ''trailing export bytes'')
                 else (let remaining = mi_imported m + mi_defined m in
                   Inr (uleb (n + (if mi_initialize m = None then 2 else 3)) @ drop (wr_pos v) payload @
                     export_entry fuelRemainingExport 3 remaining @ export_entry fuelExhaustedExport 3 (remaining + 1) @
                     (case mi_initialize m of None \<Rightarrow> [] | Some index \<Rightarrow> export_entry fuelInitializeExport 0 index))))))"

definition debug_name :: "byte list \<Rightarrow> bool" where
  "debug_name name \<longleftrightarrow>
     (take 7 name = bytes_of ''.debug_'') \<or> name = bytes_of ''sourceMappingURL''"

text \<open>What becomes of one section: dropped, an error, or its new payload.\<close>

definition section_payload :: "(nat \<Rightarrow> nat \<Rightarrow> go_error option) \<Rightarrow> nat \<Rightarrow> module_info \<Rightarrow> wasm_section \<Rightarrow> byte list option result" where
  "section_payload ctx fuel m s =
     (if sec_id s = 8 then Inr None
      else if sec_id s = 0 then
        (case read_name (new_reader (sec_data s)) of (name, v) \<Rightarrow>
           (case wr_err v of Some e \<Rightarrow> Inl e | None \<Rightarrow> Inr (if debug_name name then None else Some (sec_data s))))
      else if sec_id s = 6 then Inr (Some (fuel_globals m fuel (sec_data s)))
      else if sec_id s = 7 then (case fuel_exports m (sec_data s) of Inl e \<Rightarrow> Inl e | Inr p \<Rightarrow> Inr (Some p))
      else if sec_id s = 10 then
        (case meterCode ctx (sec_data s) (mi_imported m + mi_defined m) of Inl e \<Rightarrow> Inl e | Inr p \<Rightarrow> Inr (Some p))
      else Inr (Some (sec_data s)))"

record emitted =
  em_out :: "byte list"
  em_globals :: bool
  em_exports :: bool

text \<open>The missing globals and exports sections go before the first later section.\<close>

definition add_globals :: "nat \<Rightarrow> module_info \<Rightarrow> emitted \<Rightarrow> emitted" where
  "add_globals fuel m s = s\<lparr>em_out := em_out s @ append_section 6 (fuel_globals m fuel []), em_globals := True\<rparr>"

definition add_exports :: "module_info \<Rightarrow> emitted \<Rightarrow> emitted result" where
  "add_exports m s =
     (case fuel_exports m [] of Inl e \<Rightarrow> Inl e | Inr p \<Rightarrow> Inr (s\<lparr>em_out := em_out s @ append_section 7 p, em_exports := True\<rparr>))"

fun emit_sections :: "(nat \<Rightarrow> nat \<Rightarrow> go_error option) \<Rightarrow> nat \<Rightarrow> module_info \<Rightarrow> wasm_section list \<Rightarrow> emitted \<Rightarrow> emitted result" where
  "emit_sections ctx fuel m [] e = Inr e"
| "emit_sections ctx fuel m (s # ss) e =
     (let e1 = (if sec_id s \<noteq> 0 \<and> sec_id s > 6 \<and> \<not> em_globals e then add_globals fuel m e else e) in
      case (if sec_id s \<noteq> 0 \<and> sec_id s > 7 \<and> \<not> em_exports e1 then add_exports m e1 else Inr e1) of
        Inl x \<Rightarrow> Inl x
      | Inr e2 \<Rightarrow>
          (case section_payload ctx fuel m s of
             Inl x \<Rightarrow> Inl x
           | Inr None \<Rightarrow> emit_sections ctx fuel m ss e2
           | Inr (Some p) \<Rightarrow>
               (let e3 = e2\<lparr>em_out := em_out e2 @ append_section (sec_id s) p,
                      em_globals := em_globals e2 \<or> sec_id s = 6, em_exports := em_exports e2 \<or> sec_id s = 7\<rparr>
                in if length (em_out e3) > maxMeteredModule then Inl (ErrNew ''instrumented module exceeds 128MiB'')
                   else emit_sections ctx fuel m ss e3)))"

definition scan_module :: "(nat \<Rightarrow> go_error option) \<Rightarrow> byte list \<Rightarrow> module_info result" where
  "scan_module ctx data =
     (case read_sections ctx \<lparr>mi_sections = [], mi_imported = 0, mi_defined = 0, mi_initialize = None\<rparr> \<lparr>wr_data = data, wr_pos = 8, wr_err = None\<rparr> of
        Inl e \<Rightarrow> Inl e
      | Inr (m, r) \<Rightarrow> (case wr_err r of Some e \<Rightarrow> Inl e | None \<Rightarrow> Inr m))"

definition instrumentFuel :: "(nat \<Rightarrow> go_error option) \<Rightarrow> (nat \<Rightarrow> nat \<Rightarrow> go_error option) \<Rightarrow> go_error option \<Rightarrow> byte list \<Rightarrow> nat \<Rightarrow> byte list result" where
  "instrumentFuel ctx ctx' canceled data fuel =
     (if fuel < 1 \<or> fuel > MaxFuel \<or> length data < 8 \<or> length data > MaxModuleBytes
      then Inl (ErrNew ''invalid fuel instrumentation inputs'')
      else (case scan_module ctx data of
          Inl e \<Rightarrow> Inl e
        | Inr m \<Rightarrow>
            if unat (mi_imported m) + unat (mi_defined m) + 2 > 4294967295 then Inl (ErrNew ''fuel global index overflow'')
            else (case emit_sections ctx' fuel m (mi_sections m) \<lparr>em_out = take 8 data, em_globals = False, em_exports = False\<rparr> of
                Inl e \<Rightarrow> Inl e
              | Inr e \<Rightarrow>
                  (let e1 = (if em_globals e then e else add_globals fuel m e) in
                   case (if em_exports e1 then Inr e1 else add_exports m e1) of
                     Inl x \<Rightarrow> Inl x
                   | Inr e2 \<Rightarrow> (case canceled of Some c \<Rightarrow> Inl c | None \<Rightarrow> Inr (em_out e2))))))"

subsection \<open>What comes out\<close>

definition encode_section :: "wasm_section \<Rightarrow> byte list" where
  "encode_section s = append_section (sec_id s) (sec_data s)"

definition is_code :: "wasm_section \<Rightarrow> bool" where "is_code s \<longleftrightarrow> sec_id s = 10"

text \<open>The sections written for the sections read: no start section, the code metered, the globals extended.\<close>

definition written :: "(nat \<Rightarrow> nat \<Rightarrow> go_error option) \<Rightarrow> nat \<Rightarrow> module_info \<Rightarrow> wasm_section list \<Rightarrow> wasm_section list \<Rightarrow> bool" where
  "written ctx fuel m ss ss' \<longleftrightarrow>
     (\<forall>s \<in> set ss'. sec_id s \<noteq> 8) \<and>
     list_all2 (\<lambda>s s'. meterCode ctx (sec_data s) (mi_imported m + mi_defined m) = Inr (sec_data s')) (filter is_code ss) (filter is_code ss') \<and>
     (\<forall>s \<in> set ss'. sec_id s = 6 \<longrightarrow> (\<exists>q. sec_data s = fuel_globals m fuel q))"

definition emits :: "emitted \<Rightarrow> wasm_section list \<Rightarrow> emitted \<Rightarrow> bool" where
  "emits e ss e' \<longleftrightarrow> em_out e' = em_out e @ concat (map encode_section ss) \<and>
     (em_globals e' \<longrightarrow> em_globals e \<or> (\<exists>s \<in> set ss. sec_id s = 6)) \<and> (em_exports e' \<longrightarrow> em_exports e \<or> (\<exists>s \<in> set ss. sec_id s = 7))"

lemma emits_trans: "emits e ss e' \<Longrightarrow> emits e' ss' e'' \<Longrightarrow> emits e (ss @ ss') e''"
  by (auto simp: emits_def)

lemma written_append: "written ctx fuel m ss ss' \<Longrightarrow> written ctx fuel m ts ts' \<Longrightarrow> written ctx fuel m (ss @ ts) (ss' @ ts')"
  by (auto simp: written_def intro: list_all2_appendI)

lemma add_globals_emits: "\<exists>ss. emits e ss (if c then add_globals fuel m e else e) \<and> written ctx fuel m [] ss"
proof (cases c)
  case True
  then show ?thesis
    by (intro exI [of _ "[\<lparr>sec_id = 6, sec_data = fuel_globals m fuel []\<rparr>]"])
      (auto simp: emits_def written_def add_globals_def encode_section_def is_code_def)
qed (auto simp: emits_def written_def intro: exI [of _ "[]"])

lemma add_exports_emits:
  "(if c then add_exports m e else Inr e) = Inr e' \<Longrightarrow> \<exists>ss. emits e ss e' \<and> written ctx fuel m [] ss"
proof (cases c)
  case True
  assume "(if c then add_exports m e else Inr e) = Inr e'"
  with True obtain p where "fuel_exports m [] = Inr p" "e' = e\<lparr>em_out := em_out e @ append_section 7 p, em_exports := True\<rparr>"
    by (auto simp: add_exports_def split: sum.splits)
  then show ?thesis
    by (intro exI [of _ "[\<lparr>sec_id = 7, sec_data = p\<rparr>]"]) (auto simp: emits_def written_def encode_section_def is_code_def)
qed (auto simp: emits_def written_def intro: exI [of _ "[]"])

lemma section_written:
  assumes "section_payload ctx fuel m s = Inr p"
  shows "written ctx fuel m [s] (case p of None \<Rightarrow> [] | Some d \<Rightarrow> [\<lparr>sec_id = sec_id s, sec_data = d\<rparr>])"
  using assms
  by (auto simp: section_payload_def written_def is_code_def split: if_splits sum.splits prod.splits option.splits)

lemma emit_sections_written:
  "emit_sections ctx fuel m ss e = Inr e' \<Longrightarrow> \<exists>ss'. emits e ss' e' \<and> written ctx fuel m ss ss'"
proof (induction ss arbitrary: e)
  case Nil
  then show ?case by (auto simp: emits_def written_def intro: exI [of _ "[]"])
next
  case (Cons s ss)
  define e1 where "e1 = (if sec_id s \<noteq> 0 \<and> sec_id s > 6 \<and> \<not> em_globals e then add_globals fuel m e else e)"
  obtain s1 where 1: "emits e s1 e1" "written ctx fuel m [] s1"
    unfolding e1_def using add_globals_emits by blast
  from Cons.prems obtain e2 where e2: "(if sec_id s \<noteq> 0 \<and> sec_id s > 7 \<and> \<not> em_exports e1 then add_exports m e1 else Inr e1) = Inr e2"
    by (auto simp: Let_def e1_def [symmetric] split: sum.splits)
  obtain s2 where 2: "emits e1 s2 e2" "written ctx fuel m [] s2" using add_exports_emits [OF e2] by blast
  from Cons.prems e2 obtain p where p: "section_payload ctx fuel m s = Inr p"
    by (simp only: emit_sections.simps Let_def e1_def [symmetric] e2 sum.case) (auto split: sum.splits)
  define s3 where "s3 = (case p of None \<Rightarrow> [] | Some d \<Rightarrow> [\<lparr>sec_id = sec_id s, sec_data = d\<rparr>])"
  have "\<exists>e3. emits e2 s3 e3 \<and> emit_sections ctx fuel m ss e3 = Inr e'"
  proof (cases p)
    case None
    with Cons.prems p have "emit_sections ctx fuel m ss e2 = Inr e'"
      unfolding emit_sections.simps Let_def e1_def [symmetric] e2 sum.case by simp
    with None show ?thesis by (intro exI [of _ e2]) (simp add: s3_def emits_def)
  next
    case (Some d)
    let ?e3 = "e2\<lparr>em_out := em_out e2 @ append_section (sec_id s) d,
        em_globals := em_globals e2 \<or> sec_id s = 6, em_exports := em_exports e2 \<or> sec_id s = 7\<rparr>"
    from Cons.prems p Some have "emit_sections ctx fuel m ss ?e3 = Inr e'"
      unfolding emit_sections.simps Let_def e1_def [symmetric] e2 sum.case by (simp split: if_splits)
    with Some show ?thesis by (intro exI [of _ ?e3]) (auto simp: s3_def emits_def encode_section_def)
  qed
  then obtain e3 where 3: "emits e2 s3 e3" and rest: "emit_sections ctx fuel m ss e3 = Inr e'" by blast
  from Cons.IH [OF rest] obtain s4 where 4: "emits e3 s4 e'" "written ctx fuel m ss s4" by blast
  have "emits e (s1 @ s2 @ s3 @ s4) e'" using 1 2 3 4 by (blast intro: emits_trans)
  moreover have "written ctx fuel m ([] @ [] @ [s] @ ss) (s1 @ s2 @ s3 @ s4)"
    using 1(2) 2(2) section_written [OF p] 4(2) unfolding s3_def by (intro written_append)
  ultimately show ?case by auto
qed


text \<open>A module with one function: a constant, a drop and the end, one unit of fuel.\<close>

definition one_body :: "byte list" where "one_body = [0, 0x41, 5, 0x1a, 0x0b]"

definition one_module :: "byte list" where
  "one_module = [0, 0x61, 0x73, 0x6d, 1, 0, 0, 0, 10, 7, 1, 5, 0, 0x41, 5, 0x1a, 0x0b]"

definition at :: "byte list \<Rightarrow> nat \<Rightarrow> wasm_reader" where
  "at data p = \<lparr>wr_data = data, wr_pos = p, wr_err = None\<rparr>"

lemma at_simps [simp]: "wr_data (at d p) = d" "wr_pos (at d p) = p" "wr_err (at d p) = None"
  by (simp_all add: at_def)

lemma one_steps:
  "fuelInstruction (at one_body 1) = (1, False, at one_body 3)"
  "fuelInstruction (at one_body 3) = (0, False, at one_body 4)"
  "fuelInstruction (at one_body 4) = (0, True, at one_body 5)"
  "read_u32 (new_reader one_body) = (0, at one_body 1)" by code_simp+

definition one_metered :: "byte list" where
  "one_metered = [0, 0x23, 0, 0x42, 1, 0x54, 0x04, 0x40, 0x41, 0x01, 0x24, 1, 0, 0x0b, 0x23, 0, 0x42, 1, 0x7d, 0x24, 0, 0x41, 5, 0x1a, 0x0b]"

lemma one_function: "meter_function ctx 0 one_body = Inr one_metered"
proof -
  have charge: "fuelCharge [0] 0 1 1 @ take 4 (drop 1 one_body) = one_metered" "take 1 one_body = [0]" "length one_body = 5"
    "length one_metered = 25" by code_simp+
  have "meter_loop ctx 0 0 1 0 [0] (at one_body 1) = Inr (one_metered, 5, at one_body 5)"
    using charge
    by (simp add: meter_loop_go [OF one_steps(1)] meter_loop_go [OF one_steps(2)] meter_loop_go [OF one_steps(3)]
        meter_loop_end maxMeteredModule_def del: One_nat_def)
  then show ?thesis using charge by (simp add: meter_function_def one_steps(4) del: One_nat_def)
qed

lemma one_code: "meterCode ctx [1, 5, 0, 0x41, 5, 0x1a, 0x0b] 0 = Inr ([1, 25] @ one_metered)"
proof -
  have r: "read_u32 (new_reader [1, 5, 0, 0x41, 5, 0x1a, 0x0b]) = (1, at [1, 5, 0, 0x41, 5, 0x1a, 0x0b] 1)"
    "read_u32 (at [1, 5, 0, 0x41, 5, 0x1a, 0x0b] 1) = (5, at [1, 5, 0, 0x41, 5, 0x1a, 0x0b] 2)"
    "take_bytes 5 (at [1, 5, 0, 0x41, 5, 0x1a, 0x0b] 2) = (one_body, at [1, 5, 0, 0x41, 5, 0x1a, 0x0b] 7)"
    "uleb 1 = [1]" "uleb 25 = [25]" "length one_metered = 25" by code_simp+
  have "meter_functions ctx 0 1 [1] (at [1, 5, 0, 0x41, 5, 0x1a, 0x0b] 1) = Inr ([1, 25] @ one_metered, at [1, 5, 0, 0x41, 5, 0x1a, 0x0b] 7)"
    using r by (simp add: one_function maxMeteredModule_def Let_def)
  with r show ?thesis by (simp add: meterCode_def)
qed

definition one_info :: module_info where
  "one_info = \<lparr>mi_sections = [\<lparr>sec_id = 10, sec_data = [1, 5, 0, 0x41, 5, 0x1a, 0x0b]\<rparr>], mi_imported = 0, mi_defined = 0, mi_initialize = None\<rparr>"

lemma one_instrumented: "\<exists>out. instrumentFuel (\<lambda>_. None) (\<lambda>_ _. None) None one_module 3 = Inr out"
proof -
  have info: "scan_module (\<lambda>_. None) one_module = Inr one_info" by code_simp
  have len: "length one_module = 17" "length (append_section 6 (fuel_globals one_info 3 [])) < 100"
    "length (append_section 10 ([1, 25] @ one_metered)) < 100" by code_simp+
  obtain p where p: "fuel_exports one_info [] = Inr p" "length (append_section 7 p) < 300"
  proof -
    have "(case fuel_exports one_info [] of Inl _ \<Rightarrow> False | Inr p \<Rightarrow> length (append_section 7 p) < 300)" by code_simp
    then show ?thesis using that by (cases "fuel_exports one_info []") auto
  qed
  have code: "section_payload (\<lambda>_ _. None) 3 one_info \<lparr>sec_id = 10, sec_data = [1, 5, 0, 0x41, 5, 0x1a, 0x0b]\<rparr> = Inr (Some ([1, 25] @ one_metered))"
    using one_code by (simp add: section_payload_def one_info_def)
  have sections: "mi_sections one_info = [\<lparr>sec_id = 10, sec_data = [1, 5, 0, 0x41, 5, 0x1a, 0x0b]\<rparr>]"
    and small: "unat (mi_imported one_info) + unat (mi_defined one_info) + 2 \<le> 4294967295"
    by (simp_all add: one_info_def)
  show ?thesis
    using len p small
    by (simp add: instrumentFuel_def MaxFuel_def MaxModuleBytes_def info sections code add_globals_def add_exports_def
        maxMeteredModule_def Let_def del: append_Cons)
qed


end
