(* ===== verification/Context_Store.thy ===== *)
theory Context_Store
  imports Context_Types Context_Window "HOL-Library.AList" "HOL-Library.Signed_Division"
begin

section \<open>The context store\<close>

text \<open>
  sdk/agent/context/store.go, without the memory facts. The mutex makes each operation one step
  on \<open>context_store\<close>; the sessions' pointers are never shared outside it, so a session is a value
  of a map. Configuration and host functions are the record \<open>store_config\<close>: \<open>json.Marshal\<close> of a
  message's content, the token counter, the URL parser of message validation and \<open>fdiv\<close>. The
  clone functions copy values and have no counterpart.
\<close>

record store_config =
  sc_budget :: int
  sc_window :: int
  sc_counter :: "(string \<Rightarrow> int) option"
  sc_encode :: "content_block list \<Rightarrow> string"
  sc_url :: url_parser
  sc_fdiv :: fdiv

record context_session =
  cs_entries :: "context_entry list"
  cs_turn :: nat

record context_store =
  st_sessions :: "string \<Rightarrow> context_session option"
  st_next :: nat

definition empty_store :: context_store where
  "empty_store = \<lparr>st_sessions = Map.empty, st_next = 0\<rparr>"

text \<open>\<open>session\<close>: the named session, created when it is new.\<close>

definition blank_session :: context_session where
  "blank_session = \<lparr>cs_entries = [], cs_turn = 0\<rparr>"

definition store_session :: "context_store \<Rightarrow> string \<Rightarrow> context_session" where
  "store_session st i = (case st_sessions st i of None \<Rightarrow> blank_session | Some s \<Rightarrow> s)"

definition put_session :: "string \<Rightarrow> context_session \<Rightarrow> context_store \<Rightarrow> context_store" where
  "put_session i s st = st\<lparr>st_sessions := (st_sessions st)(i \<mapsto> s)\<rparr>"

definition store_entries :: "context_store \<Rightarrow> string \<Rightarrow> context_entry list" where
  "store_entries st i = cs_entries (store_session st i)"

definition message_tokens :: "store_config \<Rightarrow> message \<Rightarrow> int" where
  "message_tokens cfg m =
     (let encoded = sc_encode cfg (m_content m) in
      case sc_counter cfg of
        Some count_tokens \<Rightarrow> count_tokens encoded + 4
      | None \<Rightarrow> (int (length (runes encoded)) + 3) div 4 + 4)"

subsection \<open>Injecting and reading\<close>

text \<open>The loops that search a session for an entry change the first that has the identity.\<close>

fun update_entry :: "string \<Rightarrow> (context_entry \<Rightarrow> context_entry) \<Rightarrow> context_entry list \<Rightarrow> context_entry list option" where
  "update_entry i f [] = None"
| "update_entry i f (e # es) = (if en_id e = i then Some (f e # es) else map_option (\<lambda>es'. e # es') (update_entry i f es))"

definition role_text :: "role \<Rightarrow> string" where
  "role_text r = (case r of RoleSystem \<Rightarrow> ''system'' | RoleUser \<Rightarrow> ''user'' | RoleAssistant \<Rightarrow> ''assistant''
     | RoleTool \<Rightarrow> ''tool'' | RoleOther s \<Rightarrow> s)"

definition new_entry :: "int \<Rightarrow> context_layer \<Rightarrow> int \<Rightarrow> nat \<Rightarrow> message \<Rightarrow> context_entry" where
  "new_entry now layer tokens turn m =
     \<lparr>en_id = m_id m, en_message = m, en_meta = \<lparr>md_layer = layer, md_priority = Normal, md_tokens = tokens,
       md_compacted = False, md_externalized_path = [], md_replacement_summary = [], md_source_agent = [],
       md_origin = role_text (m_role m), md_created_at = now, md_created_turn = turn, md_excluded = False\<rparr>\<rparr>"

definition replaced_entry :: "context_layer \<Rightarrow> int \<Rightarrow> message \<Rightarrow> context_entry \<Rightarrow> context_entry" where
  "replaced_entry layer tokens m e = e\<lparr>en_message := m, en_meta := (en_meta e)\<lparr>md_tokens := tokens, md_layer := layer\<rparr>\<rparr>"

definition inject_into :: "int \<Rightarrow> context_layer \<Rightarrow> int \<Rightarrow> message \<Rightarrow> context_session \<Rightarrow> context_session" where
  "inject_into now layer tokens m s =
     s\<lparr>cs_entries :=
       (case update_entry (m_id m) (replaced_entry layer tokens m) (cs_entries s) of
          Some entries \<Rightarrow> entries
        | None \<Rightarrow> cs_entries s @ [new_entry now layer tokens (cs_turn s) m])\<rparr>"

definition store_InjectMessage ::
  "store_config \<Rightarrow> int \<Rightarrow> string \<Rightarrow> context_layer \<Rightarrow> message \<Rightarrow> context_store \<Rightarrow> go_error option \<times> context_store" where
  "store_InjectMessage cfg now agentID layer m st =
     (if agentID = [] then (Some (ErrNew ''context agent identity required''), st)
      else case message_validate (sc_url cfg) m of Some e \<Rightarrow> (Some e, st)
      | None \<Rightarrow>
        (case layer of LayerOther _ \<Rightarrow> (Some (ErrNew ''unknown context layer''), st)
         | _ \<Rightarrow>
           (let tokens = message_tokens cfg m;
                s = store_session st agentID;
                (m, st) = (if m_id m = []
                  then (m\<lparr>m_id := ''context/'' @ agentID @ ''/'' @ dec (st_next st + 1)\<rparr>, st\<lparr>st_next := st_next st + 1\<rparr>)
                  else (m, st))
            in (None, put_session agentID (inject_into now layer tokens m s) st))))"

definition store_ReadMessage :: "context_store \<Rightarrow> string \<Rightarrow> string \<Rightarrow> context_entry option" where
  "store_ReadMessage st agentID messageID = List.find (\<lambda>e. en_id e = messageID) (store_entries st agentID)"

definition store_Entries :: "context_store \<Rightarrow> string \<Rightarrow> context_entry list" where
  "store_Entries st agentID = store_entries st agentID"

definition store_AdvanceTurn :: "string \<Rightarrow> context_store \<Rightarrow> context_store" where
  "store_AdvanceTurn agentID st = (let s = store_session st agentID in put_session agentID (s\<lparr>cs_turn := cs_turn s + 1\<rparr>) st)"

subsection \<open>Snapshot and budget\<close>

definition add_stats :: "context_metadata \<Rightarrow> (context_layer \<Rightarrow> layer_stats option) \<Rightarrow> context_layer \<Rightarrow> layer_stats option" where
  "add_stats md layers =
     (let old = (case layers (md_layer md) of None \<Rightarrow> \<lparr>ls_tokens = 0, ls_entries = 0, ls_percentage = Finite 0\<rparr> | Some s \<Rightarrow> s)
      in layers(md_layer md \<mapsto> old\<lparr>ls_tokens := ls_tokens old + md_tokens md, ls_entries := ls_entries old + 1\<rparr>))"

definition snapshot_entry :: "nat \<Rightarrow> context_entry \<Rightarrow> entry_snapshot" where
  "snapshot_entry turn e =
     \<lparr>es_id = en_id e, es_layer = md_layer (en_meta e), es_priority = md_priority (en_meta e), es_tokens = md_tokens (en_meta e),
      es_origin = md_origin (en_meta e), es_age = turn - md_created_turn (en_meta e),
      es_preview = first_runes 128 (message_text (en_message e))\<rparr>"

text \<open>\<open>patterns\<close>: the map of patterns is an association list; its sorted values are returned.\<close>

definition pattern_of :: "string \<Rightarrow> (string \<times> tool_pattern) list \<Rightarrow> tool_pattern" where
  "pattern_of n ps = (case map_of ps n of None \<Rightarrow> \<lparr>tp_tool = [], tp_calls = 0, tp_average = 0, tp_total = 0\<rparr> | Some p \<Rightarrow> p)"

definition pattern_block :: "int \<Rightarrow> content_block \<Rightarrow> (string \<Rightarrow> string option) \<times> (string \<times> tool_pattern) list \<Rightarrow>
    (string \<Rightarrow> string option) \<times> (string \<times> tool_pattern) list" where
  "pattern_block tokens b s =
     (let (names, ps) = s;
          (names, ps) = (case cb_tool_call b of None \<Rightarrow> (names, ps)
            | Some c \<Rightarrow> (names(tc_id c \<mapsto> tc_name c),
                AList.update (tc_name c) (let p = pattern_of (tc_name c) ps in p\<lparr>tp_tool := tc_name c, tp_calls := tp_calls p + 1\<rparr>) ps))
      in (case cb_tool_result b of None \<Rightarrow> (names, ps)
          | Some r \<Rightarrow>
            (case names (tr_call_id r) of None \<Rightarrow> (names, ps)
             | Some n \<Rightarrow> if n = [] then (names, ps)
                 else (names, AList.update n (let p = pattern_of n ps in p\<lparr>tp_total := tp_total p + tokens\<rparr>) ps))))"

definition tool_patterns :: "context_entry list \<Rightarrow> int \<Rightarrow> tool_pattern list" where
  "tool_patterns entries newest =
     (let entries = (if newest > 0 \<and> int (length entries) > newest then drop (length entries - nat newest) entries else entries);
          (names, ps) = fold (\<lambda>e. fold (pattern_block (md_tokens (en_meta e))) (m_content (en_message e))) entries (Map.empty, [])
      in sort_key tp_tool (map (\<lambda>(n, p). if tp_calls p > 0 then p\<lparr>tp_average := tp_total p sdiv tp_calls p\<rparr> else p) ps))"

definition store_Snapshot :: "store_config \<Rightarrow> context_store \<Rightarrow> string \<Rightarrow> context_snapshot" where
  "store_Snapshot cfg st agentID =
     (let blank = \<lparr>sn_total = 0, sn_budget = sc_budget cfg, sn_window = sc_window cfg, sn_ratio = Finite 0,
            sn_layers = Map.empty, sn_entries = [], sn_patterns = []\<rparr> in
      case st_sessions st agentID of None \<Rightarrow> blank
      | Some s \<Rightarrow>
        (let shown = filter (\<lambda>e. \<not> md_excluded (en_meta e)) (cs_entries s);
             total = (\<Sum>e \<leftarrow> shown. md_tokens (en_meta e));
             layers = fold (\<lambda>e. add_stats (en_meta e)) shown Map.empty
         in blank\<lparr>sn_total := total,
              sn_ratio := (if sc_budget cfg > 0 then sc_fdiv cfg total (sc_budget cfg) else Finite 0),
              sn_layers := (\<lambda>l. map_option (\<lambda>s. if total > 0 then s\<lparr>ls_percentage := sc_fdiv cfg (ls_tokens s) total\<rparr> else s) (layers l)),
              sn_entries := map (snapshot_entry (cs_turn s)) shown,
              sn_patterns := tool_patterns (cs_entries s) 0\<rparr>))"

definition store_Budget :: "store_config \<Rightarrow> context_store \<Rightarrow> string \<Rightarrow> budget_info" where
  "store_Budget cfg st agentID =
     (let sn = store_Snapshot cfg st agentID; remaining = sn_budget sn - sn_total sn in
      \<lparr>bi_window = sn_window sn, bi_budget = sn_budget sn, bi_used = sn_total sn,
       bi_remaining = (if remaining < 0 then 0 else remaining), bi_ratio = sn_ratio sn\<rparr>)"

definition store_ToolPatterns :: "context_store \<Rightarrow> string \<Rightarrow> int \<Rightarrow> tool_pattern list" where
  "store_ToolPatterns st agentID newest =
     (case st_sessions st agentID of None \<Rightarrow> [] | Some s \<Rightarrow> tool_patterns (cs_entries s) newest)"

subsection \<open>Removing, rewriting and tagging\<close>

definition not_found :: go_error where
  "not_found = ErrNew ''context message not found''"

definition edit_entry :: "string \<Rightarrow> string \<Rightarrow> (context_entry \<Rightarrow> context_entry) \<Rightarrow> context_store \<Rightarrow> go_error option \<times> context_store" where
  "edit_entry agentID messageID f st =
     (let s = store_session st agentID in
      case update_entry messageID f (cs_entries s) of
        Some entries \<Rightarrow> (None, put_session agentID (s\<lparr>cs_entries := entries\<rparr>) st)
      | None \<Rightarrow> (Some not_found, put_session agentID s st))"

definition set_entries :: "string \<Rightarrow> (context_entry list \<Rightarrow> context_entry list) \<Rightarrow> context_store \<Rightarrow> context_store" where
  "set_entries agentID f st =
     (let s = store_session st agentID in put_session agentID (s\<lparr>cs_entries := f (cs_entries s)\<rparr>) st)"

definition store_RemoveMessage :: "string \<Rightarrow> string \<Rightarrow> context_store \<Rightarrow> go_error option \<times> context_store" where
  "store_RemoveMessage agentID messageID st =
     (if list_ex (\<lambda>e. en_id e = messageID) (store_entries st agentID)
      then (None, set_entries agentID (remove_first (\<lambda>e. en_id e = messageID)) st)
      else (Some not_found, set_entries agentID id st))"

text \<open>\<open>resolveRange\<close>.\<close>

fun find_index :: "('a \<Rightarrow> bool) \<Rightarrow> 'a list \<Rightarrow> nat option" where
  "find_index p [] = None"
| "find_index p (x # xs) = (if p x then Some 0 else map_option Suc (find_index p xs))"

definition resolve_selector :: "string list \<Rightarrow> selector \<Rightarrow> nat result" where
  "resolve_selector ids sel =
     (let bad = Inl (ErrNew ''context message selector not found or out of range'') in
      case sel of
        FromStart \<Rightarrow> Inr 0
      | ToEnd \<Rightarrow> Inr (length ids)
      | ByIndex i \<Rightarrow> if 0 \<le> i \<and> i \<le> int (length ids) then Inr (nat i) else bad
      | ByID i \<Rightarrow> (case find_index (\<lambda>x. x = i) ids of Some n \<Rightarrow> Inr n | None \<Rightarrow> bad)
      | SelectorOther \<Rightarrow> bad)"

definition resolveRange :: "message_range \<Rightarrow> string list \<Rightarrow> (nat \<times> nat) result" where
  "resolveRange selected ids =
     (case resolve_selector ids (rg_from selected) of Inl e \<Rightarrow> Inl e
      | Inr f \<Rightarrow>
        (case resolve_selector ids (rg_to selected) of
           Inl e \<Rightarrow> Inl (ErrNew ''invalid context message range'')
         | Inr t \<Rightarrow> if t < f then Inl (ErrNew ''invalid context message range'') else Inr (f, t)))"

definition store_RemoveRange :: "string \<Rightarrow> message_range \<Rightarrow> context_store \<Rightarrow> go_error option \<times> context_store" where
  "store_RemoveRange agentID selected st =
     (case resolveRange selected (map en_id (store_entries st agentID)) of
        Inl e \<Rightarrow> (Some e, set_entries agentID id st)
      | Inr (f, t) \<Rightarrow> (None, set_entries agentID (\<lambda>es. take f es @ drop t es) st))"

definition store_RewriteMessage :: "store_config \<Rightarrow> string \<Rightarrow> string \<Rightarrow> message \<Rightarrow> context_store \<Rightarrow> go_error option \<times> context_store" where
  "store_RewriteMessage cfg agentID messageID m st =
     (case message_validate (sc_url cfg) m of Some e \<Rightarrow> (Some e, st)
      | None \<Rightarrow>
        edit_entry agentID messageID
          (\<lambda>e. e\<lparr>en_message := m\<lparr>m_id := messageID\<rparr>,
                 en_meta := (en_meta e)\<lparr>md_tokens := message_tokens cfg (m\<lparr>m_id := messageID\<rparr>), md_compacted := True\<rparr>\<rparr>) st)"

definition store_ClearLayer :: "string \<Rightarrow> context_layer \<Rightarrow> context_store \<Rightarrow> context_store" where
  "store_ClearLayer agentID layer = set_entries agentID (filter (\<lambda>e. md_layer (en_meta e) \<noteq> layer))"

definition store_ClearConversation :: "string \<Rightarrow> context_store \<Rightarrow> context_store" where
  "store_ClearConversation agentID = store_ClearLayer agentID RuntimeInject"

definition store_ClearAll :: "string \<Rightarrow> context_store \<Rightarrow> context_store" where
  "store_ClearAll agentID st = st\<lparr>st_sessions := (st_sessions st)(agentID := None)\<rparr>"

text \<open>
  \<open>SlidingWindow\<close>. \<open>order\<close> is the iteration order of the map of protocol groups in each round;
  \<open>retainProtocolGroups\<close> always finds its fixed point (\<open>retain_groups_exact\<close>).
\<close>

definition window_wanted :: "nat \<Rightarrow> context_entry list \<Rightarrow> bool list" where
  "window_wanted cut0 entries =
     map (\<lambda>(i, e). i \<ge> cut0 \<or> md_layer (en_meta e) \<noteq> RuntimeInject \<or> md_priority (en_meta e) = Critical) (enumerate 0 entries)"

definition store_SlidingWindow ::
  "(message list \<Rightarrow> nat \<Rightarrow> nat list list) \<Rightarrow> string \<Rightarrow> int \<Rightarrow> context_store \<Rightarrow> go_error option \<times> context_store" where
  "store_SlidingWindow order agentID keep st =
     (if keep < 0 then (Some (ErrNew ''negative context window''), st)
      else (let entries = store_entries st agentID;
                messages = map en_message entries;
                wanted = window_wanted (safeWindowCut messages keep) entries;
                preserved = the (retainProtocolGroups (order messages) messages wanted);
                ids = map m_id preserved
            in (None, set_entries agentID (filter (\<lambda>e. m_id (en_message e) \<in> set ids)) st)))"

text \<open>The first block with a tool result gets the summary as its only content.\<close>

definition result_with_text :: "string \<Rightarrow> tool_result \<Rightarrow> tool_result" where
  "result_with_text summary r = ToolResult (tr_call_id r) [text_block summary] (tr_is_error r)"

fun with_result :: "tool_result \<Rightarrow> content_block \<Rightarrow> content_block" where
  "with_result r (ContentBlock k t c _ rf rs ps rfu im au vi) = ContentBlock k t c (Some r) rf rs ps rfu im au vi"

fun summarize_first :: "string \<Rightarrow> content_block list \<Rightarrow> content_block list option" where
  "summarize_first summary [] = None"
| "summarize_first summary (b # bs) =
     (case cb_tool_result b of
        Some r \<Rightarrow> Some (with_result (result_with_text summary r) b # bs)
      | None \<Rightarrow> map_option (\<lambda>bs'. b # bs') (summarize_first summary bs))"

definition store_ReplaceToolResult :: "store_config \<Rightarrow> string \<Rightarrow> string \<Rightarrow> string \<Rightarrow> context_store \<Rightarrow> go_error option \<times> context_store" where
  "store_ReplaceToolResult cfg agentID messageID summary st =
     (case store_ReadMessage st agentID messageID of None \<Rightarrow> (Some not_found, st)
      | Some e \<Rightarrow>
        (case summarize_first summary (m_content (en_message e)) of
           None \<Rightarrow> (Some (ErrNew ''context message is not a tool result''), st)
         | Some content \<Rightarrow> store_RewriteMessage cfg agentID messageID ((en_message e)\<lparr>m_content := content\<rparr>) st))"

definition store_TagPriority :: "string \<Rightarrow> string \<Rightarrow> priority \<Rightarrow> context_store \<Rightarrow> go_error option \<times> context_store" where
  "store_TagPriority agentID messageID p = edit_entry agentID messageID (\<lambda>e. e\<lparr>en_meta := (en_meta e)\<lparr>md_priority := p\<rparr>\<rparr>)"

definition store_TagExclude :: "string \<Rightarrow> string \<Rightarrow> context_store \<Rightarrow> go_error option \<times> context_store" where
  "store_TagExclude agentID messageID = edit_entry agentID messageID (\<lambda>e. e\<lparr>en_meta := (en_meta e)\<lparr>md_excluded := True\<rparr>\<rparr>)"

text \<open>
  \<open>RewriteBatch\<close> (services.go): every rewrite is checked before any is applied. The index map of
  the session has the last entry of an identity.
\<close>

record message_rewrite =
  rw_id :: string
  rw_message :: message

fun check_rewrites :: "url_parser \<Rightarrow> string list \<Rightarrow> message_rewrite list \<Rightarrow> go_error option" where
  "check_rewrites url seen [] = None"
| "check_rewrites url seen (r # rs) =
     (if rw_id r = [] \<or> rw_id r \<in> set seen then Some (ErrNew ''empty/duplicate context rewrite identity'')
      else case message_validate url (rw_message r) of Some e \<Rightarrow> Some e
      | None \<Rightarrow> check_rewrites url (rw_id r # seen) rs)"

fun last_id :: "string \<Rightarrow> context_entry list \<Rightarrow> nat option" where
  "last_id i [] = None"
| "last_id i (e # es) = (case last_id i es of Some n \<Rightarrow> Some (n + 1) | None \<Rightarrow> if en_id e = i then Some 0 else None)"

definition rewrite_entry :: "store_config \<Rightarrow> context_entry list \<Rightarrow> message_rewrite \<Rightarrow> context_entry list \<Rightarrow> context_entry list" where
  "rewrite_entry cfg old r es =
     (let i = the (last_id (rw_id r) old); m = (rw_message r)\<lparr>m_id := rw_id r\<rparr>; e = es ! i in
      es[i := e\<lparr>en_message := m, en_meta := (en_meta e)\<lparr>md_tokens := message_tokens cfg m\<rparr>\<rparr>])"

definition store_RewriteBatch :: "store_config \<Rightarrow> string \<Rightarrow> message_rewrite list \<Rightarrow> context_store \<Rightarrow> go_error option \<times> context_store" where
  "store_RewriteBatch cfg agentID rewrites st =
     (if agentID = [] then (Some (ErrNew ''context agent identity required''), st)
      else case check_rewrites (sc_url cfg) [] rewrites of Some e \<Rightarrow> (Some e, st)
      | None \<Rightarrow>
        (case st_sessions st agentID of None \<Rightarrow> (Some (ErrNew ''context session not found''), st)
         | Some s \<Rightarrow>
           if list_ex (\<lambda>r. last_id (rw_id r) (cs_entries s) = None) rewrites
           then (Some (ErrNew ''context rewrite target missing; no batch changes applied''), st)
           else (None, put_session agentID (s\<lparr>cs_entries := fold (rewrite_entry cfg (cs_entries s)) rewrites (cs_entries s)\<rparr>) st)))"

subsection \<open>Every operation keeps the store consistent\<close>

text \<open>
  In a session every identity occurs once and is the identity of its message; every message is
  valid, apart from an identity the store generated; its layer is known; its token estimate is
  that of the message as it now stands; and no entry is younger than the session's turn.
\<close>

definition entry_ok :: "store_config \<Rightarrow> context_entry \<Rightarrow> bool" where
  "entry_ok cfg e \<longleftrightarrow>
     en_id e = m_id (en_message e) \<and> en_id e \<noteq> [] \<and> message_validate (sc_url cfg) ((en_message e)\<lparr>m_id := []\<rparr>) = None \<and>
     md_tokens (en_meta e) = message_tokens cfg (en_message e) \<and> (\<forall>l. md_layer (en_meta e) \<noteq> LayerOther l)"

definition session_ok :: "store_config \<Rightarrow> context_session \<Rightarrow> bool" where
  "session_ok cfg s \<longleftrightarrow>
     distinct (map en_id (cs_entries s)) \<and> (\<forall>e \<in> set (cs_entries s). entry_ok cfg e \<and> md_created_turn (en_meta e) \<le> cs_turn s)"

definition store_inv :: "store_config \<Rightarrow> context_store \<Rightarrow> bool" where
  "store_inv cfg st \<longleftrightarrow> (\<forall>i s. st_sessions st i = Some s \<longrightarrow> session_ok cfg s)"

lemma tokens_of_content [simp]: "message_tokens cfg (m\<lparr>m_id := i\<rparr>) = message_tokens cfg m"
  by (simp add: message_tokens_def)

lemma valid_without_id: "message_validate url m = None \<Longrightarrow> message_validate url (m\<lparr>m_id := []\<rparr>) = None"
  by (auto simp: message_validate_def validStrings_def utf8_valid_def split: if_splits role.splits)

lemma store_session_ok: "store_inv cfg st \<Longrightarrow> session_ok cfg (store_session st i)"
  by (auto simp: store_inv_def store_session_def session_ok_def blank_session_def split: option.split)

lemma put_session_inv: "store_inv cfg st \<Longrightarrow> session_ok cfg s \<Longrightarrow> store_inv cfg (put_session i s st)"
  by (simp add: store_inv_def put_session_def)

lemma store_entries_put [simp]: "store_entries (put_session i s st) j = (if j = i then cs_entries s else store_entries st j)"
  by (simp add: store_entries_def store_session_def put_session_def)

lemma subseq_set: "subseq xs ys \<Longrightarrow> set xs \<subseteq> set ys"
  by (blast elim: list_emb_set)

lemma subseq_distinct_map: "subseq xs ys \<Longrightarrow> distinct (map f ys) \<Longrightarrow> distinct (map f xs)"
  by (induction rule: list_emb.induct) (auto dest: list_emb_set)

lemma set_entries_inv: "store_inv cfg st \<Longrightarrow> (\<And>es. subseq (f es) es) \<Longrightarrow> store_inv cfg (set_entries i f st)"
proof -
  assume inv: "store_inv cfg st" and f: "\<And>es. subseq (f es) es"
  let ?s = "store_session st i"
  have s: "session_ok cfg ?s" by (rule store_session_ok [OF inv])
  then have "session_ok cfg (?s\<lparr>cs_entries := f (cs_entries ?s)\<rparr>)"
    using subseq_set [OF f] subseq_distinct_map [OF f, of en_id "cs_entries ?s"] unfolding session_ok_def by auto
  with inv show ?thesis by (simp add: set_entries_def Let_def put_session_inv)
qed

lemma update_entry_None: "update_entry i f es = None \<longleftrightarrow> i \<notin> en_id ` set es"
  by (induction es) auto

lemma update_entry_Some:
  "update_entry i f es = Some es' \<Longrightarrow> (\<And>e. en_id (f e) = en_id e) \<Longrightarrow>
   map en_id es' = map en_id es \<and> (\<forall>x \<in> set es'. x \<in> set es \<or> (\<exists>e \<in> set es. en_id e = i \<and> x = f e))"
proof (induction es arbitrary: es')
  case (Cons a es)
  show ?case
  proof (cases "en_id a = i")
    case True
    with Cons.prems show ?thesis by auto
  next
    case False
    with Cons.prems(1) obtain z where z: "update_entry i f es = Some z" "es' = a # z" by auto
    from Cons.IH [OF z(1) Cons.prems(2)] show ?thesis by (auto simp: z(2))
  qed
qed simp

lemma update_entry_ok:
  assumes "session_ok cfg s" "update_entry i f (cs_entries s) = Some es"
    "\<And>e. en_id (f e) = en_id e" "\<And>e. md_created_turn (en_meta (f e)) = md_created_turn (en_meta e)"
    "\<And>e. entry_ok cfg e \<Longrightarrow> en_id e = i \<Longrightarrow> entry_ok cfg (f e)"
  shows "session_ok cfg (s\<lparr>cs_entries := es\<rparr>)"
  using assms(1) update_entry_Some [OF assms(2,3)] assms(4,5) unfolding session_ok_def by fastforce

lemma edit_entry_inv:
  assumes "store_inv cfg st" "\<And>e. en_id (f e) = en_id e" "\<And>e. md_created_turn (en_meta (f e)) = md_created_turn (en_meta e)"
    "\<And>e. entry_ok cfg e \<Longrightarrow> en_id e = i \<Longrightarrow> entry_ok cfg (f e)"
  shows "store_inv cfg (snd (edit_entry a i f st))"
  using store_session_ok [OF assms(1), of a] update_entry_ok [where f = f, OF _ _ assms(2-4), of "store_session st a"]
  by (auto simp: edit_entry_def Let_def intro!: put_session_inv assms(1) split: option.split)

lemma inject_into_ok:
  assumes s: "session_ok cfg s" and m: "m_id m \<noteq> []" "message_validate (sc_url cfg) (m\<lparr>m_id := []\<rparr>) = None"
    and l: "\<forall>l. layer \<noteq> LayerOther l"
  shows "session_ok cfg (inject_into now layer (message_tokens cfg m) m s)"
proof (cases "update_entry (m_id m) (replaced_entry layer (message_tokens cfg m) m) (cs_entries s)")
  case None
  then have "m_id m \<notin> en_id ` set (cs_entries s)" by (simp add: update_entry_None)
  moreover have "entry_ok cfg (new_entry now layer (message_tokens cfg m) (cs_turn s) m)"
    using m l by (auto simp: entry_ok_def new_entry_def)
  ultimately show ?thesis using s None by (auto simp: session_ok_def inject_into_def new_entry_def)
next
  case (Some es)
  have "session_ok cfg (s\<lparr>cs_entries := es\<rparr>)"
    using m l by (intro update_entry_ok [OF s Some]) (auto simp: entry_ok_def replaced_entry_def)
  with Some show ?thesis by (simp add: inject_into_def)
qed

lemma InjectMessage_inv: "store_inv cfg st \<Longrightarrow> store_inv cfg (snd (store_InjectMessage cfg now a layer m st))"
proof (cases "a = [] \<or> message_validate (sc_url cfg) m \<noteq> None \<or> (\<exists>l. layer = LayerOther l)")
  case True
  then show ?thesis if "store_inv cfg st" using that by (auto simp: store_InjectMessage_def split: option.split context_layer.split)
next
  case False
  assume inv: "store_inv cfg st"
  define m' where "m' = (if m_id m = [] then m\<lparr>m_id := ''context/'' @ a @ ''/'' @ dec (st_next st + 1)\<rparr> else m)"
  define st' where "st' = (if m_id m = [] then st\<lparr>st_next := st_next st + 1\<rparr> else st)"
  have m': "m_id m' \<noteq> []" "message_validate (sc_url cfg) (m'\<lparr>m_id := []\<rparr>) = None" "message_tokens cfg m' = message_tokens cfg m"
    using False by (auto simp: m'_def valid_without_id)
  have "session_ok cfg (inject_into now layer (message_tokens cfg m') m' (store_session st a))"
    using False by (intro inject_into_ok store_session_ok inv m') auto
  moreover have "store_inv cfg st'" using inv by (simp add: st'_def store_inv_def)
  moreover have "snd (store_InjectMessage cfg now a layer m st) = put_session a (inject_into now layer (message_tokens cfg m) m' (store_session st a)) st'"
    using False by (cases layer) (auto simp: store_InjectMessage_def m'_def st'_def Let_def)
  ultimately show ?thesis by (simp add: put_session_inv m'(3))
qed

lemma RewriteMessage_inv: "store_inv cfg st \<Longrightarrow> store_inv cfg (snd (store_RewriteMessage cfg a i m st))"
proof (cases "message_validate (sc_url cfg) m")
  case None
  assume "store_inv cfg st"
  moreover have "entry_ok cfg (e\<lparr>en_message := m\<lparr>m_id := i\<rparr>,
      en_meta := (en_meta e)\<lparr>md_tokens := message_tokens cfg m, md_compacted := True\<rparr>\<rparr>)" if "entry_ok cfg e" "en_id e = i" for e
    using that valid_without_id [OF None] by (auto simp: entry_ok_def)
  ultimately show ?thesis by (auto simp: store_RewriteMessage_def None intro!: edit_entry_inv)
qed (simp add: store_RewriteMessage_def)

lemma last_id_Some: "last_id i es = Some n \<Longrightarrow> n < length es \<and> en_id (es ! n) = i"
  by (induction es arbitrary: n) (auto split: option.splits if_splits)

lemma rewrite_entries_ok:
  assumes old: "session_ok cfg (s\<lparr>cs_entries := old\<rparr>)"
  shows "session_ok cfg (s\<lparr>cs_entries := es\<rparr>) \<Longrightarrow> map en_id es = map en_id old \<Longrightarrow>
    \<forall>r \<in> set rs. last_id (rw_id r) old \<noteq> None \<and> rw_id r \<noteq> [] \<and> message_validate (sc_url cfg) (rw_message r) = None \<Longrightarrow>
    session_ok cfg (s\<lparr>cs_entries := fold (rewrite_entry cfg old) rs es\<rparr>)"
proof (induction rs arbitrary: es)
  case (Cons r rs)
  from Cons.prems(3) obtain n where n: "last_id (rw_id r) old = Some n" by auto
  let ?m = "(rw_message r)\<lparr>m_id := rw_id r\<rparr>"
  let ?e = "(es ! n)\<lparr>en_message := ?m, en_meta := (en_meta (es ! n))\<lparr>md_tokens := message_tokens cfg ?m\<rparr>\<rparr>"
  have r: "rewrite_entry cfg old r es = es[n := ?e]" by (simp add: rewrite_entry_def n Let_def)
  have len: "n < length es" "en_id (es ! n) = rw_id r"
    using last_id_Some [OF n] Cons.prems(2) by (metis length_map, metis length_map nth_map)
  have ids: "map en_id (es[n := ?e]) = map en_id es"
    using len by (simp add: map_update list_update_same_conv)
  have "es ! n \<in> set es" using len by simp
  then have ok: "entry_ok cfg (es ! n)" "md_created_turn (en_meta (es ! n)) \<le> cs_turn s"
    using Cons.prems(1) by (auto simp: session_ok_def)
  then have "entry_ok cfg ?e" using len Cons.prems(3) valid_without_id by (auto simp: entry_ok_def)
  with ok have "session_ok cfg (s\<lparr>cs_entries := es[n := ?e]\<rparr>)"
    using Cons.prems(1) ids unfolding session_ok_def by (auto dest!: set_update_subset_insert [THEN subsetD])
  with Cons.IH [of "es[n := ?e]"] Cons.prems(2,3) ids show ?case by (simp add: r)
qed simp

lemma check_rewrites_ok:
  "check_rewrites url seen rs = None \<Longrightarrow> \<forall>r \<in> set rs. rw_id r \<noteq> [] \<and> message_validate url (rw_message r) = None"
  by (induction rs arbitrary: seen) (auto split: if_splits option.splits)

lemma RewriteBatch_inv: "store_inv cfg st \<Longrightarrow> store_inv cfg (snd (store_RewriteBatch cfg a rs st))"
proof (cases "store_RewriteBatch cfg a rs st = (None, snd (store_RewriteBatch cfg a rs st))")
  case True
  assume inv: "store_inv cfg st"
  from True obtain s where s: "st_sessions st a = Some s" "\<not> list_ex (\<lambda>r. last_id (rw_id r) (cs_entries s) = None) rs"
      "check_rewrites (sc_url cfg) [] rs = None"
      "snd (store_RewriteBatch cfg a rs st) = put_session a (s\<lparr>cs_entries := fold (rewrite_entry cfg (cs_entries s)) rs (cs_entries s)\<rparr>) st"
    by (auto simp: store_RewriteBatch_def split: if_splits option.splits)
  from inv s(1) have ok: "session_ok cfg s" by (auto simp: store_inv_def)
  have "session_ok cfg (s\<lparr>cs_entries := fold (rewrite_entry cfg (cs_entries s)) rs (cs_entries s)\<rparr>)"
    using ok s(2) check_rewrites_ok [OF s(3)] by (intro rewrite_entries_ok) (auto simp: list_ex_iff)
  with inv s(4) show ?thesis by (simp add: put_session_inv)
next
  case False
  then show ?thesis if "store_inv cfg st"
    using that by (auto simp: store_RewriteBatch_def split: if_splits option.splits)
qed

text \<open>The operations a host or a lifecycle hook may call, in any order.\<close>

datatype store_op =
    OpInject int string context_layer message
  | OpAdvanceTurn string
  | OpRemove string string
  | OpRemoveRange string message_range
  | OpRewrite string string message
  | OpRewriteBatch string "message_rewrite list"
  | OpClearLayer string context_layer
  | OpClearAll string
  | OpSlidingWindow "message list \<Rightarrow> nat \<Rightarrow> nat list list" string int
  | OpReplaceToolResult string string string
  | OpTagPriority string string priority
  | OpTagExclude string string

fun store_apply :: "store_config \<Rightarrow> store_op \<Rightarrow> context_store \<Rightarrow> context_store" where
  "store_apply cfg (OpInject now a l m) st = snd (store_InjectMessage cfg now a l m st)"
| "store_apply cfg (OpAdvanceTurn a) st = store_AdvanceTurn a st"
| "store_apply cfg (OpRemove a i) st = snd (store_RemoveMessage a i st)"
| "store_apply cfg (OpRemoveRange a r) st = snd (store_RemoveRange a r st)"
| "store_apply cfg (OpRewrite a i m) st = snd (store_RewriteMessage cfg a i m st)"
| "store_apply cfg (OpRewriteBatch a rs) st = snd (store_RewriteBatch cfg a rs st)"
| "store_apply cfg (OpClearLayer a l) st = store_ClearLayer a l st"
| "store_apply cfg (OpClearAll a) st = store_ClearAll a st"
| "store_apply cfg (OpSlidingWindow order a keep) st = snd (store_SlidingWindow order a keep st)"
| "store_apply cfg (OpReplaceToolResult a i t) st = snd (store_ReplaceToolResult cfg a i t st)"
| "store_apply cfg (OpTagPriority a i p) st = snd (store_TagPriority a i p st)"
| "store_apply cfg (OpTagExclude a i) st = snd (store_TagExclude a i st)"

definition store_run :: "store_config \<Rightarrow> store_op list \<Rightarrow> context_store" where
  "store_run cfg ops = fold (store_apply cfg) ops empty_store"

lemma subseq_take_drop: "f \<le> t \<Longrightarrow> subseq (take f xs @ drop t xs) xs"
proof -
  assume "f \<le> t"
  then have "drop t xs = drop (t - f) (drop f xs)" by simp
  then have "subseq (drop t xs) (drop f xs)" by (metis suffix_drop suffix_imp_subseq)
  then have "subseq (take f xs @ drop t xs) (take f xs @ drop f xs)" by (intro list_emb_append_mono) auto
  then show ?thesis by simp
qed

lemma store_apply_inv [alva_inv]: "store_inv cfg st \<Longrightarrow> store_inv cfg (store_apply cfg op st)"
proof (cases op)
  case (OpAdvanceTurn a)
  assume inv: "store_inv cfg st"
  from store_session_ok [OF inv, of a] have "session_ok cfg (store_session st a\<lparr>cs_turn := cs_turn (store_session st a) + 1\<rparr>)"
    by (auto simp: session_ok_def le_SucI)
  with inv OpAdvanceTurn show ?thesis by (simp add: store_AdvanceTurn_def Let_def put_session_inv)
next
  case (OpRemove a i)
  assume "store_inv cfg st"
  then show ?thesis by (auto simp: OpRemove store_RemoveMessage_def intro!: set_entries_inv subseq_remove_first)
next
  case (OpRemoveRange a r)
  assume inv: "store_inv cfg st"
  have "f \<le> t" if "resolveRange r ids = Inr (f, t)" for ids f t
    using that by (auto simp: resolveRange_def split: sum.splits if_splits)
  with inv show ?thesis
    by (auto simp: OpRemoveRange store_RemoveRange_def intro!: set_entries_inv subseq_take_drop split: sum.split)
next
  case (OpClearLayer a l)
  assume "store_inv cfg st"
  then show ?thesis by (auto simp: OpClearLayer store_ClearLayer_def intro!: set_entries_inv)
next
  case (OpClearAll a)
  assume "store_inv cfg st"
  then show ?thesis by (auto simp: OpClearAll store_ClearAll_def store_inv_def)
next
  case (OpSlidingWindow order a keep)
  assume "store_inv cfg st"
  then show ?thesis by (auto simp: OpSlidingWindow store_SlidingWindow_def Let_def intro!: set_entries_inv)
next
  case (OpReplaceToolResult a i t)
  assume "store_inv cfg st"
  then show ?thesis
    by (auto simp: OpReplaceToolResult store_ReplaceToolResult_def intro!: RewriteMessage_inv split: option.split)
next
  case (OpTagPriority a i p)
  assume "store_inv cfg st"
  then show ?thesis by (auto simp: OpTagPriority store_TagPriority_def entry_ok_def intro!: edit_entry_inv)
next
  case (OpTagExclude a i)
  assume "store_inv cfg st"
  then show ?thesis by (auto simp: OpTagExclude store_TagExclude_def entry_ok_def intro!: edit_entry_inv)
qed (simp_all add: InjectMessage_inv RewriteMessage_inv RewriteBatch_inv)

lemma store_run_inv: "store_inv cfg (store_run cfg ops)"
proof -
  have "store_inv cfg (fold (store_apply cfg) ops st)" if "store_inv cfg st" for st
    using that by (induction ops arbitrary: st) (simp_all add: store_apply_inv)
  moreover have "store_inv cfg empty_store" by (simp add: store_inv_def empty_store_def)
  ultimately show ?thesis by (simp add: store_run_def)
qed

text \<open>
  The context budget is honest. After any sequence of operations the used tokens of a session
  are the sum of the estimates of the messages as they now stand, over the entries that are not
  excluded; what remains is the rest of the configured budget, never negative; and the identities
  of the session's entries are distinct and are those of their messages.
\<close>

theorem context_budget_is_accounted:
  "let st = store_run cfg ops; es = store_Entries st a; b = store_Budget cfg st a in
     bi_used b = (\<Sum>e \<leftarrow> filter (\<lambda>e. \<not> md_excluded (en_meta e)) es. message_tokens cfg (en_message e)) \<and>
     bi_remaining b = max 0 (sc_budget cfg - bi_used b) \<and>
     distinct (map en_id es) \<and> map en_id es = map (m_id \<circ> en_message) es \<and> [] \<notin> set (map en_id es)"
proof -
  let ?st = "store_run cfg ops"
  have ok: "session_ok cfg (store_session ?st a)" by (rule store_session_ok [OF store_run_inv])
  then have e: "\<forall>e \<in> set (store_entries ?st a). entry_ok cfg e" and d: "distinct (map en_id (store_entries ?st a))"
    by (auto simp: session_ok_def store_entries_def)
  have "sn_total (store_Snapshot cfg ?st a) = (\<Sum>e \<leftarrow> filter (\<lambda>e. \<not> md_excluded (en_meta e)) (store_entries ?st a). md_tokens (en_meta e))"
    by (simp add: store_Snapshot_def store_entries_def store_session_def blank_session_def Let_def split: option.split)
  also have "\<dots> = (\<Sum>e \<leftarrow> filter (\<lambda>e. \<not> md_excluded (en_meta e)) (store_entries ?st a). message_tokens cfg (en_message e))"
    using e by (intro arg_cong [of _ _ sum_list] map_cong) (auto simp: entry_ok_def)
  finally have used: "sn_total (store_Snapshot cfg ?st a) =
      (\<Sum>e \<leftarrow> filter (\<lambda>e. \<not> md_excluded (en_meta e)) (store_entries ?st a). message_tokens cfg (en_message e))" .
  have "sn_budget (store_Snapshot cfg ?st a) = sc_budget cfg"
    by (simp add: store_Snapshot_def Let_def split: option.split)
  with used d e show ?thesis
    by (auto simp: store_Budget_def store_Entries_def Let_def entry_ok_def)
qed

subsection \<open>The sliding window\<close>

lemma set_select: "set (select ks xs) \<subseteq> set xs"
  by (induction ks xs rule: select.induct) auto

lemma select_nths: "select ks xs = nths xs {j. j < length ks \<and> ks ! j}"
proof (induction ks xs rule: select.induct)
  case (1 b bs x xs)
  have "{j. Suc j \<in> {j. j < length (b # bs) \<and> (b # bs) ! j}} = {j. j < length bs \<and> bs ! j}" by auto
  with 1 show ?case by (simp add: nths_Cons)
qed simp_all

lemma select_by_key:
  "distinct (map f xs) \<Longrightarrow> length ks = length xs \<Longrightarrow> filter (\<lambda>x. f x \<in> f ` set (select ks xs)) xs = select ks xs"
proof (induction ks xs rule: select.induct)
  case (1 b bs x xs)
  have "f x \<notin> f ` set xs" using "1.prems"(1) by simp
  then have out: "f x \<notin> f ` set (select bs xs)" using image_mono [OF set_select [of bs xs], of f] by blast
  have IH: "filter (\<lambda>y. f y \<in> f ` set (select bs xs)) xs = select bs xs" using 1 by (cases b) auto
  have "filter (\<lambda>y. f y \<in> f ` set (x # select bs xs)) xs = filter (\<lambda>y. f y \<in> f ` set (select bs xs)) xs"
    using \<open>f x \<notin> f ` set xs\<close> by (intro filter_cong) (auto simp: image_iff)
  with out IH show ?case by (cases b) auto
qed simp_all

lemma select_map: "select ks (map g xs) = map g (select ks xs)"
  by (induction ks xs rule: select.induct) auto

lemma nth_window_wanted:
  "i < length es \<Longrightarrow> window_wanted c es ! i \<longleftrightarrow>
    c \<le> i \<or> md_layer (en_meta (es ! i)) \<noteq> RuntimeInject \<or> md_priority (en_meta (es ! i)) = Critical"
  by (simp add: window_wanted_def nth_enumerate_eq)

text \<open>The positions a sliding window keeps: all that a chain of tool identities joins to a wanted one.\<close>

definition window_kept :: "context_entry list \<Rightarrow> int \<Rightarrow> nat set" where
  "window_kept es keep =
     (let ms = map en_message es in
      {j. j < length es \<and> (\<exists>i < length es. (i, j) \<in> (linked ms)\<^sup>* \<and>
        (safeWindowCut ms keep \<le> i \<or> md_layer (en_meta (es ! i)) \<noteq> RuntimeInject \<or> md_priority (en_meta (es ! i)) = Critical))})"

lemma answers_linked: "answers ms i p \<Longrightarrow> (i, p) \<in> linked ms \<and> (p, i) \<in> linked ms"
  by (force simp: answers_def linked_def mentions_def)

lemma sliding_window_entries:
  assumes "\<And>ms k. set (order ms k) = set (groups ms)" "0 \<le> keep" "session_ok cfg (store_session st a)"
  shows "store_entries (snd (store_SlidingWindow order a keep st)) a = nths (store_entries st a) (window_kept (store_entries st a) keep)"
proof -
  let ?es = "store_entries st a"
  let ?ms = "map en_message ?es"
  let ?w = "window_wanted (safeWindowCut ?ms keep) ?es"
  have len: "length ?w = length ?ms" by (simp add: window_wanted_def)
  obtain kept where k: "retainProtocolGroups (order ?ms) ?ms ?w = Some (select kept ?ms)" "length kept = length ?ms"
      "\<And>j. j < length ?ms \<Longrightarrow> kept ! j \<longleftrightarrow> reached (linked ?ms) ?w j"
    using retain_groups_exact [where order = "order ?ms" and keep = ?w and ms = ?ms, OF assms(1) len] by blast
  have "map (m_id \<circ> en_message) ?es = map en_id ?es" "distinct (map en_id ?es)"
    using assms(3) by (auto simp: session_ok_def entry_ok_def store_entries_def)
  then have "distinct (map (m_id \<circ> en_message) ?es)" by (simp only:)
  from select_by_key [OF this, of kept] k(2)
  have sel: "filter (\<lambda>e. m_id (en_message e) \<in> set (map m_id (select kept ?ms))) ?es = select kept ?es"
    by (simp add: select_map image_comp o_def)
  define wanted where "wanted i \<longleftrightarrow> safeWindowCut ?ms keep \<le> i \<or> md_layer (en_meta (?es ! i)) \<noteq> RuntimeInject \<or>
      md_priority (en_meta (?es ! i)) = Critical" for i
  have w: "?w ! i \<longleftrightarrow> wanted i" if "i < length ?es" for i using that by (simp add: nth_window_wanted wanted_def)
  have "window_kept ?es keep = {j. j < length ?es \<and> (\<exists>i < length ?es. (i, j) \<in> (linked ?ms)\<^sup>* \<and> wanted i)}"
    by (simp add: window_kept_def wanted_def Let_def)
  moreover have "kept ! j \<longleftrightarrow> (\<exists>i < length ?es. (i, j) \<in> (linked ?ms)\<^sup>* \<and> wanted i)" if "j < length ?es" for j
    using k(3) [of j] that len w by (simp add: reached_def) blast
  ultimately have "{j. j < length kept \<and> kept ! j} = window_kept ?es keep" using k(2) by auto
  with sel k(1) assms(2) show ?thesis
    by (simp add: store_SlidingWindow_def set_entries_def Let_def select_nths [symmetric]) (simp add: store_entries_def select_nths)
qed

text \<open>
  C38. Sliding the window keeps exactly what must stay. It succeeds, and the entries it leaves are,
  in order, those joined by a chain of shared tool call identities to an entry that is recent
  enough, critical, or outside the conversation layer. So no tool call is parted from its result,
  and nothing else survives. The order in which the code visits the groups does not matter.
\<close>

theorem sliding_window_is_exact:
  assumes "\<And>ms k. set (order ms k) = set (groups ms)" "0 \<le> keep"
  shows "let st = store_run cfg ops; (e, st') = store_SlidingWindow order a keep st; es = store_entries st a; kept = window_kept es keep in
     e = None \<and> store_entries st' a = nths es kept \<and> (\<nexists>i p. answers (map en_message es) i p \<and> (i \<in> kept) \<noteq> (p \<in> kept))"
proof -
  let ?st = "store_run cfg ops"
  let ?es = "store_entries ?st a"
  have "store_entries (snd (store_SlidingWindow order a keep ?st)) a = nths ?es (window_kept ?es keep)"
    by (rule sliding_window_entries [OF assms store_session_ok [OF store_run_inv]])
  moreover have "fst (store_SlidingWindow order a keep ?st) = None"
    using assms(2) by (simp add: store_SlidingWindow_def Let_def)
  moreover have "i \<in> window_kept ?es keep \<longleftrightarrow> p \<in> window_kept ?es keep" if "answers (map en_message ?es) i p" for i p
  proof -
    have "i < length ?es" "p < length ?es" using answers_index [OF that] by auto
    with answers_linked [OF that] show ?thesis by (auto simp: window_kept_def Let_def intro: rtrancl_into_rtrancl)
  qed
  ultimately show ?thesis by (auto simp: case_prod_beta Let_def)
qed

definition example_config :: store_config where
  "example_config = \<lparr>sc_budget = 100, sc_window = 100, sc_counter = None, sc_encode = (\<lambda>_. []), sc_url = (\<lambda>_. None), sc_fdiv = (\<lambda>_ _. NaN)\<rparr>"

definition example_message :: "string \<Rightarrow> role \<Rightarrow> content_block \<Rightarrow> message" where
  "example_message i r b = (TextMessage r [])\<lparr>m_id := i, m_content := [b]\<rparr>"

definition example_ops :: "store_op list" where
  "example_ops = map (OpInject 0 ''s'' RuntimeInject)
     [example_message ''1'' RoleUser (text_block ''old''),
      example_message ''2'' RoleAssistant (tool_call_block (Some \<lparr>tc_id = ''c'', tc_name = ''f'', tc_arguments = ''{}'', tc_provider_state = []\<rparr>)),
      example_message ''3'' RoleTool (tool_result_block (ToolResult ''c'' [] False)),
      example_message ''4'' RoleUser (text_block ''new'')]"

lemma example_window:
  "map en_id (store_entries (snd (store_SlidingWindow (\<lambda>ms k. groups ms) ''s'' 2 (store_run example_config example_ops))) ''s'') =
   [''2'', ''3'', ''4'']"
  by code_simp

theorem sliding_window_is_exact_witness:
  "let st = store_run example_config example_ops; (e, st') = store_SlidingWindow (\<lambda>ms k. groups ms) ''s'' 2 st;
       es = store_entries st ''s'' in
     e = None \<and> store_entries st' ''s'' = nths es (window_kept es 2) \<and> map en_id (store_entries st' ''s'') = [''2'', ''3'', ''4'']"
  using sliding_window_is_exact [of "\<lambda>ms k. groups ms" 2 example_config example_ops "''s''"] example_window
  by (simp add: Let_def case_prod_beta)

end
