(* ===== verification/Context_Apply.thy ===== *)
theory Context_Apply
  imports Context_Store
begin

section \<open>Applying injections and compressions to provider-bound messages\<close>

text \<open>
  sdk/agent/context/apply.go: \<open>DefaultApply\<close>. The prompt segments and the messages are pointers
  of the caller: what an operation has written when it fails stays written, so a result carries
  the error and both values. \<open>quote\<close> is the \<open>%q\<close> verb of a string.
\<close>

subsection \<open>Injections\<close>

definition append_segment :: "nat \<Rightarrow> string \<Rightarrow> string list \<Rightarrow> string list" where
  "append_segment i t prompt = prompt[i := prompt ! i @ t]"

definition newline :: string where
  "newline = [char_of (10 :: nat)]"

definition apply_injection ::
  "(string \<Rightarrow> string) \<Rightarrow> url_parser \<Rightarrow> injection \<Rightarrow> string list \<times> message list \<Rightarrow> go_error option \<times> string list \<times> message list" where
  "apply_injection quote url item s =
     (let (prompt, messages) = s; stable = length prompt - 2; dynamic = length prompt - 1; gap = newline @ newline in
      case item of
        InjectSystem None \<Rightarrow> (Some (ErrNew ''system injection section missing''), prompt, messages)
      | InjectSystem (Some sec) \<Rightarrow> (None, append_segment stable (gap @ sec_content sec) prompt, messages)
      | InjectSkill name t \<Rightarrow>
          (None, append_segment stable (gap @ ''<skill name='' @ quote name @ ''>'' @ newline @ t @ newline @ ''</skill>'') prompt, messages)
      | InjectRuntime t \<Rightarrow>
          (None, append_segment dynamic (gap @ ''<runtime>'' @ newline @ t @ newline @ ''</runtime>'') prompt, messages)
      | InjectMessage None \<Rightarrow> (Some (ErrNew ''message injection payload missing''), prompt, messages)
      | InjectMessage (Some m) \<Rightarrow>
          (case message_validate url m of Some e \<Rightarrow> (Some e, prompt, messages) | None \<Rightarrow> (None, prompt, messages @ [m]))
      | InjectMemory facts \<Rightarrow>
          (None,
           (if facts = [] then prompt
            else append_segment stable
              (gap @ ''<user_memory>'' @ newline @ str_join newline (map (\<lambda>f. ''- '' @ mf_text f) facts) @ newline @ ''</user_memory>'') prompt),
           messages)
      | InjectOther \<Rightarrow> (Some (ErrNew ''unknown context injection''), prompt, messages))"

fun apply_injections ::
  "(string \<Rightarrow> string) \<Rightarrow> url_parser \<Rightarrow> injection list \<Rightarrow> string list \<times> message list \<Rightarrow> go_error option \<times> string list \<times> message list" where
  "apply_injections quote url [] s = (None, s)"
| "apply_injections quote url (item # items) s =
     (case apply_injection quote url item s of
        (Some e, s) \<Rightarrow> (Some e, s)
      | (None, s) \<Rightarrow> apply_injections quote url items s)"

definition two_segments :: "string list \<Rightarrow> string list" where
  "two_segments prompt = (case prompt of [] \<Rightarrow> [[], []] | [x] \<Rightarrow> [x, []] | xs \<Rightarrow> xs)"

definition ApplyInjections ::
  "(string \<Rightarrow> string) \<Rightarrow> url_parser \<Rightarrow> go_error option \<Rightarrow> injection list \<Rightarrow> string list \<Rightarrow> message list \<Rightarrow>
     go_error option \<times> string list \<times> message list" where
  "ApplyInjections quote url canceled injections prompt messages =
     (case canceled of Some e \<Rightarrow> (Some e, prompt, messages)
      | None \<Rightarrow> apply_injections quote url injections (two_segments prompt, messages))"

subsection \<open>Summaries\<close>

text \<open>
  A summarizer, an externalizer and a reference backend belong to the host. The number is the
  position of the action being applied: a callback may answer differently each time. \<open>ctx n\<close> is
  \<open>ctx.Err()\<close> as action n begins, \<open>late n\<close> what the context says once its callback has returned.
\<close>

definition summary_line :: "(message \<Rightarrow> string) \<Rightarrow> context_entry \<Rightarrow> string" where
  "summary_line encode e =
     (let rs = runes (encode (en_message e)) in
      if length rs > 512
      then concat (take 512 rs) @ '' '' @ map char_of [0xE2 :: nat, 0x80, 0xA6] @ '' [truncated]''
      else concat rs)"

definition summarizeEntries :: "(message \<Rightarrow> string) \<Rightarrow> go_error option \<Rightarrow> context_entry list \<Rightarrow> string result" where
  "summarizeEntries encode canceled entries = from_err canceled (str_join newline (map (summary_line encode) entries))"

type_synonym summarizer = "context_entry list \<Rightarrow> string list \<Rightarrow> string result"

definition store_SummarizeEntries ::
  "(message \<Rightarrow> string) \<Rightarrow> summarizer option \<Rightarrow> go_error option \<Rightarrow> context_entry list \<Rightarrow> string list \<Rightarrow> string result" where
  "store_SummarizeEntries encode summarizer canceled entries hints =
     (case canceled of Some e \<Rightarrow> Inl e
      | None \<Rightarrow> (case summarizer of Some f \<Rightarrow> f entries hints | None \<Rightarrow> summarizeEntries encode canceled entries))"

definition store_Summarize ::
  "(message \<Rightarrow> string) \<Rightarrow> summarizer option \<Rightarrow> go_error option \<Rightarrow> string \<Rightarrow> message_range \<Rightarrow> string list \<Rightarrow> context_store \<Rightarrow> string result" where
  "store_Summarize encode summarizer canceled agentID selected hints st =
     (case canceled of Some e \<Rightarrow> Inl e
      | None \<Rightarrow>
        (let entries = store_Entries st agentID in
         case resolveRange selected (map en_id entries) of Inl e \<Rightarrow> Inl e
         | Inr (f, t) \<Rightarrow> store_SummarizeEntries encode summarizer canceled (take (t - f) (drop f entries)) hints))"

subsection \<open>Compressions\<close>

record apply_env =
  ap_agent :: string
  ap_read :: "string \<Rightarrow> context_entry option"
  ap_ctx :: "nat \<Rightarrow> go_error option"
  ap_late :: "nat \<Rightarrow> go_error option"
  ap_encode :: "message \<Rightarrow> string"
  ap_encode_all :: "message list \<Rightarrow> string result"
  ap_summarizer :: "(nat \<Rightarrow> summarizer) option"
  ap_externalizer :: "(nat \<Rightarrow> string \<Rightarrow> string \<Rightarrow> ref_data result) option"
  ap_references :: "(nat \<Rightarrow> string \<Rightarrow> ref_data result) option"
  ap_order :: "message list \<Rightarrow> nat \<Rightarrow> nat list list"

definition window_keeps :: "apply_env \<Rightarrow> nat \<Rightarrow> nat \<Rightarrow> message \<Rightarrow> bool" where
  "window_keeps env cut0 i m =
     (i \<ge> cut0 \<or> m_role m = RoleSystem \<or>
      (case ap_read env (m_id m) of None \<Rightarrow> False
       | Some e \<Rightarrow> md_priority (en_meta e) = Critical \<or> md_layer (en_meta e) = AlwaysPresent))"

definition priority_keeps :: "apply_env \<Rightarrow> priority \<Rightarrow> message \<Rightarrow> bool" where
  "priority_keeps env p m =
     (case ap_read env (m_id m) of None \<Rightarrow> True
      | Some e \<Rightarrow> md_priority (en_meta e) \<noteq> p \<or> md_priority (en_meta e) = Critical)"

definition retained :: "apply_env \<Rightarrow> message list \<Rightarrow> bool list \<Rightarrow> message list" where
  "retained env messages keep = the (retainProtocolGroups (ap_order env messages) messages keep)"

text \<open>Every tool result of the target messages gets the summary as its content.\<close>

definition summarize_results :: "string \<Rightarrow> content_block \<Rightarrow> content_block" where
  "summarize_results summary b =
     (case cb_tool_result b of None \<Rightarrow> b | Some r \<Rightarrow> with_result (result_with_text summary r) b)"

definition has_result :: "message \<Rightarrow> bool" where
  "has_result m = list_ex (\<lambda>b. cb_tool_result b \<noteq> None) (m_content m)"

text \<open>The message that stands for a range: a summary, or a reference to the externalized text.\<close>

definition summary_message :: "apply_env \<Rightarrow> nat \<Rightarrow> string list \<Rightarrow> message list \<Rightarrow> message result" where
  "summary_message env n hints messages =
     (let entries = map (\<lambda>m. \<lparr>en_id = m_id m, en_message = m, en_meta =
            \<lparr>md_layer = LayerOther [], md_priority = 0, md_tokens = 0, md_compacted = False, md_externalized_path = [],
             md_replacement_summary = [], md_source_agent = [], md_origin = [], md_created_at = 0, md_created_turn = 0,
             md_excluded = False\<rparr>\<rparr>) messages;
          summary = (case ap_summarizer env of Some f \<Rightarrow> f n entries hints
            | None \<Rightarrow> summarizeEntries (ap_encode env) (ap_ctx env n) entries)
      in case errors_join [case summary of Inl e \<Rightarrow> Some e | Inr _ \<Rightarrow> None, ap_late env n] of
           Some e \<Rightarrow> Inl e
         | None \<Rightarrow>
           (case summary of Inl e \<Rightarrow> Inl e
            | Inr t \<Rightarrow> Inr (TextMessage RoleUser (''<conversation_summary>'' @ newline @ t @ newline @ ''</conversation_summary>''))))"

definition reference_block :: "ref_data \<Rightarrow> content_block" where
  "reference_block r = ContentBlock ContentReference [] None None (Some r) None None None None None None"

definition external_text :: string where
  "external_text = ''; Context messages serialized as JSON; original facts retained; reference only, not raw model delivery''"

definition external_message :: "apply_env \<Rightarrow> nat \<Rightarrow> string \<Rightarrow> message list \<Rightarrow> message result" where
  "external_message env n path messages =
     (case ap_encode_all env messages of Inl e \<Rightarrow> Inl e
      | Inr encoded \<Rightarrow>
        (case (if path \<noteq> []
               then (case ap_externalizer env of None \<Rightarrow> Inl (ErrNew ''authorized externalizer unavailable'') | Some f \<Rightarrow> f n path encoded)
               else (case ap_references env of None \<Rightarrow> Inl (ErrNew ''reference externalizer unavailable'') | Some f \<Rightarrow> f n encoded)) of
           Inl e \<Rightarrow> Inl e
         | Inr reference \<Rightarrow>
           (case reference_validate reference of Some e \<Rightarrow> Inl e
            | None \<Rightarrow>
              (case ap_late env n of
                 Some e \<Rightarrow> Inl (Wrapf (''artifact retained at '' @ ref_uri reference @ ''; context unchanged: '') e)
               | None \<Rightarrow>
                 Inr ((TextMessage RoleUser [])\<lparr>m_content :=
                   [reference_block (reference\<lparr>ref_processing := ref_processing reference @ external_text\<rparr>)]\<rparr>)))))"

definition replace_range :: "apply_env \<Rightarrow> message_range \<Rightarrow> (message list \<Rightarrow> message result) \<Rightarrow> message list \<Rightarrow> go_error option \<times> message list" where
  "replace_range env selected build messages =
     (case resolveRange selected (map m_id messages) of Inl e \<Rightarrow> (Some e, messages)
      | Inr (f, t) \<Rightarrow>
        if f = t then (None, messages)
        else (let (f, t) = safeRange messages f t in
          case build (take (t - f) (drop f messages)) of Inl e \<Rightarrow> (Some e, messages)
          | Inr m \<Rightarrow>
            (None, take f messages @
              [m\<lparr>m_id := ''context/'' @ ap_agent env @ ''/'' @ dec f @ ''/'' @ dec t\<rparr>] @ drop t messages)))"

definition apply_compression :: "apply_env \<Rightarrow> nat \<Rightarrow> compress_action \<Rightarrow> message list \<Rightarrow> go_error option \<times> message list" where
  "apply_compression env n action messages =
     (case ap_ctx env n of Some e \<Rightarrow> (Some e, messages)
      | None \<Rightarrow>
        (case action of
           CompressWindow keep \<Rightarrow>
             if keep < 0 then (Some (ErrNew ''negative compression window''), messages)
             else (let cut0 = safeWindowCut messages keep in
                   (None, retained env messages (map (\<lambda>(i, m). window_keeps env cut0 i m) (enumerate 0 messages))))
         | CompressPriority p \<Rightarrow> (None, retained env messages (map (priority_keeps env p) messages))
         | CompressToolResult i summary \<Rightarrow>
             if list_ex (\<lambda>m. m_id m = i \<and> has_result m) messages
             then (None, map (\<lambda>m. if m_id m = i then m\<lparr>m_content := map (summarize_results summary) (m_content m)\<rparr> else m) messages)
             else (Some (ErrNew ''compression target tool result not found''), messages)
         | CompressSummary selected hints \<Rightarrow> replace_range env selected (summary_message env n hints) messages
         | CompressExternalize selected path \<Rightarrow> replace_range env selected (external_message env n path) messages
         | CompressOther \<Rightarrow> (Some (ErrNew ''unknown context compression action''), messages)))"

fun apply_compressions :: "apply_env \<Rightarrow> nat \<Rightarrow> compress_action list \<Rightarrow> message list \<Rightarrow> go_error option \<times> message list" where
  "apply_compressions env n [] messages = (None, messages)"
| "apply_compressions env n (action # actions) messages =
     (case apply_compression env n action messages of
        (Some e, messages) \<Rightarrow> (Some e, messages)
      | (None, messages) \<Rightarrow> apply_compressions env (n + 1) actions messages)"

definition ApplyCompressions :: "apply_env \<Rightarrow> compress_action list \<Rightarrow> message list \<Rightarrow> go_error option \<times> message list" where
  "ApplyCompressions env actions messages = apply_compressions env 0 actions messages"

subsection \<open>Compressions keep tool calls with their results\<close>

text \<open>
  The tool protocol of a conversation: every call identity has one call, followed by at least one
  result. It depends only on the sequence of calls and results.
\<close>

definition refs_of :: "message list \<Rightarrow> tool_ref list" where
  "refs_of ms = map snd (tool_refs 0 ms)"

definition only_id :: "string \<Rightarrow> tool_ref list \<Rightarrow> tool_ref list" where
  "only_id c rs = filter (\<lambda>r. ref_id r = c) rs"

fun exchange :: "tool_ref list \<Rightarrow> bool" where
  "exchange (CallRef c # rs) = (rs \<noteq> [] \<and> list_all (\<lambda>r. r = ResultRef c) rs)"
| "exchange _ = False"

definition well_paired :: "message list \<Rightarrow> bool" where
  "well_paired ms = list_all (\<lambda>c. exchange (only_id c (refs_of ms))) (map ref_id (refs_of ms))"

definition message_refs :: "message \<Rightarrow> tool_ref list" where
  "message_refs m = concat (map block_refs (m_content m))"

lemma tool_refs_shift: "map snd (tool_refs i ms) = concat (map message_refs ms)"
  by (induction i ms rule: tool_refs.induct) (simp_all add: message_refs_def o_def)

lemma refs_of_concat: "refs_of ms = concat (map message_refs ms)"
  by (simp add: refs_of_def tool_refs_shift)

lemma only_id_Nil_iff: "only_id c rs = [] \<longleftrightarrow> c \<notin> ref_id ` set rs"
  by (auto simp: only_id_def filter_empty_conv)

lemma well_paired_alt: "well_paired ms \<longleftrightarrow> (\<forall>c. only_id c (refs_of ms) = [] \<or> exchange (only_id c (refs_of ms)))"
  by (auto simp: well_paired_def list_all_iff only_id_Nil_iff)

lemma only_id_append [simp]: "only_id c (xs @ ys) = only_id c xs @ only_id c ys"
  by (simp add: only_id_def)

lemma only_id_concat: "only_id c (concat rss) = concat (map (only_id c) rss)"
  by (induction rss) (simp_all add: only_id_def)

lemma mentions_message: "i < length ms \<Longrightarrow> mentions ms i c \<longleftrightarrow> only_id c (message_refs (ms ! i)) \<noteq> []"
proof -
  have "(k + i, r) \<in> set (tool_refs k ms) \<longleftrightarrow> r \<in> set (message_refs (ms ! i))" if "i < length ms" for k r
    using that
  proof (induction k ms arbitrary: i rule: tool_refs.induct)
    case (2 k m ms)
    show ?case
    proof (cases i)
      case 0
      then show ?thesis using tool_refs_index [of k r "k + 1" ms] by (auto simp: message_refs_def)
    next
      case (Suc j)
      then show ?thesis using 2(1) [of j] 2(2) by auto
    qed
  qed simp
  from this [of 0] show "i < length ms \<Longrightarrow> mentions ms i c \<longleftrightarrow> only_id c (message_refs (ms ! i)) \<noteq> []"
    by (auto simp: mentions_def only_id_Nil_iff ref_id_def image_iff split: tool_ref.splits) (metis tool_ref.exhaust)
qed

lemma only_id_select:
  assumes "length kept = length ms"
  shows "(\<And>i. i < length ms \<Longrightarrow> only_id c (message_refs (ms ! i)) \<noteq> [] \<Longrightarrow> kept ! i) \<Longrightarrow>
      only_id c (refs_of (select kept ms)) = only_id c (refs_of ms)"
    "(\<And>i. i < length ms \<Longrightarrow> only_id c (message_refs (ms ! i)) \<noteq> [] \<Longrightarrow> \<not> kept ! i) \<Longrightarrow>
      only_id c (refs_of (select kept ms)) = []"
  using assms
proof (induction kept ms rule: select.induct)
  case (1 b bs x xs)
  { case 1
    have "only_id c (message_refs x) \<noteq> [] \<Longrightarrow> b" using 1(1) [of 0] by simp
    moreover have "only_id c (refs_of (select bs xs)) = only_id c (refs_of xs)"
      using "1.IH"(1,3) 1(1) [of "Suc _"] 1(2) by (cases b) auto
    ultimately show ?case by (cases b) (auto simp: refs_of_concat only_id_concat)
  next
    case 2
    have "only_id c (message_refs x) \<noteq> [] \<Longrightarrow> \<not> b" using 2(1) [of 0] by simp
    moreover have "only_id c (refs_of (select bs xs)) = []"
      using "1.IH"(2,4) 2(1) [of "Suc _"] 2(2) by (cases b) auto
    ultimately show ?case by (cases b) (auto simp: refs_of_concat only_id_concat)
  }
qed (simp_all add: refs_of_concat only_id_def)

text \<open>Keeping or dropping all the messages that mention an identity keeps the protocol.\<close>

lemma select_well_paired:
  assumes "well_paired ms" "length kept = length ms"
    "\<And>c i j. mentions ms i c \<Longrightarrow> mentions ms j c \<Longrightarrow> kept ! i \<Longrightarrow> kept ! j"
  shows "well_paired (select kept ms)"
  unfolding well_paired_alt
proof
  fix c
  consider "\<And>i. i < length ms \<Longrightarrow> mentions ms i c \<Longrightarrow> kept ! i" | "\<And>i. i < length ms \<Longrightarrow> mentions ms i c \<Longrightarrow> \<not> kept ! i"
    using assms(3) by blast
  then show "only_id c (refs_of (select kept ms)) = [] \<or> exchange (only_id c (refs_of (select kept ms)))"
  proof cases
    case 1
    then have "only_id c (refs_of (select kept ms)) = only_id c (refs_of ms)"
      using only_id_select(1) [OF assms(2)] mentions_message by blast
    with assms(1) show ?thesis by (simp add: well_paired_alt)
  next
    case 2
    then have "only_id c (refs_of (select kept ms)) = []"
      using only_id_select(2) [OF assms(2)] mentions_message by blast
    then show ?thesis by simp
  qed
qed

text \<open>A well-paired conversation: each mention of an identity is its call or answers it.\<close>

lemma well_paired_call:
  assumes "well_paired ms" "mentions ms i c"
  obtains p where "\<And>j. mentions ms j c \<Longrightarrow> j = p \<or> answers ms j p"
proof -
  let ?rs = "tool_refs 0 ms"
  have "\<exists>x \<in> set ?rs. ref_id (snd x) = c" using assms(2) by (force simp: mentions_def ref_id_def)
  then obtain a x b where rs: "?rs = a @ x # b" "ref_id (snd x) = c" "\<forall>y \<in> set a. ref_id (snd y) \<noteq> c"
    using split_list_first_prop [of ?rs "\<lambda>x. ref_id (snd x) = c"] by blast
  have "only_id c (refs_of ms) = snd x # only_id c (map snd b)"
    using rs(2,3) by (simp add: refs_of_def rs(1)) (auto simp: only_id_def filter_empty_conv)
  moreover have "exchange (only_id c (refs_of ms))" using assms(1) calculation unfolding well_paired_alt by (metis list.distinct(1))
  ultimately have "snd x = CallRef c" and res: "\<forall>r \<in> set (only_id c (map snd b)). r = ResultRef c"
    using rs(2) by (cases "snd x"; auto simp: ref_id_def list_all_iff)+
  then have x: "x = (fst x, CallRef c)" by (metis prod.collapse)
  have nocall: "(j, CallRef c) \<notin> set b" for j using res by (force simp: only_id_def ref_id_def)
  have "j = fst x \<or> answers ms j (fst x)" if m: "mentions ms j c" for j
  proof -
    from m obtain r where r: "(j, r) \<in> set ?rs" "r = CallRef c \<or> r = ResultRef c" by (auto simp: mentions_def)
    then have "(j, r) \<notin> set a" using rs(3) by (force simp: ref_id_def)
    with r(1) consider "(j, r) = x" | "(j, r) \<in> set b" by (auto simp: rs(1))
    then show ?thesis
    proof cases
      case 2
      with nocall r(2) have "(j, ResultRef c) \<in> set b" by auto
      then obtain vs ys where "b = vs @ (j, ResultRef c) # ys" by (blast dest: split_list)
      moreover from this nocall have "\<forall>k. (k, CallRef c) \<notin> set vs" by auto
      ultimately show ?thesis using rs(1) x unfolding answers_def by (metis append.assoc append_Cons)
    qed auto
  qed
  then show ?thesis by (rule that)
qed

text \<open>Dropping a range, as a selection.\<close>

definition outside :: "nat \<Rightarrow> nat \<Rightarrow> nat \<Rightarrow> bool list" where
  "outside f t n = replicate f True @ replicate (t - f) False @ replicate (n - t) True"

lemma select_append: "length ks = length xs \<Longrightarrow> select (ks @ ls) (xs @ ys) = select ks xs @ select ls ys"
  by (induction ks xs rule: select.induct) auto

lemma select_all: "select (replicate (length xs) True) xs = xs" "select (replicate (length xs) False) xs = []"
  by (induction xs) auto

lemma select_outside:
  assumes "f \<le> t" "t \<le> length xs"
  shows "select (outside f t (length xs)) xs = take f xs @ drop t xs"
proof -
  let ?b = "take (t - f) (drop f xs)"
  have xs: "xs = take f xs @ ?b @ drop t xs"
    using assms by (metis append_take_drop_id drop_drop le_add_diff_inverse2)
  have m: "outside f t (length xs) = replicate (length (take f xs)) True @ replicate (length ?b) False @ replicate (length (drop t xs)) True"
    using assms by (auto simp: outside_def min_def)
  show ?thesis unfolding m by (subst (4) xs) (simp only: select_append select_all length_replicate append_Nil)
qed

lemma nth_outside: "f \<le> t \<Longrightarrow> t \<le> n \<Longrightarrow> i < n \<Longrightarrow> outside f t n ! i \<longleftrightarrow> \<not> (f \<le> i \<and> i < t)"
  by (auto simp: outside_def nth_append)

lemma length_outside [simp]: "f \<le> t \<Longrightarrow> t \<le> n \<Longrightarrow> length (outside f t n) = n"
  by (simp add: outside_def)

lemma range_well_paired:
  assumes "well_paired ms" "whole ms f t" "f \<le> t" "t \<le> length ms" "message_refs m = []"
  shows "well_paired (take f ms @ [m] @ drop t ms)"
proof -
  have "outside f t (length ms) ! j" if m: "mentions ms i c" "mentions ms j c" and o: "outside f t (length ms) ! i" for c i j
  proof -
    obtain p where p: "\<And>j. mentions ms j c \<Longrightarrow> j = p \<or> answers ms j p" using well_paired_call [OF assms(1) m(1)] by blast
    have same: "f \<le> k \<and> k < t \<longleftrightarrow> f \<le> p \<and> p < t" if "mentions ms k c" for k
      using p [OF that] assms(2) by (auto simp: whole_def)
    show ?thesis
      using o same [OF m(1)] same [OF m(2)] mentions_index [OF m(1)] mentions_index [OF m(2)]
      by (simp add: nth_outside [OF assms(3,4)])
  qed
  from select_well_paired [OF assms(1) length_outside [OF assms(3,4)] this]
  have "well_paired (select (outside f t (length ms)) ms)" .
  then show ?thesis using assms(3-5) by (simp add: select_outside well_paired_def refs_of_concat)
qed

lemma retained_well_paired:
  assumes "\<And>ms k. set (ap_order env ms k) = set (groups ms)" "well_paired ms" "length keep = length ms"
  shows "well_paired (retained env ms keep)"
proof -
  obtain kept where k: "retainProtocolGroups (ap_order env ms) ms keep = Some (select kept ms)" "length kept = length ms"
      "\<And>j. j < length ms \<Longrightarrow> kept ! j \<longleftrightarrow> reached (linked ms) keep j"
    using retain_groups_exact [where order = "ap_order env ms" and keep = keep and ms = ms, OF assms(1,3)] by blast
  have "kept ! j" if "mentions ms i c" "mentions ms j c" "kept ! i" for c i j
  proof -
    have l: "(i, j) \<in> linked ms" "i < length ms" "j < length ms" using that mentions_index by (auto simp: linked_def)
    with k(3) [OF l(2)] that(3) obtain a where "a < length keep" "keep ! a" "(a, i) \<in> (linked ms)\<^sup>*"
      unfolding reached_def by blast
    with l(1) have "reached (linked ms) keep j" unfolding reached_def by (blast intro: rtrancl_into_rtrancl)
    with k(3) [OF l(3)] show ?thesis by simp
  qed
  from select_well_paired [OF assms(2) k(2) this] k(1) show ?thesis by (simp add: retained_def)
qed

lemma find_index_less: "find_index p xs = Some n \<Longrightarrow> n < length xs"
  by (induction xs arbitrary: n) (auto split: if_splits)

lemma replace_range_well_paired:
  assumes "well_paired ms" "\<And>ms m. build ms = Inr m \<Longrightarrow> message_refs m = []"
  shows "well_paired (snd (replace_range env selected build ms))"
proof (cases "resolveRange selected (map m_id ms)")
  case (Inr ft)
  obtain f t where ft: "ft = (f, t)" by fastforce
  have sel: "n \<le> length ids" if "resolve_selector ids s = Inr n" for ids s n
    using that by (auto simp: resolve_selector_def Let_def split: selector.splits if_splits option.splits dest: find_index_less)
  have le: "f \<le> t" "t \<le> length ms"
    using Inr ft sel [of "map m_id ms" "rg_to selected" t] by (auto simp: resolveRange_def split: sum.splits if_splits)
  obtain g u where gu: "safeRange ms f t = (g, u)" by fastforce
  have w: "whole ms g u" and b: "g \<le> u" "u \<le> length ms"
    using safeRange_least(1) [OF gu] safeRange_inside [OF gu le] le by auto
  show ?thesis
    using assms range_well_paired [OF assms(1) w b]
    by (auto simp: replace_range_def Inr ft gu message_refs_def split: sum.split)
qed (simp add: replace_range_def assms(1))

lemma summary_no_refs: "summary_message env n hints ms = Inr m \<Longrightarrow> message_refs m = []"
  by (auto simp: summary_message_def Let_def message_refs_def block_refs_def TextMessage_def text_block_def split: option.splits sum.splits)

lemma external_no_refs: "external_message env n path ms = Inr m \<Longrightarrow> message_refs m = []"
  by (auto simp: external_message_def message_refs_def block_refs_def reference_block_def split: option.splits sum.splits)

lemma summarize_refs: "message_refs (m\<lparr>m_content := map (summarize_results t) (m_content m)\<rparr>) = message_refs m"
proof -
  have "block_refs (summarize_results t b) = block_refs b" for b
    by (cases b) (auto simp: block_refs_def summarize_results_def result_with_text_def split: option.split)
  then show ?thesis by (simp add: message_refs_def o_def)
qed

lemma compression_well_paired:
  assumes "\<And>ms k. set (ap_order env ms k) = set (groups ms)" "well_paired ms"
  shows "well_paired (snd (apply_compression env n action ms))"
proof (cases action)
  case (CompressToolResult i t)
  have "refs_of (map (\<lambda>m. if m_id m = i then m\<lparr>m_content := map (summarize_results t) (m_content m)\<rparr> else m) ms) = refs_of ms"
    by (simp add: refs_of_concat o_def summarize_refs if_distrib [of message_refs] cong: if_cong)
  with assms(2) CompressToolResult show ?thesis
    by (simp add: apply_compression_def well_paired_def split: option.split)
qed (use assms retained_well_paired [OF assms] replace_range_well_paired summary_no_refs external_no_refs in
    \<open>simp_all add: apply_compression_def Let_def split: option.split\<close>)

text \<open>
  C39. Compression never parts a tool call from its result. Whatever sequence of actions is applied
  to a conversation in which every call has its results after it, and wherever the sequence stops
  with an error, the messages left have that property too.
\<close>

theorem compressions_keep_pairs:
  assumes "\<And>ms k. set (ap_order env ms k) = set (groups ms)" "well_paired messages"
  shows "well_paired (snd (ApplyCompressions env actions messages))"
proof -
  have "well_paired (snd (apply_compressions env n actions ms))" if "well_paired ms" for n ms
    using that
  proof (induction actions arbitrary: n ms)
    case (Cons action actions)
    show ?case
      using Cons.IH compression_well_paired [OF assms(1) Cons.prems, of n action] by (auto split: prod.split option.split)
  qed simp
  with assms(2) show ?thesis by (simp add: ApplyCompressions_def)
qed

definition example_env :: apply_env where
  "example_env = \<lparr>ap_agent = ''s'', ap_read = (\<lambda>_. None), ap_ctx = (\<lambda>_. None), ap_late = (\<lambda>_. None), ap_encode = (\<lambda>m. message_text m),
     ap_encode_all = (\<lambda>_. Inr []), ap_summarizer = None, ap_externalizer = None, ap_references = None, ap_order = (\<lambda>ms k. groups ms)\<rparr>"

definition example_conversation :: "message list" where
  "example_conversation = map en_message (store_entries (store_run example_config example_ops) ''s'')"

lemma example_conversation_paired: "well_paired example_conversation"
  by code_simp

lemma example_compressed:
  "let (e, ms) = ApplyCompressions example_env
       [CompressWindow 2, CompressSummary \<lparr>rg_from = FromStart, rg_to = ByIndex 1\<rparr> []] example_conversation in
     e = None \<and> map m_id ms = [''context/s/0/2'', ''4'']"
  by code_simp

theorem compressions_keep_pairs_witness:
  "well_paired (snd (ApplyCompressions example_env
     [CompressWindow 2, CompressSummary \<lparr>rg_from = FromStart, rg_to = ByIndex 1\<rparr> []] example_conversation))"
  by (rule compressions_keep_pairs [OF _ example_conversation_paired]) (simp add: example_env_def)

end
