(* ===== verification/Context_Hooks.thy ===== *)
theory Context_Hooks
  imports Context_Apply
begin

section \<open>Context policies: rules, defaults and chains of hooks\<close>

text \<open>
  sdk/agent/context/hooks.go. A hook value may implement any of seven interfaces
  (sdk/kernel/abi/context.go): \<open>context_hooks\<close> holds the methods it has. A hook acts on the world
  \<open>'h\<close>: the store behind its handle and whatever state of its own it keeps. A chain implements
  all seven.
\<close>

record 'h context_hooks =
  hk_bootstrap :: "('h \<Rightarrow> string \<Rightarrow> go_error option \<times> 'h) option"
  hk_ingest :: "('h \<Rightarrow> string \<Rightarrow> context_entry \<Rightarrow> ingest_action result \<times> 'h) option"
  hk_on_message :: "('h \<Rightarrow> string \<Rightarrow> message \<Rightarrow> injection list result \<times> 'h) option"
  hk_assemble :: "('h \<Rightarrow> string \<Rightarrow> context_entry list \<Rightarrow> int \<Rightarrow> context_entry list result \<times> 'h) option"
  hk_on_budget :: "('h \<Rightarrow> string \<Rightarrow> context_snapshot \<Rightarrow> compress_action list result \<times> 'h) option"
  hk_after_turn :: "('h \<Rightarrow> string \<Rightarrow> go_error option \<times> 'h) option"
  hk_dispose :: "('h \<Rightarrow> go_error option \<times> 'h) option"

subsection \<open>The rules\<close>

definition rules_OnBudgetExceeded :: "int \<Rightarrow> context_snapshot \<Rightarrow> compress_action list" where
  "rules_OnBudgetExceeded maxMessages sn =
     (let keep = (if maxMessages \<le> 0 then 30 else maxMessages) in
      (if list_ex (\<lambda>e. es_priority e = Disposable) (sn_entries sn) then [CompressPriority Disposable] else []) @ [CompressWindow keep])"

fun add_unseen :: "(string \<Rightarrow> context_entry option) \<Rightarrow> context_entry list \<Rightarrow> string list \<Rightarrow> context_entry list" where
  "add_unseen read [] seen = []"
| "add_unseen read (e # es) seen =
     (let e = (case read (en_id e) of Some stored \<Rightarrow> stored | None \<Rightarrow> e) in
      if \<not> md_excluded (en_meta e) \<and> en_id e \<notin> set seen then e # add_unseen read es (en_id e # seen) else add_unseen read es seen)"

text \<open>The stored entries of the other layers first, then the working entries not yet there.\<close>

definition rules_Assemble :: "context_store \<Rightarrow> string \<Rightarrow> context_entry list \<Rightarrow> context_entry list" where
  "rules_Assemble st agentID entries =
     (let first = filter (\<lambda>e. md_layer (en_meta e) \<noteq> RuntimeInject \<and> \<not> md_excluded (en_meta e)) (store_Entries st agentID) in
      first @ add_unseen (store_ReadMessage st agentID) entries (map en_id first))"

definition RulesHooks :: "int \<Rightarrow> context_store context_hooks" where
  "RulesHooks maxMessages =
     \<lparr>hk_bootstrap = None, hk_ingest = None, hk_on_message = None,
      hk_assemble = Some (\<lambda>st i entries budget. (Inr (rules_Assemble st i entries), st)),
      hk_on_budget = Some (\<lambda>st i sn. (Inr (rules_OnBudgetExceeded maxMessages sn), st)),
      hk_after_turn = Some (\<lambda>st i. (None, store_AdvanceTurn i st)), hk_dispose = None\<rparr>"

text \<open>\<open>DefaultHooks\<close>: a callback decides first; the rules take over when it fails or has no action.\<close>

definition default_OnBudgetExceeded ::
  "(context_store \<Rightarrow> string \<Rightarrow> context_snapshot \<Rightarrow> compress_action list result \<times> context_store) option \<Rightarrow> go_error option \<Rightarrow> int \<Rightarrow>
     context_store \<Rightarrow> string \<Rightarrow> context_snapshot \<Rightarrow> compress_action list result \<times> context_store" where
  "default_OnBudgetExceeded decide canceled maxMessages st i sn =
     (case decide of None \<Rightarrow> (Inr (rules_OnBudgetExceeded maxMessages sn), st)
      | Some f \<Rightarrow>
        (let (r, st) = f st i sn in
         case canceled of Some e \<Rightarrow> (Inl e, st)
         | None \<Rightarrow>
           (case r of
              Inr (a # as) \<Rightarrow> (Inr (a # as), st)
            | _ \<Rightarrow> (Inr (rules_OnBudgetExceeded maxMessages sn), st))))"

definition DefaultHooks ::
  "(context_store \<Rightarrow> string \<Rightarrow> context_snapshot \<Rightarrow> compress_action list result \<times> context_store) option \<Rightarrow> go_error option \<Rightarrow> int \<Rightarrow>
     context_store context_hooks" where
  "DefaultHooks decide canceled maxMessages =
     (RulesHooks maxMessages)\<lparr>hk_on_budget := Some (default_OnBudgetExceeded decide canceled maxMessages)\<rparr>"

subsection \<open>Chains\<close>

fun chain_first :: "('h context_hooks \<Rightarrow> ('h \<Rightarrow> string \<Rightarrow> go_error option \<times> 'h) option) \<Rightarrow> 'h context_hooks list \<Rightarrow>
    'h \<Rightarrow> string \<Rightarrow> go_error option \<times> 'h" where
  "chain_first sel [] h i = (None, h)"
| "chain_first sel (k # ks) h i =
     (case sel k of None \<Rightarrow> chain_first sel ks h i
      | Some f \<Rightarrow> (case f h i of (Some e, h) \<Rightarrow> (Some e, h) | (None, h) \<Rightarrow> chain_first sel ks h i))"

definition chain_Bootstrap :: "'h context_hooks list \<Rightarrow> 'h \<Rightarrow> string \<Rightarrow> go_error option \<times> 'h" where
  "chain_Bootstrap = chain_first hk_bootstrap"

definition chain_AfterTurn :: "'h context_hooks list \<Rightarrow> 'h \<Rightarrow> string \<Rightarrow> go_error option \<times> 'h" where
  "chain_AfterTurn = chain_first hk_after_turn"

fun chain_OnMessage :: "'h context_hooks list \<Rightarrow> 'h \<Rightarrow> string \<Rightarrow> message \<Rightarrow> injection list result \<times> 'h" where
  "chain_OnMessage [] h i m = (Inr [], h)"
| "chain_OnMessage (k # ks) h i m =
     (case hk_on_message k of None \<Rightarrow> chain_OnMessage ks h i m
      | Some f \<Rightarrow>
        (case f h i m of (Inl e, h) \<Rightarrow> (Inl e, h)
         | (Inr xs, h) \<Rightarrow> (case chain_OnMessage ks h i m of (Inl e, h) \<Rightarrow> (Inl e, h) | (Inr ys, h) \<Rightarrow> (Inr (xs @ ys), h))))"

fun chain_OnBudgetExceeded :: "'h context_hooks list \<Rightarrow> 'h \<Rightarrow> string \<Rightarrow> context_snapshot \<Rightarrow> compress_action list result \<times> 'h" where
  "chain_OnBudgetExceeded [] h i sn = (Inr [], h)"
| "chain_OnBudgetExceeded (k # ks) h i sn =
     (case hk_on_budget k of None \<Rightarrow> chain_OnBudgetExceeded ks h i sn
      | Some f \<Rightarrow>
        (case f h i sn of (Inl e, h) \<Rightarrow> (Inl e, h)
         | (Inr xs, h) \<Rightarrow> (case chain_OnBudgetExceeded ks h i sn of (Inl e, h) \<Rightarrow> (Inl e, h) | (Inr ys, h) \<Rightarrow> (Inr (xs @ ys), h))))"

fun chain_Assemble :: "'h context_hooks list \<Rightarrow> 'h \<Rightarrow> string \<Rightarrow> context_entry list \<Rightarrow> int \<Rightarrow> context_entry list result \<times> 'h" where
  "chain_Assemble [] h i entries budget = (Inr entries, h)"
| "chain_Assemble (k # ks) h i entries budget =
     (case hk_assemble k of None \<Rightarrow> chain_Assemble ks h i entries budget
      | Some f \<Rightarrow> (case f h i entries budget of (Inl e, h) \<Rightarrow> (Inl e, h) | (Inr es, h) \<Rightarrow> chain_Assemble ks h i es budget))"

text \<open>\<open>Ingest\<close>: the entry and the action so far are carried along.\<close>

fun chain_ingest_loop :: "'h context_hooks list \<Rightarrow> 'h \<Rightarrow> string \<Rightarrow> context_entry \<Rightarrow> ingest_action \<Rightarrow> ingest_action result \<times> 'h" where
  "chain_ingest_loop [] h i entry action = (Inr action, h)"
| "chain_ingest_loop (k # ks) h i entry action =
     (case hk_ingest k of None \<Rightarrow> chain_ingest_loop ks h i entry action
      | Some f \<Rightarrow>
        (case f h i entry of
           (Inl e, h) \<Rightarrow> (Inl e, h)
         | (Inr a, h) \<Rightarrow>
           (case ig_kind a of
              IngestSkip \<Rightarrow> (Inr a, h)
            | IngestKeep \<Rightarrow> chain_ingest_loop ks h i entry action
            | IngestModify \<Rightarrow>
                (case ig_message a of None \<Rightarrow> (Inl (ErrNew ''ingest modify missing message''), h)
                 | Some m \<Rightarrow>
                   (let m = m\<lparr>m_id := en_id entry\<rparr>;
                        entry = entry\<lparr>en_message := m\<rparr>;
                        (entry, action) = (case ig_priority a of None \<Rightarrow> (entry, action)
                          | Some p \<Rightarrow> (entry\<lparr>en_meta := (en_meta entry)\<lparr>md_priority := p\<rparr>\<rparr>, action\<lparr>ig_priority := Some p\<rparr>))
                    in chain_ingest_loop ks h i entry (action\<lparr>ig_kind := IngestModify, ig_message := Some m\<rparr>)))
            | IngestOther _ \<Rightarrow> (Inl (ErrNew ''unknown ingest action''), h))))"

definition keep_action :: ingest_action where
  "keep_action = \<lparr>ig_kind = IngestKeep, ig_message = None, ig_priority = None\<rparr>"

definition chain_Ingest :: "'h context_hooks list \<Rightarrow> 'h \<Rightarrow> string \<Rightarrow> context_entry \<Rightarrow> ingest_action result \<times> 'h" where
  "chain_Ingest ks h i entry = chain_ingest_loop ks h i entry keep_action"

text \<open>\<open>Dispose\<close>: in reverse order, every hook, all failures joined.\<close>

fun dispose_all :: "'h context_hooks list \<Rightarrow> 'h \<Rightarrow> go_error option list \<times> 'h" where
  "dispose_all [] h = ([], h)"
| "dispose_all (k # ks) h =
     (case hk_dispose k of None \<Rightarrow> dispose_all ks h
      | Some f \<Rightarrow> (let (e, h) = f h; (es, h) = dispose_all ks h in (e # es, h)))"

definition chain_Dispose :: "'h context_hooks list \<Rightarrow> 'h \<Rightarrow> go_error option \<times> 'h" where
  "chain_Dispose ks h = (let (es, h) = dispose_all (rev ks) h in (errors_join es, h))"

definition HooksChain :: "'h context_hooks list \<Rightarrow> 'h context_hooks" where
  "HooksChain ks =
     \<lparr>hk_bootstrap = Some (chain_Bootstrap ks), hk_ingest = Some (chain_Ingest ks), hk_on_message = Some (chain_OnMessage ks),
      hk_assemble = Some (chain_Assemble ks), hk_on_budget = Some (chain_OnBudgetExceeded ks),
      hk_after_turn = Some (chain_AfterTurn ks), hk_dispose = Some (chain_Dispose ks)\<rparr>"

subsection \<open>A chain of chains is one chain\<close>

lemma chain_first_append:
  "chain_first sel (ks @ ls) h i = (case chain_first sel ks h i of (Some e, h) \<Rightarrow> (Some e, h) | (None, h) \<Rightarrow> chain_first sel ls h i)"
  by (induction ks arbitrary: h) (auto split: option.split prod.split)

lemma chain_assemble_append:
  "chain_Assemble (ks @ ls) h i es b =
   (case chain_Assemble ks h i es b of (Inl e, h) \<Rightarrow> (Inl e, h) | (Inr es, h) \<Rightarrow> chain_Assemble ls h i es b)"
  by (induction ks arbitrary: h es) (auto split: option.split prod.split sum.split)

lemma chain_on_message_append:
  "chain_OnMessage (ks @ ls) h i m =
   (case chain_OnMessage ks h i m of (Inl e, h) \<Rightarrow> (Inl e, h)
    | (Inr xs, h) \<Rightarrow> (case chain_OnMessage ls h i m of (Inl e, h) \<Rightarrow> (Inl e, h) | (Inr ys, h) \<Rightarrow> (Inr (xs @ ys), h)))"
  by (induction ks arbitrary: h) (auto split: option.split prod.split sum.split)

lemma chain_on_budget_append:
  "chain_OnBudgetExceeded (ks @ ls) h i sn =
   (case chain_OnBudgetExceeded ks h i sn of (Inl e, h) \<Rightarrow> (Inl e, h)
    | (Inr xs, h) \<Rightarrow> (case chain_OnBudgetExceeded ls h i sn of (Inl e, h) \<Rightarrow> (Inl e, h) | (Inr ys, h) \<Rightarrow> (Inr (xs @ ys), h)))"
  by (induction ks arbitrary: h) (auto split: option.split prod.split sum.split)

text \<open>What an ingest action does to the entry, and to the action before it.\<close>

definition ingested :: "context_entry \<Rightarrow> ingest_action \<Rightarrow> context_entry" where
  "ingested e a =
     (case ig_kind a of
        IngestModify \<Rightarrow>
          e\<lparr>en_message := (the (ig_message a))\<lparr>m_id := en_id e\<rparr>,
            en_meta := (case ig_priority a of None \<Rightarrow> en_meta e | Some p \<Rightarrow> (en_meta e)\<lparr>md_priority := p\<rparr>)\<rparr>
      | _ \<Rightarrow> e)"

definition after_action :: "ingest_action \<Rightarrow> ingest_action \<Rightarrow> ingest_action" where
  "after_action a b =
     (case ig_kind b of
        IngestModify \<Rightarrow> \<lparr>ig_kind = IngestModify, ig_message = ig_message b,
          ig_priority = (case ig_priority b of None \<Rightarrow> ig_priority a | Some p \<Rightarrow> Some p)\<rparr>
      | IngestKeep \<Rightarrow> a
      | _ \<Rightarrow> b)"

text \<open>The actions a chain returns.\<close>

definition chain_action :: "context_entry \<Rightarrow> ingest_action \<Rightarrow> bool" where
  "chain_action e a \<longleftrightarrow> a = keep_action \<or> ig_kind a = IngestSkip \<or>
     (ig_kind a = IngestModify \<and> (\<exists>m. ig_message a = Some m \<and> m_id m = en_id e))"

lemma en_id_ingested [simp]: "en_id (ingested e a) = en_id e"
  by (simp add: ingested_def split: ingest_kind.split)

definition modified :: "context_entry \<Rightarrow> ingest_action \<Rightarrow> message \<Rightarrow> ingest_action" where
  "modified e a m = \<lparr>ig_kind = IngestModify, ig_message = Some (m\<lparr>m_id := en_id e\<rparr>), ig_priority = ig_priority a\<rparr>"

lemma modify_step:
  "hk_ingest k = Some f \<Longrightarrow> f h i e = (Inr a, h') \<Longrightarrow> ig_kind a = IngestModify \<Longrightarrow> ig_message a = Some m \<Longrightarrow>
   chain_ingest_loop (k # ks) h i e action = chain_ingest_loop ks h' i (ingested e (modified e a m)) (after_action action (modified e a m))"
  by (cases "ig_priority a"; cases action) (simp_all add: ingested_def after_action_def modified_def Let_def)

lemma after_keep: "chain_action e a \<Longrightarrow> ig_kind a \<noteq> IngestSkip \<Longrightarrow> after_action keep_action a = a"
  by (cases a) (auto simp: chain_action_def after_action_def keep_action_def split: option.split)

lemma after_modified: "after_action (after_action a (modified e b m)) r = after_action a (after_action (modified e b m) r)"
  by (cases "ig_kind r"; cases "ig_priority r"; cases "ig_priority b") (simp_all add: after_action_def modified_def)

lemma chain_action_modified: "chain_action e (modified e a m)"
  by (simp add: chain_action_def modified_def)

lemma keep_modified: "after_action keep_action (modified e a m) = modified e a m"
  by (simp add: after_action_def modified_def keep_action_def split: option.split)

lemma chain_action_after: "chain_action (ingested e (modified e a m)) r \<Longrightarrow> chain_action e (after_action (modified e a m) r)"
  by (auto simp: chain_action_def after_action_def modified_def keep_action_def)

lemma after_skip: "ig_kind b = IngestSkip \<Longrightarrow> after_action a b = b"
  by (simp add: after_action_def)

definition then_action :: "ingest_action \<Rightarrow> ingest_action result \<times> 'h \<Rightarrow> ingest_action result \<times> 'h" where
  "then_action a r = (case r of (Inl x, h) \<Rightarrow> (Inl x, h) | (Inr b, h) \<Rightarrow> (Inr (after_action a b), h))"

lemma chain_ingest_acc:
  "chain_ingest_loop ks h i e action = then_action action (chain_ingest_loop ks h i e keep_action) \<and>
   (\<forall>a h'. chain_ingest_loop ks h i e keep_action = (Inr a, h') \<longrightarrow> chain_action e a)"
proof (induction ks arbitrary: h e action)
  case Nil
  then show ?case by (simp add: then_action_def after_action_def keep_action_def chain_action_def)
next
  case (Cons k ks)
  show ?case
  proof (cases "\<exists>f a h' m. hk_ingest k = Some f \<and> f h i e = (Inr a, h') \<and> ig_kind a = IngestModify \<and> ig_message a = Some m")
    case True
    then obtain f a h' m where f: "hk_ingest k = Some f" "f h i e = (Inr a, h')" "ig_kind a = IngestModify" "ig_message a = Some m" by blast
    let ?m = "modified e a m"
    note step = modify_step [OF f]
    note at = Cons.IH [of h' "ingested e ?m"]
    obtain q h'' where q: "chain_ingest_loop ks h' i (ingested e ?m) keep_action = (q, h'')" by fastforce
    have kept: "chain_ingest_loop (k # ks) h i e keep_action = then_action ?m (q, h'')"
      using step [of ks keep_action] at [of ?m] by (simp add: keep_modified q del: chain_ingest_loop.simps)
    have acted: "chain_ingest_loop (k # ks) h i e action = then_action (after_action action ?m) (q, h'')"
      using step [of ks action] at [of "after_action action ?m"] by (simp add: q del: chain_ingest_loop.simps)
    have ok: "chain_action e b'" if "then_action ?m (q, h'') = (Inr b', h0)" for b' h0
      using at [of keep_action] q that by (cases q) (auto simp: then_action_def intro: chain_action_after)
    have both: "then_action (after_action action ?m) (q, h'') = then_action action (then_action ?m (q, h''))"
      by (cases q) (simp_all add: then_action_def after_modified)
    show ?thesis unfolding kept acted both using ok by blast
  next
    case False
    show ?thesis
    proof (cases "hk_ingest k")
      case None
      with Cons.IH [of h e action] show ?thesis by simp
    next
      case (Some f)
      obtain r h' where r: "f h i e = (r, h')" by fastforce
      show ?thesis
      proof (cases r)
        case (Inl x)
        with Some r show ?thesis by (simp add: then_action_def)
      next
        case (Inr a)
        with False Some r Cons.IH [of h' e action] show ?thesis
          by (cases "ig_kind a"; cases "ig_message a") (simp_all add: then_action_def after_action_def chain_action_def)
      qed
    qed
  qed
qed

lemma chain_action_result: "chain_ingest_loop ks h i e keep_action = (Inr a, h') \<Longrightarrow> chain_action e a"
  using chain_ingest_acc [of ks h i e keep_action] by blast

definition continue_with :: "'h context_hooks list \<Rightarrow> string \<Rightarrow> context_entry \<Rightarrow> ingest_action \<Rightarrow> ingest_action result \<times> 'h \<Rightarrow>
    ingest_action result \<times> 'h" where
  "continue_with ls i e action r =
     (case r of (Inl x, h) \<Rightarrow> (Inl x, h)
      | (Inr a, h) \<Rightarrow> if ig_kind a = IngestSkip then (Inr a, h)
          else chain_ingest_loop ls h i (ingested e a) (after_action action a))"

lemma ingested_modified: "chain_action (ingested e (modified e a m)) r \<Longrightarrow> ig_kind r \<noteq> IngestSkip \<Longrightarrow>
   ingested e (after_action (modified e a m) r) = ingested (ingested e (modified e a m)) r"
  by (cases "ig_priority r"; cases "ig_priority a")
    (auto simp: chain_action_def keep_action_def ingested_def after_action_def modified_def)

lemma chain_ingest_append:
  "chain_ingest_loop (ks @ ls) h i e action = continue_with ls i e action (chain_ingest_loop ks h i e keep_action)"
proof (induction ks arbitrary: h e action)
  case Nil
  then show ?case by (simp add: continue_with_def keep_action_def ingested_def after_action_def)
next
  case (Cons k ks)
  show ?case
  proof (cases "\<exists>f a h' m. hk_ingest k = Some f \<and> f h i e = (Inr a, h') \<and> ig_kind a = IngestModify \<and> ig_message a = Some m")
    case True
    then obtain f a h' m where f: "hk_ingest k = Some f" "f h i e = (Inr a, h')" "ig_kind a = IngestModify" "ig_message a = Some m" by blast
    let ?m = "modified e a m"
    obtain q h'' where q: "chain_ingest_loop ks h' i (ingested e ?m) keep_action = (q, h'')" by fastforce
    have "chain_ingest_loop (k # ks) h i e keep_action = then_action ?m (q, h'')"
      using modify_step [OF f, of ks keep_action] chain_ingest_acc [of ks h' i "ingested e ?m" ?m]
      by (simp add: keep_modified q del: chain_ingest_loop.simps)
    moreover have "chain_ingest_loop (k # ks @ ls) h i e action = continue_with ls i (ingested e ?m) (after_action action ?m) (q, h'')"
      using modify_step [OF f, of "ks @ ls" action] Cons.IH [of h' "ingested e ?m"] by (simp add: q del: chain_ingest_loop.simps)
    moreover have "chain_action (ingested e ?m) b" if "q = Inr b" for b using q that by (auto intro: chain_action_result)
    moreover have "ig_kind (after_action ?m b) = IngestSkip \<longleftrightarrow> ig_kind b = IngestSkip" for b
      by (simp add: after_action_def modified_def split: ingest_kind.split)
    ultimately show ?thesis
      by (cases q) (simp_all add: then_action_def continue_with_def after_modified ingested_modified after_skip del: chain_ingest_loop.simps)
  next
    case False
    show ?thesis
    proof (cases "hk_ingest k")
      case None
      with Cons.IH show ?thesis by simp
    next
      case (Some f)
      obtain r h' where r: "f h i e = (r, h')" by fastforce
      show ?thesis
      proof (cases r)
        case (Inl x)
        with Some r show ?thesis by (simp add: continue_with_def)
      next
        case (Inr a)
        with False Some r Cons.IH [of h' e action] show ?thesis
          by (cases "ig_kind a"; cases "ig_message a") (simp_all add: continue_with_def)
      qed
    qed
  qed
qed

lemma chain_ingest_nested: "chain_ingest_loop (HooksChain ks # ls) h i e action = chain_ingest_loop (ks @ ls) h i e action"
proof -
  obtain r h' where r: "chain_ingest_loop ks h i e keep_action = (r, h')" by fastforce
  then have f: "hk_ingest (HooksChain ks) = Some (chain_Ingest ks)" "chain_Ingest ks h i e = (r, h')"
    by (simp_all add: HooksChain_def chain_Ingest_def)
  show ?thesis
  proof (cases r)
    case (Inl x)
    with f r show ?thesis by (simp add: chain_ingest_append continue_with_def)
  next
    case (Inr a)
    have a: "chain_action e a" by (rule chain_action_result [OF r [unfolded Inr]])
    then consider "a = keep_action" | "ig_kind a = IngestSkip" | m where "ig_kind a = IngestModify" "ig_message a = Some m" "m_id m = en_id e"
      by (auto simp: chain_action_def)
    then show ?thesis
    proof cases
      case 1
      with f r Inr show ?thesis by (simp add: chain_ingest_append continue_with_def keep_action_def ingested_def after_action_def)
    next
      case 2
      with f r Inr show ?thesis by (simp add: chain_ingest_append continue_with_def)
    next
      case 3
      then have "m\<lparr>m_id := en_id e\<rparr> = m" by (cases m) simp
      then have "modified e a m = a" using 3 by (cases a) (simp add: modified_def)
      with modify_step [OF f(1) f(2) [unfolded Inr] 3(1,2), of ls action] r Inr 3 show ?thesis
        by (simp add: chain_ingest_append continue_with_def del: chain_ingest_loop.simps)
    qed
  qed
qed

lemma dispose_all_append:
  "dispose_all (ks @ ls) h = (let (es, h) = dispose_all ks h; (fs, h) = dispose_all ls h in (es @ fs, h))"
  by (induction ks arbitrary: h) (auto simp: Let_def split: option.split prod.split)

definition err_leaves :: "go_error option \<Rightarrow> go_error list" where
  "err_leaves e = (case e of None \<Rightarrow> [] | Some x \<Rightarrow> leaves x)"

lemma err_leaves_join: "err_leaves (errors_join es) = concat (map err_leaves es)"
proof -
  have "concat (map leaves (List.map_filter id es)) = concat (map err_leaves es)"
    by (induction es) (auto simp: err_leaves_def List.map_filter_def split: option.split)
  then show ?thesis by (auto simp: errors_join_def err_leaves_def split: list.split)
qed

text \<open>
  Chains nest. A chain of two chains behaves like the one chain of all their hooks, in every
  interface: the same hooks run in the same order on the same world, the same entries and actions
  come back (a skip ends both, modifications accumulate, identities are kept), and the first error
  ends both. Disposal reports the same errors, joined differently.
\<close>

theorem chains_nest:
  "let two = HooksChain [HooksChain ks, HooksChain ls]; one = HooksChain (ks @ ls);
       errors = map_option (\<lambda>f. map_prod err_leaves id \<circ> f) in
     hk_bootstrap two = hk_bootstrap one \<and> hk_ingest two = hk_ingest one \<and> hk_on_message two = hk_on_message one \<and>
     hk_assemble two = hk_assemble one \<and> hk_on_budget two = hk_on_budget one \<and> hk_after_turn two = hk_after_turn one \<and>
     errors (hk_dispose two) = errors (hk_dispose one)"
proof -
  let ?two = "[HooksChain ks, HooksChain ls]" and ?one = "ks @ ls"
  have first: "chain_first sel ?two h i = chain_first sel ?one h i" if "sel = hk_bootstrap \<or> sel = hk_after_turn" for sel h i
    using that by (auto simp: chain_Bootstrap_def chain_AfterTurn_def HooksChain_def chain_first_append split: prod.split option.split)
  have "continue_with [HooksChain ls] i e a r = continue_with ls i e a r" for i e a r
    by (simp only: continue_with_def chain_ingest_nested append_Nil2)
  then have "chain_Ingest ?two h i e = chain_Ingest ?one h i e" for h i e
    unfolding chain_Ingest_def by (simp only: chain_ingest_nested chain_ingest_append)
  moreover have "chain_OnMessage ?two h i m = chain_OnMessage ?one h i m" for h i m
    by (auto simp: HooksChain_def chain_on_message_append split: prod.split sum.split)
  moreover have "chain_Assemble ?two h i es b = chain_Assemble ?one h i es b" for h i es b
    by (auto simp: HooksChain_def chain_assemble_append split: prod.split sum.split)
  moreover have "chain_OnBudgetExceeded ?two h i sn = chain_OnBudgetExceeded ?one h i sn" for h i sn
    by (auto simp: HooksChain_def chain_on_budget_append split: prod.split sum.split)
  moreover have "map_prod err_leaves id (chain_Dispose ?two h) = map_prod err_leaves id (chain_Dispose ?one h)" for h
    by (auto simp: chain_Dispose_def HooksChain_def dispose_all_append err_leaves_join Let_def split: prod.split)
  ultimately have "chain_Ingest ?two = chain_Ingest ?one" "chain_OnMessage ?two = chain_OnMessage ?one"
      "chain_Assemble ?two = chain_Assemble ?one" "chain_OnBudgetExceeded ?two = chain_OnBudgetExceeded ?one"
      "map_prod err_leaves id \<circ> chain_Dispose ?two = map_prod err_leaves id \<circ> chain_Dispose ?one"
    by (intro ext; simp only: o_apply)+
  moreover have "chain_Bootstrap ?two = chain_Bootstrap ?one" "chain_AfterTurn ?two = chain_AfterTurn ?one"
    unfolding chain_Bootstrap_def chain_AfterTurn_def by (intro ext first; simp)+
  ultimately show ?thesis
    by (simp only: HooksChain_def [of ?two] HooksChain_def [of ?one] Let_def context_hooks.simps option.map simp_thms)
qed

end
