(* ===== verification/Context_Runtime.thy ===== *)
theory Context_Runtime
  imports Context_Hooks
begin

section \<open>The context runtime\<close>

text \<open>
  sdk/kernel/core/context_runtime.go: when the hooks of a context system run, and how a provider-bound
  view is prepared. The handle's operations and the world \<open>'h\<close> they act on belong to the system; a
  nil system is \<open>None\<close>. \<open>validateContextSystem\<close> looks for nil pointers inside interfaces, which
  have no counterpart here. \<open>json.Marshal\<close> of a message's content is \<open>encode\<close>.
\<close>

record 'h context_handle =
  hd_read :: "'h \<Rightarrow> string \<Rightarrow> string \<Rightarrow> context_entry option"
  hd_inject :: "string \<Rightarrow> context_layer \<Rightarrow> message \<Rightarrow> 'h \<Rightarrow> go_error option \<times> 'h"
  hd_tag_priority :: "string \<Rightarrow> string \<Rightarrow> priority \<Rightarrow> 'h \<Rightarrow> go_error option \<times> 'h"
  hd_tag_exclude :: "string \<Rightarrow> string \<Rightarrow> 'h \<Rightarrow> go_error option \<times> 'h"
  hd_budget :: "'h \<Rightarrow> string \<Rightarrow> budget_info"
  hd_snapshot :: "'h \<Rightarrow> string \<Rightarrow> context_snapshot"

record 'h context_apply =
  ca_injections :: "injection list \<Rightarrow> string list \<Rightarrow> message list \<Rightarrow> go_error option \<times> string list \<times> message list"
  ca_compressions :: "compress_action list \<Rightarrow> message list \<Rightarrow> 'h \<Rightarrow> string \<Rightarrow> go_error option \<times> message list"

record token_counter =
  tc_count :: "string \<Rightarrow> int"
  tc_window :: int

record 'h context_system =
  sy_hooks :: "'h context_hooks"
  sy_handle :: "'h context_handle"
  sy_apply :: "'h context_apply option"
  sy_counter :: "token_counter option"
  sy_budget :: int

record context_runtime =
  cr_agent :: string
  cr_pending :: "injection list"

definition NewContextRuntime :: "string \<Rightarrow> context_runtime" where
  "NewContextRuntime i = \<lparr>cr_agent = i, cr_pending = []\<rparr>"

definition estimateText :: "string \<Rightarrow> token_counter option \<Rightarrow> int" where
  "estimateText t counter =
     (case counter of Some c \<Rightarrow> (let tokens = tc_count c t in if tokens > 0 then tokens else 0)
      | None \<Rightarrow> (int (length (runes t)) + 3) div 4)"

definition estimateMessages :: "(content_block list \<Rightarrow> string) \<Rightarrow> message list \<Rightarrow> token_counter option \<Rightarrow> int" where
  "estimateMessages encode ms counter = (\<Sum>m \<leftarrow> ms. estimateText (encode (m_content m)) counter + 4)"

text \<open>\<open>Load\<close>: a configured source is authoritative; without one the log is read in full.\<close>

definition runtime_Load ::
  "url_parser \<Rightarrow> go_error option \<Rightarrow> go_error option \<Rightarrow> context_runtime \<Rightarrow> string \<Rightarrow> message list result \<Rightarrow> message list result option \<Rightarrow>
     message list result" where
  "runtime_Load url canceled late rt logID messages source =
     (case canceled of Some e \<Rightarrow> Inl e
      | None \<Rightarrow>
        if logID = [] \<or> logID \<noteq> cr_agent rt then Inl (ErrNew ''context source does not belong to this runtime session'')
        else
          (case (case source of
               Some (Inl e) \<Rightarrow> Inl (Wrapf ''load context working view: '' e)
             | Some (Inr ms) \<Rightarrow> Inr ms
             | None \<Rightarrow> (case messages of Inl e \<Rightarrow> Inl (SessionError ''messages'' logID e) | Inr ms \<Rightarrow> Inr ms)) of
             Inl e \<Rightarrow> Inl e
           | Inr ms \<Rightarrow>
             (case late of Some e \<Rightarrow> Inl e
              | None \<Rightarrow>
                (case first_err (message_validate url) ms of
                   Some e \<Rightarrow> Inl (Wrapf ''invalid context working view: '' e)
                 | None \<Rightarrow> Inr ms))))"

definition runtime_entry :: "(content_block list \<Rightarrow> string) \<Rightarrow> token_counter option \<Rightarrow> message \<Rightarrow> context_entry" where
  "runtime_entry encode counter m =
     \<lparr>en_id = m_id m, en_message = m, en_meta = \<lparr>md_layer = RuntimeInject, md_priority = Normal,
        md_tokens = estimateMessages encode [m] counter, md_compacted = False, md_externalized_path = [],
        md_replacement_summary = [], md_source_agent = [], md_origin = [], md_created_at = 0, md_created_turn = 0,
        md_excluded = False\<rparr>\<rparr>"

subsection \<open>A message arrives\<close>

text \<open>The entry after ingestion, \<open>None\<close> when the hook skips it.\<close>

definition ingest_entry :: "'h context_system \<Rightarrow> string \<Rightarrow> context_entry \<Rightarrow> 'h \<Rightarrow> context_entry option result \<times> 'h" where
  "ingest_entry sys agentID entry h =
     (case hk_ingest (sy_hooks sys) of None \<Rightarrow> (Inr (Some entry), h)
      | Some f \<Rightarrow>
        (case f h agentID entry of
           (Inl e, h) \<Rightarrow> (Inl e, h)
         | (Inr a, h) \<Rightarrow>
           (case ig_kind a of
              IngestKeep \<Rightarrow> (Inr (Some entry), h)
            | IngestSkip \<Rightarrow> (Inr None, h)
            | IngestModify \<Rightarrow>
                (case ig_message a of None \<Rightarrow> (Inl (ErrNew ''context ingest modify missing message''), h)
                 | Some m \<Rightarrow>
                   (Inr (Some (entry\<lparr>en_message := m\<lparr>m_id := en_id entry\<rparr>,
                      en_meta := (case ig_priority a of None \<Rightarrow> en_meta entry | Some p \<Rightarrow> (en_meta entry)\<lparr>md_priority := p\<rparr>)\<rparr>)), h))
            | IngestOther _ \<Rightarrow> (Inl (ErrNew ''unknown context ingest action''), h))))"

definition runtime_OnMessage ::
  "(content_block list \<Rightarrow> string) \<Rightarrow> go_error option \<Rightarrow> 'h context_system option \<Rightarrow> message \<Rightarrow> context_runtime \<Rightarrow> 'h \<Rightarrow>
     go_error option \<times> context_runtime \<times> 'h" where
  "runtime_OnMessage encode canceled system m rt h =
     (case canceled of Some e \<Rightarrow> (Some e, rt, h)
      | None \<Rightarrow>
        (case system of None \<Rightarrow> (None, rt, h)
         | Some sys \<Rightarrow>
           (let agentID = cr_agent rt; hdl = sy_handle sys; entry = runtime_entry encode (sy_counter sys) m in
            case ingest_entry sys agentID entry h of
              (Inl e, h) \<Rightarrow> (Some e, rt, h)
            | (Inr None, h) \<Rightarrow>
                (case hd_inject hdl agentID RuntimeInject m h of
                   (Some e, h) \<Rightarrow> (Some e, rt, h)
                 | (None, h) \<Rightarrow> (let (e, h) = hd_tag_exclude hdl agentID (en_id entry) h in (e, rt, h)))
            | (Inr (Some entry), h) \<Rightarrow>
                (case hd_inject hdl agentID RuntimeInject (en_message entry) h of
                   (Some e, h) \<Rightarrow> (Some e, rt, h)
                 | (None, h) \<Rightarrow>
                   (case hd_tag_priority hdl agentID (en_id entry) (md_priority (en_meta entry)) h of
                      (Some e, h) \<Rightarrow> (Some e, rt, h)
                    | (None, h) \<Rightarrow>
                      (case hk_on_message (sy_hooks sys) of None \<Rightarrow> (None, rt, h)
                       | Some f \<Rightarrow>
                         (case f h agentID (en_message entry) of
                            (Inl e, h) \<Rightarrow> (Some e, rt, h)
                          | (Inr items, h) \<Rightarrow> (None, rt\<lparr>cr_pending := cr_pending rt @ items\<rparr>, h))))))))"

subsection \<open>Preparing the provider-bound view\<close>

definition with_ids :: "string \<Rightarrow> message list \<Rightarrow> message list" where
  "with_ids agentID ms =
     map (\<lambda>(i, m). if m_id m = [] then m\<lparr>m_id := agentID @ ''/message/'' @ dec i\<rparr> else m) (enumerate 0 ms)"

definition context_budget :: "'h context_system \<Rightarrow> string \<Rightarrow> 'h \<Rightarrow> int" where
  "context_budget sys agentID h =
     (let budget = sy_budget sys;
          budget = (if budget \<le> 0 then bi_budget (hd_budget (sy_handle sys) h agentID) else budget);
          budget = (case sy_counter sys of Some c \<Rightarrow> if budget \<le> 0 then tc_window c else budget | None \<Rightarrow> budget)
      in if budget \<le> 0 then 2 ^ 63 - 1 else budget)"

text \<open>The stored form of each message replaces it; excluded entries are left out.\<close>

definition stored_entries :: "(content_block list \<Rightarrow> string) \<Rightarrow> 'h context_system \<Rightarrow> string \<Rightarrow> 'h \<Rightarrow> message list \<Rightarrow> context_entry list" where
  "stored_entries encode sys agentID h ms =
     filter (\<lambda>e. \<not> md_excluded (en_meta e))
       (map (\<lambda>m. case hd_read (sy_handle sys) h agentID (m_id m) of
           Some stored \<Rightarrow> stored | None \<Rightarrow> runtime_entry encode (sy_counter sys) m) ms)"

definition assembled_messages ::
  "(content_block list \<Rightarrow> string) \<Rightarrow> 'h context_system \<Rightarrow> string \<Rightarrow> 'h \<Rightarrow> message list \<Rightarrow> message list result \<times> 'h" where
  "assembled_messages encode sys agentID h ms =
     (let entries = stored_entries encode sys agentID h ms in
      case hk_assemble (sy_hooks sys) of None \<Rightarrow> (Inr (map en_message entries), h)
      | Some f \<Rightarrow>
        (case f h agentID entries (context_budget sys agentID h) of
           (Inl e, h) \<Rightarrow> (Inl e, h) | (Inr es, h) \<Rightarrow> (Inr (map en_message es), h)))"

text \<open>When the estimate exceeds the budget, the budget hook decides and its actions are applied.\<close>

definition shrink ::
  "(content_block list \<Rightarrow> string) \<Rightarrow> fdiv \<Rightarrow> 'h context_system \<Rightarrow> string \<Rightarrow> int \<Rightarrow> string list \<Rightarrow> message list \<Rightarrow> 'h \<Rightarrow> message list result \<times> 'h" where
  "shrink encode fdiv sys agentID budget prompts working h =
     (let tokens = estimateMessages encode working (sy_counter sys) + (\<Sum>p \<leftarrow> prompts. estimateText p (sy_counter sys)) in
      if tokens \<le> budget then (Inr working, h)
      else (let sn = (hd_snapshot (sy_handle sys) h agentID)\<lparr>sn_total := tokens, sn_budget := budget, sn_ratio := fdiv tokens budget\<rparr> in
        case hk_on_budget (sy_hooks sys) of None \<Rightarrow> (Inr working, h)
        | Some f \<Rightarrow>
          (case f h agentID sn of (Inl e, h) \<Rightarrow> (Inl e, h)
           | (Inr actions, h) \<Rightarrow>
             (case sy_apply sys of None \<Rightarrow> (Inr working, h)
              | Some ap \<Rightarrow>
                (case ca_compressions ap actions working h agentID of
                   (Some e, _) \<Rightarrow> (Inl e, h) | (None, working) \<Rightarrow> (Inr working, h))))))"

definition runtime_Prepare ::
  "(content_block list \<Rightarrow> string) \<Rightarrow> fdiv \<Rightarrow> 'h context_system option \<Rightarrow> string list \<Rightarrow> message list \<Rightarrow> context_runtime \<Rightarrow> 'h \<Rightarrow>
     (string list \<times> message list) result \<times> context_runtime \<times> 'h" where
  "runtime_Prepare encode fdiv system prompt messages rt h =
     (case system of None \<Rightarrow> (Inr (prompt, messages), rt, h)
      | Some sys \<Rightarrow>
        (let agentID = cr_agent rt; working = with_ids agentID messages;
             injected = (case sy_apply sys of
                 Some ap \<Rightarrow> if cr_pending rt = [] then (None, prompt, working) else ca_injections ap (cr_pending rt) prompt working
               | None \<Rightarrow> (None, prompt, working));
             rt = rt\<lparr>cr_pending := []\<rparr>
         in case injected of (Some e, _, _) \<Rightarrow> (Inl e, rt, h)
            | (None, prompts, working) \<Rightarrow>
              (let budget = context_budget sys agentID h in
               case assembled_messages encode sys agentID h working of (Inl e, h) \<Rightarrow> (Inl e, rt, h)
               | (Inr working, h) \<Rightarrow>
                 (case shrink encode fdiv sys agentID budget prompts working h of (Inl e, h) \<Rightarrow> (Inl e, rt, h)
                  | (Inr working, h) \<Rightarrow> (Inr (prompts, working), rt, h)))))"

text \<open>The remaining lifecycle calls.\<close>

definition runtime_Bootstrap :: "'h context_system option \<Rightarrow> context_runtime \<Rightarrow> 'h \<Rightarrow> go_error option \<times> 'h" where
  "runtime_Bootstrap system rt h =
     (case system of None \<Rightarrow> (None, h)
      | Some sys \<Rightarrow> (case hk_bootstrap (sy_hooks sys) of None \<Rightarrow> (None, h) | Some f \<Rightarrow> f h (cr_agent rt)))"

definition runtime_AfterTurn :: "'h context_system option \<Rightarrow> context_runtime \<Rightarrow> 'h \<Rightarrow> go_error option \<times> 'h" where
  "runtime_AfterTurn system rt h =
     (case system of None \<Rightarrow> (None, h)
      | Some sys \<Rightarrow> (case hk_after_turn (sy_hooks sys) of None \<Rightarrow> (None, h) | Some f \<Rightarrow> f h (cr_agent rt)))"

definition runtime_Dispose :: "'h context_system option \<Rightarrow> 'h \<Rightarrow> go_error option \<times> 'h" where
  "runtime_Dispose system h =
     (case system of None \<Rightarrow> (None, h)
      | Some sys \<Rightarrow> (case hk_dispose (sy_hooks sys) of None \<Rightarrow> (None, h) | Some f \<Rightarrow> f h))"

subsection \<open>What the runtime expects of a handle\<close>

text \<open>
  A handle keeps its invariant, returns what was injected under its identity, and marks what it is
  told to mark. From these laws: a message the ingest hook skips is recorded and hidden, and a
  hidden message is not among the entries a view is assembled from.
\<close>

definition hidden :: "'h context_handle \<Rightarrow> 'h \<Rightarrow> string \<Rightarrow> string \<Rightarrow> bool" where
  "hidden hdl h a i \<longleftrightarrow> (\<exists>e. hd_read hdl h a i = Some e \<and> md_excluded (en_meta e))"

locale recording_handle =
  fixes hdl :: "'h context_handle" and inv :: "'h \<Rightarrow> bool" and ok :: "message \<Rightarrow> bool"
  assumes inject_ok: "inv h \<Longrightarrow> ok m \<Longrightarrow> a \<noteq> [] \<Longrightarrow> m_id m \<noteq> [] \<Longrightarrow>
      \<exists>h' e. hd_inject hdl a RuntimeInject m h = (None, h') \<and> inv h' \<and> hd_read hdl h' a (m_id m) = Some e \<and> en_message e = m"
    and exclude_ok: "inv h \<Longrightarrow> hd_read hdl h a i = Some e \<Longrightarrow>
      \<exists>h' e'. hd_tag_exclude hdl a i h = (None, h') \<and> inv h' \<and> hd_read hdl h' a i = Some e' \<and> md_excluded (en_meta e')"
    and read_id: "inv h \<Longrightarrow> hd_read hdl h a i = Some e \<Longrightarrow> m_id (en_message e) = i"
begin

lemma skip_hides:
  assumes "inv h'" "ok m" "cr_agent rt \<noteq> []" "m_id m \<noteq> []" "sy_handle sys = hdl"
    "hk_ingest (sy_hooks sys) = Some f" "f h (cr_agent rt) (runtime_entry encode (sy_counter sys) m) = (Inr a, h')" "ig_kind a = IngestSkip"
  shows "\<exists>h2. runtime_OnMessage encode None (Some sys) m rt h = (None, rt, h2) \<and> inv h2 \<and> hidden hdl h2 (cr_agent rt) (m_id m)"
proof -
  obtain h1 e where 1: "hd_inject hdl (cr_agent rt) RuntimeInject m h' = (None, h1)" "inv h1" "hd_read hdl h1 (cr_agent rt) (m_id m) = Some e"
    using inject_ok [OF assms(1-4)] by blast
  obtain h2 e' where "hd_tag_exclude hdl (cr_agent rt) (m_id m) h1 = (None, h2)" "inv h2"
      "hd_read hdl h2 (cr_agent rt) (m_id m) = Some e'" "md_excluded (en_meta e')"
    using exclude_ok [OF 1(2,3)] by blast
  with 1(1) assms(5-8) show ?thesis
    by (simp add: runtime_OnMessage_def ingest_entry_def hidden_def Let_def runtime_entry_def)
qed

lemma hidden_not_stored:
  assumes "inv h" "hidden hdl h a i" "sy_handle sys = hdl"
  shows "i \<notin> (m_id \<circ> en_message) ` set (stored_entries encode sys a h ms)"
  using assms read_id [OF assms(1)] by (auto simp: stored_entries_def hidden_def runtime_entry_def split: option.splits)

end

definition store_handle :: "store_config \<Rightarrow> int \<Rightarrow> context_store context_handle" where
  "store_handle cfg now =
     \<lparr>hd_read = store_ReadMessage, hd_inject = store_InjectMessage cfg now, hd_tag_priority = store_TagPriority,
      hd_tag_exclude = store_TagExclude, hd_budget = store_Budget cfg, hd_snapshot = store_Snapshot cfg\<rparr>"

lemma find_update_entry:
  "update_entry i f es = Some es' \<Longrightarrow> (\<And>e. en_id (f e) = en_id e) \<Longrightarrow>
   List.find (\<lambda>e. en_id e = i) es' = map_option f (List.find (\<lambda>e. en_id e = i) es)"
proof (induction es arbitrary: es')
  case (Cons a es)
  then show ?case by (cases "en_id a = i") auto
qed simp

lemma find_entry_None: "List.find (\<lambda>e. en_id e = i) es = None \<longleftrightarrow> update_entry i f es = None"
  by (induction es) auto

lemma read_inject_into:
  "List.find (\<lambda>e. en_id e = m_id m) (cs_entries (inject_into now layer tokens m s)) =
   Some (case List.find (\<lambda>e. en_id e = m_id m) (cs_entries s) of
     Some e \<Rightarrow> replaced_entry layer tokens m e | None \<Rightarrow> new_entry now layer tokens (cs_turn s) m)"
proof (cases "update_entry (m_id m) (replaced_entry layer tokens m) (cs_entries s)")
  case None
  then have f: "List.find (\<lambda>e. en_id e = m_id m) (cs_entries s) = None"
    by (simp add: find_entry_None [of _ _ "replaced_entry layer tokens m"])
  have "List.find P (xs @ [x]) = Some x" if "List.find P xs = None" "P x" for P :: "context_entry \<Rightarrow> bool" and x xs
    using that by (induction xs) (auto split: if_splits)
  with f None show ?thesis by (simp add: inject_into_def new_entry_def)
next
  case (Some es)
  then have "List.find (\<lambda>e. en_id e = m_id m) (cs_entries s) \<noteq> None" by (simp add: find_entry_None [of _ _ "replaced_entry layer tokens m"])
  with Some find_update_entry [OF Some] show ?thesis by (auto simp: inject_into_def replaced_entry_def)
qed

lemma find_entry_ok:
  "session_ok cfg s \<Longrightarrow> List.find (\<lambda>e. en_id e = i) (cs_entries s) = Some e \<Longrightarrow> en_id e = i \<and> m_id (en_message e) = i"
  by (auto simp: session_ok_def entry_ok_def find_Some_iff)

lemma read_session: "store_ReadMessage st a i = List.find (\<lambda>e. en_id e = i) (cs_entries (store_session st a))"
  by (simp add: store_ReadMessage_def store_entries_def)

lemma store_session_put [simp]: "store_session (put_session a s st) b = (if b = a then s else store_session st b)"
  by (simp add: store_session_def put_session_def)

interpretation stored: recording_handle "store_handle cfg now" "store_inv cfg" "\<lambda>m. message_validate (sc_url cfg) m = None" for cfg now
proof (unfold_locales, goal_cases)
  case (1 h m a)
  let ?s = "store_session h a"
  have r: "store_InjectMessage cfg now a RuntimeInject m h =
      (None, put_session a (inject_into now RuntimeInject (message_tokens cfg m) m ?s) h)"
    using 1 by (simp add: store_InjectMessage_def Let_def)
  have "store_inv cfg (put_session a (inject_into now RuntimeInject (message_tokens cfg m) m ?s) h)"
    using InjectMessage_inv [OF 1(1), of now a RuntimeInject m] by (simp add: r)
  with r show ?case
    by (simp add: store_handle_def read_session read_inject_into)
      (simp add: replaced_entry_def new_entry_def split: option.split)
next
  case (2 h a i e)
  let ?f = "\<lambda>e. e\<lparr>en_meta := (en_meta e)\<lparr>md_excluded := True\<rparr>\<rparr>"
  have f: "List.find (\<lambda>e. en_id e = i) (cs_entries (store_session h a)) = Some e" using 2(2) by (simp add: store_handle_def read_session)
  then obtain es where es: "update_entry i ?f (cs_entries (store_session h a)) = Some es"
    using find_entry_None [of i "cs_entries (store_session h a)" ?f] by (cases "update_entry i ?f (cs_entries (store_session h a))") auto
  have "store_inv cfg (snd (store_TagExclude a i h))" using store_apply_inv [OF 2(1), of "OpTagExclude a i"] by simp
  moreover have "store_TagExclude a i h = (None, put_session a ((store_session h a)\<lparr>cs_entries := es\<rparr>) h)"
    by (simp add: store_TagExclude_def edit_entry_def Let_def es)
  moreover have "List.find (\<lambda>e. en_id e = i) es = Some (?f e)"
    using find_update_entry [OF es] by (simp add: f)
  ultimately show ?case by (simp add: store_handle_def read_session)
next
  case (3 h a i e)
  then have "List.find (\<lambda>e. en_id e = i) (cs_entries (store_session h a)) = Some e" by (simp add: store_handle_def read_session)
  from find_entry_ok [OF store_session_ok [OF 3(1)] this] show ?case by blast
qed

subsection \<open>What is hidden stays hidden\<close>

text \<open>The identities a compression leaves: those there were, and those it makes.\<close>

lemma set_retained_subset:
  assumes "\<And>ms k. set (ap_order env ms k) = set (groups ms)" "length keep = length ms"
  shows "set (retained env ms keep) \<subseteq> set ms"
proof -
  obtain kept where "retainProtocolGroups (ap_order env ms) ms keep = Some (select kept ms)"
    using retain_groups_exact [where order = "ap_order env ms" and keep = keep and ms = ms, OF assms] by blast
  with set_select [of kept ms] show ?thesis by (simp add: retained_def)
qed

lemma replace_range_ids:
  "m \<in> set (snd (replace_range env sel build ms)) \<Longrightarrow> m \<in> set ms \<or> HasPrefix (m_id m) ''context/''"
  by (auto simp: replace_range_def HasPrefix_def split: sum.splits if_splits prod.splits dest: in_set_takeD in_set_dropD)

lemma compression_ids:
  assumes "\<And>ms k. set (ap_order env ms k) = set (groups ms)" "m \<in> set (snd (apply_compression env n action ms))"
  shows "m_id m \<in> m_id ` set ms \<or> HasPrefix (m_id m) ''context/''"
proof (cases action)
  case (CompressToolResult i t)
  with assms(2) show ?thesis by (auto simp: apply_compression_def split: option.splits if_splits)
next
  case (CompressSummary sel hints)
  with assms(2) replace_range_ids [of m env sel "summary_message env n hints" ms] show ?thesis
    by (auto simp: apply_compression_def split: option.splits)
next
  case (CompressExternalize sel path)
  with assms(2) replace_range_ids [of m env sel "external_message env n path" ms] show ?thesis
    by (auto simp: apply_compression_def split: option.splits)
next
  case (CompressWindow keep)
  with assms(2) set_retained_subset [OF assms(1), of "map (\<lambda>(i, m). window_keeps env (safeWindowCut ms keep) i m) (enumerate 0 ms)" ms]
  show ?thesis by (auto simp: apply_compression_def Let_def split: option.splits if_splits)
next
  case (CompressPriority p)
  with assms(2) set_retained_subset [OF assms(1), of "map (priority_keeps env p) ms" ms] show ?thesis
    by (auto simp: apply_compression_def split: option.splits)
qed (use assms(2) in \<open>auto simp: apply_compression_def split: option.splits\<close>)

lemma compressions_ids:
  assumes "\<And>ms k. set (ap_order env ms k) = set (groups ms)" "m \<in> set (snd (apply_compressions env n actions ms))"
  shows "m_id m \<in> m_id ` set ms \<or> HasPrefix (m_id m) ''context/''"
  using assms(2)
proof (induction actions arbitrary: n ms)
  case (Cons action actions)
  obtain e ms' where s: "apply_compression env n action ms = (e, ms')" by fastforce
  have step: "m_id x \<in> m_id ` set ms \<or> HasPrefix (m_id x) ''context/''" if "x \<in> set ms'" for x
    using compression_ids [OF assms(1), of x n action ms] that by (simp add: s)
  show ?case
  proof (cases e)
    case None
    with Cons.prems have "m \<in> set (snd (apply_compressions env (n + 1) actions ms'))" by (simp add: s)
    from Cons.IH [OF this] step show ?thesis by fastforce
  next
    case (Some x)
    with Cons.prems step show ?thesis by (simp add: s)
  qed
qed auto

text \<open>\<open>DefaultApply\<close> and the rest of \<open>DefaultSystem\<close>. A host may put other hooks around the default ones.\<close>

definition DefaultApply :: "(string \<Rightarrow> string) \<Rightarrow> url_parser \<Rightarrow> go_error option \<Rightarrow> apply_env \<Rightarrow> context_store context_apply" where
  "DefaultApply quote url canceled env =
     \<lparr>ca_injections = ApplyInjections quote url canceled,
      ca_compressions = (\<lambda>actions ms st a. ApplyCompressions (env\<lparr>ap_agent := a, ap_read := store_ReadMessage st a\<rparr>) actions ms)\<rparr>"

definition DefaultSystem :: "store_config \<Rightarrow> int \<Rightarrow> (string \<Rightarrow> string) \<Rightarrow> go_error option \<Rightarrow> apply_env \<Rightarrow> context_store context_system" where
  "DefaultSystem cfg now quote canceled env =
     \<lparr>sy_hooks = DefaultHooks None canceled 30, sy_handle = store_handle cfg now,
      sy_apply = Some (DefaultApply quote (sc_url cfg) canceled env), sy_counter = None, sy_budget = sc_budget cfg\<rparr>"

lemma add_unseen_shown: "e \<in> set (add_unseen read es seen) \<Longrightarrow>
   \<not> md_excluded (en_meta e) \<and> (\<exists>x \<in> set es. e = (case read (en_id x) of Some s \<Rightarrow> s | None \<Rightarrow> x))"
  by (induction read es seen rule: add_unseen.induct) (auto simp: Let_def split: if_splits)

lemma rules_Assemble_hides:
  assumes ok: "session_ok cfg (store_session st a)" and h: "store_ReadMessage st a i = Some x" "md_excluded (en_meta x)"
    and es: "i \<notin> (m_id \<circ> en_message) ` set es" "\<forall>e \<in> set es. en_id e = m_id (en_message e)"
  shows "i \<notin> (m_id \<circ> en_message) ` set (rules_Assemble st a es)"
proof
  assume "i \<in> (m_id \<circ> en_message) ` set (rules_Assemble st a es)"
  then obtain e where e: "e \<in> set (rules_Assemble st a es)" "m_id (en_message e) = i" by auto
  have x: "x \<in> set (store_entries st a)" "en_id x = i"
    using h(1) by (auto simp: store_ReadMessage_def find_Some_iff)
  have mine: "e = x" if "e \<in> set (store_entries st a)"
  proof -
    have "en_id e = en_id x" using ok that e(2) x by (auto simp: session_ok_def entry_ok_def store_entries_def)
    moreover have "inj_on en_id (set (store_entries st a))" using ok by (simp add: session_ok_def distinct_map store_entries_def)
    ultimately show ?thesis using that x(1) by (auto dest: inj_onD)
  qed
  from e(1) consider "e \<in> set (store_entries st a)" "\<not> md_excluded (en_meta e)"
    | y where "y \<in> set es" "\<not> md_excluded (en_meta e)" "e = (case store_ReadMessage st a (en_id y) of Some s \<Rightarrow> s | None \<Rightarrow> y)"
    unfolding rules_Assemble_def store_Entries_def by (auto simp: Let_def dest: add_unseen_shown)
  then show False
  proof cases
    case 1
    with mine h(2) show False by auto
  next
    case (2 y)
    show False
    proof (cases "store_ReadMessage st a (en_id y)")
      case None
      with 2 e(2) es show False by auto
    next
      case (Some s)
      then have "s \<in> set (store_entries st a)" by (auto simp: store_ReadMessage_def find_Some_iff)
      then have "e \<in> set (store_entries st a)" using 2(3) Some by simp
      with mine h(2) 2(2) show False by auto
    qed
  qed
qed

lemma stored_entries_ids:
  "store_inv cfg st \<Longrightarrow> sy_handle sys = store_handle cfg now \<Longrightarrow> e \<in> set (stored_entries encode sys a st ms) \<Longrightarrow> en_id e = m_id (en_message e)"
proof -
  assume inv: "store_inv cfg st" and sys: "sy_handle sys = store_handle cfg now" and e: "e \<in> set (stored_entries encode sys a st ms)"
  from e obtain m where m: "e = (case store_ReadMessage st a (m_id m) of Some s \<Rightarrow> s | None \<Rightarrow> runtime_entry encode (sy_counter sys) m)"
    by (auto simp: stored_entries_def sys store_handle_def)
  show ?thesis
  proof (cases "store_ReadMessage st a (m_id m)")
    case None
    with m show ?thesis by (simp add: runtime_entry_def)
  next
    case (Some s)
    with m find_entry_ok [OF store_session_ok [OF inv] Some [unfolded read_session]] show ?thesis by simp
  qed
qed

definition with_ingest :: "(context_entry \<Rightarrow> ingest_action result) \<Rightarrow> context_store context_system \<Rightarrow> context_store context_system" where
  "with_ingest decide sys = sys\<lparr>sy_hooks := (sy_hooks sys)\<lparr>hk_ingest := Some (\<lambda>h a e. (decide e, h))\<rparr>\<rparr>"

lemma prepare_steps:
  assumes "fst (runtime_Prepare encode fdiv (Some sys) prompt messages rt h) = Inr (prompts, view)"
  obtains working shown h1 where "assembled_messages encode sys (cr_agent rt) h working = (Inr shown, h1)"
    "fst (shrink encode fdiv sys (cr_agent rt) (context_budget sys (cr_agent rt) h) prompts shown h1) = Inr view"
proof -
  define injected where "injected = (case sy_apply sys of
      Some ap \<Rightarrow> if cr_pending rt = [] then (None, prompt, with_ids (cr_agent rt) messages)
        else ca_injections ap (cr_pending rt) prompt (with_ids (cr_agent rt) messages)
    | None \<Rightarrow> (None, prompt, with_ids (cr_agent rt) messages))"
  obtain e ps w where i: "injected = (e, ps, w)" by (cases injected) auto
  obtain r h1 where a: "assembled_messages encode sys (cr_agent rt) h w = (r, h1)" by fastforce
  note p = assms [unfolded runtime_Prepare_def Let_def option.case, folded injected_def, unfolded i prod.case]
  from p have e: "e = None" by (cases e) simp_all
  obtain shown where s: "r = Inr shown" using p by (cases r) (simp_all add: e a)
  obtain q h2 where q: "shrink encode fdiv sys (cr_agent rt) (context_budget sys (cr_agent rt) h) ps shown h1 = (q, h2)" by fastforce
  have "q = Inr view \<and> ps = prompts" using p by (cases q) (simp_all add: e a s q)
  with that [of w shown h1] a s q show ?thesis by simp
qed

lemma shrink_steps:
  "fst (shrink encode fdiv sys a budget prompts shown h) = Inr view \<Longrightarrow>
   view = shown \<or> (\<exists>ap actions h'. sy_apply sys = Some ap \<and> ca_compressions ap actions shown h' a = (None, view))"
  by (auto simp: shrink_def Let_def split: if_splits prod.splits option.splits sum.splits)

lemma default_prepare_hides:
  assumes orders: "\<And>ms k. set (ap_order env ms k) = set (groups ms)" and inv: "store_inv cfg st"
    and hid: "hidden (store_handle cfg now) st (cr_agent rt) i" and i: "\<not> HasPrefix i ''context/''"
    and p: "fst (runtime_Prepare encode fdiv (Some (with_ingest decide (DefaultSystem cfg now quote canceled env))) prompt messages rt st) =
      Inr (prompts, view)"
  shows "i \<notin> m_id ` set view"
proof -
  let ?sys = "with_ingest decide (DefaultSystem cfg now quote canceled env)" and ?a = "cr_agent rt"
  have sys: "sy_handle ?sys = store_handle cfg now" "sy_apply ?sys = Some (DefaultApply quote (sc_url cfg) canceled env)"
    "hk_assemble (sy_hooks ?sys) = Some (\<lambda>st i entries budget. (Inr (rules_Assemble st i entries), st))"
    "hk_on_budget (sy_hooks ?sys) = Some (default_OnBudgetExceeded None canceled 30)"
    by (simp_all add: with_ingest_def DefaultSystem_def DefaultHooks_def RulesHooks_def)
  obtain working shown h1 where w: "assembled_messages encode ?sys ?a st working = (Inr shown, h1)"
      and v: "fst (shrink encode fdiv ?sys ?a (context_budget ?sys ?a st) prompts shown h1) = Inr view"
    using prepare_steps [OF p] .
  obtain x where x: "store_ReadMessage st ?a i = Some x" "md_excluded (en_meta x)"
    using hid by (auto simp: hidden_def store_handle_def)
  have "i \<notin> (m_id \<circ> en_message) ` set (stored_entries encode ?sys ?a st working)"
    by (rule stored.hidden_not_stored [OF inv hid sys(1)])
  from rules_Assemble_hides [OF store_session_ok [OF inv] x this] stored_entries_ids [OF inv sys(1)]
  have shown: "i \<notin> m_id ` set shown"
    using w by (auto simp: assembled_messages_def sys(3) Let_def)
  from shrink_steps [OF v] show ?thesis
  proof
    assume "\<exists>ap actions h'. sy_apply ?sys = Some ap \<and> ca_compressions ap actions shown h' ?a = (None, view)"
    then obtain actions h' where c: "ApplyCompressions (env\<lparr>ap_agent := ?a, ap_read := store_ReadMessage h' ?a\<rparr>) actions shown = (None, view)"
      by (auto simp: sys(2) DefaultApply_def)
    let ?env = "env\<lparr>ap_agent := ?a, ap_read := store_ReadMessage h' ?a\<rparr>"
    have o: "set (ap_order ?env ms k) = set (groups ms)" for ms k using orders by simp
    show ?thesis
    proof
      assume "i \<in> m_id ` set view"
      then obtain m where m: "m \<in> set (snd (apply_compressions ?env 0 actions shown))" "m_id m = i"
        using c by (auto simp: ApplyCompressions_def)
      from compressions_ids [OF o m(1)] shown i m(2) show False by blast
    qed
  qed (use shown in simp)
qed

text \<open>
  A message the ingest hook skips never reaches the model. In the default context system with
  an ingest hook around it, after any operations on its store: when the hook skips an arriving
  message, the message is recorded and the call succeeds, and whatever view is prepared next, for
  whatever prompt and messages, holds no message of that identity, compressed or not.
\<close>

theorem skipped_message_is_never_prepared:
  assumes "\<And>ms k. set (ap_order env ms k) = set (groups ms)" "message_validate (sc_url cfg) m = None"
    "cr_agent rt \<noteq> []" "m_id m \<noteq> []" "\<not> HasPrefix (m_id m) ''context/''"
    "\<And>e. en_message e = m \<Longrightarrow> decide e = Inr \<lparr>ig_kind = IngestSkip, ig_message = None, ig_priority = None\<rparr>"
  shows "let sys = with_ingest decide (DefaultSystem cfg now quote canceled env);
             (e, rt', st) = runtime_OnMessage encode None (Some sys) m rt (store_run cfg ops) in
    e = None \<and> (\<nexists>prompt messages prompts view.
      fst (runtime_Prepare encode fdiv (Some sys) prompt messages rt' st) = Inr (prompts, view) \<and> m_id m \<in> m_id ` set view)"
proof -
  let ?sys = "with_ingest decide (DefaultSystem cfg now quote canceled env)"
  have "\<exists>st. runtime_OnMessage encode None (Some ?sys) m rt (store_run cfg ops) = (None, rt, st) \<and> store_inv cfg st \<and>
      hidden (store_handle cfg now) st (cr_agent rt) (m_id m)"
    by (rule stored.skip_hides [OF store_run_inv assms(2-4),
          where f = "\<lambda>h a e. (decide e, h)" and a = "\<lparr>ig_kind = IngestSkip, ig_message = None, ig_priority = None\<rparr>"])
      (simp_all add: with_ingest_def DefaultSystem_def runtime_entry_def assms(6))
  then obtain st where "runtime_OnMessage encode None (Some ?sys) m rt (store_run cfg ops) = (None, rt, st)" "store_inv cfg st"
      "hidden (store_handle cfg now) st (cr_agent rt) (m_id m)" by blast
  with default_prepare_hides [OF assms(1) this(2,3) assms(5)] show ?thesis by (auto simp: Let_def)
qed

theorem skipped_message_is_never_prepared_witness:
  "let sys = with_ingest (\<lambda>e. Inr \<lparr>ig_kind = IngestSkip, ig_message = None, ig_priority = None\<rparr>)
         (DefaultSystem example_config 0 id None example_env);
       (e, rt', st) = runtime_OnMessage (\<lambda>_. []) None (Some sys) (example_message ''9'' RoleUser (text_block ''secret''))
         (NewContextRuntime ''s'') (store_run example_config example_ops) in
    e = None \<and> (\<nexists>prompt messages prompts view.
      fst (runtime_Prepare (\<lambda>_. []) (\<lambda>_ _. NaN) (Some sys) prompt messages rt' st) = Inr (prompts, view) \<and>
      m_id (example_message ''9'' RoleUser (text_block ''secret'')) \<in> m_id ` set view)"
proof (rule skipped_message_is_never_prepared)
  show "message_validate (sc_url example_config) (example_message ''9'' RoleUser (text_block ''secret'')) = None" by code_simp
qed (simp_all add: example_env_def NewContextRuntime_def example_message_def HasPrefix_def)

end
