(* ===== verification/Context_Services.thy ===== *)
theory Context_Services
  imports Context_Apply "HOL-Library.Product_Lexorder"
begin

section \<open>Store services: memory facts, file imports and externalization\<close>

text \<open>
  sdk/agent/context/store.go (the memory facts) and services.go. The facts live beside the sessions
  under the same mutex; \<open>fact_store\<close> is that map as an association list, in the order in which
  \<open>range\<close> visits it. Callbacks of the host are arguments: the memory backend, the file loader, the
  externalizer; \<open>sha\<close> is the hexadecimal SHA-256 digest, \<open>lower\<close> is \<open>strings.ToLower\<close>, \<open>now\<close> the
  time at which a fact is visited. \<open>ctx.Err()\<close> is \<open>canceled\<close> when an operation begins and \<open>late\<close> after
  its callback.
\<close>

type_synonym fact_store = "(string \<times> memory_fact) list"

definition services_error :: "nat \<Rightarrow> int \<Rightarrow> go_error option" where
  "services_error given maxFileBytes =
     (let m = (if maxFileBytes = 0 then 65536 else maxFileBytes) in
      if m < 1 \<or> m > 1048576 then Some (ErrNew ''context file import limit must be within 1 MiB'')
      else if given > 1 then Some (ErrNew ''at most one context services snapshot permitted'') else None)"

subsection \<open>Memory facts\<close>

definition unit_confidence :: "float64 \<Rightarrow> bool" where
  "unit_confidence c = (case c of Finite q \<Rightarrow> 0 \<le> q \<and> q \<le> 1 | _ \<Rightarrow> False)"

definition validMemoryFact :: "memory_fact \<Rightarrow> go_error option" where
  "validMemoryFact f =
     (if mf_id f = [] \<or> mf_text f = [] \<or> length (mf_text f) > 1048576 \<or> \<not> utf8_valid (mf_text f) \<or> \<not> utf8_valid (mf_id f) \<or>
         \<not> unit_confidence (mf_confidence f)
      then Some (ErrNew ''invalid bounded memory fact'')
      else if \<not> validStrings [mf_fingerprint f, mf_category f, mf_source_session f]
      then Some (ErrNew ''memory fact metadata must be valid UTF-8'') else None)"

text \<open>The order of \<open>sort.Slice\<close>: higher confidence first, then the smaller identity.\<close>

definition confidence_less :: "float64 \<Rightarrow> float64 \<Rightarrow> bool" where
  "confidence_less a b =
     (case (a, b) of
        (NaN, _) \<Rightarrow> False | (_, NaN) \<Rightarrow> False
      | (NegInf, NegInf) \<Rightarrow> False | (NegInf, _) \<Rightarrow> True | (_, NegInf) \<Rightarrow> False
      | (PosInf, _) \<Rightarrow> False | (_, PosInf) \<Rightarrow> True
      | (Finite x, Finite y) \<Rightarrow> x < y)"

definition confidence_equal :: "float64 \<Rightarrow> float64 \<Rightarrow> bool" where
  "confidence_equal a b = (a \<noteq> NaN \<and> a = b)"

definition fact_before :: "memory_fact \<Rightarrow> memory_fact \<Rightarrow> bool" where
  "fact_before a b =
     (if confidence_equal (mf_confidence a) (mf_confidence b) then mf_id a < mf_id b
      else confidence_less (mf_confidence b) (mf_confidence a))"

fun insert_fact :: "memory_fact \<Rightarrow> memory_fact list \<Rightarrow> memory_fact list" where
  "insert_fact f [] = [f]"
| "insert_fact f (g # gs) = (if fact_before f g then f # g # gs else g # insert_fact f gs)"

definition sort_facts :: "memory_fact list \<Rightarrow> memory_fact list" where
  "sort_facts fs = foldr insert_fact fs []"

definition matches_query :: "(string \<Rightarrow> string) \<Rightarrow> string \<Rightarrow> memory_fact \<Rightarrow> bool" where
  "matches_query lower query f = str_contains (lower (mf_text f)) (lower query)"

definition accessed :: "(string \<Rightarrow> int) \<Rightarrow> memory_fact \<Rightarrow> memory_fact" where
  "accessed now f = f\<lparr>mf_accessed_at := now (mf_id f), mf_accesses := mf_accesses f + 1\<rparr>"

text \<open>The volatile query: every match is touched, even those the limit then cuts off.\<close>

definition local_query :: "(string \<Rightarrow> string) \<Rightarrow> (string \<Rightarrow> int) \<Rightarrow> string \<Rightarrow> nat \<Rightarrow> fact_store \<Rightarrow> memory_fact list \<times> fact_store" where
  "local_query lower now query limit facts =
     (let touch = (\<lambda>(i, f). (i, if matches_query lower query f then accessed now f else f));
          found = map (accessed now) (filter (matches_query lower query) (map snd facts))
      in (take limit (sort_facts found), map touch facts))"

definition QueryMemory ::
  "(string \<Rightarrow> string) \<Rightarrow> (string \<Rightarrow> int) \<Rightarrow> go_error option \<Rightarrow> go_error option \<Rightarrow> go_error option \<Rightarrow>
     (string \<Rightarrow> int \<Rightarrow> memory_fact list result) option \<Rightarrow> string \<Rightarrow> int \<Rightarrow> fact_store \<Rightarrow> memory_fact list result \<times> fact_store" where
  "QueryMemory lower now canceled late servicesErr memory query limit facts =
     (case canceled of Some e \<Rightarrow> (Inl e, facts)
      | None \<Rightarrow>
        if limit < 0 \<or> limit > 1000 then (Inl (ErrNew ''negative memory limit''), facts)
        else case servicesErr of Some e \<Rightarrow> (Inl e, facts)
        | None \<Rightarrow>
          (case memory of
             None \<Rightarrow> map_prod Inr id (local_query lower now query (nat limit) facts)
           | Some backend \<Rightarrow>
             (let r = backend query limit;
                  err = errors_join [case r of Inl e \<Rightarrow> Some e | Inr _ \<Rightarrow> None, late] in
              case err of Some e \<Rightarrow> (Inl e, facts)
              | None \<Rightarrow>
                (case r of Inl e \<Rightarrow> (Inl e, facts)
                 | Inr fs \<Rightarrow>
                   if int (length fs) > limit then (Inl (ErrNew ''memory backend exceeded result limit''), facts)
                   else (case first_err validMemoryFact fs of Some e \<Rightarrow> (Inl e, facts) | None \<Rightarrow> (Inr fs, facts))))))"

definition StoreMemory ::
  "(string \<Rightarrow> string) \<Rightarrow> go_error option \<Rightarrow> go_error option \<Rightarrow> (memory_fact \<Rightarrow> go_error option) option \<Rightarrow> memory_fact \<Rightarrow>
     fact_store \<Rightarrow> go_error option \<times> fact_store" where
  "StoreMemory sha canceled servicesErr memory f facts =
     (case canceled of Some e \<Rightarrow> (Some e, facts)
      | None \<Rightarrow>
        (case servicesErr of Some e \<Rightarrow> (Some e, facts)
         | None \<Rightarrow>
           (case validMemoryFact f of Some e \<Rightarrow> (Some e, facts)
            | None \<Rightarrow>
              (let f = (if mf_fingerprint f = [] then f\<lparr>mf_fingerprint := sha (mf_text f)\<rparr> else f) in
               case memory of Some store \<Rightarrow> (store f, facts)
               | None \<Rightarrow>
                 if map_of facts (mf_id f) = None \<and> length facts \<ge> 10000
                 then (Some (ErrNew ''context memory fact capacity exceeded''), facts)
                 else (None, AList.update (mf_id f) f facts)))))"

definition DeleteMemory ::
  "go_error option \<Rightarrow> go_error option \<Rightarrow> (string \<Rightarrow> go_error option) option \<Rightarrow> string \<Rightarrow> fact_store \<Rightarrow> go_error option \<times> fact_store" where
  "DeleteMemory canceled servicesErr memory i facts =
     (case canceled of Some e \<Rightarrow> (Some e, facts)
      | None \<Rightarrow>
        (case servicesErr of Some e \<Rightarrow> (Some e, facts)
         | None \<Rightarrow> (case memory of Some delete \<Rightarrow> (delete i, facts) | None \<Rightarrow> (None, AList.delete i facts))))"

text \<open>\<open>InjectMemory\<close>: facts in order of rank while they fit the token budget.\<close>

definition fact_tokens :: "(string \<Rightarrow> int) option \<Rightarrow> memory_fact \<Rightarrow> int" where
  "fact_tokens counter f = (case counter of Some c \<Rightarrow> c (mf_text f) | None \<Rightarrow> (int (length (runes (mf_text f))) + 3) div 4)"

fun pack_facts :: "(string \<Rightarrow> int) option \<Rightarrow> int \<Rightarrow> int \<Rightarrow> memory_fact list \<Rightarrow> memory_fact list result" where
  "pack_facts counter maxTokens used [] = Inr []"
| "pack_facts counter maxTokens used (f # fs) =
     (let tokens = fact_tokens counter f in
      if tokens < 0 then Inl (ErrNew ''token counter returned negative result'')
      else (let tokens = (if tokens = 0 \<and> mf_text f \<noteq> [] then 1 else tokens) in
        if tokens > maxTokens - used then Inr []
        else (case pack_facts counter maxTokens (used + tokens) fs of Inl e \<Rightarrow> Inl e | Inr gs \<Rightarrow> Inr (f # gs))))"

definition store_InjectMemory ::
  "(string \<Rightarrow> int) option \<Rightarrow> go_error option \<Rightarrow> go_error option \<Rightarrow> (fact_store \<Rightarrow> memory_fact list result \<times> fact_store) \<Rightarrow>
     string \<Rightarrow> int \<Rightarrow> fact_store \<Rightarrow> memory_fact list result \<times> fact_store" where
  "store_InjectMemory counter canceled late query20 agentID maxTokens facts =
     (if agentID = [] \<or> maxTokens < 0 \<or> maxTokens > 1048576 then (Inl (ErrNew ''invalid memory injection budget/agent''), facts)
      else if maxTokens = 0 then (from_err canceled [], facts)
      else (case query20 facts of
          (Inl e, facts) \<Rightarrow> (Inl e, facts)
        | (Inr fs, facts) \<Rightarrow>
          (case pack_facts counter maxTokens 0 fs of
             Inl e \<Rightarrow> (Inl e, facts)
           | Inr gs \<Rightarrow> (from_err late gs, facts))))"

subsection \<open>File imports\<close>

record line_range =
  lr_start :: int
  lr_end :: int

record file_request =
  fq_agent :: string
  fq_path :: string
  fq_lines :: "line_range option"
  fq_max_bytes :: int

record file_result =
  fr_path :: string
  fr_text :: string
  fr_source :: ref_data
  fr_start :: int
  fr_end :: int
  fr_truncated :: bool

definition import_text :: string where
  "import_text = ''; Explicit bounded UTF-8 text import; no additional media transformation''"

text \<open>
  \<open>InjectFromFile\<close>: \<open>describe\<close> is the JSON of path, lines and truncation, \<open>key\<close> the digest of path and
  requested lines as the code prints them.
\<close>

definition file_message ::
  "(string \<Rightarrow> int \<Rightarrow> int \<Rightarrow> bool \<Rightarrow> string) \<Rightarrow> (string \<Rightarrow> line_range option \<Rightarrow> string) \<Rightarrow> string \<Rightarrow> line_range option \<Rightarrow> file_result \<Rightarrow> message" where
  "file_message describe key path lines r =
     (let reference = (fr_source r)\<lparr>ref_processing := ref_processing (fr_source r) @ import_text\<rparr> in
      (TextMessage RoleUser [])\<lparr>m_id := ''context/file/'' @ key path lines,
        m_content := [reference_block reference,
          text_block (''[Explicit selected file text: '' @ describe (fr_path r) (fr_start r) (fr_end r) (fr_truncated r) @ '']'' @ newline @ fr_text r)]\<rparr>)"

definition projection_ok :: "int \<Rightarrow> line_range option \<Rightarrow> file_result \<Rightarrow> go_error option" where
  "projection_ok maxFileBytes lines r =
     (if int (length (fr_text r)) > maxFileBytes \<or> \<not> utf8_valid (fr_text r) \<or> reference_validate (fr_source r) \<noteq> None \<or>
         fr_path r = [] \<or> \<not> utf8_valid (fr_path r) \<or> fr_start r < 1 \<or> fr_end r < fr_start r
      then Some (ErrNew ''file loader returned invalid bounded projection'')
      else (case lines of
          Some l \<Rightarrow> if fr_start r < lr_start l \<or> fr_end r > lr_end l then Some (ErrNew ''file loader exceeded selected line range'') else None
        | None \<Rightarrow> None))"

definition InjectFromFile ::
  "(string \<Rightarrow> int \<Rightarrow> int \<Rightarrow> bool \<Rightarrow> string) \<Rightarrow> (string \<Rightarrow> line_range option \<Rightarrow> string) \<Rightarrow> store_config \<Rightarrow> int \<Rightarrow> int \<Rightarrow>
     go_error option \<Rightarrow> go_error option \<Rightarrow> go_error option \<Rightarrow> (file_request \<Rightarrow> file_result result) option \<Rightarrow>
     string \<Rightarrow> string \<Rightarrow> line_range option \<Rightarrow> context_store \<Rightarrow> go_error option \<times> context_store" where
  "InjectFromFile describe key cfg now maxFileBytes canceled late servicesErr loader agentID path lines st =
     (case canceled of Some e \<Rightarrow> (Some e, st)
      | None \<Rightarrow>
        (case servicesErr of Some e \<Rightarrow> (Some e, st)
         | None \<Rightarrow>
           (case loader of None \<Rightarrow> (Some (ErrNew ''authorized context file loader unavailable''), st)
            | Some load \<Rightarrow>
              if agentID = [] \<or> path = [] \<or> length path > 8192 \<or> \<not> utf8_valid path \<or> char_of (0 :: nat) \<in> set path
              then (Some (ErrNew ''invalid context file request''), st)
              else if (case lines of None \<Rightarrow> False
                  | Some l \<Rightarrow> lr_start l < 1 \<or> lr_end l < lr_start l \<or> lr_end l - lr_start l > 1048576)
              then (Some (ErrNew ''invalid file line range''), st)
              else (case load \<lparr>fq_agent = agentID, fq_path = path, fq_lines = lines, fq_max_bytes = maxFileBytes\<rparr> of
                  Inl e \<Rightarrow> (Some e, st)
                | Inr r \<Rightarrow>
                  (case late of Some e \<Rightarrow> (Some e, st)
                   | None \<Rightarrow>
                     (case projection_ok maxFileBytes lines r of Some e \<Rightarrow> (Some e, st)
                      | None \<Rightarrow> store_InjectMessage cfg now agentID OnDemand (file_message describe key path lines r) st))))))"

subsection \<open>Externalizing a range\<close>

text \<open>
  \<open>Externalize\<close> reads the entries, calls the host and then, under the lock, replaces the range only
  when the session still holds the entries it read. \<open>st\<close> is the store when it is called, \<open>st'\<close> the
  store when it takes the lock: other operations may have come between. \<open>late\<close> is \<open>ctx.Err()\<close> after
  the callback, \<open>last_check\<close> under the lock.
\<close>

definition store_text :: string where
  "store_text = ''; Context entries serialized as JSON; durable conversation facts unchanged''"

definition external_entry :: "store_config \<Rightarrow> string \<Rightarrow> string \<Rightarrow> ref_data \<Rightarrow> context_entry" where
  "external_entry cfg i path reference =
     (let m = (TextMessage RoleUser [])\<lparr>m_id := i, m_content := [reference_block reference]\<rparr> in
      \<lparr>en_id = i, en_message = m, en_meta = \<lparr>md_layer = OnDemand, md_priority = Normal, md_tokens = message_tokens cfg m,
        md_compacted = False, md_externalized_path = path, md_replacement_summary = [], md_source_agent = [],
        md_origin = ''context.externalize'', md_created_at = 0, md_created_turn = 0, md_excluded = False\<rparr>\<rparr>)"

definition deliver ::
  "(string \<Rightarrow> string \<Rightarrow> ref_data result) option \<Rightarrow> (string \<Rightarrow> ref_data result) option \<Rightarrow> string \<Rightarrow> string \<Rightarrow> ref_data result" where
  "deliver externalizer references path encoded =
     (if path \<noteq> [] then (case externalizer of None \<Rightarrow> Inl (ErrNew ''authorized context externalizer unavailable'') | Some f \<Rightarrow> f path encoded)
      else (case references of None \<Rightarrow> Inl (ErrNew ''context reference backend unavailable'') | Some f \<Rightarrow> f encoded))"

definition retained_error :: "ref_data \<Rightarrow> go_error \<Rightarrow> go_error" where
  "retained_error reference e = Wrapf (''artifact retained at '' @ ref_uri reference @ ''; context unchanged: '') e"

definition store_Externalize ::
  "(context_entry list \<Rightarrow> string result) \<Rightarrow> (string \<Rightarrow> string) \<Rightarrow> store_config \<Rightarrow>
     go_error option \<Rightarrow> go_error option \<Rightarrow> go_error option \<Rightarrow> go_error option \<Rightarrow>
     (string \<Rightarrow> string \<Rightarrow> ref_data result) option \<Rightarrow> (string \<Rightarrow> ref_data result) option \<Rightarrow>
     string \<Rightarrow> message_range \<Rightarrow> string \<Rightarrow> context_store \<Rightarrow> context_store \<Rightarrow> go_error option \<times> ref_data option \<times> context_store" where
  "store_Externalize encode sha cfg canceled late last_check servicesErr externalizer references agentID selected path st st' =
     (let fail = (\<lambda>e. (Some e, None, st')) in
      case canceled of Some e \<Rightarrow> fail e
      | None \<Rightarrow>
        (case servicesErr of Some e \<Rightarrow> fail e
         | None \<Rightarrow>
           (let entries = store_Entries st agentID in
            case resolveRange selected (map en_id entries) of Inl e \<Rightarrow> fail e
            | Inr (f, t) \<Rightarrow>
              if f = t then fail (ErrNew ''cannot externalize empty context range'')
              else (let (f, t) = safeRange (map en_message entries) f t in
                case encode (take (t - f) (drop f entries)) of Inl e \<Rightarrow> fail e
                | Inr encoded \<Rightarrow>
                  if length encoded > 8388608 then fail (ErrNew ''context externalization exceeds 8 MiB'')
                  else (case deliver externalizer references path encoded of Inl e \<Rightarrow> fail e
                    | Inr r \<Rightarrow>
                      (case reference_validate r of Some e \<Rightarrow> (Some e, Some r, st')
                       | None \<Rightarrow>
                         (case late of Some e \<Rightarrow> (Some (retained_error r e), Some r, st')
                          | None \<Rightarrow>
                            (let r = r\<lparr>ref_processing := ref_processing r @ store_text\<rparr>;
                                 replacement = external_entry cfg (''context/externalized/'' @ sha encoded) path r in
                             case last_check of Some e \<Rightarrow> (Some (retained_error r e), Some r, st')
                             | None \<Rightarrow>
                               if st_sessions st' agentID = None \<or> store_entries st' agentID \<noteq> entries
                               then (Some (ErrNew (''context changed during externalization; artifact retained at '' @ ref_uri r @ ''; original context not replaced'')),
                                 Some r, st')
                               else (None, Some r, set_entries agentID (\<lambda>es. take f es @ [replacement] @ drop t es) st')))))))))"

subsection \<open>What is recalled\<close>

definition fact_rank :: "memory_fact \<Rightarrow> rat \<times> string" where
  "fact_rank f = (case mf_confidence f of Finite q \<Rightarrow> (- q, mf_id f) | _ \<Rightarrow> (0, mf_id f))"

lemma valid_fact_unit: "validMemoryFact f = None \<Longrightarrow> unit_confidence (mf_confidence f)"
  by (simp add: validMemoryFact_def split: if_splits)

lemma fact_before_rank:
  "unit_confidence (mf_confidence a) \<Longrightarrow> unit_confidence (mf_confidence b) \<Longrightarrow> fact_before a b \<longleftrightarrow> fact_rank a < fact_rank b"
  by (cases "mf_confidence a"; cases "mf_confidence b")
    (auto simp: unit_confidence_def fact_before_def confidence_equal_def confidence_less_def fact_rank_def)

lemma rank_id: "fact_rank a = fact_rank b \<Longrightarrow> mf_id a = mf_id b"
  by (auto simp: fact_rank_def split: float64.splits)

lemma insert_fact_insort:
  "\<forall>g \<in> set (f # gs). unit_confidence (mf_confidence g) \<Longrightarrow> mf_id f \<notin> mf_id ` set gs \<Longrightarrow> insert_fact f gs = insort_key fact_rank f gs"
  by (induction gs) (auto simp: fact_before_rank less_le dest: rank_id)

lemma sort_facts_key:
  "\<forall>f \<in> set fs. unit_confidence (mf_confidence f) \<Longrightarrow> distinct (map mf_id fs) \<Longrightarrow> sort_facts fs = sort_key fact_rank fs"
proof (induction fs)
  case (Cons f fs)
  then have "sort_facts fs = sort_key fact_rank fs" by simp
  moreover have "insert_fact f (sort_key fact_rank fs) = insort_key fact_rank f (sort_key fact_rank fs)"
    using Cons.prems by (intro insert_fact_insort) auto
  ultimately show ?case by (simp add: sort_facts_def sort_key_def)
qed (simp add: sort_facts_def)

text \<open>A fact store: keys are the identities of valid facts, each once, within the capacity.\<close>

definition facts_inv :: "fact_store \<Rightarrow> bool" where
  "facts_inv facts \<longleftrightarrow> distinct (map fst facts) \<and> (\<forall>(i, f) \<in> set facts. mf_id f = i \<and> validMemoryFact f = None) \<and> length facts \<le> 10000"

lemma facts_ids: "facts_inv facts \<Longrightarrow> map (mf_id \<circ> snd) facts = map fst facts"
  by (auto simp: facts_inv_def)

lemma valid_accessed [simp]: "validMemoryFact (accessed now f) = validMemoryFact f"
  by (simp add: validMemoryFact_def accessed_def)

lemma accessed_id [simp]: "mf_id (accessed now f) = mf_id f"
  by (simp add: accessed_def)

lemma local_query_inv: "facts_inv facts \<Longrightarrow> facts_inv (snd (local_query lower now query n facts))"
  by (auto simp: facts_inv_def local_query_def Let_def case_prod_beta o_def)

lemma StoreMemory_inv [alva_inv]:
  assumes "facts_inv facts" "\<And>t. utf8_valid (sha t)"
  shows "facts_inv (snd (StoreMemory sha canceled servicesErr memory f facts))"
proof -
  let ?f = "if mf_fingerprint f = [] then f\<lparr>mf_fingerprint := sha (mf_text f)\<rparr> else f"
  have "facts_inv (AList.update (mf_id f) ?f facts)" if v: "validMemoryFact f = None" and c: "\<not> (map_of facts (mf_id f) = None \<and> length facts \<ge> 10000)"
  proof -
    have "distinct (map fst (AList.update (mf_id f) ?f facts))" using assms(1) by (simp add: facts_inv_def AList.distinct_update)
    moreover have "validMemoryFact ?f = None" using v assms(2) by (auto simp: validMemoryFact_def validStrings_def split: if_splits)
    moreover have "set (AList.update (mf_id f) ?f facts) \<subseteq> insert (mf_id f, ?f) (set facts)"
      by (induction facts) auto
    moreover have "length (AList.update (mf_id f) ?f facts) = (if mf_id f \<in> fst ` set facts then length facts else length facts + 1)"
      by (induction facts) auto
    moreover have "map_of facts (mf_id f) = None \<longleftrightarrow> mf_id f \<notin> fst ` set facts" by (simp add: map_of_eq_None_iff)
    moreover have "mf_id ?f = mf_id f" by simp
    ultimately show ?thesis using assms(1) c unfolding facts_inv_def by (auto split: if_splits)
  qed
  with assms(1) show ?thesis by (auto simp: StoreMemory_def Let_def split: option.split)
qed

lemma DeleteMemory_inv [alva_inv]: "facts_inv facts \<Longrightarrow> facts_inv (snd (DeleteMemory canceled servicesErr memory i facts))"
  by (auto simp: DeleteMemory_def facts_inv_def AList.distinct_delete AList.delete_eq split: option.split
      intro: distinct_map_filterI order_trans [OF length_filter_le])

text \<open>Ranked, bounded, and the same whatever order the map is visited in.\<close>

lemma recall_is_ranked:
  assumes "facts_inv facts" "facts_inv facts'" "set facts' = set facts"
  shows "fst (local_query lower now query n facts') = fst (local_query lower now query n facts) \<and>
    sorted_wrt fact_before (fst (local_query lower now query n facts)) \<and> length (fst (local_query lower now query n facts)) \<le> n"
proof -
  let ?found = "\<lambda>facts. map (accessed now) (filter (matches_query lower query) (map snd facts))"
  have found: "distinct (map mf_id (?found facts))" "\<forall>f \<in> set (?found facts). unit_confidence (mf_confidence f)" if "facts_inv facts" for facts
  proof -
    have "map mf_id (map snd facts) = map fst facts" using facts_ids [OF that] by (simp only: map_map)
    with that have "distinct (map mf_id (map snd facts))" by (simp only: facts_inv_def)
    then have "distinct (map mf_id (filter (matches_query lower query) (map snd facts)))" by (rule distinct_map_filterI)
    then show "distinct (map mf_id (?found facts))" by (simp add: o_def)
    show "\<forall>f \<in> set (?found facts). unit_confidence (mf_confidence f)"
      using that by (auto simp: facts_inv_def accessed_def dest!: valid_fact_unit)
  qed
  have q: "fst (local_query lower now query n facts) = take n (sort_key fact_rank (?found facts))" if "facts_inv facts" for facts
    using sort_facts_key [OF found(2) [OF that] found(1) [OF that]] by (simp add: local_query_def Let_def)
  have ids: "inj_on mf_id (set (?found facts))" using found(1) [OF assms(1)] by (simp only: distinct_map [of mf_id])
  have inj: "inj_on fact_rank (set (?found facts))" by (rule inj_onI) (blast dest: rank_id inj_onD [OF ids])
  have m: "mset (?found facts') = mset (?found facts)"
  proof -
    have "distinct facts" "distinct facts'" using assms(1,2) by (simp_all add: facts_inv_def distinct_map)
    with assms(3) have "mset facts' = mset facts" by (simp add: set_eq_iff_mset_eq_distinct)
    then show ?thesis by simp
  qed
  have inj': "inj_on fact_rank (set (?found facts'))" using inj by (simp only: mset_eq_setD [OF m])
  have "sort_key fact_rank (?found facts') = sort_key fact_rank (?found facts)"
    by (rule sort_key_inj_key_eq [OF _ inj']) (simp_all only: m mset_sort sorted_sort_key)
  moreover have "sorted_wrt fact_before (sort_key fact_rank (?found facts))"
  proof -
    let ?s = "sort_key fact_rank (?found facts)"
    have "sorted (map fact_rank ?s)" by simp
    moreover have "distinct (?found facts)" using found(1) [OF assms(1)] by (simp only: distinct_map [of mf_id])
    then have "distinct (map fact_rank ?s)" using inj by (simp only: distinct_map distinct_sort set_sort simp_thms)
    ultimately have "sorted_wrt (<) (map fact_rank ?s)" by (simp add: strict_sorted_iff)
    then have "sorted_wrt (\<lambda>a b. fact_rank a < fact_rank b) ?s" by (simp add: sorted_wrt_map)
    moreover have unit: "unit_confidence (mf_confidence f)" if "f \<in> set ?s" for f
      using found(2) [OF assms(1)] that unfolding set_sort by blast
    ultimately show ?thesis
      by (elim sorted_wrt_mono_rel [rotated]) (simp only: fact_before_rank [OF unit unit])
  qed
  ultimately show ?thesis using q [OF assms(1)] q [OF assms(2)] by (auto simp: sorted_wrt_take)
qed

text \<open>Packing: a prefix of the ranked facts, as long as the budget allows.\<close>

definition charged :: "(string \<Rightarrow> int) option \<Rightarrow> memory_fact \<Rightarrow> int" where
  "charged counter f = (if fact_tokens counter f = 0 \<and> mf_text f \<noteq> [] then 1 else fact_tokens counter f)"

lemma pack_facts_fits:
  "pack_facts counter maxTokens used fs = Inr gs \<Longrightarrow> used \<le> maxTokens \<Longrightarrow>
   prefix gs fs \<and> used + (\<Sum>f \<leftarrow> gs. charged counter f) \<le> maxTokens \<and>
   (gs = fs \<or> used + (\<Sum>f \<leftarrow> take (length gs + 1) fs. charged counter f) > maxTokens)"
proof (induction counter maxTokens used fs arbitrary: gs rule: pack_facts.induct)
  case (2 counter maxTokens used f fs)
  show ?case
  proof (cases "charged counter f > maxTokens - used")
    case True
    then show ?thesis using 2(2,3) by (auto simp: Let_def charged_def split: if_splits)
  next
    case False
    obtain hs where hs: "pack_facts counter maxTokens (used + charged counter f) fs = Inr hs" "gs = f # hs"
      using 2(2) False by (auto simp: Let_def charged_def split: if_splits sum.splits)
    have nn: "\<not> fact_tokens counter f < 0" using 2(2) by (auto simp: Let_def split: if_splits)
    from 2(1) [OF refl nn refl] False hs(1)
    have "prefix hs fs \<and> used + charged counter f + (\<Sum>f \<leftarrow> hs. charged counter f) \<le> maxTokens \<and>
        (hs = fs \<or> used + charged counter f + (\<Sum>f \<leftarrow> take (length hs + 1) fs. charged counter f) > maxTokens)"
      unfolding charged_def [symmetric] by simp
    then show ?thesis by (simp add: hs(2) algebra_simps)
  qed
qed simp

lemma externalize_cases:
  assumes "store_Externalize encode sha cfg canceled late last_check servicesErr externalizer references a selected path st st' = (err, r, st2)"
  shows "(err \<noteq> None \<and> st2 = st') \<or>
    (err = None \<and> store_entries st' a = store_entries st a \<and>
     (\<exists>f t e. whole (map en_message (store_entries st a)) f t \<and> f < t \<and> t \<le> length (store_entries st a) \<and>
       md_externalized_path (en_meta e) = path \<and> store_entries st2 a = take f (store_entries st a) @ [e] @ drop t (store_entries st a)))"
proof (cases err)
  case (Some x)
  then have "st2 = st'"
    using assms by (simp add: store_Externalize_def Let_def split: option.splits sum.splits prod.splits if_splits)
  with Some show ?thesis by simp
next
  case None
  let ?es = "store_entries st a"
  obtain f0 t0 where r0: "resolveRange selected (map en_id ?es) = Inr (f0, t0)" "f0 \<noteq> t0"
    using assms None by (auto simp: store_Externalize_def store_Entries_def Let_def split: option.splits sum.splits prod.splits if_splits)
  obtain f t where ft: "safeRange (map en_message ?es) f0 t0 = (f, t)" by fastforce
  have sel: "n \<le> length ids" if "resolve_selector ids s = Inr n" for ids s n
    using that by (auto simp: resolve_selector_def Let_def split: selector.splits if_splits option.splits dest: find_index_less)
  have le: "f0 \<le> t0" "t0 \<le> length ?es"
    using r0(1) sel [of "map en_id ?es" "rg_to selected" t0] by (auto simp: resolveRange_def split: sum.splits if_splits)
  have w: "whole (map en_message ?es) f t" "f < t" "t \<le> length ?es"
    using safeRange_least(1) [OF ft] safeRange_inside [OF ft le(1)] le r0(2) by auto
  have s: "store_entries st' a = ?es \<and> (\<exists>i r. st2 = set_entries a (\<lambda>es. take f es @ [external_entry cfg i path r] @ drop t es) st')"
    using assms None r0 ft
    by (simp add: store_Externalize_def store_Entries_def Let_def split: option.splits sum.splits prod.splits if_splits) blast
  then obtain i r where "store_entries st' a = ?es" "st2 = set_entries a (\<lambda>es. take f es @ [external_entry cfg i path r] @ drop t es) st'" by blast
  then have "store_entries st2 a = take f ?es @ [external_entry cfg i path r] @ drop t ?es" "store_entries st' a = ?es"
    by (simp_all add: set_entries_def Let_def) (simp_all add: store_entries_def)
  moreover have "md_externalized_path (en_meta (external_entry cfg i path r)) = path" by (simp add: external_entry_def Let_def)
  ultimately show ?thesis using None w by blast
qed

text \<open>
  Externalizing loses no update and parts no tool call from its result. Whatever happened to
  the store while the host kept the text, the operation either fails and changes nothing, or the
  session still held exactly the entries it read; then the range it replaces by one reference
  holds all of a call and its results or none, and contains what was selected.
\<close>

theorem externalize_is_optimistic:
  "let (err, r, st2) = store_Externalize encode sha cfg canceled late last_check servicesErr externalizer references a selected path st st';
       es = store_entries st a in
     (\<exists>e. err = Some e \<and> st2 = st') \<or>
     (err = None \<and> store_entries st' a = es \<and>
      (\<exists>f t e. whole (map en_message es) f t \<and> f < t \<and> t \<le> length es \<and> md_externalized_path (en_meta e) = path \<and>
        store_entries st2 a = take f es @ [e] @ drop t es))"
proof -
  obtain err r st2 where x: "store_Externalize encode sha cfg canceled late last_check servicesErr externalizer references a selected path st st' = (err, r, st2)"
    by (rule prod_cases3)
  have "(err \<noteq> None \<and> st2 = st') \<or>
    (err = None \<and> store_entries st' a = store_entries st a \<and>
     (\<exists>f t e. whole (map en_message (store_entries st a)) f t \<and> f < t \<and> t \<le> length (store_entries st a) \<and>
       md_externalized_path (en_meta e) = path \<and> store_entries st2 a = take f (store_entries st a) @ [e] @ drop t (store_entries st a)))"
    by (rule externalize_cases [OF x])
  then show ?thesis unfolding x Let_def prod.case by (cases err) simp_all
qed

end
