(* ===== verification/Context_Reference.thy ===== *)
theory Context_Reference
  imports Wire
begin

section \<open>Text references: pages, searches and the volatile backend\<close>

text \<open>
  sdk/agent/context/reference.go and reference_memory.go. Offsets and sizes are int64 and int; all
  are bounded by the length of a stored text before they are added. A nil backend is \<open>None\<close>. The
  hexadecimal SHA-256 digest is the argument \<open>sha\<close>.
\<close>

definition MaxTextPageBytes :: int where "MaxTextPageBytes = 4096"
definition MaxTextMatches :: int where "MaxTextMatches = 20"

record text_page =
  pg_uri :: string
  pg_text :: string
  pg_offset :: int
  pg_next :: int
  pg_total :: int
  pg_truncated :: bool

record text_match =
  ma_uri :: string
  ma_text :: string
  ma_offset :: int

type_synonym read_text = "string \<Rightarrow> int \<Rightarrow> int \<Rightarrow> text_page result"
type_synonym search_text = "string \<Rightarrow> string \<Rightarrow> int \<Rightarrow> text_match list result"

subsection \<open>The reader checks what a backend returns\<close>

definition page_ok :: "string \<Rightarrow> int \<Rightarrow> int \<Rightarrow> text_page \<Rightarrow> bool" where
  "page_ok uri offset limit pg =
     (\<not> (pg_uri pg \<noteq> uri \<or> pg_offset pg \<noteq> offset \<or> pg_next pg < offset \<or> pg_total pg < pg_next pg \<or>
         int (length (pg_text pg)) > limit \<or> \<not> utf8_valid (pg_text pg) \<or> pg_next pg \<noteq> offset + int (length (pg_text pg))))"

definition reader_Read :: "read_text option \<Rightarrow> read_text" where
  "reader_Read backend uri offset limit =
     (case backend of None \<Rightarrow> Inl (ErrNew ''reference backend unavailable'')
      | Some read \<Rightarrow>
        if offset < 0 \<or> limit < 1 \<or> limit > MaxTextPageBytes then Inl (ErrNew ''invalid reference page bounds'')
        else (case read uri offset limit of Inl e \<Rightarrow> Inl e
          | Inr pg \<Rightarrow> if page_ok uri offset limit pg then Inr pg else Inl (ErrNew ''reference backend returned invalid page'')))"

definition reader_Search :: "search_text option \<Rightarrow> search_text" where
  "reader_Search backend uri query limit =
     (case backend of None \<Rightarrow> Inl (ErrNew ''reference backend unavailable'')
      | Some search \<Rightarrow>
        if query = [] \<or> length query > 1024 \<or> limit < 1 \<or> limit > MaxTextMatches then Inl (ErrNew ''invalid reference search bounds'')
        else (case search uri query limit of Inl e \<Rightarrow> Inl e
          | Inr ms \<Rightarrow>
            if int (length ms) > limit then Inl (ErrNew ''reference backend exceeded search result limit'')
            else if list_ex (\<lambda>m. ma_uri m \<noteq> uri \<or> ma_offset m < 0 \<or> length (ma_text m) > 256 \<or> \<not> utf8_valid (ma_text m)) ms
            then Inl (ErrNew ''reference backend returned invalid match'')
            else Inr ms))"

subsection \<open>The volatile backend\<close>

record memory_references =
  mr_session :: string
  mr_max :: int
  mr_bytes :: int
  mr_values :: "(string \<times> string) list"

definition NewMemoryReferences :: "string \<Rightarrow> int \<Rightarrow> memory_references result" where
  "NewMemoryReferences sessionID maxBytes =
     (if sessionID = [] \<or> length sessionID > 256 \<or> \<not> utf8_valid sessionID \<or> maxBytes \<le> 0
      then Inl (ErrNew ''invalid volatile reference owner/budget'')
      else Inr \<lparr>mr_session = sessionID, mr_max = maxBytes, mr_bytes = 0, mr_values = []\<rparr>)"

text \<open>Two hexadecimal digits for each of the first sixteen bytes of the owner's digest.\<close>

definition reference_uri :: "(string \<Rightarrow> string) \<Rightarrow> memory_references \<Rightarrow> string \<Rightarrow> string" where
  "reference_uri sha mr t = ''memory-ref://'' @ take 32 (sha (mr_session mr)) @ ''/'' @ sha t"

definition StoreText :: "(string \<Rightarrow> string) \<Rightarrow> go_error option \<Rightarrow> string \<Rightarrow> memory_references \<Rightarrow> ref_data result \<times> memory_references" where
  "StoreText sha canceled t mr =
     (case canceled of Some e \<Rightarrow> (Inl e, mr)
      | None \<Rightarrow>
        if \<not> utf8_valid t then (Inl (ErrNew ''reference text must be UTF-8''), mr)
        else (let uri = reference_uri sha mr t;
                  reference = \<lparr>ref_uri = uri, ref_media_type = ''text/plain; charset=utf-8'', ref_sha256 = sha t,
                    ref_bytes = int (length t), ref_processing = ''Complete UTF-8 text stored in bounded volatile session memory; lost at restart; reference only, no media processing''\<rparr>
          in if map_of (mr_values mr) uri \<noteq> None then (Inr reference, mr)
             else if length (mr_values mr) \<ge> 256 \<or> int (length t) > mr_max mr - mr_bytes mr
             then (Inl (ErrNew ''volatile reference budget exceeded; text not delivered''), mr)
             else (Inr reference, mr\<lparr>mr_values := (uri, t) # mr_values mr, mr_bytes := mr_bytes mr + int (length t)\<rparr>)))"

text \<open>\<open>utf8.RuneStart\<close>, and the loop that moves an end back to the start of a code point.\<close>

definition rune_start :: "char \<Rightarrow> bool" where
  "rune_start c = (\<not> in_range 0x80 0xBF c)"

fun back_up :: "string \<Rightarrow> nat \<Rightarrow> nat \<Rightarrow> nat" where
  "back_up t offset 0 = 0"
| "back_up t offset (Suc e) =
     (if Suc e > offset \<and> Suc e < length t \<and> \<not> rune_start (t ! Suc e) then back_up t offset e else Suc e)"

definition slice :: "nat \<Rightarrow> nat \<Rightarrow> 'a list \<Rightarrow> 'a list" where
  "slice i j xs = take (j - i) (drop i xs)"

definition ReadText :: "memory_references \<Rightarrow> go_error option \<Rightarrow> read_text" where
  "ReadText mr canceled uri offset limit =
     (case canceled of Some e \<Rightarrow> Inl e
      | None \<Rightarrow>
        if offset < 0 \<or> limit < 1 \<or> limit > MaxTextPageBytes then Inl (ErrNew ''invalid reference page bounds'')
        else (case map_of (mr_values mr) uri of None \<Rightarrow> Inl (ErrNew ''reference unavailable in this session'')
          | Some t \<Rightarrow>
            if offset > int (length t) \<or> (offset < int (length t) \<and> \<not> rune_start (t ! nat offset))
            then Inl (ErrNew ''reference offset is not an in-range UTF-8 boundary'')
            else (let o0 = nat offset; e = back_up t o0 (min (o0 + nat limit) (length t)) in
              if e = o0 \<and> o0 < length t then Inl (ErrNew ''page budget cannot fit the next UTF-8 rune'')
              else Inr \<lparr>pg_uri = uri, pg_text = slice o0 e t, pg_offset = offset, pg_next = int e, pg_total = int (length t),
                     pg_truncated = (e < length t)\<rparr>)))"

text \<open>The loop of \<open>SearchText\<close>: \<open>ctx.Err()\<close> is polled before each match, \<open>polls\<close> gives its answers.\<close>

function search_from :: "string \<Rightarrow> string \<Rightarrow> string \<Rightarrow> nat \<Rightarrow> go_error option list \<Rightarrow> nat \<Rightarrow> text_match list result" where
  "search_from uri t query limit polls at =
     (if query = [] \<or> at \<ge> length t \<or> limit = 0 then Inr []
      else case (case polls of [] \<Rightarrow> None | p # _ \<Rightarrow> p) of Some e \<Rightarrow> Inl e
      | None \<Rightarrow>
        (case str_index (drop at t) query of None \<Rightarrow> Inr []
         | Some relative \<Rightarrow>
           (let start = at + relative; e = back_up t start (min (start + 256) (length t)) in
            case search_from uri t query (limit - 1) (drop 1 polls) (start + length query) of Inl e \<Rightarrow> Inl e
            | Inr ms \<Rightarrow> Inr (\<lparr>ma_uri = uri, ma_text = slice start e t, ma_offset = int start\<rparr> # ms))))"
  by pat_completeness auto
termination by (relation "measure (\<lambda>(uri, t, query, limit, polls, at). limit)") auto

declare search_from.simps [simp del]

definition SearchText :: "memory_references \<Rightarrow> go_error option \<Rightarrow> go_error option list \<Rightarrow> search_text" where
  "SearchText mr canceled polls uri query limit =
     (case canceled of Some e \<Rightarrow> Inl e
      | None \<Rightarrow>
        if query = [] \<or> \<not> utf8_valid query \<or> length query > 1024 \<or> limit < 1 \<or> limit > MaxTextMatches
        then Inl (ErrNew ''invalid reference literal search'')
        else (case map_of (mr_values mr) uri of None \<Rightarrow> Inl (ErrNew ''reference unavailable in this session'')
          | Some t \<Rightarrow> search_from uri t query (nat limit) polls 0))"

subsection \<open>Code point boundaries\<close>

definition boundary :: "string \<Rightarrow> nat \<Rightarrow> bool" where
  "boundary t i \<longleftrightarrow> i \<le> length t \<and> (i < length t \<longrightarrow> rune_start (t ! i))"

definition due :: "nat \<Rightarrow> nat \<Rightarrow> nat \<Rightarrow> bool" where
  "due n lo hi \<longleftrightarrow> (n > 0 \<longrightarrow> 0x80 \<le> lo \<and> hi \<le> 0xBF)"

lemma due_lead: "utf8_lead c = Some (m, l, h) \<Longrightarrow> due m l h \<and> m \<le> 3 \<and> rune_start c"
  by (auto simp: utf8_lead_def due_def rune_start_def in_range_def Let_def split: if_splits)

lemma due_next: "due (n - 1) 0x80 0xBF"
  by (simp add: due_def)

lemma continuation: "due n lo hi \<Longrightarrow> n > 0 \<Longrightarrow> in_range lo hi c \<Longrightarrow> \<not> rune_start c"
  by (auto simp: due_def in_range_def rune_start_def)

lemma utf8_more_drop: "utf8_more n lo hi s \<Longrightarrow> due n lo hi \<Longrightarrow> boundary s i \<Longrightarrow> (i = 0 \<Longrightarrow> n = 0) \<Longrightarrow> utf8_valid (drop i s)"
proof (induction n lo hi s arbitrary: i rule: utf8_more.induct)
  case (2 n lo hi c s)
  show ?case
  proof (cases i)
    case 0
    with 2(3,6) show ?thesis by (simp add: utf8_valid_def)
  next
    case (Suc j)
    then have b: "boundary s j" using 2(5) by (simp add: boundary_def)
    show ?thesis
    proof (cases "n = 0")
      case True
      with 2(3) obtain m l h where l: "utf8_lead c = Some (m, l, h)" "utf8_more m l h s" by (auto split: option.splits)
      have "j = 0 \<Longrightarrow> m = 0"
      proof (rule ccontr)
        assume "j = 0" "m \<noteq> 0"
        with l(2) obtain d s' where "s = d # s'" "in_range l h d" by (cases s) auto
        with b \<open>j = 0\<close> \<open>m \<noteq> 0\<close> continuation [of m l h d] due_lead [OF l(1)] show False by (simp add: boundary_def)
      qed
      with 2(1) [OF True l(1) refl refl, of j] l due_lead [OF l(1)] b Suc show ?thesis by simp
    next
      case False
      with 2(3) have m: "utf8_more (n - 1) 0x80 0xBF s" by simp
      have "j = 0 \<Longrightarrow> n - 1 = 0"
      proof (rule ccontr)
        assume "j = 0" "n - 1 \<noteq> 0"
        with m obtain d s' where "s = d # s'" "in_range 0x80 0xBF d" by (cases s) auto
        with b \<open>j = 0\<close> show False by (simp add: boundary_def rune_start_def)
      qed
      with 2(2) [OF False, of j] m b Suc due_next show ?thesis by simp
    qed
  qed
qed (auto simp: boundary_def utf8_valid_def)

lemma utf8_valid_drop: "utf8_valid s \<Longrightarrow> boundary s i \<Longrightarrow> utf8_valid (drop i s)"
  by (rule utf8_more_drop [of 0 0 0]) (simp_all add: utf8_valid_def due_def)

lemma utf8_valid_head: "utf8_valid (c # s) \<Longrightarrow> rune_start c"
  by (auto simp: utf8_valid_def split: option.splits dest: due_lead)

lemma utf8_more_prefix: "utf8_more n lo hi (s @ t) \<Longrightarrow> due n lo hi \<Longrightarrow> t \<noteq> [] \<Longrightarrow> rune_start (hd t) \<Longrightarrow> utf8_more n lo hi s"
proof (induction n lo hi s rule: utf8_more.induct)
  case (1 n lo hi)
  then show ?case using continuation [of n lo hi "hd t"] by (cases t) auto
next
  case (2 n lo hi c s)
  show ?case
  proof (cases "n = 0")
    case True
    with 2 due_lead [of c] show ?thesis by (auto split: option.splits)
  next
    case False
    with 2 due_next show ?thesis by simp
  qed
qed

lemma utf8_valid_slice: "utf8_valid t \<Longrightarrow> boundary t i \<Longrightarrow> boundary t j \<Longrightarrow> i \<le> j \<Longrightarrow> utf8_valid (slice i j t)"
proof -
  assume t: "utf8_valid t" and b: "boundary t i" "boundary t j" "i \<le> j"
  have v: "utf8_valid (drop i t)" by (rule utf8_valid_drop [OF t b(1)])
  have split: "drop i t = slice i j t @ drop j t" using b(3) by (metis append_take_drop_id drop_drop le_add_diff_inverse2 slice_def)
  show ?thesis
  proof (cases "drop j t")
    case Nil
    with split v show ?thesis by simp
  next
    case (Cons c s)
    then have "j < length t" by (metis drop_all list.distinct(1) not_le)
    moreover from this have "hd (drop j t) = t ! j" by (rule hd_drop_conv_nth)
    ultimately have "hd (drop j t) = t ! j" "j < length t" by simp_all
    with b(2) Cons v split show ?thesis
      using utf8_more_prefix [of 0 0 0 "slice i j t" "drop j t"] by (simp add: utf8_valid_def boundary_def due_def)
  qed
qed

text \<open>The next code point of a valid text ends within four bytes.\<close>

lemma utf8_more_boundary: "utf8_more n lo hi s \<Longrightarrow> n \<le> length s \<and> boundary s n"
proof (induction n lo hi s rule: utf8_more.induct)
  case (2 n lo hi c s)
  show ?case
  proof (cases n)
    case 0
    with 2 show ?thesis by (auto simp: boundary_def split: option.splits dest: due_lead)
  next
    case (Suc k)
    with 2 show ?thesis by (auto simp: boundary_def)
  qed
qed (simp add: boundary_def)

lemma next_boundary:
  assumes "utf8_valid t" "boundary t i" "i < length t"
  obtains j where "boundary t j" "i < j" "j \<le> i + 4"
proof -
  obtain c s where d: "drop i t = c # s" using assms(3) by (cases "drop i t") auto
  from utf8_valid_drop [OF assms(1,2)] obtain m l h where l: "utf8_lead c = Some (m, l, h)" "utf8_more m l h s"
    by (auto simp: d utf8_valid_def split: option.splits)
  from utf8_more_boundary [OF l(2)] have b: "m \<le> length s" "boundary s m" by auto
  have len: "length t = i + 1 + length s" using d assms(3) by (metis One_nat_def add.assoc add_diff_inverse_nat length_Cons length_drop less_imp_le_nat not_less plus_1_eq_Suc)
  have "t ! (i + 1 + k) = s ! k" if "k < length s" for k
    using d assms(3) that by (metis Suc_eq_plus1 add.assoc add.commute less_imp_le_nat nth_Cons_Suc nth_drop plus_1_eq_Suc)
  then have "boundary t (i + 1 + m)" using b len by (auto simp: boundary_def)
  moreover have "m \<le> 3" using due_lead [OF l(1)] by simp
  ultimately show ?thesis using that [of "i + 1 + m"] by simp
qed

lemma back_up_le: "back_up t offset e \<le> e"
  by (induction t offset e rule: back_up.induct) auto

lemma back_up_ge: "offset \<le> e \<Longrightarrow> offset \<le> back_up t offset e"
  by (induction t offset e rule: back_up.induct) auto

lemma back_up_boundary: "boundary t offset \<Longrightarrow> offset \<le> e \<Longrightarrow> e \<le> length t \<Longrightarrow> boundary t (back_up t offset e)"
proof (induction t offset e rule: back_up.induct)
  case (2 t offset e)
  then show ?case by (auto simp: boundary_def le_Suc_eq)
qed simp

lemma back_up_reaches: "boundary t b \<Longrightarrow> b \<le> e \<Longrightarrow> b \<le> back_up t offset e"
proof (induction t offset e rule: back_up.induct)
  case (2 t offset e)
  then show ?case by (auto simp: boundary_def le_Suc_eq)
qed simp

subsection \<open>Reading a text page by page\<close>

text \<open>A reader follows \<open>next_offset\<close> until a page is not truncated; None means it ran out of turns.\<close>

fun read_all :: "nat \<Rightarrow> read_text \<Rightarrow> string \<Rightarrow> int \<Rightarrow> int \<Rightarrow> string result option" where
  "read_all 0 read uri limit offset = None"
| "read_all (Suc turns) read uri limit offset =
     (case read uri offset limit of Inl e \<Rightarrow> Some (Inl e)
      | Inr pg \<Rightarrow>
        if pg_truncated pg then map_option (map_sum id (\<lambda>t. pg_text pg @ t)) (read_all turns read uri limit (pg_next pg))
        else Some (Inr (pg_text pg)))"

definition page_from :: "string \<Rightarrow> string \<Rightarrow> nat \<Rightarrow> nat \<Rightarrow> text_page" where
  "page_from uri t i j = \<lparr>pg_uri = uri, pg_text = slice i j t, pg_offset = int i, pg_next = int j, pg_total = int (length t), pg_truncated = (j < length t)\<rparr>"

text \<open>
  What the reader and its clients expect of a backend: at a boundary of a stored text it returns
  the page from there to a later boundary within the budget.
\<close>

locale paged_texts =
  fixes read :: read_text and content :: "string \<Rightarrow> string option"
  assumes valid: "content uri = Some t \<Longrightarrow> utf8_valid t"
    and page: "content uri = Some t \<Longrightarrow> boundary t i \<Longrightarrow> 4 \<le> limit \<Longrightarrow> limit \<le> MaxTextPageBytes \<Longrightarrow>
      \<exists>j. read uri (int i) limit = Inr (page_from uri t i j) \<and> boundary t j \<and> i \<le> j \<and> int j \<le> int i + limit \<and> (i < length t \<longrightarrow> i < j)"
begin

lemma page_accepted:
  assumes "content uri = Some t" "boundary t i" "4 \<le> limit" "limit \<le> MaxTextPageBytes"
  shows "reader_Read (Some read) uri (int i) limit = read uri (int i) limit"
proof -
  obtain j where j: "read uri (int i) limit = Inr (page_from uri t i j)" "boundary t j" "i \<le> j" "int j \<le> int i + limit"
    using page [OF assms] by blast
  then have "page_ok uri (int i) limit (page_from uri t i j)"
    using utf8_valid_slice [OF valid [OF assms(1)] assms(2) j(2,3)]
    by (auto simp: page_ok_def page_from_def slice_def boundary_def)
  with j(1) assms(3,4) show ?thesis by (simp add: reader_Read_def)
qed

lemma read_all_from:
  "content uri = Some t \<Longrightarrow> boundary t i \<Longrightarrow> 4 \<le> limit \<Longrightarrow> limit \<le> MaxTextPageBytes \<Longrightarrow> length t - i < turns \<Longrightarrow>
   read_all turns (reader_Read (Some read)) uri limit (int i) = Some (Inr (drop i t))"
proof (induction turns arbitrary: i)
  case (Suc turns)
  obtain j where j: "read uri (int i) limit = Inr (page_from uri t i j)" "boundary t j" "i \<le> j" "i < length t \<longrightarrow> i < j"
    using page [OF Suc.prems(1-4)] by blast
  have r: "reader_Read (Some read) uri (int i) limit = Inr (page_from uri t i j)"
    using page_accepted [OF Suc.prems(1-4)] j(1) by simp
  have split: "drop i t = slice i j t @ drop j t" using j(3) by (metis append_take_drop_id drop_drop le_add_diff_inverse2 slice_def)
  show ?case
  proof (cases "j < length t")
    case True
    with j(3,4) Suc.prems(5) have "length t - j < turns" by linarith
    from Suc.IH [OF Suc.prems(1) j(2) Suc.prems(3,4) this] r True split show ?thesis by (simp add: page_from_def)
  next
    case False
    with r split show ?thesis by (simp add: page_from_def)
  qed
qed simp

end

text \<open>The volatile backend: stored texts are valid, keyed by their digest, and within the budgets.\<close>

definition references_inv :: "(string \<Rightarrow> string) \<Rightarrow> memory_references \<Rightarrow> bool" where
  "references_inv sha mr \<longleftrightarrow>
     distinct (map fst (mr_values mr)) \<and> length (mr_values mr) \<le> 256 \<and>
     (\<forall>(uri, t) \<in> set (mr_values mr). uri = reference_uri sha mr t \<and> utf8_valid t) \<and>
     mr_bytes mr = (\<Sum>(uri, t) \<leftarrow> mr_values mr. int (length t)) \<and> mr_bytes mr \<le> mr_max mr"

lemma StoreText_inv [alva_inv]: "references_inv sha mr \<Longrightarrow> references_inv sha (snd (StoreText sha canceled t mr))"
  by (auto simp: StoreText_def references_inv_def Let_def reference_uri_def map_of_eq_None_iff split: option.split)

lemma New_inv: "NewMemoryReferences i n = Inr mr \<Longrightarrow> references_inv sha mr"
  by (auto simp: NewMemoryReferences_def references_inv_def split: if_splits)

lemma ReadText_page:
  assumes mr: "references_inv sha mr" and t: "map_of (mr_values mr) uri = Some t" and b: "boundary t i"
    and limit: "4 \<le> limit" "limit \<le> MaxTextPageBytes"
  shows "\<exists>j. ReadText mr None uri (int i) limit = Inr (page_from uri t i j) \<and> boundary t j \<and> i \<le> j \<and> int j \<le> int i + limit \<and>
    (i < length t \<longrightarrow> i < j)"
proof -
  let ?e = "min (i + nat limit) (length t)"
  let ?j = "back_up t i ?e"
  have v: "utf8_valid t" using mr map_of_SomeD [OF t] by (auto simp: references_inv_def)
  have e: "i \<le> ?e" "?e \<le> length t" using b by (auto simp: boundary_def)
  have j: "boundary t ?j" "i \<le> ?j" "?j \<le> ?e"
    using back_up_boundary [OF b e] back_up_ge [OF e(1), of t] back_up_le [of t i ?e] by auto
  have grow: "i < ?j" if len: "i < length t"
  proof -
    obtain k where k: "boundary t k" "i < k" "k \<le> i + 4" using next_boundary [OF v b len] .
    then have "k \<le> ?e" using limit(1) by (auto simp: boundary_def)
    from back_up_reaches [OF k(1) this, of i] k(2) show ?thesis by simp
  qed
  have "ReadText mr None uri (int i) limit = Inr (page_from uri t i ?j)"
    using t b limit grow by (auto simp: ReadText_def page_from_def boundary_def Let_def MaxTextPageBytes_def)
  with j grow limit(1) show ?thesis by (intro exI [of _ ?j]) auto
qed

interpretation volatile: paged_texts "ReadText mr None" "\<lambda>uri. if references_inv sha mr then map_of (mr_values mr) uri else None" for sha mr
proof (unfold_locales, goal_cases)
  case (1 uri t)
  then show ?case by (auto simp: references_inv_def dest!: map_of_SomeD split: if_splits)
next
  case (2 uri t i limit)
  then show ?case by (auto split: if_splits intro: ReadText_page)
qed

definition references_after :: "(string \<Rightarrow> string) \<Rightarrow> string list \<Rightarrow> memory_references \<Rightarrow> memory_references" where
  "references_after sha texts mr = fold (\<lambda>t mr. snd (StoreText sha None t mr)) texts mr"

lemma StoreText_values: "snd ` set (mr_values (snd (StoreText sha canceled t mr))) \<subseteq> insert t (snd ` set (mr_values mr))"
  by (auto simp: StoreText_def Let_def split: option.split)

lemma references_after_values: "snd ` set (mr_values (references_after sha texts mr)) \<subseteq> set texts \<union> snd ` set (mr_values mr)"
proof (induction texts arbitrary: mr)
  case (Cons t texts)
  from Cons.IH [of "snd (StoreText sha None t mr)"] StoreText_values [of sha None t mr] show ?case
    by (auto simp: references_after_def)
qed (simp add: references_after_def)

text \<open>
  C40. What is stored can be read back. After any sequence of texts was offered to a new volatile
  backend, none of them a hash collision with the next, a text it accepts is returned whole by reading page after page from offset zero through
  the checking reader, with any page size from 4 to 4096 bytes, in at most one turn per byte plus
  one; the backend never holds more than its byte budget nor more than 256 texts.
\<close>

theorem stored_text_is_read_back:
  assumes "NewMemoryReferences i n = Inr mr0" "StoreText sha None t (references_after sha texts mr0) = (Inr reference, mr)"
    "\<forall>x \<in> set texts. sha x = sha t \<longrightarrow> x = t" "4 \<le> limit" "limit \<le> MaxTextPageBytes"
  shows "read_all (length t + 1) (reader_Read (Some (ReadText mr None))) (ref_uri reference) limit 0 = Some (Inr t) \<and>
    (\<Sum>(uri, t) \<leftarrow> mr_values mr. int (length t)) \<le> n \<and> length (mr_values mr) \<le> 256"
proof -
  have keep: "references_inv sha mr \<Longrightarrow> references_inv sha (references_after sha texts mr)" for mr
    by (induction texts arbitrary: mr) (simp_all add: references_after_def StoreText_inv)
  have before: "references_inv sha (references_after sha texts mr0)" by (rule keep [OF New_inv [OF assms(1)]])
  with StoreText_inv [OF before, of None t] assms(2) have inv: "references_inv sha mr" by simp
  have max: "mr_max (references_after sha texts mr) = mr_max mr" for mr
    by (induction texts arbitrary: mr) (simp_all add: references_after_def StoreText_def Let_def)
  have n: "mr_max mr = n"
    using assms(1,2) max [of mr0] by (auto simp: NewMemoryReferences_def StoreText_def Let_def split: if_splits)
  let ?uri = "reference_uri sha (references_after sha texts mr0) t"
  have uri: "ref_uri reference = ?uri" "reference_uri sha mr = reference_uri sha (references_after sha texts mr0)"
    using assms(2) by (auto simp: StoreText_def Let_def reference_uri_def split: if_splits)
  have "map_of (mr_values mr) ?uri \<noteq> None"
    using assms(2) by (auto simp: StoreText_def Let_def split: if_splits)
  then obtain x where x: "map_of (mr_values mr) ?uri = Some x" by auto
  then have "?uri = reference_uri sha (references_after sha texts mr0) x"
    using inv map_of_SomeD [OF x] by (auto simp: references_inv_def uri(2))
  then have same: "sha x = sha t" by (simp add: reference_uri_def)
  have "mr_values mr0 = []" using assms(1) by (auto simp: NewMemoryReferences_def split: if_splits)
  then have "snd ` set (mr_values (references_after sha texts mr0)) \<subseteq> set texts"
    using references_after_values [of sha texts mr0] by simp
  moreover have "snd ` set (mr_values mr) \<subseteq> insert t (snd ` set (mr_values (references_after sha texts mr0)))"
    using StoreText_values [of sha None t "references_after sha texts mr0"] by (simp only: assms(2) snd_conv)
  moreover have "x \<in> snd ` set (mr_values mr)" using map_of_SomeD [OF x] by (rule rev_image_eqI) simp
  ultimately have "x \<in> insert t (set texts)" by blast
  with same assms(3) have "x = t" by blast
  with x inv have c: "(if references_inv sha mr then map_of (mr_values mr) (ref_uri reference) else None) = Some t"
    by (simp add: uri(1))
  have "boundary t 0"
    using volatile.valid [OF c] by (cases t) (auto simp: boundary_def dest: utf8_valid_head)
  from volatile.read_all_from [OF c this assms(4,5), of "length t + 1"] inv n show ?thesis
    by (simp add: references_inv_def)
qed

definition example_references :: memory_references where
  "example_references = \<lparr>mr_session = ''s'', mr_max = 100, mr_bytes = 0, mr_values = []\<rparr>"

lemma example_store:
  "StoreText id None ''hello'' (references_after id [''x''] example_references) =
   (Inr (projr (fst (StoreText id None ''hello'' (references_after id [''x''] example_references)))),
    snd (StoreText id None ''hello'' (references_after id [''x''] example_references)))"
  by code_simp

theorem stored_text_is_read_back_witness:
  "let (r, mr) = StoreText id None ''hello'' (references_after id [''x''] example_references) in
     read_all (length ''hello'' + 1) (reader_Read (Some (ReadText mr None))) (ref_uri (projr r)) 4 0 = Some (Inr ''hello'')"
proof -
  have n: "NewMemoryReferences ''s'' 100 = Inr example_references" by code_simp
  have "\<forall>x \<in> set [''x'']. id x = id ''hello'' \<longrightarrow> x = ''hello''" "(4 :: int) \<le> 4" "4 \<le> MaxTextPageBytes"
    by (simp_all add: MaxTextPageBytes_def)
  from stored_text_is_read_back [OF n example_store this] show ?thesis
    unfolding case_prod_beta Let_def by (rule conjunct1)
qed

end
