(* ===== verification/Model_Config.thy ===== *)
theory Model_Config
  imports Wire Wire_Json Complex_Main
begin

section \<open>Model configuration\<close>

text \<open>
  sdk/llm/wire/config.go: the per-request settings of a model and what makes them acceptable. A
  go_float is a rational number, an infinity or not a number: the code only compares it with 0 and 1.
  \<open>canon\<close> is \<open>strings.ToLower(strings.TrimSpace(v))\<close>, Unicode functions of the standard library.
\<close>

datatype go_float = NaN | Infinite bool | Finite rat

definition finite_float :: "go_float \<Rightarrow> bool" where
  "finite_float x = (case x of Finite _ \<Rightarrow> True | _ \<Rightarrow> False)"

text \<open>IEEE comparison: false when not a number is involved; \<open>Infinite True\<close> is negative.\<close>

definition below :: "go_float \<Rightarrow> rat \<Rightarrow> bool" where
  "below x r = (case x of NaN \<Rightarrow> False | Infinite neg \<Rightarrow> neg | Finite q \<Rightarrow> q < r)"

definition above :: "go_float \<Rightarrow> rat \<Rightarrow> bool" where
  "above x r = (case x of NaN \<Rightarrow> False | Infinite neg \<Rightarrow> \<not> neg | Finite q \<Rightarrow> r < q)"

record model_config =
  mc_temperature :: "go_float option"
  mc_max_tokens :: "nat option"
  mc_stop :: "string list"
  mc_top_p :: "go_float option"
  mc_effort :: "string option"
  mc_extra_body :: string
  mc_disable_tools :: bool
  mc_allowed_tools :: "string list option"
  mc_additions :: "string list"

definition effort_of :: "string \<Rightarrow> reasoning_effort" where
  "effort_of s =
     (if s = ''none'' then EffortNone else if s = ''minimal'' then EffortMinimal else if s = ''low'' then EffortLow
      else if s = ''medium'' then EffortMedium else if s = ''high'' then EffortHigh else if s = ''xhigh'' then EffortXHigh
      else if s = ''max'' then EffortMax else EffortOther s)"

definition ParseReasoningEffort :: "(string \<Rightarrow> string) \<Rightarrow> string \<Rightarrow> reasoning_effort result" where
  "ParseReasoningEffort canon value =
     (case effort_of (canon value) of EffortOther _ \<Rightarrow> Inl (ErrNew ''unknown reasoning effort'') | e \<Rightarrow> Inr e)"

text \<open>A valid JSON text decodes into a non-nil map of raw members exactly when it is an object.\<close>

definition json_object :: "string \<Rightarrow> bool" where
  "json_object s = (case dropWhile (\<lambda>c. c \<in> {CHR '' '', CHR 0x09, CHR 0x0A, CHR 0x0D}) s of [] \<Rightarrow> False | c # _ \<Rightarrow> c = CHR ''{'')"

definition config_Validate :: "(string \<Rightarrow> string) \<Rightarrow> model_config \<Rightarrow> go_error option" where
  "config_Validate canon c =
     (if (case mc_temperature c of None \<Rightarrow> False | Some t \<Rightarrow> \<not> finite_float t \<or> below t 0)
      then Some (ErrNew ''temperature must be finite and nonnegative'')
      else if (case mc_top_p c of None \<Rightarrow> False | Some p \<Rightarrow> \<not> finite_float p \<or> below p 0 \<or> above p 1)
      then Some (ErrNew ''top_p must be finite in [0,1]'')
      else if mc_max_tokens c = Some 0 then Some (ErrNew ''max_tokens must be positive'')
      else if (case mc_effort c of None \<Rightarrow> False | Some e \<Rightarrow> is_err (ParseReasoningEffort canon e))
      then Some (ErrNew ''unknown reasoning effort'')
      else if (case mc_effort c of None \<Rightarrow> False | Some e \<Rightarrow> e \<noteq> canon e)
      then Some (ErrNew ''reasoning effort must be canonical'')
      else if mc_extra_body c \<noteq> [] \<and> \<not> ValidJSON (mc_extra_body c)
      then Some (ErrNew ''extra_body must be valid UTF-8 JSON'')
      else if mc_extra_body c \<noteq> [] \<and> \<not> json_object (mc_extra_body c)
      then Some (ErrNew ''extra_body must be a JSON object'')
      else if (case mc_allowed_tools c of None \<Rightarrow> False | Some ns \<Rightarrow> list_ex (\<lambda>n. n = [] \<or> \<not> utf8_valid n) ns)
      then Some (ErrNew ''empty allowed tool name'')
      else if list_ex (\<lambda>t. \<not> utf8_valid t) (mc_stop c @ mc_additions c)
      then Some (ErrNew ''model configuration text must be valid UTF-8'')
      else None)"

definition config_AllowsTool :: "model_config \<Rightarrow> string \<Rightarrow> bool" where
  "config_AllowsTool c = AllowsTool (mc_disable_tools c) (mc_allowed_tools c)"

definition blank_config :: model_config where
  "blank_config = \<lparr>mc_temperature = None, mc_max_tokens = None, mc_stop = [], mc_top_p = None, mc_effort = None, mc_extra_body = [],
     mc_disable_tools = False, mc_allowed_tools = None, mc_additions = []\<rparr>"

subsection \<open>Facts\<close>

lemma blank_config_valid [simp]: "config_Validate canon blank_config = None"
  by (simp add: config_Validate_def blank_config_def)

text \<open>An accepted effort is one of the seven levels, spelled canonically, and has its suggested budget.\<close>

lemma accepted_effort:
  assumes "config_Validate canon c = None" "mc_effort c = Some e"
  shows "e \<in> {''none'', ''minimal'', ''low'', ''medium'', ''high'', ''xhigh'', ''max''} \<and> canon e = e \<and>
    ParseReasoningEffort canon e = Inr (effort_of e)"
proof -
  have p: "\<not> is_err (ParseReasoningEffort canon e)" and c: "canon e = e"
    using assms by (auto simp: config_Validate_def split: if_splits)
  then show ?thesis
    by (auto simp: ParseReasoningEffort_def effort_of_def split: if_splits)
qed

lemma accepted_top_p: "config_Validate canon c = None \<Longrightarrow> mc_top_p c = Some p \<Longrightarrow> \<exists>q. p = Finite q \<and> 0 \<le> q \<and> q \<le> 1"
  by (cases p) (auto simp: config_Validate_def finite_float_def below_def above_def split: if_splits)

lemma accepted_temperature: "config_Validate canon c = None \<Longrightarrow> mc_temperature c = Some t \<Longrightarrow> \<exists>q. t = Finite q \<and> 0 \<le> q"
  by (cases t) (auto simp: config_Validate_def finite_float_def below_def split: if_splits)

end
