(* ===== verification/Model_Invoke.thy ===== *)
theory Model_Invoke
  imports Tool_Batch Accumulator Model_Config
begin

section \<open>Invoking a model through the middleware onion\<close>

text \<open>
  sdk/kernel/core/model_invoke.go, and \<open>collectObserved\<close> of loop.go that assembles the stream.
  Models, wrappers and callbacks are arbitrary code over the external state \<open>'w\<close>, as strategy trees:
  a stream program may act on the state, hand a chunk to its callback and go on with the error
  it gets, or call \<open>next\<close> while a call of it is running (which is refused); a wrapper may besides
  call \<open>next\<close> with a request and a callback of its choice, any number of times. Callbacks that arrive
  after their stream returned are refused by the source's leases and have no step; neither has
  the nil callback. \<open>'p\<close> is kernel state that such code cannot reach. \<open>ctx.Err()\<close> is the host's poll,
  also where a wrapper derives a context. Stream observations and hook audits are diagnostics.
\<close>

record model_request =
  mq_messages :: "message list"
  mq_tools :: "tool_definition list"
  mq_config :: model_config

datatype 'w stream_prog =
    SReturn "go_error option"
  | SEffect "'w \<Rightarrow> 'w" "'w \<Rightarrow> 'w stream_prog"
  | SEmit stream_chunk "go_error option \<Rightarrow> 'w stream_prog"
  | SNext "go_error option \<Rightarrow> 'w stream_prog"

datatype 'w model_wrapper =
    MReturn "go_error option"
  | MEffect "'w \<Rightarrow> 'w" "'w \<Rightarrow> 'w model_wrapper"
  | MEmit stream_chunk "go_error option \<Rightarrow> 'w model_wrapper"
  | MNext model_request "stream_chunk \<Rightarrow> 'w stream_prog" "go_error option \<Rightarrow> 'w model_wrapper"

record 'w model_layer =
  ml_name :: string
  ml_admit :: "(model_request \<Rightarrow> 'w \<Rightarrow> go_error option \<times> 'w) option"
  ml_wrap :: "(model_request \<Rightarrow> 'w model_wrapper) option"

text \<open>
  \<open>iv_out\<close> and \<open>iv_streams\<close> record what happened: the chunks delivered to the logical output, and each
  stream of the actual model with its error and the number of chunks delivered by its end.
\<close>

record ('w, 'p) invocation =
  iv_world :: "('w \<times> 'p) world"
  iv_published :: bool
  iv_failure :: "go_error option"
  iv_out :: "stream_chunk list"
  iv_streams :: "(model_request \<times> go_error option \<times> nat) list"

type_synonym ('w, 'p, 'm) emitter = "stream_chunk \<Rightarrow> ('w, 'p, 'm) invocation_scheme \<Rightarrow> go_error option \<times> ('w, 'p, 'm) invocation_scheme"
type_synonym ('w, 'p, 'm) model_func = "('w, 'p, 'm) emitter \<Rightarrow> model_request \<Rightarrow> ('w, 'p, 'm) invocation_scheme \<Rightarrow>
  go_error option \<times> ('w, 'p, 'm) invocation_scheme"

definition validateModelRequest :: "url_parser \<Rightarrow> (string \<Rightarrow> string) \<Rightarrow> model_request \<Rightarrow> go_error option" where
  "validateModelRequest url canon q =
     (case config_Validate canon (mq_config q) of Some e \<Rightarrow> Some e
      | None \<Rightarrow>
        (case first_err (message_validate url) (mq_messages q) of Some e \<Rightarrow> Some e
         | None \<Rightarrow>
           if list_ex (\<lambda>t. td_name t = [] \<or> \<not> utf8_valid (td_name t) \<or> \<not> utf8_valid (td_description t) \<or> \<not> ValidJSON (td_parameters t)) (mq_tools q)
           then Some (ErrNew ''model request contains an invalid tool definition'') else None))"

subsection \<open>Code over the external state\<close>

definition call_ext :: "('w \<Rightarrow> 'a \<times> 'w) \<Rightarrow> ('w \<times> 'p) world \<Rightarrow> 'a \<times> ('w \<times> 'p) world" where
  "call_ext f w = (case f (fst (w_ext w)) of (r, x) \<Rightarrow> (r, w\<lparr>w_ext := (x, snd (w_ext w))\<rparr>))"

definition effect_ext :: "('w \<Rightarrow> 'w) \<Rightarrow> ('w, 'p, 'm) invocation_scheme \<Rightarrow> ('w, 'p, 'm) invocation_scheme" where
  "effect_ext f s = s\<lparr>iv_world := snd (call_ext (\<lambda>x. ((), f x)) (iv_world s))\<rparr>"

definition poll_ctx :: "('w \<times> 'p) host \<Rightarrow> ('w, 'p, 'm) invocation_scheme \<Rightarrow> go_error option \<times> ('w, 'p, 'm) invocation_scheme" where
  "poll_ctx h s = (case do_poll h (iv_world s) of (e, w) \<Rightarrow> (e, s\<lparr>iv_world := w\<rparr>))"

abbreviation concurrent_next :: go_error where
  "concurrent_next \<equiv> ErrNew ''concurrent model next is not supported; buffer attempts in a model adapter''"

definition refuse_next :: "('w, 'p, 'm) invocation_scheme \<Rightarrow> go_error option \<times> ('w, 'p, 'm) invocation_scheme" where
  "refuse_next s = (let f = mergeInvocationErrors (iv_failure s) (Some concurrent_next) in (f, s\<lparr>iv_failure := f\<rparr>))"

primrec run_prog :: "('w, 'p, 'm) emitter \<Rightarrow> 'w stream_prog \<Rightarrow> ('w, 'p, 'm) invocation_scheme \<Rightarrow> go_error option \<times> ('w, 'p, 'm) invocation_scheme" where
  "run_prog out (SReturn e) s = (e, s)"
| "run_prog out (SEffect f k) s = run_prog out (k (fst (w_ext (iv_world s)))) (effect_ext f s)"
| "run_prog out (SEmit c k) s = (case out c s of (e, s') \<Rightarrow> run_prog out (k e) s')"
| "run_prog out (SNext k) s = (case refuse_next s of (e, s') \<Rightarrow> run_prog out (k e) s')"

text \<open>The callback lease of one actual stream: its first error is sticky.\<close>

primrec run_stream :: "('w, 'p, 'm) emitter \<Rightarrow> 'w stream_prog \<Rightarrow> go_error option \<Rightarrow> ('w, 'p, 'm) invocation_scheme \<Rightarrow>
    (go_error option \<times> go_error option) \<times> ('w, 'p, 'm) invocation_scheme" where
  "run_stream out (SReturn e) cb s = ((e, cb), s)"
| "run_stream out (SEffect f k) cb s = run_stream out (k (fst (w_ext (iv_world s)))) cb (effect_ext f s)"
| "run_stream out (SEmit c k) cb s =
     (if cb \<noteq> None then run_stream out (k cb) cb s
      else (case out c s of (e, s') \<Rightarrow> run_stream out (k e) e s'))"
| "run_stream out (SNext k) cb s = (case refuse_next s of (e, s') \<Rightarrow> run_stream out (k e) cb s')"

subsection \<open>The innermost next\<close>

fun admit_model :: "'w model_layer list \<Rightarrow> model_request \<Rightarrow> ('w, 'p, 'm) invocation_scheme \<Rightarrow> go_error option \<times> ('w, 'p, 'm) invocation_scheme" where
  "admit_model [] q s = (None, s)"
| "admit_model (l # ls) q s =
     (case ml_admit l of None \<Rightarrow> admit_model ls q s
      | Some f \<Rightarrow>
        (case call_ext (f q) (iv_world s) of
           (Some e, w) \<Rightarrow> (Some e, s\<lparr>iv_world := w\<rparr>)
         | (None, w) \<Rightarrow> admit_model ls q (s\<lparr>iv_world := w\<rparr>)))"

definition actual_stream :: "('w \<times> 'p) host \<Rightarrow> (model_request \<Rightarrow> 'w stream_prog) \<Rightarrow> ('w, 'p, 'm) model_func" where
  "actual_stream h model out q s =
     (let ((e, cb), s1) = run_stream out (model q) None s;
          (canceled, s2) = poll_ctx h s1;
          err = errors_join [e, cb, canceled]
      in (err, s2\<lparr>iv_streams := iv_streams s2 @ [(q, err, length (iv_out s2))]\<rparr>))"

definition attempt_model :: "url_parser \<Rightarrow> (string \<Rightarrow> string) \<Rightarrow> ('w \<times> 'p) host \<Rightarrow> 'w model_layer list \<Rightarrow> (model_request \<Rightarrow> 'w stream_prog) \<Rightarrow> ('w, 'p, 'm) model_func" where
  "attempt_model url canon h layers model out q s =
     (case poll_ctx h s of
        (Some e, s) \<Rightarrow> (Some e, s)
      | (None, s) \<Rightarrow>
        (case validateModelRequest url canon q of Some e \<Rightarrow> (Some e, s)
         | None \<Rightarrow>
           (case admit_model layers q s of
              (Some e, s) \<Rightarrow> (Some e, s)
            | (None, s) \<Rightarrow>
              (case poll_ctx h s of (Some e, s) \<Rightarrow> (Some e, s) | (None, s) \<Rightarrow> actual_stream h model out q s))))"

definition retainPublishedFailure :: "go_error option \<Rightarrow> ('w, 'p, 'm) invocation_scheme \<Rightarrow> ('w, 'p, 'm) invocation_scheme" where
  "retainPublishedFailure err s =
     (if err \<noteq> None \<and> iv_published s then s\<lparr>iv_failure := mergeInvocationErrors (iv_failure s) err\<rparr> else s)"

definition model_base :: "url_parser \<Rightarrow> (string \<Rightarrow> string) \<Rightarrow> ('w \<times> 'p) host \<Rightarrow> 'w model_layer list \<Rightarrow> (model_request \<Rightarrow> 'w stream_prog) \<Rightarrow> ('w, 'p, 'm) model_func" where
  "model_base url canon h layers model out q s =
     (if iv_failure s \<noteq> None then (iv_failure s, s)
      else (case attempt_model url canon h layers model out q s of (e, s) \<Rightarrow> (e, retainPublishedFailure e s)))"

subsection \<open>The layers\<close>

text \<open>\<open>guardedNext\<close> is the \<open>MNext\<close> case; the code after \<open>WrapModel\<close> is the \<open>MReturn\<close> case.\<close>

primrec run_model_wrapper :: "('w, 'p, 'm) model_func \<Rightarrow> ('w, 'p, 'm) emitter \<Rightarrow> 'w model_wrapper \<Rightarrow> ('w, 'p, 'm) invocation_scheme \<Rightarrow>
    go_error option \<times> ('w, 'p, 'm) invocation_scheme" where
  "run_model_wrapper inner out (MReturn e) s = (e, retainPublishedFailure e s)"
| "run_model_wrapper inner out (MEffect f k) s = run_model_wrapper inner out (k (fst (w_ext (iv_world s)))) (effect_ext f s)"
| "run_model_wrapper inner out (MEmit c k) s = (case out c s of (e, s') \<Rightarrow> run_model_wrapper inner out (k e) s')"
| "run_model_wrapper inner out (MNext q callback k) s =
     (case inner (\<lambda>c. run_prog out (callback c)) q s of
        (e, s') \<Rightarrow> run_model_wrapper inner out (k e) (retainPublishedFailure e s'))"

fun model_chain :: "url_parser \<Rightarrow> (string \<Rightarrow> string) \<Rightarrow> ('w \<times> 'p) host \<Rightarrow> 'w model_layer list \<Rightarrow> (model_request \<Rightarrow> 'w stream_prog) \<Rightarrow>
    'w model_layer list \<Rightarrow> ('w, 'p, 'm) model_func" where
  "model_chain url canon h layers model [] = model_base url canon h layers model"
| "model_chain url canon h layers model (l # ls) =
     (case ml_wrap l of None \<Rightarrow> model_chain url canon h layers model ls
      | Some wrap \<Rightarrow> (\<lambda>out q s. run_model_wrapper (model_chain url canon h layers model ls) out (wrap q) s))"

text \<open>The logical output: refused after a retained failure, otherwise delivered.\<close>

definition publish_chunk :: "('w, 'p, 'm) emitter \<Rightarrow> ('w, 'p, 'm) emitter" where
  "publish_chunk emit c s =
     (if iv_failure s \<noteq> None then (iv_failure s, s)
      else emit c (s\<lparr>iv_published := True, iv_out := iv_out s @ [c]\<rparr>))"

definition wrapped_Stream :: "url_parser \<Rightarrow> (string \<Rightarrow> string) \<Rightarrow> ('w \<times> 'p) host \<Rightarrow> 'w model_layer list \<Rightarrow> (model_request \<Rightarrow> 'w stream_prog) \<Rightarrow> ('w, 'p, 'm) model_func" where
  "wrapped_Stream url canon h layers model emit q s =
     (case model_chain url canon h layers model layers (publish_chunk emit) q s of
        (e, s) \<Rightarrow> (mergeInvocationErrors e (iv_failure s), s))"

subsection \<open>Collecting the response\<close>

record ('w, 'p) collecting = "('w, 'p) invocation" +
  cl_acc :: accumulator
  cl_err :: "go_error option"

definition chunk_event :: "stream_chunk \<Rightarrow> event option" where
  "chunk_event c =
     (case ck_kind c of
        ChunkText \<Rightarrow> Some (EventTextDelta (ck_text c))
      | ChunkReasoning \<Rightarrow> Some (EventReasoningDelta (ck_text c))
      | ChunkContentBlock \<Rightarrow> Some (EventContentBlock (the (ck_block c)))
      | ChunkUsage \<Rightarrow> Some (EventUsage (the (ck_usage c)))
      | _ \<Rightarrow> None)"

definition collect_chunk :: "url_parser \<Rightarrow> (content_block \<Rightarrow> string result) \<Rightarrow> ('w \<times> 'p) host \<Rightarrow> stream_chunk \<Rightarrow> ('w, 'p) collecting \<Rightarrow>
    go_error option \<times> ('w, 'p) collecting" where
  "collect_chunk url marshal h c s =
     (case poll_ctx h s of
        (Some e, s) \<Rightarrow> (Some e, s)
      | (None, s) \<Rightarrow>
        (case acc_push url marshal (cl_acc s) c of
           (a, Some e) \<Rightarrow> (Some e, s\<lparr>cl_acc := a\<rparr>)
         | (a, None) \<Rightarrow>
           (case chunk_event c of None \<Rightarrow> (None, s\<lparr>cl_acc := a\<rparr>)
            | Some ev \<Rightarrow> (case do_emit h ev (iv_world s) of (e, w) \<Rightarrow> (e, s\<lparr>cl_acc := a, iv_world := w\<rparr>)))))"

definition collector :: "url_parser \<Rightarrow> (content_block \<Rightarrow> string result) \<Rightarrow> ('w \<times> 'p) host \<Rightarrow> stream_chunk \<Rightarrow> ('w, 'p) collecting \<Rightarrow>
    go_error option \<times> ('w, 'p) collecting" where
  "collector url marshal h c s =
     (if cl_err s \<noteq> None then (cl_err s, s)
      else (case collect_chunk url marshal h c s of (e, s) \<Rightarrow> (e, s\<lparr>cl_err := e\<rparr>)))"

definition start_collecting :: "int \<Rightarrow> ('w \<times> 'p) world \<Rightarrow> ('w, 'p) collecting" where
  "start_collecting maxBytes w =
     \<lparr>iv_world = w, iv_published = False, iv_failure = None, iv_out = [], iv_streams = [], cl_acc = NewStreamAccumulator maxBytes, cl_err = None\<rparr>"

record response =
  rp_message :: message
  rp_calls :: "tool_call list"
  rp_error :: "go_error option"

definition collectObserved :: "url_parser \<Rightarrow> (string \<Rightarrow> string) \<Rightarrow> (content_block \<Rightarrow> string result) \<Rightarrow> ('w \<times> 'p) host \<Rightarrow> 'w model_layer list \<Rightarrow>
    (model_request \<Rightarrow> 'w stream_prog) \<Rightarrow> model_request \<Rightarrow> int \<Rightarrow> ('w \<times> 'p) world \<Rightarrow> response \<times> ('w, 'p) collecting" where
  "collectObserved url canon marshal h layers model q maxBytes w =
     (let (err, s) = wrapped_Stream url canon h layers model (collector url marshal h) q (start_collecting maxBytes w);
          (clean, s) = (if err \<noteq> None \<or> cl_err s \<noteq> None then (False, s) else (case poll_ctx h s of (c, s) \<Rightarrow> (c = None, s)));
          (m, finish_err) = (if clean then acc_finish (cl_acc s) else (acc_snapshot (cl_acc s), None));
          err = errors_join [err, cl_err s, finish_err];
          calls = responseCalls url m
      in (\<lparr>rp_message = m, rp_calls = (case calls of Inl _ \<Rightarrow> [] | Inr cs \<Rightarrow> cs), rp_error = errors_join [err, err_of calls]\<rparr>, s))"


subsection \<open>What every part of an invocation keeps\<close>

text \<open>
  A reflexive and transitive relation that the elementary steps respect holds between the states
  before and after any program, stream, wrapper and chain.
\<close>

locale invocation_relation =
  fixes R :: "('w, 'p, 'm) invocation_scheme \<Rightarrow> ('w, 'p, 'm) invocation_scheme \<Rightarrow> bool"
  assumes refl: "R s s"
    and trans: "R s t \<Longrightarrow> R t u \<Longrightarrow> R s u"
    and external: "R s (s\<lparr>iv_world := (iv_world s)\<lparr>w_ext := (x, snd (w_ext (iv_world s)))\<rparr>\<rparr>)"
    and refuse: "R s (snd (refuse_next s))"
    and retain: "R s (retainPublishedFailure e s)"
begin

lemma called: "call_ext f (iv_world s) = (r, w) \<Longrightarrow> R s (s\<lparr>iv_world := w\<rparr>)"
  using external by (auto simp: call_ext_def split: prod.splits)

lemma effect: "R s (effect_ext f s)"
  unfolding effect_ext_def by (rule called) (rule prod.collapse [symmetric])

lemma then_effect: "R (effect_ext f s) t \<Longrightarrow> R s t"
  by (rule trans [OF effect])

lemma prog:
  assumes "\<And>c s. R s (snd (out c s))"
  shows "R s (snd (run_prog out p s))"
proof (induction p arbitrary: s)
  case (SEmit c k)
  with assms [of s c] show ?case by (auto split: prod.split intro: trans)
next
  case (SNext k)
  with refuse [of s] show ?case by (auto split: prod.split intro: trans)
next
  case (SEffect f k)
  show ?case by (auto intro: then_effect [of f] SEffect)
qed (auto intro: refl)

lemma stream:
  assumes "\<And>c s. R s (snd (out c s))"
  shows "R s (snd (run_stream out p cb s))"
proof (induction p arbitrary: cb s)
  case (SEmit c k)
  with assms [of s c] show ?case by (auto split: prod.split intro: trans)
next
  case (SNext k)
  with refuse [of s] show ?case by (auto split: prod.split intro: trans)
next
  case (SEffect f k)
  show ?case by (auto intro: then_effect [of f] SEffect)
qed (auto intro: refl)

lemma admit: "R s (snd (admit_model ls q s))"
proof (induction ls arbitrary: s)
  case (Cons l ls)
  show ?case
  proof (cases "ml_admit l")
    case (Some f)
    obtain e w where c: "call_ext (f q) (iv_world s) = (e, w)" by fastforce
    then have "R s (s\<lparr>iv_world := w\<rparr>)" by (rule called)
    with Cons [of "s\<lparr>iv_world := w\<rparr>"] Some c show ?thesis by (cases e) (auto intro: trans)
  qed (simp add: Cons)
qed (simp add: refl)

lemma wrapper:
  assumes out: "\<And>c s. R s (snd (out c s))"
    and inner: "\<And>out q s. (\<And>c s. R s (snd (out c s))) \<Longrightarrow> R s (snd (inner out q s))"
  shows "R s (snd (run_model_wrapper inner out wr s))"
proof (induction wr arbitrary: s)
  case (MEmit c k)
  with out [of s c] show ?case by (auto split: prod.split intro: trans)
next
  case (MNext q callback k)
  have "R s (snd (inner (\<lambda>c. run_prog out (callback c)) q s))" by (rule inner) (rule prog [OF out])
  then obtain e s' where i: "inner (\<lambda>c. run_prog out (callback c)) q s = (e, s')" "R s s'" by (metis prod.collapse)
  from MNext [of "k e" "retainPublishedFailure e s'"] have "R s' (snd (run_model_wrapper inner out (k e) (retainPublishedFailure e s')))"
    using retain [of s' e] trans by blast
  with i trans show ?case by auto
next
  case (MEffect f k)
  show ?case by (auto intro: then_effect [of f] MEffect)
qed (auto intro: refl retain)

lemma chain:
  assumes base: "\<And>out q s. (\<And>c s. R s (snd (out c s))) \<Longrightarrow> R s (snd (model_base url canon h layers model out q s))"
  shows "(\<And>c s. R s (snd (out c s))) \<Longrightarrow> R s (snd (model_chain url canon h layers model ls out q s))"
proof (induction ls arbitrary: out q s)
  case (Cons l ls)
  then show ?case by (cases "ml_wrap l") (auto intro!: wrapper Cons.IH)
qed (simp add: base)

end

subsection \<open>The kernel's log is out of reach\<close>

text \<open>No part of an invocation commits records, runs tools or announces the end of a run.\<close>

fun terminal_event :: "event \<Rightarrow> bool" where
  "terminal_event EventRunCompleted = True"
| "terminal_event (EventRunFailed _) = True"
| "terminal_event _ = False"

definition same_facts :: "'w world \<Rightarrow> 'w world \<Rightarrow> bool" where
  "same_facts w w' \<longleftrightarrow> w_log w' = w_log w \<and> w_executed w' = w_executed w \<and>
     filter terminal_event (w_events w') = filter terminal_event (w_events w)"

lemma same_facts_refl [simp]: "same_facts w w"
  by (simp add: same_facts_def)

lemma same_facts_trans: "same_facts w1 w2 \<Longrightarrow> same_facts w2 w3 \<Longrightarrow> same_facts w1 w3"
  by (simp add: same_facts_def)

definition same_log :: "('w, 'p, 'm) invocation_scheme \<Rightarrow> ('w, 'p, 'm) invocation_scheme \<Rightarrow> bool" where
  "same_log s s' \<longleftrightarrow> same_facts (iv_world s) (iv_world s')"

lemma call_ext_same [simp]:
  "w_log (snd (call_ext f w)) = w_log w" "w_executed (snd (call_ext f w)) = w_executed w" "w_events (snd (call_ext f w)) = w_events w"
  by (simp_all add: call_ext_def split: prod.split)

interpretation log_kept: invocation_relation same_log
  by unfold_locales (auto simp: same_log_def same_facts_def refuse_next_def retainPublishedFailure_def Let_def)

lemma do_poll_facts: "do_poll h w = (e, w') \<Longrightarrow> same_facts w w'"
  by (auto simp: same_facts_def)

lemma poll_ctx_same: "poll_ctx h s = (e, s') \<Longrightarrow> same_log s s'"
  by (auto simp: poll_ctx_def same_log_def intro: do_poll_facts split: prod.splits)

lemma log_kept_base:
  assumes "\<And>c s. same_log s (snd (out c s))"
  shows "same_log s (snd (model_base url canon h layers model out q s))"
proof -
  have actual: "same_log t (snd (actual_stream h model out q t))" for t
  proof -
    obtain r s1 where r: "run_stream out (model q) None t = (r, s1)" by fastforce
    obtain e cb where e: "r = (e, cb)" by fastforce
    obtain c s2 where c: "poll_ctx h s1 = (c, s2)" by fastforce
    have "same_log t s1" using log_kept.stream [of out t "model q" None] assms r by simp
    then show ?thesis
      using poll_ctx_same [OF c] r c e by (auto simp: actual_stream_def same_log_def Let_def intro: same_facts_trans)
  qed
  have "same_log t (snd (attempt_model url canon h layers model out q t))" for t
  proof -
    obtain c s1 where c: "poll_ctx h t = (c, s1)" by fastforce
    obtain a s2 where a: "admit_model layers q s1 = (a, s2)" by fastforce
    obtain d s3 where d: "poll_ctx h s2 = (d, s3)" by fastforce
    have "same_log t s1" "same_log s1 s2" "same_log s2 s3"
      using poll_ctx_same [OF c] poll_ctx_same [OF d] log_kept.admit [of s1 layers q] a by simp_all
    with actual [of s3] c a d show ?thesis
      by (auto simp: attempt_model_def same_log_def intro: same_facts_trans split: option.split)
  qed
  from this [of s] show ?thesis
    by (auto simp: model_base_def log_kept.refl split: prod.split intro: log_kept.trans [OF _ log_kept.retain])
qed


subsection \<open>A published failure is final\<close>

text \<open>
  \<open>admitted\<close>: every admission hook approved this very request in some state. \<open>sound\<close>: the streams so far
  were of valid, admitted requests, and one that failed after a chunk had been delivered is retained,
  with nothing delivered since.
\<close>

definition admitted :: "'w model_layer list \<Rightarrow> model_request \<Rightarrow> bool" where
  "admitted layers q \<longleftrightarrow> (\<forall>l \<in> set layers. \<forall>f. ml_admit l = Some f \<longrightarrow> (\<exists>x x'. f q x = (None, x')))"

definition sound_stream :: "url_parser \<Rightarrow> (string \<Rightarrow> string) \<Rightarrow> 'w model_layer list \<Rightarrow> ('w, 'p, 'm) invocation_scheme \<Rightarrow>
    model_request \<times> go_error option \<times> nat \<Rightarrow> bool" where
  "sound_stream url canon layers s = (\<lambda>(q, e, n).
     validateModelRequest url canon q = None \<and> admitted layers q \<and>
     (\<forall>x. e = Some x \<and> n > 0 \<longrightarrow> errors_is (iv_failure s) x \<and> n = length (iv_out s)))"

definition sound :: "url_parser \<Rightarrow> (string \<Rightarrow> string) \<Rightarrow> 'w model_layer list \<Rightarrow> ('w, 'p, 'm) invocation_scheme \<Rightarrow> bool" where
  "sound url canon layers s \<longleftrightarrow> (iv_published s \<longleftrightarrow> iv_out s \<noteq> []) \<and> (\<forall>x \<in> set (iv_streams s). sound_stream url canon layers s x)"

definition honest :: "url_parser \<Rightarrow> (string \<Rightarrow> string) \<Rightarrow> 'w model_layer list \<Rightarrow> ('w, 'p, 'm) invocation_scheme \<Rightarrow> ('w, 'p, 'm) invocation_scheme \<Rightarrow> bool" where
  "honest url canon layers s s' \<longleftrightarrow>
     (sound url canon layers s \<longrightarrow> sound url canon layers s') \<and>
     (iv_failure s \<noteq> None \<longrightarrow> iv_failure s' \<noteq> None \<and> iv_out s' = iv_out s)"

lemma merge_Some [simp]: "(\<exists>y. mergeInvocationErrors a b = Some y) \<longleftrightarrow> a \<noteq> None \<or> b \<noteq> None"
  using mergeInvocationErrors_None_iff [of a b] by (cases "mergeInvocationErrors a b") auto

lemma sound_step:
  assumes "iv_published s' = iv_published s" "iv_out s' = iv_out s" "iv_streams s' = iv_streams s"
    and "\<And>x. errors_is (iv_failure s) x \<Longrightarrow> errors_is (iv_failure s') x" "iv_failure s \<noteq> None \<Longrightarrow> iv_failure s' \<noteq> None"
  shows "honest url canon layers s s'"
  using assms by (auto simp: honest_def sound_def sound_stream_def)

interpretation honesty: invocation_relation "honest url canon layers"
proof (unfold_locales, goal_cases)
  case (2 s t u)
  then show ?case by (auto simp: honest_def)
next
  case (4 s)
  show ?case by (rule sound_step) (auto simp: refuse_next_def Let_def intro: merge_keeps_left)
next
  case (5 s e)
  show ?case by (rule sound_step) (auto simp: retainPublishedFailure_def intro: merge_keeps_left)
next
  case (3 s x)
  show ?case by (rule sound_step) simp_all
qed (simp add: honest_def)

lemma poll_ctx_honest: "poll_ctx h s = (e, s') \<Longrightarrow> honest url canon layers s s'"
  by (rule sound_step) (auto simp: poll_ctx_def split: prod.splits)

lemma admit_model_admits:
  "admit_model ls q s = (None, s') \<Longrightarrow> \<forall>l \<in> set ls. \<forall>f. ml_admit l = Some f \<longrightarrow> (\<exists>x x'. f q x = (None, x'))"
proof (induction ls arbitrary: s)
  case (Cons l ls)
  show ?case
  proof (cases "ml_admit l")
    case (Some f)
    obtain e w where c: "call_ext (f q) (iv_world s) = (e, w)" by fastforce
    with Cons.prems Some have "e = None" "admit_model ls q (s\<lparr>iv_world := w\<rparr>) = (None, s')" by (cases e; auto)+
    moreover have "\<exists>x x'. f q x = (None, x')" using c \<open>e = None\<close> by (auto simp: call_ext_def split: prod.splits)
    ultimately show ?thesis using Cons.IH Some by auto
  next
    case None
    with Cons show ?thesis by auto
  qed
qed simp

text \<open>The end of an actual stream: its failure, if anything was delivered, is retained at once.\<close>

lemma sound_after_stream:
  assumes "sound url canon layers s" "validateModelRequest url canon q = None" "admitted layers q"
  shows "sound url canon layers (retainPublishedFailure err (s\<lparr>iv_streams := iv_streams s @ [(q, err, length (iv_out s))]\<rparr>))"
proof -
  let ?s = "s\<lparr>iv_streams := iv_streams s @ [(q, err, length (iv_out s))]\<rparr>"
  let ?t = "retainPublishedFailure err ?s"
  have same: "iv_published ?t = iv_published s" "iv_out ?t = iv_out s" "iv_streams ?t = iv_streams s @ [(q, err, length (iv_out s))]"
    by (simp_all add: retainPublishedFailure_def)
  have keep: "errors_is (iv_failure ?t) x" if "errors_is (iv_failure s) x" for x
    using that by (auto simp: retainPublishedFailure_def intro: merge_keeps_left)
  have new: "errors_is (iv_failure ?t) x" if "err = Some x" "iv_out s \<noteq> []" for x
    using that assms(1) by (auto simp: retainPublishedFailure_def sound_def errors_is_def [of "Some x"] intro: merge_keeps_right)
  show ?thesis
    unfolding sound_def same using assms keep new by (auto simp: sound_def sound_stream_def same)
qed

lemma honest_attempt:
  assumes out: "\<And>c s. honest url canon layers s (snd (out c s))"
    and a: "attempt_model url canon h layers model out q s = (e, s')"
  shows "honest url canon layers s (retainPublishedFailure e s')"
proof -
  obtain c s1 where c: "poll_ctx h s = (c, s1)" by fastforce
  obtain v s2 where v: "admit_model layers q s1 = (v, s2)" by fastforce
  obtain d s3 where d: "poll_ctx h s2 = (d, s3)" by fastforce
  obtain r s4 where r: "run_stream out (model q) None s3 = (r, s4)" by fastforce
  obtain g cb where g: "r = (g, cb)" by fastforce
  obtain k s5 where k: "poll_ctx h s4 = (k, s5)" by fastforce
  have h1: "honest url canon layers s s1" by (rule poll_ctx_honest [OF c])
  have h2: "honest url canon layers s s2" using h1 honesty.admit [of url canon layers s1 layers q] v honesty.trans by fastforce
  have h3: "honest url canon layers s s3" using h2 poll_ctx_honest [OF d] honesty.trans by blast
  have "honest url canon layers s s4"
    using h3 honesty.stream [where out = out and p = "model q" and cb = None and s = s3] out r honesty.trans by fastforce
  then have h5: "honest url canon layers s s5" using poll_ctx_honest [OF k] honesty.trans by blast
  let ?err = "errors_join [g, cb, k]"
  have early: ?thesis if "honest url canon layers s s'" using that honesty.retain honesty.trans by blast
  show ?thesis
  proof (cases "c = None \<and> validateModelRequest url canon q = None \<and> v = None \<and> d = None")
    case False
    then have "s' = s1 \<or> s' = s2 \<or> s' = s3" using a c v d by (auto simp: attempt_model_def split: option.splits)
    with h1 h2 h3 early show ?thesis by blast
  next
    case True
    then have s': "s' = s5\<lparr>iv_streams := iv_streams s5 @ [(q, ?err, length (iv_out s5))]\<rparr>" "e = ?err"
      using a c v d r g k by (auto simp: attempt_model_def actual_stream_def Let_def)
    have "admitted layers q" using admit_model_admits [of layers q s1 s2] v True by (simp add: admitted_def)
    with h5 True sound_after_stream [of url canon layers s5 q ?err] show ?thesis
      unfolding s' by (auto simp: honest_def retainPublishedFailure_def)
  qed
qed

lemma honest_base:
  "(\<And>c s. honest url canon layers s (snd (out c s))) \<Longrightarrow> honest url canon layers s (snd (model_base url canon h layers model out q s))"
  using honest_attempt [of url canon layers out h model q s] by (auto simp: model_base_def honesty.refl split: prod.split)

text \<open>A callback that leaves the bookkeeping of the invocation alone.\<close>

definition keeps_invocation :: "('w, 'p, 'm) emitter \<Rightarrow> bool" where
  "keeps_invocation emit \<longleftrightarrow> (\<forall>c s. iv_published (snd (emit c s)) = iv_published s \<and> iv_failure (snd (emit c s)) = iv_failure s \<and>
     iv_out (snd (emit c s)) = iv_out s \<and> iv_streams (snd (emit c s)) = iv_streams s)"

lemma honest_publish:
  assumes "keeps_invocation emit"
  shows "honest url canon layers s (snd (publish_chunk emit c s))"
proof (cases "iv_failure s")
  case None
  have no: "\<not> errors_is None x" for x by (simp add: errors_is_def)
  have "sound url canon layers (s\<lparr>iv_published := True, iv_out := iv_out s @ [c]\<rparr>)" if "sound url canon layers s"
    using that None no by (auto simp: sound_def sound_stream_def)
  moreover have "honest url canon layers t (snd (emit c t))" for t
    using assms by (intro sound_step) (auto simp: keeps_invocation_def)
  ultimately show ?thesis using None by (auto simp: publish_chunk_def honest_def)
qed (simp add: publish_chunk_def honesty.refl)

lemma streams_are_sound:
  assumes "keeps_invocation emit" "iv_published s = (iv_out s \<noteq> [])" "iv_streams s = []"
    and "wrapped_Stream url canon h layers model emit q s = (r, s')"
  shows "sound url canon layers s'" and "errors_is (iv_failure s') x \<Longrightarrow> errors_is r x"
proof -
  obtain e where e: "model_chain url canon h layers model layers (publish_chunk emit) q s = (e, s')" "r = mergeInvocationErrors e (iv_failure s')"
    using assms(4) by (auto simp: wrapped_Stream_def split: prod.splits)
  have "honest url canon layers s (snd (model_chain url canon h layers model layers (publish_chunk emit) q s))"
    by (rule honesty.chain) (auto intro: honest_base honest_publish [OF assms(1)])
  moreover have "sound url canon layers s" using assms(2,3) by (simp add: sound_def)
  ultimately show "sound url canon layers s'" using e(1) by (simp add: honest_def)
  show "errors_is (iv_failure s') x \<Longrightarrow> errors_is r x" unfolding e(2) by (rule merge_keeps_right)
qed

text \<open>
  C4. A model attempt that failed after its output had been published cannot be repaired. Whatever
  the model and the wrappers do - retry, swallow the error, emit on their own, answer with their
  own error - the invocation returns an error that contains the failure, and nothing is
  published after it. And only valid requests that every admission hook approved reach the model.
\<close>

theorem published_failure_is_final:
  assumes "keeps_invocation emit" "iv_published s = (iv_out s \<noteq> [])" "iv_streams s = []"
    and "wrapped_Stream url canon h layers model emit q s = (r, s')"
  shows "\<forall>(q, e, n) \<in> set (iv_streams s'). validateModelRequest url canon q = None \<and> admitted layers q \<and>
     (\<forall>x. e = Some x \<and> n > 0 \<longrightarrow> errors_is r x \<and> n = length (iv_out s'))"
  using streams_are_sound [OF assms] by (fastforce simp: sound_def sound_stream_def)

text \<open>A witness: the model fails after one chunk; a wrapper calls it again, emits and reports success.\<close>

definition broken_model :: "model_request \<Rightarrow> unit stream_prog" where
  "broken_model q = SEmit (text_chunk ''a'') (\<lambda>_. SReturn (Some (ErrNew ''reset'')))"

definition stubborn_layer :: "unit model_layer" where
  "stubborn_layer = \<lparr>ml_name = ''retry'', ml_admit = None,
     ml_wrap = Some (\<lambda>q. MNext q (\<lambda>c. SEmit c SReturn) (\<lambda>_. MNext q (\<lambda>c. SEmit c SReturn) (\<lambda>_. MEmit (text_chunk ''b'') (\<lambda>_. MReturn None))))\<rparr>"

definition empty_request :: model_request where
  "empty_request = \<lparr>mq_messages = [], mq_tools = [], mq_config = blank_config\<rparr>"

definition quiet_host :: "(unit \<times> unit) host" where
  "quiet_host = \<lparr>h_session = ''s'', h_poll = (\<lambda>w. (None, w)), h_commit = (\<lambda>d rs w. (Inr rs, w)), h_emit = (\<lambda>e w. (None, w)),
     h_execute = (\<lambda>s t c w. ((ToolResult [] [] False, None), w)), h_on_message = (\<lambda>m w. (None, w)), h_observe = (\<lambda>c w. w), h_order = (\<lambda>w. [])\<rparr>"

definition fresh_invocation :: "(unit, unit) invocation" where
  "fresh_invocation = \<lparr>iv_world = \<lparr>w_log = [], w_events = [], w_executed = [], w_ext = ((), ())\<rparr>, iv_published = False, iv_failure = None,
     iv_out = [], iv_streams = []\<rparr>"

definition stubborn_run :: "go_error option \<times> (unit, unit) invocation" where
  "stubborn_run = wrapped_Stream (\<lambda>_. None) (\<lambda>s. s) quiet_host [stubborn_layer] broken_model (\<lambda>c s. (None, s)) empty_request fresh_invocation"

lemma stubborn_streams: "iv_streams (snd stubborn_run) = [(empty_request, Some (Joined [ErrNew ''reset'']), 1)]"
  by code_simp

theorem published_failure_is_final_witness:
  "errors_is (fst stubborn_run) (Joined [ErrNew ''reset'']) \<and> length (iv_out (snd stubborn_run)) = 1"
proof -
  have "keeps_invocation (\<lambda>c (s :: (unit, unit) invocation). (None, s))" by (simp add: keeps_invocation_def)
  from published_failure_is_final [OF this, where s = fresh_invocation and r = "fst stubborn_run" and s' = "snd stubborn_run"]
  show ?thesis by (simp add: fresh_invocation_def [symmetric] stubborn_streams) (auto simp: stubborn_run_def fresh_invocation_def)
qed

subsection \<open>The collected response\<close>

lemma collect_chunk_kept:
  "keeps_invocation (collector url marshal h)" "same_log s (snd (collector url marshal h c s))"
  by (auto simp: keeps_invocation_def same_log_def same_facts_def collector_def collect_chunk_def poll_ctx_def chunk_event_def
      split: prod.split option.split chunk_kind.split)

definition pushes :: "url_parser \<Rightarrow> (content_block \<Rightarrow> string result) \<Rightarrow> ('w, 'p) collecting \<Rightarrow> ('w, 'p) collecting \<Rightarrow> bool" where
  "pushes url marshal s s' \<longleftrightarrow> (\<exists>cs. cl_acc s' = foldl (\<lambda>a c. fst (acc_push url marshal a c)) (cl_acc s) cs)"


lemma pushes_same: "cl_acc s' = cl_acc s \<Longrightarrow> pushes url marshal s s'"
  unfolding pushes_def by (intro exI [of _ "[]"]) simp

lemma pushes_trans: "pushes url marshal s t \<Longrightarrow> pushes url marshal t u \<Longrightarrow> pushes url marshal s u"
  unfolding pushes_def by (metis foldl_append)

interpretation pushing: invocation_relation "pushes url marshal"
  by unfold_locales (auto intro: pushes_same pushes_trans simp: refuse_next_def retainPublishedFailure_def Let_def)

lemma pushes_poll: "poll_ctx h s = (e, s') \<Longrightarrow> pushes url marshal s s'"
  by (rule pushes_same) (auto simp: poll_ctx_def split: prod.splits)

lemma pushes_collector: "pushes url marshal s (snd (collector url marshal h c s))"
proof -
  obtain e s1 where p: "poll_ctx h s = (e, s1)" by fastforce
  obtain a f where a: "acc_push url marshal (cl_acc s1) c = (a, f)" by fastforce
  have one: "pushes url marshal s t" if "cl_acc t = a" for t
    unfolding pushes_def using that a p by (intro exI [of _ "[c]"]) (auto simp: poll_ctx_def split: prod.splits)
  have "cl_acc s1 = cl_acc s" using p by (auto simp: poll_ctx_def split: prod.splits)
  then have "cl_acc (snd (collector url marshal h c s)) = cl_acc s \<or> cl_acc (snd (collector url marshal h c s)) = a"
    using p a by (cases e; cases f) (simp_all add: collector_def collect_chunk_def split: prod.split option.split)
  then show ?thesis using one pushes_same by blast
qed

lemma pushes_base:
  assumes out: "\<And>c s. pushes url marshal s (snd (out c s))"
  shows "pushes url marshal s (snd (model_base url' canon h layers model out q s))"
proof -
  have actual: "pushes url marshal t (snd (actual_stream h model out q t))" for t
  proof -
    obtain r s1 where r: "run_stream out (model q) None t = (r, s1)" by fastforce
    obtain e cb where e: "r = (e, cb)" by fastforce
    obtain c s2 where c: "poll_ctx h s1 = (c, s2)" by fastforce
    have "pushes url marshal t s1" using pushing.stream [where out = out and p = "model q" and cb = None and s = t] out r by fastforce
    then have "pushes url marshal t s2" using pushes_poll [OF c] by (rule pushes_trans)
    moreover have "cl_acc (snd (actual_stream h model out q t)) = cl_acc s2" using r e c by (simp add: actual_stream_def Let_def)
    ultimately show ?thesis by (metis pushes_same pushes_trans)
  qed
  have "pushes url marshal t (snd (attempt_model url' canon h layers model out q t))" for t
  proof -
    obtain c s1 where c: "poll_ctx h t = (c, s1)" by fastforce
    obtain a s2 where a: "admit_model layers q s1 = (a, s2)" by fastforce
    obtain d s3 where d: "poll_ctx h s2 = (d, s3)" by fastforce
    have 1: "pushes url marshal t s1" by (rule pushes_poll [OF c])
    have 2: "pushes url marshal t s2" using 1 pushing.admit [where s = s1 and ls = layers and q = q] a pushes_trans by fastforce
    have 3: "pushes url marshal t s3" using 2 pushes_poll [OF d] by (rule pushes_trans)
    with 1 2 actual [of s3] c a d show ?thesis
      by (auto simp: attempt_model_def intro: pushes_trans split: option.split)
  qed
  from this [of s] show ?thesis
    by (auto simp: model_base_def pushing.refl split: prod.split intro: pushes_trans [OF _ pushing.retain])
qed

lemma wrapped_Stream_kept:
  assumes "wrapped_Stream url canon h layers model (collector url marshal h) q s = (r, s')"
  shows "same_log s s' \<and> pushes url marshal s s'"
proof -
  let ?out = "publish_chunk (collector url marshal h)"
  have same: "same_log t (snd (?out c t))" for c t
    using collect_chunk_kept(2) [of "t\<lparr>iv_published := True, iv_out := iv_out t @ [c]\<rparr>" url marshal h c]
    by (auto simp: publish_chunk_def same_log_def)
  have push: "pushes url marshal t (snd (?out c t))" for c t
    using pushes_collector [of url marshal "t\<lparr>iv_published := True, iv_out := iv_out t @ [c]\<rparr>" h c]
    by (auto simp: publish_chunk_def pushes_def intro: exI [of _ "[]"])
  have "same_log s (snd (model_chain url canon h layers model layers ?out q s))"
    by (rule log_kept.chain) (auto intro: log_kept_base same)
  moreover have "pushes url marshal s (snd (model_chain url canon h layers model layers ?out q s))"
    by (rule pushing.chain) (auto intro: pushes_base push)
  ultimately show ?thesis using assms by (auto simp: wrapped_Stream_def split: prod.splits)
qed

lemma collectObserved_world:
  assumes "collectObserved url canon marshal h layers model q maxBytes w = (rp, s)"
  shows "same_facts w (iv_world s)"
    and "\<exists>chunks. rp_message rp = acc_snapshot (acc_run url marshal maxBytes chunks)"
    and "rp_error rp = None \<Longrightarrow> responseCalls url (rp_message rp) = Inr (rp_calls rp)"
proof -
  obtain err s1 where w: "wrapped_Stream url canon h layers model (collector url marshal h) q (start_collecting maxBytes w) = (err, s1)"
    by fastforce
  note kept = wrapped_Stream_kept [OF w]
  obtain clean s2 where c: "(if err \<noteq> None \<or> cl_err s1 \<noteq> None then (False, s1) else (case poll_ctx h s1 of (c, s) \<Rightarrow> (c = None, s))) = (clean, s2)"
    by fastforce
  have s2: "same_log s1 s2" "cl_acc s2 = cl_acc s1"
    using c by (auto simp: poll_ctx_def same_log_def intro: do_poll_facts split: prod.splits if_splits)
  obtain m fe where m: "(if clean then acc_finish (cl_acc s2) else (acc_snapshot (cl_acc s2), None)) = (m, fe)" by fastforce
  have snap: "m = acc_snapshot (cl_acc s2)" using m by (auto simp: acc_finish_def split: if_splits)
  let ?err = "errors_join [err, cl_err s2, fe]"
  have res: "rp = \<lparr>rp_message = m, rp_calls = (case responseCalls url m of Inl _ \<Rightarrow> [] | Inr cs \<Rightarrow> cs), rp_error = errors_join [?err, err_of (responseCalls url m)]\<rparr>"
    "s = s2"
    using assms w c m by (auto simp: collectObserved_def Let_def)
  show "same_facts w (iv_world s)"
    using kept s2(1) by (auto simp: res same_log_def start_collecting_def intro: same_facts_trans)
  show "\<exists>chunks. rp_message rp = acc_snapshot (acc_run url marshal maxBytes chunks)"
    using kept s2(2) by (auto simp: res snap pushes_def acc_run_def start_collecting_def)
  show "rp_error rp = None \<Longrightarrow> responseCalls url (rp_message rp) = Inr (rp_calls rp)"
    by (auto simp: res errors_join_none2 err_of_def split: sum.splits)
qed

end
