(* ===== verification/Agent_Loop.thy ===== *)
theory Agent_Loop
  imports Model_Invoke Tool_Prepare Tool_Execute Context_Runtime
begin

section \<open>The agent loop\<close>

text \<open>
  sdk/kernel/core/loop.go: \<open>DefaultAgentLoop.Run\<close>, composed of the components it calls: the context
  runtime, the model onion, preparation, the tool batch with its executed calls, and the record
  helpers. Everything outside the kernel is in \<open>loop_env\<close>: functions over the external state \<open>'w\<close>
  that may fail at any time. The context runtime is kernel state beside \<open>'w\<close>. A log handle is
  comparable, so it is touched once. A run has no diagnostic observer; nil checks through
  reflection have no counterpart. \<open>Bus\<close> is not modelled: capabilities are looked up by tools.
\<close>

record 'w loop_layer = "'w model_layer" +
  ly_run_start :: "('w \<Rightarrow> go_error option \<times> 'w) option"
  ly_run_end :: "(go_error option \<Rightarrow> 'w \<Rightarrow> go_error option \<times> 'w) option"
  ly_input_committed :: "(message \<Rightarrow> 'w \<Rightarrow> go_error option \<times> 'w) option"
  ly_before_model :: "(string \<Rightarrow> model_request \<Rightarrow> 'w \<Rightarrow> (go_error option \<times> model_request) \<times> 'w) option"
  ly_after_model :: "(string \<Rightarrow> message \<Rightarrow> 'w \<Rightarrow> (go_error option \<times> message) \<times> 'w) option"
  ly_prepare :: "'w prepare_hook option"
  ly_tool :: "'w middleware"

text \<open>
  The first fields are the standard library's functions and the caller's context, event callback and
  log operations (\<open>AppendRecords\<close>, \<open>Messages\<close>, \<open>Flush\<close>); then the run's state (\<open>State.Session()\<close>,
  \<open>State.Model()\<close>, \<open>State.Tools()\<close>, which middleware may replace); then the bound tools: what
  \<open>Execute\<close> does, and the descriptors with the copy of the call each leaves behind.
\<close>

record 'w loop_env =
  le_url :: url_parser
  le_canon :: "string \<Rightarrow> string"
  le_marshal :: "content_block \<Rightarrow> string result"
  le_encode :: "content_block list \<Rightarrow> string"
  le_fdiv :: fdiv
  le_new_id :: "'w \<Rightarrow> string result \<times> 'w"
  le_poll :: "'w \<Rightarrow> go_error option \<times> 'w"
  le_emit :: "event \<Rightarrow> 'w \<Rightarrow> go_error option \<times> 'w"
  le_commit :: "log_ref \<Rightarrow> bool \<Rightarrow> session_record list \<Rightarrow> 'w \<Rightarrow> session_record list result \<times> 'w"
  le_messages :: "log_ref \<Rightarrow> 'w \<Rightarrow> message list result \<times> 'w"
  le_flush :: "log_ref \<Rightarrow> 'w \<Rightarrow> go_error option \<times> 'w"
  le_order :: "'w \<Rightarrow> nat list"
  le_log :: "'w \<Rightarrow> log_ref"
  le_model :: "'w \<Rightarrow> model_request \<Rightarrow> 'w stream_prog"
  le_tools :: "'w \<Rightarrow> tool_registry"
  le_execute :: "scheduling \<Rightarrow> tool \<Rightarrow> 'w tool_exec"
  le_effect :: "tool \<Rightarrow> tool_call \<Rightarrow> effect \<times> tool_call"
  le_scheduling :: "tool \<Rightarrow> tool_call \<Rightarrow> scheduling \<times> tool_call"
  le_read_only :: "tool \<Rightarrow> tool_call \<Rightarrow> bool \<times> tool_call"

text \<open>\<open>RunConfig\<close>\<close>

record 'w run_config =
  rc_layers :: "'w loop_layer list"
  rc_prompt :: string
  rc_max_iterations :: int
  rc_max_bytes :: int
  rc_workspace :: string
  rc_system :: "'w context_system option"
  rc_source :: "(log_ref \<Rightarrow> 'w \<Rightarrow> message list result \<times> 'w) option"
  rc_max_tools :: int
  rc_model :: model_config

type_synonym 'w kernel = "('w \<times> context_runtime) world"

definition lift_ext :: "('w \<Rightarrow> 'a \<times> 'w) \<Rightarrow> 'w \<times> context_runtime \<Rightarrow> 'a \<times> ('w \<times> context_runtime)" where
  "lift_ext f x = (case f (fst x) of (r, y) \<Rightarrow> (r, (y, snd x)))"

text \<open>The context runtime's \<open>OnMessage\<close>, with its reading of the context.\<close>

definition deliver_message :: "'w loop_env \<Rightarrow> 'w run_config \<Rightarrow> message \<Rightarrow> 'w \<times> context_runtime \<Rightarrow> go_error option \<times> ('w \<times> context_runtime)" where
  "deliver_message env cfg m x =
     (case le_poll env (fst x) of (canceled, y) \<Rightarrow>
       (case runtime_OnMessage (le_encode env) canceled (rc_system cfg) m (snd x) y of (e, rt, y) \<Rightarrow> (e, (y, rt))))"

text \<open>What the batch coordinator runs against: the run's log and the tool onion.\<close>

definition loop_host :: "'w loop_env \<Rightarrow> 'w run_config \<Rightarrow> log_ref \<Rightarrow> ('w \<times> context_runtime) host" where
  "loop_host env cfg lg =
     \<lparr>h_session = lr_id lg,
      h_poll = lift_ext (le_poll env),
      h_commit = (\<lambda>detached rs. lift_ext (le_commit env lg detached rs)),
      h_emit = (\<lambda>ev. lift_ext (le_emit env ev)),
      h_execute = (\<lambda>sched tool call. lift_ext (\<lambda>x.
        (case executeTool (map_option (le_execute env sched) tool) (map ly_tool (rc_layers cfg)) call x of (r, s) \<Rightarrow> (r, xs_world s)))),
      h_on_message = deliver_message env cfg,
      h_observe = (\<lambda>call x. x),
      h_order = (\<lambda>x. le_order env (fst x))\<rparr>"

subsection \<open>Hook phases\<close>

text \<open>\<open>invokeHookPhase\<close>: layers without the hook are passed over; the first failure ends the phase.\<close>

fun hook_phase :: "('a \<Rightarrow> 'w \<Rightarrow> (go_error option \<times> 'a) \<times> 'w) option list \<Rightarrow> 'a \<Rightarrow> ('w \<times> 'p) world \<Rightarrow> (go_error option \<times> 'a) \<times> ('w \<times> 'p) world" where
  "hook_phase [] a w = ((None, a), w)"
| "hook_phase (None # hs) a w = hook_phase hs a w"
| "hook_phase (Some f # hs) a w =
     (case call_ext (f a) w of
        ((Some e, a), w) \<Rightarrow> ((Some e, a), w)
      | ((None, a), w) \<Rightarrow> hook_phase hs a w)"

definition plain_hook :: "('w \<Rightarrow> go_error option \<times> 'w) option \<Rightarrow> (unit \<Rightarrow> 'w \<Rightarrow> (go_error option \<times> unit) \<times> 'w) option" where
  "plain_hook h = map_option (\<lambda>f a x. (case f x of (e, x) \<Rightarrow> ((e, ()), x))) h"

definition plain_phase :: "('w \<Rightarrow> go_error option \<times> 'w) option list \<Rightarrow> ('w \<times> 'p) world \<Rightarrow> go_error option \<times> ('w \<times> 'p) world" where
  "plain_phase hs w = (case hook_phase (map plain_hook hs) () w of ((e, _), w) \<Rightarrow> (e, w))"

text \<open>The run-end hooks all run, from the last layer to the first; each sees the error so far.\<close>

fun end_hooks :: "(go_error option \<Rightarrow> 'w \<Rightarrow> go_error option \<times> 'w) option list \<Rightarrow> go_error option \<Rightarrow> ('w \<times> 'p) world \<Rightarrow> go_error option \<times> ('w \<times> 'p) world" where
  "end_hooks [] err w = (err, w)"
| "end_hooks (None # hs) err w = end_hooks hs err w"
| "end_hooks (Some f # hs) err w = (case call_ext (f err) w of (e, w) \<Rightarrow> end_hooks hs (errors_join [err, e]) w)"

definition touch :: "log_ref \<Rightarrow> log_ref list \<Rightarrow> log_ref list" where
  "touch lg lgs = (if lg \<in> set lgs then lgs else lgs @ [lg])"

definition runtime_of :: "'w kernel \<Rightarrow> context_runtime" where
  "runtime_of w = snd (w_ext w)"

definition set_runtime :: "context_runtime \<Rightarrow> 'w kernel \<Rightarrow> 'w kernel" where
  "set_runtime rt w = w\<lparr>w_ext := (fst (w_ext w), rt)\<rparr>"

definition bootstrap_runtime :: "'w run_config \<Rightarrow> log_ref \<Rightarrow> 'w kernel \<Rightarrow> go_error option \<times> 'w kernel" where
  "bootstrap_runtime cfg lg w =
     (let rt = NewContextRuntime (lr_id lg) in call_ext (runtime_Bootstrap (rc_system cfg) rt) (set_runtime rt w))"


subsection \<open>The request of an iteration\<close>

text \<open>\<open>ContextRuntime.Load\<close> with the reads it makes: the source, or else the log's own view.\<close>

definition load_view :: "'w loop_env \<Rightarrow> 'w run_config \<Rightarrow> log_ref \<Rightarrow> 'w kernel \<Rightarrow> message list result \<times> 'w kernel" where
  "load_view env cfg lg w =
     (let load = (\<lambda>canceled late view. runtime_Load (le_url env) canceled late (runtime_of w) (lr_id lg) view
            (map_option (\<lambda>_. view) (rc_source cfg)));
          (canceled, w) = do_poll (loop_host env cfg lg) w in
      if canceled \<noteq> None \<or> lr_id lg = [] \<or> lr_id lg \<noteq> cr_agent (runtime_of w) then (load canceled None (Inr []), w)
      else (case call_ext (case rc_source cfg of Some f \<Rightarrow> f lg | None \<Rightarrow> le_messages env lg) w of
          (Inl e, w) \<Rightarrow> (load None None (Inl e), w)
        | (Inr ms, w) \<Rightarrow> (case do_poll (loop_host env cfg lg) w of (late, w) \<Rightarrow> (load None late (Inr ms), w))))"

definition stable_prompt :: "'w run_config \<Rightarrow> string" where
  "stable_prompt cfg = rc_prompt cfg @ concat (map (\<lambda>a. [CHR 0x0A, CHR 0x0A] @ a) (filter (\<lambda>a. a \<noteq> []) (mc_additions (rc_model cfg))))"

definition prepare_view :: "'w loop_env \<Rightarrow> 'w run_config \<Rightarrow> message list \<Rightarrow> 'w kernel \<Rightarrow> (string list \<times> message list) result \<times> 'w kernel" where
  "prepare_view env cfg ms w =
     (case runtime_Prepare (le_encode env) (le_fdiv env) (rc_system cfg) [stable_prompt cfg, []] ms (runtime_of w) (fst (w_ext w)) of
        (r, rt, x) \<Rightarrow> (r, w\<lparr>w_ext := (x, rt)\<rparr>))"

definition first_request :: "'w run_config \<Rightarrow> tool_registry_snapshot \<Rightarrow> string list \<Rightarrow> message list \<Rightarrow> model_request" where
  "first_request cfg snap prompts working =
     \<lparr>mq_messages = map (TextMessage RoleSystem) (filter (\<lambda>p. p \<noteq> []) prompts) @ working,
      mq_tools = filter (\<lambda>d. config_AllowsTool (rc_model cfg) (td_name d)) (ts_definitions snap),
      mq_config = rc_model cfg\<rparr>"

definition allowed_tools :: "'w run_config \<Rightarrow> model_request \<Rightarrow> model_request" where
  "allowed_tools cfg q =
     q\<lparr>mq_tools := filter (\<lambda>d. config_AllowsTool (rc_model cfg) (td_name d) \<and> config_AllowsTool (mq_config q) (td_name d)) (mq_tools q)\<rparr>"

definition build_request :: "'w loop_env \<Rightarrow> 'w run_config \<Rightarrow> log_ref \<Rightarrow> tool_registry_snapshot \<Rightarrow> 'w kernel \<Rightarrow> model_request result \<times> 'w kernel" where
  "build_request env cfg lg snap w =
     (case load_view env cfg lg w of
        (Inl e, w) \<Rightarrow> (Inl (if rc_source cfg = None then e else SessionError ''context_source'' (lr_id lg) e), w)
      | (Inr ms, w) \<Rightarrow>
        (case prepare_view env cfg ms w of
           (Inl e, w) \<Rightarrow> (Inl e, w)
         | (Inr (prompts, working), w) \<Rightarrow>
           (case hook_phase (map (\<lambda>l. map_option (\<lambda>f. f (lr_id lg)) (ly_before_model l)) (rc_layers cfg)) (first_request cfg snap prompts working) w of
              ((Some e, _), w) \<Rightarrow> (Inl e, w)
            | ((None, q), w) \<Rightarrow>
              (case config_Validate (le_canon env) (mq_config q) of Some e \<Rightarrow> (Inl e, w) | None \<Rightarrow> (Inr (allowed_tools cfg q), w)))))"

subsection \<open>The model's answer\<close>

text \<open>The stream, the context, the after-model hooks and the check of what they left.\<close>

record answer =
  an_message :: message
  an_calls :: "tool_call list"
  an_usage :: "usage option"
  an_error :: "go_error option"

definition model_answer :: "'w loop_env \<Rightarrow> 'w run_config \<Rightarrow> log_ref \<Rightarrow> (model_request \<Rightarrow> 'w stream_prog) \<Rightarrow> model_request \<Rightarrow> 'w kernel \<Rightarrow> answer \<times> 'w kernel" where
  "model_answer env cfg lg model q w =
     (let h = loop_host env cfg lg;
          (rp, s) = collectObserved (le_url env) (le_canon env) (le_marshal env) h (map model_layer.truncate (rc_layers cfg)) model q (rc_max_bytes cfg) w;
          w = iv_world s;
          usage = m_usage (rp_message rp);
          (err, w) = (if rp_error rp = None then do_poll h w else (rp_error rp, w)) in
      if err \<noteq> None then (\<lparr>an_message = rp_message rp, an_calls = rp_calls rp, an_usage = usage, an_error = err\<rparr>, w)
      else (case hook_phase (map (\<lambda>l. map_option (\<lambda>f. f (lr_id lg)) (ly_after_model l)) (rev (rc_layers cfg))) (rp_message rp) w of
          ((Some e, m), w) \<Rightarrow> (\<lparr>an_message = m, an_calls = rp_calls rp, an_usage = usage, an_error = Some e\<rparr>, w)
        | ((None, m), w) \<Rightarrow>
          (case responseCalls (le_url env) m of
             Inl e \<Rightarrow> (\<lparr>an_message = m, an_calls = [], an_usage = usage, an_error = Some e\<rparr>, w)
           | Inr calls \<Rightarrow> (\<lparr>an_message = m, an_calls = calls, an_usage = usage, an_error = None\<rparr>, w))))"

definition outcome_record :: "string \<Rightarrow> outcome_status \<Rightarrow> string \<Rightarrow> usage option \<Rightarrow> session_record" where
  "outcome_record requestID status e usage =
     model_outcome_record \<lparr>mo_request_id = requestID, mo_status = status, mo_error = e, mo_usage = usage\<rparr>"

text \<open>A failed stream: its outcome and the text it produced; incomplete calls stay out.\<close>

definition failed_stream_records :: "string \<Rightarrow> answer \<Rightarrow> go_error \<Rightarrow> session_record list" where
  "failed_stream_records requestID a e =
     outcome_record requestID (statusFor (Some e)) (err_text e) (an_usage a) #
     (if message_text (an_message a) \<noteq> [] then [conversation_record (TextMessage RoleAssistant (message_text (an_message a)))] else [])"

subsection \<open>Intents\<close>

definition bound_tools :: "'w run_config \<Rightarrow> model_request \<Rightarrow> tool list \<Rightarrow> string \<Rightarrow> tool option" where
  "bound_tools cfg q tools =
     foldl (\<lambda>m t. if list_ex (\<lambda>d. td_name d = tl_name t) (mq_tools q) \<and> config_AllowsTool (rc_model cfg) (tl_name t) \<and>
                     config_AllowsTool (mq_config q) (tl_name t) then m(tl_name t \<mapsto> t) else m) Map.empty tools"

definition blank_scheduling :: scheduling where
  "blank_scheduling = \<lparr>ConcurrentSafe = False, Resources = [], ExecutionMode = ModeUnset, ManagesOwnTimeout = False\<rparr>"

record described =
  de_effect :: effect
  de_scheduling :: scheduling
  de_read_only :: bool
  de_error :: "go_error option"

text \<open>The descriptors of one call; each answers with the copy it was handed.\<close>

definition describe_call :: "'w loop_env \<Rightarrow> tool \<Rightarrow> tool_call \<Rightarrow> described" where
  "describe_call env tool call =
     (let (eff, c1) = le_effect env tool call; (sched, c2) = le_scheduling env tool call; (ro, c3) = le_read_only env tool call;
          mutated = (if c1 \<noteq> call \<or> c2 \<noteq> call \<or> c3 \<noteq> call then Some (ErrNew ''tool descriptor mutated frozen call'') else None) in
      case scheduling_validate sched of
        None \<Rightarrow> \<lparr>de_effect = eff, de_scheduling = sched, de_read_only = ro, de_error = mutated\<rparr>
      | Some e \<Rightarrow> \<lparr>de_effect = eff, de_scheduling = blank_scheduling, de_read_only = ro, de_error = errors_join [mutated, Some e]\<rparr>)"

definition undescribed :: described where
  "undescribed = \<lparr>de_effect = \<lparr>ef_kind = EffectUnknown, ef_description = [], ef_resources = []\<rparr>, de_scheduling = blank_scheduling,
     de_read_only = False, de_error = None\<rparr>"

text \<open>The loop over the calls: after the first failure no descriptor is asked any more.\<close>

fun call_intents :: "'w loop_env \<Rightarrow> (string \<Rightarrow> tool option) \<Rightarrow> (string \<Rightarrow> tool_result option) \<Rightarrow> string \<Rightarrow> nat \<Rightarrow>
    (tool_call \<times> tool_call) list \<Rightarrow> go_error option \<times> nat option \<Rightarrow> tool_intent list \<times> go_error option \<times> nat option" where
  "call_intents env tools results runID i [] failure = ([], failure)"
| "call_intents env tools results runID i ((call, declared) # calls) failure =
     (let d = (case tools (tc_name call) of Some t \<Rightarrow> if fst failure = None then describe_call env t call else undescribed | None \<Rightarrow> undescribed);
          failure = (if de_error d = None then failure else (de_error d, Some i));
          intent = \<lparr>ti_run_id = runID, ti_call = call, ti_declared_call = (if call \<noteq> declared then Some declared else None),
            ti_no_side_effect = (results (tc_id call) \<noteq> None), ti_effect = de_effect d, ti_scheduling = de_scheduling d, ti_read_only = de_read_only d\<rparr>;
          (intents, failure) = call_intents env tools results runID (i + 1) calls failure
      in (intent # intents, failure))"

text \<open>The batch that commits the response: message, outcome, intents, and after a failure their settlement.\<close>

definition response_records :: "string \<Rightarrow> string \<Rightarrow> answer \<Rightarrow> tool_call list \<Rightarrow> tool_intent list \<Rightarrow> go_error option \<Rightarrow> nat option \<Rightarrow> session_record list" where
  "response_records runID requestID a calls intents err failed =
     [conversation_record (an_message a), outcome_record requestID OutcomeSucceeded [] (an_usage a)] @
     (case err of
        None \<Rightarrow> map tool_intent_record intents
      | Some e \<Rightarrow> map (\<lambda>i. tool_intent_record (i\<lparr>ti_no_side_effect := True\<rparr>)) intents @ failedPreparationRecords runID calls failed e)"


subsection \<open>One iteration\<close>

text \<open>What an iteration does next: the run returns, or goes on.\<close>

datatype turn = Return "go_error option" | Continue

text \<open>A commit failure of the response: no intent was committed; the model request is settled.\<close>

definition settle_response :: "('w \<times> context_runtime) host \<Rightarrow> string \<Rightarrow> usage option \<Rightarrow> go_error option \<Rightarrow> go_error \<Rightarrow> 'w kernel \<Rightarrow> turn \<times> 'w kernel" where
  "settle_response h requestID usage err e w =
     (case appendRecords h True [outcome_record requestID (statusFor (Some e)) (err_text e) usage] w of
        (r, w) \<Rightarrow> (Return (errors_join [err, Some (Wrapf ''commit model response and tool intents: '' e), err_of r]), w))"

text \<open>After the commit: events, the context runtime, the tool batch and the end of the turn.\<close>

definition execute_response :: "'w loop_env \<Rightarrow> 'w run_config \<Rightarrow> log_ref \<Rightarrow> string \<Rightarrow> tool_call list \<Rightarrow> (string \<Rightarrow> tool option) \<Rightarrow>
    (string \<Rightarrow> tool_result option) \<Rightarrow> go_error option \<Rightarrow> session_record list \<Rightarrow> 'w kernel \<Rightarrow> turn \<times> 'w kernel" where
  "execute_response env cfg lg runID calls tools results err committed w =
     (let h = loop_host env cfg lg;
          m = the (sr_message (committed ! 0));
          (emit_err, w) = do_emit h (EventMessageCommitted m (record_reference_of (lr_id lg) (committed ! 0))) w in
      if err \<noteq> None then (Return (errors_join [err, emit_err]), w)
      else (case emit_err of
          Some e \<Rightarrow> (case settleUnexecuted h runID calls e w of (se, w) \<Rightarrow> (Return (errors_join [Some e, se]), w))
        | None \<Rightarrow>
          (case deliver_message env cfg m (w_ext w) of
             (Some e, x) \<Rightarrow> (case settleUnexecuted h runID calls e (w\<lparr>w_ext := x\<rparr>) of (se, w) \<Rightarrow> (Return (errors_join [Some e, se]), w))
           | (None, x) \<Rightarrow>
             (case batch_execute (le_url env) h
                  \<lparr>bc_workspace = rc_workspace cfg, bc_limit = rc_max_tools cfg, bc_prepared = results, bc_tools = tools, bc_runtime = True\<rparr>
                  runID calls (drop 2 committed) (w\<lparr>w_ext := x\<rparr>) of
                (Some e, w) \<Rightarrow> (Return (Some e), w)
              | (None, w) \<Rightarrow>
                (case call_ext (runtime_AfterTurn (rc_system cfg) (runtime_of w)) w of
                   (e, w) \<Rightarrow> (if calls = [] \<or> e \<noteq> None then Return e else Continue, w))))))"

definition commit_response :: "'w loop_env \<Rightarrow> 'w run_config \<Rightarrow> log_ref \<Rightarrow> string \<Rightarrow> string \<Rightarrow> model_request \<Rightarrow> tool list \<Rightarrow> answer \<Rightarrow> 'w kernel \<Rightarrow> turn \<times> 'w kernel" where
  "commit_response env cfg lg runID requestID q offered a w =
     (let h = loop_host env cfg lg;
          tools = bound_tools cfg q offered;
          (pr, w) = prepareToolCalls (le_url env) (do_poll h) tools
            (map (\<lambda>l. (ml_name l, map_option (\<lambda>f tool c. call_ext (f tool c)) (ly_prepare l))) (rc_layers cfg)) (an_calls a) w;
          calls = pr_calls pr; results = map_of (pr_results pr);
          (intents, err, failed) = call_intents env tools results runID 0 (zip calls (an_calls a)) (pr_error pr, pr_failed pr) in
      case appendRecords h (err \<noteq> None) (response_records runID requestID a calls intents err failed) w of
        (Inl e, w) \<Rightarrow> settle_response h requestID (an_usage a) err e w
      | (Inr committed, w) \<Rightarrow> execute_response env cfg lg runID calls tools results err committed w)"

definition run_turn :: "'w loop_env \<Rightarrow> 'w run_config \<Rightarrow> string \<Rightarrow> log_ref \<Rightarrow> 'w kernel \<Rightarrow> turn \<times> 'w kernel" where
  "run_turn env cfg runID lg w =
     (let h = loop_host env cfg lg; snap = registry_snapshot (le_tools env (fst (w_ext w))) in
      case build_request env cfg lg snap w of
        (Inl e, w) \<Rightarrow> (Return (Some e), w)
      | (Inr q, w) \<Rightarrow>
        (case call_ext (le_new_id env) w of
           (Inl e, w) \<Rightarrow> (Return (Some e), w)
         | (Inr requestID, w) \<Rightarrow>
           (let model = le_model env (fst (w_ext w)) in
            case appendRecords h False [model_intent_record \<lparr>mi_request_id = requestID\<rparr>] w of
              (Inl e, w) \<Rightarrow> (Return (Some (Wrapf ''commit model intent: '' e)), w)
            | (Inr _, w) \<Rightarrow>
              (case model_answer env cfg lg model q w of
                 (a, w) \<Rightarrow>
                   (case an_error a of
                      Some e \<Rightarrow> (case appendRecords h True (failed_stream_records requestID a e) w of
                          (r, w) \<Rightarrow> (Return (errors_join [Some e, err_of r]), w))
                    | None \<Rightarrow> commit_response env cfg lg runID requestID q (ts_tools snap) a w)))))"

subsection \<open>The run\<close>

record loop_state =
  lp_session :: log_ref
  lp_touched :: "log_ref list"

fun run_loop :: "'w loop_env \<Rightarrow> 'w run_config \<Rightarrow> string \<Rightarrow> nat \<Rightarrow> loop_state \<Rightarrow> 'w kernel \<Rightarrow> (go_error option \<times> loop_state) \<times> 'w kernel" where
  "run_loop env cfg runID 0 st w = ((Some (ErrNew ''maximum agent iterations reached''), st), w)"
| "run_loop env cfg runID (Suc n) st w =
     (case do_poll (loop_host env cfg (lp_session st)) w of
        (Some e, w) \<Rightarrow> ((Some e, st), w)
      | (None, w) \<Rightarrow>
        (let lg = le_log env (fst (w_ext w));
             (boot, w) = (if lr_id lg \<noteq> lr_id (lp_session st) then bootstrap_runtime cfg lg w else (None, w)) in
         if boot \<noteq> None then ((boot, st\<lparr>lp_session := lg\<rparr>), w)
         else (let st = \<lparr>lp_session = lg, lp_touched = touch lg (lp_touched st)\<rparr> in
           case run_turn env cfg runID lg w of
             (Return e, w) \<Rightarrow> ((e, st), w)
           | (Continue, w) \<Rightarrow> run_loop env cfg runID n st w)))"

text \<open>The committed input: hooks and context runtime see each stored message.\<close>

fun input_committed :: "'w loop_env \<Rightarrow> 'w run_config \<Rightarrow> session_record list \<Rightarrow> 'w kernel \<Rightarrow> go_error option \<times> 'w kernel" where
  "input_committed env cfg [] w = (None, w)"
| "input_committed env cfg (r # rs) w =
     (case sr_message r of None \<Rightarrow> input_committed env cfg rs w
      | Some m \<Rightarrow>
        (case plain_phase (map (\<lambda>l. map_option (\<lambda>f. f m) (ly_input_committed l)) (rc_layers cfg)) w of
           (Some e, w) \<Rightarrow> (Some e, w)
         | (None, w) \<Rightarrow>
           (case deliver_message env cfg m (w_ext w) of
              (Some e, x) \<Rightarrow> (Some e, w\<lparr>w_ext := x\<rparr>)
            | (None, x) \<Rightarrow> input_committed env cfg rs (w\<lparr>w_ext := x\<rparr>))))"

definition commit_input :: "'w loop_env \<Rightarrow> 'w run_config \<Rightarrow> log_ref \<Rightarrow> message list \<Rightarrow> 'w kernel \<Rightarrow> go_error option \<times> 'w kernel" where
  "commit_input env cfg lg input w =
     (case first_err (message_validate (le_url env)) input of Some e \<Rightarrow> (Some e, w)
      | None \<Rightarrow>
        if input = [] then (None, w)
        else (case appendRecords (loop_host env cfg lg) False (map conversation_record input) w of
            (Inl e, w) \<Rightarrow> (Some (Wrapf ''commit input: '' e), w)
          | (Inr committed, w) \<Rightarrow> input_committed env cfg committed w))"

text \<open>From the start hooks to the loop: what the deferred cleanup follows.\<close>

definition run_body :: "'w loop_env \<Rightarrow> 'w run_config \<Rightarrow> string \<Rightarrow> message list \<Rightarrow> loop_state \<Rightarrow> 'w kernel \<Rightarrow> (go_error option \<times> loop_state) \<times> 'w kernel" where
  "run_body env cfg runID input st w =
     (case do_poll (loop_host env cfg (lp_session st)) w of
        (Some e, w) \<Rightarrow> ((Some e, st), w)
      | (None, w) \<Rightarrow>
        (case plain_phase (map ly_run_start (rc_layers cfg)) w of
           (Some e, w) \<Rightarrow> ((Some e, st), w)
         | (None, w) \<Rightarrow>
           (let lg = le_log env (fst (w_ext w)); st = \<lparr>lp_session = lg, lp_touched = touch lg (lp_touched st)\<rparr> in
            case bootstrap_runtime cfg lg w of
              (Some e, w) \<Rightarrow> ((Some e, st), w)
            | (None, w) \<Rightarrow>
              (case commit_input env cfg lg input w of
                 (Some e, w) \<Rightarrow> ((Some e, st), w)
               | (None, w) \<Rightarrow>
                 (case do_emit (loop_host env cfg lg) EventRunStarted w of
                    (Some e, w) \<Rightarrow> ((Some e, st), w)
                  | (None, w) \<Rightarrow>
                    run_loop env cfg runID (nat (if rc_max_iterations cfg \<le> 0 then 32 else rc_max_iterations cfg)) st w)))))"

fun flush_logs :: "'w loop_env \<Rightarrow> log_ref list \<Rightarrow> go_error option \<Rightarrow> 'w kernel \<Rightarrow> go_error option \<times> 'w kernel" where
  "flush_logs env [] err w = (err, w)"
| "flush_logs env (l # ls) err w =
     (case call_ext (le_flush env l) w of
        (e, w) \<Rightarrow> flush_logs env ls (case e of None \<Rightarrow> err | Some e \<Rightarrow> errors_join [err, Some (SessionError ''flush'' (lr_id l) e)]) w)"

text \<open>The deferred cleanup: dispose, run-end hooks, flushes, and only then the terminal event.\<close>

definition finish_run :: "'w loop_env \<Rightarrow> 'w run_config \<Rightarrow> go_error option \<Rightarrow> loop_state \<Rightarrow> 'w kernel \<Rightarrow> go_error option \<times> 'w kernel" where
  "finish_run env cfg err st w =
     (let (e, w) = call_ext (runtime_Dispose (rc_system cfg)) w;
          touched = touch (le_log env (fst (w_ext w))) (lp_touched st);
          (err, w) = end_hooks (map ly_run_end (rev (rc_layers cfg))) (errors_join [err, e]) w;
          touched = touch (le_log env (fst (w_ext w))) touched;
          (err, w) = flush_logs env touched err w;
          h = loop_host env cfg (lp_session st);
          (canceled, w) = do_poll h w in
      if canceled \<noteq> None then (err, w)
      else (case do_emit h (case err of None \<Rightarrow> EventRunCompleted | Some e \<Rightarrow> EventRunFailed (err_text e)) w of
          (e, w) \<Rightarrow> (errors_join [err, e], w)))"

definition agent_run :: "'w loop_env \<Rightarrow> 'w run_config \<Rightarrow> message list \<Rightarrow> 'w kernel \<Rightarrow> go_error option \<times> 'w kernel" where
  "agent_run env cfg input w =
     (if lr_id (le_log env (fst (w_ext w))) = [] then (Some (ErrNew ''initialized runtime state is required''), w)
      else case config_Validate (le_canon env) (rc_model cfg) of Some e \<Rightarrow> (Some e, w)
      | None \<Rightarrow>
        (case call_ext (le_new_id env) w of
           (Inl e, w) \<Rightarrow> (Some e, w)
         | (Inr runID, w) \<Rightarrow>
           (let lg = le_log env (fst (w_ext w));
                ((err, st), w) = run_body env cfg runID input \<lparr>lp_session = lg, lp_touched = [lg]\<rparr> (set_runtime (NewContextRuntime (lr_id lg)) w)
            in finish_run env cfg err st w)))"

end
