(* ===== verification/Loop_Facts.thy ===== *)
theory Loop_Facts
  imports Agent_Loop
begin

section \<open>What a run of the agent loop leaves in the log\<close>

text \<open>
  Each part of the loop adds records, starts tools and announces events. \<open>adds n r w w'\<close> says which
  records n and which executions r lie between two worlds, with no end of a run announced.
\<close>

definition adds :: "session_record list \<Rightarrow> tool_call list \<Rightarrow> 'w world \<Rightarrow> 'w world \<Rightarrow> bool" where
  "adds n r w w' \<longleftrightarrow> w_log w' = w_log w @ n \<and> w_executed w' = w_executed w @ r \<and>
     filter terminal_event (w_events w') = filter terminal_event (w_events w)"

lemma adds_facts: "adds [] [] w w' \<longleftrightarrow> same_facts w w'"
  by (simp add: adds_def same_facts_def)

lemma adds_append: "adds n1 r1 w1 w2 \<Longrightarrow> adds n2 r2 w2 w3 \<Longrightarrow> adds (n1 @ n2) (r1 @ r2) w1 w3"
  by (simp add: adds_def)

lemma adds_before: "same_facts w w1 \<Longrightarrow> adds n r w1 w' \<Longrightarrow> adds n r w w'"
  by (simp add: adds_def same_facts_def)

lemma adds_after: "adds n r w w1 \<Longrightarrow> same_facts w1 w' \<Longrightarrow> adds n r w w'"
  by (simp add: adds_def same_facts_def)

lemma append_adds:
  assumes "appendRecords h d rs w = (r, w')"
  shows "(is_err r \<and> same_facts w w') \<or> (\<not> is_err r \<and> adds (map BuiltinRecord rs) [] w w')"
  using appendRecords_log [OF assms] by (auto simp: adds_def same_facts_def)

lemma emit_facts: "do_emit h ev w = (e, w') \<Longrightarrow> \<not> terminal_event ev \<Longrightarrow> same_facts w w'"
  by (auto simp: same_facts_def)

lemma ext_facts [simp]: "same_facts w (w\<lparr>w_ext := x\<rparr>)"
  by (simp add: same_facts_def)

lemma call_facts: "call_ext f w = (r, w') \<Longrightarrow> same_facts w w'"
  by (auto simp: call_ext_def same_facts_def split: prod.splits)

subsection \<open>The batch settles, and nothing else\<close>

text \<open>\<open>quiet\<close> records are those of a settlement: no intent and no model outcome.\<close>

definition quiet :: "session_record \<Rightarrow> bool" where
  "quiet r \<longleftrightarrow> sr_tool_intent r = None \<and> sr_model_intent r = None \<and> sr_model_outcome r = None"

definition quietly :: "'w world \<Rightarrow> 'w world \<Rightarrow> bool" where
  "quietly w w' \<longleftrightarrow> (\<exists>n r. adds n r w w' \<and> list_all quiet n)"

lemma quietly_trans: "quietly w1 w2 \<Longrightarrow> quietly w2 w3 \<Longrightarrow> quietly w1 w3"
  unfolding quietly_def by (metis adds_append list_all_append)

lemma quietly_facts: "same_facts w w' \<Longrightarrow> quietly w w'"
  unfolding quietly_def by (intro exI [of _ "[]"]) (simp add: adds_facts)

lemma quiet_settlement: "list_all quiet (settle_records t)" "list_all quiet (map BuiltinRecord (settle_records t))"
  by (simp_all add: settle_records_def quiet_def tool_outcome_record_def conversation_record_def blank_record_def)

lemma quiet_settlements: "list_all quiet (map BuiltinRecord (concat (map (\<lambda>c. settle_records (f c)) cs)))"
  by (induction cs) (simp_all add: quiet_settlement)

lemma append_quietly: "appendRecords h d rs w = (r, w') \<Longrightarrow> list_all quiet (map BuiltinRecord rs) \<Longrightarrow> quietly w w'"
  using append_adds quietly_facts unfolding quietly_def by metis

lemma notify_quietly: "quietly w (snd (notify_settled h cfg settled records err w))"
proof -
  obtain e x where m: "h_on_message h (the (sr_message (records ! 1))) (w_ext w) = (e, x)" by fastforce
  obtain e2 w2 where 2: "(if bc_runtime cfg then (errors_join [err, e], w\<lparr>w_ext := x\<rparr>) else (err, w)) = (e2, w2)" by fastforce
  obtain e3 w3 where 3: "do_emit h (EventToolCompleted (to_result settled) (record_reference_of (h_session h) (records ! 0))) w2 = (e3, w3)"
    by fastforce
  have "same_facts w w2" using 2 by (auto split: if_splits)
  with emit_facts [OF 3] have "same_facts w w3" by (auto intro: same_facts_trans)
  then show ?thesis using m 2 3 by (auto simp: notify_settled_def Let_def intro: quietly_facts split: if_splits)
qed

lemma settle_call_quietly: "settle_call url h cfg runID call out (e, w) = (e', w') \<Longrightarrow> quietly w w'"
proof -
  assume s: "settle_call url h cfg runID call out (e, w) = (e', w')"
  obtain ca w1 where p: "(if checked_err url call out \<noteq> None then do_poll h w else (None, w)) = (ca, w1)" by fastforce
  then have 1: "same_facts w w1" by (auto intro: do_poll_facts split: if_splits)
  obtain ee settled where f: "final_outcome runID call out (checked_err url call out) ca = (ee, settled)" by fastforce
  obtain r w2 where a: "appendRecords h True (settle_records settled) w1 = (r, w2)" by fastforce
  have 2: "quietly w w2" using quietly_facts [OF 1] append_quietly [OF a quiet_settlement(2)] by (rule quietly_trans)
  define w3 where "w3 = (if \<not> is_err r \<and> ec_started out then w2\<lparr>w_ext := h_observe h call (w_ext w2)\<rparr> else w2)"
  have 3: "quietly w w3" using 2 by (auto simp: w3_def intro: quietly_trans [OF _ quietly_facts [OF ext_facts]])
  have step: "settle_call url h cfg runID call out (e, w) = (case r of
       Inl x \<Rightarrow> (errors_join [errors_join [e, ee], Some (Wrapf ''commit tool outcome: '' x)], w3)
     | Inr records \<Rightarrow> notify_settled h cfg settled records (errors_join [e, ee]) w3)"
    unfolding settle_call_def Let_def prod.case p f a w3_def ..
  show ?thesis
  proof (cases r)
    case (Inr records)
    with s step have "notify_settled h cfg settled records (errors_join [e, ee]) w3 = (e', w')" by simp
    with notify_quietly [of w3 h cfg settled records "errors_join [e, ee]"] 3 show ?thesis by (auto intro: quietly_trans)
  qed (use s 3 step in auto)
qed

lemma settle_wave_quietly: "settle_wave url h cfg runID jobs (e, w) = (e', w') \<Longrightarrow> quietly w w'"
proof (induction jobs arbitrary: e w)
  case (Cons j jobs)
  obtain call out where j: "j = (call, out)" by fastforce
  obtain e1 w1 where 1: "settle_call url h cfg runID call out (e, w) = (e1, w1)" by fastforce
  from quietly_trans [OF settle_call_quietly [OF 1] Cons.IH [of e1 w1]] Cons.prems j 1 show ?case by simp
qed (auto intro: quietly_facts)

lemma run_wave_quietly: "run_wave h cfg jobs order outs w = (outs', w') \<Longrightarrow> quietly w w'"
proof (induction order arbitrary: outs w)
  case (Cons i order)
  obtain out w1 where 1: "run_call h cfg (fst (jobs ! i)) (snd (jobs ! i)) w = (out, w1)" by fastforce
  have "\<exists>r. adds [] r w w1"
    using run_call_world [OF 1] 1 by (auto simp: adds_def run_call_def split: prod.splits option.splits if_splits)
  then have "quietly w w1" unfolding quietly_def by (metis list.pred_inject(1))
  from quietly_trans [OF this Cons.IH [of "outs[i := out]" w1]] Cons.prems 1 show ?case by simp
qed (auto intro: quietly_facts)

lemma announce_facts: "announce h jobs w = (e, w') \<Longrightarrow> same_facts w w'"
proof (induction jobs arbitrary: w)
  case (Cons j jobs)
  obtain c r where j: "j = (c, r)" by fastforce
  obtain x w1 where e: "do_emit h (EventToolStarted c (record_reference_of (h_session h) r)) w = (x, w1)" by fastforce
  from emit_facts [OF e] Cons e j show ?case by (cases x) (auto intro: same_facts_trans)
qed simp

lemma settleUnexecuted_quietly: "settleUnexecuted h runID calls cause w = (e, w') \<Longrightarrow> quietly w w'"
  using append_quietly [OF _ quiet_settlements]
  by (auto simp: settleUnexecuted_def Let_def intro: quietly_facts split: if_splits prod.splits)

lemma finishUnstarted_quietly: "finishUnstarted h runID calls cause w = (e, w') \<Longrightarrow> quietly w w'"
  using settleUnexecuted_quietly by (auto simp: finishUnstarted_def split: prod.splits)

lemma batch_loop_quietly: "batch_loop url h cfg limit runID jobs w = (e, w') \<Longrightarrow> quietly w w'"
proof (induction url h cfg limit runID jobs w arbitrary: e w' rule: batch_loop.induct)
  case (1 url h cfg limit runID jobs w)
  show ?case
  proof (cases "jobs = []")
    case True
    with 1(2) show ?thesis by (simp add: quietly_facts)
  next
    case ne: False
    obtain p w1 where p: "do_poll h w = (p, w1)" by fastforce
    define wave where "wave = waveLength (map (ti_scheduling \<circ> intent_of \<circ> snd) jobs) limit (bc_workspace cfg)"
    obtain a w2 where a: "announce h (take wave jobs) w1 = (a, w2)" by fastforce
    obtain outs w3 where r: "run_wave h cfg (map (\<lambda>(c, r). (c, intent_of r)) (take wave jobs))
        (wave_order (h_order h (w_ext w2)) (length (take wave jobs))) (replicate (length (take wave jobs)) blank_executed) w2 = (outs, w3)"
      by fastforce
    obtain we w4 where s: "settle_wave url h cfg runID (zip (map fst (take wave jobs)) outs) (None, w3) = (we, w4)" by fastforce
    obtain c w5 where c: "do_poll h w4 = (c, w5)" by fastforce
    have step: "batch_loop url h cfg limit runID jobs w =
       (case p of Some e \<Rightarrow> finishUnstarted h runID (map fst jobs) e w1
        | None \<Rightarrow> (case a of Some e \<Rightarrow> finishUnstarted h runID (map fst jobs) e w2
          | None \<Rightarrow> (case errors_join [we, c] of
              Some e \<Rightarrow> finishUnstarted h runID (map fst (drop wave jobs)) e w5
            | None \<Rightarrow> batch_loop url h cfg limit runID (drop wave jobs) w5)))"
      using ne p a r s c by (subst batch_loop.simps) (simp add: Let_def wave_def split: option.split)
    have q1: "quietly w w1" by (rule quietly_facts [OF do_poll_facts [OF p]])
    have q2: "quietly w w2" using q1 quietly_facts [OF announce_facts [OF a]] by (rule quietly_trans)
    have q3: "quietly w w3" using q2 run_wave_quietly [OF r] by (rule quietly_trans)
    have q4: "quietly w w4" using q3 settle_wave_quietly [OF s] by (rule quietly_trans)
    have q5: "quietly w w5" using q4 quietly_facts [OF do_poll_facts [OF c]] by (rule quietly_trans)
    have unstarted: "quietly w w'" if "quietly w v" "finishUnstarted h runID cs x v = (e, w')" for v cs x
      using that finishUnstarted_quietly quietly_trans by blast
    show ?thesis
    proof (cases p; cases a; cases "errors_join [we, c]")
      assume n: "p = None" "a = None" "errors_join [we, c] = None"
      then have "batch_loop url h cfg limit runID (drop wave jobs) w5 = (e, w')" using step 1(2) by simp
      from 1(1) [OF ne p [symmetric] n(1) wave_def refl refl a [symmetric] n(2) r [symmetric] refl s [symmetric] refl c [symmetric] refl refl n(3) this]
      show ?thesis using q5 by (rule quietly_trans [rotated])
    qed (use step 1(2) unstarted q1 q2 q5 in auto)
  qed
qed

lemma batch_quietly:
  assumes "batch_execute url h cfg runID calls intents w = (e, w')"
  shows "quietly w w'"
proof -
  let ?limit = "if bc_limit cfg \<le> 0 then 8 else bc_limit cfg"
  consider "w' = w" | "finishUnstarted h runID calls (ErrNew ''tool concurrency limit exceeds 256'') w = (e, w')"
    | "batch_loop url h cfg ?limit runID (zip calls intents) w = (e, w')"
    using assms by (auto simp del: batch_loop.simps simp: batch_execute_def Let_def split: if_splits)
  then show ?thesis
    by cases (auto simp del: batch_loop.simps intro: quietly_facts finishUnstarted_quietly batch_loop_quietly)
qed


subsection \<open>The parts that leave the log alone\<close>

lemma hook_phase_facts: "same_facts w (snd (hook_phase hs a w))"
proof (induction hs a w rule: hook_phase.induct)
  case (3 f hs a w)
  obtain e b v where c: "call_ext (f a) w = ((e, b), v)" by (metis prod.collapse)
  with 3 [OF c [symmetric]] call_facts [OF c] show ?case by (cases e) (auto intro: same_facts_trans)
qed auto

lemma plain_phase_facts: "plain_phase hs w = (e, w') \<Longrightarrow> same_facts w w'"
  using hook_phase_facts [of w "map plain_hook hs" "()"] by (auto simp: plain_phase_def split: prod.splits)

lemma end_hooks_facts: "end_hooks hs err w = (e, w') \<Longrightarrow> same_facts w w'"
proof (induction hs err w rule: end_hooks.induct)
  case (3 f hs err w)
  obtain x v where c: "call_ext (f err) w = (x, v)" by fastforce
  with 3(1) [OF c [symmetric]] 3(2) call_facts [OF c] show ?case by (auto intro: same_facts_trans)
qed auto

lemma flush_logs_facts: "flush_logs env ls err w = (e, w') \<Longrightarrow> same_facts w w'"
proof (induction ls arbitrary: err w)
  case (Cons l ls)
  obtain x v where c: "call_ext (le_flush env l) w = (x, v)" by fastforce
  with Cons call_facts [OF c] show ?case by (auto intro: same_facts_trans)
qed auto

lemma runtime_facts [simp]: "same_facts w (set_runtime rt w)"
  by (simp add: set_runtime_def)

lemma bootstrap_facts: "bootstrap_runtime cfg lg w = (e, w') \<Longrightarrow> same_facts w w'"
  using same_facts_trans [OF runtime_facts call_facts] by (auto simp: bootstrap_runtime_def Let_def)

lemma load_view_facts:
  assumes "load_view env cfg lg w = (r, w')" shows "same_facts w w'"
proof -
  let ?h = "loop_host env cfg lg"
  obtain c w1 where p: "do_poll ?h w = (c, w1)" by fastforce
  obtain v w2 where v: "call_ext (case rc_source cfg of Some f \<Rightarrow> f lg | None \<Rightarrow> le_messages env lg) w1 = (v, w2)" by fastforce
  obtain d w3 where d: "do_poll ?h w2 = (d, w3)" by fastforce
  have 1: "same_facts w w1" by (rule do_poll_facts [OF p])
  have 2: "same_facts w w2" using 1 call_facts [OF v] by (rule same_facts_trans)
  have 3: "same_facts w w3" using 2 do_poll_facts [OF d] by (rule same_facts_trans)
  have "w' = w1 \<or> w' = w2 \<or> w' = w3"
    using assms p v d by (auto simp: load_view_def Let_def split: if_splits sum.splits)
  with 1 2 3 show ?thesis by blast
qed

lemma prepare_view_facts: "prepare_view env cfg ms w = (r, w') \<Longrightarrow> same_facts w w'"
  by (auto simp: prepare_view_def split: prod.splits)

lemma build_request_facts:
  assumes "build_request env cfg lg snap w = (r, w')" shows "same_facts w w'"
proof -
  obtain v w1 where l: "load_view env cfg lg w = (v, w1)" by fastforce
  note 1 = load_view_facts [OF l]
  show ?thesis
  proof (cases v)
    case (Inl e)
    with assms l 1 show ?thesis by (simp add: build_request_def)
  next
    case (Inr ms)
    obtain p w2 where p: "prepare_view env cfg ms w1 = (p, w2)" by fastforce
    have 2: "same_facts w w2" using 1 prepare_view_facts [OF p] by (rule same_facts_trans)
    show ?thesis
    proof (cases p)
      case (Inl e)
      with assms l p \<open>v = Inr ms\<close> 2 show ?thesis by (simp add: build_request_def)
    next
      case (Inr ps)
      obtain prompts working where ps: "ps = (prompts, working)" by fastforce
      obtain e q w3 where h: "hook_phase (map (\<lambda>l. map_option (\<lambda>f. f (lr_id lg)) (ly_before_model l)) (rc_layers cfg))
          (first_request cfg snap prompts working) w2 = ((e, q), w3)" by (metis prod.collapse)
      have "same_facts w2 w3" using hook_phase_facts [of w2] h by (metis snd_conv)
      with 2 have 3: "same_facts w w3" by (rule same_facts_trans)
      have "w' = w3" using assms l p \<open>v = Inr ms\<close> Inr ps h by (auto simp: build_request_def split: option.splits)
      with 3 show ?thesis by simp
    qed
  qed
qed

lemma model_answer_facts:
  assumes "model_answer env cfg lg model q w = (a, w')" shows "same_facts w w'"
proof -
  let ?h = "loop_host env cfg lg"
  obtain rp s where c: "collectObserved (le_url env) (le_canon env) (le_marshal env) ?h (map model_layer.truncate (rc_layers cfg)) model q (rc_max_bytes cfg) w = (rp, s)"
    by fastforce
  note 1 = collectObserved_world(1) [OF c]
  obtain err w1 where p: "(if rp_error rp = None then do_poll ?h (iv_world s) else (rp_error rp, iv_world s)) = (err, w1)" by fastforce
  have "same_facts (iv_world s) w1" using p by (auto intro: do_poll_facts split: if_splits)
  with 1 have 2: "same_facts w w1" by (rule same_facts_trans)
  obtain e m w2 where h: "hook_phase (map (\<lambda>l. map_option (\<lambda>f. f (lr_id lg)) (ly_after_model l)) (rev (rc_layers cfg))) (rp_message rp) w1 = ((e, m), w2)"
    by (metis prod.collapse)
  have "same_facts w1 w2" using hook_phase_facts [of w1] h by (metis snd_conv)
  with 2 have 3: "same_facts w w2" by (rule same_facts_trans)
  have "w' = w1 \<or> w' = w2" using assms c p h by (auto simp: model_answer_def Let_def split: if_splits option.splits sum.splits)
  with 2 3 show ?thesis by blast
qed

text \<open>Preparation: its polls and its lifted hooks leave the facts alone.\<close>

lemma prepare_call_facts:
  "prepare_call url (do_poll h) tools (map (\<lambda>l. (nm l, map_option (\<lambda>f tool c. call_ext (f tool c)) (hk l))) ls) c w = (r, w') \<Longrightarrow> same_facts w w'"
proof (induction ls arbitrary: c w)
  case (Cons l ls)
  obtain p w1 where p: "do_poll h w = (p, w1)" by fastforce
  note 1 = do_poll_facts [OF p]
  show ?case
  proof (cases "p = None \<and> hk l \<noteq> None")
    case False
    with Cons p 1 show ?thesis by (cases p; cases "hk l") (auto intro: same_facts_trans)
  next
    case True
    then obtain f where f: "hk l = Some f" by blast
    obtain d w2 where i: "invokePrepareHook url (\<lambda>tool c. call_ext (f tool c)) (tools (tc_name c)) c w1 = (d, w2)" by fastforce
    have "same_facts w1 w2" using i by (auto simp: invokePrepareHook_def intro: call_facts split: prod.splits option.splits)
    with 1 have 2: "same_facts w w2" by (rule same_facts_trans)
    show ?thesis
    proof (cases d)
      case (Inl x)
      with Cons.prems p True f i 2 show ?thesis by simp
    next
      case (Inr dd)
      then have "w' = w2 \<or> (\<exists>c2. prepare_call url (do_poll h) tools (map (\<lambda>l. (nm l, map_option (\<lambda>f tool c. call_ext (f tool c)) (hk l))) ls) c2 w2 = (r, w'))"
        using Cons.prems p True f i by (auto simp: Let_def split: option.splits)
      with 2 Cons.IH show ?thesis by (auto intro: same_facts_trans)
    qed
  qed
qed auto

lemma prepare_calls_facts:
  "prepare_calls url (do_poll h) tools (map (\<lambda>l. (nm l, map_option (\<lambda>f tool c. call_ext (f tool c)) (hk l))) ls) before results cs w = (p, w') \<Longrightarrow>
   same_facts w w'"
proof (induction cs arbitrary: before results w)
  case Nil
  then show ?case by (auto intro: do_poll_facts split: prod.splits)
next
  case (Cons c cs)
  obtain t w1 where t: "prepare_call url (do_poll h) tools (map (\<lambda>l. (nm l, map_option (\<lambda>f tool c. call_ext (f tool c)) (hk l))) ls) c w = (t, w1)"
    by fastforce
  obtain c1 r e where "t = (c1, r, e)" by (cases t)
  note 1 = t [unfolded this]
  note facts = prepare_call_facts [OF 1]
  show ?case
  proof (cases e)
    case None
    with Cons.prems 1 have "prepare_calls url (do_poll h) tools (map (\<lambda>l. (nm l, map_option (\<lambda>f tool c. call_ext (f tool c)) (hk l))) ls)
       (before @ [c1]) (case r of None \<Rightarrow> results | Some x \<Rightarrow> (tc_id c1, x) # results) cs w1 = (p, w')" by simp
    from same_facts_trans [OF facts Cons.IH [OF this]] show ?thesis .
  next
    case (Some x)
    with Cons.prems 1 facts show ?thesis by simp
  qed
qed

lemma input_committed_facts: "input_committed env cfg rs w = (e, w') \<Longrightarrow> same_facts w w'"
proof (induction rs arbitrary: w)
  case (Cons r rs)
  show ?case
  proof (cases "sr_message r")
    case (Some m)
    obtain x w1 where h: "plain_phase (map (\<lambda>l. map_option (\<lambda>f. f m) (ly_input_committed l)) (rc_layers cfg)) w = (x, w1)" by fastforce
    obtain y z where d: "deliver_message env cfg m (w_ext w1) = (y, z)" by (metis prod.collapse)
    note 1 = plain_phase_facts [OF h]
    have 2: "same_facts w (w1\<lparr>w_ext := z\<rparr>)" using 1 by (auto intro: same_facts_trans)
    with 1 Cons Some h d show ?thesis by (cases x; cases y) (auto intro: same_facts_trans)
  qed (use Cons in auto)
qed auto


subsection \<open>Accounts\<close>

text \<open>
  The identifiers of model intents and outcomes and of tool intents in a sequence of records.
  \<open>accounts ok\<close>: between two worlds the outcomes are among the intents, in order; if \<open>ok\<close>, they are
  the same; every tool that started had its call committed as an intent; and at most k models were
  asked.
\<close>

definition asked :: "session_record list \<Rightarrow> string list" where
  "asked rs = map mi_request_id (List.map_filter sr_model_intent rs)"

definition answered :: "session_record list \<Rightarrow> string list" where
  "answered rs = map mo_request_id (List.map_filter sr_model_outcome rs)"

definition intended :: "session_record list \<Rightarrow> tool_call list" where
  "intended rs = map ti_call (List.map_filter sr_tool_intent rs)"

definition accounts :: "bool \<Rightarrow> nat \<Rightarrow> 'w world \<Rightarrow> 'w world \<Rightarrow> bool" where
  "accounts ok k w w' \<longleftrightarrow> (\<exists>n r. adds n r w w' \<and> subseq (outcome_ids n) (map tc_id (intended n)) \<and> subseq (answered n) (asked n) \<and>
     (ok \<longrightarrow> outcome_ids n = map tc_id (intended n) \<and> answered n = asked n) \<and> mset r \<subseteq># mset (intended n) \<and> length (asked n) \<le> k)"

lemma ledger_simps [simp]:
  "asked [] = []" "asked (xs @ ys) = asked xs @ asked ys"
  "answered [] = []" "answered (xs @ ys) = answered xs @ answered ys"
  "intended [] = []" "intended (xs @ ys) = intended xs @ intended ys"
  "asked (x # xs) = (case sr_model_intent x of None \<Rightarrow> asked xs | Some i \<Rightarrow> mi_request_id i # asked xs)"
  "answered (x # xs) = (case sr_model_outcome x of None \<Rightarrow> answered xs | Some i \<Rightarrow> mo_request_id i # answered xs)"
  "intended (x # xs) = (case sr_tool_intent x of None \<Rightarrow> intended xs | Some i \<Rightarrow> ti_call i # intended xs)"
  by (auto simp: asked_def answered_def intended_def List.map_filter_def comp_def split: option.splits)

lemma ledger_builtin [simp]:
  "asked (map BuiltinRecord xs) = asked xs" "answered (map BuiltinRecord xs) = answered xs" "intended (map BuiltinRecord xs) = intended xs"
  by (induction xs) (auto split: option.split)

lemma quiet_ledger: "list_all quiet n \<Longrightarrow> asked n = [] \<and> answered n = [] \<and> intended n = []"
  by (induction n) (auto simp: quiet_def)

lemma accounts_facts: "same_facts w w' \<Longrightarrow> accounts ok k w w'"
  unfolding accounts_def by (intro exI [of _ "[]"]) (simp add: adds_facts)

lemma accounts_trans:
  assumes "accounts ok k w1 w2" "accounts ok l w2 w3" shows "accounts ok (k + l) w1 w3"
proof -
  obtain n1 r1 n2 r2 where 1: "adds n1 r1 w1 w2" "subseq (outcome_ids n1) (map tc_id (intended n1))" "subseq (answered n1) (asked n1)"
      "ok \<longrightarrow> outcome_ids n1 = map tc_id (intended n1) \<and> answered n1 = asked n1" "mset r1 \<subseteq># mset (intended n1)" "length (asked n1) \<le> k"
    and 2: "adds n2 r2 w2 w3" "subseq (outcome_ids n2) (map tc_id (intended n2))" "subseq (answered n2) (asked n2)"
      "ok \<longrightarrow> outcome_ids n2 = map tc_id (intended n2) \<and> answered n2 = asked n2" "mset r2 \<subseteq># mset (intended n2)" "length (asked n2) \<le> l"
    using assms unfolding accounts_def by blast
  then show ?thesis
    unfolding accounts_def
    by (intro exI [of _ "n1 @ n2"] exI [of _ "r1 @ r2"]) (auto intro: adds_append list_emb_append_mono subset_mset.add_mono)
qed

lemma accounts_before: "same_facts w w1 \<Longrightarrow> accounts ok k w1 w' \<Longrightarrow> accounts ok k w w'"
  unfolding accounts_def by (meson adds_before)

lemma accounts_after: "accounts ok k w w1 \<Longrightarrow> same_facts w1 w' \<Longrightarrow> accounts ok k w w'"
  unfolding accounts_def by (meson adds_after)

lemma accounts_weaken: "accounts ok k w w' \<Longrightarrow> (ok' \<longrightarrow> ok) \<Longrightarrow> accounts ok' k w w'"
  unfolding accounts_def by blast

lemma accounts_more: "accounts ok k w w' \<Longrightarrow> k \<le> l \<Longrightarrow> accounts ok l w w'"
  unfolding accounts_def by (meson le_trans)

lemma intended_intents: "intended (map (\<lambda>i. tool_intent_record (f i)) is) = map (\<lambda>i. ti_call (f i)) is"
  "asked (map (\<lambda>i. tool_intent_record (f i)) is) = []" "answered (map (\<lambda>i. tool_intent_record (f i)) is) = []"
  "outcome_ids (map (\<lambda>i. tool_intent_record (f i)) is) = []"
  by (induction "is") (simp_all add: tool_intent_record_def blank_record_def)

lemma call_intents_calls: "fst (call_intents env tools results runID i cs failure) = is \<Longrightarrow> map ti_call is = map fst cs"
  by (induction cs arbitrary: i failure "is") (fastforce simp: Let_def case_prod_beta)+


subsection \<open>From the response to the end of a turn\<close>

text \<open>A log that accepts an append returns one record for each that it was given.\<close>

definition counts_records :: "'w loop_env \<Rightarrow> bool" where
  "counts_records env \<longleftrightarrow> (\<forall>lg d rs x cs x'. le_commit env lg d rs x = (Inr cs, x') \<longrightarrow> length cs = length rs)"

text \<open>Every settlement append of every log is accepted.\<close>

definition settles_always :: "'w loop_env \<Rightarrow> bool" where
  "settles_always env \<longleftrightarrow> (\<forall>lg rs x. \<not> is_err (fst (le_commit env lg True rs x)))"

lemma lift_fst [simp]: "fst (lift_ext f x) = fst (f (fst x))"
  by (simp add: lift_ext_def split: prod.split)

lemma host_commits: "settles_always env \<Longrightarrow> commits_ok (loop_host env cfg lg)"
  by (simp add: settles_always_def commits_ok_def loop_host_def)

lemma append_length:
  "counts_records env \<Longrightarrow> appendRecords (loop_host env cfg lg) d rs w = (Inr cs, w') \<Longrightarrow> length cs = length rs"
  unfolding counts_records_def
  by (auto simp: appendRecords_def loop_host_def lift_ext_def split: prod.splits sum.splits) (metis length_map)

definition turn_ok :: "turn \<Rightarrow> bool" where
  "turn_ok t \<longleftrightarrow> t = Continue \<or> t = Return None"

text \<open>A settlement of some calls: quiet records whose outcomes are those of the calls.\<close>

definition settlement :: "bool \<Rightarrow> tool_call list \<Rightarrow> 'w world \<Rightarrow> 'w world \<Rightarrow> bool" where
  "settlement ok calls w w' \<longleftrightarrow> (\<exists>n r. adds n r w w' \<and> list_all quiet n \<and> subseq (outcome_ids n) (map tc_id calls) \<and>
     (ok \<longrightarrow> outcome_ids n = map tc_id calls) \<and> mset r \<subseteq># mset calls)"

lemma settlement_before: "same_facts w w1 \<Longrightarrow> settlement ok calls w1 w' \<Longrightarrow> settlement ok calls w w'"
  unfolding settlement_def by (meson adds_before)

lemma settlement_after: "settlement ok calls w w1 \<Longrightarrow> same_facts w1 w' \<Longrightarrow> settlement ok calls w w'"
  unfolding settlement_def by (meson adds_after)

lemma settlement_weaken: "settlement ok calls w w' \<Longrightarrow> (ok' \<longrightarrow> ok) \<Longrightarrow> settlement ok' calls w w'"
  unfolding settlement_def by blast

lemma settles_settlement:
  assumes "quietly w w'" "settles h (map tc_id calls) w e w'" "executes cfg (zip calls cs) w w'"
  shows "settlement (commits_ok h \<or> e = None) calls w w'"
proof -
  obtain n r where n: "adds n r w w'" "list_all quiet n" using assms(1) unfolding quietly_def by blast
  have "mset r \<subseteq># mset (map fst (filter (\<lambda>(c, r). runnable cfg (c, intent_of r)) (zip calls cs)))"
    using assms(3) n by (auto simp: executes_def adds_def)
  also have "\<dots> \<subseteq># mset (map fst (zip calls cs))" by (simp add: image_mset_subseteq_mono)
  also have "\<dots> \<subseteq># mset calls"
    unfolding map_fst_zip_take by (metis append_take_drop_id mset_append mset_subset_eq_add_left)
  finally show ?thesis
    using n assms(2) unfolding settlement_def settles_def adds_def by auto
qed

lemma unexecuted_settlement:
  assumes "settleUnexecuted h runID calls cause w = (e, w')"
  shows "settlement (commits_ok h \<or> e = None) calls w w'"
proof -
  have "executes cfg (zip calls []) w w'" for cfg using settleUnexecuted_result [OF assms] by (simp add: executes_same)
  with settles_settlement settleUnexecuted_quietly [OF assms] settleUnexecuted_result [OF assms] show ?thesis by blast
qed

lemma batch_settlement:
  assumes "batch_execute url h cfg runID calls intents w = (e, w')"
  shows "settlement (commits_ok h \<and> length calls = length intents \<or> e = None) calls w w'"
proof (cases "length calls = length intents")
  case True
  then show ?thesis
    using settles_settlement [OF batch_quietly [OF assms]] batch_execute_result [OF assms] by (auto intro: settlement_weaken)
next
  case False
  with batch_execute_result [OF assms] show ?thesis
    by (auto simp: settlement_def adds_facts intro!: exI [of _ "[]"])
qed

lemma execute_response_settlement:
  assumes "execute_response env cfg lg runID calls tools results err committed w = (t, w')"
  shows "(err = None \<longrightarrow> settlement (settles_always env \<and> length committed = length calls + 2 \<or> turn_ok t) calls w w') \<and>
    (err \<noteq> None \<longrightarrow> same_facts w w' \<and> \<not> turn_ok t)"
proof -
  let ?h = "loop_host env cfg lg" and ?m = "the (sr_message (committed ! 0))"
  obtain ee w1 where em: "do_emit ?h (EventMessageCommitted ?m (record_reference_of (lr_id lg) (committed ! 0))) w = (ee, w1)" by fastforce
  have 1: "same_facts w w1" by (rule emit_facts [OF em]) simp
  show ?thesis
  proof (cases err)
    case (Some x)
    then have "w' = w1" "t = Return (errors_join [err, ee])" using assms em by (simp_all add: execute_response_def Let_def)
    with Some 1 show ?thesis by (simp add: turn_ok_def errors_join_none2)
  next
    case None
    have "settlement (settles_always env \<and> length committed = length calls + 2 \<or> turn_ok t) calls w w'"
    proof (cases ee)
      case (Some e)
      obtain se w2 where s: "settleUnexecuted ?h runID calls e w1 = (se, w2)" by fastforce
      with assms em None Some have "t = Return (errors_join [Some e, se])" "w' = w2" by (simp_all add: execute_response_def Let_def)
      then show ?thesis
        using settlement_before [OF 1 unexecuted_settlement [OF s]] host_commits
        by (auto simp: turn_ok_def errors_join_none2 intro: settlement_weaken)
    next
      case none: None
      obtain de x where d: "deliver_message env cfg ?m (w_ext w1) = (de, x)" by (metis prod.collapse)
      have 2: "same_facts w (w1\<lparr>w_ext := x\<rparr>)" using 1 by (auto intro: same_facts_trans)
      show ?thesis
      proof (cases de)
        case (Some e)
        obtain se w2 where s: "settleUnexecuted ?h runID calls e (w1\<lparr>w_ext := x\<rparr>) = (se, w2)" by fastforce
        with assms em none d Some None have "t = Return (errors_join [Some e, se])" "w' = w2" by (simp_all add: execute_response_def Let_def)
        then show ?thesis
          using settlement_before [OF 2 unexecuted_settlement [OF s]] host_commits
          by (auto simp: turn_ok_def errors_join_none2 intro: settlement_weaken)
      next
        case dn: None
        obtain be w2 where b: "batch_execute (le_url env) ?h \<lparr>bc_workspace = rc_workspace cfg, bc_limit = rc_max_tools cfg, bc_prepared = results,
            bc_tools = tools, bc_runtime = True\<rparr> runID calls (drop 2 committed) (w1\<lparr>w_ext := x\<rparr>) = (be, w2)" by fastforce
        obtain ae w3 where a: "call_ext (runtime_AfterTurn (rc_system cfg) (runtime_of w2)) w2 = (ae, w3)" by (metis prod.collapse)
        have res: "(be \<noteq> None \<and> t = Return be \<and> w' = w2) \<or> (be = None \<and> w' = w3)"
          using assms em none d dn None b a by (cases be) (auto simp: execute_response_def Let_def)
        have s: "settlement (commits_ok ?h \<and> length calls = length (drop 2 committed) \<or> be = None) calls w w2"
          by (rule settlement_before [OF 2 batch_settlement [OF b]])
        have "settlement (commits_ok ?h \<and> length calls = length (drop 2 committed) \<or> be = None) calls w w'"
          using res s settlement_after [OF s call_facts [OF a]] by blast
        then show ?thesis
          by (rule settlement_weaken) (use res host_commits [of env cfg lg] in \<open>auto simp: turn_ok_def\<close>)
      qed
    qed
    with None show ?thesis by simp
  qed
qed


subsection \<open>One turn\<close>

lemma prepared_length:
  "prepare_calls url poll tools layers before results cs w = (p, w') \<Longrightarrow> length (pr_calls p) = length before + length cs"
proof (induction cs arbitrary: before results w)
  case (Cons c cs)
  obtain t w1 where "prepare_call url poll tools layers c w = (t, w1)" by fastforce
  moreover obtain c1 r e where "t = (c1, r, e)" by (cases t)
  ultimately show ?case using Cons by (cases e) auto
qed (auto split: prod.splits)

lemma failed_quiet: "list_all quiet (failedPreparationRecords runID calls failed e)"
  by (auto simp: failedPreparationRecords_def list_all_iff settle_records_def quiet_def tool_outcome_record_def conversation_record_def blank_record_def)

lemma failed_outcomes: "outcome_ids (failedPreparationRecords runID calls failed e) = map tc_id calls"
proof -
  have "outcome_ids (concat (map (\<lambda>(i, c). settle_records (unexecuted_outcome l r (s i) e c)) (enumerate k calls))) = map tc_id calls" for l r s k
    by (induction calls arbitrary: k) (simp_all add: unexecuted_outcome_def)
  then show ?thesis by (simp add: failedPreparationRecords_def)
qed

lemma outcome_ledger:
  "asked (outcome_record i st e u # rs) = asked rs" "answered (outcome_record i st e u # rs) = i # answered rs"
  "intended (outcome_record i st e u # rs) = intended rs" "outcome_ids (outcome_record i st e u # rs) = outcome_ids rs"
  by (simp_all add: outcome_record_def model_outcome_record_def blank_record_def)

lemma response_ledger:
  assumes "map ti_call intents = calls"
  shows "asked (response_records runID requestID a calls intents err failed) = []"
    "answered (response_records runID requestID a calls intents err failed) = [requestID]"
    "intended (response_records runID requestID a calls intents err failed) = calls"
    "outcome_ids (response_records runID requestID a calls intents err failed) = (if err = None then [] else map tc_id calls)"
  using assms quiet_ledger [OF failed_quiet] failed_outcomes [of runID calls failed]
    intended_intents [of "\<lambda>i. i"] intended_intents [of "\<lambda>i. i\<lparr>ti_no_side_effect := True\<rparr>"] outcome_ledger
  by (auto simp: response_records_def conversation_record_def blank_record_def split: option.split)

lemma commit_response_adds:
  assumes "commit_response env cfg lg runID requestID q offered a w = (t, w')"
  shows "\<exists>n r. adds n r w w' \<and> asked n = [] \<and> subseq (answered n) [requestID] \<and> subseq (outcome_ids n) (map tc_id (intended n)) \<and>
    mset r \<subseteq># mset (intended n) \<and>
    (settles_always env \<and> counts_records env \<or> turn_ok t \<longrightarrow> answered n = [requestID] \<and> outcome_ids n = map tc_id (intended n))"
proof -
  let ?h = "loop_host env cfg lg" and ?tools = "bound_tools cfg q offered"
  let ?layers = "map (\<lambda>l. (ml_name l, map_option (\<lambda>f tool c. call_ext (f tool c)) (ly_prepare l))) (rc_layers cfg)"
  obtain pr w1 where p: "prepareToolCalls (le_url env) (do_poll ?h) ?tools ?layers (an_calls a) w = (pr, w1)" by fastforce
  let ?calls = "pr_calls pr" and ?results = "map_of (pr_results pr)"
  obtain intents err failed where i: "call_intents env ?tools ?results runID 0 (zip ?calls (an_calls a)) (pr_error pr, pr_failed pr) = (intents, err, failed)"
    by (metis prod.collapse)
  let ?rs = "response_records runID requestID a ?calls intents err failed"
  obtain c w2 where c: "appendRecords ?h (err \<noteq> None) ?rs w1 = (c, w2)" by fastforce
  have 1: "same_facts w w1" using p prepare_calls_facts unfolding prepareToolCalls_def by fast
  have len: "length ?calls = length (an_calls a)" using p prepared_length by (fastforce simp: prepareToolCalls_def)
  have calls: "map ti_call intents = ?calls"
    using call_intents_calls [of env ?tools ?results runID 0 "zip ?calls (an_calls a)" "(pr_error pr, pr_failed pr)"] i len by simp
  have ilen: "length intents = length ?calls" using calls length_map by metis
  note ledger = response_ledger [OF calls]
  have step: "commit_response env cfg lg runID requestID q offered a w =
     (case c of Inl e \<Rightarrow> settle_response ?h requestID (an_usage a) err e w2
      | Inr committed \<Rightarrow> execute_response env cfg lg runID ?calls ?tools ?results err committed w2)"
    using p i c by (cases c) (simp_all add: commit_response_def Let_def)
  show ?thesis
  proof (cases c)
    case (Inl e)
    have 2: "same_facts w w2" using 1 append_adds [OF c] Inl by (auto intro: same_facts_trans)
    let ?o = "outcome_record requestID (statusFor (Some e)) (err_text e) (an_usage a)"
    obtain r w3 where s: "appendRecords ?h True [?o] w2 = (r, w3)" by fastforce
    have t: "\<not> turn_ok t" "w' = w3" using assms step Inl s by (auto simp: settle_response_def turn_ok_def errors_join_None_iff)
    have ok: "settles_always env \<Longrightarrow> \<not> is_err r" using appendRecords_log [OF s] host_commits by blast
    from append_adds [OF s] show ?thesis
    proof
      assume "is_err r \<and> same_facts w2 w3"
      with 2 t ok show ?thesis by (intro exI [of _ "[]"]) (auto simp: adds_facts intro: same_facts_trans)
    next
      assume "\<not> is_err r \<and> adds (map BuiltinRecord [?o]) [] w2 w3"
      then have "adds (map BuiltinRecord [?o]) [] w w'" using 2 t(2) adds_before by blast
      moreover have "asked (map BuiltinRecord [?o]) = []" "answered (map BuiltinRecord [?o]) = [requestID]"
        "intended (map BuiltinRecord [?o]) = []" "outcome_ids (map BuiltinRecord [?o]) = []"
        unfolding ledger_builtin outcome_ids_builtin outcome_ledger by simp_all
      ultimately show ?thesis
        by (intro exI [of _ "map BuiltinRecord [?o]"] exI [of _ "[]"]) (simp del: list.map)
    qed
  next
    case (Inr committed)
    have 2: "adds (map BuiltinRecord ?rs) [] w w2" using 1 append_adds [OF c] Inr adds_before by force
    have ex: "execute_response env cfg lg runID ?calls ?tools ?results err committed w2 = (t, w')" using assms step Inr by simp
    note s = execute_response_settlement [OF ex]
    show ?thesis
    proof (cases err)
      case None
      then have rl: "length ?rs = length ?calls + 2" by (simp add: response_records_def ilen)
      have "counts_records env \<Longrightarrow> length committed = length ?calls + 2" using append_length [of env cfg lg] c Inr rl by metis
      with s None have "settlement (settles_always env \<and> counts_records env \<or> turn_ok t) ?calls w2 w'" by (auto intro: settlement_weaken)
      then obtain n r where n: "adds n r w2 w'" "list_all quiet n" "subseq (outcome_ids n) (map tc_id ?calls)" "mset r \<subseteq># mset ?calls"
        "settles_always env \<and> counts_records env \<or> turn_ok t \<longrightarrow> outcome_ids n = map tc_id ?calls" unfolding settlement_def by blast
      show ?thesis
        using adds_append [OF 2 n(1)] quiet_ledger [OF n(2)] n(3-5) ledger None
        by (intro exI [of _ "map BuiltinRecord ?rs @ n"] exI [of _ "[] @ r"]) simp
    next
      case (Some x)
      then have "adds (map BuiltinRecord ?rs) [] w w'" using adds_after [OF 2] s by simp
      with ledger Some show ?thesis by (intro exI [of _ "map BuiltinRecord ?rs"] exI [of _ "[]"]) simp
    qed
  qed
qed


lemma run_turn_accounts:
  assumes "run_turn env cfg runID lg w = (t, w')"
  shows "accounts (settles_always env \<and> counts_records env \<or> turn_ok t) 1 w w'"
proof -
  let ?h = "loop_host env cfg lg" and ?ok = "settles_always env \<and> counts_records env \<or> turn_ok t"
  let ?snap = "registry_snapshot (le_tools env (fst (w_ext w)))"
  obtain b w1 where b: "build_request env cfg lg ?snap w = (b, w1)" by fastforce
  note 1 = build_request_facts [OF b]
  show ?thesis
  proof (cases b)
    case (Inl e)
    with assms b 1 show ?thesis by (simp add: run_turn_def accounts_facts)
  next
    case bq: (Inr q)
    obtain i w2 where i: "call_ext (le_new_id env) w1 = (i, w2)" by fastforce
    have 2: "same_facts w w2" using 1 call_facts [OF i] by (rule same_facts_trans)
    show ?thesis
    proof (cases i)
      case (Inl e)
      with assms b i bq 2 show ?thesis by (simp add: run_turn_def accounts_facts)
    next
      case ii: (Inr requestID)
      let ?model = "le_model env (fst (w_ext w2))" and ?intent = "[model_intent_record \<lparr>mi_request_id = requestID\<rparr>]"
      obtain c w3 where c: "appendRecords ?h False ?intent w2 = (c, w3)" by fastforce
      show ?thesis
      proof (cases c)
        case (Inl e)
        then have "same_facts w w'" using assms b i bq ii c 2 append_adds [OF c] by (auto simp: run_turn_def Let_def intro: same_facts_trans)
        then show ?thesis by (rule accounts_facts)
      next
        case ci: (Inr cs)
        have 3: "adds (map BuiltinRecord ?intent) [] w w3" using adds_before [OF 2] append_adds [OF c] ci by simp
        obtain a w4 where a: "model_answer env cfg lg ?model q w3 = (a, w4)" by fastforce
        have 4: "adds (map BuiltinRecord ?intent) [] w w4" using 3 model_answer_facts [OF a] by (rule adds_after)
        have li: "asked (map BuiltinRecord ?intent) = [requestID]" "answered (map BuiltinRecord ?intent) = []"
          "intended (map BuiltinRecord ?intent) = []" "outcome_ids (map BuiltinRecord ?intent) = []"
          unfolding ledger_builtin outcome_ids_builtin by (simp_all add: model_intent_record_def blank_record_def)
        have finish: ?thesis if "adds n r w4 w'" "asked n = []" "subseq (answered n) [requestID]" "subseq (outcome_ids n) (map tc_id (intended n))"
            "mset r \<subseteq># mset (intended n)" "?ok \<longrightarrow> answered n = [requestID] \<and> outcome_ids n = map tc_id (intended n)" for n r
          using adds_append [OF 4 that(1)] that(2-6) li unfolding accounts_def
          by (intro exI [of _ "map BuiltinRecord ?intent @ n"] exI [of _ "[] @ r"]) (simp del: list.map)
        show ?thesis
        proof (cases "an_error a")
          case None
          then have "commit_response env cfg lg runID requestID q (ts_tools ?snap) a w4 = (t, w')"
            using assms b i bq ii c ci a by (simp add: run_turn_def Let_def)
          from commit_response_adds [OF this] finish show ?thesis by blast
        next
          case (Some e)
          let ?rs = "failed_stream_records requestID a e"
          obtain r w5 where s: "appendRecords ?h True ?rs w4 = (r, w5)" by fastforce
          have t: "t = Return (errors_join [Some e, err_of r])" "w' = w5"
            using assms b i bq ii c ci a Some s by (simp_all add: run_turn_def Let_def)
          then have no: "\<not> turn_ok t" by (simp add: turn_ok_def errors_join_none2)
          have lr: "asked (map BuiltinRecord ?rs) = []" "answered (map BuiltinRecord ?rs) = [requestID]"
            "intended (map BuiltinRecord ?rs) = []" "outcome_ids (map BuiltinRecord ?rs) = []"
            unfolding ledger_builtin outcome_ids_builtin
            by (simp_all add: failed_stream_records_def outcome_record_def model_outcome_record_def conversation_record_def blank_record_def)
          have ok: "settles_always env \<Longrightarrow> \<not> is_err r" using appendRecords_log [OF s] host_commits by blast
          from append_adds [OF s] show ?thesis
          proof
            assume "is_err r \<and> same_facts w4 w5"
            with finish [of "[]" "[]"] t no ok show ?thesis by (auto simp: adds_facts)
          next
            assume "\<not> is_err r \<and> adds (map BuiltinRecord ?rs) [] w4 w5"
            with finish [of "map BuiltinRecord ?rs" "[]"] t lr show ?thesis by simp
          qed
        qed
      qed
    qed
  qed
qed

subsection \<open>The run\<close>

lemma run_loop_accounts:
  "run_loop env cfg runID n st w = ((e, st'), w') \<Longrightarrow> accounts (settles_always env \<and> counts_records env \<or> e = None) n w w'"
proof (induction n arbitrary: st w)
  case (Suc n)
  let ?ok = "settles_always env \<and> counts_records env \<or> e = None"
  obtain c w1 where p: "do_poll (loop_host env cfg (lp_session st)) w = (c, w1)" by fastforce
  note 1 = do_poll_facts [OF p]
  let ?lg = "le_log env (fst (w_ext w1))"
  obtain b w2 where b: "(if lr_id ?lg \<noteq> lr_id (lp_session st) then bootstrap_runtime cfg ?lg w1 else (None, w1)) = (b, w2)" by fastforce
  have "same_facts w1 w2" using b bootstrap_facts by (fastforce split: if_splits)
  with 1 have 2: "same_facts w w2" by (rule same_facts_trans)
  let ?st = "\<lparr>lp_session = ?lg, lp_touched = touch ?lg (lp_touched st)\<rparr>"
  obtain t w3 where t: "run_turn env cfg runID ?lg w2 = (t, w3)" by fastforce
  note a = accounts_before [OF 2 run_turn_accounts [OF t]]
  have step: "run_loop env cfg runID (Suc n) st w = (case c of Some e \<Rightarrow> ((Some e, st), w1)
     | None \<Rightarrow> if b \<noteq> None then ((b, st\<lparr>lp_session := ?lg\<rparr>), w2)
       else (case t of Return e \<Rightarrow> ((e, ?st), w3) | Continue \<Rightarrow> run_loop env cfg runID n ?st w3))"
    using p b t by (simp add: Let_def split: option.split turn.split)
  show ?case
  proof (cases "c = None \<and> b = None")
    case False
    then have "same_facts w w'" using Suc.prems step 1 2 by (auto split: option.splits if_splits)
    then show ?thesis by (rule accounts_facts)
  next
    case True
    show ?thesis
    proof (cases t)
      case (Return e')
      then have "e' = e" "w' = w3" using Suc.prems step True by simp_all
      with a Return have "accounts ?ok 1 w w'" by (auto simp: turn_ok_def intro: accounts_weaken)
      then show ?thesis by (rule accounts_more) simp
    next
      case Continue
      then have "run_loop env cfg runID n ?st w3 = ((e, st'), w')" using Suc.prems step True by simp
      note rest = Suc.IH [OF this]
      have "accounts ?ok 1 w w3" using a Continue by (auto simp: turn_ok_def intro: accounts_weaken)
      from accounts_trans [OF this rest] show ?thesis by simp
    qed
  qed
qed (simp add: accounts_facts)

definition iterations :: "'w run_config \<Rightarrow> nat" where
  "iterations cfg = nat (if rc_max_iterations cfg \<le> 0 then 32 else rc_max_iterations cfg)"

lemma quiet_accounts: "appendRecords h d (map conversation_record ms) w = (r, w') \<Longrightarrow> accounts ok k w w'"
proof -
  assume a: "appendRecords h d (map conversation_record ms) w = (r, w')"
  have q: "list_all quiet (map BuiltinRecord (map conversation_record ms))" "outcome_ids (map conversation_record ms) = []"
    by (induction ms) (simp_all add: quiet_def conversation_record_def blank_record_def)
  from append_adds [OF a] show ?thesis
  proof
    assume "\<not> is_err r \<and> adds (map BuiltinRecord (map conversation_record ms)) [] w w'"
    then show ?thesis
      unfolding accounts_def using quiet_ledger [OF q(1)] q(2)
      by (intro exI [of _ "map BuiltinRecord (map conversation_record ms)"] exI [of _ "[]"]) (simp del: map_map)
  qed (auto intro: accounts_facts)
qed


lemma run_body_accounts:
  assumes "run_body env cfg runID input st w = ((e, st'), w')"
  shows "accounts (settles_always env \<and> counts_records env \<or> e = None) (iterations cfg) w w'"
proof -
  let ?ok = "settles_always env \<and> counts_records env \<or> e = None"
  obtain c w1 where p: "do_poll (loop_host env cfg (lp_session st)) w = (c, w1)" by fastforce
  have 1: "accounts ?ok 0 w w1" by (rule accounts_facts [OF do_poll_facts [OF p]])
  obtain a w2 where a: "plain_phase (map ly_run_start (rc_layers cfg)) w1 = (a, w2)" by fastforce
  have 2: "accounts ?ok 0 w w2" using 1 plain_phase_facts [OF a] by (rule accounts_after)
  let ?lg = "le_log env (fst (w_ext w2))"
  let ?st = "\<lparr>lp_session = ?lg, lp_touched = touch ?lg (lp_touched st)\<rparr>"
  obtain b w3 where b: "bootstrap_runtime cfg ?lg w2 = (b, w3)" by fastforce
  have 3: "accounts ?ok 0 w w3" using 2 bootstrap_facts [OF b] by (rule accounts_after)
  obtain i w4 where i: "commit_input env cfg ?lg input w3 = (i, w4)" by fastforce
  have "accounts ?ok 0 w3 w4"
  proof (cases "first_err (message_validate (le_url env)) input = None \<and> input \<noteq> []")
    case False
    then have "w4 = w3" using i by (auto simp: commit_input_def split: option.splits)
    then show ?thesis by (simp add: accounts_facts)
  next
    case True
    obtain r w5 where r: "appendRecords (loop_host env cfg ?lg) False (map conversation_record input) w3 = (r, w5)" by fastforce
    note q = quiet_accounts [OF r]
    show ?thesis
    proof (cases r)
      case (Inl x)
      with i r True q show ?thesis by (simp add: commit_input_def)
    next
      case (Inr cs)
      with i r True have "input_committed env cfg cs w5 = (i, w4)" by (simp add: commit_input_def)
      with q input_committed_facts show ?thesis by (blast intro: accounts_after)
    qed
  qed
  with 3 have 4: "accounts ?ok 0 w w4" using accounts_trans by fastforce
  obtain m w5 where m: "do_emit (loop_host env cfg ?lg) EventRunStarted w4 = (m, w5)" by fastforce
  have 5: "accounts ?ok 0 w w5" using 4 emit_facts [OF m] by (auto intro: accounts_after)
  have step: "run_body env cfg runID input st w =
     (case c of Some e \<Rightarrow> ((Some e, st), w1) | None \<Rightarrow> (case a of Some e \<Rightarrow> ((Some e, st), w2) | None \<Rightarrow>
      (case b of Some e \<Rightarrow> ((Some e, ?st), w3) | None \<Rightarrow> (case i of Some e \<Rightarrow> ((Some e, ?st), w4) | None \<Rightarrow>
      (case m of Some e \<Rightarrow> ((Some e, ?st), w5) | None \<Rightarrow> run_loop env cfg runID (iterations cfg) ?st w5)))))"
    using p a b i m by (simp add: run_body_def Let_def iterations_def split: option.split)
  show ?thesis
  proof (cases "c = None \<and> a = None \<and> b = None \<and> i = None \<and> m = None")
    case True
    then have "run_loop env cfg runID (iterations cfg) ?st w5 = ((e, st'), w')" using assms step by simp
    from accounts_trans [OF 5 run_loop_accounts [OF this]] show ?thesis by simp
  next
    case False
    then have "accounts ?ok 0 w w'" using assms step 1 2 3 4 5 by (auto split: option.splits)
    then show ?thesis by (rule accounts_more) simp
  qed
qed

text \<open>The cleanup: what it announces, and when.\<close>

lemma finish_run_world:
  assumes "finish_run env cfg err st w = (e, w')"
  shows "w_log w' = w_log w \<and> w_executed w' = w_executed w \<and> (e = None \<longrightarrow> err = None) \<and>
    (filter terminal_event (w_events w') = filter terminal_event (w_events w) \<or>
     (\<exists>evs ev. w_events w' = evs @ [ev] \<and> terminal_event ev \<and> filter terminal_event evs = filter terminal_event (w_events w) \<and>
        (ev = EventRunCompleted \<longrightarrow> err = None) \<and> (e = None \<longrightarrow> ev = EventRunCompleted)))"
proof -
  obtain d w1 where d: "call_ext (runtime_Dispose (rc_system cfg)) w = (d, w1)" by (metis prod.collapse)
  obtain x w2 where x: "end_hooks (map ly_run_end (rev (rc_layers cfg))) (errors_join [err, d]) w1 = (x, w2)" by fastforce
  let ?touched = "touch (le_log env (fst (w_ext w2))) (touch (le_log env (fst (w_ext w1))) (lp_touched st))"
  obtain y w3 where y: "flush_logs env ?touched x w2 = (y, w3)" by fastforce
  let ?h = "loop_host env cfg (lp_session st)"
  obtain c w4 where c: "do_poll ?h w3 = (c, w4)" by fastforce
  let ?ev = "case y of None \<Rightarrow> EventRunCompleted | Some e \<Rightarrow> EventRunFailed (err_text e)"
  obtain m w5 where m: "do_emit ?h ?ev w4 = (m, w5)" by fastforce
  have 4: "same_facts w w4"
    using call_facts [OF d] end_hooks_facts [OF x] flush_logs_facts [OF y] do_poll_facts [OF c] by (blast intro: same_facts_trans)
  have 5: "w_log w5 = w_log w4" "w_executed w5 = w_executed w4" "w_events w5 = w_events w4 @ [?ev]" using do_emit_same [OF m] by simp_all
  have joined: "\<exists>b. errors_join [Some z, a] = Some b" for z a by (cases a) auto
  have hooks: "(\<exists>z. err' = Some z) \<Longrightarrow> end_hooks hs err' v = (z', v') \<Longrightarrow> z' \<noteq> None" for hs err' z' and v v' :: "'a kernel"
    by (induction hs err' v rule: end_hooks.induct) (auto simp: joined split: prod.splits)
  have flushes: "x' \<noteq> None \<Longrightarrow> flush_logs env ls x' v = (z', v') \<Longrightarrow> z' \<noteq> None" for ls x' z' v v'
    by (induction ls arbitrary: x' v) (auto split: prod.splits option.splits simp: errors_join_None_iff)
  have y_ok: "y = None \<longrightarrow> err = None"
    using hooks [OF _ x] flushes [OF _ y] by (cases err; cases d) auto
  have res: "(e, w') = (if c \<noteq> None then (y, w4) else (errors_join [y, m], w5))"
    using assms d x y c m by (cases "c = None") (auto simp: finish_run_def Let_def)
  have final: "terminal_event ?ev" by (cases y) auto
  show ?thesis
  proof (cases "c = None")
    case False
    with res y_ok 4 show ?thesis by (simp add: same_facts_def)
  next
    case True
    with res have "e = errors_join [y, m]" "w' = w5" by auto
    then show ?thesis
      using y_ok 4 5 final by (cases y) (auto simp: same_facts_def errors_join_none2)
  qed
qed


text \<open>The whole run, before its properties are stated one by one.\<close>

lemma agent_run_accounts:
  assumes "agent_run env cfg input w = (e, w')"
  shows "\<exists>n r. w_log w' = w_log w @ n \<and> w_executed w' = w_executed w @ r \<and>
    subseq (outcome_ids n) (map tc_id (intended n)) \<and> subseq (answered n) (asked n) \<and> mset r \<subseteq># mset (intended n) \<and>
    length (asked n) \<le> iterations cfg \<and>
    (settles_always env \<and> counts_records env \<or> e = None \<longrightarrow> outcome_ids n = map tc_id (intended n) \<and> answered n = asked n) \<and>
    (filter terminal_event (w_events w') = filter terminal_event (w_events w) \<or>
     (\<exists>evs ev. w_events w' = evs @ [ev] \<and> terminal_event ev \<and> filter terminal_event evs = filter terminal_event (w_events w) \<and>
        (e = None \<longrightarrow> ev = EventRunCompleted) \<and>
        (ev = EventRunCompleted \<longrightarrow> outcome_ids n = map tc_id (intended n) \<and> answered n = asked n)))"
proof -
  obtain i w1 where i: "call_ext (le_new_id env) w = (i, w1)" by fastforce
  note 1 = call_facts [OF i]
  consider "same_facts w w'" | runID where "i = Inr runID"
      "lr_id (le_log env (fst (w_ext w))) \<noteq> []" "config_Validate (le_canon env) (rc_model cfg) = None"
    using assms i 1 by (cases i) (auto simp: agent_run_def split: option.splits if_splits)
  then show ?thesis
  proof cases
    case 1
    then show ?thesis by (intro exI [of _ "[]"]) (simp add: same_facts_def)
  next
    case (2 runID)
    let ?lg = "le_log env (fst (w_ext w1))"
    obtain err st w2 where b: "run_body env cfg runID input \<lparr>lp_session = ?lg, lp_touched = [?lg]\<rparr>
        (set_runtime (NewContextRuntime (lr_id ?lg)) w1) = ((err, st), w2)" by (metis prod.collapse)
    have f: "finish_run env cfg err st w2 = (e, w')" using assms i b 2 by (simp add: agent_run_def Let_def)
    note fin = finish_run_world [OF f]
    let ?ok = "settles_always env \<and> counts_records env \<or> err = None"
    have "accounts ?ok (iterations cfg) w w2"
      using run_body_accounts [OF b] 1 runtime_facts by (meson accounts_before)
    then obtain n r where n: "adds n r w w2" "subseq (outcome_ids n) (map tc_id (intended n))" "subseq (answered n) (asked n)"
      "?ok \<longrightarrow> outcome_ids n = map tc_id (intended n) \<and> answered n = asked n" "mset r \<subseteq># mset (intended n)" "length (asked n) \<le> iterations cfg"
      unfolding accounts_def by blast
    show ?thesis
      using fin n unfolding adds_def by (intro exI [of _ n] exI [of _ r]) auto
  qed
qed


subsection \<open>Properties\<close>

text \<open>Only tools the run and the request both allow, that the request advertises, are bound.\<close>

lemma bound_tools_allowed:
  "bound_tools cfg q offered n = Some t \<Longrightarrow>
     t \<in> set offered \<and> tl_name t = n \<and> n \<in> td_name ` set (mq_tools q) \<and>
     config_AllowsTool (rc_model cfg) n \<and> config_AllowsTool (mq_config q) n"
proof (induction offered arbitrary: t rule: rev_induct)
  case (snoc u offered)
  let ?ok = "list_ex (\<lambda>d. td_name d = tl_name u) (mq_tools q) \<and> config_AllowsTool (rc_model cfg) (tl_name u) \<and>
    config_AllowsTool (mq_config q) (tl_name u)"
  have step: "bound_tools cfg q (offered @ [u]) n = (if ?ok \<and> n = tl_name u then Some u else bound_tools cfg q offered n)"
    by (simp add: bound_tools_def)
  show ?case
  proof (cases "?ok \<and> n = tl_name u")
    case True
    with snoc.prems step have "t = u" by simp
    with True show ?thesis by (auto simp: list_ex_iff intro: rev_image_eqI)
  next
    case False
    have "bound_tools cfg q offered n = Some t" using snoc.prems unfolding step if_not_P [OF False] .
    from snoc.IH [OF this] show ?thesis by simp
  qed
qed (simp add: bound_tools_def)




text \<open>A witness: the model asks for a tool, sees its result and answers; the state counts its streams.\<close>

definition sample_call :: tool_call where
  "sample_call = \<lparr>tc_id = ''c1'', tc_name = ''t'', tc_arguments = ''{}'', tc_provider_state = []\<rparr>"

definition call_chunk :: stream_chunk where
  "call_chunk = \<lparr>ck_kind = ChunkToolCall, ck_index = None, ck_text = [], ck_tool_call = Some sample_call, ck_usage = None,
     ck_finish_reason = [], ck_block = None, ck_response_id = []\<rparr>"

definition sample_env :: "nat loop_env" where
  "sample_env =
     \<lparr>le_url = (\<lambda>_. None), le_canon = (\<lambda>s. s), le_marshal = (\<lambda>_. Inr ''{}''), le_encode = (\<lambda>_. ''{}''), le_fdiv = (\<lambda>a b. undefined),
      le_new_id = (\<lambda>x. (Inr ''id'', x)), le_poll = (\<lambda>x. (None, x)), le_emit = (\<lambda>ev x. (None, x)),
      le_commit = (\<lambda>lg d rs x. (Inr rs, x)), le_messages = (\<lambda>lg x. (Inr [], x)), le_flush = (\<lambda>lg x. (None, x)), le_order = (\<lambda>x. []),
      le_log = (\<lambda>x. \<lparr>lr_id = ''s'', lr_impl = 0\<rparr>),
      le_model = (\<lambda>x q. SEffect Suc (\<lambda>k. SEmit (if k = 0 then call_chunk else text_chunk ''done'') (\<lambda>_. SEmit (finish_chunk ''stop'') SReturn))),
      le_tools = (\<lambda>x. fst (registry_register empty_registry (Some (sample_tool ''t'')))),
      le_execute = (\<lambda>s t c x. ((ToolResult [] [text_block ''ok''] False, None), x)),
      le_effect = (\<lambda>t c. (\<lparr>ef_kind = EffectRead, ef_description = [], ef_resources = []\<rparr>, c)),
      le_scheduling = (\<lambda>t c. (safe_scheduling, c)), le_read_only = (\<lambda>t c. (True, c))\<rparr>"

definition sample_run_config :: "nat run_config" where
  "sample_run_config = \<lparr>rc_layers = [], rc_prompt = ''be brief'', rc_max_iterations = 5, rc_max_bytes = 1000, rc_workspace = ''/w'', rc_system = None,
     rc_source = None, rc_max_tools = 0, rc_model = blank_config\<rparr>"

definition sample_world :: "nat kernel" where
  "sample_world = \<lparr>w_log = [], w_events = [], w_executed = [], w_ext = (0, \<lparr>cr_agent = [], cr_pending = []\<rparr>)\<rparr>"

definition sample_result :: "go_error option \<times> nat kernel" where
  "sample_result = agent_run sample_env sample_run_config [TextMessage RoleUser ''hi''] sample_world"





end
