(* ===== verification/Admission.thy ===== *)
theory Admission
  imports Agent_Loop
begin

section \<open>Admission of requests against the context budget\<close>

text \<open>
  sdk/agent/context/admission.go: a middleware that estimates the final request, tools and late
  additions included, and refuses it over budget. It is an admission hook of the model onion.
  \<open>encode\<close> is \<open>json.Marshal\<close> of the request. Missing capabilities that reflection finds in a nil
  pointer have no counterpart.
\<close>

definition admission_budget :: "'h context_system \<Rightarrow> string \<Rightarrow> 'h \<Rightarrow> int result" where
  "admission_budget sys session h =
     (if sy_budget sys > 0 then Inr (sy_budget sys)
      else if session = [] then Inl (ErrNew ''context budget handle and runtime are required'')
      else (let budget = bi_budget (hd_budget (sy_handle sys) h session) in
        Inr (case sy_counter sys of Some c \<Rightarrow> if budget \<le> 0 then tc_window c else budget | None \<Rightarrow> budget)))"

definition admission_estimate :: "token_counter option \<Rightarrow> string \<Rightarrow> int result" where
  "admission_estimate counter d =
     (case counter of None \<Rightarrow> Inr ((int (length (runes d)) + 3) div 4)
      | Some c \<Rightarrow> if tc_count c d \<le> 0 then Inl (ErrNew ''context budget counter did not estimate the final request'') else Inr (tc_count c d))"

definition admit_budget :: "(model_request \<Rightarrow> string option) \<Rightarrow> go_error option \<Rightarrow> go_error option \<Rightarrow> 'h context_system option \<Rightarrow> string \<Rightarrow>
    model_request \<Rightarrow> 'h \<Rightarrow> go_error option" where
  "admit_budget encode canceled late system session q h =
     (case canceled of Some e \<Rightarrow> Some e
      | None \<Rightarrow>
        (case system of None \<Rightarrow> Some (ErrNew ''context budget system is required'')
         | Some sys \<Rightarrow>
           (case admission_budget sys session h of Inl e \<Rightarrow> Some e
            | Inr budget \<Rightarrow>
              if budget \<le> 0 then None
              else (case encode q of None \<Rightarrow> Some (ErrNew ''context budget cannot encode final request'')
                | Some d \<Rightarrow>
                  (case admission_estimate (sy_counter sys) d of Inl e \<Rightarrow> Some e
                   | Inr used \<Rightarrow>
                     if used > budget
                     then Some (ErrNew (''final model request exceeds context estimation budget ('' @ dec (nat used) @ '' > '' @ dec (nat budget) @ '')''))
                     else late)))))"

text \<open>The hook as a layer of the onion; it reads the context before and after.\<close>

definition budget_layer :: "(model_request \<Rightarrow> string option) \<Rightarrow> ('w \<Rightarrow> go_error option \<times> 'w) \<Rightarrow> 'w context_system option \<Rightarrow> string \<Rightarrow> 'w model_layer" where
  "budget_layer encode poll system session =
     \<lparr>ml_name = ''context-budget'',
      ml_admit = Some (\<lambda>q x. case poll x of (canceled, x) \<Rightarrow>
        (case poll x of (late, y) \<Rightarrow> (admit_budget encode canceled late system session q x, y))),
      ml_wrap = None\<rparr>"

lemma admitted_within_budget:
  assumes "admit_budget encode canceled late (Some sys) session q h = None" "0 < sy_budget sys"
  shows "\<exists>d used. encode q = Some d \<and> admission_estimate (sy_counter sys) d = Inr used \<and> used \<le> sy_budget sys"
  using assms by (auto simp: admit_budget_def admission_budget_def split: option.splits sum.splits if_splits)

text \<open>
  C23. A request over the budget never reaches the model. With the budget layer anywhere in the
  onion and a finite budget set, every request the actual model was streamed with - whatever
  wrappers added to it, and for every attempt - encodes to at most the budget by the estimate.
\<close>

theorem streamed_requests_fit_budget:
  assumes "budget_layer encode poll (Some sys) session \<in> set layers" "0 < sy_budget sys"
    and "keeps_invocation emit" "iv_published s = (iv_out s \<noteq> [])" "iv_streams s = []"
    and "wrapped_Stream url canon h layers model emit q s = (r, s')"
  shows "\<forall>(q, e, n) \<in> set (iv_streams s'). \<exists>d used. encode q = Some d \<and> admission_estimate (sy_counter sys) d = Inr used \<and> used \<le> sy_budget sys"
proof -
  have "\<exists>d used. encode p = Some d \<and> admission_estimate (sy_counter sys) d = Inr used \<and> used \<le> sy_budget sys"
    if "(p, e, n) \<in> set (iv_streams s')" for p e n
  proof -
    have "admitted layers p" using streams_are_sound(1) [OF assms(3-6)] that by (fastforce simp: sound_def sound_stream_def)
    with assms(1) obtain x x' where "(case poll x of (canceled, x) \<Rightarrow>
        (case poll x of (late, y) \<Rightarrow> (admit_budget encode canceled late (Some sys) session p x, y))) = (None, x')"
      unfolding admitted_def budget_layer_def by fastforce
    then obtain c l y where "admit_budget encode c l (Some sys) session p y = None" by (auto split: prod.splits)
    then show ?thesis by (rule admitted_within_budget) (rule assms(2))
  qed
  then show ?thesis by blast
qed


text \<open>A witness: a short budget around the model of before; the request reaches it once, within the budget.\<close>

definition small_budget :: "unit context_system" where
  "small_budget =
     \<lparr>sy_hooks = \<lparr>hk_bootstrap = None, hk_ingest = None, hk_on_message = None, hk_assemble = None, hk_on_budget = None, hk_after_turn = None, hk_dispose = None\<rparr>,
      sy_handle = \<lparr>hd_read = \<lambda>h a i. None, hd_inject = \<lambda>a l m h. (None, h), hd_tag_priority = \<lambda>a i p h. (None, h), hd_tag_exclude = \<lambda>a i h. (None, h),
        hd_budget = \<lambda>h a. undefined, hd_snapshot = \<lambda>h a. undefined\<rparr>,
      sy_apply = None, sy_counter = None, sy_budget = 2\<rparr>"

definition guarded_layers :: "unit model_layer list" where
  "guarded_layers = [stubborn_layer, budget_layer (\<lambda>q. Some ''{..}'') (\<lambda>x. (None, x)) (Some small_budget) ''s'']"

definition guarded_run :: "go_error option \<times> (unit, unit) invocation" where
  "guarded_run = wrapped_Stream (\<lambda>_. None) (\<lambda>s. s) quiet_host guarded_layers broken_model (\<lambda>c s. (None, s)) empty_request fresh_invocation"

lemma guarded_streams: "iv_streams (snd guarded_run) = [(empty_request, Some (Joined [ErrNew ''reset'']), 1)]"
  by code_simp

theorem streamed_requests_fit_budget_witness:
  "\<exists>used. admission_estimate None ''{..}'' = Inr used \<and> used \<le> 2 \<and> length (iv_streams (snd guarded_run)) = 1"
proof -
  have 1: "budget_layer (\<lambda>q. Some ''{..}'') (\<lambda>x. (None, x)) (Some small_budget) ''s'' \<in> set guarded_layers" by (simp add: guarded_layers_def)
  have 2: "0 < sy_budget small_budget" "sy_counter small_budget = None" "sy_budget small_budget = 2" by (simp_all add: small_budget_def)
  have 3: "keeps_invocation (\<lambda>c (s :: (unit, unit) invocation). (None, s))" by (simp add: keeps_invocation_def)
  have 4: "iv_published fresh_invocation = (iv_out fresh_invocation \<noteq> [])" "iv_streams fresh_invocation = []" by (simp_all add: fresh_invocation_def)
  from streamed_requests_fit_budget [OF 1 2(1) 3 4, of "\<lambda>_. None" "\<lambda>s. s" quiet_host broken_model empty_request "fst guarded_run" "snd guarded_run"]
  show ?thesis by (simp add: guarded_streams 2) (simp add: guarded_run_def)
qed

end
