(* ===== verification/Task_State.thy ===== *)
theory Task_State
  imports Wire_Json Go_Errors
begin

section \<open>Agent tasks\<close>

text \<open>
  sdk/agent/abi/task.go: the identity, life cycle and output cursor of a task. The random bytes and
  the clock are arguments; \<open>time.Time\<close> is an integer with 0 for the zero time; the duration and the
  offset are the 64-bit integers of the source.
\<close>

datatype task_kind =
    TaskLocalBash | TaskLocalAgent | TaskRemoteAgent | TaskInProcessTeammate | TaskLocalWorkflow | TaskMonitorMCP | TaskDream
  | TaskKindOther string

definition kind_Prefix :: "task_kind \<Rightarrow> char result" where
  "kind_Prefix k =
     (case k of
        TaskLocalBash \<Rightarrow> Inr CHR ''b'' | TaskLocalAgent \<Rightarrow> Inr CHR ''a'' | TaskRemoteAgent \<Rightarrow> Inr CHR ''r''
      | TaskInProcessTeammate \<Rightarrow> Inr CHR ''t'' | TaskLocalWorkflow \<Rightarrow> Inr CHR ''w'' | TaskMonitorMCP \<Rightarrow> Inr CHR ''m''
      | TaskDream \<Rightarrow> Inr CHR ''d'' | TaskKindOther _ \<Rightarrow> Inl (ErrNew ''unknown task kind''))"

datatype task_status = TaskPending | TaskRunning | TaskSucceeded | TaskFailed | TaskCancelled | TaskStatusOther string

definition Terminal :: "task_status \<Rightarrow> bool" where
  "Terminal s = (s = TaskSucceeded \<or> s = TaskFailed \<or> s = TaskCancelled)"

record task =
  tk_id :: string
  tk_kind :: task_kind
  tk_title :: string
  tk_status :: task_status
  tk_tool_use_id :: string
  tk_created_at :: int
  tk_started_at :: "int option"
  tk_ended_at :: "int option"
  tk_total_paused :: "64 word"
  tk_output_file :: string
  tk_output_offset :: "64 word"
  tk_notified :: bool

text \<open>\<open>strconv.FormatUint(n, 36)\<close> and the loop that pads it to eight digits.\<close>

definition digit36 :: "nat \<Rightarrow> char" where
  "digit36 n = char_of (if n < 10 then 48 + n else 87 + n)"

fun format36 :: "nat \<Rightarrow> string" where
  "format36 n = (if n < 36 then [digit36 n] else format36 (n div 36) @ [digit36 (n mod 36)])"

declare format36.simps [simp del]

function pad8 :: "string \<Rightarrow> string" where
  "pad8 s = (if length s < 8 then pad8 (CHR ''0'' # s) else s)"
  by pat_completeness auto
termination by (relation "measure (\<lambda>s. 8 - length s)") auto

declare pad8.simps [simp del]

definition task_text_ok :: "string \<Rightarrow> bool" where
  "task_text_ok t = (utf8_valid t \<and> int (length t) \<le> 16384 \<and> CHR 0x00 \<notin> set t)"

definition NewTask :: "64 word option \<Rightarrow> int \<Rightarrow> task_kind \<Rightarrow> string \<Rightarrow> string \<Rightarrow> string \<Rightarrow> task result" where
  "NewTask random now k title toolUseID outputFile =
     (case kind_Prefix k of Inl e \<Rightarrow> Inl e
      | Inr letter \<Rightarrow>
          if \<not> list_all task_text_ok [title, toolUseID, outputFile] then Inl (ErrNew ''invalid bounded task metadata'')
          else (case random of None \<Rightarrow> Inl (ErrNew ''crypto/rand'')
            | Some n \<Rightarrow> Inr \<lparr>tk_id = letter # pad8 (format36 (unat n)), tk_kind = k, tk_title = title, tk_status = TaskPending,
                tk_tool_use_id = toolUseID, tk_created_at = now, tk_started_at = None, tk_ended_at = None, tk_total_paused = 0,
                tk_output_file = outputFile, tk_output_offset = 0, tk_notified = False\<rparr>))"

definition task_Transition :: "int \<Rightarrow> task_status \<Rightarrow> task \<Rightarrow> task result" where
  "task_Transition now nxt t =
     (if \<not> (tk_status t = TaskPending \<and> (nxt = TaskRunning \<or> nxt = TaskCancelled) \<or> tk_status t = TaskRunning \<and> Terminal nxt)
      then Inl (ErrNew ''invalid task state transition'')
      else Inr (t\<lparr>tk_started_at := (if nxt = TaskRunning then Some now else tk_started_at t),
        tk_ended_at := (if Terminal nxt then Some now else tk_ended_at t), tk_status := nxt\<rparr>))"

definition task_AdvanceOutput :: "64 word \<Rightarrow> task \<Rightarrow> task result" where
  "task_AdvanceOutput nxt t =
     (if nxt <s tk_output_offset t \<or> nxt <s 0 then Inl (ErrNew ''task output cursor cannot move backwards'')
      else Inr (t\<lparr>tk_output_offset := nxt\<rparr>))"

definition MaxInt64 :: "64 word" where "MaxInt64 = 9223372036854775807"

definition task_AddPaused :: "64 word \<Rightarrow> task \<Rightarrow> task result" where
  "task_AddPaused d t =
     (if tk_status t \<noteq> TaskRunning \<or> d <s 0 \<or> MaxInt64 - d <s tk_total_paused t then Inl (ErrNew ''invalid task paused duration'')
      else Inr (t\<lparr>tk_total_paused := tk_total_paused t + d\<rparr>))"

subsection \<open>Identities\<close>

lemma length_format36: "n < 36 ^ Suc k \<Longrightarrow> 1 \<le> length (format36 n) \<and> length (format36 n) \<le> Suc k"
proof (induction k arbitrary: n)
  case (Suc k)
  show ?case
  proof (cases "n < 36")
    case False
    have "n div 36 < 36 ^ Suc k" using Suc.prems by (simp add: div_less_iff_less_mult)
    from Suc.IH [OF this] False show ?thesis by (simp add: format36.simps [of n])
  qed (simp add: format36.simps [of n])
qed (simp add: format36.simps)

lemma length_pad8: "length (pad8 s) = max 8 (length s)"
proof (induction s rule: pad8.induct)
  case (1 s)
  then show ?case by (subst pad8.simps) auto
qed

lemma new_task_id_bounds:
  assumes "NewTask random now k title use file = Inr t"
  shows "9 \<le> length (tk_id t)" "length (tk_id t) \<le> 14"
proof -
  from assms obtain c n where "tk_id t = c # pad8 (format36 (unat (n :: 64 word)))"
    by (force simp: NewTask_def split: sum.splits option.splits if_splits)
  moreover have "unat n < 36 ^ Suc 12" using unsigned_less [of n, where ?'a = nat] by simp
  ultimately show "9 \<le> length (tk_id t)" "length (tk_id t) \<le> 14"
    using length_format36 [of "unat n" 12] by (auto simp: length_pad8)
qed

subsection \<open>The life of a task\<close>

text \<open>Every way a task's owner changes it, and the tasks that can arise.\<close>

inductive task_step :: "task \<Rightarrow> task \<Rightarrow> bool" where
  transition: "task_Transition now nxt t = Inr t' \<Longrightarrow> task_step t t'"
| cursor: "task_AdvanceOutput n t = Inr t' \<Longrightarrow> task_step t t'"
| paused: "task_AddPaused d t = Inr t' \<Longrightarrow> task_step t t'"

inductive task_lives :: "task \<Rightarrow> task \<Rightarrow> bool" where
  born: "task_lives t t"
| step: "task_lives t t' \<Longrightarrow> task_step t' t'' \<Longrightarrow> task_lives t t''"

inductive_cases task_stepE: "task_step t t'"

definition task_ok :: "task \<Rightarrow> bool" where
  "task_ok t \<longleftrightarrow>
     (case tk_status t of
        TaskPending \<Rightarrow> tk_started_at t = None \<and> tk_ended_at t = None \<and> tk_total_paused t = 0
      | TaskRunning \<Rightarrow> tk_started_at t \<noteq> None \<and> tk_ended_at t = None
      | TaskSucceeded \<Rightarrow> tk_started_at t \<noteq> None \<and> tk_ended_at t \<noteq> None
      | TaskFailed \<Rightarrow> tk_started_at t \<noteq> None \<and> tk_ended_at t \<noteq> None
      | TaskCancelled \<Rightarrow> tk_ended_at t \<noteq> None
      | TaskStatusOther _ \<Rightarrow> False) \<and>
     0 \<le> sint (tk_total_paused t) \<and> 0 \<le> sint (tk_output_offset t)"

lemma new_task_ok: "NewTask random now k title use file = Inr t \<Longrightarrow> task_ok t"
  by (auto simp: NewTask_def task_ok_def split: sum.splits option.splits if_splits)

lemma paused_is_exact:
  assumes "task_AddPaused d t = Inr t'" "0 \<le> sint (tk_total_paused t)"
  shows "sint (tk_total_paused t') = sint (tk_total_paused t) + sint d" "0 \<le> sint d" "0 \<le> sint (tk_total_paused t')"
proof -
  from assms(1) have d: "0 \<le> sint d" and lim: "sint (tk_total_paused t) \<le> sint (MaxInt64 - d)" and t': "tk_total_paused t' = tk_total_paused t + d"
    by (auto simp: task_AddPaused_def word_sless_alt not_less split: if_splits)
  have dm: "sint d < 2 ^ 63" using sint_lt [of d] by simp
  have mi: "sint MaxInt64 = 2 ^ 63 - 1" by (simp add: MaxInt64_def)
  have "sint (MaxInt64 - d) = 2 ^ 63 - 1 - sint d" unfolding sint_word_diff mi
    by (rule signed_take_bit_int_eq_self) (use d dm in auto)
  with lim have le: "sint (tk_total_paused t) + sint d \<le> 2 ^ 63 - 1" by simp
  then show "sint (tk_total_paused t') = sint (tk_total_paused t) + sint d" unfolding t' sint_word_add
    by (intro signed_take_bit_int_eq_self) (use d assms(2) in auto)
  with d assms(2) show "0 \<le> sint d" "0 \<le> sint (tk_total_paused t')" by simp_all
qed


lemma transition_ok: "task_Transition now nxt t = Inr t' \<Longrightarrow> task_ok t \<Longrightarrow> task_ok t'"
  by (cases nxt) (auto simp: task_Transition_def task_ok_def Terminal_def split: if_splits)

lemma cursor_ok: "task_AdvanceOutput n t = Inr t' \<Longrightarrow> task_ok t \<Longrightarrow> task_ok t'"
  by (cases "tk_status t") (auto simp: task_AdvanceOutput_def task_ok_def word_sless_alt split: if_splits)

lemma paused_ok:
  assumes "task_AddPaused d t = Inr t'" "task_ok t"
  shows "task_ok t'"
proof -
  have t': "tk_status t = TaskRunning" "t' = t\<lparr>tk_total_paused := tk_total_paused t'\<rparr>"
    using assms(1) by (auto simp: task_AddPaused_def split: if_splits)
  have "0 \<le> sint (tk_total_paused t')" using paused_is_exact(3) [OF assms(1)] assms(2) by (simp add: task_ok_def)
  with assms(2) t'(1) have "task_ok (t\<lparr>tk_total_paused := tk_total_paused t'\<rparr>)" by (simp add: task_ok_def)
  with t'(2) show ?thesis by metis
qed

lemma task_step_ok: "task_step t t' \<Longrightarrow> task_ok t \<Longrightarrow> task_ok t'"
  by (elim task_stepE) (auto intro: transition_ok cursor_ok paused_ok)

text \<open>What a task keeps for life, and how far it can go.\<close>

fun stage_of :: "task_status \<Rightarrow> nat" where
  "stage_of TaskPending = 0"
| "stage_of TaskRunning = 1"
| "stage_of _ = 2"

definition task_advances :: "task \<Rightarrow> task \<Rightarrow> bool" where
  "task_advances t t' \<longleftrightarrow> tk_id t' = tk_id t \<and> tk_kind t' = tk_kind t \<and> tk_created_at t' = tk_created_at t \<and>
     tk_output_file t' = tk_output_file t \<and> sint (tk_output_offset t) \<le> sint (tk_output_offset t') \<and>
     (tk_status t' = tk_status t \<or> stage_of (tk_status t) < stage_of (tk_status t') \<and> \<not> Terminal (tk_status t))"

lemma task_advances_refl [simp]: "task_advances t t"
  by (simp add: task_advances_def)

lemma task_advances_trans: "task_advances a b \<Longrightarrow> task_advances b c \<Longrightarrow> task_advances a c"
  by (auto simp: task_advances_def)

lemma task_step_advances: "task_step t t' \<Longrightarrow> task_advances t t'"
proof (elim task_stepE, goal_cases)
  case (1 now nxt)
  then show ?case by (cases nxt) (auto simp: task_Transition_def task_advances_def Terminal_def split: if_splits)
next
  case (2 n)
  then show ?case by (auto simp: task_AdvanceOutput_def task_advances_def word_sless_alt split: if_splits)
next
  case (3 d)
  then show ?case by (auto simp: task_AddPaused_def task_advances_def split: if_splits)
qed

text \<open>
  The life cycle of a task. Whatever its owner does, in any order, a task keeps its identity, kind
  and creation time; it has started exactly when it ran and has ended exactly when its status is
  terminal; a terminal status is final; the output cursor never moves back and the paused time
  never overflows into a negative duration.
\<close>

theorem task_life_cycle:
  assumes "NewTask random now k title use file = Inr t" "task_lives t t'"
  shows "task_ok t' \<and> task_advances t t' \<and> (\<forall>t''. task_lives t' t'' \<longrightarrow> Terminal (tk_status t') \<longrightarrow> tk_status t'' = tk_status t')"
proof -
  have lives: "task_ok t \<longrightarrow> task_ok t'" "task_advances t t'" if "task_lives t t'" for t t'
    using that by (induction) (auto intro: task_step_ok task_step_advances task_advances_trans)
  have "tk_status t'' = tk_status t'" if "task_lives t' t''" "Terminal (tk_status t')" for t''
    using lives(2) [OF that(1)] that(2) by (auto simp: task_advances_def)
  with lives [OF assms(2)] new_task_ok [OF assms(1)] show ?thesis by blast
qed

text \<open>A witness: a task starts and succeeds.\<close>

definition sample_life :: "task list" where
  "sample_life = (case NewTask (Some 35) 5 TaskLocalWorkflow ''t'' [] [] of Inl _ \<Rightarrow> []
     | Inr t \<Rightarrow> (case task_Transition 6 TaskRunning t of Inl _ \<Rightarrow> []
       | Inr u \<Rightarrow> (case task_Transition 7 TaskSucceeded u of Inl _ \<Rightarrow> [] | Inr v \<Rightarrow> [t, u, v])))"

lemma sample_life: "map tk_status sample_life = [TaskPending, TaskRunning, TaskSucceeded]"
  by code_simp

theorem task_life_cycle_witness:
  "\<exists>t u v. sample_life = [t, u, v] \<and> task_ok v \<and> task_advances t v \<and> tk_status v = TaskSucceeded"
proof -
  from sample_life obtain t u v where l: "sample_life = [t, u, v]" "tk_status v = TaskSucceeded" by (auto simp: map_eq_Cons_conv)
  then have s: "NewTask (Some 35) 5 TaskLocalWorkflow ''t'' [] [] = Inr t" "task_Transition 6 TaskRunning t = Inr u" "task_Transition 7 TaskSucceeded u = Inr v"
    by (auto simp: sample_life_def split: sum.splits)
  have "task_lives t v"
    using task_lives.step [OF task_lives.step [OF task_lives.born task_step.transition [OF s(2)]] task_step.transition [OF s(3)]] .
  with task_life_cycle [OF s(1) this] l show ?thesis by blast
qed

end
