(* ===== verification/Interaction.thy ===== *)
theory Interaction
  imports Wire_Json Go_Errors
begin

section \<open>Questions to a human\<close>

text \<open>
  extension/interaction/question.go: the bounds of a question and the resolution of an answer. A
  nil pointer is None; the metadata object is read with \<open>json.Unmarshal\<close> into a map.
\<close>

text \<open>\<open>json.Unmarshal\<close> into a map of raw messages, and the result not nil: the text is a JSON object.\<close>

definition json_map_object :: "string \<Rightarrow> bool" where
  "json_map_object d = (json_valid d \<and> (case dropWhile is_space d of [] \<Rightarrow> False | c # _ \<Rightarrow> c = CHR 0x7B))"

definition small_text :: "string \<Rightarrow> int \<Rightarrow> bool" where
  "small_text s n = (utf8_valid s \<and> int (length s) \<le> n \<and> CHR 0x00 \<notin> set s)"

record choice =
  ch_label :: string
  ch_value :: "string option"

record question =
  qu_id :: string
  qu_session_id :: string
  qu_run_id :: string
  qu_call_id :: string
  qu_prompt :: string
  qu_header :: string
  qu_options :: "choice list"
  qu_multi :: bool
  qu_metadata :: string

record human_answer =
  an_text :: "string option"
  an_selected :: "int list"

record resolved_answer =
  ra_text :: string
  ra_selected :: "int list"
  ra_structured :: bool

definition question_Validate :: "question \<Rightarrow> go_error option" where
  "question_Validate q =
     (if list_ex (\<lambda>i. i = [] \<or> \<not> small_text i 512) [qu_id q, qu_session_id q, qu_run_id q, qu_call_id q]
      then Some (ErrNew ''actual bounded question identity required'')
      else if qu_prompt q = [] \<or> \<not> small_text (qu_prompt q) 8192 \<or> \<not> small_text (qu_header q) 1024 \<or> int (length (qu_metadata q)) > 4096
      then Some (ErrNew ''bounded question/header/metadata required'')
      else if length (qu_options q) \<noteq> 0 \<and> (length (qu_options q) < 2 \<or> length (qu_options q) > 4)
      then Some (ErrNew ''question options must contain 2..4 choices'')
      else if qu_multi q \<and> qu_options q = [] then Some (ErrNew ''multi_select requires explicit options'')
      else if list_ex (\<lambda>c. ch_label c = [] \<or> \<not> small_text (ch_label c) 512 \<or> (case ch_value c of None \<Rightarrow> False | Some v \<Rightarrow> \<not> small_text v 1024)) (qu_options q)
      then Some (ErrNew ''bounded choice label/value required'')
      else if qu_metadata q \<noteq> [] \<and> \<not> json_map_object (qu_metadata q) then Some (ErrNew ''question metadata requires JSON object'')
      else None)"

text \<open>The loop over the selected indexes (1-based); None is the index error.\<close>

definition choice_value :: "choice \<Rightarrow> string" where
  "choice_value c = (case ch_value c of None \<Rightarrow> ch_label c | Some v \<Rightarrow> v)"

fun select_values :: "choice list \<Rightarrow> int list \<Rightarrow> int list \<Rightarrow> string list option" where
  "select_values options seen [] = Some []"
| "select_values options seen (i # is) =
     (if i < 1 \<or> i > int (length options) \<or> i \<in> set seen then None
      else map_option (Cons (choice_value (options ! nat (i - 1)))) (select_values options (i # seen) is))"

definition question_Resolve :: "question \<Rightarrow> human_answer \<Rightarrow> resolved_answer result" where
  "question_Resolve q a =
     (case question_Validate q of Some e \<Rightarrow> Inl e
      | None \<Rightarrow>
        if (an_text a = None) = (an_selected a = []) then Inl (ErrNew ''answer requires explicit text OR selections, never both'')
        else (case an_text a of
            Some t \<Rightarrow> if \<not> small_text t 65536 then Inl (ErrNew ''human answer exceeds 64 KiB UTF-8'')
              else Inr \<lparr>ra_text = t, ra_selected = [], ra_structured = False\<rparr>
          | None \<Rightarrow>
              if qu_options q = [] \<or> length (an_selected a) > length (qu_options q) \<or> \<not> qu_multi q \<and> length (an_selected a) \<noteq> 1
              then Inl (ErrNew ''invalid choice count'')
              else (case select_values (qu_options q) [] (an_selected a) of None \<Rightarrow> Inl (ErrNew ''invalid/duplicate 1-based choice index'')
                | Some vs \<Rightarrow> Inr \<lparr>ra_text = str_join '', '' vs, ra_selected = an_selected a, ra_structured = True\<rparr>)))"

subsection \<open>What an accepted answer says\<close>

lemma select_values_Some:
  "select_values options seen is = Some vs \<longleftrightarrow>
     distinct is \<and> set is \<inter> set seen = {} \<and> (\<forall>i \<in> set is. 1 \<le> i \<and> i \<le> int (length options)) \<and>
     vs = map (\<lambda>i. choice_value (options ! nat (i - 1))) is"
proof (induction "is" arbitrary: seen vs)
  case (Cons i "is")
  show ?case
  proof (cases "i < 1 \<or> i > int (length options) \<or> i \<in> set seen")
    case False
    then show ?thesis by (cases vs) (auto simp: Cons.IH)
  qed auto
qed auto

text \<open>What an answer may say to a valid question.\<close>

definition answers_question :: "question \<Rightarrow> human_answer \<Rightarrow> bool" where
  "answers_question q a \<longleftrightarrow>
     (case an_text a of
        Some t \<Rightarrow> an_selected a = [] \<and> small_text t 65536
      | None \<Rightarrow> an_selected a \<noteq> [] \<and> distinct (an_selected a) \<and> (\<forall>i \<in> set (an_selected a). 1 \<le> i \<and> i \<le> int (length (qu_options q))) \<and>
          (qu_multi q \<or> length (an_selected a) = 1))"

lemma distinct_in_range:
  assumes "distinct is" "\<forall>i \<in> set is. 1 \<le> i \<and> i \<le> int n"
  shows "length is \<le> n"
proof -
  have "set is \<subseteq> {1..int n}" using assms(2) by auto
  from card_mono [OF _ this] show ?thesis using assms(1) by (simp add: distinct_card)
qed

text \<open>
  Resolving accepts an answer exactly when the question is well formed and the answer is a bounded
  text or a choice of different offered options, one unless the question allows several; the
  resolved text is then the text, or the chosen values in the order of the selection.
\<close>

theorem resolution_is_exact:
  "(\<exists>r. question_Resolve q a = Inr r) \<longleftrightarrow> question_Validate q = None \<and> answers_question q a"
  "question_Resolve q a = Inr r \<Longrightarrow> ra_selected r = an_selected a \<and>
     ra_text r = (case an_text a of Some t \<Rightarrow> t | None \<Rightarrow> str_join '', '' (map (\<lambda>i. choice_value (qu_options q ! nat (i - 1))) (an_selected a)))"
proof -
  show "(\<exists>r. question_Resolve q a = Inr r) \<longleftrightarrow> question_Validate q = None \<and> answers_question q a"
  proof (cases "question_Validate q = None \<and> an_text a = None \<and> an_selected a \<noteq> []")
    case True
    show ?thesis
    proof (cases "select_values (qu_options q) [] (an_selected a)")
      case None
      with True show ?thesis using select_values_Some [of "qu_options q" "[]" "an_selected a"]
        by (auto simp: question_Resolve_def answers_question_def)
    next
      case (Some vs)
      then have d: "distinct (an_selected a)" "\<forall>i \<in> set (an_selected a). 1 \<le> i \<and> i \<le> int (length (qu_options q))"
        by (auto simp: select_values_Some)
      with distinct_in_range [OF d] True Some show ?thesis by (auto simp: question_Resolve_def answers_question_def)
    qed
  next
    case False
    then show ?thesis by (auto simp: question_Resolve_def answers_question_def split: option.splits)
  qed
  show "question_Resolve q a = Inr r \<Longrightarrow> ra_selected r = an_selected a \<and>
     ra_text r = (case an_text a of Some t \<Rightarrow> t | None \<Rightarrow> str_join '', '' (map (\<lambda>i. choice_value (qu_options q ! nat (i - 1))) (an_selected a)))"
    by (auto simp: question_Resolve_def select_values_Some split: option.splits if_splits)
qed

end
