(* ===== verification/Session_Store.thy ===== *)
theory Session_Store
  imports Memory_Session Accumulator
begin

section \<open>The durable session store\<close>

text \<open>
  platform/storage/session: repository.go, records.go, record_queries.go, recovery.go, budget.go,
  child.go. The SQLite tables \<open>sessions\<close>, \<open>records\<close> and \<open>child_links\<close> are lists of rows; a \<open>SELECT\<close> is a
  filter (sorted where the query sorts), the unique indexes are the conflicts an \<open>INSERT\<close> reports.
  An operation runs in one transaction under the repository's mutex, so an error returns the
  state it started from (\<open>tx.Rollback\<close>). A record's JSON is kept in an artifact and read back by
  \<open>Records\<close>: the row holds the record itself here.

  What the code calls outside is the environment: database failures (before the first write, at
  the write of a record - its encoding, its artifact and its row - and at the commit), the clock,
  JSON encoding (of a record, of a string) and the size \<open>boundedRecordInput\<close> walks, the credential redaction of a record, and the
  URL parser of \<open>Validate\<close>.
\<close>

record db_env =
  db_begin :: "go_error option"
  db_write :: "session_record \<Rightarrow> go_error option"
  db_commit :: "go_error option"
  db_clock :: "nat \<Rightarrow> int"
  db_encode :: "session_record \<Rightarrow> string option"
  db_raw :: "session_record \<Rightarrow> nat option"
  db_redact :: "session_record \<Rightarrow> session_record result"
  db_quote :: "string \<Rightarrow> string"
  db_url :: url_parser

record session_row =
  sw_id :: string
  sw_owner :: string
  sw_parent :: "string option"
  sw_created :: int
  sw_next :: nat

record child_link =
  cl_child :: string
  cl_parent :: string
  cl_sequence :: nat
  cl_record :: string

record repository =
  rp_sessions :: "session_row list"
  rp_records :: "(string \<times> session_record) list"
  rp_links :: "child_link list"
  rp_closed :: bool
  rp_active :: "string list"

definition ErrNotFound :: go_error where "ErrNotFound = ErrNew ''session or artifact is unavailable to this owner''"
definition ErrActive :: go_error where "ErrActive = ErrNew ''session already has an active run''"
definition ErrClosed :: go_error where "ErrClosed = ErrNew ''storage is closed''"
definition ErrRevisionConflict :: go_error where "ErrRevisionConflict = ErrNew ''extension snapshot revision changed; no write committed''"
definition ErrNoRows :: go_error where "ErrNoRows = ErrNew ''sql: no rows in result set''"

definition empty_repository :: repository where
  "empty_repository = \<lparr>rp_sessions = [], rp_records = [], rp_links = [], rp_closed = False, rp_active = []\<rparr>"

subsection \<open>Queries\<close>

definition identity_char :: "char \<Rightarrow> bool" where
  "identity_char c = (in_range 48 57 c \<or> in_range 65 90 c \<or> in_range 97 122 c)"

text \<open>\<open>^[A-Za-z0-9][A-Za-z0-9._:-]{0,127}$\<close>\<close>

definition validIdentity :: "string \<Rightarrow> bool" where
  "validIdentity s =
     (case s of [] \<Rightarrow> False
      | c # cs \<Rightarrow> identity_char c \<and> length cs \<le> 127 \<and> list_all (\<lambda>d. identity_char d \<or> d \<in> set ''._:-'') cs)"

definition rp_authorize :: "repository \<Rightarrow> string \<Rightarrow> string \<Rightarrow> go_error option" where
  "rp_authorize rp owner sid =
     (if \<not> validIdentity owner \<or> \<not> validIdentity sid then Some ErrNotFound
      else if list_ex (\<lambda>w. sw_owner w = owner \<and> sw_id w = sid) (rp_sessions rp) then None else Some ErrNotFound)"

definition table_rows :: "string \<Rightarrow> repository \<Rightarrow> session_record list" where
  "table_rows sid rp = map snd (filter (\<lambda>(s, r). s = sid) (rp_records rp))"

text \<open>\<open>... WHERE session_id=? ORDER BY seq\<close>\<close>

definition rows_of :: "string \<Rightarrow> repository \<Rightarrow> session_record list" where
  "rows_of sid rp = sort_key sr_sequence (table_rows sid rp)"

definition next_seq :: "string \<Rightarrow> repository \<Rightarrow> nat option" where
  "next_seq sid rp = map_option sw_next (List.find (\<lambda>w. sw_id w = sid) (rp_sessions rp))"

definition record_at :: "string \<Rightarrow> nat \<Rightarrow> repository \<Rightarrow> session_record option" where
  "record_at sid q rp = List.find (\<lambda>r. sr_sequence r = q) (table_rows sid rp)"

text \<open>What the unique indexes and the primary key refuse.\<close>

definition same_entry :: "session_record \<Rightarrow> session_record \<Rightarrow> bool" where
  "same_entry r x =
     (sr_sequence x = sr_sequence r \<or> sr_id x = sr_id r \<or>
      sr_kind x = sr_kind r \<and>
      (case sr_kind r of
         RecordModelIntent \<Rightarrow> mi_request_id (the (sr_model_intent x)) = mi_request_id (the (sr_model_intent r))
       | RecordModelOutcome \<Rightarrow> mo_request_id (the (sr_model_outcome x)) = mo_request_id (the (sr_model_outcome r))
       | RecordToolIntent \<Rightarrow> intent_key x = intent_key r
       | RecordToolOutcome \<Rightarrow> outcome_key x = outcome_key r
       | _ \<Rightarrow> False))"

definition insert_record :: "db_env \<Rightarrow> string \<Rightarrow> session_record \<Rightarrow> repository \<Rightarrow> repository result" where
  "insert_record env sid r rp =
     (case db_write env r of Some e \<Rightarrow> Inl e
      | None \<Rightarrow>
          if list_ex (same_entry r) (table_rows sid rp)
          then Inl (Wrapf ''append typed record: '' (ErrNew ''UNIQUE constraint failed''))
          else Inr (rp\<lparr>rp_records := rp_records rp @ [(sid, r)]\<rparr>))"

subsection \<open>Appending a batch (appendTx)\<close>

text \<open>\<open>2 + 3*wire.MaxStreamContentBlocks\<close> and \<open>64 << 20\<close>.\<close>

definition MaxBatchRecords :: int where "MaxBatchRecords = 12290"
definition maxBatchInputBytes :: int where "maxBatchInputBytes = 67108864"

lemma MaxBatchRecords_def': "MaxBatchRecords = int (2 + 3 * MaxStreamContentBlocks)"
  by (simp add: MaxBatchRecords_def MaxStreamContentBlocks_def)

fun batch_bytes :: "db_env \<Rightarrow> int \<Rightarrow> session_record list \<Rightarrow> go_error option" where
  "batch_bytes env remaining [] = None"
| "batch_bytes env remaining (r # rs) =
     (case db_raw env r of None \<Rightarrow> Some (ErrNew ''record batch exceeds 67108864 input bytes or structural depth'')
      | Some raw \<Rightarrow>
          if int raw > remaining then Some (ErrNew ''record batch exceeds 67108864 input bytes or structural depth'')
          else (case db_encode env r of None \<Rightarrow> Some (ErrNew ''record batch JSON encoding failed'')
            | Some encoded \<Rightarrow>
                (let cost = max (int (length encoded)) (int raw) in
                 if cost > remaining then Some (ErrNew ''record batch exceeds 67108864 serialized bytes'')
                 else batch_bytes env (remaining - cost) rs)))"

definition validateRecordBatchBudget :: "db_env \<Rightarrow> session_record list \<Rightarrow> go_error option" where
  "validateRecordBatchBudget env rs =
     (if int (length rs) > MaxBatchRecords then Some (ErrNew ''record batch exceeds 12290 records'')
      else batch_bytes env maxBatchInputBytes rs)"

text \<open>The first loop of \<open>appendTx\<close>: each record is redacted, validated and has no identity of its own.\<close>

fun clean_records :: "db_env \<Rightarrow> session_record list \<Rightarrow> session_record list result" where
  "clean_records env [] = Inr []"
| "clean_records env (r # rs) =
     (case db_redact env r of Inl e \<Rightarrow> Inl e
      | Inr r' \<Rightarrow>
          (case precheck (db_url env) r' of Some e \<Rightarrow> Inl e
           | None \<Rightarrow> (case clean_records env rs of Inl e \<Rightarrow> Inl e | Inr rest \<Rightarrow> Inr (r' # rest))))"

definition parent_check :: "string \<Rightarrow> nat \<Rightarrow> session_record \<Rightarrow> repository \<Rightarrow> go_error option" where
  "parent_check sid nxt r rp =
     (case sr_parent r of None \<Rightarrow> None
      | Some p \<Rightarrow>
          if rf_session_id p \<noteq> sid \<or> rf_sequence p = 0 \<or> rf_sequence p \<ge> nxt
          then Some (ErrNew ''causal parent is outside committed/staged session'')
          else (case record_at sid (rf_sequence p) rp of None \<Rightarrow> Some ErrNoRows
            | Some x \<Rightarrow> if sr_id x \<noteq> rf_record_id p then Some (ErrNew ''causal parent identity mismatch'') else None))"

definition intent_check :: "string \<Rightarrow> session_record \<Rightarrow> repository \<Rightarrow> go_error option" where
  "intent_check sid r rp =
     (case sr_kind r of
        RecordModelOutcome \<Rightarrow>
          if mo_request_id (the (sr_model_outcome r)) \<in> set (model_intent_keys (table_rows sid rp)) then None
          else Some (ErrNew ''model outcome has no matching intent'')
      | RecordToolOutcome \<Rightarrow>
          if outcome_key r \<in> set (tool_intent_keys (table_rows sid rp)) then None
          else Some (ErrNew ''tool outcome has no matching intent'')
      | _ \<Rightarrow> None)"

text \<open>Sequence, identity, time and message identity are the store's; the parent defaults to the previous record.\<close>

definition stamp_record :: "db_env \<Rightarrow> string \<Rightarrow> nat \<Rightarrow> session_record \<Rightarrow> session_record" where
  "stamp_record env sid nxt r =
     (let rid = sid @ '':'' @ dec nxt in
      r\<lparr>sr_sequence := nxt, sr_id := rid, sr_time := db_clock env nxt,
        sr_message := map_option (\<lambda>m. if m_id m = [] then m\<lparr>m_id := rid\<rparr> else m) (sr_message r)\<rparr>)"

definition link_parent :: "string \<Rightarrow> nat \<Rightarrow> session_record \<Rightarrow> repository \<Rightarrow> session_record result" where
  "link_parent sid nxt r rp =
     (if sr_parent r = None \<and> nxt > 1
      then (case record_at sid (nxt - 1) rp of None \<Rightarrow> Inl ErrNoRows
        | Some x \<Rightarrow> Inr (r\<lparr>sr_parent := Some \<lparr>rf_session_id = sid, rf_record_id = sr_id x, rf_sequence = nxt - 1\<rparr>\<rparr>))
      else Inr r)"

definition append_record :: "db_env \<Rightarrow> string \<Rightarrow> nat \<Rightarrow> session_record \<Rightarrow> repository \<Rightarrow> (session_record \<times> repository) result" where
  "append_record env sid nxt r rp =
     (case parent_check sid nxt r rp of Some e \<Rightarrow> Inl e
      | None \<Rightarrow>
        (case intent_check sid r rp of Some e \<Rightarrow> Inl e
         | None \<Rightarrow>
           (case link_parent sid nxt (stamp_record env sid nxt r) rp of Inl e \<Rightarrow> Inl e
            | Inr r' \<Rightarrow>
              (case insert_record env sid r' rp of Inl e \<Rightarrow> Inl e | Inr rp' \<Rightarrow> Inr (r', rp')))))"

text \<open>The second loop, and the update of \<open>next_seq\<close> after it.\<close>

fun append_all :: "db_env \<Rightarrow> string \<Rightarrow> nat \<Rightarrow> session_record list \<Rightarrow> repository \<Rightarrow> (session_record list \<times> repository) result" where
  "append_all env sid nxt [] rp =
     Inr ([], rp\<lparr>rp_sessions := map (\<lambda>w. if sw_id w = sid then w\<lparr>sw_next := nxt\<rparr> else w) (rp_sessions rp)\<rparr>)"
| "append_all env sid nxt (r # rs) rp =
     (case append_record env sid nxt r rp of Inl e \<Rightarrow> Inl e
      | Inr (r', rp1) \<Rightarrow>
          (case append_all env sid (nxt + 1) rs rp1 of Inl e \<Rightarrow> Inl e | Inr (rest, rp2) \<Rightarrow> Inr (r' # rest, rp2)))"

definition appendTx :: "db_env \<Rightarrow> string \<Rightarrow> session_record list \<Rightarrow> repository \<Rightarrow> (session_record list \<times> repository) result" where
  "appendTx env sid rs rp =
     (case validateRecordBatchBudget env rs of Some e \<Rightarrow> Inl e
      | None \<Rightarrow>
        (case clean_records env rs of Inl e \<Rightarrow> Inl e
         | Inr owned \<Rightarrow>
           (case next_seq sid rp of None \<Rightarrow> Inl ErrNoRows
            | Some nxt \<Rightarrow> append_all env sid nxt owned rp)))"

text \<open>Every exported operation: closed check, begin, authorize, body, commit; an error rolls back.\<close>

definition transaction :: "db_env \<Rightarrow> string \<Rightarrow> string \<Rightarrow> (repository \<Rightarrow> ('a \<times> repository) result) \<Rightarrow> repository \<Rightarrow> 'a result \<times> repository" where
  "transaction env owner sid body rp =
     (if rp_closed rp then (Inl ErrClosed, rp)
      else (case db_begin env of Some e \<Rightarrow> (Inl e, rp)
        | None \<Rightarrow>
          (case rp_authorize rp owner sid of Some e \<Rightarrow> (Inl e, rp)
           | None \<Rightarrow>
             (case body rp of Inl e \<Rightarrow> (Inl e, rp)
              | Inr (x, rp') \<Rightarrow> (case db_commit env of Some e \<Rightarrow> (Inl e, rp) | None \<Rightarrow> (Inr x, rp'))))))"

definition session_AppendRecords :: "db_env \<Rightarrow> string \<Rightarrow> string \<Rightarrow> session_record list \<Rightarrow> repository \<Rightarrow> session_record list result \<times> repository" where
  "session_AppendRecords env owner sid rs = transaction env owner sid (appendTx env sid rs)"

subsection \<open>Snapshots of an extension (record_queries.go)\<close>

definition in_stream :: "string \<Rightarrow> string \<Rightarrow> session_record \<Rightarrow> bool" where
  "in_stream ns kind r = (sr_namespace r = ns \<and> sr_type r = kind)"

text \<open>\<open>COALESCE(MAX(seq),0)\<close>\<close>

definition stream_revision :: "string \<Rightarrow> string \<Rightarrow> string \<Rightarrow> repository \<Rightarrow> nat" where
  "stream_revision sid ns kind rp = foldr max (map sr_sequence (filter (in_stream ns kind) (table_rows sid rp))) 0"

definition snapshot_record :: "string \<Rightarrow> string \<Rightarrow> string \<Rightarrow> session_record" where
  "snapshot_record ns kind payload =
     (blank_record RecordExtension)\<lparr>sr_namespace := ns, sr_type := kind, sr_schema_version := 1, sr_payload := payload\<rparr>"

definition snapshot_body :: "db_env \<Rightarrow> string \<Rightarrow> string \<Rightarrow> string \<Rightarrow> nat \<Rightarrow> string \<Rightarrow> session_record list \<Rightarrow> repository \<Rightarrow>
    (session_record \<times> repository) result" where
  "snapshot_body env sid ns kind expected payload additional rp =
     (if stream_revision sid ns kind rp \<noteq> expected then Inl ErrRevisionConflict
      else if list_ex (in_stream ns kind) additional
      then Inl (ErrNew ''additional records cannot replace the compared snapshot stream'')
      else (case appendTx env sid (snapshot_record ns kind payload # additional) rp of Inl e \<Rightarrow> Inl e
        | Inr (records, rp') \<Rightarrow> Inr (hd records, rp')))"

definition AppendExtensionSnapshot :: "db_env \<Rightarrow> string \<Rightarrow> string \<Rightarrow> string \<Rightarrow> string \<Rightarrow> nat \<Rightarrow> string \<Rightarrow> session_record list \<Rightarrow>
    repository \<Rightarrow> session_record result \<times> repository" where
  "AppendExtensionSnapshot env owner sid ns kind expected payload additional =
     transaction env owner sid (snapshot_body env sid ns kind expected payload additional)"

text \<open>\<open>LatestRecord\<close> returns the metadata of the newest record of the stream; the record stands for it.\<close>

definition LatestRecord :: "db_env \<Rightarrow> string \<Rightarrow> string \<Rightarrow> string \<Rightarrow> string \<Rightarrow> repository \<Rightarrow> session_record option result" where
  "LatestRecord env owner sid ns kind rp =
     (if ns = [] \<or> kind = [] \<or> length ns > 128 \<or> length kind > 128 \<or> \<not> utf8_valid (ns @ kind)
      then Inl (ErrNew ''bounded exact record namespace/type required'')
      else if rp_closed rp then Inl ErrClosed
      else (case rp_authorize rp owner sid of Some e \<Rightarrow> Inl e
        | None \<Rightarrow>
          (case db_begin env of Some e \<Rightarrow> Inl e
           | None \<Rightarrow> Inr (case filter (in_stream ns kind) (rev (rows_of sid rp)) of [] \<Rightarrow> None | r # _ \<Rightarrow> Some r))))"


subsection \<open>Recovery and the run claim (recovery.go, repository.go)\<close>

record pending_intent =
  pi_id :: string
  pi_sequence :: nat
  pi_request :: string
  pi_run :: string
  pi_call :: string

definition pending_models :: "session_record list \<Rightarrow> pending_intent list" where
  "pending_models rows =
     map (\<lambda>r. \<lparr>pi_id = sr_id r, pi_sequence = sr_sequence r, pi_request = mi_request_id (the (sr_model_intent r)), pi_run = [], pi_call = []\<rparr>)
       (filter (\<lambda>r. mi_request_id (the (sr_model_intent r)) \<notin> set (model_outcome_keys rows)) (of_kind RecordModelIntent rows))"

definition pending_tools :: "session_record list \<Rightarrow> pending_intent list" where
  "pending_tools rows =
     map (\<lambda>r. \<lparr>pi_id = sr_id r, pi_sequence = sr_sequence r, pi_request = [], pi_run = fst (intent_key r), pi_call = snd (intent_key r)\<rparr>)
       (filter (\<lambda>r. intent_key r \<notin> set (tool_outcome_keys rows)) (of_kind RecordToolIntent rows))"

text \<open>\<open>LIMIT 129\<close> and the budget check.\<close>

definition pending_budget :: "pending_intent list \<Rightarrow> pending_intent list result" where
  "pending_budget intents =
     (if length (take 129 intents) > 128
      then Inl (ErrNew ''interrupted-intent recovery budget exceeded; no execution started'') else Inr (take 129 intents))"

definition parent_of :: "string \<Rightarrow> pending_intent \<Rightarrow> record_reference" where
  "parent_of sid i = \<lparr>rf_session_id = sid, rf_record_id = pi_id i, rf_sequence = pi_sequence i\<rparr>"

definition model_recovery :: "string \<Rightarrow> pending_intent \<Rightarrow> session_record" where
  "model_recovery sid i = BuiltinRecord ((blank_record RecordModelOutcome)\<lparr>sr_parent := Some (parent_of sid i),
     sr_model_outcome := Some \<lparr>mo_request_id = pi_request i, mo_status = OutcomeCancelled,
       mo_error = ''Interrupted before a model outcome was committed; request was not replayed'', mo_usage = None\<rparr>\<rparr>)"

definition recovery_result :: "pending_intent \<Rightarrow> tool_result" where
  "recovery_result i = ToolResult (pi_call i)
     [text_block ''Execution outcome unknown after host interruption. The tool may have run; it was not replayed.''] True"

definition recovery_evidence :: "db_env \<Rightarrow> pending_intent \<Rightarrow> string" where
  "recovery_evidence env i =
     CHR 0x7B # CHR 0x22 # ''call_id'' @ CHR 0x22 # CHR 0x3A # db_quote env (pi_call i) @ CHR 0x2C # CHR 0x22 # ''execution'' @ CHR 0x22 # CHR 0x3A #
     CHR 0x22 # ''unknown'' @ CHR 0x22 # CHR 0x2C # CHR 0x22 # ''reason'' @ CHR 0x22 # CHR 0x3A # CHR 0x22 #
     ''Host execution was interrupted before a committed outcome; no side effect was replayed'' @ CHR 0x22 # CHR 0x2C # CHR 0x22 # ''run_id'' @
     CHR 0x22 # CHR 0x3A # db_quote env (pi_run i) @ [CHR 0x7D]"

definition tool_recovery :: "db_env \<Rightarrow> string \<Rightarrow> pending_intent \<Rightarrow> session_record list" where
  "tool_recovery env sid i =
     [(blank_record RecordExtension)\<lparr>sr_namespace := ''alva.native.recovery'', sr_type := ''execution_interrupted'', sr_schema_version := 1,
        sr_parent := Some (parent_of sid i), sr_payload := recovery_evidence env i\<rparr>,
      BuiltinRecord ((blank_record RecordToolOutcome)\<lparr>sr_tool_outcome := Some \<lparr>to_run_id = pi_run i, to_call_id = pi_call i, to_status = OutcomeCancelled,
        to_result = recovery_result i, to_error = ''Execution outcome unknown after interruption; not replayed''\<rparr>\<rparr>),
      BuiltinRecord (conversation_record \<lparr>m_id = [], m_role = RoleTool, m_content = [tool_result_block (recovery_result i)], m_usage = None,
        m_response_id = [], m_finish_reason = []\<rparr>)]"

fun recover_tools :: "db_env \<Rightarrow> string \<Rightarrow> pending_intent list \<Rightarrow> repository \<Rightarrow> repository result" where
  "recover_tools env sid [] rp = Inr rp"
| "recover_tools env sid (i # is) rp =
     (case appendTx env sid (concat (map (tool_recovery env sid) (take 64 (i # is)))) rp of Inl e \<Rightarrow> Inl e
      | Inr (_, rp') \<Rightarrow> recover_tools env sid (drop 64 (i # is)) rp')"

record recovery_report =
  rr_models :: nat
  rr_tools :: nat
  rr_unknown :: nat

definition recover_body :: "db_env \<Rightarrow> string \<Rightarrow> repository \<Rightarrow> (recovery_report \<times> repository) result" where
  "recover_body env sid rp =
     (case pending_budget (pending_models (rows_of sid rp)) of Inl e \<Rightarrow> Inl e
      | Inr models \<Rightarrow>
        (case pending_budget (pending_tools (rows_of sid rp)) of Inl e \<Rightarrow> Inl e
         | Inr tools \<Rightarrow>
           (case (if models = [] then Inr ([], rp) else appendTx env sid (map (model_recovery sid) models) rp) of Inl e \<Rightarrow> Inl e
            | Inr (_, rp1) \<Rightarrow>
              (case recover_tools env sid tools rp1 of Inl e \<Rightarrow> Inl e
               | Inr rp2 \<Rightarrow> Inr (\<lparr>rr_models = length models, rr_tools = length tools, rr_unknown = length tools\<rparr>, rp2)))))"

definition recoverLocked :: "db_env \<Rightarrow> string \<Rightarrow> string \<Rightarrow> repository \<Rightarrow> recovery_report result \<times> repository" where
  "recoverLocked env owner sid = transaction env owner sid (recover_body env sid)"

definition Recover :: "db_env \<Rightarrow> string \<Rightarrow> string \<Rightarrow> repository \<Rightarrow> recovery_report result \<times> repository" where
  "Recover env owner sid rp =
     (if rp_closed rp then (Inl ErrClosed, rp)
      else if sid \<in> set (rp_active rp) then (Inl ErrActive, rp)
      else recoverLocked env owner sid rp)"

text \<open>The claim: recovery first, then the active mark that its release removes.\<close>

definition BeginRun :: "db_env \<Rightarrow> string \<Rightarrow> string \<Rightarrow> repository \<Rightarrow> recovery_report result \<times> repository" where
  "BeginRun env owner sid rp =
     (if rp_closed rp then (Inl ErrClosed, rp)
      else (case rp_authorize rp owner sid of Some e \<Rightarrow> (Inl e, rp)
        | None \<Rightarrow>
          if sid \<in> set (rp_active rp) then (Inl ErrActive, rp)
          else (case recoverLocked env owner sid rp of
              (Inl e, rp') \<Rightarrow> (Inl e, rp')
            | (Inr report, rp') \<Rightarrow> (Inr report, rp'\<lparr>rp_active := sid # rp_active rp'\<rparr>))))"

definition release_run :: "string \<Rightarrow> repository \<Rightarrow> repository" where
  "release_run sid rp = rp\<lparr>rp_active := removeAll sid (rp_active rp)\<rparr>"

definition rp_Close :: "go_error option \<Rightarrow> repository \<Rightarrow> go_error option \<times> repository" where
  "rp_Close failure rp =
     (if rp_closed rp then (None, rp)
      else if rp_active rp \<noteq> [] then (Some (ErrNew ''cannot close native repository while runs are active''), rp)
      else (failure, rp\<lparr>rp_closed := True\<rparr>))"

definition session_Flush :: "go_error option \<Rightarrow> repository \<Rightarrow> go_error option" where
  "session_Flush canceled rp = (case canceled of Some e \<Rightarrow> Some e | None \<Rightarrow> if rp_closed rp then Some ErrClosed else None)"

subsection \<open>Sessions and children (repository.go, child.go)\<close>

definition insert_session :: "string \<Rightarrow> string \<Rightarrow> string option \<Rightarrow> int \<Rightarrow> repository \<Rightarrow> repository result" where
  "insert_session owner sid parent now rp =
     (if list_ex (\<lambda>w. sw_id w = sid) (rp_sessions rp) then Inl (ErrNew ''UNIQUE constraint failed'')
      else Inr (rp\<lparr>rp_sessions := rp_sessions rp @ [\<lparr>sw_id = sid, sw_owner = owner, sw_parent = parent, sw_created = now, sw_next = 1\<rparr>]\<rparr>))"

definition rp_Create :: "db_env \<Rightarrow> string \<Rightarrow> string \<Rightarrow> string \<Rightarrow> repository \<Rightarrow> go_error option \<times> repository" where
  "rp_Create env owner sid parent rp =
     (if \<not> validIdentity owner \<or> \<not> validIdentity sid \<or> parent \<noteq> [] \<and> \<not> validIdentity parent
      then (Some (ErrNew ''bounded opaque owner and session identities required''), rp)
      else if rp_closed rp then (Some ErrClosed, rp)
      else (case db_begin env of Some e \<Rightarrow> (Some e, rp)
        | None \<Rightarrow>
          (case (if parent = [] then None else rp_authorize rp owner parent) of Some e \<Rightarrow> (Some e, rp)
           | None \<Rightarrow>
             (case insert_session owner sid (if parent = [] then None else Some parent) (db_clock env 0) rp of
                Inl e \<Rightarrow> (Some (Wrapf ''create native session: '' e), rp)
              | Inr rp' \<Rightarrow> (case db_commit env of Some e \<Rightarrow> (Some e, rp) | None \<Rightarrow> (None, rp'))))))"

definition rp_OpenSession :: "string \<Rightarrow> string \<Rightarrow> repository \<Rightarrow> go_error option" where
  "rp_OpenSession owner sid rp = (if rp_closed rp then Some ErrClosed else rp_authorize rp owner sid)"


text \<open>A child session, its causal link in the parent's log and the link row commit together.\<close>

definition child_payload :: "db_env \<Rightarrow> string \<Rightarrow> string \<Rightarrow> string \<Rightarrow> string \<Rightarrow> string \<Rightarrow> string" where
  "child_payload env parent child run call scope =
     (let field = (\<lambda>name v. CHR 0x22 # name @ CHR 0x22 # CHR 0x3A # v) in
      CHR 0x7B # join_with CHR 0x2C
        [field ''child_scope_id'' (db_quote env scope), field ''child_session_id'' (db_quote env child),
         field ''execution'' (db_quote env ''not_started''), field ''parent_run_id'' (db_quote env run),
         field ''parent_session_id'' (db_quote env parent),
         field ''source_notice'' (db_quote env ''Causal relationship only; this link does not grant parent/child history access and does not prove successful child execution''),
         field ''spawn_tool_call_id'' (db_quote env call)] @ [CHR 0x7D])"

definition link_record :: "string \<Rightarrow> session_record \<Rightarrow> string \<Rightarrow> session_record" where
  "link_record parent intent payload =
     (snapshot_record ''alva.agent'' ''child_session_linked'' payload)\<lparr>sr_parent := Some (record_reference_of parent intent)\<rparr>"

definition child_body :: "db_env \<Rightarrow> string \<Rightarrow> string \<Rightarrow> string \<Rightarrow> string \<Rightarrow> string \<Rightarrow> string \<Rightarrow> repository \<Rightarrow>
    (record_reference \<times> repository) result" where
  "child_body env owner parent child run call scope rp =
     (case List.find (\<lambda>r. sr_kind r = RecordToolIntent \<and> intent_key r = (run, call)) (table_rows parent rp) of
        None \<Rightarrow> Inl (ErrNew ''parent spawn tool intent is not committed'')
      | Some intent \<Rightarrow>
        (case insert_session owner child (Some parent) (db_clock env 0) rp of Inl e \<Rightarrow> Inl e
         | Inr rp1 \<Rightarrow>
           (case appendTx env parent [link_record parent intent (child_payload env parent child run call scope)] rp1 of Inl e \<Rightarrow> Inl e
            | Inr (records, rp2) \<Rightarrow>
                Inr (record_reference_of parent (hd records),
                  rp2\<lparr>rp_links := rp_links rp2 @ [\<lparr>cl_child = child, cl_parent = parent, cl_sequence = sr_sequence (hd records), cl_record = sr_id (hd records)\<rparr>]\<rparr>))))"

definition CreateChild :: "db_env \<Rightarrow> string \<Rightarrow> string \<Rightarrow> string \<Rightarrow> string \<Rightarrow> string \<Rightarrow> string \<Rightarrow> repository \<Rightarrow> record_reference result \<times> repository" where
  "CreateChild env owner parent child run call scope rp =
     (if \<not> validIdentity owner \<or> \<not> validIdentity parent \<or> \<not> validIdentity child \<or> \<not> validIdentity scope \<or> parent = child \<or>
         run = [] \<or> call = [] \<or> length run > 256 \<or> length call > 256
      then (Inl (ErrNew ''explicit bounded actual child and parent invocation identities required''), rp)
      else transaction env owner parent (child_body env owner parent child run call scope) rp)"

definition rp_Parent :: "string \<Rightarrow> string \<Rightarrow> repository \<Rightarrow> string result" where
  "rp_Parent owner sid rp =
     (if \<not> validIdentity owner \<or> \<not> validIdentity sid then Inl ErrNotFound
      else if rp_closed rp then Inl ErrClosed
      else (case List.find (\<lambda>w. sw_owner w = owner \<and> sw_id w = sid) (rp_sessions rp) of
          None \<Rightarrow> Inl ErrNotFound | Some w \<Rightarrow> Inr (case sw_parent w of None \<Rightarrow> [] | Some p \<Rightarrow> p)))"

subsection \<open>Reading (records.go)\<close>

definition maxRuntimeRecords :: nat where "maxRuntimeRecords = 4096"
definition maxRuntimeBytes :: int where "maxRuntimeBytes = 67108864"
definition runtimeRecordOverhead :: int where "runtimeRecordOverhead = 512"

definition record_bytes :: "db_env \<Rightarrow> session_record \<Rightarrow> int" where
  "record_bytes env r = (case db_encode env r of None \<Rightarrow> 0 | Some d \<Rightarrow> int (length d))"

text \<open>The loop over the rows: each costs its bytes and an overhead, within the restore budget.\<close>

fun restore_costs :: "db_env \<Rightarrow> int \<Rightarrow> session_record list \<Rightarrow> go_error option" where
  "restore_costs env retained [] = None"
| "restore_costs env retained (r # rs) =
     (let cost = record_bytes env r + runtimeRecordOverhead in
      if cost > maxRuntimeBytes - retained then Some (ErrNew ''runtime history exceeds 64 MiB restore budget; use bounded retrieval'')
      else restore_costs env (retained + cost) rs)"

definition runtimeRecords :: "db_env \<Rightarrow> string \<Rightarrow> string \<Rightarrow> nat \<Rightarrow> bool \<Rightarrow> repository \<Rightarrow> session_record list result" where
  "runtimeRecords env owner sid after conversationOnly rp =
     (case rp_authorize rp owner sid of Some e \<Rightarrow> Inl e
      | None \<Rightarrow>
        (case db_begin env of Some e \<Rightarrow> Inl e
         | None \<Rightarrow>
           (let limit = (if conversationOnly then nat (maxRuntimeBytes div runtimeRecordOverhead) else maxRuntimeRecords);
                found = take (limit + 1) (filter (\<lambda>r. sr_sequence r > after \<and> (conversationOnly \<longrightarrow> sr_kind r = RecordConversation)) (rows_of sid rp)) in
            (case restore_costs env 0 found of Some e \<Rightarrow> Inl e
             | None \<Rightarrow>
                if length found > limit then Inl (ErrNew ''runtime history exceeds 4096-record restore budget; use bounded retrieval'')
                else (case first_err (record_validate (db_url env)) found of Some e \<Rightarrow> Inl e | None \<Rightarrow> Inr found)))))"

definition session_Records :: "db_env \<Rightarrow> string \<Rightarrow> string \<Rightarrow> nat \<Rightarrow> repository \<Rightarrow> session_record list result" where
  "session_Records env owner sid after rp = (if rp_closed rp then Inl ErrClosed else runtimeRecords env owner sid after False rp)"

definition session_Messages :: "db_env \<Rightarrow> string \<Rightarrow> string \<Rightarrow> repository \<Rightarrow> message list result" where
  "session_Messages env owner sid rp =
     (if rp_closed rp then Inl ErrClosed
      else (case runtimeRecords env owner sid 0 True rp of Inl e \<Rightarrow> Inl e | Inr rs \<Rightarrow> Inr (map (\<lambda>r. the (sr_message r)) rs)))"

end
