(* ===== verification/Session_Facts.thy ===== *)
theory Session_Facts
  imports Session_Store
begin

section \<open>The durable store keeps a causal log\<close>

text \<open>
  The invariant of the repository: every session's rows form a causal log - the predicate of the
  in-memory session - and its counter is one past the last sequence. Appends, snapshots,
  recovery and children keep it. The store is then a second provider of the log contract.
\<close>

definition session_rows_ok :: "repository \<Rightarrow> session_row \<Rightarrow> bool" where
  "session_rows_ok rp w \<longleftrightarrow> log_ok (sw_id w) (table_rows (sw_id w) rp) \<and> sw_next w = length (table_rows (sw_id w) rp) + 1"

definition repo_inv :: "repository \<Rightarrow> bool" where
  "repo_inv rp \<longleftrightarrow> distinct (map sw_id (rp_sessions rp)) \<and> fst ` set (rp_records rp) \<subseteq> sw_id ` set (rp_sessions rp) \<and>
     (\<forall>w \<in> set (rp_sessions rp). session_rows_ok rp w)"

lemma repo_inv_empty: "repo_inv empty_repository"
  by (simp add: repo_inv_def empty_repository_def)

subsection \<open>Rows of a log\<close>

lemma log_positions:
  "log_ok_from sid prior rs \<Longrightarrow> i < length rs \<Longrightarrow>
     sr_sequence (rs ! i) = length prior + i + 1 \<and> sr_id (rs ! i) = sid @ '':'' @ dec (length prior + i + 1)"
proof (induction rs arbitrary: prior i)
  case (Cons r rs)
  show ?case
  proof (cases i)
    case (Suc j)
    with Cons.IH [of "prior @ [r]" j] Cons.prems show ?thesis by simp
  qed (use Cons.prems in \<open>simp add: record_follows_def\<close>)
qed simp

lemma log_sequences: "log_ok sid rs \<Longrightarrow> map sr_sequence rs = [1..<length rs + 1]"
  by (rule nth_equalityI) (auto simp: nth_upt simp del: upt_Suc dest: log_positions)

lemma rows_in_order: "log_ok sid (table_rows sid rp) \<Longrightarrow> rows_of sid rp = table_rows sid rp"
  unfolding rows_of_def by (rule sort_key_id_if_sorted) (simp add: log_sequences del: upt_Suc)

lemma find_position:
  assumes "\<And>j. j < length xs \<Longrightarrow> f (xs ! j) = Suc j" "i < length xs"
  shows "List.find (\<lambda>x. f x = Suc i) xs = Some (xs ! i)"
proof -
  have "f (xs ! i) = Suc i \<and> (\<forall>j < i. f (xs ! j) \<noteq> Suc i)" using assms by simp
  with assms(2) show ?thesis unfolding find_Some_iff by blast
qed

lemma record_at_nth:
  assumes "log_ok sid (table_rows sid rp)" "1 \<le> q" "q \<le> length (table_rows sid rp)"
  shows "record_at sid q rp = Some (table_rows sid rp ! (q - 1))"
proof -
  have "List.find (\<lambda>r. sr_sequence r = Suc (q - 1)) (table_rows sid rp) = Some (table_rows sid rp ! (q - 1))"
    by (rule find_position) (use assms log_positions [OF assms(1)] in auto)
  with assms(2) show ?thesis by (simp add: record_at_def)
qed

lemma table_rows_snoc [simp]:
  "table_rows sid (rp\<lparr>rp_records := rp_records rp @ [(t, r)]\<rparr>) = table_rows sid rp @ (if t = sid then [r] else [])"
  by (simp add: table_rows_def)

lemma table_rows_append:
  "table_rows sid (rp\<lparr>rp_records := rp_records rp @ map (Pair t) rs\<rparr>) = table_rows sid rp @ (if t = sid then rs else [])"
  by (simp add: table_rows_def comp_def filter_empty_conv)

lemma table_rows_other [simp]:
  "table_rows sid (rp\<lparr>rp_sessions := ws\<rparr>) = table_rows sid rp" "table_rows sid (rp\<lparr>rp_active := a\<rparr>) = table_rows sid rp"
  "table_rows sid (rp\<lparr>rp_links := l\<rparr>) = table_rows sid rp" "table_rows sid (rp\<lparr>rp_closed := b\<rparr>) = table_rows sid rp"
  by (simp_all add: table_rows_def)

subsection \<open>One record\<close>

text \<open>What the store leaves of a record: everything but its identity, time, parent and message identity.\<close>

definition same_record_facts :: "session_record \<Rightarrow> session_record \<Rightarrow> bool" where
  "same_record_facts r r' \<longleftrightarrow> sr_kind r' = sr_kind r \<and> sr_namespace r' = sr_namespace r \<and> sr_type r' = sr_type r \<and> sr_schema_version r' = sr_schema_version r \<and>
     sr_payload r' = sr_payload r \<and> sr_model_intent r' = sr_model_intent r \<and> sr_model_outcome r' = sr_model_outcome r \<and>
     sr_tool_intent r' = sr_tool_intent r \<and> sr_tool_outcome r' = sr_tool_outcome r \<and>
     map_option m_content (sr_message r') = map_option m_content (sr_message r)"

lemma stamp_facts: "same_record_facts r (stamp_record env sid nxt r)"
  by (cases "sr_message r") (simp_all add: same_record_facts_def stamp_record_def Let_def)

lemma link_facts: "link_parent sid nxt r rp = Inr r' \<Longrightarrow> same_record_facts x r \<Longrightarrow> same_record_facts x r' \<and> sr_sequence r' = sr_sequence r \<and> sr_id r' = sr_id r"
  by (auto simp: link_parent_def same_record_facts_def split: if_splits option.splits)

lemma same_record_facts_keys:
  assumes "same_record_facts r r'"
  shows "model_intent_keys [r'] = model_intent_keys [r]" "model_outcome_keys [r'] = model_outcome_keys [r]"
    "tool_intent_keys [r'] = tool_intent_keys [r]" "tool_outcome_keys [r'] = tool_outcome_keys [r]"
  using assms by (simp_all add: same_record_facts_def intent_key_def outcome_key_def)

lemma keys_members:
  "k \<in> set (model_intent_keys rs) \<longleftrightarrow> (\<exists>r \<in> set rs. sr_kind r = RecordModelIntent \<and> mi_request_id (the (sr_model_intent r)) = k)"
  "k \<in> set (model_outcome_keys rs) \<longleftrightarrow> (\<exists>r \<in> set rs. sr_kind r = RecordModelOutcome \<and> mo_request_id (the (sr_model_outcome r)) = k)"
  "k' \<in> set (tool_intent_keys rs) \<longleftrightarrow> (\<exists>r \<in> set rs. sr_kind r = RecordToolIntent \<and> intent_key r = k')"
  "k' \<in> set (tool_outcome_keys rs) \<longleftrightarrow> (\<exists>r \<in> set rs. sr_kind r = RecordToolOutcome \<and> outcome_key r = k')"
  by (auto simp: model_intent_keys_def model_outcome_keys_def tool_intent_keys_def tool_outcome_keys_def of_kind_def)

lemma no_conflict_is_new:
  assumes "\<not> list_ex (same_entry r) rows"
  shows "sr_kind r = RecordModelIntent \<Longrightarrow> mi_request_id (the (sr_model_intent r)) \<notin> set (model_intent_keys rows)"
    and "sr_kind r = RecordModelOutcome \<Longrightarrow> mo_request_id (the (sr_model_outcome r)) \<notin> set (model_outcome_keys rows)"
    and "sr_kind r = RecordToolIntent \<Longrightarrow> intent_key r \<notin> set (tool_intent_keys rows)"
    and "sr_kind r = RecordToolOutcome \<Longrightarrow> outcome_key r \<notin> set (tool_outcome_keys rows)"
  using assms by (auto simp: list_ex_iff same_entry_def keys_members)

lemma append_record_cases:
  assumes "append_record env sid nxt r rp = Inr (r', rp')"
  shows "parent_check sid nxt r rp = None" "intent_check sid r rp = None" "link_parent sid nxt (stamp_record env sid nxt r) rp = Inr r'"
    "\<not> list_ex (same_entry r') (table_rows sid rp)" "rp' = rp\<lparr>rp_records := rp_records rp @ [(sid, r')]\<rparr>"
  using assms by (auto simp: append_record_def insert_record_def split: option.splits sum.splits if_splits)

lemma append_record_follows:
  assumes log: "log_ok sid (table_rows sid rp)" and app: "append_record env sid (length (table_rows sid rp) + 1) r rp = Inr (r', rp')"
  shows "record_follows sid (table_rows sid rp) r'" "same_record_facts r r'"
proof -
  let ?rows = "table_rows sid rp" and ?n = "length (table_rows sid rp) + 1"
  note c = append_record_cases [OF app]
  have sf: "same_record_facts r r'" and ids: "sr_sequence r' = ?n" "sr_id r' = sid @ '':'' @ dec ?n"
    using link_facts [OF c(3) stamp_facts] by (auto simp: stamp_record_def Let_def)
  have par: "parent_ok sid ?rows r'"
  proof (cases "sr_parent r")
    case (Some p)
    with c(1) have q: "rf_session_id p = sid" "1 \<le> rf_sequence p" "rf_sequence p \<le> length ?rows"
      by (auto simp: parent_check_def split: if_splits)
    with Some c(1) have "rf_record_id p = sr_id (?rows ! (rf_sequence p - 1))"
      by (auto simp: parent_check_def record_at_nth [OF log] split: if_splits)
    moreover have "sr_parent r' = Some p" using c(3) Some by (auto simp: link_parent_def stamp_record_def Let_def)
    ultimately show ?thesis using q by (simp add: parent_ok_def)
  next
    case None
    show ?thesis
    proof (cases "?rows = []")
      case True
      with None c(3) show ?thesis by (auto simp: parent_ok_def link_parent_def stamp_record_def Let_def)
    next
      case False
      then have "record_at sid (length ?rows) rp = Some (?rows ! (length ?rows - 1))" by (intro record_at_nth [OF log]) (auto simp: Suc_le_eq)
      with None False c(3) show ?thesis by (auto simp: parent_ok_def link_parent_def stamp_record_def Let_def Suc_le_eq)
    qed
  qed
  have kinds: "sr_kind r' = sr_kind r" "outcome_key r' = outcome_key r" "sr_model_outcome r' = sr_model_outcome r"
    using sf by (simp_all add: same_record_facts_def outcome_key_def)
  have "index_ok ?rows r'"
    using no_conflict_is_new [OF c(4)] c(2) kinds by (cases "sr_kind r") (auto simp: index_ok_def intent_check_def split: if_splits)
  with par ids show "record_follows sid ?rows r'" by (simp add: record_follows_def)
  show "same_record_facts r r'" by (rule sf)
qed

subsection \<open>A batch\<close>

definition set_next :: "string \<Rightarrow> nat \<Rightarrow> session_row list \<Rightarrow> session_row list" where
  "set_next sid nxt ws = map (\<lambda>w. if sw_id w = sid then w\<lparr>sw_next := nxt\<rparr> else w) ws"

lemma append_all_log:
  "append_all env sid (length (table_rows sid rp) + 1) rs rp = Inr (cs, rp') \<Longrightarrow> log_ok sid (table_rows sid rp) \<Longrightarrow>
     rp' = rp\<lparr>rp_records := rp_records rp @ map (Pair sid) cs, rp_sessions := set_next sid (length (table_rows sid rp) + length cs + 1) (rp_sessions rp)\<rparr> \<and>
     log_ok sid (table_rows sid rp @ cs) \<and> list_all2 same_record_facts rs cs"
proof (induction rs arbitrary: rp cs rp')
  case (Cons r rs)
  let ?n = "length (table_rows sid rp) + 1"
  from Cons.prems(1) obtain r' rp1 rest where r: "append_record env sid ?n r rp = Inr (r', rp1)"
    and rest: "append_all env sid (?n + 1) rs rp1 = Inr (rest, rp')" "cs = r' # rest" by (auto split: sum.splits)
  note f = append_record_follows [OF Cons.prems(2) r] and c = append_record_cases [OF r]
  have rows: "table_rows sid rp1 = table_rows sid rp @ [r']" by (simp add: c(5))
  have log: "log_ok sid (table_rows sid rp1)" using Cons.prems(2) f(1) by (simp add: rows log_ok_append)
  have "append_all env sid (length (table_rows sid rp1) + 1) rs rp1 = Inr (rest, rp')" using rest(1) by (simp add: rows)
  from Cons.IH [OF this log] show ?case by (simp add: rows c(5) rest(2) f(2))
qed (simp add: set_next_def)

lemma appendTx_log:
  assumes "appendTx env sid rs rp = Inr (cs, rp')" "log_ok sid (table_rows sid rp)" "next_seq sid rp = Some (length (table_rows sid rp) + 1)"
  obtains owned where "clean_records env rs = Inr owned" "list_all2 same_record_facts owned cs" "log_ok sid (table_rows sid rp @ cs)"
    "rp' = rp\<lparr>rp_records := rp_records rp @ map (Pair sid) cs, rp_sessions := set_next sid (length (table_rows sid rp) + length cs + 1) (rp_sessions rp)\<rparr>"
  using assms append_all_log [of env sid rp _ cs rp'] by (auto simp: appendTx_def split: option.splits sum.splits)

lemma session_of:
  assumes "repo_inv rp" "w \<in> set (rp_sessions rp)"
  shows "next_seq (sw_id w) rp = Some (length (table_rows (sw_id w) rp) + 1)" "log_ok (sw_id w) (table_rows (sw_id w) rp)"
proof -
  have d: "distinct (map sw_id (rp_sessions rp))" and ok: "session_rows_ok rp w" using assms by (auto simp: repo_inv_def)
  obtain v where v: "List.find (\<lambda>x. sw_id x = sw_id w) (rp_sessions rp) = Some v" "v \<in> set (rp_sessions rp)" "sw_id v = sw_id w"
    using assms(2) by (cases "List.find (\<lambda>x. sw_id x = sw_id w) (rp_sessions rp)") (auto simp: find_None_iff find_Some_iff)
  with d assms(2) have "v = w" by (auto simp: distinct_map dest: inj_onD)
  with v ok show "next_seq (sw_id w) rp = Some (length (table_rows (sw_id w) rp) + 1)" "log_ok (sw_id w) (table_rows (sw_id w) rp)"
    by (simp_all add: next_seq_def session_rows_ok_def)
qed

lemma authorized_session:
  assumes "rp_authorize rp owner sid = None"
  obtains w where "w \<in> set (rp_sessions rp)" "sw_id w = sid" "sw_owner w = owner"
  using assms by (auto simp: rp_authorize_def list_ex_iff split: if_splits)

lemma set_next_inv:
  assumes "repo_inv rp" "w \<in> set (rp_sessions rp)" "log_ok (sw_id w) (table_rows (sw_id w) rp @ cs)"
  shows "repo_inv (rp\<lparr>rp_records := rp_records rp @ map (Pair (sw_id w)) cs,
    rp_sessions := set_next (sw_id w) (length (table_rows (sw_id w) rp) + length cs + 1) (rp_sessions rp)\<rparr>)"
proof -
  let ?n = "length (table_rows (sw_id w) rp) + length cs + 1" and ?ws = "set_next (sw_id w) (length (table_rows (sw_id w) rp) + length cs + 1) (rp_sessions rp)"
  let ?rp = "rp\<lparr>rp_records := rp_records rp @ map (Pair (sw_id w)) cs, rp_sessions := ?ws\<rparr>"
  have ids: "map sw_id (set_next t n ws) = map sw_id ws" for t n ws by (simp add: set_next_def)
  then have ids': "sw_id ` set (set_next t n ws) = sw_id ` set ws" for t n ws by (metis list.set_map)
  have "session_rows_ok ?rp v" if v: "v \<in> set ?ws" for v
  proof -
    from v obtain u where u: "u \<in> set (rp_sessions rp)" "v = (if sw_id u = sw_id w then u\<lparr>sw_next := ?n\<rparr> else u)"
      by (auto simp: set_next_def)
    then have "session_rows_ok rp u" using assms(1) by (simp add: repo_inv_def)
    with u assms(3) show ?thesis by (auto simp: session_rows_ok_def table_rows_append)
  qed
  moreover have "fst ` set (rp_records ?rp) \<subseteq> sw_id ` set (rp_sessions rp)" using assms(1,2) by (auto simp: repo_inv_def)
  moreover have "distinct (map sw_id (rp_sessions rp))" using assms(1) by (simp add: repo_inv_def)
  ultimately show ?thesis by (simp add: repo_inv_def ids ids')
qed

lemma appendTx_inv:
  assumes "repo_inv rp" "w \<in> set (rp_sessions rp)" "appendTx env (sw_id w) rs rp = Inr (cs, rp')"
  shows "repo_inv rp'"
  using appendTx_log [OF assms(3) session_of(2,1) [OF assms(1,2)]] set_next_inv [OF assms(1,2)] by metis

lemma transaction_cases:
  assumes "transaction env owner sid body rp = (x, rp')"
  obtains (fail) e where "x = Inl e" "rp' = rp"
  | (commits) y w where "x = Inr y" "body rp = Inr (y, rp')" "w \<in> set (rp_sessions rp)" "sw_id w = sid" "sw_owner w = owner" "\<not> rp_closed rp"
proof (cases "rp_authorize rp owner sid")
  case None
  then obtain w where "w \<in> set (rp_sessions rp)" "sw_id w = sid" "sw_owner w = owner" by (rule authorized_session)
  with None assms that show ?thesis by (auto simp: transaction_def split: if_splits option.splits sum.splits)
qed (use assms that in \<open>auto simp: transaction_def split: if_splits option.splits\<close>)

subsection \<open>What an operation adds to a session\<close>

text \<open>A stored record carries the facts of the redacted record; nothing outside the session moves.\<close>

definition stored_as :: "db_env \<Rightarrow> session_record \<Rightarrow> session_record \<Rightarrow> bool" where
  "stored_as env r r' \<longleftrightarrow> (\<exists>x. db_redact env r = Inr x \<and> same_record_facts x r')"

definition grows :: "string \<Rightarrow> repository \<Rightarrow> session_record list \<Rightarrow> repository \<Rightarrow> bool" where
  "grows sid rp cs rp' \<longleftrightarrow> table_rows sid rp' = table_rows sid rp @ cs \<and> (\<forall>t. t \<noteq> sid \<longrightarrow> table_rows t rp' = table_rows t rp) \<and>
     rp_active rp' = rp_active rp \<and> rp_closed rp' = rp_closed rp \<and> rp_links rp' = rp_links rp \<and>
     map (\<lambda>w. (sw_id w, sw_owner w, sw_parent w)) (rp_sessions rp') = map (\<lambda>w. (sw_id w, sw_owner w, sw_parent w)) (rp_sessions rp)"

lemma grows_refl: "grows sid rp [] rp"
  by (simp add: grows_def)

lemma grows_trans: "grows sid rp cs rp1 \<Longrightarrow> grows sid rp1 ds rp2 \<Longrightarrow> grows sid rp (cs @ ds) rp2"
  by (simp add: grows_def)

lemma clean_records_redacts: "clean_records env rs = Inr owned \<Longrightarrow> list_all2 (\<lambda>r x. db_redact env r = Inr x \<and> precheck (db_url env) x = None) rs owned"
  by (induction rs arbitrary: owned) (auto split: option.splits sum.splits)

lemma appendTx_grows:
  assumes "repo_inv rp" "w \<in> set (rp_sessions rp)" "appendTx env (sw_id w) rs rp = Inr (cs, rp')"
  shows "grows (sw_id w) rp cs rp'" "list_all2 (stored_as env) rs cs" "repo_inv rp'" "\<exists>w' \<in> set (rp_sessions rp'). sw_id w' = sw_id w"
    "log_ok (sw_id w) (table_rows (sw_id w) rp @ cs)"
proof -
  obtain owned where o: "clean_records env rs = Inr owned" "list_all2 same_record_facts owned cs" "log_ok (sw_id w) (table_rows (sw_id w) rp @ cs)"
    "rp' = rp\<lparr>rp_records := rp_records rp @ map (Pair (sw_id w)) cs, rp_sessions := set_next (sw_id w) (length (table_rows (sw_id w) rp) + length cs + 1) (rp_sessions rp)\<rparr>"
    by (rule appendTx_log [OF assms(3) session_of(2,1) [OF assms(1,2)]])
  show "grows (sw_id w) rp cs rp'" by (simp add: grows_def o(4) table_rows_append set_next_def)
  have "list_all2 (\<lambda>r x. db_redact env r = Inr x) rs owned" using clean_records_redacts [OF o(1)] by (rule list_all2_mono) simp
  from list_all2_trans [OF _ this o(2), of "stored_as env"] show "list_all2 (stored_as env) rs cs" by (auto simp: stored_as_def)
  show "repo_inv rp'" by (rule appendTx_inv [OF assms])
  have "map sw_id (rp_sessions rp') = map sw_id (rp_sessions rp)" by (simp add: o(4) set_next_def)
  then have "sw_id ` set (rp_sessions rp') = sw_id ` set (rp_sessions rp)" by (metis list.set_map)
  then show "\<exists>w' \<in> set (rp_sessions rp'). sw_id w' = sw_id w" using assms(2) by (metis imageE imageI)
  show "log_ok (sw_id w) (table_rows (sw_id w) rp @ cs)" by (rule o(3))
qed

subsection \<open>Counting open intents\<close>

lemma intents_distinct:
  "log_ok_from sid prior rs \<Longrightarrow> distinct (tool_intent_keys prior) \<Longrightarrow> distinct (tool_intent_keys (prior @ rs))"
  "log_ok_from sid prior rs \<Longrightarrow> distinct (model_intent_keys prior) \<Longrightarrow> distinct (model_intent_keys (prior @ rs))"
proof (induction rs arbitrary: prior)
  case (Cons r rs)
  { case 1
    then have "distinct (tool_intent_keys (prior @ [r]))" by (cases "sr_kind r") (auto simp: record_follows_def index_ok_def)
    with 1 Cons.IH(1) [of "prior @ [r]"] show ?case by (simp del: keys_append)
  next
    case 2
    then have "distinct (model_intent_keys (prior @ [r]))" by (cases "sr_kind r") (auto simp: record_follows_def index_ok_def)
    with 2 Cons.IH(2) [of "prior @ [r]"] show ?case by (simp del: keys_append) }
qed simp_all

lemma model_outcomes_distinct:
  "log_ok_from sid prior rs \<Longrightarrow> distinct (model_outcome_keys prior) \<Longrightarrow> set (model_outcome_keys prior) \<subseteq> set (model_intent_keys prior) \<Longrightarrow>
     distinct (model_outcome_keys (prior @ rs)) \<and> set (model_outcome_keys (prior @ rs)) \<subseteq> set (model_intent_keys (prior @ rs))"
proof (induction rs arbitrary: prior)
  case (Cons r rs)
  have "distinct (model_outcome_keys (prior @ [r])) \<and> set (model_outcome_keys (prior @ [r])) \<subseteq> set (model_intent_keys (prior @ [r]))"
    using Cons.prems by (cases "sr_kind r") (auto simp: record_follows_def index_ok_def)
  with Cons.prems Cons.IH [of "prior @ [r]"] show ?case by (simp del: keys_append)
qed simp

lemma keys_Nil [simp]:
  "model_intent_keys [] = []" "model_outcome_keys [] = []" "tool_intent_keys [] = []" "tool_outcome_keys [] = []" "of_kind k [] = []"
  by (simp_all add: model_intent_keys_def model_outcome_keys_def tool_intent_keys_def tool_outcome_keys_def of_kind_def)

lemma open_count:
  assumes "distinct is" "distinct os" "set os \<subseteq> set is"
  shows "length (filter (\<lambda>x. x \<notin> set os) is) = length is - length os" "length os \<le> length is"
proof -
  have "length (filter (\<lambda>x. x \<notin> set os) is) = card (set is - set os)"
    using assms(1) by (metis Diff_eq distinct_card distinct_filter set_diff_eq set_filter)
  also have "\<dots> = length is - length os" using assms by (simp add: card_Diff_subset distinct_card)
  finally show "length (filter (\<lambda>x. x \<notin> set os) is) = length is - length os" .
  show "length os \<le> length is" using assms by (metis card_mono distinct_card finite_set)
qed

lemma pending_counts:
  assumes "log_ok sid rows"
  shows "length (pending_models rows) = length (of_kind RecordModelIntent rows) - length (of_kind RecordModelOutcome rows)"
    "length (pending_tools rows) = length (of_kind RecordToolIntent rows) - length (of_kind RecordToolOutcome rows)"
    "length (of_kind RecordToolOutcome rows) \<le> length (of_kind RecordToolIntent rows)"
    "length (of_kind RecordModelOutcome rows) \<le> length (of_kind RecordModelIntent rows)"
proof -
  have filters: "length (filter (\<lambda>r. f r \<notin> X) rs) = length (filter (\<lambda>x. x \<notin> X) (map f rs))" for f :: "session_record \<Rightarrow> 'k" and X rs
    by (simp add: filter_map comp_def)
  have m: "distinct (model_intent_keys rows)" "distinct (model_outcome_keys rows)" "set (model_outcome_keys rows) \<subseteq> set (model_intent_keys rows)"
    and t: "distinct (tool_intent_keys rows)" "distinct (tool_outcome_keys rows)" "set (tool_outcome_keys rows) \<subseteq> set (tool_intent_keys rows)"
    using intents_distinct [OF assms] model_outcomes_distinct [OF assms] outcomes_distinct [OF assms] by simp_all
  have lens: "length (model_intent_keys rows) = length (of_kind RecordModelIntent rows)" "length (model_outcome_keys rows) = length (of_kind RecordModelOutcome rows)"
    "length (tool_intent_keys rows) = length (of_kind RecordToolIntent rows)" "length (tool_outcome_keys rows) = length (of_kind RecordToolOutcome rows)"
    by (simp_all add: model_intent_keys_def model_outcome_keys_def tool_intent_keys_def tool_outcome_keys_def)
  show "length (pending_models rows) = length (of_kind RecordModelIntent rows) - length (of_kind RecordModelOutcome rows)"
    using open_count(1) [OF m] by (simp add: pending_models_def filters model_intent_keys_def [symmetric] lens)
  show "length (pending_tools rows) = length (of_kind RecordToolIntent rows) - length (of_kind RecordToolOutcome rows)"
    using open_count(1) [OF t] by (simp add: pending_tools_def filters tool_intent_keys_def [symmetric] lens)
  show "length (of_kind RecordToolOutcome rows) \<le> length (of_kind RecordToolIntent rows)" using open_count(2) [OF t] by (simp add: lens)
  show "length (of_kind RecordModelOutcome rows) \<le> length (of_kind RecordModelIntent rows)" using open_count(2) [OF m] by (simp add: lens)
qed

subsection \<open>Recovery\<close>

text \<open>
  What recovery relies on of the redaction: it touches credentials in a record's texts, never its
  kind or the status of an outcome, which are words of a fixed vocabulary.
\<close>

definition redact_keeps :: "db_env \<Rightarrow> bool" where
  "redact_keeps env \<longleftrightarrow> (\<forall>r x. db_redact env r = Inr x \<longrightarrow> sr_kind x = sr_kind r \<and>
     map_option to_status (sr_tool_outcome x) = map_option to_status (sr_tool_outcome r) \<and>
     map_option mo_status (sr_model_outcome x) = map_option mo_status (sr_model_outcome r))"

definition outcome_cancelled :: "session_record \<Rightarrow> bool" where
  "outcome_cancelled r \<longleftrightarrow> (case sr_kind r of
      RecordToolOutcome \<Rightarrow> map_option to_status (sr_tool_outcome r) = Some OutcomeCancelled
    | RecordModelOutcome \<Rightarrow> map_option mo_status (sr_model_outcome r) = Some OutcomeCancelled
    | _ \<Rightarrow> True)"

lemma stored_keeps:
  assumes "redact_keeps env" "list_all2 (stored_as env) rs cs"
  shows "map sr_kind cs = map sr_kind rs" "list_all outcome_cancelled rs \<Longrightarrow> list_all outcome_cancelled cs"
proof -
  have one: "sr_kind r' = sr_kind r \<and> (outcome_cancelled r \<longrightarrow> outcome_cancelled r')" if "stored_as env r r'" for r r'
    using that assms(1) unfolding stored_as_def same_record_facts_def redact_keeps_def outcome_cancelled_def by (cases "sr_kind r") (force+)
  from assms(2) show "map sr_kind cs = map sr_kind rs" by (induction rule: list_all2_induct) (auto dest: one)
  from assms(2) show "list_all outcome_cancelled rs \<Longrightarrow> list_all outcome_cancelled cs"
    by (induction rule: list_all2_induct) (auto dest: one)
qed

lemma of_kind_count: "length (of_kind k rs) = length (filter (\<lambda>x. x = k) (map sr_kind rs))"
  by (simp add: of_kind_def filter_map comp_def)

lemma recovery_kinds [simp]:
  "map sr_kind (concat (map (tool_recovery env sid) is)) = concat (map (\<lambda>i. [RecordExtension, RecordToolOutcome, RecordConversation]) is)"
  "map sr_kind (map (model_recovery sid) is) = map (\<lambda>i. RecordModelOutcome) is"
  by (simp_all add: map_concat comp_def tool_recovery_def model_recovery_def BuiltinRecord_def blank_record_def conversation_record_def)

lemma recovery_cancelled:
  "list_all outcome_cancelled (concat (map (tool_recovery env sid) is))" "list_all outcome_cancelled (map (model_recovery sid) is)"
  by (induction "is") (simp_all add: tool_recovery_def model_recovery_def BuiltinRecord_def blank_record_def conversation_record_def outcome_cancelled_def)

text \<open>The records recovery may add: outcomes of the two kinds, evidence and results; no intent.\<close>

definition settles_only :: "nat \<Rightarrow> nat \<Rightarrow> session_record list \<Rightarrow> bool" where
  "settles_only m t cs \<longleftrightarrow> list_all outcome_cancelled cs \<and> of_kind RecordModelIntent cs = [] \<and> of_kind RecordToolIntent cs = [] \<and>
     length (of_kind RecordModelOutcome cs) = m \<and> length (of_kind RecordToolOutcome cs) = t"

lemma settles_only_append: "settles_only m t cs \<Longrightarrow> settles_only m' t' ds \<Longrightarrow> settles_only (m + m') (t + t') (cs @ ds)"
  by (simp add: settles_only_def)

lemma settles_kinds:
  assumes "list_all outcome_cancelled cs" "RecordModelIntent \<notin> set (map sr_kind cs)" "RecordToolIntent \<notin> set (map sr_kind cs)"
    and "length (filter (\<lambda>x. x = RecordModelOutcome) (map sr_kind cs)) = m" "length (filter (\<lambda>x. x = RecordToolOutcome) (map sr_kind cs)) = t"
  shows "settles_only m t cs"
  using assms unfolding settles_only_def of_kind_count by (force simp: of_kind_def filter_empty_conv)

lemma tool_batch_settles:
  assumes "redact_keeps env" "list_all2 (stored_as env) (concat (map (tool_recovery env sid) is)) cs"
  shows "settles_only 0 (length is) cs"
proof (rule settles_kinds)
  note kinds = stored_keeps(1) [OF assms]
  show "list_all outcome_cancelled cs" by (rule stored_keeps(2) [OF assms recovery_cancelled(1)])
  show "RecordModelIntent \<notin> set (map sr_kind cs)" "RecordToolIntent \<notin> set (map sr_kind cs)" unfolding kinds recovery_kinds by auto
  show "length (filter (\<lambda>x. x = RecordModelOutcome) (map sr_kind cs)) = 0" "length (filter (\<lambda>x. x = RecordToolOutcome) (map sr_kind cs)) = length is"
    unfolding kinds recovery_kinds by (induction "is") simp_all
qed

lemma model_batch_settles:
  assumes "redact_keeps env" "list_all2 (stored_as env) (map (model_recovery sid) is) cs"
  shows "settles_only (length is) 0 cs"
proof (rule settles_kinds)
  note kinds = stored_keeps(1) [OF assms]
  show "list_all outcome_cancelled cs" by (rule stored_keeps(2) [OF assms recovery_cancelled(2)])
  show "RecordModelIntent \<notin> set (map sr_kind cs)" "RecordToolIntent \<notin> set (map sr_kind cs)" unfolding kinds recovery_kinds by auto
  show "length (filter (\<lambda>x. x = RecordModelOutcome) (map sr_kind cs)) = length is" "length (filter (\<lambda>x. x = RecordToolOutcome) (map sr_kind cs)) = 0"
    unfolding kinds recovery_kinds by (induction "is") simp_all
qed

lemma recover_tools_grows:
  "recover_tools env sid is rp = Inr rp' \<Longrightarrow> redact_keeps env \<Longrightarrow> repo_inv rp \<Longrightarrow> \<exists>w \<in> set (rp_sessions rp). sw_id w = sid \<Longrightarrow>
     \<exists>cs. grows sid rp cs rp' \<and> settles_only 0 (length is) cs \<and> repo_inv rp' \<and> (\<exists>w \<in> set (rp_sessions rp'). sw_id w = sid)"
proof (induction env sid "is" rp rule: recover_tools.induct)
  case (1 env sid rp)
  then show ?case by (intro exI [of _ "[]"]) (auto simp: grows_refl settles_only_def)
next
  case (2 env sid i "is" rp)
  let ?is = "i # is"
  from 2(2) obtain cs rp1 where a: "appendTx env sid (concat (map (tool_recovery env sid) (take 64 ?is))) rp = Inr (cs, rp1)"
    and rest: "recover_tools env sid (drop 64 ?is) rp1 = Inr rp'" by (auto split: sum.splits)
  from 2(5) obtain w where w: "w \<in> set (rp_sessions rp)" "sw_id w = sid" by blast
  note g = appendTx_grows [OF 2(4) w(1), unfolded w(2), OF a]
  from 2(1) [OF a refl rest 2(3) g(3,4)] obtain ds where d: "grows sid rp1 ds rp'" "settles_only 0 (length (drop 64 ?is)) ds" "repo_inv rp'" "\<exists>w \<in> set (rp_sessions rp'). sw_id w = sid"
    by blast
  have "settles_only (0 + 0) (length (take 64 ?is) + length (drop 64 ?is)) (cs @ ds)"
    by (rule settles_only_append [OF tool_batch_settles [OF 2(3) g(2)] d(2)])
  moreover have "length (take 64 ?is) + length (drop 64 ?is) = length ?is" by simp
  ultimately show ?case using grows_trans [OF g(1) d(1)] d(3,4) by (metis add_0)
qed

lemma recoverLocked_settles:
  assumes "recoverLocked env owner sid rp = (Inr report, rp')" "repo_inv rp" "redact_keeps env"
  obtains cs where "grows sid rp cs rp'" "settles_only (length (pending_models (rows_of sid rp))) (length (pending_tools (rows_of sid rp))) cs"
    "repo_inv rp'" "\<exists>w \<in> set (rp_sessions rp'). sw_id w = sid" "log_ok sid (table_rows sid rp)"
    "report = \<lparr>rr_models = length (pending_models (rows_of sid rp)), rr_tools = length (pending_tools (rows_of sid rp)), rr_unknown = length (pending_tools (rows_of sid rp))\<rparr>"
proof -
  let ?m = "pending_models (rows_of sid rp)" and ?t = "pending_tools (rows_of sid rp)"
  from assms(1) obtain w where w: "w \<in> set (rp_sessions rp)" "sw_id w = sid" and body: "recover_body env sid rp = Inr (report, rp')"
    unfolding recoverLocked_def by (auto elim: transaction_cases)
  have budget: "xs = ys" if "pending_budget ys = Inr xs" for xs ys :: "pending_intent list"
    using that by (auto simp: pending_budget_def split: if_splits)
  from body obtain cs0 rp1 where m: "(if ?m = [] then Inr ([], rp) else appendTx env sid (map (model_recovery sid) ?m) rp) = Inr (cs0, rp1)"
    and t: "recover_tools env sid ?t rp1 = Inr rp'" and rep: "report = \<lparr>rr_models = length ?m, rr_tools = length ?t, rr_unknown = length ?t\<rparr>"
    unfolding recover_body_def by (auto split: sum.splits dest!: budget)
  have first: "grows sid rp cs0 rp1 \<and> settles_only (length ?m) 0 cs0 \<and> repo_inv rp1 \<and> (\<exists>w \<in> set (rp_sessions rp1). sw_id w = sid)"
  proof (cases "?m = []")
    case True
    with m assms(2) w show ?thesis by (auto simp: grows_refl settles_only_def)
  next
    case False
    with m have a: "appendTx env sid (map (model_recovery sid) ?m) rp = Inr (cs0, rp1)" by simp
    note g = appendTx_grows [OF assms(2) w(1), unfolded w(2), OF a]
    show ?thesis by (intro conjI g(1,3,4) model_batch_settles [OF assms(3) g(2)])
  qed
  with recover_tools_grows [OF t assms(3)] obtain cs1 where "grows sid rp1 cs1 rp'" "settles_only 0 (length ?t) cs1" "repo_inv rp'" "\<exists>w \<in> set (rp_sessions rp'). sw_id w = sid"
    by blast
  with first grows_trans [of sid rp cs0 rp1 cs1 rp'] settles_only_append [of "length ?m" 0 cs0 0 "length ?t" cs1] rep session_of(2) [OF assms(2) w(1)] w(2)
  show ?thesis using that [of "cs0 @ cs1"] by simp
qed

lemma session_log:
  assumes "repo_inv rp" "\<exists>w \<in> set (rp_sessions rp). sw_id w = sid"
  shows "log_ok sid (table_rows sid rp)" "rows_of sid rp = table_rows sid rp"
  using assms session_of(2) rows_in_order by blast+

lemma settled_log:
  assumes "log_ok sid rows" "log_ok sid (rows @ cs)" "settles_only (length (pending_models rows)) (length (pending_tools rows)) cs"
  shows "pending_models (rows @ cs) = []" "pending_tools (rows @ cs) = []"
  using pending_counts [OF assms(1)] pending_counts [OF assms(2)] assms(3) by (simp_all add: settles_only_def)

subsection \<open>The store as a conversation log\<close>

text \<open>An operation on the repository; a caller of the store is a sequence of them.\<close>

datatype journal_op =
    AppendOp string string "session_record list"
  | SnapshotOp string string string string nat string "session_record list"
  | RecoverOp string string
  | BeginOp string string
  | ReleaseOp string
  | CreateOp string string string
  | ChildOp string string string string string string
  | CloseOp "go_error option"

fun journal_step :: "db_env \<times> journal_op \<Rightarrow> repository \<Rightarrow> repository" where
  "journal_step (env, AppendOp owner sid rs) rp = snd (session_AppendRecords env owner sid rs rp)"
| "journal_step (env, SnapshotOp owner sid ns kind q payload extra) rp = snd (AppendExtensionSnapshot env owner sid ns kind q payload extra rp)"
| "journal_step (env, RecoverOp owner sid) rp = snd (Recover env owner sid rp)"
| "journal_step (env, BeginOp owner sid) rp = snd (BeginRun env owner sid rp)"
| "journal_step (env, ReleaseOp sid) rp = release_run sid rp"
| "journal_step (env, CreateOp owner sid parent) rp = snd (rp_Create env owner sid parent rp)"
| "journal_step (env, ChildOp owner parent child run call scope) rp = snd (CreateChild env owner parent child run call scope rp)"
| "journal_step (env, CloseOp failure) rp = snd (rp_Close failure rp)"

definition journal_run :: "(db_env \<times> journal_op) list \<Rightarrow> repository" where
  "journal_run ops = fold journal_step ops empty_repository"

lemma repo_inv_other [simp]:
  "repo_inv (rp\<lparr>rp_active := a\<rparr>) \<longleftrightarrow> repo_inv rp" "repo_inv (rp\<lparr>rp_closed := b\<rparr>) \<longleftrightarrow> repo_inv rp" "repo_inv (rp\<lparr>rp_links := l\<rparr>) \<longleftrightarrow> repo_inv rp"
  by (simp_all add: repo_inv_def session_rows_ok_def)

lemma transaction_inv:
  assumes "repo_inv rp" "\<And>y rp' w. body rp = Inr (y, rp') \<Longrightarrow> w \<in> set (rp_sessions rp) \<Longrightarrow> sw_id w = sid \<Longrightarrow> repo_inv rp'"
  shows "repo_inv (snd (transaction env owner sid body rp))"
proof -
  obtain x rp' where t: "transaction env owner sid body rp = (x, rp')" by fastforce
  from t show ?thesis
    by (cases rule: transaction_cases) (use assms in \<open>auto simp: t\<close>)
qed

lemma recover_tools_inv:
  "recover_tools env sid is rp = Inr rp' \<Longrightarrow> repo_inv rp \<Longrightarrow> \<exists>w \<in> set (rp_sessions rp). sw_id w = sid \<Longrightarrow> repo_inv rp'"
proof (induction env sid "is" rp rule: recover_tools.induct)
  case (2 env sid i "is" rp)
  from 2(2) obtain cs rp1 where a: "appendTx env sid (concat (map (tool_recovery env sid) (take 64 (i # is)))) rp = Inr (cs, rp1)"
    and rest: "recover_tools env sid (drop 64 (i # is)) rp1 = Inr rp'" by (auto split: sum.splits)
  from 2(4) obtain w where w: "w \<in> set (rp_sessions rp)" "sw_id w = sid" by blast
  show ?case by (rule 2(1) [OF a refl rest appendTx_grows(3,4) [OF 2(3) w(1), unfolded w(2), OF a]])
qed simp

lemma insert_session_inv:
  assumes "insert_session owner sid parent now rp = Inr rp'" "repo_inv rp"
  shows "repo_inv rp'" "set (rp_sessions rp) \<subseteq> set (rp_sessions rp')" "\<And>t. table_rows t rp' = table_rows t rp"
proof -
  let ?w = "\<lparr>sw_id = sid, sw_owner = owner, sw_parent = parent, sw_created = now, sw_next = 1\<rparr>"
  have new: "sid \<notin> sw_id ` set (rp_sessions rp)" and rp': "rp' = rp\<lparr>rp_sessions := rp_sessions rp @ [?w]\<rparr>"
    using assms(1) by (auto simp: insert_session_def list_ex_iff split: if_splits)
  moreover have "fst ` set (rp_records rp) \<subseteq> sw_id ` set (rp_sessions rp)" using assms(2) by (simp add: repo_inv_def)
  ultimately have "\<forall>x \<in> set (rp_records rp). fst x \<noteq> sid" by (metis imageI subsetD)
  then have "table_rows sid rp = []" by (auto simp: table_rows_def filter_empty_conv)
  then have "session_rows_ok rp' ?w" by (simp add: session_rows_ok_def rp')
  moreover have "session_rows_ok rp' v" if "v \<in> set (rp_sessions rp)" for v
    using assms(2) that by (simp add: repo_inv_def rp' session_rows_ok_def)
  ultimately show "repo_inv rp'" using assms(2) new by (auto simp: repo_inv_def rp')
  show "set (rp_sessions rp) \<subseteq> set (rp_sessions rp')" "\<And>t. table_rows t rp' = table_rows t rp" by (auto simp: rp')
qed

lemma recover_body_inv:
  assumes "recover_body env sid rp = Inr (report, rp')" "repo_inv rp" "w \<in> set (rp_sessions rp)" "sw_id w = sid"
  shows "repo_inv rp'"
proof -
  from assms(1) obtain ms ts cs rp1 where m: "(if ms = [] then Inr ([], rp) else appendTx env sid (map (model_recovery sid) ms) rp) = Inr (cs, rp1)"
    and t: "recover_tools env sid ts rp1 = Inr rp'"
    unfolding recover_body_def by (auto split: sum.splits)
  have "repo_inv rp1 \<and> (\<exists>w \<in> set (rp_sessions rp1). sw_id w = sid)"
  proof (cases "ms = []")
    case True
    with m assms(2-4) show ?thesis by auto
  next
    case False
    with m have "appendTx env sid (map (model_recovery sid) ms) rp = Inr (cs, rp1)" by simp
    from appendTx_grows(3,4) [OF assms(2,3), unfolded assms(4), OF this] show ?thesis by blast
  qed
  with recover_tools_inv [OF t] show ?thesis by blast
qed

lemma recoverLocked_inv: "repo_inv rp \<Longrightarrow> repo_inv (snd (recoverLocked env owner sid rp))"
  unfolding recoverLocked_def by (rule transaction_inv) (auto dest: recover_body_inv)

lemma child_body_inv:
  assumes "child_body env owner parent child run call scope rp = Inr (y, rp')" "repo_inv rp" "w \<in> set (rp_sessions rp)" "sw_id w = parent"
  shows "repo_inv rp'"
proof -
  from assms(1) obtain intent rp1 cs rp2 where i: "insert_session owner child (Some parent) (db_clock env 0) rp = Inr rp1"
    and a: "appendTx env parent [link_record parent intent (child_payload env parent child run call scope)] rp1 = Inr (cs, rp2)"
    and rp': "rp' = rp2\<lparr>rp_links := rp_links rp2 @ [\<lparr>cl_child = child, cl_parent = parent, cl_sequence = sr_sequence (hd cs), cl_record = sr_id (hd cs)\<rparr>]\<rparr>"
    unfolding child_body_def by (auto split: option.splits sum.splits)
  note n = insert_session_inv [OF i assms(2)]
  from n(2) assms(3) have "w \<in> set (rp_sessions rp1)" by blast
  from appendTx_inv [OF n(1) this, unfolded assms(4), OF a] rp' show ?thesis by auto
qed

lemma journal_step_inv [alva_inv]: "repo_inv rp \<Longrightarrow> repo_inv (journal_step (env, op) rp)"
proof (cases op)
  case (AppendOp owner sid rs)
  assume "repo_inv rp"
  with AppendOp show ?thesis by (auto simp: session_AppendRecords_def intro!: transaction_inv dest: appendTx_inv)
next
  case (SnapshotOp owner sid ns kind q payload extra)
  assume "repo_inv rp"
  with SnapshotOp show ?thesis
    by (auto simp: AppendExtensionSnapshot_def snapshot_body_def intro!: transaction_inv dest: appendTx_inv split: if_splits sum.splits)
next
  case (RecoverOp owner sid)
  assume "repo_inv rp"
  from recoverLocked_inv [OF this] this RecoverOp show ?thesis by (simp add: Recover_def)
next
  case (BeginOp owner sid)
  assume "repo_inv rp"
  from recoverLocked_inv [OF this, of env owner sid] this BeginOp show ?thesis
    by (auto simp: BeginRun_def split: option.splits prod.splits sum.splits)
next
  case (CreateOp owner sid parent)
  assume "repo_inv rp"
  with CreateOp show ?thesis by (auto simp: rp_Create_def split: option.splits sum.splits dest: insert_session_inv)
next
  case (ChildOp owner parent child run call scope)
  assume "repo_inv rp"
  with ChildOp show ?thesis by (auto simp: CreateChild_def intro!: transaction_inv dest: child_body_inv)
qed (auto simp: release_run_def rp_Close_def)

lemma journal_run_inv: "repo_inv (journal_run ops)"
proof -
  have "repo_inv rp \<Longrightarrow> repo_inv (fold journal_step ops rp)" for rp
    by (induction ops arbitrary: rp) (auto intro: journal_step_inv)
  from this [OF repo_inv_empty] show ?thesis by (simp add: journal_run_def)
qed

text \<open>
  C7. Whatever is asked of the durable store, in whatever order and with whatever database
  failures, redactions, crashes of runs and recoveries, every session's log stays causal: record i
  carries sequence i and the identity made from it, its parent is an earlier record of the same
  session, intents are unique, and each outcome follows its intent and is its only one.
\<close>

theorem store_log_causal:
  "let rp = journal_run ops in
     list_all (\<lambda>w. log_ok (sw_id w) (rows_of (sw_id w) rp) \<and> sw_next w = length (rows_of (sw_id w) rp) + 1 \<and>
       distinct (tool_outcome_keys (rows_of (sw_id w) rp)) \<and>
       set (tool_outcome_keys (rows_of (sw_id w) rp)) \<subseteq> set (tool_intent_keys (rows_of (sw_id w) rp))) (rp_sessions rp)"
proof -
  let ?rp = "journal_run ops"
  have "log_ok (sw_id w) (rows_of (sw_id w) ?rp) \<and> sw_next w = length (rows_of (sw_id w) ?rp) + 1 \<and>
       distinct (tool_outcome_keys (rows_of (sw_id w) ?rp)) \<and>
       set (tool_outcome_keys (rows_of (sw_id w) ?rp)) \<subseteq> set (tool_intent_keys (rows_of (sw_id w) ?rp))"
    if "w \<in> set (rp_sessions ?rp)" for w
  proof -
    have ok: "session_rows_ok ?rp w" using journal_run_inv [of ops] that by (simp add: repo_inv_def)
    then have log: "log_ok (sw_id w) (table_rows (sw_id w) ?rp)" by (simp add: session_rows_ok_def)
    from ok log outcomes_distinct [OF log] show ?thesis by (simp add: rows_in_order session_rows_ok_def)
  qed
  then show ?thesis by (simp add: Let_def list_all_iff)
qed

end
