(* ===== verification/Session_Contract.thy ===== *)
theory Session_Contract
  imports Session_Facts
begin

section \<open>The durable store and the contracts it provides\<close>

text \<open>
  The store provides the conversation-log contract of \<open>abi.ConversationLog\<close> (locale
  \<open>conversation_log\<close>), its snapshots are a compare-and-append stream, and on batches that carry no
  credentials it agrees with the in-memory session record by record.
\<close>

subsection \<open>The log contract\<close>

text \<open>An environment whose redaction finds nothing to remove.\<close>

definition unredacted :: "db_env \<Rightarrow> db_env" where
  "unredacted env = env\<lparr>db_redact := Inr\<rparr>"

lemma unredacted_stored [simp]: "stored_as (unredacted env) r r' \<longleftrightarrow> same_record_facts r r'"
  by (simp add: stored_as_def unredacted_def)

lemma same_record_facts_outcomes: "list_all2 same_record_facts rs cs \<Longrightarrow> tool_outcome_keys cs = tool_outcome_keys rs"
proof (induction rule: list_all2_induct)
  case (Cons r rs c cs)
  have "tool_outcome_keys ([c] @ cs) = tool_outcome_keys ([r] @ rs)" using same_record_facts_keys(4) [OF Cons(1)] Cons(3) by (simp only: keys_append)
  then show ?case by simp
qed simp

lemma append_commits:
  assumes "session_AppendRecords env owner sid rs rp = (Inr cs, rp')" "repo_inv rp"
  shows "grows sid rp cs rp'" "list_all2 (stored_as env) rs cs" "repo_inv rp'"
    "rows_of sid rp = table_rows sid rp" "rows_of sid rp' = rows_of sid rp @ cs"
proof -
  from assms(1) obtain w where w: "w \<in> set (rp_sessions rp)" "sw_id w = sid" and a: "appendTx env sid rs rp = Inr (cs, rp')"
    unfolding session_AppendRecords_def by (auto elim: transaction_cases)
  note g = appendTx_grows [OF assms(2) w(1), unfolded w(2), OF a]
  show "grows sid rp cs rp'" "list_all2 (stored_as env) rs cs" "repo_inv rp'" by (rule g)+
  show r: "rows_of sid rp = table_rows sid rp" using session_log(2) [OF assms(2)] w by blast
  show "rows_of sid rp' = rows_of sid rp @ cs" using session_log(2) [OF g(3)] g(1,4) by (simp add: r grows_def)
qed

lemma append_refused: "session_AppendRecords env owner sid rs rp = (Inl e, rp') \<Longrightarrow> rp' = rp"
  unfolding session_AppendRecords_def by (auto elim: transaction_cases)

lemma append_all_rows:
  "append_all env sid n rs rp = Inr (cs, rp') \<Longrightarrow> table_rows sid rp' = table_rows sid rp @ cs \<and> list_all2 same_record_facts rs cs"
proof (induction rs arbitrary: n rp cs rp')
  case (Cons r rs)
  from Cons.prems obtain r' rp1 rest where r: "append_record env sid n r rp = Inr (r', rp1)"
    and rest: "append_all env sid (n + 1) rs rp1 = Inr (rest, rp')" "cs = r' # rest" by (auto split: sum.splits)
  note c = append_record_cases [OF r]
  have "same_record_facts r r'" using link_facts [OF c(3) stamp_facts] by simp
  with Cons.IH [OF rest(1)] show ?case by (simp add: rest(2) c(5))
qed simp

lemma clean_unredacted: "clean_records (unredacted env) rs = Inr owned \<Longrightarrow> owned = rs"
  by (induction rs arbitrary: owned) (auto simp: unredacted_def split: option.splits sum.splits)

lemma appendTx_unredacted:
  assumes "appendTx (unredacted env) sid rs rp = Inr (cs, rp')"
  shows "table_rows sid rp' = table_rows sid rp @ cs" "list_all2 same_record_facts rs cs"
proof -
  from assms obtain n where "append_all (unredacted env) sid n rs rp = Inr (cs, rp')"
    by (auto simp: appendTx_def split: option.splits sum.splits dest!: clean_unredacted)
  from append_all_rows [OF this] show "table_rows sid rp' = table_rows sid rp @ cs" "list_all2 same_record_facts rs cs" by simp_all
qed

lemma append_unredacted:
  assumes "session_AppendRecords (unredacted env) owner sid rs rp = (Inr cs, rp')"
  shows "table_rows sid rp' = table_rows sid rp @ cs" "list_all2 same_record_facts rs cs"
proof -
  from assms have "appendTx (unredacted env) sid rs rp = Inr (cs, rp')"
    unfolding session_AppendRecords_def by (auto elim: transaction_cases)
  from appendTx_unredacted [OF this] show "table_rows sid rp' = table_rows sid rp @ cs" "list_all2 same_record_facts rs cs" .
qed

text \<open>
  The second provider of the log contract, after the in-memory session. Rows are taken in the
  order of insertion, which under the invariant is the order of their sequences (\<open>rows_of\<close>).
\<close>

interpretation durable: conversation_log repo_inv "table_rows sid" "\<lambda>rs rp. session_AppendRecords (unredacted env) owner sid rs rp"
  for env owner sid
proof (unfold_locales, goal_cases)
  case (1 rs s e s')
  then show ?case by (rule append_refused)
next
  case (2 rs s cs s')
  then show ?case by (rule append_unredacted(1))
next
  case (3 rs s cs s')
  then show ?case by (rule same_record_facts_outcomes [OF append_unredacted(2)])
next
  case (4 s rs)
  then show ?case unfolding session_AppendRecords_def by (auto intro!: transaction_inv dest: appendTx_inv)
next
  case (5 s)
  show ?case
  proof (cases "\<exists>w \<in> set (rp_sessions s). sw_id w = sid")
    case True
    from outcomes_distinct [OF session_log(1) [OF 5 True]] show ?thesis by simp
  next
    case False
    have "fst ` set (rp_records s) \<subseteq> sw_id ` set (rp_sessions s)" using 5 by (simp add: repo_inv_def)
    with False have "\<forall>x \<in> set (rp_records s). fst x \<noteq> sid" by (metis imageE imageI subsetD)
    then have "table_rows sid s = []" by (auto simp: table_rows_def filter_empty_conv)
    then show ?thesis by simp
  qed
qed

subsection \<open>Snapshots are a compare-and-append stream\<close>

lemma foldr_max_ge: "x \<in> set xs \<Longrightarrow> x \<le> foldr max xs (0 :: nat)"
  by (induction xs) auto

lemma foldr_max_bound: "(\<And>x. x \<in> set xs \<Longrightarrow> x \<le> b) \<Longrightarrow> foldr max xs (0 :: nat) \<le> b"
  by (induction xs) auto

lemma log_sequence_bound:
  assumes "log_ok sid rs" "r \<in> set rs"
  shows "1 \<le> sr_sequence r" "sr_sequence r \<le> length rs"
  using assms log_positions [OF assms(1)] by (auto simp: in_set_conv_nth)

text \<open>What a snapshot relies on of the redaction: an ordinary namespace and type are no credentials.\<close>

definition envelope_kept :: "db_env \<Rightarrow> session_record \<Rightarrow> bool" where
  "envelope_kept env r \<longleftrightarrow> (\<forall>x. db_redact env r = Inr x \<longrightarrow> sr_namespace x = sr_namespace r \<and> sr_type x = sr_type r)"

lemma snapshot_commits:
  assumes "AppendExtensionSnapshot env owner sid ns kind q payload extra rp = (Inr r, rp')" "repo_inv rp"
    and "list_all (envelope_kept env) (snapshot_record ns kind payload # extra)"
  shows "stream_revision sid ns kind rp = q" "stream_revision sid ns kind rp' = sr_sequence r" "q < sr_sequence r" "repo_inv rp'"
    "\<exists>cs. rows_of sid rp' = rows_of sid rp @ r # cs \<and> length cs = length extra \<and> list_all (\<lambda>c. \<not> in_stream ns kind c) cs"
    "in_stream ns kind r" "sr_sequence r = length (table_rows sid rp) + 1"
proof -
  from assms(1) obtain w where w: "w \<in> set (rp_sessions rp)" "sw_id w = sid"
    and body: "snapshot_body env sid ns kind q payload extra rp = Inr (r, rp')"
    unfolding AppendExtensionSnapshot_def by (auto elim: transaction_cases)
  then obtain ds where q: "stream_revision sid ns kind rp = q" and ex: "\<not> list_ex (in_stream ns kind) extra"
    and a: "appendTx env sid (snapshot_record ns kind payload # extra) rp = Inr (ds, rp')" and r: "r = hd ds"
    by (auto simp: snapshot_body_def split: if_splits sum.splits)
  note g = appendTx_grows [OF assms(2) w(1), unfolded w(2), OF a]
  from g(2) obtain cs where ds: "ds = r # cs" and rr: "stored_as env (snapshot_record ns kind payload) r" and rest: "list_all2 (stored_as env) extra cs"
    by (auto simp: list_all2_Cons1 r)
  have stream: "in_stream ns kind y = in_stream ns kind x" if "stored_as env x y" "envelope_kept env x" for x y
    using that by (auto simp: stored_as_def same_record_facts_def envelope_kept_def in_stream_def)
  show str: "in_stream ns kind r" using stream [OF rr] assms(3) by (simp add: in_stream_def snapshot_record_def)
  from rest have "list_all (envelope_kept env) extra \<Longrightarrow> \<not> list_ex (in_stream ns kind) extra \<Longrightarrow> list_all (\<lambda>c. \<not> in_stream ns kind c) cs"
    by (induction rule: list_all2_induct) (auto simp: stream)
  with assms(3) ex have others: "list_all (\<lambda>c. \<not> in_stream ns kind c) cs" by simp
  have log: "log_ok sid (table_rows sid rp)" by (rule session_log(1) [OF assms(2)]) (use w in blast)
  have rows': "table_rows sid rp' = table_rows sid rp @ r # cs" using g(1) by (simp add: grows_def ds)
  have log': "log_ok sid (table_rows sid rp @ r # cs)" using g(5) by (simp add: ds)
  show sq: "sr_sequence r = length (table_rows sid rp) + 1" using log' by (simp add: log_ok_append record_follows_def)
  show "stream_revision sid ns kind rp = q" by (rule q)
  have "stream_revision sid ns kind rp \<le> length (table_rows sid rp)"
    unfolding stream_revision_def by (rule foldr_max_bound) (use log_sequence_bound(2) [OF log] in auto)
  with q sq show "q < sr_sequence r" by simp
  have none: "filter (in_stream ns kind) cs = []" using others by (auto simp: list_all_iff filter_empty_conv)
  have mx: "foldr max (xs @ [n]) 0 = n" if "\<And>x. x \<in> set xs \<Longrightarrow> x \<le> n" for xs and n :: nat
  proof (rule antisym)
    show "foldr max (xs @ [n]) 0 \<le> n" by (rule foldr_max_bound) (use that in auto)
    show "n \<le> foldr max (xs @ [n]) 0" by (rule foldr_max_ge) simp
  qed
  have "foldr max (map sr_sequence (filter (in_stream ns kind) (table_rows sid rp)) @ [sr_sequence r]) 0 = sr_sequence r"
    by (rule mx) (use log_sequence_bound(2) [OF log] sq in \<open>force intro: le_SucI\<close>)
  then show "stream_revision sid ns kind rp' = sr_sequence r"
    unfolding stream_revision_def rows' by (simp add: str none del: foldr_append)
  show "repo_inv rp'" by (rule g(3))
  have "length cs = length extra" using list_all2_lengthD [OF rest] by simp
  moreover have "rows_of sid rp' = rows_of sid rp @ r # cs" using session_log(2) [OF g(3,4)] rows_in_order [OF log] by (simp add: rows')
  ultimately show "\<exists>cs. rows_of sid rp' = rows_of sid rp @ r # cs \<and> length cs = length extra \<and> list_all (\<lambda>c. \<not> in_stream ns kind c) cs"
    using others by blast
qed

lemma snapshot_stream:
  assumes "AppendExtensionSnapshot env owner sid ns kind q payload extra rp = (Inr r, rp')" "repo_inv rp"
    and "list_all (envelope_kept env) (snapshot_record ns kind payload # extra)"
  shows "filter (in_stream ns kind) (rows_of sid rp') = filter (in_stream ns kind) (rows_of sid rp) @ [r]"
proof -
  note c = snapshot_commits [OF assms]
  from c(5) obtain cs where cs: "rows_of sid rp' = rows_of sid rp @ r # cs" "list_all (\<lambda>c. \<not> in_stream ns kind c) cs" by blast
  then have "filter (in_stream ns kind) cs = []" by (auto simp: list_all_iff filter_empty_conv)
  with cs c(6) show ?thesis by simp
qed

lemma stale_snapshot_refused:
  "stream_revision sid ns kind rp \<noteq> q \<Longrightarrow> \<exists>e. AppendExtensionSnapshot env owner sid ns kind q payload extra rp = (Inl e, rp)"
  by (auto simp: AppendExtensionSnapshot_def transaction_def snapshot_body_def split: option.splits)


subsection \<open>Agreement with the in-memory session\<close>

lemma dec_inj: "dec a = dec b \<Longrightarrow> a = b"
  by (metis undec_dec)

definition agrees :: "memory_session \<Rightarrow> staging \<Rightarrow> string \<Rightarrow> repository \<Rightarrow> bool" where
  "agrees s st sid rp \<longleftrightarrow> session_inv (commit_staging s st) \<and> sid = ms_id s \<and> table_rows sid rp = ms_records s @ st_owned st"

lemma agrees_log: "agrees s st sid rp \<Longrightarrow> log_ok sid (table_rows sid rp)"
  by (auto simp: agrees_def session_inv_def commit_staging_def)

lemma parent_checks_agree:
  assumes "agrees s st sid rp"
  shows "check_parent s st r = None \<longleftrightarrow> parent_check sid (length (table_rows sid rp) + 1) r rp = None"
proof (cases "sr_parent r")
  case (Some p)
  let ?all = "ms_records s @ st_owned st"
  have rows: "table_rows sid rp = ?all" "ms_id s = sid" using assms by (auto simp: agrees_def)
  show ?thesis
  proof (cases "rf_session_id p = ms_id s \<and> 1 \<le> rf_sequence p \<and> rf_sequence p \<le> length ?all")
    case True
    then have "record_at sid (rf_sequence p) rp = Some (?all ! (rf_sequence p - 1))"
      using record_at_nth [OF agrees_log [OF assms], of "rf_sequence p"] by (simp add: rows)
    moreover have "(if rf_sequence p \<le> length (ms_records s) then ms_records s ! (rf_sequence p - 1)
              else st_owned st ! (rf_sequence p - length (ms_records s) - 1)) = ?all ! (rf_sequence p - 1)"
      using True by (auto simp: nth_append)
    ultimately show ?thesis using True Some by (auto simp: check_parent_def parent_check_def rows Let_def)
  qed (use Some in \<open>auto simp: check_parent_def parent_check_def rows\<close>)
qed (simp add: check_parent_def parent_check_def)

lemma new_position_is_free:
  assumes "log_ok sid rows" "x \<in> set rows" "sr_sequence r = length rows + 1" "sr_id r = sid @ '':'' @ dec (length rows + 1)"
  shows "sr_sequence x \<noteq> sr_sequence r" "sr_id x \<noteq> sr_id r"
proof -
  obtain i where i: "i < length rows" "x = rows ! i" using assms(2) by (auto simp: in_set_conv_nth)
  with log_positions [OF assms(1) i(1)] have x: "sr_sequence x = i + 1" "sr_id x = sid @ '':'' @ dec (i + 1)" by simp_all
  show "sr_sequence x \<noteq> sr_sequence r" using x(1) i(1) assms(3) by simp
  show "sr_id x \<noteq> sr_id r"
  proof
    assume "sr_id x = sr_id r"
    then have "dec (i + 1) = dec (length rows + 1)" using x(2) assms(4) by simp
    then show False using i(1) dec_inj by fastforce
  qed
qed

definition taken :: "session_record \<Rightarrow> session_record list \<Rightarrow> bool" where
  "taken r rows = (case sr_kind r of
       RecordModelIntent \<Rightarrow> mi_request_id (the (sr_model_intent r)) \<in> set (model_intent_keys rows)
     | RecordModelOutcome \<Rightarrow> mo_request_id (the (sr_model_outcome r)) \<in> set (model_outcome_keys rows)
     | RecordToolIntent \<Rightarrow> intent_key r \<in> set (tool_intent_keys rows)
     | RecordToolOutcome \<Rightarrow> outcome_key r \<in> set (tool_outcome_keys rows)
     | _ \<Rightarrow> False)"

lemma conflict_is_taken:
  assumes "\<And>x. x \<in> set rows \<Longrightarrow> sr_sequence x \<noteq> sr_sequence r' \<and> sr_id x \<noteq> sr_id r'" "same_record_facts r r'"
  shows "list_ex (same_entry r') rows \<longleftrightarrow> taken r rows"
proof -
  have k: "sr_kind r' = sr_kind r" "sr_model_intent r' = sr_model_intent r" "sr_model_outcome r' = sr_model_outcome r"
    "intent_key r' = intent_key r" "outcome_key r' = outcome_key r"
    using assms(2) by (simp_all add: same_record_facts_def intent_key_def outcome_key_def)
  have "same_entry r' x \<longleftrightarrow> taken r [x]" if "x \<in> set rows" for x
    using assms(1) [OF that] by (cases "sr_kind r") (auto simp: same_entry_def taken_def k keys_members)
  then have "list_ex (same_entry r') rows \<longleftrightarrow> (\<exists>x \<in> set rows. taken r [x])" by (auto simp: list_ex_iff)
  also have "\<dots> \<longleftrightarrow> taken r rows" unfolding taken_def keys_members by (cases "sr_kind r") auto
  finally show ?thesis .
qed

lemma index_checks_agree:
  assumes "agrees s st sid rp" "same_record_facts r r'" "sr_sequence r' = length (table_rows sid rp) + 1" "sr_id r' = sid @ '':'' @ dec (length (table_rows sid rp) + 1)"
  shows "is_err (stage_index s st r) \<longleftrightarrow> intent_check sid r rp \<noteq> None \<or> list_ex (same_entry r') (table_rows sid rp)"
proof -
  let ?all = "ms_records s @ st_owned st"
  have inv: "session_inv (commit_staging s st)" and rows: "table_rows sid rp = ?all" using assms(1) by (auto simp: agrees_def)
  have conflict: "list_ex (same_entry r') (table_rows sid rp) \<longleftrightarrow> taken r (table_rows sid rp)"
    by (rule conflict_is_taken) (use new_position_is_free [OF agrees_log [OF assms(1)] _ assms(3,4)] assms(2) in auto)
  show ?thesis unfolding conflict unfolding rows
    by (cases "sr_kind r")
      (auto simp: stage_index_def intent_check_def taken_def rows Let_def merged_keys [OF inv] intent_key_def outcome_key_def simp del: keys_append set_append)
qed

lemma stamps_agree:
  assumes "agrees s st sid rp" "db_clock env (length (table_rows sid rp) + 1) = now"
  shows "link_parent sid (length (table_rows sid rp) + 1) (stamp_record env sid (length (table_rows sid rp) + 1) r) rp = Inr (stamp s st now r)"
proof -
  let ?all = "ms_records s @ st_owned st"
  have rows: "table_rows sid rp = ?all" "ms_id s = sid" using assms(1) by (auto simp: agrees_def)
  note log = agrees_log [OF assms(1)]
  show ?thesis
  proof (cases "sr_parent r = None \<and> ?all \<noteq> []")
    case True
    then have "record_at sid (length ?all) rp = Some (?all ! (length ?all - 1))"
      using record_at_nth [OF log, of "length ?all"] by (simp add: rows Suc_le_eq)
    moreover have "?all ! (length ?all - 1) = (if st_owned st \<noteq> [] then last (st_owned st) else last (ms_records s))"
      using True last_conv_nth [of ?all] by (cases "st_owned st = []") simp_all
    moreover have "sr_sequence (?all ! (length ?all - 1)) = length ?all"
      using log_positions [OF log [unfolded rows(1)], of "length ?all - 1"] True by simp
    ultimately show ?thesis using True assms(2)
      by (simp add: link_parent_def stamp_record_def stamp_def Let_def rows)
  qed (use assms(2) in \<open>auto simp: link_parent_def stamp_record_def stamp_def Let_def rows\<close>)
qed

lemma append_agrees:
  assumes "agrees s st sid rp" "db_write env = (\<lambda>_. None)" "db_clock env (length (table_rows sid rp) + 1) = now"
  shows "append_record env sid (length (table_rows sid rp) + 1) r rp =
     (case check_parent s st r of Some e \<Rightarrow> Inl (the (parent_check sid (length (table_rows sid rp) + 1) r rp))
      | None \<Rightarrow> (case stage_index s st r of Inl e \<Rightarrow> Inl (case intent_check sid r rp of Some e \<Rightarrow> e | None \<Rightarrow> Wrapf ''append typed record: '' (ErrNew ''UNIQUE constraint failed''))
        | Inr st1 \<Rightarrow> Inr (stamp s st now r, rp\<lparr>rp_records := rp_records rp @ [(sid, stamp s st now r)]\<rparr>)))"
proof -
  let ?n = "length (table_rows sid rp) + 1" and ?r = "stamp s st now r"
  note link = stamps_agree [OF assms(1,3), of r]
  have sf: "same_record_facts r ?r" using link_facts [OF link stamp_facts] by simp
  have "sr_sequence ?r = ?n" "sr_id ?r = sid @ '':'' @ dec ?n" using assms(1) by (auto simp: agrees_def)
  note idx = index_checks_agree [OF assms(1) sf this]
  note par = parent_checks_agree [OF assms(1), of r]
  show ?thesis using idx par link assms(2)
    by (cases "check_parent s st r"; cases "stage_index s st r"; cases "intent_check sid r rp"; cases "parent_check sid ?n r rp")
      (simp_all add: append_record_def insert_record_def)
qed


lemma staged_agrees:
  assumes "agrees s st sid rp" "check_parent s st r = None" "stage_index s st r = Inr st1"
  shows "agrees s (st1\<lparr>st_owned := st_owned st @ [stamp s st now r]\<rparr>) sid (rp\<lparr>rp_records := rp_records rp @ [(sid, stamp s st now r)]\<rparr>)"
proof -
  have inv: "session_inv (commit_staging s st)" using assms(1) by (simp add: agrees_def)
  from assms(1) stage_step_inv [OF inv assms(2,3)] show ?thesis by (auto simp: agrees_def)
qed

lemma stage_agrees:
  assumes "\<And>i. db_clock env (length (ms_records s) + i + 1) = clock i" "db_write env = (\<lambda>_. None)"
  shows "agrees s st sid rp \<Longrightarrow>
     (case stage s clock st rs of
        Inl e \<Rightarrow> is_err (append_all env sid (length (table_rows sid rp) + 1) rs rp)
      | Inr st' \<Rightarrow> \<exists>cs rp'. append_all env sid (length (table_rows sid rp) + 1) rs rp = Inr (cs, rp') \<and> st_owned st' = st_owned st @ cs \<and>
          table_rows sid rp' = ms_records s @ st_owned st')"
proof (induction rs arbitrary: st rp)
  case Nil
  then show ?case by (auto simp: agrees_def)
next
  case (Cons r rs)
  let ?n = "length (table_rows sid rp) + 1" and ?now = "clock (length (st_owned st))"
  have "db_clock env ?n = ?now" using assms(1) [of "length (st_owned st)"] Cons.prems by (auto simp: agrees_def)
  note step = append_agrees [OF Cons.prems assms(2) this, of r]
  show ?case
  proof (cases "check_parent s st r")
    case (Some e)
    with step show ?thesis by simp
  next
    case None
    show ?thesis
    proof (cases "stage_index s st r")
      case (Inl e)
      with None step show ?thesis by simp
    next
      case (Inr st1)
      let ?r = "stamp s st ?now r"
      let ?st = "st1\<lparr>st_owned := st_owned st @ [?r]\<rparr>" and ?rp = "rp\<lparr>rp_records := rp_records rp @ [(sid, ?r)]\<rparr>"
      have a: "agrees s ?st sid ?rp" by (rule staged_agrees [OF Cons.prems None Inr])
      have app: "append_record env sid ?n r rp = Inr (?r, ?rp)" using None Inr step by simp
      have n: "length (table_rows sid ?rp) + 1 = ?n + 1" by simp
      have st: "stage s clock st (r # rs) = stage s clock ?st rs" using None Inr by simp
      note IH = Cons.IH [OF a, unfolded n]
      show ?thesis
      proof (cases "stage s clock ?st rs")
        case (Inl e)
        with IH app show ?thesis unfolding st by (auto split: sum.splits)
      next
        case (Inr st')
        with IH obtain cs rp' where "append_all env sid (?n + 1) rs ?rp = Inr (cs, rp')" "st_owned st' = st_owned ?st @ cs"
          "table_rows sid rp' = ms_records s @ st_owned st'" by auto
        with app Inr show ?thesis unfolding st by simp
      qed
    qed
  qed
qed

lemma clean_is_precheck: "clean_records (unredacted env) rs = (case first_err (precheck (db_url env)) rs of Some e \<Rightarrow> Inl e | None \<Rightarrow> Inr rs)"
  by (induction rs) (auto simp: unredacted_def simp del: first_err_None split: option.splits sum.splits)


subsection \<open>A claimed run\<close>

text \<open>
  C5. Crash recovery leaves nothing open and invents nothing. When a run is claimed, every model
  request and tool call the log holds an intent but no outcome for gets one outcome, cancelled,
  and the report counts them; recovery appends no intent, so nothing is replayed; all that was
  committed before stays in place, other sessions are untouched, and the claim is new and now
  held.
\<close>

theorem claimed_run_is_recovered:
  assumes "repo_inv rp" "redact_keeps env" "BeginRun env owner sid rp = (Inr report, rp')"
  shows "\<exists>cs. rows_of sid rp' = rows_of sid rp @ cs \<and> list_all outcome_cancelled cs \<and>
      of_kind RecordModelIntent cs = [] \<and> of_kind RecordToolIntent cs = [] \<and>
      length (of_kind RecordModelOutcome cs) = rr_models report \<and> length (of_kind RecordToolOutcome cs) = rr_tools report \<and>
      rr_models report = length (pending_models (rows_of sid rp)) \<and> rr_tools report = length (pending_tools (rows_of sid rp)) \<and>
      pending_models (rows_of sid rp') = [] \<and> pending_tools (rows_of sid rp') = [] \<and>
      sid \<notin> set (rp_active rp) \<and> sid \<in> set (rp_active rp') \<and> (\<forall>t. t \<noteq> sid \<longrightarrow> rows_of t rp' = rows_of t rp)"
proof -
  from assms(3) obtain rp1 where r: "recoverLocked env owner sid rp = (Inr report, rp1)" "rp' = rp1\<lparr>rp_active := sid # rp_active rp1\<rparr>"
    and idle: "sid \<notin> set (rp_active rp)"
    by (auto simp: BeginRun_def split: if_splits option.splits prod.splits sum.splits)
  obtain cs where g: "grows sid rp cs rp1" "settles_only (length (pending_models (rows_of sid rp))) (length (pending_tools (rows_of sid rp))) cs"
    "repo_inv rp1" "\<exists>w \<in> set (rp_sessions rp1). sw_id w = sid" "log_ok sid (table_rows sid rp)"
    "report = \<lparr>rr_models = length (pending_models (rows_of sid rp)), rr_tools = length (pending_tools (rows_of sid rp)), rr_unknown = length (pending_tools (rows_of sid rp))\<rparr>"
    by (rule recoverLocked_settles [OF r(1) assms(1,2)])
  have rows: "rows_of sid rp = table_rows sid rp" "rows_of sid rp' = table_rows sid rp @ cs"
    using rows_in_order [OF g(5)] session_log [OF g(3,4)] g(1) by (simp_all add: r(2) rows_of_def grows_def)
  have log: "log_ok sid (table_rows sid rp @ cs)" using session_log(1) [OF g(3,4)] g(1) by (simp add: grows_def)
  have others: "\<forall>t. t \<noteq> sid \<longrightarrow> rows_of t rp' = rows_of t rp" using g(1) by (simp add: r(2) rows_of_def grows_def)
  have "sid \<in> set (rp_active rp')" by (simp add: r(2))
  then show ?thesis
    using g(2,6) settled_log [OF g(5) log g(2) [unfolded rows(1)]] idle others
    by (intro exI [of _ cs]) (simp add: rows settles_only_def)
qed

subsection \<open>Witnesses\<close>

text \<open>A store in which a run crashed between the intent of a call and its outcome.\<close>

definition plain_env :: db_env where
  "plain_env = \<lparr>db_begin = None, db_write = (\<lambda>_. None), db_commit = None, db_clock = int, db_encode = (\<lambda>_. Some ''..''), db_raw = (\<lambda>_. Some 2),
     db_redact = Inr, db_quote = (\<lambda>s. CHR 0x22 # s @ [CHR 0x22]), db_url = (\<lambda>_. None)\<rparr>"

definition open_intent :: session_record where
  "open_intent = BuiltinRecord (tool_intent_record \<lparr>ti_run_id = ''r'', ti_call = \<lparr>tc_id = ''c'', tc_name = ''t'', tc_arguments = ''{}'', tc_provider_state = []\<rparr>,
     ti_declared_call = None, ti_no_side_effect = False,
     ti_effect = \<lparr>ef_kind = EffectRead, ef_description = [], ef_resources = []\<rparr>, ti_scheduling = \<lparr>ConcurrentSafe = False, Resources = [], ExecutionMode = SerialGlobal, ManagesOwnTimeout = False\<rparr>, ti_read_only = True\<rparr>)"

definition crashed_store :: repository where
  "crashed_store = journal_run [(plain_env, CreateOp ''o'' ''s'' []), (plain_env, AppendOp ''o'' ''s'' [open_intent])]"


definition fresh_store :: repository where
  "fresh_store = journal_run [(plain_env, CreateOp ''o'' ''s'' [])]"

lemma plain_keeps: "redact_keeps plain_env" "envelope_kept plain_env r" "unredacted plain_env = plain_env"
  by (simp_all add: redact_keeps_def envelope_kept_def unredacted_def plain_env_def)

lemma crashed_is_claimed: "fst (BeginRun plain_env ''o'' ''s'' crashed_store) = Inr \<lparr>rr_models = 0, rr_tools = 1, rr_unknown = 1\<rparr>"
  by code_simp

theorem claimed_run_is_recovered_witness:
  "\<exists>cs. rows_of ''s'' (snd (BeginRun plain_env ''o'' ''s'' crashed_store)) = rows_of ''s'' crashed_store @ cs \<and> length (of_kind RecordToolOutcome cs) = 1"
proof -
  have "BeginRun plain_env ''o'' ''s'' crashed_store = (Inr \<lparr>rr_models = 0, rr_tools = 1, rr_unknown = 1\<rparr>, snd (BeginRun plain_env ''o'' ''s'' crashed_store))"
    by (simp add: prod_eq_iff crashed_is_claimed)
  from claimed_run_is_recovered [OF _ plain_keeps(1) this] journal_run_inv show ?thesis by (fastforce simp: crashed_store_def)
qed

definition first_snapshot :: "session_record result \<times> repository" where
  "first_snapshot = AppendExtensionSnapshot plain_env ''o'' ''s'' ''x'' ''state'' 0 ''{}'' [] fresh_store"

lemma first_snapshot_commits: "map_sum id sr_sequence (fst first_snapshot) = Inr 1"
  by code_simp


lemma fresh_facts: "rp_authorize fresh_store ''o'' ''s'' = None" "rows_of ''s'' fresh_store = []" "\<not> rp_closed fresh_store"
  "validateRecordBatchBudget plain_env [open_intent] = None" "is_err (fst (AppendRecords (\<lambda>_. None) None None (\<lambda>i. int i + 1) (NewMemorySession ''s'') [open_intent])) = False"
  by code_simp+


end
