(* ===== verification/Planning.thy ===== *)
theory Planning
  imports Task_State Interaction Session_Contract
begin

section \<open>The planning service\<close>

text \<open>
  extension/planning/service.go and extension/planning/native/service.go: the task list of a
  session, validated as a whole and saved as one optimistic snapshot in the durable store. The
  artifact repository (\<open>ArtifactMetadata\<close>, \<open>PutArtifact\<close>, reading a record's artifact back), JSON encoding
  of the state and its lenient and strict decoding, the redaction of a note and the order in which
  Go walks a map are the environment. Deep copies have no counterpart.
\<close>

record task_record =
  tr_task :: task
  tr_description :: string
  tr_owner :: string
  tr_blocked_by :: "string list"
  tr_metadata :: string
  tr_outputs :: "ref_data list"

record plan_state =
  ps_tasks :: "task_record list"
  ps_notes :: "ref_data option"

record plan_env =
  pe_known :: "string \<Rightarrow> go_error option"
  pe_order :: "string list \<Rightarrow> string list"
  pe_encode :: "plan_state \<Rightarrow> string option"
  pe_decode :: "string \<Rightarrow> plan_state option"
  pe_read :: "session_record \<Rightarrow> go_error option"
  pe_restore :: "string \<Rightarrow> plan_state result"
  pe_clean :: "string \<Rightarrow> string result"
  pe_put :: "string \<Rightarrow> string \<Rightarrow> string \<Rightarrow> ref_data result"

abbreviation task_id :: "task_record \<Rightarrow> string" where "task_id r \<equiv> tk_id (tr_task r)"
abbreviation task_status_of :: "task_record \<Rightarrow> task_status" where "task_status_of r \<equiv> tk_status (tr_task r)"

definition bounded_text :: "string \<Rightarrow> int \<Rightarrow> bool" where
  "bounded_text t n = (utf8_valid t \<and> int (length t) \<le> n)"

subsection \<open>Validation\<close>

definition task_fields_ok :: "string list \<Rightarrow> task_record \<Rightarrow> bool" where
  "task_fields_ok seen r =
     (\<not> (tk_kind (tr_task r) \<noteq> TaskLocalWorkflow \<or> task_id r = [] \<or> int (length (task_id r)) > 64 \<or> task_id r \<in> set seen \<or>
        tk_title (tr_task r) = [] \<or> \<not> bounded_text (tk_title (tr_task r)) 512 \<or> \<not> bounded_text (tr_description r) 4096 \<or>
        \<not> bounded_text (tr_owner r) 128 \<or> int (length (tr_blocked_by r)) > 20 \<or> int (length (tr_outputs r)) > 32 \<or>
        int (length (tr_metadata r)) > 4096 \<or> tk_output_file (tr_task r) \<noteq> [] \<or> tk_output_offset (tr_task r) <s 0 \<or> tk_created_at (tr_task r) = 0))"

fun check_tasks :: "plan_env \<Rightarrow> string list \<Rightarrow> task_record list \<Rightarrow> go_error option" where
  "check_tasks env seen [] = None"
| "check_tasks env seen (r # rs) =
     (if \<not> task_fields_ok seen r then Some (ErrNew ''invalid bounded planning task'')
      else if task_status_of r \<noteq> TaskPending \<and> task_status_of r \<noteq> TaskRunning \<and> \<not> Terminal (task_status_of r)
      then Some (ErrNew ''invalid planning task status'')
      else if tr_metadata r \<noteq> [] \<and> \<not> json_map_object (tr_metadata r) then Some (ErrNew ''planning metadata must be JSON object'')
      else (case first_err (pe_known env \<circ> ref_uri) (tr_outputs r) of Some e \<Rightarrow> Some e | None \<Rightarrow> check_tasks env (task_id r # seen) rs))"

definition unsatisfied :: "task_record list \<Rightarrow> string \<Rightarrow> bool" where
  "unsatisfied tasks d = list_ex (\<lambda>c. task_id c = d \<and> task_status_of c \<noteq> TaskSucceeded) tasks"

fun check_deps :: "task_record list \<Rightarrow> task_record \<Rightarrow> string list \<Rightarrow> string list \<Rightarrow> go_error option" where
  "check_deps tasks r seen [] = None"
| "check_deps tasks r seen (d # ds) =
     (if d = task_id r \<or> d \<notin> set (map task_id tasks) \<or> d \<in> set seen then Some (ErrNew ''invalid planning dependency'')
      else if (task_status_of r = TaskRunning \<or> task_status_of r = TaskSucceeded) \<and> unsatisfied tasks d
      then Some (ErrNew ''active/completed task has an unsatisfied dependency'')
      else check_deps tasks r (d # seen) ds)"

text \<open>\<open>byID\<close> and the depth-first search: \<open>path\<close> are the tasks being visited, \<open>seen\<close> the finished ones; None is the cycle error.\<close>

definition deps_of :: "task_record list \<Rightarrow> string \<Rightarrow> string list" where
  "deps_of tasks x = (case map_of (rev (map (\<lambda>r. (task_id r, r)) tasks)) x of None \<Rightarrow> [] | Some r \<Rightarrow> tr_blocked_by r)"

definition visit_measure :: "(task_record list \<times> string list \<times> string list \<times> string) + (task_record list \<times> string list \<times> string list \<times> string list) \<Rightarrow> nat \<times> nat" where
  "visit_measure c =
     (case c of Inl (tasks, path, seen, x) \<Rightarrow> (card (set (map task_id tasks) - set path), 1)
      | Inr (tasks, path, seen, ds) \<Rightarrow> (card (set (map task_id tasks) - set path), 2 * length ds))"

lemma deps_of_unknown: "x \<notin> set (map task_id tasks) \<Longrightarrow> deps_of tasks x = []"
  by (auto simp: deps_of_def split: option.splits dest!: map_of_SomeD)

function visit :: "task_record list \<Rightarrow> string list \<Rightarrow> string list \<Rightarrow> string \<Rightarrow> string list option"
and visit_all :: "task_record list \<Rightarrow> string list \<Rightarrow> string list \<Rightarrow> string list \<Rightarrow> string list option" where
  "visit tasks path seen x =
     (if x \<in> set path then None
      else if x \<in> set seen then Some seen
      else (case visit_all tasks (x # path) seen (deps_of tasks x) of None \<Rightarrow> None | Some seen' \<Rightarrow> Some (x # seen')))"
| "visit_all tasks path seen [] = Some seen"
| "visit_all tasks path seen (d # ds) =
     (case visit tasks path seen d of None \<Rightarrow> None | Some seen' \<Rightarrow> visit_all tasks path seen' ds)"
  by pat_completeness auto

termination
proof (relation "inv_image (less_than <*lex*> less_than) visit_measure", goal_cases)
  case 1
  show ?case by (intro wf_inv_image wf_lex_prod wf_less_than)
next
  case (2 tasks path seen x)
  show ?case
  proof (cases "x \<in> set (map task_id tasks)")
    case True
    have "set (map task_id tasks) - set (x # path) \<subset> set (map task_id tasks) - set path" using True 2 by auto
    then show ?thesis by (simp add: visit_measure_def psubset_card_mono)
  next
    case False
    then have "set (map task_id tasks) - set (x # path) = set (map task_id tasks) - set path" by auto
    with False show ?thesis by (simp add: visit_measure_def deps_of_unknown)
  qed
qed (simp_all add: visit_measure_def)

definition cycle_check :: "plan_env \<Rightarrow> task_record list \<Rightarrow> go_error option" where
  "cycle_check env tasks =
     (case visit_all tasks [] [] (pe_order env (map task_id tasks)) of None \<Rightarrow> Some (ErrNew ''planning dependency cycle'') | Some _ \<Rightarrow> None)"

definition plan_validate :: "plan_env \<Rightarrow> plan_state \<Rightarrow> go_error option" where
  "plan_validate env st =
     (if int (length (ps_tasks st)) > 128 then Some (ErrNew ''planning task budget exceeds 128'')
      else (case check_tasks env [] (ps_tasks st) of Some e \<Rightarrow> Some e
        | None \<Rightarrow>
          (case first_err (\<lambda>r. check_deps (ps_tasks st) r [] (tr_blocked_by r)) (ps_tasks st) of Some e \<Rightarrow> Some e
           | None \<Rightarrow>
             (case cycle_check env (ps_tasks st) of Some e \<Rightarrow> Some e
              | None \<Rightarrow> (case ps_notes st of None \<Rightarrow> None | Some n \<Rightarrow> pe_known env (ref_uri n))))))"

subsection \<open>The service\<close>

text \<open>
  A known committed change is told apart from a failure (\<open>planning.CommittedError\<close>): it carries the
  operation and the task. The service holds the revision and the state it last committed.
\<close>

datatype plan_error = PlanError go_error | PlanCommitted (pc_operation: string) (pc_task: string) (pc_cause: go_error)

record plan_service =
  ns_owner :: string
  ns_id :: string
  ns_revision :: nat
  ns_state :: plan_state

definition plan_namespace :: string where "plan_namespace = ''alva.planning''"
definition plan_stream :: string where "plan_stream = ''state_snapshot''"

definition save_plan :: "plan_env \<Rightarrow> db_env \<Rightarrow> go_error option \<Rightarrow> plan_state \<Rightarrow> plan_service \<times> repository \<Rightarrow> plan_error option \<times> plan_service \<times> repository" where
  "save_plan env denv canceled nxt w =
     (case w of (s, rp) \<Rightarrow>
        (case plan_validate env nxt of Some e \<Rightarrow> (Some (PlanError e), s, rp)
         | None \<Rightarrow>
           (case pe_encode env nxt of None \<Rightarrow> (Some (PlanError (ErrNew ''json'')), s, rp)
            | Some raw \<Rightarrow>
              if int (length raw) > 131072 then (Some (PlanError (ErrNew ''planning snapshot exceeds 128 KiB'')), s, rp)
              else (case AppendExtensionSnapshot denv (ns_owner s) (ns_id s) plan_namespace plan_stream (ns_revision s) raw [] rp of
                  (Inl e, rp') \<Rightarrow> (Some (PlanError (SessionError ''commit planning snapshot'' (ns_id s) e)), s, rp')
                | (Inr r, rp') \<Rightarrow>
                  (case pe_decode env (sr_payload r) of None \<Rightarrow> (Some (PlanCommitted ''planning_snapshot'' [] (ErrNew ''json'')), s, rp')
                   | Some committed \<Rightarrow>
                     (let s' = s\<lparr>ns_state := committed, ns_revision := sr_sequence r\<rparr> in
                      (case session_Flush canceled rp' of
                         Some e \<Rightarrow> (Some (PlanCommitted ''planning_snapshot'' [] (SessionError ''flush planning snapshot'' (ns_id s) e)), s', rp')
                       | None \<Rightarrow> (None, s', rp'))))))))"

text \<open>A save inside an operation names the operation and the task of a committed failure.\<close>

definition correlate :: "string \<Rightarrow> string \<Rightarrow> plan_error \<Rightarrow> plan_error" where
  "correlate opn tid e = (case e of PlanError g \<Rightarrow> PlanError g | PlanCommitted a b g \<Rightarrow> PlanCommitted opn tid g)"

definition new_plan_service :: "plan_env \<Rightarrow> db_env \<Rightarrow> string \<Rightarrow> string \<Rightarrow> repository \<Rightarrow> plan_service result" where
  "new_plan_service env denv owner sid rp =
     (case LatestRecord denv owner sid plan_namespace plan_stream rp of Inl e \<Rightarrow> Inl e
      | Inr None \<Rightarrow> Inr \<lparr>ns_owner = owner, ns_id = sid, ns_revision = 0, ns_state = \<lparr>ps_tasks = [], ps_notes = None\<rparr>\<rparr>
      | Inr (Some r) \<Rightarrow>
        (case pe_read env r of Some e \<Rightarrow> Inl e
         | None \<Rightarrow>
          if sr_kind r \<noteq> RecordExtension \<or> sr_schema_version r \<noteq> 1 then Inl (ErrNew ''planning snapshot identity/type mismatch'')
          else (case pe_restore env (sr_payload r) of Inl e \<Rightarrow> Inl e
            | Inr st \<Rightarrow> (case plan_validate env st of Some e \<Rightarrow> Inl e
              | None \<Rightarrow> Inr \<lparr>ns_owner = owner, ns_id = sid, ns_revision = sr_sequence r, ns_state = st\<rparr>))))"

record create_request =
  cr_title :: string
  cr_description :: string
  cr_owner :: string
  cr_metadata :: string
  cr_blocked_by :: "string list"

definition plan_Create :: "plan_env \<Rightarrow> db_env \<Rightarrow> go_error option \<Rightarrow> 64 word option \<Rightarrow> int \<Rightarrow> create_request \<Rightarrow> plan_service \<times> repository \<Rightarrow>
    (plan_error + task_record) \<times> plan_service \<times> repository" where
  "plan_Create env denv canceled random now a w =
     (case NewTask random now TaskLocalWorkflow (cr_title a) [] [] of Inl e \<Rightarrow> (Inl (PlanError e), w)
      | Inr t \<Rightarrow>
        (let r = \<lparr>tr_task = t, tr_description = cr_description a, tr_owner = cr_owner a, tr_blocked_by = cr_blocked_by a, tr_metadata = cr_metadata a, tr_outputs = []\<rparr>;
             st = ns_state (fst w) in
         (case save_plan env denv canceled (st\<lparr>ps_tasks := ps_tasks st @ [r]\<rparr>) w of
            (Some e, w') \<Rightarrow> (Inl (correlate ''task_create'' (tk_id t) e), w')
          | (None, w') \<Rightarrow> (Inr (last (ps_tasks (ns_state (fst w')))), w'))))"

definition plan_Get :: "go_error option \<Rightarrow> string \<Rightarrow> plan_service \<Rightarrow> task_record option result" where
  "plan_Get canceled i s = (case canceled of Some e \<Rightarrow> Inl e | None \<Rightarrow> Inr (List.find (\<lambda>r. task_id r = i) (ps_tasks (ns_state s))))"

record task_page =
  tp_tasks :: "task_record list"
  tp_next :: nat
  tp_more :: bool
  tp_revision :: nat

text \<open>The loop of \<open>List\<close> over the tasks from the cursor on.\<close>

fun page_tasks :: "task_status option \<Rightarrow> nat \<Rightarrow> nat \<Rightarrow> task_record list \<Rightarrow> task_page \<Rightarrow> task_page" where
  "page_tasks status limit idx [] page = page"
| "page_tasks status limit idx (r # rs) page =
     (if status \<noteq> None \<and> Some (task_status_of r) \<noteq> status then page_tasks status limit (idx + 1) rs (page\<lparr>tp_next := idx + 1\<rparr>)
      else if length (tp_tasks page) = limit then page\<lparr>tp_more := True\<rparr>
      else page_tasks status limit (idx + 1) rs (page\<lparr>tp_tasks := tp_tasks page @ [r], tp_next := idx + 1\<rparr>))"

definition status_filter :: "task_status option \<Rightarrow> bool" where
  "status_filter status = (case status of None \<Rightarrow> True | Some s \<Rightarrow> s = TaskPending \<or> s = TaskRunning \<or> Terminal s)"

definition plan_List :: "go_error option \<Rightarrow> task_status option \<Rightarrow> int \<Rightarrow> int \<Rightarrow> plan_service \<Rightarrow> task_page result" where
  "plan_List canceled status after limit s =
     (case canceled of Some e \<Rightarrow> Inl e
      | None \<Rightarrow>
        if \<not> status_filter status then Inl (ErrNew ''invalid planning status filter'')
        else if after < 0 \<or> after > int (length (ps_tasks (ns_state s))) \<or> limit < 1 \<or> limit > 20 then Inl (ErrNew ''bounded task cursor/limit required'')
        else Inr (page_tasks status (nat limit) (nat after) (drop (nat after) (ps_tasks (ns_state s)))
          \<lparr>tp_tasks = [], tp_next = nat after, tp_more = False, tp_revision = ns_revision s\<rparr>))"

record update_request =
  ur_id :: string
  ur_title :: "string option"
  ur_description :: "string option"
  ur_owner :: "string option"
  ur_status :: "task_status option"
  ur_metadata :: "string option"
  ur_blocked_by :: "string list option"
  ur_append :: "string option"

definition retain_text :: "plan_env \<Rightarrow> string \<Rightarrow> string \<Rightarrow> string \<Rightarrow> string \<Rightarrow> ref_data result" where
  "retain_text env sid kind name t =
     (case pe_clean env t of Inl e \<Rightarrow> Inl e
      | Inr clean \<Rightarrow> (case pe_put env kind name clean of Inl e \<Rightarrow> Inl (SessionError ''retain planning note'' sid e) | Inr r \<Rightarrow> Inr r))"

definition edit_fields :: "update_request \<Rightarrow> task_record \<Rightarrow> task_record" where
  "edit_fields a r =
     (let t = tr_task r in
      r\<lparr>tr_task := t\<lparr>tk_title := case_option (tk_title t) id (ur_title a)\<rparr>, tr_description := case_option (tr_description r) id (ur_description a),
        tr_owner := case_option (tr_owner r) id (ur_owner a), tr_metadata := case_option (tr_metadata r) id (ur_metadata a),
        tr_blocked_by := case_option (tr_blocked_by r) id (ur_blocked_by a)\<rparr>)"

definition edit_status :: "int \<Rightarrow> task_status option \<Rightarrow> task_record list \<Rightarrow> task_record \<Rightarrow> task_record result" where
  "edit_status now status tasks r =
     (case status of None \<Rightarrow> Inr r
      | Some nxt \<Rightarrow>
          if nxt = TaskRunning \<and> list_ex (unsatisfied tasks) (tr_blocked_by r) then Inl (ErrNew ''task dependency is not succeeded'')
          else (case task_Transition now nxt (tr_task r) of Inl e \<Rightarrow> Inl e | Inr t \<Rightarrow> Inr (r\<lparr>tr_task := t\<rparr>)))"

definition edit_output :: "plan_env \<Rightarrow> string \<Rightarrow> update_request \<Rightarrow> task_record \<Rightarrow> task_record result" where
  "edit_output env sid a r =
     (case ur_append a of None \<Rightarrow> Inr r
      | Some t \<Rightarrow>
          if \<not> bounded_text t 65536 then Inl (ErrNew ''planning output note exceeds 64 KiB UTF-8'')
          else (case retain_text env sid ''planning-output-note'' (ur_id a) t of Inl e \<Rightarrow> Inl e
            | Inr note \<Rightarrow>
              (case task_AdvanceOutput (tk_output_offset (tr_task r) + of_nat (length t)) (tr_task r) of Inl e \<Rightarrow> Inl e
               | Inr t' \<Rightarrow> Inr (r\<lparr>tr_outputs := tr_outputs r @ [note], tr_task := t'\<rparr>))))"

fun position_of :: "string \<Rightarrow> task_record list \<Rightarrow> nat option" where
  "position_of i [] = None"
| "position_of i (r # rs) = (if task_id r = i then Some 0 else map_option Suc (position_of i rs))"

definition plan_Update :: "plan_env \<Rightarrow> db_env \<Rightarrow> go_error option \<Rightarrow> int \<Rightarrow> update_request \<Rightarrow> plan_service \<times> repository \<Rightarrow>
    (plan_error + task_record) \<times> plan_service \<times> repository" where
  "plan_Update env denv canceled now a w =
     (let st = ns_state (fst w); tasks = ps_tasks st in
      (case position_of (ur_id a) tasks of None \<Rightarrow> (Inl (PlanError (ErrNew ''planning task not found'')), w)
       | Some i \<Rightarrow>
         (let r0 = edit_fields a (tasks ! i) in
          (case edit_status now (ur_status a) (tasks[i := r0]) r0 of Inl e \<Rightarrow> (Inl (PlanError e), w)
           | Inr r1 \<Rightarrow>
             (case edit_output env (ns_id (fst w)) a r1 of Inl e \<Rightarrow> (Inl (PlanError e), w)
              | Inr r2 \<Rightarrow>
                (case save_plan env denv canceled (st\<lparr>ps_tasks := tasks[i := r2]\<rparr>) w of
                   (Some e, w') \<Rightarrow> (Inl (correlate ''task_update'' (ur_id a) e), w')
                 | (None, w') \<Rightarrow> (Inr (ps_tasks (ns_state (fst w')) ! i), w')))))))"

definition plan_SetNotes :: "plan_env \<Rightarrow> db_env \<Rightarrow> go_error option \<Rightarrow> string \<Rightarrow> plan_service \<times> repository \<Rightarrow> (plan_error + ref_data) \<times> plan_service \<times> repository" where
  "plan_SetNotes env denv canceled t w =
     (if \<not> bounded_text t 65536 then (Inl (PlanError (ErrNew ''plan notes exceed 64 KiB UTF-8'')), w)
      else (case retain_text env (ns_id (fst w)) ''planning-notes'' ''plan'' t of Inl e \<Rightarrow> (Inl (PlanError e), w)
        | Inr note \<Rightarrow>
          (case save_plan env denv canceled ((ns_state (fst w))\<lparr>ps_notes := Some note\<rparr>) w of
             (Some e, w') \<Rightarrow> (Inl e, w') | (None, w') \<Rightarrow> (Inr note, w'))))"

definition plan_Notes :: "go_error option \<Rightarrow> plan_service \<Rightarrow> ref_data option result" where
  "plan_Notes canceled s = (case canceled of Some e \<Rightarrow> Inl e | None \<Rightarrow> Inr (ps_notes (ns_state s)))"

subsection \<open>The search finds every cycle and nothing else\<close>

declare visit.simps [simp del]

definition depends :: "task_record list \<Rightarrow> (string \<times> string) set" where
  "depends tasks = {(x, y). y \<in> set (deps_of tasks x)}"

text \<open>The finished tasks, newest first: each one's dependencies were finished before it.\<close>

fun finished_order :: "task_record list \<Rightarrow> string list \<Rightarrow> bool" where
  "finished_order tasks [] = True"
| "finished_order tasks (x # xs) = (x \<notin> set xs \<and> set (deps_of tasks x) \<subseteq> set xs \<and> finished_order tasks xs)"

lemma visit_keeps_order:
  "visit tasks path seen x = Some seen' \<Longrightarrow> finished_order tasks seen \<Longrightarrow> set seen \<inter> set path = {} \<Longrightarrow>
     finished_order tasks seen' \<and> set seen \<subseteq> set seen' \<and> x \<in> set seen' \<and> set seen' \<inter> set path = {}"
  "visit_all tasks path seen ds = Some seen' \<Longrightarrow> finished_order tasks seen \<Longrightarrow> set seen \<inter> set path = {} \<Longrightarrow>
     finished_order tasks seen' \<and> set seen \<subseteq> set seen' \<and> set ds \<subseteq> set seen' \<and> set seen' \<inter> set path = {}"
proof (induction tasks path seen x and tasks path seen ds arbitrary: seen' and seen' rule: visit_visit_all.induct)
  case (1 tasks path seen x)
  from 1(2) consider (old) "x \<notin> set path" "x \<in> set seen" "seen' = seen"
    | (fresh) s where "x \<notin> set path" "x \<notin> set seen" "visit_all tasks (x # path) seen (deps_of tasks x) = Some s" "seen' = x # s"
    by (auto simp: visit.simps [of tasks path seen x] split: if_splits option.splits)
  then show ?case
  proof cases
    case fresh
    with 1(1) [OF fresh(1,2,3) 1(3)] 1(4) show ?thesis by auto
  qed (use 1 in auto)
next
  case (3 tasks path seen d ds)
  from 3(3) obtain s where v: "visit tasks path seen d = Some s" and r: "visit_all tasks path s ds = Some seen'"
    by (auto split: option.splits)
  with 3(1) [OF v 3(4,5)] 3(2) [OF v r] show ?case by auto
qed auto

lemma order_decreases:
  "finished_order tasks xs \<Longrightarrow> x \<in> set xs \<Longrightarrow> y \<in> set (deps_of tasks x) \<Longrightarrow>
     length (dropWhile (\<lambda>z. z \<noteq> y) xs) < length (dropWhile (\<lambda>z. z \<noteq> x) xs)"
proof (induction xs)
  case (Cons h xs)
  show ?case
  proof (cases "x = h")
    case True
    with Cons.prems have "y \<noteq> h" by auto
    with True show ?thesis by (simp add: length_dropWhile_le less_Suc_eq_le)
  next
    case False
    with Cons.prems have x: "x \<in> set xs" by simp
    have "\<forall>z \<in> set xs. set (deps_of tasks z) \<subseteq> set xs" if "finished_order tasks xs" for xs
      using that by (induction xs) auto
    with Cons.prems x have "y \<noteq> h" by auto
    with False Cons x show ?thesis by simp
  qed
qed simp

lemma ordered_is_acyclic:
  assumes "finished_order tasks xs" "set (map task_id tasks) \<subseteq> set xs"
  shows "acyclic (depends tasks)"
proof (rule acyclicI, rule allI, rule notI)
  let ?f = "\<lambda>x. length (dropWhile (\<lambda>z. z \<noteq> x) xs)"
  have edge: "?f y < ?f x" if "(x, y) \<in> depends tasks" for x y
  proof -
    have "x \<in> set (map task_id tasks)" using that deps_of_unknown by (fastforce simp: depends_def)
    with assms that show ?thesis using order_decreases by (auto simp: depends_def)
  qed
  have "?f y < ?f x" if "(x, y) \<in> (depends tasks)\<^sup>+" for x y
    using that by (induction rule: trancl_induct) (auto dest: edge)
  moreover fix x assume "(x, x) \<in> (depends tasks)\<^sup>+"
  ultimately show False by blast
qed

lemma visit_error_is_cycle:
  "visit tasks path seen x = None \<Longrightarrow> \<forall>p \<in> set path. (p, x) \<in> (depends tasks)\<^sup>+ \<Longrightarrow> \<not> acyclic (depends tasks)"
  "visit_all tasks path seen ds = None \<Longrightarrow> \<forall>d \<in> set ds. \<forall>p \<in> set path. (p, d) \<in> (depends tasks)\<^sup>+ \<Longrightarrow> \<not> acyclic (depends tasks)"
proof (induction tasks path seen x and tasks path seen ds rule: visit_visit_all.induct)
  case (1 tasks path seen x)
  show ?case
  proof (cases "x \<in> set path")
    case True
    with 1(3) show ?thesis by (auto simp: acyclic_def)
  next
    case False
    with 1(2) have v: "x \<notin> set seen" "visit_all tasks (x # path) seen (deps_of tasks x) = None"
      by (auto simp: visit.simps [of tasks path seen x] split: if_splits option.splits)
    have "(p, d) \<in> (depends tasks)\<^sup>+" if "d \<in> set (deps_of tasks x)" "p \<in> set (x # path)" for d p
    proof -
      have "(x, d) \<in> depends tasks" using that(1) by (simp add: depends_def)
      with that(2) 1(3) show ?thesis by (auto intro: trancl_into_trancl)
    qed
    then show ?thesis using 1(1) [OF False v] by blast
  qed
next
  case (3 tasks path seen d ds)
  then show ?case by (auto split: option.splits)
qed simp

text \<open>
  The cycle check of a plan is exact: whatever order the map of tasks is walked in, it refuses the
  plan if and only if some task depends on itself through a chain of dependencies.
\<close>

theorem cycle_check_is_exact:
  assumes "set (pe_order env (map task_id tasks)) = set (map task_id tasks)"
  shows "cycle_check env tasks = None \<longleftrightarrow> acyclic (depends tasks)"
proof
  assume "cycle_check env tasks = None"
  then obtain seen where v: "visit_all tasks [] [] (pe_order env (map task_id tasks)) = Some seen"
    by (auto simp: cycle_check_def split: option.splits)
  from visit_keeps_order(2) [OF this] have "finished_order tasks seen" "set (pe_order env (map task_id tasks)) \<subseteq> set seen" by auto
  then show "acyclic (depends tasks)" using assms by (intro ordered_is_acyclic) auto
next
  assume "acyclic (depends tasks)"
  then show "cycle_check env tasks = None" using visit_error_is_cycle(2) by (fastforce simp: cycle_check_def split: option.splits)
qed

end
