(* ===== verification/Plan_Facts.thy ===== *)
theory Plan_Facts
  imports Planning
begin

section \<open>What the planning service promises\<close>

text \<open>
  Validation is a declarative statement about the plan; a saved state is always valid, an update
  moves tasks only along their life cycle, and services that share a session cannot overwrite
  each other's changes.
\<close>

subsection \<open>Validation as a statement\<close>

definition task_valid :: "plan_env \<Rightarrow> task_record \<Rightarrow> bool" where
  "task_valid env r \<longleftrightarrow> task_fields_ok [] r \<and> (task_status_of r = TaskPending \<or> task_status_of r = TaskRunning \<or> Terminal (task_status_of r)) \<and>
     (tr_metadata r = [] \<or> json_map_object (tr_metadata r)) \<and> (\<forall>f \<in> set (tr_outputs r). pe_known env (ref_uri f) = None)"

definition deps_valid :: "task_record list \<Rightarrow> task_record \<Rightarrow> bool" where
  "deps_valid tasks r \<longleftrightarrow> distinct (tr_blocked_by r) \<and> task_id r \<notin> set (tr_blocked_by r) \<and> set (tr_blocked_by r) \<subseteq> set (map task_id tasks) \<and>
     (task_status_of r = TaskRunning \<or> task_status_of r = TaskSucceeded \<longrightarrow>
        (\<forall>c \<in> set tasks. task_id c \<in> set (tr_blocked_by r) \<longrightarrow> task_status_of c = TaskSucceeded))"

definition plan_valid :: "plan_env \<Rightarrow> plan_state \<Rightarrow> bool" where
  "plan_valid env st \<longleftrightarrow> int (length (ps_tasks st)) \<le> 128 \<and> distinct (map task_id (ps_tasks st)) \<and>
     (\<forall>r \<in> set (ps_tasks st). task_valid env r \<and> deps_valid (ps_tasks st) r) \<and> acyclic (depends (ps_tasks st)) \<and>
     (case ps_notes st of None \<Rightarrow> True | Some n \<Rightarrow> pe_known env (ref_uri n) = None)"

lemma fields_seen: "task_fields_ok seen r \<longleftrightarrow> task_fields_ok [] r \<and> task_id r \<notin> set seen"
  by (auto simp: task_fields_ok_def)

lemma or_else_None: "(case x of None \<Rightarrow> y | Some e \<Rightarrow> Some e) = None \<longleftrightarrow> x = None \<and> y = None"
  by (cases x) auto

lemma check_tasks_valid:
  "check_tasks env seen rs = None \<longleftrightarrow> distinct (map task_id rs) \<and> set (map task_id rs) \<inter> set seen = {} \<and> (\<forall>r \<in> set rs. task_valid env r)"
proof (induction rs arbitrary: seen)
  case (Cons r rs)
  have "check_tasks env seen (r # rs) = None \<longleftrightarrow> task_valid env r \<and> task_id r \<notin> set seen \<and> check_tasks env (task_id r # seen) rs = None"
    by (auto simp: fields_seen [of seen] task_valid_def or_else_None)
  then show ?case unfolding Cons.IH by auto
qed simp

lemma check_deps_valid:
  "check_deps tasks r seen ds = None \<longleftrightarrow> distinct ds \<and> set ds \<inter> set seen = {} \<and> task_id r \<notin> set ds \<and> set ds \<subseteq> set (map task_id tasks) \<and>
     (task_status_of r = TaskRunning \<or> task_status_of r = TaskSucceeded \<longrightarrow> (\<forall>d \<in> set ds. \<not> unsatisfied tasks d))"
  by (induction ds arbitrary: seen) auto

lemma deps_check_is_valid: "check_deps tasks r [] (tr_blocked_by r) = None \<longleftrightarrow> deps_valid tasks r"
  by (auto simp: check_deps_valid deps_valid_def unsatisfied_def list_ex_iff)

definition walks_all :: "plan_env \<Rightarrow> bool" where
  "walks_all env \<longleftrightarrow> (\<forall>xs. set (pe_order env xs) = set xs)"

lemma validate_valid:
  assumes "walks_all env"
  shows "plan_validate env st = None \<longleftrightarrow> plan_valid env st"
proof -
  have cycle: "cycle_check env (ps_tasks st) = None \<longleftrightarrow> acyclic (depends (ps_tasks st))"
    using assms by (intro cycle_check_is_exact) (simp add: walks_all_def)
  have split: "plan_validate env st = None \<longleftrightarrow> int (length (ps_tasks st)) \<le> 128 \<and> check_tasks env [] (ps_tasks st) = None \<and>
      (\<forall>r \<in> set (ps_tasks st). check_deps (ps_tasks st) r [] (tr_blocked_by r) = None) \<and> cycle_check env (ps_tasks st) = None \<and>
      (case ps_notes st of None \<Rightarrow> True | Some n \<Rightarrow> pe_known env (ref_uri n) = None)"
    by (auto simp: plan_validate_def or_else_None not_le split: option.splits)
  show ?thesis unfolding split cycle check_tasks_valid deps_check_is_valid plan_valid_def by auto
qed

text \<open>
  C19. Validation accepts a plan exactly when it is well formed: at most 128 tasks with distinct,
  bounded identities and fields; every dependency a different existing task, named once; no
  dependency chain back to itself; and whatever is running or has succeeded waits for nothing -
  all it depends on has succeeded. In any order the tasks are walked.
\<close>

theorem plan_validation_is_exact:
  assumes "walks_all env"
  shows "plan_validate env st = None \<longleftrightarrow> plan_valid env st"
  by (rule validate_valid) (rule assms)

subsection \<open>Saving\<close>

lemma save_plan_cases:
  assumes "save_plan env denv canceled nxt (s, rp) = (e, s', rp')"
  obtains (refused) g where "e = Some (PlanError g)" "s' = s" "rp' = rp"
  | (committed) raw r where "plan_validate env nxt = None" "pe_encode env nxt = Some raw"
      "AppendExtensionSnapshot denv (ns_owner s) (ns_id s) plan_namespace plan_stream (ns_revision s) raw [] rp = (Inr r, rp')"
      "s' = (case pe_decode env (sr_payload r) of None \<Rightarrow> s | Some st \<Rightarrow> s\<lparr>ns_state := st, ns_revision := sr_sequence r\<rparr>)"
      "pe_decode env (sr_payload r) = None \<Longrightarrow> e \<noteq> None"
proof (cases "plan_validate env nxt")
  case None
  show ?thesis
  proof (cases "pe_encode env nxt")
    case (Some raw)
    obtain x rp1 where a: "AppendExtensionSnapshot denv (ns_owner s) (ns_id s) plan_namespace plan_stream (ns_revision s) raw [] rp = (x, rp1)" by fastforce
    show ?thesis
    proof (cases x)
      case (Inl g)
      then have "rp1 = rp" using a unfolding AppendExtensionSnapshot_def by (auto elim: transaction_cases)
      with None Some Inl a assms show ?thesis using refused by (auto simp: save_plan_def split: if_splits)
    next
      case (Inr r)
      show ?thesis
      proof (cases "int (length raw) > 131072")
        case True
        with None Some assms show ?thesis using refused by (auto simp: save_plan_def)
      next
        case False
        with None Some Inr a assms have new: "rp' = rp1" "s' = (case pe_decode env (sr_payload r) of None \<Rightarrow> s | Some st \<Rightarrow> s\<lparr>ns_state := st, ns_revision := sr_sequence r\<rparr>)"
          "pe_decode env (sr_payload r) = None \<Longrightarrow> e \<noteq> None"
          by (auto simp: save_plan_def Let_def split: option.splits)
        show ?thesis by (rule committed [of raw r]) (use None Some Inr a new in simp_all)
      qed
    qed
  qed (use None assms refused in \<open>auto simp: save_plan_def\<close>)
qed (use assms refused in \<open>auto simp: save_plan_def\<close>)

text \<open>What saving relies on: JSON decodes what it encoded.\<close>

definition plan_roundtrip :: "plan_env \<Rightarrow> bool" where
  "plan_roundtrip env \<longleftrightarrow> (\<forall>st raw. pe_encode env st = Some raw \<longrightarrow> pe_decode env raw = Some st)"

lemma snapshot_payload:
  assumes "AppendExtensionSnapshot (unredacted denv) owner sid ns kind q payload [] rp = (Inr r, rp')"
  shows "sr_payload r = payload"
proof -
  from assms obtain ds where a: "appendTx (unredacted denv) sid [snapshot_record ns kind payload] rp = Inr (ds, rp')" and r: "r = hd ds"
    unfolding AppendExtensionSnapshot_def by (auto elim!: transaction_cases simp: snapshot_body_def split: if_splits sum.splits)
  from appendTx_unredacted(2) [OF a] obtain y where "ds = [y]" "same_record_facts (snapshot_record ns kind payload) y"
    by (auto simp: list_all2_Cons1)
  then show ?thesis by (simp add: r same_record_facts_def snapshot_record_def)
qed

lemma saved_state:
  assumes "save_plan env (unredacted denv) canceled nxt (s, rp) = (e, s', rp')" "plan_roundtrip env"
  shows "(s', rp') = (s, rp) \<and> (\<exists>g. e = Some (PlanError g)) \<or> plan_validate env nxt = None \<and> ns_state s' = nxt \<and> ns_owner s' = ns_owner s \<and> ns_id s' = ns_id s \<and>
     (\<exists>raw r. pe_encode env nxt = Some raw \<and> sr_payload r = raw \<and> ns_revision s' = sr_sequence r \<and>
       AppendExtensionSnapshot (unredacted denv) (ns_owner s) (ns_id s) plan_namespace plan_stream (ns_revision s) raw [] rp = (Inr r, rp'))"
  using assms(1)
proof (cases rule: save_plan_cases)
  case (committed raw r)
  have "sr_payload r = raw" by (rule snapshot_payload [OF committed(3)])
  moreover from this have "pe_decode env (sr_payload r) = Some nxt" using committed(2) assms(2) by (simp add: plan_roundtrip_def)
  ultimately show ?thesis using committed by auto
qed simp

subsection \<open>Updates follow the life cycle\<close>

definition record_advances :: "task_record \<Rightarrow> task_record \<Rightarrow> bool" where
  "record_advances r r' \<longleftrightarrow> task_advances (tr_task r) (tr_task r')"

lemma record_advances_refl [simp]: "record_advances r r"
  by (simp add: record_advances_def)

lemma edit_fields_advances: "record_advances r (edit_fields a r)"
  by (simp add: record_advances_def edit_fields_def Let_def task_advances_def)

lemma edit_status_advances: "edit_status now status tasks r = Inr r' \<Longrightarrow> record_advances r r'"
  by (auto simp: edit_status_def record_advances_def split: option.splits if_splits sum.splits intro: task_step_advances [OF task_step.transition])

lemma edit_output_advances: "edit_output env sid a r = Inr r' \<Longrightarrow> record_advances r r'"
  by (auto simp: edit_output_def record_advances_def split: option.splits if_splits sum.splits intro: task_step_advances [OF task_step.cursor])

lemma record_advances_trans: "record_advances a b \<Longrightarrow> record_advances b c \<Longrightarrow> record_advances a c"
  by (auto simp: record_advances_def intro: task_advances_trans)

lemma position_of_Some: "position_of i rs = Some n \<Longrightarrow> n < length rs \<and> task_id (rs ! n) = i"
  by (induction rs arbitrary: n) (auto split: if_splits)

lemma updated_advances:
  assumes "record_advances (rs ! n) r" "n < length rs"
  shows "list_all2 (\<lambda>x y. record_advances x y \<and> (task_id x \<noteq> task_id (rs ! n) \<longrightarrow> y = x)) rs (rs[n := r])"
  using assms by (auto simp: list_all2_conv_all_nth nth_list_update)


subsection \<open>Every state a service holds is valid\<close>

text \<open>The calls of a service and its reload; several services may share the store.\<close>

datatype plan_call =
    CallCreate "64 word option" int create_request
  | CallUpdate int update_request
  | CallNotes string

fun plan_step :: "plan_env \<Rightarrow> db_env \<Rightarrow> go_error option \<times> plan_call \<Rightarrow> plan_service \<times> repository \<Rightarrow> plan_service \<times> repository" where
  "plan_step env denv (c, CallCreate random now a) w = snd (plan_Create env denv c random now a w)"
| "plan_step env denv (c, CallUpdate now a) w = snd (plan_Update env denv c now a w)"
| "plan_step env denv (c, CallNotes t) w = snd (plan_SetNotes env denv c t w)"

text \<open>Every call changes the world through one save, or not at all.\<close>

lemma plan_step_saves:
  "plan_step env denv (c, op) w = w \<or> (\<exists>nxt. plan_step env denv (c, op) w = snd (save_plan env denv c nxt w))"
proof (cases op)
  case (CallCreate random now a)
  then show ?thesis by (auto simp: plan_Create_def Let_def split: sum.splits prod.splits option.splits) (metis snd_conv)+
next
  case (CallUpdate now a)
  then show ?thesis by (auto simp: plan_Update_def Let_def split: sum.splits prod.splits option.splits) (metis snd_conv)+
next
  case (CallNotes t)
  then show ?thesis by (auto simp: plan_SetNotes_def split: sum.splits prod.splits option.splits if_splits) (metis snd_conv)+
qed

text \<open>The state is valid, and while the service's revision is current it is the stored one.\<close>

definition plan_synced :: "plan_env \<Rightarrow> plan_service \<Rightarrow> repository \<Rightarrow> bool" where
  "plan_synced env s rp \<longleftrightarrow> repo_inv rp \<and> plan_valid env (ns_state s) \<and> ns_revision s \<le> stream_revision (ns_id s) plan_namespace plan_stream rp \<and>
     (ns_revision s \<noteq> 0 \<and> ns_revision s = stream_revision (ns_id s) plan_namespace plan_stream rp \<longrightarrow>
       (\<exists>r xs. filter (in_stream plan_namespace plan_stream) (rows_of (ns_id s) rp) = xs @ [r] \<and> pe_decode env (sr_payload r) = Some (ns_state s)))"

lemma unredacted_keeps: "envelope_kept (unredacted denv) r"
  by (simp add: envelope_kept_def unredacted_def)

lemma save_synced:
  assumes "save_plan env (unredacted denv) canceled nxt (s, rp) = (e, s', rp')" "plan_roundtrip env" "walks_all env" "plan_synced env s rp"
  shows "plan_synced env s' rp'"
proof -
  from saved_state [OF assms(1,2)] consider "s' = s" "rp' = rp"
    | (new) raw r where "plan_validate env nxt = None" "ns_state s' = nxt" "ns_id s' = ns_id s" "pe_encode env nxt = Some raw" "sr_payload r = raw"
      "ns_revision s' = sr_sequence r"
      "AppendExtensionSnapshot (unredacted denv) (ns_owner s) (ns_id s) plan_namespace plan_stream (ns_revision s) raw [] rp = (Inr r, rp')" by auto
  then show ?thesis
  proof cases
    case new
    have inv: "repo_inv rp" using assms(4) by (simp add: plan_synced_def)
    have k: "list_all (envelope_kept (unredacted denv)) (snapshot_record plan_namespace plan_stream raw # [])" by (simp add: unredacted_keeps)
    note c = snapshot_commits [OF new(7) inv k] and d = snapshot_stream [OF new(7) inv k]
    from d have "filter (in_stream plan_namespace plan_stream) (rows_of (ns_id s) rp') = filter (in_stream plan_namespace plan_stream) (rows_of (ns_id s) rp) @ [r]" by blast
    moreover have "pe_decode env (sr_payload r) = Some nxt" using assms(2) new(4,5) by (simp add: plan_roundtrip_def)
    moreover have "plan_valid env nxt" using new(1) validate_valid [OF assms(3)] by blast
    ultimately show ?thesis using c(2,4) new(2,3,6) unfolding plan_synced_def by auto
  qed (use assms(4) in simp)
qed

lemma plan_step_synced:
  assumes "plan_synced env s rp" "plan_roundtrip env" "walks_all env" "plan_step env (unredacted denv) (c, op) (s, rp) = (s', rp')"
  shows "plan_synced env s' rp'" "ns_id s' = ns_id s"
proof -
  from plan_step_saves [of env "unredacted denv" c op "(s, rp)"] assms(4)
  consider "s' = s" "rp' = rp" | nxt e where "save_plan env (unredacted denv) c nxt (s, rp) = (e, s', rp')"
    by (metis prod.collapse prod.inject)
  then have "plan_synced env s' rp' \<and> ns_id s' = ns_id s"
  proof cases
    case 1
    with assms(1) show ?thesis by simp
  next
    case (2 nxt e)
    from save_synced [OF 2 assms(2,3,1)] saved_state [OF 2 assms(2)] show ?thesis by auto
  qed
  then show "plan_synced env s' rp'" "ns_id s' = ns_id s" by simp_all
qed

lemma plan_calls_synced:
  assumes "plan_synced env s rp" "plan_roundtrip env" "walks_all env"
  shows "case fold (plan_step env (unredacted denv)) calls (s, rp) of (s', rp') \<Rightarrow> plan_synced env s' rp'"
  using assms(1)
proof (induction calls arbitrary: s rp)
  case (Cons call calls)
  obtain c op where call: "call = (c, op)" by (cases call)
  obtain s1 rp1 where st: "plan_step env (unredacted denv) call (s, rp) = (s1, rp1)" by fastforce
  from plan_step_synced(1) [OF Cons.prems assms(2,3) st [unfolded call]] Cons.IH st show ?case by simp
qed simp

lemma empty_plan_valid: "plan_valid env \<lparr>ps_tasks = [], ps_notes = None\<rparr>"
proof -
  have "depends [] = {}" by (auto simp: depends_def deps_of_def)
  then show ?thesis by (simp add: plan_valid_def acyclic_def)
qed

lemma new_service_synced:
  assumes "new_plan_service env denv owner sid rp = Inr s" "repo_inv rp" "walks_all env"
    and "\<And>raw st. pe_restore env raw = Inr st \<Longrightarrow> pe_decode env raw = Some st"
  shows "plan_synced env s rp"
proof -
  from assms(1) consider (fresh) "s = \<lparr>ns_owner = owner, ns_id = sid, ns_revision = 0, ns_state = \<lparr>ps_tasks = [], ps_notes = None\<rparr>\<rparr>"
    | (found) r st where "LatestRecord denv owner sid plan_namespace plan_stream rp = Inr (Some r)" "pe_restore env (sr_payload r) = Inr st" "plan_validate env st = None"
        "s = \<lparr>ns_owner = owner, ns_id = sid, ns_revision = sr_sequence r, ns_state = st\<rparr>"
    by (auto simp: new_plan_service_def split: sum.splits option.splits if_splits)
  then show ?thesis
  proof cases
    case fresh
    with assms(2) empty_plan_valid show ?thesis by (simp add: plan_synced_def)
  next
    case (found r st)
    from found(1) obtain xs where "filter (in_stream plan_namespace plan_stream) (rev (rows_of sid rp)) = r # xs"
      by (auto simp: LatestRecord_def split: if_splits option.splits list.splits)
    then have rows: "filter (in_stream plan_namespace plan_stream) (rows_of sid rp) = rev xs @ [r]" by (metis rev.simps(2) rev_filter rev_swap)
    then have "r \<in> set (filter (in_stream plan_namespace plan_stream) (rows_of sid rp))" by simp
    then have "r \<in> set (filter (in_stream plan_namespace plan_stream) (table_rows sid rp))" by (simp add: rows_of_def)
    then have "sr_sequence r \<le> stream_revision sid plan_namespace plan_stream rp"
      unfolding stream_revision_def by (intro foldr_max_ge) simp
    moreover have "plan_valid env st" using found(3) validate_valid [OF assms(3)] by blast
    ultimately show ?thesis using assms(2) assms(4) [OF found(2)] rows by (auto simp: plan_synced_def found(4))
  qed
qed


subsection \<open>No lost updates\<close>

lemma stale_save_refused:
  assumes "ns_revision s < stream_revision (ns_id s) plan_namespace plan_stream rp"
  shows "\<exists>g. save_plan env denv canceled nxt (s, rp) = (Some (PlanError g), s, rp)"
proof -
  have stale: "\<exists>e. AppendExtensionSnapshot denv (ns_owner s) (ns_id s) plan_namespace plan_stream (ns_revision s) raw [] rp = (Inl e, rp)" for raw
    by (rule stale_snapshot_refused) (use assms in simp)
  obtain e s' rp' where save: "save_plan env denv canceled nxt (s, rp) = (e, s', rp')" by (metis prod.collapse)
  then show ?thesis
  proof (cases rule: save_plan_cases)
    case (committed raw r)
    with stale [of raw] show ?thesis by auto
  qed (use save in auto)
qed


subsection \<open>Witnesses\<close>

text \<open>A plan of one task before and after it starts, and a plan with notes; JSON knows these three.\<close>

definition sample_task :: task where
  "sample_task = \<lparr>tk_id = ''w00000001'', tk_kind = TaskLocalWorkflow, tk_title = ''t'', tk_status = TaskPending, tk_tool_use_id = [], tk_created_at = 5,
     tk_started_at = None, tk_ended_at = None, tk_total_paused = 0, tk_output_file = [], tk_output_offset = 0, tk_notified = False\<rparr>"

definition sample_record :: "task \<Rightarrow> task_record" where
  "sample_record t = \<lparr>tr_task = t, tr_description = [], tr_owner = [], tr_blocked_by = [], tr_metadata = [], tr_outputs = []\<rparr>"

definition waiting_plan :: plan_state where
  "waiting_plan = \<lparr>ps_tasks = [sample_record sample_task], ps_notes = None\<rparr>"

definition running_plan :: plan_state where
  "running_plan = \<lparr>ps_tasks = [sample_record (sample_task\<lparr>tk_status := TaskRunning, tk_started_at := Some 7\<rparr>)], ps_notes = None\<rparr>"

definition sample_note :: ref_data where
  "sample_note = \<lparr>ref_uri = ''n'', ref_media_type = [], ref_sha256 = [], ref_bytes = 0, ref_processing = []\<rparr>"

definition noted_plan :: plan_state where
  "noted_plan = \<lparr>ps_tasks = [], ps_notes = Some sample_note\<rparr>"

definition sample_plan_env :: plan_env where
  "sample_plan_env = \<lparr>pe_known = (\<lambda>_. None), pe_order = rev,
     pe_encode = (\<lambda>st. if st = waiting_plan then Some ''1'' else if st = running_plan then Some ''2'' else if st = noted_plan then Some ''3'' else None),
     pe_decode = (\<lambda>d. if d = ''1'' then Some waiting_plan else if d = ''2'' then Some running_plan else if d = ''3'' then Some noted_plan else None),
     pe_read = (\<lambda>_. None), pe_restore = (\<lambda>d. if d = ''3'' then Inr noted_plan else Inl (ErrNew ''json'')),
     pe_clean = Inr, pe_put = (\<lambda>_ _ _. Inr sample_note)\<rparr>"

lemma sample_plan_env: "plan_roundtrip sample_plan_env" "walks_all sample_plan_env"
  "pe_restore sample_plan_env raw = Inr st \<Longrightarrow> pe_decode sample_plan_env raw = Some st"
  by (auto simp: plan_roundtrip_def walks_all_def sample_plan_env_def split: if_splits)

definition sample_service :: "plan_state \<Rightarrow> plan_service" where
  "sample_service st = \<lparr>ns_owner = ''o'', ns_id = ''s'', ns_revision = 0, ns_state = st\<rparr>"

theorem plan_validation_is_exact_witness: "plan_valid sample_plan_env running_plan"
proof -
  have "plan_validate sample_plan_env running_plan = None" by code_simp
  then show ?thesis by (simp add: plan_validation_is_exact [OF sample_plan_env(2)])
qed

definition start_request :: update_request where
  "start_request = \<lparr>ur_id = ''w00000001'', ur_title = None, ur_description = None, ur_owner = None, ur_status = Some TaskRunning, ur_metadata = None,
     ur_blocked_by = None, ur_append = None\<rparr>"

definition started :: "(plan_error + task_record) \<times> plan_service \<times> repository" where
  "started = plan_Update sample_plan_env plain_env None 7 start_request (sample_service waiting_plan, fresh_store)"

lemma started_runs: "map task_status_of (ps_tasks (ns_state (fst (snd started)))) = [TaskRunning]"
  by code_simp


lemma fresh_service: "new_plan_service sample_plan_env plain_env ''o'' ''s'' fresh_store = Inr (sample_service \<lparr>ps_tasks = [], ps_notes = None\<rparr>)"
  by code_simp

definition noted_world :: "plan_service \<times> repository" where
  "noted_world = fold (plan_step sample_plan_env plain_env) [(None, CallNotes ''n'')] (sample_service \<lparr>ps_tasks = [], ps_notes = None\<rparr>, fresh_store)"

lemma notes_saved: "ps_notes (ns_state (fst noted_world)) = Some sample_note"
  by code_simp


definition saved_once :: "plan_error option \<times> plan_service \<times> repository" where
  "saved_once = save_plan sample_plan_env plain_env None noted_plan (sample_service \<lparr>ps_tasks = [], ps_notes = None\<rparr>, fresh_store)"

lemma saved_once_commits: "fst saved_once = None"
  by code_simp


end
