(* ===== verification/Durable_State.thy ===== *)
theory Durable_State
  imports Interaction Records
begin

section \<open>Durable waits: requests and checkpoints\<close>

text \<open>
  harness/durable/state.go and the validation half of adapters.go. A request for an approval, an
  answer or an external result is bound to a fingerprint of its payload; the state of a session is
  a versioned, bounded checkpoint. The environment is encoding/json's decoder (a text is its first
  value) and what the decoder makes of a value (a question, an answer, a decision), canonical
  encoding and SHA-256. \<open>time.Time\<close> is an integer, 0 the zero time.
\<close>

datatype json = JNull | JBool bool | JNumber string | JString string | JArray "json list" | JObject "(string \<times> json) list"

datatype wait_status = WaitIdle | WaitRunning | WaitWaiting | WaitInterrupted | WaitOther string

record wait_request =
  wq_id :: string
  wq_kind :: string
  wq_run_id :: string
  wq_call_id :: string
  wq_binding :: string
  wq_payload :: string
  wq_expires :: int
  wq_result :: string

record wait_state =
  ws_version :: int
  ws_status :: wait_status
  ws_requests :: "wait_request list"
  ws_grants :: "wait_request list"

record wait_snapshot =
  wn_revision :: nat
  wn_state :: wait_state

record approval_binding =
  ab_session_id :: string
  ab_tool_name :: string
  ab_arguments_sha256 :: string
  ab_summary :: string
  ab_effect :: effect

record wait_env =
  we_parse :: "string \<Rightarrow> json option"
  we_canonical :: "json \<Rightarrow> string option"
  we_digest :: "string \<Rightarrow> string"
  we_question :: "json \<Rightarrow> question result"
  we_answer :: "json \<Rightarrow> human_answer result"
  we_allow :: "json \<Rightarrow> bool option result"
  we_binding :: "json \<Rightarrow> approval_binding result"
  we_encode :: "wait_state \<Rightarrow> string option"
  we_marshal_binding :: "approval_binding \<Rightarrow> string option"
  we_marshal_question :: "question \<Rightarrow> string"
  we_delivery :: "wait_request list \<Rightarrow> string"
  we_external :: "string \<Rightarrow> string result"
  we_receipt :: "string \<Rightarrow> string \<Rightarrow> string"

definition unmarshal :: "wait_env \<Rightarrow> (json \<Rightarrow> 'a result) \<Rightarrow> string \<Rightarrow> 'a result" where
  "unmarshal env decoder d = (case we_parse env d of None \<Rightarrow> Inl (ErrNew ''json syntax'') | Some v \<Rightarrow> decoder v)"

definition ErrConflict :: go_error where "ErrConflict = ErrNew ''durable state revision changed''"
definition ErrInterrupted :: go_error where
  "ErrInterrupted = ErrNew ''execution interrupted; inspect facts and explicitly abandon before new work; no automatic replay''"
definition ErrExpired :: go_error where "ErrExpired = ErrNew ''durable request expired''"

text \<open>The fingerprint of a payload; a question's invocation identities are left out of it.\<close>

definition invocation_fields :: "string list" where
  "invocation_fields = [''ID'', ''RunID'', ''CallID'']"

definition normalize_payload :: "string \<Rightarrow> json \<Rightarrow> json" where
  "normalize_payload kind v =
     (if kind = ''question'' then (case v of JObject fs \<Rightarrow> JObject (filter (\<lambda>(k, _). k \<notin> set invocation_fields) fs) | _ \<Rightarrow> v) else v)"

definition fingerprint :: "wait_env \<Rightarrow> string \<Rightarrow> string \<Rightarrow> string" where
  "fingerprint env kind payload =
     (case we_parse env payload of None \<Rightarrow> []
      | Some v \<Rightarrow> (case we_canonical env (normalize_payload kind v) of None \<Rightarrow> []
        | Some c \<Rightarrow> we_digest env (kind @ CHR 0x00 # c)))"

subsection \<open>Resolutions (adapters.go)\<close>

text \<open>\<open>decode\<close>: strictjson and the decoder that refuses unknown fields are one function of the value; a valid text is one value.\<close>

definition decode_resolution :: "wait_env \<Rightarrow> (json \<Rightarrow> 'a result) \<Rightarrow> string \<Rightarrow> 'a result" where
  "decode_resolution env strict d =
     (if d = [] \<or> int (length d) > 16384 \<or> \<not> ValidJSON d then Inl (ErrNew ''bounded valid JSON resolution required'')
      else unmarshal env strict d)"

definition validateResolution :: "wait_env \<Rightarrow> wait_request \<Rightarrow> string \<Rightarrow> go_error option" where
  "validateResolution env r res =
     (if res = [] \<or> int (length res) > 16384 \<or> \<not> ValidJSON res then Some (ErrNew ''bounded valid JSON result required'')
      else if wq_kind r = ''approval''
      then (case decode_resolution env (we_allow env) res of Inl e \<Rightarrow> Some e
        | Inr None \<Rightarrow> Some (ErrNew ''explicit allow boolean required'') | Inr (Some _) \<Rightarrow> None)
      else if wq_kind r = ''question''
      then (case unmarshal env (we_question env) (wq_payload r) of Inl e \<Rightarrow> Some e
        | Inr q \<Rightarrow> (case decode_resolution env (we_answer env) res of Inl e \<Rightarrow> Some e
          | Inr a \<Rightarrow> (case question_Resolve q a of Inl e \<Rightarrow> Some e | Inr _ \<Rightarrow> None)))
      else None)"

definition validateRequestSource :: "wait_env \<Rightarrow> wait_request \<Rightarrow> go_error option" where
  "validateRequestSource env r =
     (if wq_kind r = ''question''
      then (case unmarshal env (we_question env) (wq_payload r) of Inl e \<Rightarrow> Some e
        | Inr q \<Rightarrow> (case question_Validate q of Some e \<Rightarrow> Some e
          | None \<Rightarrow> if qu_run_id q \<noteq> wq_run_id r \<or> qu_call_id q \<noteq> wq_call_id r
              then Some (ErrNew ''question source identity differs from durable request'') else None))
      else if wq_kind r = ''approval''
      then (case unmarshal env (we_binding env) (wq_payload r) of Inl e \<Rightarrow> Some e
        | Inr b \<Rightarrow> if ab_session_id b = [] \<or> ab_tool_name b = [] \<or> length (ab_arguments_sha256 b) \<noteq> 64
            then Some (ErrNew ''approval source binding missing'') else None)
      else if wq_kind r = ''external''
      then (if json_map_object (wq_payload r) then None else Some (ErrNew ''external request object missing''))
      else None)"

subsection \<open>State.Validate\<close>

definition request_fields_ok :: "wait_env \<Rightarrow> string list \<Rightarrow> wait_request \<Rightarrow> bool" where
  "request_fields_ok env seen r =
     (\<not> (wq_id r = [] \<or> int (length (wq_id r)) > 128 \<or> wq_run_id r = [] \<or> wq_call_id r = [] \<or> int (length (wq_run_id r)) > 512 \<or>
        int (length (wq_call_id r)) > 512 \<or> \<not> utf8_valid (wq_id r @ wq_run_id r @ wq_call_id r) \<or> wq_id r \<in> set seen \<or> wq_expires r = 0 \<or>
        (wq_kind r \<noteq> ''question'' \<and> wq_kind r \<noteq> ''approval'' \<and> wq_kind r \<noteq> ''external'') \<or> int (length (wq_payload r)) > 32768 \<or>
        \<not> ValidJSON (wq_payload r) \<or> \<not> utf8_valid (wq_payload r) \<or> wq_binding r \<noteq> fingerprint env (wq_kind r) (wq_payload r) \<or>
        int (length (wq_result r)) > 16384 \<or> wq_result r \<noteq> [] \<and> \<not> ValidJSON (wq_result r)))"

text \<open>The loop over both groups: the identities seen so far go on from the requests to the grants.\<close>

fun check_requests :: "wait_env \<Rightarrow> string list \<Rightarrow> wait_request list \<Rightarrow> go_error option" where
  "check_requests env seen [] = None"
| "check_requests env seen (r # rs) =
     (if \<not> request_fields_ok env seen r then Some (ErrNew ''invalid durable request identity/binding/result'')
      else (case validateRequestSource env r of Some e \<Rightarrow> Some e
        | None \<Rightarrow> (case (if wq_result r = [] then None else validateResolution env r (wq_result r)) of Some e \<Rightarrow> Some e
          | None \<Rightarrow> check_requests env (wq_id r # seen) rs)))"

definition wait_Validate :: "wait_env \<Rightarrow> wait_state \<Rightarrow> go_error option" where
  "wait_Validate env st =
     (if ws_version st \<noteq> 1 \<or> (case ws_status st of WaitOther _ \<Rightarrow> True | _ \<Rightarrow> False) \<or> length (ws_requests st) > 16 \<or> length (ws_grants st) > 16
      then Some (ErrNew ''unsupported or oversized durable state'')
      else if ws_status st = WaitIdle \<and> (ws_requests st \<noteq> [] \<or> ws_grants st \<noteq> []) \<or> ws_status st = WaitWaiting \<and> ws_requests st = []
      then Some (ErrNew ''durable status and requests disagree'')
      else (case check_requests env [] (ws_requests st @ ws_grants st) of Some e \<Rightarrow> Some e
        | None \<Rightarrow>
          if list_ex (\<lambda>r. wq_kind r = ''external'' \<or> wq_result r = []) (ws_grants st)
          then Some (ErrNew ''only resolved approval/question decisions may be consumed'')
          else (case we_encode env st of None \<Rightarrow> Some (ErrNew ''durable snapshot exceeds 256 KiB'')
            | Some d \<Rightarrow> if int (length d) > 262144 then Some (ErrNew ''durable snapshot exceeds 256 KiB'') else None)))"

definition idle_state :: wait_state where
  "idle_state = \<lparr>ws_version = 1, ws_status = WaitIdle, ws_requests = [], ws_grants = []\<rparr>"

text \<open>\<open>rand.Read\<close> is an argument: sixteen bytes in hexadecimal, or its failure.\<close>

definition newRequest :: "wait_env \<Rightarrow> string option \<Rightarrow> string \<Rightarrow> string \<Rightarrow> string \<Rightarrow> string \<Rightarrow> int \<Rightarrow> wait_request result" where
  "newRequest env random kind runID callID payload expires =
     (case random of None \<Rightarrow> Inl (ErrNew ''crypto/rand'')
      | Some hex \<Rightarrow> Inr \<lparr>wq_id = ''wait-'' @ hex, wq_kind = kind, wq_run_id = runID, wq_call_id = callID, wq_binding = fingerprint env kind payload,
          wq_payload = payload, wq_expires = expires, wq_result = []\<rparr>)"

subsection \<open>The suspension error\<close>

definition suspension :: go_error where
  "suspension = ErrNew ''durable request pending; execution yielded without replay''"

fun has_session_error :: "go_error \<Rightarrow> bool" where
  "has_session_error (SessionError a b e) = True"
| "has_session_error (Wrapf p e) = has_session_error e"
| "has_session_error (Joined es) = (\<exists>e \<in> set es. has_session_error e)"
| "has_session_error e = False"

fun suspension_leaves :: "go_error \<Rightarrow> bool" where
  "suspension_leaves (Joined es) = (es \<noteq> [] \<and> (\<forall>e \<in> set es. suspension_leaves e))"
| "suspension_leaves (Wrapf p e) = suspension_leaves e"
| "suspension_leaves (SessionError a b e) = suspension_leaves e"
| "suspension_leaves e = (e = suspension)"

definition onlySuspension :: "go_error option \<Rightarrow> bool" where
  "onlySuspension err = (case err of None \<Rightarrow> False | Some e \<Rightarrow> \<not> has_session_error e \<and> suspension_leaves e)"

subsection \<open>clone\<close>

text \<open>
  \<open>clone\<close> goes through JSON. A \<open>json.RawMessage\<close> is written compactly and with the escapes of
  \<open>json.Marshal\<close>: space between tokens is dropped and, within a string, the three HTML characters
  and the two line separators become six-byte escapes. Only states that \<open>Validate\<close> accepted are
  cloned, whose encoding succeeds, so the other fields come back as they were (identities are
  UTF-8 and the times have a year that RFC 3339 can write).
\<close>

definition hex_lower :: "nat \<Rightarrow> char" where
  "hex_lower n = (if n < 10 then char_of (0x30 + n) else char_of (0x57 + n))"

definition html_escape :: "char \<Rightarrow> string" where
  "html_escape c = CHR 0x5C # ''u00'' @ [hex_lower (byte_of c div 16), hex_lower (byte_of c mod 16)]"

definition line_separator :: "char \<Rightarrow> string \<Rightarrow> bool" where
  "line_separator c s = (c = CHR 0xE2 \<and> length s \<ge> 2 \<and> s ! 0 = CHR 0x80 \<and> (s ! 1 = CHR 0xA8 \<or> s ! 1 = CHR 0xA9))"

fun compact_from :: "bool \<Rightarrow> string \<Rightarrow> string" where
  "compact_from inString [] = []"
| "compact_from False (c # s) = (if is_space c then compact_from False s else c # compact_from (c = CHR 0x22) s)"
| "compact_from True [c] = (if c \<in> set ''<>&'' then html_escape c else [c])"
| "compact_from True (c # e # s) =
     (if c = CHR 0x5C then c # e # compact_from True s
      else if c = CHR 0x22 then c # compact_from False (e # s)
      else if c \<in> set ''<>&'' then html_escape c @ compact_from True (e # s)
      else if line_separator c (e # s) then CHR 0x5C # ''u202'' @ [hex_lower (byte_of (s ! 0) mod 16)] @ compact_from True (tl s)
      else c # compact_from True (e # s))"

definition json_compact :: "string \<Rightarrow> string" where
  "json_compact d = compact_from False d"

definition clone_request :: "wait_request \<Rightarrow> wait_request" where
  "clone_request r = r\<lparr>wq_payload := json_compact (wq_payload r), wq_result := json_compact (wq_result r)\<rparr>"

definition clone_wait_state :: "wait_state \<Rightarrow> wait_state" where
  "clone_wait_state st = st\<lparr>ws_requests := map clone_request (ws_requests st), ws_grants := map clone_request (ws_grants st)\<rparr>"

definition clone_snapshot :: "wait_snapshot \<Rightarrow> wait_snapshot" where
  "clone_snapshot s = s\<lparr>wn_state := clone_wait_state (wn_state s)\<rparr>"

subsection \<open>Facts\<close>

lemma check_requests_ok:
  "check_requests env seen rs = None \<Longrightarrow> distinct (map wq_id rs) \<and> set (map wq_id rs) \<inter> set seen = {} \<and>
     (\<forall>r \<in> set rs. wq_binding r = fingerprint env (wq_kind r) (wq_payload r) \<and> wq_expires r \<noteq> 0 \<and>
        (wq_result r \<noteq> [] \<longrightarrow> validateResolution env r (wq_result r) = None))"
proof (induction rs arbitrary: seen)
  case (Cons r rs)
  then have "request_fields_ok env seen r" "check_requests env (wq_id r # seen) rs = None"
    "wq_result r \<noteq> [] \<longrightarrow> validateResolution env r (wq_result r) = None"
    by (auto split: if_splits option.splits)
  with Cons.IH [OF this(2)] show ?case by (auto simp: request_fields_ok_def)
qed simp

lemma valid_state:
  assumes "wait_Validate env st = None"
  shows "distinct (map wq_id (ws_requests st @ ws_grants st))" "ws_status st = WaitWaiting \<Longrightarrow> ws_requests st \<noteq> []"
    "ws_status st = WaitIdle \<Longrightarrow> ws_requests st = [] \<and> ws_grants st = []"
    "r \<in> set (ws_grants st) \<Longrightarrow> wq_result r \<noteq> [] \<and> wq_kind r \<noteq> ''external''"
    "r \<in> set (ws_requests st) \<union> set (ws_grants st) \<Longrightarrow> wq_binding r = fingerprint env (wq_kind r) (wq_payload r)"
  using assms check_requests_ok [of env "[]" "ws_requests st @ ws_grants st"]
  by (auto simp: wait_Validate_def list_ex_iff split: if_splits option.splits)

text \<open>
  The same question asked in another invocation has the same fingerprint: only the fields that
  name the invocation differ. (The canonical encoding sorts keys, so the order of what is left is
  the decoder's.)
\<close>

lemma question_fingerprint_ignores_invocation:
  assumes "we_parse env p = Some (JObject fs)" "we_parse env p' = Some (JObject fs')"
    and "filter (\<lambda>(k, _). k \<notin> set invocation_fields) fs = filter (\<lambda>(k, _). k \<notin> set invocation_fields) fs'"
  shows "fingerprint env ''question'' p = fingerprint env ''question'' p'"
  using assms by (simp add: fingerprint_def normalize_payload_def)

subsection \<open>Compact texts\<close>

definition plain_char :: "char \<Rightarrow> bool" where
  "plain_char c = (c \<notin> set (CHR 0x5C # CHR 0x22 # CHR 0xE2 # ''<>&''))"

lemma hex_lower_plain: "n < 16 \<Longrightarrow> plain_char (hex_lower n)"
proof -
  assume "n < 16"
  then have "n \<in> set [0..<16]" by auto
  moreover have "list_all (\<lambda>n. plain_char (hex_lower n)) [0..<16]" by code_simp
  ultimately show ?thesis by (auto simp: list_all_iff)
qed

lemma compact_plain: "plain_char c \<Longrightarrow> compact_from True (c # s) = c # compact_from True s"
  by (cases s) (auto simp: plain_char_def line_separator_def)

lemma compact_escaped [simp]: "compact_from True (CHR 0x5C # e # s) = CHR 0x5C # e # compact_from True s"
  by simp

lemma compact_quote [simp]: "compact_from True (CHR 0x22 # s) = CHR 0x22 # compact_from False s"
  by (cases s) auto

lemma byte_of_bound: "byte_of c < 256"
  by (simp add: byte_of_def)

lemma compact_html: "compact_from True (html_escape c @ s) = html_escape c @ compact_from True s"
proof -
  have "byte_of c div 16 < 16" using byte_of_bound [of c] by simp
  then have "plain_char (hex_lower (byte_of c div 16))" by (rule hex_lower_plain)
  moreover have "plain_char (hex_lower (byte_of c mod 16))" by (rule hex_lower_plain) simp
  moreover have "plain_char (CHR ''0'')" by (simp add: plain_char_def)
  ultimately show ?thesis by (simp add: html_escape_def compact_plain del: compact_from.simps(4))
qed

lemma compact_separator:
  "compact_from True (CHR 0x5C # ''u202'' @ [hex_lower (n mod 16)] @ s) = CHR 0x5C # ''u202'' @ [hex_lower (n mod 16)] @ compact_from True s"
proof -
  have "plain_char (hex_lower (n mod 16))" by (rule hex_lower_plain) simp
  moreover have "plain_char (CHR ''0'')" "plain_char (CHR ''2'')" by (simp_all add: plain_char_def)
  ultimately show ?thesis by (simp add: compact_plain del: compact_from.simps(4))
qed

lemma compact_head:
  "compact_from True s = x # t \<Longrightarrow> x \<noteq> CHR 0x5C \<Longrightarrow> x \<noteq> CHR 0x22 \<Longrightarrow> \<exists>s'. s = x # s' \<and> t = compact_from True s'"
  by (cases "(True, s)" rule: compact_from.cases) (auto simp: html_escape_def split: if_splits)

lemma separator_compact:
  assumes "line_separator c (compact_from True s)"
  shows "line_separator c s"
proof -
  from assms obtain y t where y: "c = CHR 0xE2" "compact_from True s = CHR 0x80 # y # t" "y = CHR 0xA8 \<or> y = CHR 0xA9"
    by (auto simp: line_separator_def numeral_2_eq_2 Suc_le_length_iff)
  from compact_head [OF y(2)] obtain s1 where s1: "s = CHR 0x80 # s1" "compact_from True s1 = y # t" by auto
  from compact_head [OF s1(2)] y(3) obtain s2 where "s1 = y # s2" by auto
  with y s1 show ?thesis by (auto simp: line_separator_def)
qed

lemma compact_kept:
  assumes "c \<notin> set (CHR 0x5C # CHR 0x22 # ''<>&'')" "\<not> line_separator c s"
  shows "compact_from True (c # s) = c # compact_from True s"
  using assms by (cases s) auto

lemma compact_idem: "compact_from b (compact_from b d) = compact_from b d"
proof (induction b d rule: compact_from.induct)
  case (2 c s)
  then show ?case by (cases "c = CHR 0x22") auto
next
  case (3 c)
  show ?case using compact_html [of c "[]"] by auto
next
  case (4 c e s)
  consider "c = CHR 0x5C" | "c = CHR 0x22" | "c \<in> set ''<>&''" "c \<noteq> CHR 0x5C" "c \<noteq> CHR 0x22"
    | "c \<notin> set (CHR 0x5C # CHR 0x22 # ''<>&'')" "line_separator c (e # s)"
    | "c \<notin> set (CHR 0x5C # CHR 0x22 # ''<>&'')" "\<not> line_separator c (e # s)" by auto
  then show ?case
  proof cases
    case 1
    with 4(1) show ?thesis by simp
  next
    case 2
    with 4(2) show ?thesis by simp
  next
    case 3
    with 4(3) show ?thesis by (simp add: compact_html)
  next
    case c: 4
    have "compact_from True (c # e # s) = CHR 0x5C # ''u202'' @ [hex_lower (byte_of (s ! 0) mod 16)] @ compact_from True (tl s)"
      using c by simp
    with 4(4) c compact_separator [of "byte_of (s ! 0)" "compact_from True (tl s)"] show ?thesis by simp
  next
    case 5
    then have e: "compact_from True (c # e # s) = c # compact_from True (e # s)" by (rule compact_kept)
    have "compact_from True (c # compact_from True (e # s)) = c # compact_from True (compact_from True (e # s))"
      using 5 separator_compact by (intro compact_kept) blast+
    with e 4(5) 5 show ?thesis by simp
  qed
qed simp

lemma json_compact_idem [simp]: "json_compact (json_compact d) = json_compact d"
  by (simp add: json_compact_def compact_idem)

lemma clone_request_simps [simp]:
  "wq_id (clone_request r) = wq_id r" "wq_kind (clone_request r) = wq_kind r" "wq_run_id (clone_request r) = wq_run_id r"
  "wq_call_id (clone_request r) = wq_call_id r" "wq_binding (clone_request r) = wq_binding r" "wq_expires (clone_request r) = wq_expires r"
  "wq_payload (clone_request r) = json_compact (wq_payload r)" "wq_result (clone_request r) = json_compact (wq_result r)"
  "clone_request (clone_request r) = clone_request r"
  by (simp_all add: clone_request_def)

lemma clone_wait_state_simps [simp]:
  "ws_version (clone_wait_state st) = ws_version st" "ws_status (clone_wait_state st) = ws_status st"
  "ws_requests (clone_wait_state st) = map clone_request (ws_requests st)" "ws_grants (clone_wait_state st) = map clone_request (ws_grants st)"
  "clone_wait_state (clone_wait_state st) = clone_wait_state st" "clone_wait_state idle_state = idle_state"
  by (simp_all add: clone_wait_state_def idle_state_def)

lemma clone_snapshot_simps [simp]:
  "wn_revision (clone_snapshot s) = wn_revision s" "wn_state (clone_snapshot s) = clone_wait_state (wn_state s)"
  "clone_snapshot (clone_snapshot s) = clone_snapshot s"
  by (simp_all add: clone_snapshot_def)

end
