(* ===== verification/Durable.thy ===== *)
theory Durable
  imports Durable_State Permission Memory_Session
begin

section \<open>Durable waits: the controller and its backend\<close>

text \<open>
  harness/durable/controller.go, the handlers of adapters.go and tool.go, and the volatile backend
  of memory.go. A backend is a record of functions over its own state; the last argument before
  the state is the context of that one call (what \<open>ctx.Err()\<close> and the clock give in it). The
  controller's mutex makes each handler one step; a method that calls the backend several times
  takes its contexts as a function of the position of the call. \<open>time.Now\<close> and \<open>rand.Read\<close> are
  arguments.
\<close>

record ('c, 'b) wait_backend =
  be_id :: "'b \<Rightarrow> string"
  be_claim :: "'c \<Rightarrow> 'b \<Rightarrow> go_error option \<times> 'b"
  be_release :: "'b \<Rightarrow> 'b"
  be_load :: "'c \<Rightarrow> 'b \<Rightarrow> wait_snapshot result"
  be_commit :: "nat \<Rightarrow> wait_state \<Rightarrow> message list \<Rightarrow> 'c \<Rightarrow> 'b \<Rightarrow> wait_snapshot result \<times> 'b"
  be_append :: "session_record list \<Rightarrow> 'c \<Rightarrow> 'b \<Rightarrow> 'b"

record 'b wait_controller =
  wc_backend :: 'b
  wc_running :: bool
  wc_driver :: "string option"
  wc_run_id :: string

record wait_outcome =
  wo_suspended :: bool
  wo_requests :: "wait_request list"

definition no_outcome :: wait_outcome where
  "no_outcome = \<lparr>wo_suspended = False, wo_requests = []\<rparr>"

definition ErrRunInProgress :: go_error where "ErrRunInProgress = ErrNew ''agent already running''"

text \<open>\<open>durable.New\<close>: the backend is named and the lifetime of a request is positive and at most a day (in nanoseconds).\<close>

definition new_controller :: "('c, 'b) wait_backend \<Rightarrow> bool \<Rightarrow> int \<Rightarrow> 'b \<Rightarrow> 'b wait_controller result" where
  "new_controller be missing ttl b =
     (if missing \<or> be_id be b = [] \<or> ttl \<le> 0 \<or> ttl > 86400000000000
      then Inl (ErrNew ''identified backend and explicit wait lifetime up to 24h required'')
      else Inr \<lparr>wc_backend = b, wc_running = False, wc_driver = None, wc_run_id = []\<rparr>)"

subsection \<open>Hooks of a run\<close>

definition wait_load :: "wait_env \<Rightarrow> ('c, 'b) wait_backend \<Rightarrow> 'c \<Rightarrow> 'b \<Rightarrow> wait_snapshot result" where
  "wait_load env be ctx b =
     (case be_load be ctx b of Inl e \<Rightarrow> Inl e
      | Inr s \<Rightarrow> (case wait_Validate env (wn_state s) of Some e \<Rightarrow> Inl e | None \<Rightarrow> Inr s))"

definition wait_OnRunStart :: "string \<Rightarrow> string \<Rightarrow> 'b wait_controller \<Rightarrow> go_error option \<times> 'b wait_controller" where
  "wait_OnRunStart st runID c =
     (if wc_driver c \<noteq> Some st \<or> runID = [] then (Some (ErrNew ''durable Plugin must run through its actual Controller''), c)
      else (None, c\<lparr>wc_run_id := runID\<rparr>))"

definition wait_BeforeModel :: "wait_env \<Rightarrow> ('c, 'b) wait_backend \<Rightarrow> string \<Rightarrow> bool \<Rightarrow> 'c \<Rightarrow> 'b wait_controller \<Rightarrow> go_error option" where
  "wait_BeforeModel env be st same_log ctx c =
     (if wc_driver c \<noteq> Some st \<or> \<not> same_log then Some (ErrNew ''durable execution changed its actual log'')
      else (case wait_load env be ctx (wc_backend c) of Inl e \<Rightarrow> Some e
        | Inr s \<Rightarrow> if ws_requests (wn_state s) \<noteq> [] then Some suspension else None))"

subsection \<open>Start and Resume\<close>

datatype resume_check = AllResolved | SomeExpired | SomePending

fun check_results :: "(nat \<Rightarrow> int) \<Rightarrow> nat \<Rightarrow> wait_request list \<Rightarrow> resume_check" where
  "check_results now i [] = AllResolved"
| "check_results now i (r # rs) =
     (if \<not> now i < wq_expires r then SomeExpired
      else if wq_result r = [] then SomePending else check_results now (Suc i) rs)"

text \<open>The state a resumed run starts with: what was decided becomes a grant, nothing is requested.\<close>

definition granted_state :: "wait_state \<Rightarrow> wait_state" where
  "granted_state st =
     st\<lparr>ws_requests := [], ws_grants := ws_grants st @ filter (\<lambda>r. wq_kind r = ''approval'' \<or> wq_kind r = ''question'') (ws_requests st)\<rparr>"

text \<open>
  The part of \<open>drive\<close> between the claim and \<open>agent.Run\<close>: \<open>Inl\<close> is an early return, \<open>Inr\<close> the
  requests whose results were delivered.
\<close>

definition start_claimed :: "wait_env \<Rightarrow> ('c, 'b) wait_backend \<Rightarrow> (nat \<Rightarrow> 'c) \<Rightarrow> (nat \<Rightarrow> int) \<Rightarrow> bool \<Rightarrow> 'b \<Rightarrow>
    ((wait_outcome \<times> go_error option) + wait_request list) \<times> 'b" where
  "start_claimed env be ctx now resume b =
     (case wait_load env be (ctx 1) b of
        Inl e \<Rightarrow> (Inl (no_outcome, Some e), b)
      | Inr s \<Rightarrow>
        (let st = wn_state s in
         if ws_status st = WaitRunning \<or> ws_status st = WaitInterrupted then (Inl (no_outcome, Some ErrInterrupted), b)
         else if resume \<and> ws_status st \<noteq> WaitWaiting \<or> \<not> resume \<and> ws_status st \<noteq> WaitIdle
         then (Inl (no_outcome, Some (ErrNew ''Start requires idle state; Resume requires a committed waiting checkpoint'')), b)
         else (case (if resume then check_results now 0 (ws_requests st) else AllResolved) of
             SomeExpired \<Rightarrow> (Inl (no_outcome, Some ErrExpired), b)
           | SomePending \<Rightarrow> (Inl (\<lparr>wo_suspended = True, wo_requests = map clone_request (ws_requests st)\<rparr>, None), b)
           | AllResolved \<Rightarrow>
               (let delivered = (if resume then ws_requests st else []);
                    delivery = (if resume then [TextMessage RoleUser (we_delivery env delivered)] else []);
                    st' = (if resume then granted_state st else st)\<lparr>ws_status := WaitRunning\<rparr>
                in (case be_commit be (wn_revision s) st' delivery (ctx 2) b of
                      (Inl e, b') \<Rightarrow> (Inl (no_outcome, Some e), b')
                    | (Inr _, b') \<Rightarrow> (Inr delivered, b'))))))"

definition drive_start :: "wait_env \<Rightarrow> ('c, 'b) wait_backend \<Rightarrow> bool \<Rightarrow> bool \<Rightarrow> string \<Rightarrow> (nat \<Rightarrow> 'c) \<Rightarrow> (nat \<Rightarrow> int) \<Rightarrow> bool \<Rightarrow> 'b wait_controller \<Rightarrow>
    ((wait_outcome \<times> go_error option) + wait_request list) \<times> 'b wait_controller" where
  "drive_start env be present owned st ctx now resume c =
     (if \<not> present then (Inl (no_outcome, Some (ErrNew ''actual SDK Agent and event receiver required'')), c)
      else if \<not> owned then (Inl (no_outcome, Some (ErrNew ''Agent must contain this Controller and its exact backend log'')), c)
      else if wc_running c then (Inl (no_outcome, Some ErrRunInProgress), c)
      else (case be_claim be (ctx 0) (wc_backend c) of
          (Some e, b) \<Rightarrow> (Inl (no_outcome, Some e), c\<lparr>wc_backend := b\<rparr>)
        | (None, b) \<Rightarrow>
            (case start_claimed env be ctx now resume b of
               (Inl out, b') \<Rightarrow> (Inl out, c\<lparr>wc_backend := be_release be b'\<rparr>)
             | (Inr delivered, b') \<Rightarrow> (Inr delivered, c\<lparr>wc_backend := b', wc_running := True, wc_driver := Some st\<rparr>))))"

text \<open>
  The part of \<open>drive\<close> after \<open>agent.Run\<close>: the run's error, what the caller's context says, and the
  error of emitting the terminal event that was held back. The deferred release and unlock come last.
\<close>

definition finish_state :: "go_error option \<Rightarrow> go_error option \<Rightarrow> wait_state \<Rightarrow> wait_state" where
  "finish_state runErr ctxErr st =
     (if onlySuspension runErr \<and> ctxErr = None \<and> ws_requests st \<noteq> [] then st\<lparr>ws_status := WaitWaiting\<rparr>
      else if runErr \<noteq> None then st\<lparr>ws_status := WaitInterrupted\<rparr>
      else idle_state)"

definition finish_claimed :: "wait_env \<Rightarrow> ('c, 'b) wait_backend \<Rightarrow> (nat \<Rightarrow> 'c) \<Rightarrow> go_error option \<Rightarrow> go_error option \<Rightarrow> go_error option option \<Rightarrow> 'b \<Rightarrow>
    (wait_outcome \<times> go_error option) \<times> 'b" where
  "finish_claimed env be ctx runErr ctxErr terminal b =
     (case wait_load env be (ctx 3) b of
        Inl e \<Rightarrow> ((no_outcome, errors_join [runErr, Some e]), b)
      | Inr s \<Rightarrow>
        (let st = finish_state runErr ctxErr (wn_state s) in
         (case be_commit be (wn_revision s) st [] (ctx 4) b of
            (Inl e, b') \<Rightarrow> ((no_outcome, errors_join [runErr, Some e]), b')
          | (Inr _, b') \<Rightarrow>
              (if ws_status st = WaitWaiting
               then ((\<lparr>wo_suspended = True, wo_requests = map clone_request (ws_requests st)\<rparr>, None), b')
               else (case terminal of None \<Rightarrow> ((no_outcome, runErr), b')
                 | Some emitted \<Rightarrow> ((no_outcome, errors_join [runErr, emitted]), b'))))))"

definition drive_finish :: "wait_env \<Rightarrow> ('c, 'b) wait_backend \<Rightarrow> (nat \<Rightarrow> 'c) \<Rightarrow> go_error option \<Rightarrow> go_error option \<Rightarrow> go_error option option \<Rightarrow> 'b wait_controller \<Rightarrow>
    (wait_outcome \<times> go_error option) \<times> 'b wait_controller" where
  "drive_finish env be ctx runErr ctxErr terminal c =
     (let (out, b) = finish_claimed env be ctx runErr ctxErr terminal (wc_backend c)
      in (out, \<lparr>wc_backend = be_release be b, wc_running = False, wc_driver = None, wc_run_id = []\<rparr>))"

text \<open>\<open>agent.Run\<close> is an argument: it acts on this controller through the handlers and hooks.\<close>

definition wait_drive :: "wait_env \<Rightarrow> ('c, 'b) wait_backend \<Rightarrow> bool \<Rightarrow> bool \<Rightarrow> string \<Rightarrow> (nat \<Rightarrow> 'c) \<Rightarrow> (nat \<Rightarrow> int) \<Rightarrow> bool \<Rightarrow>
    ('b wait_controller \<Rightarrow> (go_error option \<times> go_error option \<times> go_error option option) \<times> 'b wait_controller) \<Rightarrow>
    'b wait_controller \<Rightarrow> (wait_outcome \<times> go_error option) \<times> 'b wait_controller" where
  "wait_drive env be present owned st ctx now resume run c =
     (case drive_start env be present owned st ctx now resume c of
        (Inl out, c') \<Rightarrow> (out, c')
      | (Inr _, c') \<Rightarrow> (case run c' of ((runErr, ctxErr, terminal), c'') \<Rightarrow> drive_finish env be ctx runErr ctxErr terminal c''))"

text \<open>A panic through \<open>drive\<close> runs its two deferred calls and nothing else.\<close>

definition drive_unwind :: "('c, 'b) wait_backend \<Rightarrow> 'b wait_controller \<Rightarrow> 'b wait_controller" where
  "drive_unwind be c = c\<lparr>wc_backend := be_release be (wc_backend c), wc_running := False\<rparr>"

subsection \<open>Resolve and Abandon\<close>

fun resolve_in :: "wait_env \<Rightarrow> int \<Rightarrow> string \<Rightarrow> string \<Rightarrow> string \<Rightarrow> wait_request list \<Rightarrow> go_error + wait_request list option" where
  "resolve_in env now i bound res [] = Inl (ErrNew ''request is not owned by this waiting session'')"
| "resolve_in env now i bound res (r # rs) =
     (if wq_id r \<noteq> i then map_sum id (map_option (Cons r)) (resolve_in env now i bound res rs)
      else if wq_binding r \<noteq> bound then Inl (ErrNew ''request binding differs from the reviewed payload'')
      else if \<not> now < wq_expires r then Inl ErrExpired
      else (case validateResolution env r res of Some e \<Rightarrow> Inl e
        | None \<Rightarrow>
            if wq_result r \<noteq> [] then (if wq_result r = res then Inr None else Inl (ErrNew ''request already resolved differently''))
            else Inr (Some (r\<lparr>wq_result := res\<rparr> # rs))))"

text \<open>The boolean says that a result was committed.\<close>

definition wait_Resolve :: "wait_env \<Rightarrow> ('c, 'b) wait_backend \<Rightarrow> (nat \<Rightarrow> 'c) \<Rightarrow> int \<Rightarrow> string \<Rightarrow> string \<Rightarrow> string \<Rightarrow> 'b wait_controller \<Rightarrow>
    (go_error + bool) \<times> 'b wait_controller" where
  "wait_Resolve env be ctx now i bound res c =
     (case wait_load env be (ctx 0) (wc_backend c) of
        Inl e \<Rightarrow> (Inl e, c)
      | Inr s \<Rightarrow>
          if ws_status (wn_state s) \<noteq> WaitWaiting then (Inl (ErrNew ''request is not in a committed waiting checkpoint''), c)
          else (case resolve_in env now i bound res (ws_requests (wn_state s)) of
              Inl e \<Rightarrow> (Inl e, c)
            | Inr None \<Rightarrow> (Inr False, c)
            | Inr (Some rs) \<Rightarrow>
                (case be_commit be (wn_revision s) ((wn_state s)\<lparr>ws_requests := rs\<rparr>) [] (ctx 1) (wc_backend c) of
                   (Inl e, b) \<Rightarrow> (Inl e, c\<lparr>wc_backend := b\<rparr>)
                 | (Inr _, b) \<Rightarrow> (Inr True, c\<lparr>wc_backend := b\<rparr>))))"

definition wait_Abandon :: "wait_env \<Rightarrow> ('c, 'b) wait_backend \<Rightarrow> (nat \<Rightarrow> 'c) \<Rightarrow> 'b wait_controller \<Rightarrow> go_error option \<times> 'b wait_controller" where
  "wait_Abandon env be ctx c =
     (if wc_running c then (Some ErrRunInProgress, c)
      else (case be_claim be (ctx 0) (wc_backend c) of
          (Some e, b) \<Rightarrow> (Some e, c\<lparr>wc_backend := b\<rparr>)
        | (None, b) \<Rightarrow>
            (case wait_load env be (ctx 1) b of
               Inl e \<Rightarrow> (Some e, c\<lparr>wc_backend := be_release be b\<rparr>)
             | Inr s \<Rightarrow>
                 (case be_commit be (wn_revision s) idle_state [] (ctx 2) b of
                    (Inl e, b') \<Rightarrow> (Some e, c\<lparr>wc_backend := be_release be b'\<rparr>)
                  | (Inr _, b') \<Rightarrow> (None, c\<lparr>wc_backend := be_release be b'\<rparr>)))))"

subsection \<open>Requests and grants of a run (adapters.go)\<close>

definition wait_enqueue :: "wait_env \<Rightarrow> ('c, 'b) wait_backend \<Rightarrow> (nat \<Rightarrow> 'c) \<Rightarrow> string option \<Rightarrow> int \<Rightarrow> string \<Rightarrow> string \<Rightarrow> string \<Rightarrow>
    'b wait_controller \<Rightarrow> wait_request result \<times> 'b wait_controller" where
  "wait_enqueue env be ctx random expires kind callID payload c =
     (if wc_driver c = None \<or> wc_run_id c = [] \<or> callID = [] then (Inl (ErrNew ''durable request requires actual active invocation''), c)
      else (case wait_load env be (ctx 0) (wc_backend c) of
          Inl e \<Rightarrow> (Inl e, c)
        | Inr s \<Rightarrow>
            if ws_status (wn_state s) \<noteq> WaitRunning then (Inl (ErrNew ''durable session is not executing''), c)
            else if length (ws_requests (wn_state s)) \<ge> 16 then (Inl (ErrNew ''durable request admission exceeds 16''), c)
            else (case newRequest env random kind (wc_run_id c) callID payload expires of
                Inl e \<Rightarrow> (Inl e, c)
              | Inr r \<Rightarrow>
                  (case be_commit be (wn_revision s) ((wn_state s)\<lparr>ws_requests := ws_requests (wn_state s) @ [r]\<rparr>) [] (ctx 1) (wc_backend c) of
                     (Inl e, b) \<Rightarrow> (Inl e, c\<lparr>wc_backend := b\<rparr>)
                   | (Inr _, b) \<Rightarrow> (Inr r, c\<lparr>wc_backend := b\<rparr>)))))"

text \<open>The loop over the grants: the first one of this kind and binding, and those without it.\<close>

fun find_grant :: "string \<Rightarrow> string \<Rightarrow> wait_request list \<Rightarrow> (wait_request \<times> wait_request list) option" where
  "find_grant kind key [] = None"
| "find_grant kind key (r # rs) =
     (if wq_kind r = kind \<and> wq_binding r = key then Some (r, rs) else map_option (map_prod id (Cons r)) (find_grant kind key rs))"

definition wait_consume :: "wait_env \<Rightarrow> ('c, 'b) wait_backend \<Rightarrow> (nat \<Rightarrow> 'c) \<Rightarrow> int \<Rightarrow> string \<Rightarrow> string \<Rightarrow> 'b wait_controller \<Rightarrow>
    wait_request option result \<times> 'b wait_controller" where
  "wait_consume env be ctx now kind payload c =
     (if wc_driver c = None then (Inl (ErrNew ''durable handler requires actual Controller execution''), c)
      else (case wait_load env be (ctx 0) (wc_backend c) of
          Inl e \<Rightarrow> (Inl e, c)
        | Inr s \<Rightarrow>
            (case find_grant kind (fingerprint env kind payload) (ws_grants (wn_state s)) of
               None \<Rightarrow> (Inr None, c)
             | Some (r, rest) \<Rightarrow>
                 if \<not> now < wq_expires r then (Inl ErrExpired, c)
                 else (case be_commit be (wn_revision s) ((wn_state s)\<lparr>ws_grants := rest\<rparr>) [] (ctx 1) (wc_backend c) of
                     (Inl e, b) \<Rightarrow> (Inl e, c\<lparr>wc_backend := b\<rparr>)
                   | (Inr _, b) \<Rightarrow> (Inr (Some r), c\<lparr>wc_backend := b\<rparr>)))))"

definition wait_Approve :: "wait_env \<Rightarrow> ('c, 'b) wait_backend \<Rightarrow> (nat \<Rightarrow> 'c) \<Rightarrow> string option \<Rightarrow> int \<Rightarrow> int \<Rightarrow> approval_request \<Rightarrow>
    'b wait_controller \<Rightarrow> approval_decision result \<times> 'b wait_controller" where
  "wait_Approve env be ctx random now ttl r c =
     (if wc_driver c = None \<or> ar_session r \<noteq> be_id be (wc_backend c) \<or> ar_run r \<noteq> wc_run_id c \<or> ar_call r = [] \<or> length (ar_hash r) \<noteq> 64
      then (Inl (ErrNew ''approval lacks actual session/run/call/argument binding''), c)
      else (case we_marshal_binding env \<lparr>ab_session_id = ar_session r, ab_tool_name = ar_tool r, ab_arguments_sha256 = ar_hash r,
              ab_summary = ar_summary r, ab_effect = ar_effect r\<rparr> of
          None \<Rightarrow> (Inl (ErrNew ''json''), c)
        | Some payload \<Rightarrow>
            (case wait_consume env be ctx now ''approval'' payload c of
               (Inl e, c') \<Rightarrow> (Inl e, c')
             | (Inr (Some g), c') \<Rightarrow>
                 (case decode_resolution env (we_allow env) (wq_result g) of
                    Inr (Some b) \<Rightarrow> (Inr \<lparr>ad_allowed = b, ad_scope = ScopeOnce\<rparr>, c')
                  | _ \<Rightarrow> (Inl (ErrNew ''invalid restored approval''), c'))
             | (Inr None, c') \<Rightarrow>
                 (case wait_enqueue env be (\<lambda>i. ctx (i + 2)) random (now + ttl) ''approval'' (ar_call r) payload c' of
                    (Inl e, c'') \<Rightarrow> (Inl e, c'')
                  | (Inr _, c'') \<Rightarrow> (Inl suspension, c'')))))"

definition wait_Ask :: "wait_env \<Rightarrow> ('c, 'b) wait_backend \<Rightarrow> (nat \<Rightarrow> 'c) \<Rightarrow> string option \<Rightarrow> int \<Rightarrow> int \<Rightarrow> question \<Rightarrow>
    'b wait_controller \<Rightarrow> human_answer result \<times> 'b wait_controller" where
  "wait_Ask env be ctx random now ttl q c =
     (case question_Validate q of Some e \<Rightarrow> (Inl e, c)
      | None \<Rightarrow>
        if wc_driver c = None \<or> qu_session_id q \<noteq> be_id be (wc_backend c) \<or> qu_run_id q \<noteq> wc_run_id c
        then (Inl (ErrNew ''question belongs to another active invocation''), c)
        else (let payload = we_marshal_question env q in
          (case wait_consume env be ctx now ''question'' payload c of
             (Inl e, c') \<Rightarrow> (Inl e, c')
           | (Inr (Some g), c') \<Rightarrow> (decode_resolution env (we_answer env) (wq_result g), c')
           | (Inr None, c') \<Rightarrow>
               (case wait_enqueue env be (\<lambda>i. ctx (i + 2)) random (now + ttl) ''question'' (qu_call_id q) payload c' of
                  (Inl e, c'') \<Rightarrow> (Inl e, c'')
                | (Inr _, c'') \<Rightarrow> (Inl suspension, c'')))))"

text \<open>
  The tool \<open>await_external\<close> (tool.go). \<open>bound\<close> is the comparison of the tool, the log and the
  identities of the call; \<open>we_external\<close> gives the member \<open>request\<close> of the arguments as it is written.
\<close>

definition waitTool_Execute :: "wait_env \<Rightarrow> ('c, 'b) wait_backend \<Rightarrow> (nat \<Rightarrow> 'c) \<Rightarrow> string option \<Rightarrow> int \<Rightarrow> int \<Rightarrow> bool \<Rightarrow> string \<Rightarrow> string \<Rightarrow> tool_call \<Rightarrow>
    'b wait_controller \<Rightarrow> tool_result result \<times> 'b wait_controller" where
  "waitTool_Execute env be ctx random now ttl bound runID sid call c =
     (if wc_driver c = None \<or> wc_run_id c \<noteq> runID \<or> \<not> bound \<or> sid \<noteq> be_id be (wc_backend c) \<or> tc_name call \<noteq> ''await_external'' \<or> tc_id call = []
      then (Inl (ErrNew ''external wait lacks actual tool/session/call binding''), c)
      else if int (length (tc_arguments call)) > 32768 then (Inl (ErrNew ''external wait exceeds 32 KiB''), c)
      else (case we_external env (tc_arguments call) of
          Inl e \<Rightarrow> (Inl e, c)
        | Inr request \<Rightarrow>
            if request = [] \<or> hd request \<noteq> CHR 0x7B then (Inl (ErrNew ''external request object required''), c)
            else (case wait_enqueue env be ctx random (now + ttl) ''external'' (tc_id call) request c of
                (Inl e, c') \<Rightarrow> (Inl e, c')
              | (Inr r, c') \<Rightarrow> (Inr (ToolResult (tc_id call) [text_block (we_receipt env (wq_id r) (wq_binding r))] False), c'))))"

subsection \<open>The volatile backend (memory.go)\<close>

record memory_backend =
  mb_log :: memory_session
  mb_snapshot :: wait_snapshot
  mb_active :: bool

text \<open>What a call of the backend reads of its context: \<open>ctx.Err()\<close> at its two readings, and the clock.\<close>

record call_context =
  cc_err :: "go_error option"
  cc_err2 :: "go_error option"
  cc_clock :: "nat \<Rightarrow> int"

definition NewMemoryBackend :: "string \<Rightarrow> memory_backend" where
  "NewMemoryBackend i = \<lparr>mb_log = NewMemorySession i, mb_snapshot = \<lparr>wn_revision = 0, wn_state = idle_state\<rparr>, mb_active = False\<rparr>"

definition memory_Claim :: "call_context \<Rightarrow> memory_backend \<Rightarrow> go_error option \<times> memory_backend" where
  "memory_Claim ctx b =
     (case cc_err ctx of Some e \<Rightarrow> (Some e, b)
      | None \<Rightarrow> if mb_active b then (Some ErrRunInProgress, b) else (None, b\<lparr>mb_active := True\<rparr>))"

definition memory_release :: "memory_backend \<Rightarrow> memory_backend" where
  "memory_release b = b\<lparr>mb_active := False\<rparr>"

definition memory_Load :: "call_context \<Rightarrow> memory_backend \<Rightarrow> wait_snapshot result" where
  "memory_Load ctx b = (case cc_err ctx of Some e \<Rightarrow> Inl e | None \<Rightarrow> Inr (clone_snapshot (mb_snapshot b)))"

definition wait_namespace :: string where "wait_namespace = ''alva.harness.durable''"
definition wait_snapshot_type :: string where "wait_snapshot_type = ''wait_state''"

definition checkpoint_records :: "wait_env \<Rightarrow> wait_state \<Rightarrow> message list \<Rightarrow> session_record list" where
  "checkpoint_records env st msgs =
     (blank_record RecordExtension)\<lparr>sr_namespace := wait_namespace, sr_type := wait_snapshot_type, sr_schema_version := 1,
        sr_payload := (case we_encode env st of None \<Rightarrow> [] | Some d \<Rightarrow> d)\<rparr>
      # map (BuiltinRecord \<circ> conversation_record) msgs"

definition memory_Commit :: "wait_env \<Rightarrow> url_parser \<Rightarrow> nat \<Rightarrow> wait_state \<Rightarrow> message list \<Rightarrow> call_context \<Rightarrow> memory_backend \<Rightarrow>
    wait_snapshot result \<times> memory_backend" where
  "memory_Commit env url revision st msgs ctx b =
     (case wait_Validate env st of Some e \<Rightarrow> (Inl e, b)
      | None \<Rightarrow>
        if wn_revision (mb_snapshot b) \<noteq> revision then (Inl ErrConflict, b)
        else (case AppendRecords url (cc_err ctx) (cc_err2 ctx) (cc_clock ctx) (mb_log b) (checkpoint_records env st msgs) of
            (Inl e, s) \<Rightarrow> (Inl e, b\<lparr>mb_log := s\<rparr>)
          | (Inr cs, s) \<Rightarrow>
              (let sn = \<lparr>wn_revision = sr_sequence (hd cs), wn_state = clone_wait_state st\<rparr>
               in (Inr (clone_snapshot sn), b\<lparr>mb_log := s, mb_snapshot := sn\<rparr>))))"

definition memory_wait :: "wait_env \<Rightarrow> url_parser \<Rightarrow> (call_context, memory_backend) wait_backend" where
  "memory_wait env url =
     \<lparr>be_id = ms_id \<circ> mb_log, be_claim = memory_Claim, be_release = memory_release, be_load = memory_Load, be_commit = memory_Commit env url,
      be_append = (\<lambda>rs ctx b. b\<lparr>mb_log := snd (AppendRecords url (cc_err ctx) (cc_err2 ctx) (cc_clock ctx) (mb_log b) rs)\<rparr>)\<rparr>"

end
