(* ===== verification/Durable_Facts.thy ===== *)
theory Durable_Facts
  imports Durable
begin

section \<open>Durable waits: histories\<close>

text \<open>
  A host drives a controller by a sequence of events: starting and finishing runs, the handlers a
  run calls, resolutions and abandonment by the host, facts the run appends to the same log, and a
  process that unwinds or is replaced. \<open>wait_move\<close> is what a checkpoint promises, independently
  of contexts and storage: a detailed event is one such move followed by the backend's
  normalization of the stored state. The contract of a backend is the locale \<open>durable_backend\<close>,
  interpreted on the volatile backend.
\<close>

datatype 'c wait_event =
    EvStart (ev_resume: bool) (ev_present: bool) (ev_owned: bool) (ev_agent: string) (ev_ctx: "nat \<Rightarrow> 'c") "nat \<Rightarrow> int"
  | EvRunStart string string
  | EvFinish "go_error option" "go_error option" "go_error option option" "nat \<Rightarrow> 'c"
  | EvUnwind
  | EvEnqueue "string option" int string string string "nat \<Rightarrow> 'c"
  | EvConsume int string string "nat \<Rightarrow> 'c"
  | EvResolve int string string string "nat \<Rightarrow> 'c"
  | EvAbandon "nat \<Rightarrow> 'c"
  | EvAppend "session_record list" 'c
  | EvRenew

datatype wait_output = Quiet | Delivered "wait_request list" | Enqueued wait_request | Consumed wait_request | Resolved string string

fun wait_do :: "wait_env \<Rightarrow> ('c, 'b) wait_backend \<Rightarrow> 'c wait_event \<Rightarrow> 'b wait_controller \<Rightarrow> wait_output \<times> 'b wait_controller" where
  "wait_do env be (EvStart resume present owned st ctx now) c =
     (case drive_start env be present owned st ctx now resume c of (Inl _, c') \<Rightarrow> (Quiet, c') | (Inr rs, c') \<Rightarrow> (Delivered rs, c'))"
| "wait_do env be (EvRunStart st runID) c = (Quiet, snd (wait_OnRunStart st runID c))"
| "wait_do env be (EvFinish runErr ctxErr terminal ctx) c =
     (Quiet, if wc_running c then snd (drive_finish env be ctx runErr ctxErr terminal c) else c)"
| "wait_do env be EvUnwind c = (Quiet, if wc_running c then drive_unwind be c else c)"
| "wait_do env be (EvEnqueue random expires kind callID payload ctx) c =
     (case wait_enqueue env be ctx random expires kind callID payload c of (Inl _, c') \<Rightarrow> (Quiet, c') | (Inr r, c') \<Rightarrow> (Enqueued r, c'))"
| "wait_do env be (EvConsume now kind payload ctx) c =
     (case wait_consume env be ctx now kind payload c of (Inr (Some r), c') \<Rightarrow> (Consumed r, c') | (_, c') \<Rightarrow> (Quiet, c'))"
| "wait_do env be (EvResolve now i bound res ctx) c =
     (case wait_Resolve env be ctx now i bound res c of (Inr True, c') \<Rightarrow> (Resolved i res, c') | (_, c') \<Rightarrow> (Quiet, c'))"
| "wait_do env be (EvAbandon ctx) c = (Quiet, snd (wait_Abandon env be ctx c))"
| "wait_do env be (EvAppend rs ctx) c = (Quiet, c\<lparr>wc_backend := be_append be rs ctx (wc_backend c)\<rparr>)"
| "wait_do env be EvRenew c = (Quiet, c\<lparr>wc_running := False, wc_driver := None, wc_run_id := []\<rparr>)"

fun wait_history :: "wait_env \<Rightarrow> ('c, 'b) wait_backend \<Rightarrow> 'c wait_event list \<Rightarrow> 'b wait_controller \<Rightarrow> wait_output list \<times> 'b wait_controller" where
  "wait_history env be [] c = ([], c)"
| "wait_history env be (ev # evs) c =
     (let (out, c1) = wait_do env be ev c; (outs, c2) = wait_history env be evs c1 in (out # outs, c2))"

lemma wait_history_append:
  "wait_history env be (xs @ ys) c =
     (let (os, c1) = wait_history env be xs c; (ps, c2) = wait_history env be ys c1 in (os @ ps, c2))"
  by (induction xs arbitrary: c) (auto simp: Let_def split: prod.splits)

subsection \<open>What a checkpoint promises\<close>

inductive wait_move :: "wait_state \<Rightarrow> wait_output \<Rightarrow> wait_state \<Rightarrow> bool" where
  stay: "wait_move st Quiet st"
| begin_work: "ws_status st = WaitIdle \<Longrightarrow> wait_move st (Delivered []) (st\<lparr>ws_status := WaitRunning\<rparr>)"
| deliver: "ws_status st = WaitWaiting \<Longrightarrow> \<forall>r \<in> set (ws_requests st). wq_result r \<noteq> [] \<Longrightarrow>
    wait_move st (Delivered (ws_requests st)) ((granted_state st)\<lparr>ws_status := WaitRunning\<rparr>)"
| suspend: "ws_requests st \<noteq> [] \<Longrightarrow> wait_move st Quiet (st\<lparr>ws_status := WaitWaiting\<rparr>)"
| interrupt: "wait_move st Quiet (st\<lparr>ws_status := WaitInterrupted\<rparr>)"
| clear: "wait_move st Quiet idle_state"
| request: "ws_status st = WaitRunning \<Longrightarrow> wq_result r = [] \<Longrightarrow>
    wait_move st (Enqueued r) (st\<lparr>ws_requests := ws_requests st @ [r]\<rparr>)"
| grant: "find_grant (wq_kind r) (wq_binding r) (ws_grants st) = Some (r, rest) \<Longrightarrow>
    wait_move st (Consumed r) (st\<lparr>ws_grants := rest\<rparr>)"
| settle: "ws_status st = WaitWaiting \<Longrightarrow> ws_requests st = pre @ r # post \<Longrightarrow> wq_id r = i \<Longrightarrow> wq_result r = [] \<Longrightarrow> res \<noteq> [] \<Longrightarrow>
    wait_move st (Resolved i res) (st\<lparr>ws_requests := pre @ r\<lparr>wq_result := res\<rparr> # post\<rparr>)"

inductive_cases wait_moveE: "wait_move st out st'"

definition same_request :: "wait_request \<Rightarrow> wait_request \<Rightarrow> bool" where
  "same_request r r' = (wq_id r' = wq_id r \<and> wq_kind r' = wq_kind r \<and> wq_run_id r' = wq_run_id r \<and> wq_call_id r' = wq_call_id r \<and>
     wq_binding r' = wq_binding r \<and> wq_expires r' = wq_expires r)"

lemma same_request_refl [simp]: "same_request r r" "same_request r (r\<lparr>wq_result := res\<rparr>)"
  by (simp_all add: same_request_def)

lemma same_request_trans: "same_request a b \<Longrightarrow> same_request b c \<Longrightarrow> same_request a c"
  by (simp add: same_request_def)

definition kept_request :: "(string \<Rightarrow> string) \<Rightarrow> wait_request \<Rightarrow> wait_request \<Rightarrow> bool" where
  "kept_request nr r r' = (same_request r r' \<and> wq_result r' = nr (wq_result r) \<and> (wq_result r' = [] \<longleftrightarrow> wq_result r = []))"

definition kept_state :: "(string \<Rightarrow> string) \<Rightarrow> wait_state \<Rightarrow> wait_state \<Rightarrow> bool" where
  "kept_state nr st st' = (ws_status st' = ws_status st \<and> list_all2 (kept_request nr) (ws_requests st) (ws_requests st') \<and>
     list_all2 (kept_request nr) (ws_grants st) (ws_grants st'))"

subsection \<open>What happened to a request\<close>

definition enqueued_of :: "wait_output list \<Rightarrow> wait_request list" where
  "enqueued_of outs = concat (map (\<lambda>out. case out of Enqueued r \<Rightarrow> [r] | _ \<Rightarrow> []) outs)"

definition resolved_of :: "wait_output list \<Rightarrow> (string \<times> string) list" where
  "resolved_of outs = concat (map (\<lambda>out. case out of Resolved i res \<Rightarrow> [(i, res)] | _ \<Rightarrow> []) outs)"

definition delivered_of :: "wait_output list \<Rightarrow> wait_request list" where
  "delivered_of outs = concat (map (\<lambda>out. case out of Delivered rs \<Rightarrow> rs | _ \<Rightarrow> []) outs)"

definition consumed_of :: "wait_output list \<Rightarrow> wait_request list" where
  "consumed_of outs = concat (map (\<lambda>out. case out of Consumed r \<Rightarrow> [r] | _ \<Rightarrow> []) outs)"

lemma outputs_append [simp]:
  "enqueued_of (xs @ ys) = enqueued_of xs @ enqueued_of ys" "resolved_of (xs @ ys) = resolved_of xs @ resolved_of ys"
  "delivered_of (xs @ ys) = delivered_of xs @ delivered_of ys" "consumed_of (xs @ ys) = consumed_of xs @ consumed_of ys"
  by (simp_all add: enqueued_of_def resolved_of_def delivered_of_def consumed_of_def)

lemma outputs_single [simp]:
  "enqueued_of [out] = (case out of Enqueued r \<Rightarrow> [r] | _ \<Rightarrow> [])" "resolved_of [out] = (case out of Resolved i res \<Rightarrow> [(i, res)] | _ \<Rightarrow> [])"
  "delivered_of [out] = (case out of Delivered rs \<Rightarrow> rs | _ \<Rightarrow> [])" "consumed_of [out] = (case out of Consumed r \<Rightarrow> [r] | _ \<Rightarrow> [])"
  "enqueued_of [] = []" "resolved_of [] = []" "delivered_of [] = []" "consumed_of [] = []"
  by (simp_all add: enqueued_of_def resolved_of_def delivered_of_def consumed_of_def)

text \<open>A request with a result: it was asked for, and this is the result of its one resolution.\<close>

definition asked_for :: "wait_output list \<Rightarrow> wait_request \<Rightarrow> bool" where
  "asked_for outs r = (\<exists>e \<in> set (enqueued_of outs). same_request e r)"

definition settled_as :: "(string \<Rightarrow> string) \<Rightarrow> wait_output list \<Rightarrow> wait_request \<Rightarrow> bool" where
  "settled_as nr outs r = (\<exists>res. (wq_id r, res) \<in> set (resolved_of outs) \<and> nr (wq_result r) = nr res)"

text \<open>
  The invariant in three parts: which identities are where, that every request was asked for, and
  that what has a result was resolved. \<open>held\<close> are the requests of a state and of the outputs that
  were resolved before.
\<close>

definition ids_inv :: "string list \<Rightarrow> string list \<Rightarrow> string list \<Rightarrow> string list \<Rightarrow> string list \<Rightarrow> string list \<Rightarrow> bool" where
  "ids_inv asked settled delivered consumed open_ids granted \<longleftrightarrow>
     distinct asked \<and> distinct settled \<and> distinct delivered \<and> distinct consumed \<and> distinct (open_ids @ granted) \<and>
     set settled \<subseteq> set asked \<and> set delivered \<subseteq> set settled \<and> set consumed \<union> set granted \<subseteq> set delivered \<and>
     set open_ids \<inter> set delivered = {} \<and> set granted \<inter> set consumed = {} \<and> set open_ids \<subseteq> set asked"

lemma ids_inv_request: "ids_inv E R D C Q G \<Longrightarrow> x \<notin> set E \<Longrightarrow> ids_inv (E @ [x]) R D C (Q @ [x]) G"
  by (auto simp: ids_inv_def)

lemma ids_inv_deliver:
  "ids_inv E R D C Q G \<Longrightarrow> set Q \<subseteq> set R \<Longrightarrow> distinct G' \<Longrightarrow> set G' \<subseteq> set Q \<Longrightarrow> ids_inv E R (D @ Q) C [] (G @ G')"
  by (auto simp: ids_inv_def)

lemma ids_inv_grant: "ids_inv E R D C Q (p @ x # s) \<Longrightarrow> ids_inv E R D (C @ [x]) Q (p @ s)"
  by (auto simp: ids_inv_def)

lemma ids_inv_settle: "ids_inv E R D C Q G \<Longrightarrow> x \<in> set Q \<Longrightarrow> x \<notin> set R \<Longrightarrow> ids_inv E (R @ [x]) D C Q G"
  by (auto simp: ids_inv_def)

definition held :: "wait_output list \<Rightarrow> wait_state \<Rightarrow> wait_request set" where
  "held outs st = set (ws_grants st) \<union> set (delivered_of outs) \<union> set (consumed_of outs)"

definition closed_inv :: "(string \<Rightarrow> string) \<Rightarrow> wait_output list \<Rightarrow> wait_state \<Rightarrow> bool" where
  "closed_inv nr outs st \<longleftrightarrow> (\<forall>r \<in> held outs st. asked_for outs r \<and> wq_result r \<noteq> [] \<and> settled_as nr outs r)"

definition open_inv :: "(string \<Rightarrow> string) \<Rightarrow> wait_output list \<Rightarrow> wait_state \<Rightarrow> bool" where
  "open_inv nr outs st \<longleftrightarrow> (\<forall>r \<in> set (ws_requests st). asked_for outs r \<and>
     (if wq_result r = [] then wq_id r \<notin> fst ` set (resolved_of outs) else settled_as nr outs r))"

definition waits_inv :: "(string \<Rightarrow> string) \<Rightarrow> wait_output list \<Rightarrow> wait_state \<Rightarrow> bool" where
  "waits_inv nr outs st \<longleftrightarrow>
     ids_inv (map wq_id (enqueued_of outs)) (map fst (resolved_of outs)) (map wq_id (delivered_of outs)) (map wq_id (consumed_of outs))
       (map wq_id (ws_requests st)) (map wq_id (ws_grants st)) \<and> closed_inv nr outs st \<and> open_inv nr outs st"

lemma asked_for_append: "asked_for outs r \<Longrightarrow> asked_for (outs @ later) r"
  by (auto simp: asked_for_def)

lemma settled_as_append: "settled_as nr outs r \<Longrightarrow> settled_as nr (outs @ later) r"
  by (auto simp: settled_as_def)

lemma asked_id: "asked_for outs r \<Longrightarrow> wq_id r \<in> wq_id ` set (enqueued_of outs)"
  by (auto simp: asked_for_def same_request_def)

lemma settled_as_id: "settled_as nr outs r \<Longrightarrow> wq_id r \<in> fst ` set (resolved_of outs)"
  by (force simp: settled_as_def)

lemma kept_ids: "list_all2 (kept_request nr) rs rs' \<Longrightarrow> map wq_id rs' = map wq_id rs"
  by (induction rule: list_all2_induct) (auto simp: kept_request_def same_request_def)

lemma kept_element: "list_all2 (kept_request nr) rs rs' \<Longrightarrow> r' \<in> set rs' \<Longrightarrow> \<exists>r \<in> set rs. kept_request nr r r'"
  by (induction rule: list_all2_induct) auto

lemma kept_asked: "kept_request nr r r' \<Longrightarrow> asked_for outs r \<Longrightarrow> asked_for outs r'"
  by (auto simp: asked_for_def kept_request_def intro: same_request_trans)

lemma waits_inv_kept:
  assumes inv: "waits_inv nr outs st" and keep: "kept_state nr st st'" and idem: "\<And>d. nr (nr d) = nr d"
  shows "waits_inv nr outs st'"
proof -
  have l: "list_all2 (kept_request nr) (ws_requests st) (ws_requests st')" "list_all2 (kept_request nr) (ws_grants st) (ws_grants st')"
    using keep by (simp_all add: kept_state_def)
  have ans: "settled_as nr outs r'" if "kept_request nr r r'" "settled_as nr outs r" for r r'
    using that by (auto simp: settled_as_def kept_request_def same_request_def idem)
  have "closed_inv nr outs st'" unfolding closed_inv_def
  proof
    fix r assume "r \<in> held outs st'"
    then have "r \<in> held outs st \<or> (\<exists>q \<in> set (ws_grants st). kept_request nr q r)"
      using kept_element [OF l(2)] by (auto simp: held_def)
    then show "asked_for outs r \<and> wq_result r \<noteq> [] \<and> settled_as nr outs r"
    proof
      assume "\<exists>q \<in> set (ws_grants st). kept_request nr q r"
      then obtain q where q: "q \<in> set (ws_grants st)" "kept_request nr q r" by blast
      then have "asked_for outs q" "settled_as nr outs q" "wq_result q \<noteq> []" using inv by (auto simp: waits_inv_def closed_inv_def held_def)
      then show ?thesis using kept_asked [OF q(2)] ans [OF q(2)] q(2) by (auto simp: kept_request_def)
    qed (use inv in \<open>simp add: waits_inv_def closed_inv_def\<close>)
  qed
  moreover have "open_inv nr outs st'" unfolding open_inv_def
  proof
    fix r assume "r \<in> set (ws_requests st')"
    then obtain q where q: "q \<in> set (ws_requests st)" "kept_request nr q r" using kept_element [OF l(1)] by blast
    from q(1) have "asked_for outs q" "if wq_result q = [] then wq_id q \<notin> fst ` set (resolved_of outs) else settled_as nr outs q"
      using inv by (auto simp: waits_inv_def open_inv_def)
    moreover have "wq_id r = wq_id q" "(wq_result r = []) = (wq_result q = [])" using q(2) by (auto simp: kept_request_def same_request_def)
    ultimately show "asked_for outs r \<and> (if wq_result r = [] then wq_id r \<notin> fst ` set (resolved_of outs) else settled_as nr outs r)"
      using kept_asked [OF q(2)] ans [OF q(2)] by (cases "wq_result q = []") simp_all
  qed
  ultimately show ?thesis using inv kept_ids [OF l(1)] kept_ids [OF l(2)] by (simp add: waits_inv_def)
qed

lemma find_grant_split:
  "find_grant kind key gs = Some (r, rest) \<Longrightarrow> \<exists>pre post. gs = pre @ r # post \<and> rest = pre @ post"
proof (induction gs arbitrary: r rest)
  case (Cons g gs)
  show ?case
  proof (cases "wq_kind g = kind \<and> wq_binding g = key")
    case True
    with Cons.prems have "r = g" "rest = gs" by auto
    then show ?thesis by (intro exI [of _ "[]"] exI [of _ gs]) simp
  next
    case False
    with Cons.prems obtain rest' where r: "find_grant kind key gs = Some (r, rest')" "rest = g # rest'" by auto
    from Cons.IH [OF r(1)] obtain pre post where "gs = pre @ r # post" "rest' = pre @ post" by blast
    with r(2) show ?thesis by (intro exI [of _ "g # pre"] exI [of _ post]) simp
  qed
qed simp

lemma waits_inv_deliver:
  assumes inv: "waits_inv nr outs st" and finished: "\<forall>r \<in> set (ws_requests st). wq_result r \<noteq> []"
  shows "waits_inv nr (outs @ [Delivered (ws_requests st)]) ((granted_state st)\<lparr>ws_status := WaitRunning\<rparr>)"
proof -
  have "\<forall>r \<in> set (ws_requests st). asked_for outs r \<and> settled_as nr outs r"
    using inv finished by (auto simp: waits_inv_def open_inv_def)
  moreover from this have "wq_id ` set (ws_requests st) \<subseteq> fst ` set (resolved_of outs)" using settled_as_id by blast
  moreover have "closed_inv nr (outs @ [Delivered (ws_requests st)]) ((granted_state st)\<lparr>ws_status := WaitRunning\<rparr>)"
    using calculation inv finished
    by (auto simp: waits_inv_def closed_inv_def held_def granted_state_def intro!: asked_for_append settled_as_append)
  moreover have "distinct (map wq_id (filter (\<lambda>r. wq_kind r = ''approval'' \<or> wq_kind r = ''question'') (ws_requests st)))"
    using inv by (auto simp: waits_inv_def ids_inv_def intro: distinct_map_filter)
  moreover have "ids_inv (map wq_id (enqueued_of outs)) (map fst (resolved_of outs)) (map wq_id (delivered_of outs)) (map wq_id (consumed_of outs))
      (map wq_id (ws_requests st)) (map wq_id (ws_grants st))" using inv by (simp add: waits_inv_def)
  note ids_inv_deliver [OF this]
  ultimately show ?thesis
    by (simp add: waits_inv_def open_inv_def granted_state_def image_subset_iff)
qed

lemma waits_inv_request:
  assumes inv: "waits_inv nr outs st" and fresh: "wq_id r \<notin> wq_id ` set (enqueued_of outs)" and r: "wq_result r = []"
  shows "waits_inv nr (outs @ [Enqueued r]) (st\<lparr>ws_requests := ws_requests st @ [r]\<rparr>)"
proof -
  have "wq_id r \<notin> fst ` set (resolved_of outs)" using inv fresh by (auto simp: waits_inv_def ids_inv_def)
  moreover have "asked_for (outs @ [Enqueued r]) r" by (simp add: asked_for_def)
  ultimately have "open_inv nr (outs @ [Enqueued r]) (st\<lparr>ws_requests := ws_requests st @ [r]\<rparr>)"
    using inv r by (auto simp: waits_inv_def open_inv_def settled_as_def intro!: asked_for_append)
  moreover have "closed_inv nr (outs @ [Enqueued r]) (st\<lparr>ws_requests := ws_requests st @ [r]\<rparr>)"
    using inv by (auto simp: waits_inv_def closed_inv_def held_def intro!: asked_for_append settled_as_append)
  ultimately show ?thesis using inv fresh unfolding waits_inv_def by (simp add: ids_inv_request)
qed

lemma waits_inv_grant:
  assumes inv: "waits_inv nr outs st" and g: "ws_grants st = pre @ r # post"
  shows "waits_inv nr (outs @ [Consumed r]) (st\<lparr>ws_grants := pre @ post\<rparr>)"
proof -
  have "closed_inv nr (outs @ [Consumed r]) (st\<lparr>ws_grants := pre @ post\<rparr>)"
    using inv g by (auto simp: waits_inv_def closed_inv_def held_def intro!: asked_for_append settled_as_append)
  moreover have "open_inv nr (outs @ [Consumed r]) (st\<lparr>ws_grants := pre @ post\<rparr>)"
    using inv by (auto simp: waits_inv_def open_inv_def intro!: asked_for_append settled_as_append)
  ultimately show ?thesis using inv g unfolding waits_inv_def by (simp add: ids_inv_grant)
qed

lemma waits_inv_settle:
  assumes inv: "waits_inv nr outs st" and q: "ws_requests st = pre @ r # post" "wq_result r = []" and res: "res \<noteq> []"
  shows "waits_inv nr (outs @ [Resolved (wq_id r) res]) (st\<lparr>ws_requests := pre @ r\<lparr>wq_result := res\<rparr> # post\<rparr>)"
proof -
  let ?outs = "outs @ [Resolved (wq_id r) res]" and ?st = "st\<lparr>ws_requests := pre @ r\<lparr>wq_result := res\<rparr> # post\<rparr>"
  have r: "wq_id r \<notin> fst ` set (resolved_of outs)" "asked_for outs r" using inv q by (auto simp: waits_inv_def open_inv_def)
  have "wq_id r \<notin> set (map wq_id pre) \<union> set (map wq_id post)" using inv q by (simp add: waits_inv_def ids_inv_def)
  then have ids: "\<forall>q \<in> set pre \<union> set post. wq_id q \<noteq> wq_id r" by (metis UnE UnI1 UnI2 imageI set_map)
  have "asked_for ?outs (r\<lparr>wq_result := res\<rparr>)" using r(2) by (auto simp: asked_for_def same_request_def)
  moreover have "settled_as nr ?outs (r\<lparr>wq_result := res\<rparr>)" by (auto simp: settled_as_def)
  ultimately have "open_inv nr ?outs ?st"
    using inv q ids res by (auto simp: waits_inv_def open_inv_def intro!: asked_for_append settled_as_append)
  moreover have "closed_inv nr ?outs ?st"
    using inv by (auto simp: waits_inv_def closed_inv_def held_def intro!: asked_for_append settled_as_append)
  ultimately show ?thesis using inv q r(1) unfolding waits_inv_def by (simp add: ids_inv_settle)
qed

lemma waits_inv_quiet:
  assumes inv: "waits_inv nr outs st" and out: "out = Quiet \<or> out = Delivered []"
  shows "waits_inv nr (outs @ [out]) (st\<lparr>ws_status := s\<rparr>)" "waits_inv nr (outs @ [out]) idle_state"
proof -
  have "enqueued_of (outs @ [out]) = enqueued_of outs" "resolved_of (outs @ [out]) = resolved_of outs"
    "delivered_of (outs @ [out]) = delivered_of outs" "consumed_of (outs @ [out]) = consumed_of outs" using out by auto
  note same = this asked_for_def settled_as_def
  show "waits_inv nr (outs @ [out]) (st\<lparr>ws_status := s\<rparr>)"
    using inv by (simp add: waits_inv_def closed_inv_def open_inv_def held_def same cong: if_cong del: outputs_append)
  show "waits_inv nr (outs @ [out]) idle_state"
    using inv by (auto simp add: waits_inv_def ids_inv_def closed_inv_def open_inv_def held_def idle_state_def same simp del: outputs_append)
qed

lemma waits_inv_move:
  assumes inv: "waits_inv nr outs st" and move: "wait_move st out st'"
    and fresh: "\<And>r. out = Enqueued r \<Longrightarrow> wq_id r \<notin> wq_id ` set (enqueued_of outs)"
  shows "waits_inv nr (outs @ [out]) st'"
  using move
proof (cases rule: wait_move.cases)
  case stay
  with waits_inv_quiet(1) [OF inv, of out "ws_status st"] show ?thesis by simp
next
  case (grant r rest)
  with find_grant_split [OF grant(3)] waits_inv_grant [OF inv] show ?thesis by auto
qed (use waits_inv_quiet [OF inv, of out] fresh waits_inv_deliver [OF inv] waits_inv_request [OF inv] waits_inv_settle [OF inv] in auto)

text \<open>What \<open>crypto/rand\<close> gave to the requests of a history, and where an identity comes from.\<close>

definition drawn :: "'c wait_event list \<Rightarrow> string list" where
  "drawn evs = concat (map (\<lambda>ev. case ev of EvEnqueue (Some h) _ _ _ _ _ \<Rightarrow> [h] | _ \<Rightarrow> []) evs)"

lemma enqueued_random:
  assumes "wait_do env be ev c = (Enqueued r, c')"
  shows "\<exists>h. drawn [ev] = [h] \<and> wq_id r = ''wait-'' @ h"
proof -
  from assms obtain random expires kind callID payload ctx where ev: "ev = EvEnqueue random expires kind callID payload ctx"
    and "fst (wait_enqueue env be ctx random expires kind callID payload c) = Inr r"
    by (cases ev) (auto split: prod.splits sum.splits option.splits bool.splits)
  then have "newRequest env random kind (wc_run_id c) callID payload expires = Inr r"
    by (auto simp: wait_enqueue_def split: if_splits sum.splits prod.splits)
  with ev show ?thesis by (auto simp: drawn_def newRequest_def split: option.splits)
qed

subsection \<open>The contract of a backend\<close>

lemma check_results_all: "check_results now i rs = AllResolved \<Longrightarrow> \<forall>r \<in> set rs. wq_result r \<noteq> []"
  by (induction rs arbitrary: i) (auto split: if_splits)

lemma resolve_in_settles:
  "resolve_in env now i bound res rs = Inr (Some rs') \<Longrightarrow>
     \<exists>pre r post. rs = pre @ r # post \<and> wq_id r = i \<and> wq_result r = [] \<and> res \<noteq> [] \<and> wq_binding r = bound \<and> now < wq_expires r \<and>
       validateResolution env r res = None \<and> rs' = pre @ r\<lparr>wq_result := res\<rparr> # post"
proof (induction rs arbitrary: rs')
  case (Cons r rs)
  show ?case
  proof (cases "wq_id r = i")
    case True
    moreover have "res \<noteq> []" if "validateResolution env r res = None" using that by (auto simp: validateResolution_def split: if_splits)
    ultimately show ?thesis using Cons.prems by (force split: if_splits option.splits)
  next
    case False
    with Cons.prems obtain rs1 where r: "resolve_in env now i bound res rs = Inr (Some rs1)" "rs' = r # rs1"
      by (cases "resolve_in env now i bound res rs") auto
    from Cons.IH [OF r(1)] obtain pre q post where "rs = pre @ q # post" "wq_id q = i" "wq_result q = []" "res \<noteq> []" "wq_binding q = bound"
      "now < wq_expires q" "validateResolution env q res = None" "rs1 = pre @ q\<lparr>wq_result := res\<rparr> # post" by blast
    then show ?thesis by (intro exI [of _ "r # pre"] exI [of _ q] exI [of _ post]) (simp add: r)
  qed
qed simp

lemma find_grant_kind: "find_grant kind key gs = Some (r, rest) \<Longrightarrow> wq_kind r = kind \<and> wq_binding r = key"
  by (induction gs arbitrary: r rest) (auto split: if_splits)

text \<open>One event seen from the checkpoint: nothing, or a move that was stored (with a larger revision).\<close>

definition waits_moved :: "('b \<Rightarrow> wait_snapshot) \<Rightarrow> (string \<Rightarrow> string) \<Rightarrow> 'b \<Rightarrow> wait_output \<Rightarrow> 'b \<Rightarrow> bool" where
  "waits_moved snap nr b out b' =
     (out = Quiet \<and> snap b' = snap b \<or>
      (\<exists>st. wait_move (wn_state (snap b)) out st \<and> kept_state nr st (wn_state (snap b')) \<and> wn_revision (snap b) < wn_revision (snap b')))"

locale durable_backend =
  fixes env :: wait_env and be :: "('c, 'b) wait_backend" and ok :: "'b \<Rightarrow> bool" and snap :: "'b \<Rightarrow> wait_snapshot" and nr :: "string \<Rightarrow> string"
  assumes load_snap: "ok b \<Longrightarrow> be_load be ctx b = Inr s \<Longrightarrow> s = snap b"
    and commit_refused: "ok b \<Longrightarrow> be_commit be n st ms ctx b = (Inl e, b') \<Longrightarrow> ok b' \<and> snap b' = snap b"
    and commit_done: "ok b \<Longrightarrow> be_commit be n st ms ctx b = (Inr s, b') \<Longrightarrow>
      ok b' \<and> n = wn_revision (snap b) \<and> n < wn_revision (snap b') \<and> kept_state nr st (wn_state (snap b'))"
    and claim_keeps: "ok b \<Longrightarrow> be_claim be ctx b = (answer, b') \<Longrightarrow> ok b' \<and> snap b' = snap b"
    and release_keeps: "ok b \<Longrightarrow> ok (be_release be b) \<and> snap (be_release be b) = snap b"
    and append_keeps: "ok b \<Longrightarrow> ok (be_append be rs ctx b) \<and> snap (be_append be rs ctx b) = snap b"
    and normal_idem: "nr (nr d) = nr d"
begin

lemma loaded: "ok b \<Longrightarrow> wait_load env be ctx b = Inr s \<Longrightarrow> s = snap b \<and> wait_Validate env (wn_state s) = None"
  by (auto simp: wait_load_def dest: load_snap split: sum.splits option.splits)

lemma quiet_move: "snap b' = snap b \<Longrightarrow> waits_moved snap nr b Quiet b'"
  by (simp add: waits_moved_def)

lemma commit_moves:
  assumes "ok b" "snap b = snap b0" "be_commit be n st ms ctx b = (Inr s, b')"
    and "wait_move (wn_state (snap b0)) out st" "snap b'' = snap b'"
  shows "waits_moved snap nr b0 out b''"
  using commit_done [OF assms(1,3)] assms by (auto simp: waits_moved_def)

lemma refused_or_moved:
  assumes "ok b" "s = snap b" "be_commit be n st ms ctx b = (r, b')" "wait_move (wn_state s) out st"
  shows "ok b'" "isl r \<Longrightarrow> snap b' = snap b" "\<not> isl r \<Longrightarrow> waits_moved snap nr b out b'"
proof -
  show "ok b'" using assms commit_refused commit_done by (cases r) blast+
  show "isl r \<Longrightarrow> snap b' = snap b" using assms commit_refused by (cases r) auto
  show "\<not> isl r \<Longrightarrow> waits_moved snap nr b out b'" using assms commit_moves by (cases r) auto
qed

lemma start_claimed_moves:
  assumes "ok b" "start_claimed env be ctx now resume b = (r, b')"
  shows "ok b' \<and> waits_moved snap nr b (case r of Inl _ \<Rightarrow> Quiet | Inr rs \<Rightarrow> Delivered rs) b'"
proof (cases "wait_load env be (ctx 1) b")
  case (Inl e)
  with assms show ?thesis by (auto simp: start_claimed_def quiet_move)
next
  case (Inr s)
  then have s: "s = snap b" using loaded [OF assms(1)] by blast
  let ?st = "wn_state s" and ?rs = "if resume then ws_requests (wn_state s) else []"
  let ?next = "(if resume then granted_state ?st else ?st)\<lparr>ws_status := WaitRunning\<rparr>"
  show ?thesis
  proof (cases "ws_status ?st = (if resume then WaitWaiting else WaitIdle) \<and> (resume \<longrightarrow> check_results now 0 (ws_requests ?st) = AllResolved)")
    case False
    with assms Inr have "b' = b" "isl r"
      by (auto simp: start_claimed_def Let_def split: if_splits resume_check.splits)
    with assms(1) show ?thesis by (cases r) (auto simp: quiet_move)
  next
    case True
    obtain q b1 where c: "be_commit be (wn_revision s) ?next (if resume then [TextMessage RoleUser (we_delivery env ?rs)] else []) (ctx 2) b = (q, b1)"
      by fastforce
    have "wait_move ?st (Delivered ?rs) ?next"
      using True wait_move.begin_work wait_move.deliver check_results_all by (cases resume) auto
    note m = refused_or_moved [OF assms(1) s c this]
    from assms(2) True Inr c have "b' = b1" "r = (case q of Inl e \<Rightarrow> Inl (no_outcome, Some e) | Inr _ \<Rightarrow> Inr ?rs)"
      by (cases resume; cases q; simp add: start_claimed_def Let_def)+
    with m show ?thesis by (cases q) (auto simp: quiet_move s)
  qed
qed

lemma moved_between:
  assumes "ok b \<and> waits_moved snap nr b out b'" "snap b0 = snap b" "snap b'' = snap b'"
  shows "waits_moved snap nr b0 out b''"
  using assms by (auto simp: waits_moved_def)

lemma start_moves:
  assumes "ok (wc_backend c)" "drive_start env be present owned st ctx now resume c = (r, c')"
  shows "ok (wc_backend c') \<and> waits_moved snap nr (wc_backend c) (case r of Inl _ \<Rightarrow> Quiet | Inr rs \<Rightarrow> Delivered rs) (wc_backend c')"
proof (cases "present \<and> owned \<and> \<not> wc_running c")
  case False
  with assms show ?thesis by (auto simp: drive_start_def quiet_move split: if_splits)
next
  case True
  obtain e b where b: "be_claim be (ctx 0) (wc_backend c) = (e, b)" by fastforce
  note k = claim_keeps [OF assms(1) b]
  obtain q b1 where q: "start_claimed env be ctx now resume b = (q, b1)" by fastforce
  note m = start_claimed_moves [OF conjunct1 [OF k] q]
  show ?thesis
  proof (cases e)
    case (Some x)
    with True b assms(2) k show ?thesis by (auto simp: drive_start_def quiet_move)
  next
    case None
    with True b q assms(2) have "r = q" "wc_backend c' = (if isl q then be_release be b1 else b1)"
      by (cases q; auto simp: drive_start_def)+
    with m k release_keeps [of b1] show ?thesis by (cases q) (auto simp: waits_moved_def)
  qed
qed

lemma finish_moves:
  assumes "ok (wc_backend c)" and "drive_finish env be ctx runErr ctxErr terminal c = (r, c')"
  shows "ok (wc_backend c') \<and> waits_moved snap nr (wc_backend c) Quiet (wc_backend c')"
proof -
  obtain q b1 where q: "finish_claimed env be ctx runErr ctxErr terminal (wc_backend c) = (q, b1)" by fastforce
  have c': "wc_backend c' = be_release be b1" using assms(2) q by (auto simp: drive_finish_def)
  have "ok b1 \<and> waits_moved snap nr (wc_backend c) Quiet b1"
  proof (cases "wait_load env be (ctx 3) (wc_backend c)")
    case (Inl e)
    with q assms(1) show ?thesis by (auto simp: finish_claimed_def quiet_move)
  next
    case (Inr s)
    then have s: "s = snap (wc_backend c)" using loaded [OF assms(1)] by blast
    let ?next = "finish_state runErr ctxErr (wn_state s)"
    obtain x b2 where x: "be_commit be (wn_revision s) ?next [] (ctx 4) (wc_backend c) = (x, b2)" by fastforce
    have "wait_move (wn_state s) Quiet ?next"
      by (auto simp: finish_state_def intro: wait_move.suspend wait_move.interrupt wait_move.clear)
    note m = refused_or_moved [OF assms(1) s x this]
    have "b1 = b2" using q Inr x by (cases x) (auto simp: finish_claimed_def Let_def split: if_splits option.splits)
    with m show ?thesis by (cases x) (auto simp: quiet_move)
  qed
  with c' release_keeps [of b1] show ?thesis by (auto simp: waits_moved_def)
qed

lemma resolve_moves:
  assumes "ok (wc_backend c)" "wait_Resolve env be ctx now i bound res c = (r, c')"
  shows "ok (wc_backend c') \<and> waits_moved snap nr (wc_backend c) (if r = Inr True then Resolved i res else Quiet) (wc_backend c')"
proof (cases "wait_load env be (ctx 0) (wc_backend c)")
  case (Inl e)
  with assms show ?thesis by (auto simp: wait_Resolve_def quiet_move)
next
  case (Inr s)
  then have s: "s = snap (wc_backend c)" using loaded [OF assms(1)] by blast
  show ?thesis
  proof (cases "\<exists>rs. ws_status (wn_state s) = WaitWaiting \<and> resolve_in env now i bound res (ws_requests (wn_state s)) = Inr (Some rs)")
    case False
    with Inr assms(2) have "c' = c" "r \<noteq> Inr True" by (auto simp: wait_Resolve_def split: if_splits sum.splits option.splits)
    with assms(1) show ?thesis by (auto simp: quiet_move)
  next
    case True
    then obtain rs where rs: "ws_status (wn_state s) = WaitWaiting" "resolve_in env now i bound res (ws_requests (wn_state s)) = Inr (Some rs)" by blast
    obtain x b1 where x: "be_commit be (wn_revision s) ((wn_state s)\<lparr>ws_requests := rs\<rparr>) [] (ctx 1) (wc_backend c) = (x, b1)" by fastforce
    have "wait_move (wn_state s) (Resolved i res) ((wn_state s)\<lparr>ws_requests := rs\<rparr>)"
      using resolve_in_settles [OF rs(2)] rs(1) by (auto intro: wait_move.settle)
    note m = refused_or_moved [OF assms(1) s x this]
    from assms(2) Inr rs x have "wc_backend c' = b1" "r = (case x of Inl e \<Rightarrow> Inl e | Inr _ \<Rightarrow> Inr True)"
      by (cases x; auto simp: wait_Resolve_def)+
    with m show ?thesis by (cases x) (auto simp: quiet_move)
  qed
qed

lemma abandon_moves:
  assumes "ok (wc_backend c)" and "wait_Abandon env be ctx c = (r, c')"
  shows "ok (wc_backend c') \<and> waits_moved snap nr (wc_backend c) Quiet (wc_backend c')"
proof (cases "wc_running c")
  case True
  with assms show ?thesis by (auto simp: wait_Abandon_def quiet_move)
next
  case False
  obtain e b where b: "be_claim be (ctx 0) (wc_backend c) = (e, b)" by fastforce
  note k = claim_keeps [OF assms(1) b]
  show ?thesis
  proof (cases "e = None \<and> (\<exists>s. wait_load env be (ctx 1) b = Inr s)")
    case bad: False
    from bad False b assms(2) have "wc_backend c' = b \<or> wc_backend c' = be_release be b"
      by (auto simp: wait_Abandon_def split: option.splits sum.splits)
    with k release_keeps [of b] show ?thesis by (auto simp: quiet_move)
  next
    case True
    then obtain s where s: "e = None" "wait_load env be (ctx 1) b = Inr s" "s = snap b" using loaded k by blast
    obtain x b1 where x: "be_commit be (wn_revision s) idle_state [] (ctx 2) b = (x, b1)" by fastforce
    note m = refused_or_moved [OF conjunct1 [OF k] s(3) x wait_move.clear]
    from False b s x assms(2) have "wc_backend c' = be_release be b1" by (cases x) (auto simp: wait_Abandon_def)
    with m k release_keeps [of b1] show ?thesis by (cases x) (auto simp: waits_moved_def)
  qed
qed

lemma enqueue_moves:
  assumes "ok (wc_backend c)" "wait_enqueue env be ctx random expires kind callID payload c = (r, c')"
  shows "ok (wc_backend c') \<and> waits_moved snap nr (wc_backend c) (case r of Inl _ \<Rightarrow> Quiet | Inr q \<Rightarrow> Enqueued q) (wc_backend c')"
proof (cases "\<exists>s q. wc_driver c \<noteq> None \<and> wc_run_id c \<noteq> [] \<and> callID \<noteq> [] \<and> wait_load env be (ctx 0) (wc_backend c) = Inr s \<and>
    ws_status (wn_state s) = WaitRunning \<and> length (ws_requests (wn_state s)) < 16 \<and> newRequest env random kind (wc_run_id c) callID payload expires = Inr q")
  case False
  with assms(2) have "c' = c \<and> isl r" by (auto simp: wait_enqueue_def not_less dest!: sym [of "Inl _"] split: if_splits sum.splits)
  with assms(1) show ?thesis by (cases r) (auto simp: quiet_move)
next
  case True
  then obtain s q where g: "wc_driver c \<noteq> None" "wc_run_id c \<noteq> []" "callID \<noteq> []" "wait_load env be (ctx 0) (wc_backend c) = Inr s"
    "ws_status (wn_state s) = WaitRunning" "length (ws_requests (wn_state s)) < 16" "newRequest env random kind (wc_run_id c) callID payload expires = Inr q"
    by blast
  have s: "s = snap (wc_backend c)" using loaded [OF assms(1) g(4)] by blast
  let ?next = "(wn_state s)\<lparr>ws_requests := ws_requests (wn_state s) @ [q]\<rparr>"
  obtain x b1 where x: "be_commit be (wn_revision s) ?next [] (ctx 1) (wc_backend c) = (x, b1)" by fastforce
  have "wq_result q = []" using g(7) by (auto simp: newRequest_def split: option.splits)
  then have "wait_move (wn_state s) (Enqueued q) ?next" by (rule wait_move.request [OF g(5)])
  note m = refused_or_moved [OF assms(1) s x this]
  from assms(2) g x have "wc_backend c' = b1" "r = (case x of Inl e \<Rightarrow> Inl e | Inr _ \<Rightarrow> Inr q)"
    by (cases x; auto simp: wait_enqueue_def)+
  with m show ?thesis by (cases x) (auto simp: quiet_move)
qed

lemma consume_moves:
  assumes "ok (wc_backend c)" "wait_consume env be ctx now kind payload c = (r, c')"
  shows "ok (wc_backend c') \<and> waits_moved snap nr (wc_backend c) (case r of Inr (Some q) \<Rightarrow> Consumed q | _ \<Rightarrow> Quiet) (wc_backend c')"
proof (cases "\<exists>s q rest. wc_driver c \<noteq> None \<and> wait_load env be (ctx 0) (wc_backend c) = Inr s \<and>
    find_grant kind (fingerprint env kind payload) (ws_grants (wn_state s)) = Some (q, rest) \<and> now < wq_expires q")
  case False
  with assms(2) have "c' = c" "\<forall>q. r \<noteq> Inr (Some q)" by (fastforce simp: wait_consume_def split: if_splits sum.splits option.splits)+
  with assms(1) show ?thesis by (auto simp: quiet_move split: sum.splits option.splits)
next
  case True
  then obtain s q rest where g: "wc_driver c \<noteq> None" "wait_load env be (ctx 0) (wc_backend c) = Inr s" "now < wq_expires q"
    and f: "find_grant kind (fingerprint env kind payload) (ws_grants (wn_state s)) = Some (q, rest)" by blast
  have s: "s = snap (wc_backend c)" using loaded [OF assms(1) g(2)] by blast
  let ?next = "(wn_state s)\<lparr>ws_grants := rest\<rparr>"
  obtain x b1 where x: "be_commit be (wn_revision s) ?next [] (ctx 1) (wc_backend c) = (x, b1)" by fastforce
  have "wait_move (wn_state s) (Consumed q) ?next" using f find_grant_kind [OF f] by (auto intro: wait_move.grant)
  note m = refused_or_moved [OF assms(1) s x this]
  from assms(2) g f x have "wc_backend c' = b1" "r = (case x of Inl e \<Rightarrow> Inl e | Inr _ \<Rightarrow> Inr (Some q))"
    by (cases x; auto simp: wait_consume_def)+
  with m show ?thesis by (cases x) (auto simp: quiet_move)
qed

text \<open>Every event is a move of the checkpoint, stored in the backend's normal form.\<close>

lemma event_moves:
  assumes "ok (wc_backend c)" "wait_do env be ev c = (out, c')"
  shows "ok (wc_backend c') \<and> waits_moved snap nr (wc_backend c) out (wc_backend c')"
proof (cases ev)
  case (EvStart resume present owned st ctx now)
  then show ?thesis using assms start_moves [OF assms(1), of present owned st ctx now resume]
    by (fastforce split: prod.splits sum.splits)
next
  case (EvRunStart st runID)
  then show ?thesis using assms by (auto simp: wait_OnRunStart_def quiet_move split: if_splits)
next
  case (EvFinish runErr ctxErr terminal ctx)
  then show ?thesis using assms finish_moves [OF assms(1) prod.collapse [symmetric], of ctx runErr ctxErr terminal]
    by (auto simp: quiet_move split: if_splits)
next
  case EvUnwind
  then show ?thesis using assms release_keeps by (auto simp: drive_unwind_def quiet_move split: if_splits)
next
  case (EvEnqueue random expires kind callID payload ctx)
  then show ?thesis using assms enqueue_moves [OF assms(1), of ctx random expires kind callID payload]
    by (fastforce split: prod.splits sum.splits)
next
  case (EvConsume now kind payload ctx)
  then show ?thesis using assms consume_moves [OF assms(1), of ctx now kind payload]
    by (fastforce split: prod.splits sum.splits option.splits)
next
  case (EvResolve now i bound res ctx)
  then show ?thesis using assms resolve_moves [OF assms(1), of ctx now i bound res]
    by (fastforce split: prod.splits sum.splits bool.splits)
next
  case (EvAbandon ctx)
  then show ?thesis using assms abandon_moves [OF assms(1) prod.collapse [symmetric], of ctx] by auto
next
  case (EvAppend rs ctx)
  then show ?thesis using assms append_keeps by (auto simp: quiet_move)
next
  case EvRenew
  then show ?thesis using assms by (auto simp: quiet_move)
qed

lemma history_inv:
  assumes "ok (wc_backend c)" "waits_inv nr [] (wn_state (snap (wc_backend c)))" "distinct (drawn evs)" "wait_history env be evs c = (outs, c')"
  shows "ok (wc_backend c') \<and> waits_inv nr outs (wn_state (snap (wc_backend c'))) \<and>
    wq_id ` set (enqueued_of outs) \<subseteq> (\<lambda>h. ''wait-'' @ h) ` set (drawn evs)"
  using assms(3,4)
proof (induction evs arbitrary: outs c' rule: rev_induct)
  case Nil
  with assms(1,2) show ?case by simp
next
  case (snoc ev evs)
  obtain os c1 where o: "wait_history env be evs c = (os, c1)" by fastforce
  obtain out where d: "wait_do env be ev c1 = (out, c')" and outs: "outs = os @ [out]"
    using snoc.prems(2) o by (auto simp: wait_history_append split: prod.splits)
  have dr: "drawn (evs @ [ev]) = drawn evs @ drawn [ev]" by (simp add: drawn_def)
  have ih: "ok (wc_backend c1)" "waits_inv nr os (wn_state (snap (wc_backend c1)))"
    "wq_id ` set (enqueued_of os) \<subseteq> (\<lambda>h. ''wait-'' @ h) ` set (drawn evs)"
    using snoc.IH [OF _ o] snoc.prems(1) dr by simp_all
  have fresh: "wq_id r \<notin> wq_id ` set (enqueued_of os) \<and> wq_id r \<in> (\<lambda>h. ''wait-'' @ h) ` set (drawn [ev])" if "out = Enqueued r" for r
    using enqueued_random [OF d [unfolded that]] ih(3) snoc.prems(1) dr by auto
  note m = event_moves [OF ih(1) d]
  have "waits_inv nr (os @ [out]) (wn_state (snap (wc_backend c')))"
  proof (cases "out = Quiet \<and> snap (wc_backend c') = snap (wc_backend c1)")
    case True
    with waits_inv_move [OF ih(2) wait_move.stay] show ?thesis by simp
  next
    case False
    with m obtain st where st: "wait_move (wn_state (snap (wc_backend c1))) out st" "kept_state nr st (wn_state (snap (wc_backend c')))"
      by (auto simp: waits_moved_def)
    from waits_inv_move [OF ih(2) st(1)] fresh have "waits_inv nr (os @ [out]) st" by blast
    then show ?thesis using st(2) normal_idem by (rule waits_inv_kept)
  qed
  moreover have "wq_id ` set (enqueued_of (os @ [out])) \<subseteq> (\<lambda>h. ''wait-'' @ h) ` set (drawn (evs @ [ev]))"
    using ih(3) fresh by (cases out) (auto simp: dr)
  ultimately show ?case using m by (simp add: outs)
qed

text \<open>Without a driver and with a checkpoint of a run that never finished, nothing happens until the host abandons it.\<close>

lemma unfinished_event:
  assumes "ok (wc_backend c)" "ws_status (wn_state (snap (wc_backend c))) \<in> {WaitRunning, WaitInterrupted}"
    and "wc_driver c = None" "\<not> wc_running c" "\<forall>ctx. ev \<noteq> EvAbandon ctx" "wait_do env be ev c = (out, c')"
  shows "out = Quiet \<and> ok (wc_backend c') \<and> snap (wc_backend c') = snap (wc_backend c) \<and> wc_driver c' = None \<and> \<not> wc_running c'"
proof (cases ev)
  case (EvStart resume present owned st ctx now)
  obtain e b where b: "be_claim be (ctx 0) (wc_backend c) = (e, b)" by fastforce
  note k = claim_keeps [OF assms(1) b]
  have "start_claimed env be ctx now resume b = (Inl (no_outcome, Some ErrInterrupted), b) \<or>
    (\<exists>e. start_claimed env be ctx now resume b = (Inl (no_outcome, Some e), b))"
    using loaded [OF conjunct1 [OF k], of "ctx 1"] assms(2) k
    by (auto simp: start_claimed_def Let_def split: sum.splits)
  then obtain x where "start_claimed env be ctx now resume b = (Inl (no_outcome, Some x), b)" by blast
  with EvStart assms b k release_keeps [of b] show ?thesis
    by (auto simp: drive_start_def split: if_splits option.splits)
next
  case (EvResolve now i bound res ctx)
  with assms loaded [OF assms(1), of "ctx 0"] show ?thesis
    by (auto simp: wait_Resolve_def split: sum.splits if_splits)
next
  case (EvAppend rs ctx)
  with assms append_keeps show ?thesis by auto
qed (use assms in \<open>auto simp: wait_OnRunStart_def wait_enqueue_def wait_consume_def split: if_splits\<close>)

lemma unfinished_history:
  assumes "ok (wc_backend c)" "ws_status (wn_state (snap (wc_backend c))) \<in> {WaitRunning, WaitInterrupted}"
    and "wc_driver c = None" "\<not> wc_running c" "\<forall>ctx. EvAbandon ctx \<notin> set evs" "wait_history env be evs c = (outs, c')"
  shows "set outs \<subseteq> {Quiet} \<and> ok (wc_backend c') \<and> snap (wc_backend c') = snap (wc_backend c)"
  using assms
proof (induction evs arbitrary: c outs)
  case (Cons ev evs)
  obtain out c1 where d: "wait_do env be ev c = (out, c1)" by fastforce
  obtain os where o: "wait_history env be evs c1 = (os, c')" "outs = out # os"
    using Cons.prems(6) d by (auto split: prod.splits)
  have "\<forall>ctx. ev \<noteq> EvAbandon ctx" using Cons.prems(5) by auto
  note s = unfinished_event [OF Cons.prems(1-4) this d]
  show ?case using Cons.IH [of c1 os] s Cons.prems(2,5) o by auto
qed auto

end

end
