(* ===== verification/Durable_Memory.thy ===== *)
theory Durable_Memory
  imports Durable_Facts
begin

section \<open>Durable waits on the volatile backend\<close>

text \<open>
  The volatile backend keeps the contract of a backend; the properties of waits follow for every
  history of a controller over it. Its checkpoint and the deliveries are one append of the log.
\<close>

subsection \<open>The backend keeps the contract\<close>

definition memory_ok :: "memory_backend \<Rightarrow> bool" where
  "memory_ok b = (session_inv (mb_log b) \<and> wn_revision (mb_snapshot b) \<le> length (ms_records (mb_log b)))"

definition memory_snap :: "memory_backend \<Rightarrow> wait_snapshot" where
  "memory_snap b = clone_snapshot (mb_snapshot b)"

lemma compact_nil: "compact_from False d = [] \<Longrightarrow> \<forall>c \<in> set d. is_space c"
  by (induction d) (auto split: if_splits)

lemma spaces_invalid: "\<forall>c \<in> set d. is_space c \<Longrightarrow> \<not> json_run BeginValue [] d"
  by (induction d) (auto simp: begin_value_def is_space_def)

lemma compact_nonempty: "ValidJSON d \<Longrightarrow> json_compact d \<noteq> []"
  using compact_nil [of d] spaces_invalid [of d] ValidJSON_imp_json_valid [of d] by (auto simp: json_compact_def json_valid_def)

lemma checked_results: "check_requests env seen rs = None \<Longrightarrow> r \<in> set rs \<Longrightarrow> wq_result r = [] \<or> ValidJSON (wq_result r)"
  by (induction rs arbitrary: seen) (auto simp: request_fields_ok_def split: if_splits option.splits)

lemma kept_clones:
  assumes "\<forall>r \<in> set rs. wq_result r = [] \<or> ValidJSON (wq_result r)"
  shows "list_all2 (kept_request json_compact) rs (map clone_request rs)"
  using assms
proof (induction rs)
  case (Cons r rs)
  then show ?case using compact_nonempty [of "wq_result r"]
    by (auto simp: kept_request_def same_request_def json_compact_def)
qed simp

lemma kept_clone:
  assumes "wait_Validate env st = None"
  shows "kept_state json_compact st (clone_wait_state st)"
proof -
  have "check_requests env [] (ws_requests st @ ws_grants st) = None"
    using assms by (auto simp: wait_Validate_def split: if_splits option.splits)
  from checked_results [OF this] show ?thesis by (auto simp: kept_state_def intro!: kept_clones)
qed

lemma appended:
  assumes "AppendRecords url c c2 clock s rs = (Inr cs, s')" "rs \<noteq> []" "session_inv s"
  shows "ms_records s' = ms_records s @ cs" "length cs = length rs" "sr_sequence (hd cs) = length (ms_records s) + 1"
    "ms_messages s' = ms_messages s @ conversation_messages cs" "session_inv s'"
    "map sr_kind cs = map sr_kind rs" "map (map_option m_content \<circ> sr_message) cs = map (map_option m_content \<circ> sr_message) rs"
proof -
  note a = append_is_atomic [where url = url and c = c and ?c2.0 = c2 and clock = clock and s = s and rs = rs]
  show c: "ms_records s' = ms_records s @ cs" and l: "length cs = length rs" and "map sr_kind cs = map sr_kind rs"
    and "map (map_option m_content \<circ> sr_message) cs = map (map_option m_content \<circ> sr_message) rs"
    using a by (simp_all add: assms(1))
  show i: "session_inv s'" using AppendRecords_inv [OF assms(3), of url c c2 clock rs] assms(1) by simp
  then have "log_ok_from (ms_id s') (ms_records s) cs" by (simp add: session_inv_def c log_ok_append)
  then show "sr_sequence (hd cs) = length (ms_records s) + 1"
    using l assms(2) by (cases cs) (auto simp: record_follows_def)
  show "ms_messages s' = ms_messages s @ conversation_messages cs"
    using i assms(3) by (simp add: session_inv_def c)
qed

lemma memory_commit_cases:
  obtains (refused) e where "memory_Commit env url n st msgs ctx b = (Inl e, b)"
  | (committed) cs s where "memory_Commit env url n st msgs ctx b = (Inr \<lparr>wn_revision = sr_sequence (hd cs), wn_state = clone_wait_state st\<rparr>,
        b\<lparr>mb_log := s, mb_snapshot := \<lparr>wn_revision = sr_sequence (hd cs), wn_state = clone_wait_state st\<rparr>\<rparr>)"
      "AppendRecords url (cc_err ctx) (cc_err2 ctx) (cc_clock ctx) (mb_log b) (checkpoint_records env st msgs) = (Inr cs, s)"
      "wait_Validate env st = None" "n = wn_revision (mb_snapshot b)"
proof (cases "wait_Validate env st = None \<and> wn_revision (mb_snapshot b) = n")
  case False
  then have "\<exists>e. memory_Commit env url n st msgs ctx b = (Inl e, b)" by (auto simp: memory_Commit_def split: option.splits)
  with refused show ?thesis by blast
next
  case True
  obtain r s where a: "AppendRecords url (cc_err ctx) (cc_err2 ctx) (cc_clock ctx) (mb_log b) (checkpoint_records env st msgs) = (r, s)" by fastforce
  show ?thesis
  proof (cases r)
    case (Inl e)
    with append_is_atomic [where url = url and c = "cc_err ctx" and ?c2.0 = "cc_err2 ctx" and clock = "cc_clock ctx" and s = "mb_log b" and rs = "checkpoint_records env st msgs"] a
    have "s = mb_log b" by simp
    with True a Inl refused show ?thesis by (simp add: memory_Commit_def)
  next
    case (Inr cs)
    have "memory_Commit env url n st msgs ctx b = (Inr \<lparr>wn_revision = sr_sequence (hd cs), wn_state = clone_wait_state st\<rparr>,
        b\<lparr>mb_log := s, mb_snapshot := \<lparr>wn_revision = sr_sequence (hd cs), wn_state = clone_wait_state st\<rparr>\<rparr>)"
      using True a Inr by (simp add: memory_Commit_def Let_def clone_snapshot_def)
    then show ?thesis using True a Inr by (intro committed [of cs s]) simp_all
  qed
qed

interpretation memory_waits: durable_backend env "memory_wait env url" memory_ok memory_snap json_compact for env url
proof (unfold_locales, goal_cases)
  case (1 b ctx s)
  then show ?case by (auto simp: memory_wait_def memory_Load_def memory_snap_def split: option.splits)
next
  case (2 b n st ms ctx e b')
  then show ?case by (cases rule: memory_commit_cases [of env url n st ms ctx b]) (auto simp: memory_wait_def)
next
  case (3 b n st ms ctx s b')
  then show ?case
  proof (cases rule: memory_commit_cases [of env url n st ms ctx b])
    case (committed cs s1)
    have "checkpoint_records env st ms \<noteq> []" by (simp add: checkpoint_records_def)
    note a = appended [OF committed(2) this] 
    have "session_inv (mb_log b)" "wn_revision (mb_snapshot b) \<le> length (ms_records (mb_log b))" using 3(1) by (simp_all add: memory_ok_def)
    note a = a [OF this(1)] this(2)
    have "cs \<noteq> []" using a(2) by (auto simp: checkpoint_records_def)
    then show ?thesis using 3 committed(1,3,4) a kept_clone [OF committed(3)]
      by (auto simp: memory_wait_def memory_ok_def memory_snap_def clone_snapshot_def Suc_le_eq)
  qed (auto simp: memory_wait_def)
next
  case (4 b ctx e b')
  then show ?case by (auto simp: memory_wait_def memory_Claim_def memory_ok_def memory_snap_def split: option.splits if_splits)
next
  case (5 b)
  then show ?case by (simp add: memory_wait_def memory_release_def memory_ok_def memory_snap_def)
next
  case (6 b rs ctx)
  then show ?case
    using AppendRecords_inv [of "mb_log b" url "cc_err ctx" "cc_err2 ctx" "cc_clock ctx" rs]
      append_is_atomic [where url = url and c = "cc_err ctx" and ?c2.0 = "cc_err2 ctx" and clock = "cc_clock ctx" and s = "mb_log b" and rs = rs]
    by (auto simp: memory_wait_def memory_ok_def memory_snap_def split: prod.splits sum.splits)
qed simp

definition idle_controller :: "string \<Rightarrow> memory_backend wait_controller" where
  "idle_controller i = \<lparr>wc_backend = NewMemoryBackend i, wc_running = False, wc_driver = None, wc_run_id = []\<rparr>"

lemma idle_controller_inv:
  "memory_ok (wc_backend (idle_controller i))" "waits_inv nr [] (wn_state (memory_snap (wc_backend (idle_controller i))))"
  by (simp_all add: idle_controller_def NewMemoryBackend_def memory_ok_def memory_snap_def session_inv_new
     waits_inv_def ids_inv_def closed_inv_def open_inv_def held_def clone_snapshot_def)
    (simp_all add: idle_state_def clone_wait_state_def)

lemmas memory_history = memory_waits.history_inv [OF idle_controller_inv(1) idle_controller_inv(2)]

subsection \<open>Commits and resumption\<close>

text \<open>Records without a parent that are neither intents nor outcomes are always staged.\<close>

definition plain_kind :: "session_record \<Rightarrow> bool" where
  "plain_kind r = (sr_parent r = None \<and> (sr_kind r = RecordExtension \<or> sr_kind r = RecordConversation))"

lemma stage_plain: "list_all plain_kind rs \<Longrightarrow> \<exists>st'. stage s clock st rs = Inr st'"
proof (induction rs arbitrary: st)
  case (Cons r rs)
  then have "check_parent s st r = None" "stage_index s st r = Inr st"
    by (auto simp: plain_kind_def check_parent_def stage_index_def split: option.splits)
  with Cons show ?case by simp
qed simp

lemma checkpoint_plain: "list_all plain_kind (checkpoint_records env st msgs)"
  by (auto simp: checkpoint_records_def plain_kind_def blank_record_def conversation_record_def BuiltinRecord_def list_all_iff)

lemma commit_succeeds:
  assumes "wait_Validate env st = None" "n = wn_revision (mb_snapshot b)" "cc_err ctx = None" "cc_err2 ctx = None" "ms_id (mb_log b) \<noteq> []"
    and "first_err (precheck url) (checkpoint_records env st msgs) = None"
  shows "\<exists>s b'. memory_Commit env url n st msgs ctx b = (Inr s, b')"
proof -
  obtain st' where "stage (mb_log b) (cc_clock ctx) blank_staging (checkpoint_records env st msgs) = Inr st'"
    using stage_plain [OF checkpoint_plain] by blast
  with assms show ?thesis by (simp add: memory_Commit_def AppendRecords_def Let_def del: first_err_None)
qed

lemma memory_wait_simps [simp]:
  "be_id (memory_wait env url) b = ms_id (mb_log b)" "be_claim (memory_wait env url) = memory_Claim"
  "be_release (memory_wait env url) = memory_release" "be_load (memory_wait env url) = memory_Load"
  "be_commit (memory_wait env url) = memory_Commit env url"
  by (simp_all add: memory_wait_def)

lemma conversation_contents:
  "map sr_kind cs = map (\<lambda>_. RecordConversation) msgs \<Longrightarrow> map (map_option m_content \<circ> sr_message) cs = map (Some \<circ> m_content) msgs \<Longrightarrow>
     map m_content (conversation_messages cs) = map m_content msgs"
proof (induction cs arbitrary: msgs)
  case (Cons c cs)
  then obtain m ms where "msgs = m # ms" by (cases msgs) auto
  with Cons show ?case by (auto simp: conversation_messages_def)
qed (simp add: conversation_messages_def)

lemma checkpoint_kinds:
  "map sr_kind (checkpoint_records env st msgs) = RecordExtension # map (\<lambda>_. RecordConversation) msgs"
  "map (map_option m_content \<circ> sr_message) (checkpoint_records env st msgs) = None # map (Some \<circ> m_content) msgs"
  by (simp_all add: checkpoint_records_def blank_record_def conversation_record_def BuiltinRecord_def comp_def)

lemma checkpoint_contents:
  assumes "map sr_kind cs = RecordExtension # map (\<lambda>_. RecordConversation) msgs" "map (map_option m_content \<circ> sr_message) cs = None # map (Some \<circ> m_content) msgs"
  shows "map m_content (conversation_messages cs) = map m_content msgs"
proof -
  from assms obtain c0 cs1 where "cs = c0 # cs1" by (cases cs) auto
  with assms conversation_contents [of cs1 msgs] show ?thesis by (simp add: conversation_messages_def)
qed

lemma settled_as_unique: "distinct (map fst rs) \<Longrightarrow> (i, res) \<in> set rs \<Longrightarrow> \<exists>!res. (i, res) \<in> set rs"
  by (auto dest: eq_key_imp_eq_value)

lemma resolve_in_skip:
  "\<forall>q \<in> set pre. wq_id q \<noteq> i \<Longrightarrow> resolve_in env now i bound res (pre @ rs) = map_sum id (map_option (append pre)) (resolve_in env now i bound res rs)"
proof (induction pre)
  case Nil
  show ?case by (cases "resolve_in env now i bound res rs") (auto simp: option.map_ident_strong)
next
  case (Cons q pre)
  then show ?case by (cases "resolve_in env now i bound res rs") (auto simp: option.map_comp comp_def)
qed

lemma clone_resolution:
  assumes "\<And>p. we_parse env (json_compact p) = we_parse env p"
  shows "validateResolution env (clone_request r) res = validateResolution env r res"
  by (simp add: validateResolution_def unmarshal_def assms)

lemma validate_ignores_result [simp]: "validateResolution env (r\<lparr>wq_result := d\<rparr>) res = validateResolution env r res"
  by (simp add: validateResolution_def)

lemma check_requests_bounds:
  "check_requests env seen rs = None \<Longrightarrow> r \<in> set rs \<Longrightarrow> int (length (wq_payload r)) \<le> 32768 \<and> int (length (wq_result r)) \<le> 16384"
  by (induction rs arbitrary: seen) (auto simp: request_fields_ok_def split: if_splits option.splits)

subsection \<open>Properties\<close>



text \<open>
  C9. A decision is consumed once: when a handler of a run consumes a grant, that request was
  submitted before, with the same identity, run, call and binding, it was resolved exactly once, the
  grant carries the JSON of that resolution, it was delivered to the conversation, and it was not
  consumed before - in any history in which \<open>crypto/rand\<close> does not repeat itself.
\<close>

theorem decision_is_consumed_once:
  assumes "wait_history env (memory_wait env url) (evs @ [ev]) (idle_controller i) = (outs @ [Consumed g], c)" "distinct (drawn (evs @ [ev]))"
  shows "asked_for outs g \<and> (\<exists>!res. (wq_id g, res) \<in> set (resolved_of outs)) \<and> settled_as json_compact outs g \<and>
    wq_id g \<in> wq_id ` set (delivered_of outs) \<and> wq_id g \<notin> wq_id ` set (consumed_of outs)"
proof -
  have "waits_inv json_compact (outs @ [Consumed g]) (wn_state (memory_snap (wc_backend c)))"
    using memory_history [OF assms(2,1)] by blast
  then have asked: "asked_for outs g" and ans: "settled_as json_compact outs g" and keys: "distinct (map fst (resolved_of outs))"
    and ids: "wq_id g \<in> wq_id ` set (delivered_of outs)" "wq_id g \<notin> wq_id ` set (consumed_of outs)"
    by (simp_all add: waits_inv_def closed_inv_def held_def ids_inv_def asked_for_def settled_as_def)
  from ans settled_as_unique [OF keys] have "\<exists>!res. (wq_id g, res) \<in> set (resolved_of outs)" unfolding settled_as_def by blast
  with asked ans ids show ?thesis by simp
qed

text \<open>
  C10. A result is delivered once: the requests a resumed run starts with were all submitted and
  resolved exactly once before, their results are those resolutions, and none of them was delivered
  by an earlier resumption or twice in this one.
\<close>

theorem result_is_delivered_once:
  assumes "wait_history env (memory_wait env url) (evs @ [ev]) (idle_controller i) = (outs @ [Delivered rs], c)" "distinct (drawn (evs @ [ev]))"
  shows "distinct (map wq_id (delivered_of outs @ rs)) \<and>
    (\<forall>r. r \<in> set rs \<longrightarrow> asked_for outs r \<and> (\<exists>!res. (wq_id r, res) \<in> set (resolved_of outs)) \<and> settled_as json_compact outs r)"
proof -
  have inv: "waits_inv json_compact (outs @ [Delivered rs]) (wn_state (memory_snap (wc_backend c)))"
    using memory_history [OF assms(2,1)] by blast
  then have keys: "distinct (map fst (resolved_of outs))" and ids: "distinct (map wq_id (delivered_of outs @ rs))"
    by (simp_all add: waits_inv_def ids_inv_def)
  have "asked_for outs r \<and> (\<exists>!res. (wq_id r, res) \<in> set (resolved_of outs)) \<and> settled_as json_compact outs r" if r: "r \<in> set rs" for r
  proof -
    have "asked_for outs r" and ans: "settled_as json_compact outs r"
      using inv r by (simp_all add: waits_inv_def closed_inv_def held_def asked_for_def settled_as_def)
    moreover from ans settled_as_unique [OF keys] have "\<exists>!res. (wq_id r, res) \<in> set (resolved_of outs)" unfolding settled_as_def by blast
    ultimately show ?thesis by simp
  qed
  with ids show ?thesis by simp
qed

text \<open>
  C11. A run that never finished is never replayed: once a history left the checkpoint running or
  interrupted and no run is driven, then as long as the host does not abandon it, no event whatever
  starts or resumes a run, submits, resolves or consumes a request, and the snapshot stays the same.
\<close>

theorem unfinished_run_is_never_replayed:
  assumes "wait_history env (memory_wait env url) evs (idle_controller i) = (outs, c)" "distinct (drawn evs)"
    and "ws_status (wn_state (memory_snap (wc_backend c))) \<in> {WaitRunning, WaitInterrupted}" "wc_driver c = None" "\<not> wc_running c"
    and "\<forall>ctx. EvAbandon ctx \<notin> set later" "wait_history env (memory_wait env url) later c = (more_outs, c')"
  shows "set more_outs \<subseteq> {Quiet} \<and> memory_snap (wc_backend c') = memory_snap (wc_backend c)"
  using memory_history [OF assms(2,1)] memory_waits.unfinished_history [OF _ assms(3-7)] by blast

text \<open>
  C14. A waiting session whose results are all there is resumed exactly when its next state fits: with
  live contexts, no other run and storable records, \<open>Resume\<close> delivers the requests and takes the
  session over if and only if the state with the new grants passes validation.
\<close>

theorem resolved_session_resumes_iff_it_fits:
  assumes "memory_ok (wc_backend c)" "\<not> wc_running c" "\<not> mb_active (wc_backend c)" "ms_id (mb_log (wc_backend c)) \<noteq> []"
    and "cc_err (ctx 0) = None" "cc_err (ctx 1) = None" "cc_err (ctx 2) = None" "cc_err2 (ctx 2) = None"
    and "st = wn_state (memory_snap (wc_backend c))" "wait_Validate env st = None" "ws_status st = WaitWaiting"
    and "check_results now 0 (ws_requests st) = AllResolved"
    and "first_err (precheck url) (checkpoint_records env ((granted_state st)\<lparr>ws_status := WaitRunning\<rparr>) [TextMessage RoleUser (we_delivery env (ws_requests st))]) = None"
  shows "(\<exists>c'. drive_start env (memory_wait env url) True True agent ctx now True c = (Inr (ws_requests st), c') \<and> wc_driver c' = Some agent) \<longleftrightarrow>
    wait_Validate env ((granted_state st)\<lparr>ws_status := WaitRunning\<rparr>) = None"
proof -
  let ?next = "(granted_state st)\<lparr>ws_status := WaitRunning\<rparr>" and ?b = "(wc_backend c)\<lparr>mb_active := True\<rparr>"
  let ?commit = "memory_Commit env url (wn_revision (mb_snapshot ?b)) ?next [TextMessage RoleUser (we_delivery env (ws_requests st))] (ctx 2) ?b"
  have load: "wait_load env (memory_wait env url) (ctx 1) ?b = Inr (memory_snap (wc_backend c))"
    using assms(6,9,10) by (simp add: wait_load_def memory_Load_def memory_snap_def)
  have start: "start_claimed env (memory_wait env url) ctx now True ?b =
      (case ?commit of (Inl e, b') \<Rightarrow> (Inl (no_outcome, Some e), b') | (Inr _, b') \<Rightarrow> (Inr (ws_requests st), b'))"
    using load assms(11,12) unfolding assms(9) by (simp add: start_claimed_def Let_def memory_snap_def split: prod.split sum.split)
  show ?thesis
  proof
    assume "wait_Validate env ?next = None"
    then obtain s b' where "?commit = (Inr s, b')" using commit_succeeds assms(4,7,8,13) by fastforce
    with start assms(2,3,5) show "\<exists>c'. drive_start env (memory_wait env url) True True agent ctx now True c = (Inr (ws_requests st), c') \<and> wc_driver c' = Some agent"
      by (simp add: drive_start_def memory_Claim_def)
  next
    assume "\<exists>c'. drive_start env (memory_wait env url) True True agent ctx now True c = (Inr (ws_requests st), c') \<and> wc_driver c' = Some agent"
    then have "\<not> is_err (fst ?commit)" using start assms(2,3,5)
      by (auto simp: drive_start_def memory_Claim_def split: prod.splits sum.splits)
    then show "wait_Validate env ?next = None"
      by (cases rule: memory_commit_cases [of env url "wn_revision (mb_snapshot ?b)" ?next "[TextMessage RoleUser (we_delivery env (ws_requests st))]" "ctx 2" ?b]) auto
  qed
qed



text \<open>
  C17. A request can jam its session: a checkpoint is validated before it is cloned, and cloning
  through JSON can make a payload or a result longer. If it makes one longer than the bound, the
  commit succeeds but no later load does, and abandoning the session is refused as well.
\<close>

theorem expanded_request_jams_session:
  assumes "memory_Commit env url n st msgs x b = (Inr s, wc_backend c)" "r \<in> set (ws_requests st @ ws_grants st)"
    and "length (json_compact (wq_payload r)) > 32768 \<or> length (json_compact (wq_result r)) > 16384"
  shows "is_err (wait_load env (memory_wait env url) ctx0 (wc_backend c)) \<and>
    (case wait_Abandon env (memory_wait env url) ctx c of (e, c') \<Rightarrow> e \<noteq> None \<and> memory_snap (wc_backend c') = memory_snap (wc_backend c))"
proof -
  have snap: "mb_snapshot (wc_backend c) = \<lparr>wn_revision = wn_revision s, wn_state = clone_wait_state st\<rparr>"
    using assms(1) by (cases rule: memory_commit_cases [of env url n st msgs x b]) auto
  have "check_requests env [] (ws_requests (clone_wait_state st) @ ws_grants (clone_wait_state st)) \<noteq> None"
  proof
    assume "check_requests env [] (ws_requests (clone_wait_state st) @ ws_grants (clone_wait_state st)) = None"
    from check_requests_bounds [OF this, of "clone_request r"] assms(2,3) show False by auto
  qed
  then have bad: "wait_Validate env (clone_wait_state st) \<noteq> None" by (auto simp: wait_Validate_def)
  have jam: "is_err (wait_load env (memory_wait env url) ctx0 b0)" if "mb_snapshot b0 = mb_snapshot (wc_backend c)" for ctx0 b0
    using bad that by (auto simp: wait_load_def memory_Load_def snap split: option.splits)
  have "\<exists>e. wait_load env (memory_wait env url) (ctx 1) ((wc_backend c)\<lparr>mb_active := True\<rparr>) = Inl e"
    using jam [of "(wc_backend c)\<lparr>mb_active := True\<rparr>" "ctx 1"] by (auto simp: isl_def)
  with jam [of "wc_backend c" ctx0] show ?thesis
    by (auto simp: wait_Abandon_def memory_Claim_def memory_release_def memory_snap_def split: option.splits)
qed

text \<open>
  C12. An approval is bound to its action: when the handler \<open>Approve\<close> grants or denies, it consumed
  in that very call a stored decision whose binding is the fingerprint of this request's session,
  tool, arguments digest, summary and effect and which had not expired, the answer is what the
  decision says, and it holds for one use only.
\<close>

theorem approval_is_bound_to_its_action:
  assumes "wait_Approve env (memory_wait env url) ctx random now ttl r c = (Inr d, c')"
  shows "\<exists>payload g. we_marshal_binding env \<lparr>ab_session_id = ar_session r, ab_tool_name = ar_tool r, ab_arguments_sha256 = ar_hash r,
        ab_summary = ar_summary r, ab_effect = ar_effect r\<rparr> = Some payload \<and>
      wait_do env (memory_wait env url) (EvConsume now ''approval'' payload ctx) c = (Consumed g, c') \<and>
      wq_kind g = ''approval'' \<and> wq_binding g = fingerprint env ''approval'' payload \<and> now < wq_expires g \<and>
      decode_resolution env (we_allow env) (wq_result g) = Inr (Some (ad_allowed d)) \<and> ad_scope d = ScopeOnce"
proof -
  from assms obtain payload where p: "we_marshal_binding env \<lparr>ab_session_id = ar_session r, ab_tool_name = ar_tool r, ab_arguments_sha256 = ar_hash r,
        ab_summary = ar_summary r, ab_effect = ar_effect r\<rparr> = Some payload"
    by (auto simp: wait_Approve_def split: if_splits option.splits)
  from assms p obtain g where g: "wait_consume env (memory_wait env url) ctx now ''approval'' payload c = (Inr (Some g), c')"
    "decode_resolution env (we_allow env) (wq_result g) = Inr (Some (ad_allowed d))" "ad_scope d = ScopeOnce"
    by (auto simp: wait_Approve_def split: if_splits prod.splits sum.splits option.splits)
  from g(1) have "wq_kind g = ''approval'' \<and> wq_binding g = fingerprint env ''approval'' payload \<and> now < wq_expires g"
    by (auto simp: wait_consume_def dest: find_grant_kind split: if_splits sum.splits option.splits prod.splits)
  with p g show ?thesis by auto
qed

subsection \<open>A session run to its end\<close>

definition allow_text :: string where "allow_text = CHR 0x7B # CHR 0x22 # ''allow'' @ CHR 0x22 # '':true'' @ [CHR 0x7D]"

definition sample_binding :: approval_binding where
  "sample_binding = \<lparr>ab_session_id = ''s'', ab_tool_name = ''write'', ab_arguments_sha256 = replicate 64 (CHR ''0''), ab_summary = [],
     ab_effect = \<lparr>ef_kind = EffectRead, ef_description = [], ef_resources = []\<rparr>\<rparr>"

definition sample_wait_env :: wait_env where
  "sample_wait_env =
     \<lparr>we_parse = (\<lambda>d. Some (JString (json_compact d))), we_canonical = (\<lambda>v. case v of JString d \<Rightarrow> Some d | _ \<Rightarrow> None), we_digest = id,
      we_question = (\<lambda>_. Inl (ErrNew ''json'')), we_answer = (\<lambda>_. Inl (ErrNew ''json'')),
      we_allow = (\<lambda>v. if v = JString allow_text then Inr (Some True) else Inl (ErrNew ''json'')),
      we_binding = (\<lambda>_. Inr sample_binding), we_encode = (\<lambda>_. Some ''{}''), we_marshal_binding = (\<lambda>_. Some ''{}''),
      we_marshal_question = (\<lambda>_. ''{}''), we_delivery = (\<lambda>_. ''results''), we_external = Inr, we_receipt = (\<lambda>_ _. ''{}'')\<rparr>"

definition live_context :: call_context where
  "live_context = \<lparr>cc_err = None, cc_err2 = None, cc_clock = (\<lambda>_. 0)\<rparr>"

text \<open>A run asks for an approval and suspends; the host decides; the resumed run consumes the decision.\<close>

definition sample_request :: wait_request where
  "sample_request = \<lparr>wq_id = ''wait-00'', wq_kind = ''approval'', wq_run_id = ''r1'', wq_call_id = ''c1'',
     wq_binding = fingerprint sample_wait_env ''approval'' ''{}'', wq_payload = ''{}'', wq_expires = 10, wq_result = []\<rparr>"

definition sample_events :: "call_context wait_event list" where
  "sample_events =
     [EvStart False True True ''agent'' (\<lambda>_. live_context) (\<lambda>_. 1), EvRunStart ''agent'' ''r1'',
      EvEnqueue (Some ''00'') 10 ''approval'' ''c1'' ''{}'' (\<lambda>_. live_context), EvFinish (Some suspension) None None (\<lambda>_. live_context),
      EvResolve 2 ''wait-00'' (fingerprint sample_wait_env ''approval'' ''{}'') allow_text (\<lambda>_. live_context),
      EvStart True True True ''agent'' (\<lambda>_. live_context) (\<lambda>_. 3), EvConsume 4 ''approval'' ''{}'' (\<lambda>_. live_context)]"

definition sample_entry :: "nat \<Rightarrow> session_record" where
  "sample_entry i = (blank_record RecordExtension)\<lparr>sr_sequence := i, sr_id := ''s:'' @ dec i, sr_namespace := wait_namespace, sr_type := wait_snapshot_type,
     sr_schema_version := 1, sr_payload := ''{}'',
     sr_parent := (if i = 1 then None else Some \<lparr>rf_session_id = ''s'', rf_record_id = ''s:'' @ dec (i - 1), rf_sequence = i - 1\<rparr>)\<rparr>"

definition sample_delivery :: message where
  "sample_delivery = (TextMessage RoleUser ''results'')\<lparr>m_id := ''s:6''\<rparr>"

definition sample_log :: "session_record list \<Rightarrow> message list \<Rightarrow> memory_session" where
  "sample_log rs ms = (NewMemorySession ''s'')\<lparr>ms_records := rs, ms_messages := ms\<rparr>"

definition sample_controller :: "memory_session \<Rightarrow> wait_status \<Rightarrow> nat \<Rightarrow> wait_request list \<Rightarrow> wait_request list \<Rightarrow> bool \<Rightarrow> string \<Rightarrow> memory_backend wait_controller" where
  "sample_controller s status n requests grants driven runID =
     \<lparr>wc_backend = \<lparr>mb_log = s, mb_snapshot = \<lparr>wn_revision = n, wn_state = \<lparr>ws_version = 1, ws_status = status, ws_requests = requests, ws_grants = grants\<rparr>\<rparr>,
        mb_active = driven\<rparr>, wc_running = driven, wc_driver = (if driven then Some ''agent'' else None), wc_run_id = runID\<rparr>"

abbreviation sample_backend :: "(call_context, memory_backend) wait_backend" where
  "sample_backend \<equiv> memory_wait sample_wait_env (\<lambda>_. None)"

definition sample_state :: "nat \<Rightarrow> memory_backend wait_controller" where
  "sample_state n =
     (let es = map sample_entry [1..<Suc n]; settled_as = sample_request\<lparr>wq_result := allow_text\<rparr> in
      if n = 1 then sample_controller (sample_log es []) WaitRunning 1 [] [] True ''r1''
      else if n = 2 then sample_controller (sample_log es []) WaitRunning 2 [sample_request] [] True ''r1''
      else if n = 3 then sample_controller (sample_log es []) WaitWaiting 3 [sample_request] [] False []
      else if n = 4 then sample_controller (sample_log es []) WaitWaiting 4 [settled_as] [] False []
      else sample_controller (sample_log (es @ [(conversation_record sample_delivery)\<lparr>sr_sequence := 6, sr_id := ''s:6'', sr_namespace := kernel_namespace,
          sr_type := ''conversation'', sr_schema_version := 1,
          sr_parent := Some \<lparr>rf_session_id = ''s'', rf_record_id = ''s:5'', rf_sequence = 5\<rparr>\<rparr>]) [sample_delivery]) WaitRunning 5 [] [settled_as] True [])"

lemma sample_step_start:
  "wait_history sample_wait_env sample_backend (take 2 sample_events) (idle_controller ''s'') = ([Delivered [], Quiet], sample_state 1)"
  by code_simp

lemma sample_step_ask: "wait_do sample_wait_env sample_backend (sample_events ! 2) (sample_state 1) = (Enqueued sample_request, sample_state 2)"
  by code_simp

lemma sample_step_suspend: "wait_do sample_wait_env sample_backend (sample_events ! 3) (sample_state 2) = (Quiet, sample_state 3)"
  by code_simp

lemma sample_step_resolve:
  "wait_do sample_wait_env sample_backend (sample_events ! 4) (sample_state 3) = (Resolved ''wait-00'' allow_text, sample_state 4)"
  by code_simp

lemma sample_step_resume:
  "wait_do sample_wait_env sample_backend (sample_events ! 5) (sample_state 4) = (Delivered [sample_request\<lparr>wq_result := allow_text\<rparr>], sample_state 5)"
  by code_simp

lemma sample_step_consume:
  "fst (wait_do sample_wait_env sample_backend (sample_events ! 6) (sample_state 5)) = Consumed (sample_request\<lparr>wq_result := allow_text\<rparr>)"
  by code_simp

definition sample_outputs :: "wait_output list" where
  "sample_outputs = [Delivered [], Quiet, Enqueued sample_request, Quiet, Resolved ''wait-00'' allow_text]"

lemma sample_history:
  "wait_history sample_wait_env sample_backend (take 5 sample_events) (idle_controller ''s'') =
     (sample_outputs, sample_state 4)"
proof -
  have "take 5 sample_events = take 2 sample_events @ [sample_events ! 2, sample_events ! 3, sample_events ! 4]"
    by (simp add: sample_events_def)
  then show ?thesis
    using sample_step_start sample_step_ask sample_step_suspend sample_step_resolve
    by (simp add: wait_history_append sample_outputs_def del: wait_do.simps)
qed

lemma sample_drawn: "drawn sample_events = [''00'']" "drawn (take 6 sample_events) = [''00'']" "drawn (take 5 sample_events) = [''00'']"
  by (simp_all add: drawn_def sample_events_def)

lemma sample_resumed:
  "wait_history sample_wait_env sample_backend (take 5 sample_events @ [sample_events ! 5]) (idle_controller ''s'') =
     (sample_outputs @ [Delivered [sample_request\<lparr>wq_result := allow_text\<rparr>]], sample_state 5)"
  using sample_history sample_step_resume by (simp add: wait_history_append del: wait_do.simps)

lemma sample_consumed:
  "wait_history sample_wait_env sample_backend (take 6 sample_events @ [sample_events ! 6]) (idle_controller ''s'') =
     ((sample_outputs @ [Delivered [sample_request\<lparr>wq_result := allow_text\<rparr>]]) @
       [Consumed (sample_request\<lparr>wq_result := allow_text\<rparr>)], snd (wait_do sample_wait_env sample_backend (sample_events ! 6) (sample_state 5)))"
proof -
  have "take 6 sample_events = take 5 sample_events @ [sample_events ! 5]" by (simp add: sample_events_def)
  then show ?thesis
    using sample_resumed sample_step_consume wait_history_append [of sample_wait_env sample_backend "take 6 sample_events" "[sample_events ! 6]"]
    by (simp add: case_prod_beta Let_def prod_eq_iff del: wait_do.simps)
qed

lemma sample_ok: "memory_ok (wc_backend (sample_state 4))"
  using memory_history [OF _ sample_history] sample_drawn(3) by simp



definition sample_approval :: approval_request where
  "sample_approval = \<lparr>ar_id = ''a'', ar_session = ''s'', ar_run = [], ar_call = ''c2'', ar_tool = ''write'',
     ar_effect = \<lparr>ef_kind = EffectRead, ef_description = [], ef_resources = []\<rparr>, ar_summary = [], ar_hash = replicate 64 (CHR ''0'')\<rparr>"

lemma sample_approved:
  "fst (wait_Approve sample_wait_env sample_backend (\<lambda>_. live_context) None 4 5 sample_approval (sample_state 5)) = Inr \<lparr>ad_allowed = True, ad_scope = ScopeOnce\<rparr>"
  by code_simp

theorem approval_is_bound_to_its_action_witness:
  "\<exists>g. fst (wait_do sample_wait_env sample_backend (EvConsume 4 ''approval'' ''{}'' (\<lambda>_. live_context)) (sample_state 5)) = Consumed g \<and>
     wq_binding g = fingerprint sample_wait_env ''approval'' ''{}''"
proof -
  obtain c' where "wait_Approve sample_wait_env sample_backend (\<lambda>_. live_context) None 4 5 sample_approval (sample_state 5) =
      (Inr \<lparr>ad_allowed = True, ad_scope = ScopeOnce\<rparr>, c')"
    using sample_approved by (metis prod.collapse)
  from approval_is_bound_to_its_action [OF this] show ?thesis by (auto simp: sample_wait_env_def)
qed

theorem decision_is_consumed_once_witness:
  "asked_for (sample_outputs @ [Delivered [sample_request\<lparr>wq_result := allow_text\<rparr>]]) sample_request \<and>
   (\<exists>!res. (''wait-00'', res) \<in> set (resolved_of (sample_outputs @ [Delivered [sample_request\<lparr>wq_result := allow_text\<rparr>]])))"
  using decision_is_consumed_once [OF sample_consumed] sample_drawn(1)
  by (simp add: sample_events_def asked_for_def same_request_def sample_request_def)

theorem result_is_delivered_once_witness:
  "(\<exists>!res. (''wait-00'', res) \<in> set (resolved_of sample_outputs)) \<and> asked_for sample_outputs (sample_request\<lparr>wq_result := allow_text\<rparr>)"
  using result_is_delivered_once [OF sample_resumed] sample_drawn(2)
  by (simp add: sample_events_def sample_request_def)

text \<open>The process is replaced while the run is being driven: nothing is replayed.\<close>

theorem unfinished_run_is_never_replayed_witness:
  "set (fst (wait_history sample_wait_env sample_backend [sample_events ! 0, sample_events ! 2, sample_events ! 6]
      (snd (wait_history sample_wait_env sample_backend (take 2 sample_events @ [EvRenew]) (idle_controller ''s''))))) \<subseteq> {Quiet}"
proof -
  let ?c = "snd (wait_history sample_wait_env sample_backend (take 2 sample_events @ [EvRenew]) (idle_controller ''s''))"
  have c: "?c = (sample_state 1)\<lparr>wc_running := False, wc_driver := None, wc_run_id := []\<rparr>"
    using sample_step_start by (simp add: wait_history_append)
  have "ws_status (wn_state (memory_snap (wc_backend ?c))) \<in> {WaitRunning, WaitInterrupted}" "wc_driver ?c = None" "\<not> wc_running ?c"
    unfolding c by (simp_all add: sample_state_def sample_controller_def memory_snap_def Let_def)
  moreover have "distinct (drawn (take 2 sample_events @ [EvRenew]))" "\<forall>ctx. EvAbandon ctx \<notin> set [sample_events ! 0, sample_events ! 2, sample_events ! 6]"
    by (simp_all add: drawn_def sample_events_def)
  ultimately show ?thesis
    using unfinished_run_is_never_replayed [OF prod.collapse [symmetric] _ _ _ _ _ prod.collapse [symmetric]] by blast
qed

theorem resolved_session_resumes_iff_it_fits_witness:
  "\<exists>c'. drive_start sample_wait_env sample_backend True True ''agent'' (\<lambda>_. live_context) (\<lambda>_. 3) True (sample_state 4) =
     (Inr [sample_request\<lparr>wq_result := allow_text\<rparr>], c') \<and> wc_driver c' = Some ''agent''"
proof -
  let ?st = "wn_state (memory_snap (wc_backend (sample_state 4)))"
  have "\<not> wc_running (sample_state 4)" "\<not> mb_active (wc_backend (sample_state 4))" "ms_id (mb_log (wc_backend (sample_state 4))) \<noteq> []"
    "cc_err live_context = None" "cc_err2 live_context = None" by code_simp+
  moreover have "wait_Validate sample_wait_env ?st = None" by code_simp
  moreover have "ws_status ?st = WaitWaiting" "check_results (\<lambda>_. 3) 0 (ws_requests ?st) = AllResolved"
    "ws_requests ?st = [sample_request\<lparr>wq_result := allow_text\<rparr>]" by code_simp+
  moreover have "first_err (precheck (\<lambda>_. None)) (checkpoint_records sample_wait_env ((granted_state ?st)\<lparr>ws_status := WaitRunning\<rparr>)
      [TextMessage RoleUser (we_delivery sample_wait_env (ws_requests ?st))]) = None" by code_simp
  moreover have "wait_Validate sample_wait_env ((granted_state ?st)\<lparr>ws_status := WaitRunning\<rparr>) = None" by code_simp
  ultimately show ?thesis
    using resolved_session_resumes_iff_it_fits [OF sample_ok, of "\<lambda>_. live_context" ?st sample_wait_env "\<lambda>_. 3" "\<lambda>_. None" "''agent''"]
    by (simp del: first_err_None)
qed



text \<open>An external request whose payload, a JSON object with one long string of HTML characters, is within the bounds, and beyond them once escaped.\<close>

definition angle_payload :: "nat \<Rightarrow> string" where
  "angle_payload n = CHR 0x7B # CHR 0x22 # CHR ''a'' # CHR 0x22 # CHR '':'' # CHR 0x22 # replicate n (CHR ''<'') @ [CHR 0x22, CHR 0x7D]"

lemma angles_utf8: "utf8_valid (replicate n (CHR ''<'') @ s) = utf8_valid s"
proof (induction n)
  case (Suc n)
  have "utf8_valid [CHR ''<'']" by code_simp
  from utf8_valid_append_iff [OF this, of "replicate n (CHR ''<'') @ s"] Suc show ?case by simp
qed simp

lemma angles_run: "json_run InStr stack (replicate n (CHR ''<'') @ s) = json_run InStr stack s"
  by (induction n) (simp_all add: byte_of_def)

lemma angles_scan: "surrogate_scan True (replicate n (CHR ''<'') @ s) = surrogate_scan True s"
  by (induction n) (simp_all add: surrogate_scan_Cons)

lemma angles_compact: "s \<noteq> [] \<Longrightarrow> compact_from True (replicate n (CHR ''<'') @ s) = concat (replicate n (html_escape (CHR ''<''))) @ compact_from True s"
proof (induction n)
  case (Suc n)
  then obtain c t where "replicate n (CHR ''<'') @ s = c # t" by (cases "replicate n (CHR ''<'') @ s") auto
  with Suc show ?case by simp
qed simp

lemma angle_payload_valid: "ValidJSON (angle_payload n)" "utf8_valid (angle_payload n)"
proof -
  have "utf8_valid ([CHR 0x7B, CHR 0x22, CHR ''a'', CHR 0x22, CHR '':'', CHR 0x22])" "utf8_valid [CHR 0x22, CHR 0x7D]" by code_simp+
  then show u: "utf8_valid (angle_payload n)"
    using utf8_valid_append [of "[CHR 0x7B, CHR 0x22, CHR ''a'', CHR 0x22, CHR '':'', CHR 0x22]" "replicate n (CHR ''<'') @ [CHR 0x22, CHR 0x7D]"]
    by (simp add: angle_payload_def angles_utf8)
  have "json_valid (angle_payload n)"
    by (simp add: json_valid_def angle_payload_def angles_run begin_value_def begin_string_def json_push_def json_pop_def max_nesting_def
        end_value_def is_space_def is_digit_def in_range_def byte_of_def)
  moreover have "surrogate_scan False (angle_payload n) = Accepted"
    by (simp add: angle_payload_def surrogate_scan_Cons angles_scan surrogate_scan.simps [of _ "[]"])
  ultimately show "ValidJSON (angle_payload n)" using u by (simp add: ValidJSON_def ValidJSON_scan_def)
qed

lemma angle_payload_grows: "length (angle_payload n) = n + 8" "length (json_compact (angle_payload n)) \<ge> 6 * n"
proof -
  have "length (concat (replicate n (html_escape (CHR ''<'')))) = 6 * n" by (induction n) (simp_all add: html_escape_def)
  moreover have "length (compact_from True (replicate n (CHR ''<'') @ [CHR 0x22, CHR 0x7D])) \<ge> length (concat (replicate n (html_escape (CHR ''<''))))"
    by (simp add: angles_compact)
  ultimately show "length (json_compact (angle_payload n)) \<ge> 6 * n"
    by (simp add: json_compact_def angle_payload_def is_space_def line_separator_def)
qed (simp add: angle_payload_def)

theorem expanded_request_jams_session_witness:
  "\<exists>st c. wait_Validate sample_wait_env st = None \<and> mb_snapshot (wc_backend c) = \<lparr>wn_revision = 1, wn_state = clone_wait_state st\<rparr> \<and>
     is_err (wait_load sample_wait_env sample_backend live_context (wc_backend c)) \<and> fst (wait_Abandon sample_wait_env sample_backend (\<lambda>_. live_context) c) \<noteq> None"
proof -
  let ?r = "sample_request\<lparr>wq_kind := ''external'', wq_binding := fingerprint sample_wait_env ''external'' (angle_payload 5600), wq_payload := angle_payload 5600\<rparr>"
  let ?st = "\<lparr>ws_version = 1, ws_status = WaitRunning, ws_requests = [?r], ws_grants = []\<rparr>"
  have "json_map_object (angle_payload 5600)"
    using angle_payload_valid(1) [of 5600] ValidJSON_imp_json_valid by (simp add: json_map_object_def angle_payload_def is_space_def)
  moreover have "utf8_valid (wq_id ?r @ wq_run_id ?r @ wq_call_id ?r)" by (simp add: sample_request_def) code_simp
  ultimately have ok: "wait_Validate sample_wait_env ?st = None"
    using angle_payload_valid [of 5600] angle_payload_grows(1) [of 5600]
    by (simp add: wait_Validate_def request_fields_ok_def validateRequestSource_def sample_request_def sample_wait_env_def)
  have "checkpoint_records sample_wait_env ?st [] = checkpoint_records sample_wait_env idle_state []"
    by (simp add: checkpoint_records_def sample_wait_env_def)
  moreover have "first_err (precheck (\<lambda>_. None)) (checkpoint_records sample_wait_env idle_state []) = None" by code_simp
  ultimately have pre: "first_err (precheck (\<lambda>_. None)) (checkpoint_records sample_wait_env ?st []) = None" by (simp only:)
  have "\<exists>s b'. memory_Commit sample_wait_env (\<lambda>_. None) 0 ?st [] live_context (NewMemoryBackend ''s'') = (Inr s, b')"
    by (rule commit_succeeds [OF ok _ _ _ _ pre]) (simp_all add: NewMemoryBackend_def NewMemorySession_def live_context_def)
  then obtain s b' where b': "memory_Commit sample_wait_env (\<lambda>_. None) 0 ?st [] live_context (NewMemoryBackend ''s'') = (Inr s, b')" by blast
  let ?c = "(idle_controller ''s'')\<lparr>wc_backend := b'\<rparr>"
  have big: "length (json_compact (wq_payload ?r)) > 32768 \<or> length (json_compact (wq_result ?r)) > 16384"
    using angle_payload_grows(2) [of 5600] by simp
  have "memory_ok (NewMemoryBackend ''s'')" using idle_controller_inv(1) [of "''s''"] by (simp add: idle_controller_def)
  then have snap: "mb_snapshot b' = \<lparr>wn_revision = 1, wn_state = clone_wait_state ?st\<rparr>"
  proof (cases rule: memory_commit_cases [of sample_wait_env "\<lambda>_. None" 0 ?st "[]" live_context "NewMemoryBackend ''s''"])
    case (committed cs s1)
    have "sr_sequence (hd cs) = 1"
      using appended(3) [OF committed(2)] session_inv_new by (simp add: checkpoint_records_def NewMemoryBackend_def NewMemorySession_def)
    with committed(1) b' show ?thesis by simp
  qed (use b' in simp)
  have "memory_Commit sample_wait_env (\<lambda>_. None) 0 ?st [] live_context (NewMemoryBackend ''s'') = (Inr s, wc_backend ?c)" using b' by simp
  from expanded_request_jams_session [OF this, of ?r live_context "\<lambda>_. live_context"] big
  have "is_err (wait_load sample_wait_env sample_backend live_context b')" "fst (wait_Abandon sample_wait_env sample_backend (\<lambda>_. live_context) ?c) \<noteq> None"
    by (simp_all add: case_prod_beta)
  with ok snap show ?thesis by (intro exI [of _ ?st] exI [of _ ?c]) simp
qed

end
