(* ===== verification/Spec2Isabelle.thy ===== *)
theory Spec2Isabelle
  imports Tool_Lock Bus Accumulator Tool_Prepare Tool_Execute Memory_Session Builtin_Middleware Guard Graph_Replay Graph_Channel Fuel_Module Context_Runtime Context_Services Context_Reference Loop_Facts Admission Plan_Facts Durable_Memory
begin

text \<open>
  A verification library for Alva, an agent kernel, its SDK and its sandbox, written in Go. All
  paths below are under src/. The library models the program's own logic: the kernel that runs
  tools and records what they did, the agent components around it, the graph engine, the context
  system and the instrumentation of sandboxed modules. It does not model the model providers, the
  database engine, the desktop application or the operating system.

  The parts and how they interact. An agent loop (sdk/kernel/core/loop.go) asks a model for the
  next message (sdk/llm/wire: messages, JSON, streams), prepares and schedules the tool calls of
  the answer (tool_prepare.go, scheduling.go), authorizes them (sdk/agent/security), runs them in
  waves of calls that do not conflict (tool_batch.go) through an onion of middleware
  (tool_execute.go) under a lock registry shared by agents (tool_lock.go), and commits an intent
  and one outcome for each call to a conversation log (sdk/agent/core/session.go). Before each
  model call a context system (sdk/kernel/core/context_runtime.go, sdk/agent/context) selects,
  shrinks or externalizes what the model is shown. Workflows over such agents are graphs
  (sdk/agent/graph). Code the agent writes runs as WebAssembly that platform/sandbox/host/fuel.go
  has rewritten to pay for its instructions.

  Conventions. A Go string or byte slice is a \<^typ>\<open>string\<close> of bytes; a slice a list; a pointer or a
  nil interface an option; a map a HOL map, or an association list where its size or iteration
  order matters. An error is a tree (\<open>go_error\<close>), a fallible function returns \<open>go_error + 'a\<close> or an
  optional error beside the state it leaves. A mutex-protected method is one step on a record. Code
  of the host, of callbacks and of libraries outside the repository is an argument, often over an
  abstract world; \<open>ctx.Err()\<close> is an argument for each place that reads it, so that cancellation may
  come at any of them. Time is an argument. Where integers cannot exceed what the code itself bounds
  they are \<^typ>\<open>int\<close> or \<^typ>\<open>nat\<close>; where overflow matters they are words (Bus, Wasm_Binary, Fuel) or carry
  an explicit wrap-around (Graph_Channel).

  Theories, in the order of their imports.
  \<^item> Prelude: list facts, the collections \<open>alva_inv\<close> and \<open>alva_simps\<close>. Go_Errors: errors, joining,
    classification (sdk/kernel/abi/errors.go). Go_Text: strings, paths, decimal numbers.
  \<^item> Scheduling, Tool_Lock: claims and conflicts of tool calls; the lock registry as a step relation,
    with mutual exclusion, fairness and progress. The locale \<open>conflict\<close> is what both use.
  \<^item> Bus: capabilities that are registered once, and topics whose subscribers are told of every
    event they miss.
  \<^item> Wire_Json, Wire, Accumulator: JSON text, messages and their validation, and the accumulation of
    a streamed answer within its budgets.
  \<^item> Records, Tool_Registry, Memory_Session: log records, the tool registry (refining a list; locale
    \<open>named_directory\<close>), the in-memory log (locale \<open>conversation_log\<close>).
  \<^item> Tool_Batch, Tool_Prepare, Tool_Execute, Builtin_Middleware: preparation, waves, settlement, the
    middleware onion, dangling calls and loop detection.
  \<^item> Model_Config, Model_Invoke: model settings; a model behind wrappers that may retry, filter or
    swallow errors (strategy trees; locale \<open>invocation_relation\<close>, interpreted three times), and the
    collector that assembles its stream.
  \<^item> Agent_Loop, Loop_Facts: \<open>DefaultAgentLoop.Run\<close> composed of all of these over an arbitrary external
    state, and what a run leaves behind: every intent settled, success reported last, executions
    only of committed calls.
  \<^item> Permission_Rules, Permission, Guard: patterns, the permission manager as interleaved steps with
    its revisions, and confinement of paths to the workspace.
  \<^item> Effects, Graph, Graph_Engine, Graph_Bounds, Graph_Resume, Graph_Replay, Graph_Channel: the graph
    engine in a state-and-error monad (locale \<open>world_relation\<close>), its termination, checkpoints and
    resumption, channels, retry delays, compaction and the volatile checkpoint saver.
  \<^item> Context_Types, Context_Window, Context_Store, Context_Apply, Context_Hooks, Context_Services,
    Context_Runtime, Context_Reference: the context store and its invariant, cutting without
    splitting tool calls from results, chains of hooks, externalization, preparing a view (locale
    \<open>recording_handle\<close>) and paged text references (locale \<open>paged_texts\<close>).
  \<^item> Wasm_Binary, Fuel, Fuel_Meter, Fuel_Module: the WebAssembly reader and writer, the instruction
    decoder, the metering of bodies, and of a whole module.

  \<^item> Admission: the budget check of the request that really reaches the model.
  \<^item> Session_Store, Session_Facts, Session_Contract: the durable session store (platform/storage/
    session), its tables as lists of rows and each operation as one transaction; that it keeps a
    causal log, provides \<open>conversation_log\<close> like the in-memory session and agrees with it record by
    record, settles interrupted runs, and compares before it appends a snapshot.
  \<^item> Task_State, Interaction, Planning, Plan_Facts: tasks, questions to a human, and the planning
    service over the store: exact validation (cycle search included), life cycle, no lost updates.
  \<^item> Durable_State, Durable, Durable_Facts, Durable_Memory: runs that wait for a human (harness/
    durable). Requests bound to their payload and checkpoints; the controller's drive, hooks and
    handlers; histories of events, the abstract checkpoint \<open>wait_move\<close> they refine and the contract
    of a backend (locale \<open>durable_backend\<close>); the volatile backend, which interprets it, and the
    properties: nothing is decided, delivered or consumed twice, nothing is replayed.

  What the lemmas show. For each component an invariant and its preservation by every operation
  (\<open>..._inv\<close>); for each optimised or effectful routine what it computes, on every branch; for
  each loop that it ends; and for the components together the numbered claims.

  Bounds and fuel. Loops of the code are recursive functions with a measure, except: the rounds of
  \<open>retainProtocolGroups\<close> (length of the messages plus one, proved enough in \<open>retain_groups_exact\<close>), the
  polls of a lock request (each poll is a step), the supersteps of a graph (\<open>MaxSteps\<close>, the code's own
  bound) and the turns of a reader of pages (\<open>read_all\<close>, length of the text plus one, proved enough).

  Not modelled. Providers and codecs (integration), artifacts and memory on SQLite (platform/storage), processes,
  media and secrets (platform/system), browser and command hosts (platform/host), the plugins
  (extension), the assembly of the harness, the hub application and the command line: they are glue around
  third-party libraries, databases and processes, or await later work; PROJECT.json lists them with the
  reason. Within the modelled parts, reflection (nil checks of interfaces), copying of values and
  the goroutine scheduler have no counterpart; concurrent operations appear as sequences of atomic
  steps in any order.
\<close>

end
